(* ===== verification/Prelude.thy ===== *)
theory Prelude
  imports Main "HOL-Library.List_Lexorder" "HOL-Library.Word" "HOL-Library.Code_Target_Nat"
begin

text \<open>
  The part of the Rust standard library that the modelled crates use, and the lemmas every
  component shares.
  A Rust \<^verbatim>\<open>char\<close> is its code point, a natural number, and a \<^verbatim>\<open>String\<close> is the list of its
  code points; ASCII literals are written \<open>lit ''...''\<close>. Comparing two such lists
  lexicographically agrees with comparing their UTF-8 bytes, which is how Rust orders strings.
  \<^verbatim>\<open>Result\<close> is a sum with the error on the left, \<^verbatim>\<open>BTreeMap\<close> an association list in strictly
  increasing key order. Machine integers are words; \<^verbatim>\<open>usize\<close> is \<open>nat\<close>, as it only counts
  things in memory here.
  The locales state the three contracts that several components satisfy: a finite map with
  insertion, an encoder with its decoder, and a state with operations that keep an invariant.
\<close>


type_synonym uchar = nat
type_synonym ustr = "uchar list"
type_synonym u8 = "8 word"
type_synonym u16 = "16 word"
type_synonym u32 = "32 word"
type_synonym u64 = "64 word"
type_synonym i32 = "32 word"
type_synonym i64 = "64 word"

section \<open>Definitions\<close>

subsection \<open>Characters and strings\<close>

definition lit :: "string \<Rightarrow> ustr" where
  "lit s = map of_char s"

abbreviation uc :: "char \<Rightarrow> uchar" where
  "uc c \<equiv> of_char c"

text \<open>\<^verbatim>\<open>char::is_whitespace\<close> (Unicode \<open>White_Space\<close>) and \<^verbatim>\<open>char::is_control\<close> (category Cc).\<close>

definition is_whitespace :: "uchar \<Rightarrow> bool" where
  "is_whitespace c \<longleftrightarrow> (9 \<le> c \<and> c \<le> 13) \<or> c = 32 \<or> c = 133 \<or> c = 160 \<or> c = 5760
     \<or> (8192 \<le> c \<and> c \<le> 8202) \<or> c = 8232 \<or> c = 8233 \<or> c = 8239 \<or> c = 8287 \<or> c = 12288"

definition is_control :: "uchar \<Rightarrow> bool" where
  "is_control c \<longleftrightarrow> c < 32 \<or> (127 \<le> c \<and> c < 160)"

definition is_ascii_digit :: "uchar \<Rightarrow> bool" where
  "is_ascii_digit c \<longleftrightarrow> 48 \<le> c \<and> c \<le> 57"

definition ascii_lower :: "uchar \<Rightarrow> uchar" where
  "ascii_lower c = (if 65 \<le> c \<and> c \<le> 90 then c + 32 else c)"

definition to_ascii_lowercase :: "ustr \<Rightarrow> ustr" where
  "to_ascii_lowercase s = map ascii_lower s"

definition len_utf8 :: "uchar \<Rightarrow> nat" where
  "len_utf8 c = (if c < 128 then 1 else if c < 2048 then 2 else if c < 65536 then 3 else 4)"

text \<open>\<^verbatim>\<open>str::len\<close> counts UTF-8 bytes.\<close>

definition str_len :: "ustr \<Rightarrow> nat" where
  "str_len s = sum_list (map len_utf8 s)"

definition trim_start :: "ustr \<Rightarrow> ustr" where
  "trim_start s = dropWhile is_whitespace s"

definition trim_end :: "ustr \<Rightarrow> ustr" where
  "trim_end s = rev (dropWhile is_whitespace (rev s))"

definition trim :: "ustr \<Rightarrow> ustr" where
  "trim s = trim_end (trim_start s)"

definition trim_matches :: "(uchar \<Rightarrow> bool) \<Rightarrow> ustr \<Rightarrow> ustr" where
  "trim_matches p s = rev (dropWhile p (rev (dropWhile p s)))"

definition starts_with :: "ustr \<Rightarrow> ustr \<Rightarrow> bool" where
  "starts_with p s \<longleftrightarrow> take (length p) s = p"

definition ends_with :: "ustr \<Rightarrow> ustr \<Rightarrow> bool" where
  "ends_with p s \<longleftrightarrow> starts_with (rev p) (rev s)"

definition strip_prefix :: "ustr \<Rightarrow> ustr \<Rightarrow> ustr option" where
  "strip_prefix p s = (if starts_with p s then Some (drop (length p) s) else None)"

definition strip_suffix :: "ustr \<Rightarrow> ustr \<Rightarrow> ustr option" where
  "strip_suffix p s =
     (if ends_with p s then Some (take (length s - length p) s) else None)"

text \<open>\<^verbatim>\<open>str::split_once\<close> at the first occurrence; \<^verbatim>\<open>str::contains\<close>; \<^verbatim>\<open>str::replace\<close> for a pattern
  that is not empty.\<close>

fun split_once :: "ustr \<Rightarrow> ustr \<Rightarrow> (ustr \<times> ustr) option" where
  "split_once p [] = (if p = [] then Some ([], []) else None)"
| "split_once p (c # cs) =
     (if starts_with p (c # cs) then Some ([], drop (length p) (c # cs))
      else map_option (\<lambda>(a, b). (c # a, b)) (split_once p cs))"

definition contains :: "ustr \<Rightarrow> ustr \<Rightarrow> bool" where
  "contains p s \<longleftrightarrow> split_once p s \<noteq> None"

fun replace_all :: "ustr \<Rightarrow> ustr \<Rightarrow> ustr \<Rightarrow> ustr" where
  "replace_all p r [] = []"
| "replace_all p r (c # cs) =
     (if p \<noteq> [] \<and> starts_with p (c # cs) then r @ replace_all p r (drop (length p - 1) cs)
      else c # replace_all p r cs)"

text \<open>\<^verbatim>\<open>str::lines\<close>: pieces ended by a line feed lose it and one carriage return before it; a
  last piece without a line feed is kept as it is.\<close>

definition strip_cr :: "ustr \<Rightarrow> ustr" where
  "strip_cr l = (if l \<noteq> [] \<and> last l = 13 then butlast l else l)"

fun lines_acc :: "ustr \<Rightarrow> ustr \<Rightarrow> ustr list" where
  "lines_acc cur [] = (if cur = [] then [] else [rev cur])"
| "lines_acc cur (c # cs) =
     (if c = 10 then strip_cr (rev cur) # lines_acc [] cs else lines_acc (c # cur) cs)"

definition lines :: "ustr \<Rightarrow> ustr list" where
  "lines s = lines_acc [] s"

text \<open>\<^verbatim>\<open>str::split_whitespace\<close>.\<close>

fun words_acc :: "ustr \<Rightarrow> ustr \<Rightarrow> ustr list" where
  "words_acc cur [] = (if cur = [] then [] else [rev cur])"
| "words_acc cur (c # cs) =
     (if is_whitespace c then (if cur = [] then words_acc [] cs else rev cur # words_acc [] cs)
      else words_acc (c # cur) cs)"

definition split_whitespace :: "ustr \<Rightarrow> ustr list" where
  "split_whitespace s = words_acc [] s"

text \<open>\<^verbatim>\<open>[String]::join\<close>.\<close>

fun join :: "ustr \<Rightarrow> ustr list \<Rightarrow> ustr" where
  "join sep [] = []"
| "join sep [x] = x"
| "join sep (x # y # ys) = x @ sep @ join sep (y # ys)"

subsection \<open>Decimal numerals\<close>

fun show_nat :: "nat \<Rightarrow> ustr" where
  "show_nat n = (if n < 10 then [48 + n] else show_nat (n div 10) @ [48 + n mod 10])"

declare show_nat.simps [simp del]

definition hex_lower :: "nat \<Rightarrow> uchar" where
  "hex_lower d = (if d < 10 then 48 + d else 87 + d)"

fun show_hex :: "nat \<Rightarrow> ustr" where
  "show_hex n = (if n < 16 then [hex_lower n] else show_hex (n div 16) @ [hex_lower (n mod 16)])"

declare show_hex.simps [simp del]

definition show_int :: "int \<Rightarrow> ustr" where
  "show_int i = (if i < 0 then 45 # show_nat (nat (- i)) else show_nat (nat i))"

fun read_digits :: "nat \<Rightarrow> ustr \<Rightarrow> nat" where
  "read_digits n [] = n"
| "read_digits n (c # cs) = read_digits (10 * n + (c - 48)) cs"

text \<open>\<^verbatim>\<open>str::parse\<close> for machine integers: an optional sign (only a plus for unsigned types), at
  least one digit, the value in range.\<close>

definition parse_i64 :: "ustr \<Rightarrow> i64 option" where
  "parse_i64 s =
     (let neg = (s \<noteq> [] \<and> hd s = 45);
          ds = (if s \<noteq> [] \<and> (hd s = 45 \<or> hd s = 43) then tl s else s);
          n = int (read_digits 0 ds);
          v = (if neg then - n else n)
      in if ds = [] \<or> \<not> list_all is_ascii_digit ds then None
         else if - (2 ^ 63) \<le> v \<and> v < 2 ^ 63 then Some (word_of_int v) else None)"

definition parse_u32 :: "ustr \<Rightarrow> u32 option" where
  "parse_u32 s =
     (let ds = (if s \<noteq> [] \<and> hd s = 43 then tl s else s);
          n = read_digits 0 ds
      in if ds = [] \<or> \<not> list_all is_ascii_digit ds then None
         else if n < 2 ^ 32 then Some (of_nat n) else None)"

definition parse_u64 :: "ustr \<Rightarrow> u64 option" where
  "parse_u64 s =
     (let ds = (if s \<noteq> [] \<and> hd s = 43 then tl s else s);
          n = read_digits 0 ds
      in if ds = [] \<or> \<not> list_all is_ascii_digit ds then None
         else if n < 2 ^ 64 then Some (of_nat n) else None)"

subsection \<open>Results\<close>

definition rbind :: "'e + 'a \<Rightarrow> ('a \<Rightarrow> 'e + 'b) \<Rightarrow> 'e + 'b" where
  "rbind r f = (case r of Inl e \<Rightarrow> Inl e | Inr x \<Rightarrow> f x)"

definition ok_or :: "'e \<Rightarrow> 'a option \<Rightarrow> 'e + 'a" where
  "ok_or e r = (case r of None \<Rightarrow> Inl e | Some x \<Rightarrow> Inr x)"

text \<open>\<^verbatim>\<open>Option::transpose\<close> of a fallible map, and \<^verbatim>\<open>collect\<close> into a \<^verbatim>\<open>Result\<close>.\<close>

definition transpose_map :: "('a \<Rightarrow> 'e + 'b) \<Rightarrow> 'a option \<Rightarrow> 'e + 'b option" where
  "transpose_map f r = (case r of None \<Rightarrow> Inr None | Some x \<Rightarrow> rbind (f x) (\<lambda>y. Inr (Some y)))"

fun collect_results :: "('a \<Rightarrow> 'e + 'b) \<Rightarrow> 'a list \<Rightarrow> 'e + 'b list" where
  "collect_results f [] = Inr []"
| "collect_results f (x # xs) =
     rbind (f x) (\<lambda>y. rbind (collect_results f xs) (\<lambda>ys. Inr (y # ys)))"

definition is_ok :: "'e + 'a \<Rightarrow> bool" where
  "is_ok r \<longleftrightarrow> (case r of Inl _ \<Rightarrow> False | Inr _ \<Rightarrow> True)"

subsection \<open>BTreeMap\<close>

type_synonym ('k, 'v) btree = "('k \<times> 'v) list"

fun btree_insert :: "'k::linorder \<Rightarrow> 'v \<Rightarrow> ('k, 'v) btree \<Rightarrow> ('k, 'v) btree" where
  "btree_insert k v [] = [(k, v)]"
| "btree_insert k v ((k', v') # m) =
     (if k < k' then (k, v) # (k', v') # m
      else if k = k' then (k, v) # m
      else (k', v') # btree_insert k v m)"

definition btree_get :: "('k, 'v) btree \<Rightarrow> 'k \<Rightarrow> 'v option" where
  "btree_get m k = map_of m k"

definition btree_wf :: "('k::linorder, 'v) btree \<Rightarrow> bool" where
  "btree_wf m \<longleftrightarrow> sorted_wrt (<) (map fst m)"

text \<open>A map built by a sequence of insertions, in the order of the list.\<close>

definition btree_of :: "('k::linorder \<times> 'v) list \<Rightarrow> ('k, 'v) btree" where
  "btree_of kvs = fold (\<lambda>(k, v). btree_insert k v) kvs []"

subsection \<open>JSON values of serde\<close>

text \<open>The documented data type of \<^verbatim>\<open>serde_json::Value\<close>; numbers are kept as text. Its parser is an argument
  wherever it is used.\<close>

datatype Value = Null | Bool bool | Number ustr | String ustr | Array "Value list"
  | Object "(ustr, Value) btree"

definition value_as_str :: "Value \<Rightarrow> ustr option" where
  "value_as_str v = (case v of String s \<Rightarrow> Some s | _ \<Rightarrow> None)"

definition value_as_bool :: "Value \<Rightarrow> bool option" where
  "value_as_bool v = (case v of Bool b \<Rightarrow> Some b | _ \<Rightarrow> None)"

type_synonym from_str_fn = "ustr \<Rightarrow> ustr + Value"

definition value_get :: "ustr \<Rightarrow> Value \<Rightarrow> Value option" where
  "value_get k v = (case v of Object m \<Rightarrow> btree_get m k | _ \<Rightarrow> None)"

definition value_as_array :: "Value \<Rightarrow> Value list option" where
  "value_as_array v = (case v of Array vs \<Rightarrow> Some vs | _ \<Rightarrow> None)"

text \<open>A text none of whose proper suffixes is a prefix is found where it was put.\<close>

definition borderless :: "ustr \<Rightarrow> bool" where
  "borderless p \<longleftrightarrow> list_all (\<lambda>n. drop n p \<noteq> take (length p - n) p) [1..<length p]"

section \<open>Shared lemmas\<close>

subsection \<open>Strings\<close>

lemma lit_Nil [simp]: "lit [] = []"
  by (simp add: lit_def)

lemma lit_Cons: "lit (c # cs) = of_char c # lit cs"
  by (simp add: lit_def)

lemma lit_eq_Nil [simp]: "lit s = [] \<longleftrightarrow> s = []"
  by (simp add: lit_def)

lemma lit_inject [simp]: "lit s = lit t \<longleftrightarrow> s = t"
proof -
  have "inj (of_char :: char \<Rightarrow> nat)"
    by (rule injI) simp
  then show ?thesis by (simp add: lit_def inj_map_eq_map)
qed

lemma lit_append: "lit (s @ t) = lit s @ lit t"
  by (simp add: lit_def)

lemma starts_with_append [simp]: "starts_with p (p @ s)"
  by (simp add: starts_with_def)

lemma starts_withE:
  assumes "starts_with p s"
  obtains t where "s = p @ t"
  using assms that [of "drop (length p) s"] by (metis append_take_drop_id starts_with_def)

lemma starts_with_iff: "starts_with p s \<longleftrightarrow> (\<exists>t. s = p @ t)"
  by (auto elim: starts_withE)

lemma strip_prefix_append [simp]: "strip_prefix p (p @ s) = Some s"
  by (simp add: strip_prefix_def)

lemma strip_prefix_Some: "strip_prefix p s = Some t \<longleftrightarrow> s = p @ t"
  by (auto simp: strip_prefix_def starts_with_iff)

lemma strip_suffix_Some: "strip_suffix p s = Some t \<longleftrightarrow> s = t @ p"
proof
  assume "strip_suffix p s = Some t"
  then have e: "starts_with (rev p) (rev s)" and t: "t = take (length s - length p) s"
    by (auto simp: strip_suffix_def ends_with_def split: if_splits)
  from e obtain r where "rev s = rev p @ r" by (rule starts_withE)
  then have "s = rev r @ p" by (metis rev_append rev_rev_ident)
  with t show "s = t @ p" by simp
next
  assume "s = t @ p"
  then show "strip_suffix p s = Some t"
    by (simp add: strip_suffix_def ends_with_def)
qed

lemma split_once_Some: "split_once p s = Some (a, b) \<Longrightarrow> s = a @ p @ b"
proof (induction s arbitrary: a)
  case Nil
  then show ?case by (simp split: if_splits)
next
  case (Cons c cs)
  then show ?case
    by (auto simp: starts_with_iff split: if_splits)
qed

lemma split_once_self [simp]: "split_once p (p @ s) = Some ([], s)"
proof (cases "p @ s")
  case Nil
  then show ?thesis by simp
next
  case (Cons c cs)
  then have "starts_with p (c # cs)" and "drop (length p) (c # cs) = s"
    by (metis starts_with_append, metis append_eq_conv_conj)
  with Cons show ?thesis by simp
qed

lemma split_once_exists: "\<exists>a b. split_once p (xs @ p @ ys) = Some (a, b)"
proof (induction xs)
  case Nil
  then show ?case by simp
next
  case (Cons c cs)
  then show ?case by auto
qed

lemma contains_iff: "contains p s \<longleftrightarrow> (\<exists>a b. s = a @ p @ b)"
proof
  assume "contains p s"
  then show "\<exists>a b. s = a @ p @ b"
    by (auto simp: contains_def dest!: split_once_Some)
next
  assume "\<exists>a b. s = a @ p @ b"
  then show "contains p s"
    using split_once_exists by (fastforce simp: contains_def)
qed

lemma split_once_first:
  assumes "\<forall>i < length a. \<not> starts_with p (drop i a @ p @ b)"
  shows "split_once p (a @ p @ b) = Some (a, b)"
  using assms
proof (induction a)
  case Nil
  then show ?case by simp
next
  case (Cons c a)
  have "\<forall>i < length a. \<not> starts_with p (drop i a @ p @ b)" using Cons.prems by auto
  with Cons.IH Cons.prems [rule_format, of 0] show ?case by simp
qed

lemma split_once_borderless:
  assumes "borderless p" and "\<not> contains p a"
  shows "split_once p (a @ p @ b) = Some (a, b)"
proof (rule split_once_first, intro allI impI notI)
  fix i
  assume i: "i < length a" and "starts_with p (drop i a @ p @ b)"
  then have t: "take (length p) (drop i a @ p @ b) = p" by (simp add: starts_with_def)
  let ?n = "length a - i"
  show False
  proof (cases "length p \<le> ?n")
    case True
    with t have "take (length p) (drop i a) = p" by simp
    then have "a = take i a @ p @ drop (length p) (drop i a)" by (metis append_take_drop_id)
    with assms(2) show False by (auto simp: contains_iff)
  next
    case False
    with t i have "drop i a @ take (length p - ?n) p = p" by simp
    then have "drop ?n p = take (length p - ?n) p"
      by (metis append_eq_conv_conj length_drop)
    moreover have "1 \<le> ?n" "?n < length p" using False i by auto
    moreover have "\<forall>n \<in> {1..<length p}. drop n p \<noteq> take (length p - n) p"
      using assms(1) by (simp only: borderless_def list_all_iff set_upt)
    ultimately show False by (metis atLeastLessThan_iff)
  qed
qed

lemma split_once_None: "split_once p s = None \<longleftrightarrow> \<not> contains p s"
  by (cases "split_once p s") (simp_all add: contains_def)

lemma contains_set: "contains p s \<Longrightarrow> set p \<subseteq> set s"
  by (auto simp: contains_iff)

lemma len_utf8_pos [simp]: "0 < len_utf8 c"
  by (simp add: len_utf8_def)

lemma str_len_Cons: "str_len (c # cs) = len_utf8 c + str_len cs"
  by (simp add: str_len_def)

lemma str_len_append [simp]: "str_len (a @ b) = str_len a + str_len b"
  by (simp add: str_len_def)

lemma str_len_eq_0 [simp]: "str_len s = 0 \<longleftrightarrow> s = []"
  by (cases s) (simp_all add: str_len_def len_utf8_def)

subsection \<open>Trimming\<close>

lemma dropWhile_id: "s = [] \<or> \<not> P (hd s) \<Longrightarrow> dropWhile P s = s"
  by (cases s) auto

lemma trim_id:
  assumes "s \<noteq> []" and "\<not> is_whitespace (hd s)" and "\<not> is_whitespace (last s)"
  shows "trim s = s"
  using assms by (simp add: trim_def trim_start_def trim_end_def dropWhile_id hd_rev)

lemma trim_Nil [simp]: "trim [] = []"
  by (simp add: trim_def trim_start_def trim_end_def)

lemma trim_eq_Nil: "trim s = [] \<longleftrightarrow> (\<forall>c \<in> set s. is_whitespace c)"
proof -
  have "trim s = [] \<longleftrightarrow> dropWhile is_whitespace s = []"
  proof (cases "dropWhile is_whitespace s")
    case Nil
    then show ?thesis
      by (metis dropWhile.simps(1) rev.simps(1) trim_def trim_end_def trim_start_def)
  next
    case (Cons c cs)
    then have "\<not> is_whitespace c"
      by (metis hd_dropWhile list.distinct(1) list.sel(1))
    with Cons show ?thesis
      by (auto simp: trim_def trim_start_def trim_end_def)
  qed
  then show ?thesis by (auto simp: dropWhile_eq_Nil_conv)
qed

lemma hd_trim: "trim s \<noteq> [] \<Longrightarrow> \<not> is_whitespace (hd (trim s))"
proof -
  assume ne: "trim s \<noteq> []"
  let ?u = "dropWhile is_whitespace s"
  let ?t = "rev (dropWhile is_whitespace (rev ?u))"
  have t: "trim s = ?t" by (simp add: trim_def trim_start_def trim_end_def)
  have u: "?u = ?t @ rev (takeWhile is_whitespace (rev ?u))"
    by (metis rev_append rev_rev_ident takeWhile_dropWhile_id)
  with ne t have h: "hd ?u = hd ?t" and un: "?u \<noteq> []" by (metis hd_append2, metis append_is_Nil_conv)
  then show ?thesis using hd_dropWhile [of is_whitespace s] t by simp
qed

lemma last_trim: "trim s \<noteq> [] \<Longrightarrow> \<not> is_whitespace (last (trim s))"
  by (metis hd_dropWhile last_rev rev.simps(1) trim_def trim_end_def)

lemma trim_trim [simp]: "trim (trim s) = trim s"
  by (cases "trim s = []") (simp_all add: trim_id hd_trim last_trim)

subsection \<open>Words of a line\<close>

lemma is_whitespace_space [simp]: "is_whitespace 32"
  by (simp add: is_whitespace_def)

lemma words_acc_word:
  "\<forall>c \<in> set w. \<not> is_whitespace c \<Longrightarrow> words_acc cur (w @ r) = words_acc (rev w @ cur) r"
  by (induction w arbitrary: cur) auto

lemma split_whitespace_Nil [simp]: "split_whitespace [] = []"
  by (simp add: split_whitespace_def)

lemma split_whitespace_space [simp]: "is_whitespace c \<Longrightarrow> split_whitespace (c # s) = split_whitespace s"
  by (simp add: split_whitespace_def)

lemma split_whitespace_word:
  assumes "w \<noteq> []" and "\<forall>c \<in> set w. \<not> is_whitespace c" and "r = [] \<or> is_whitespace (hd r)"
  shows "split_whitespace (w @ r) = w # split_whitespace r"
  using assms words_acc_word [of w "[]" r] by (cases r) (simp_all add: split_whitespace_def)

lemma split_whitespace_words:
  "w \<in> set (split_whitespace s) \<Longrightarrow> w \<noteq> [] \<and> (\<forall>c \<in> set w. \<not> is_whitespace c)"
proof -
  have "\<forall>c \<in> set cur. \<not> is_whitespace c
    \<Longrightarrow> \<forall>w \<in> set (words_acc cur s). w \<noteq> [] \<and> (\<forall>c \<in> set w. \<not> is_whitespace c)" for cur
  proof (induction s arbitrary: cur)
    case (Cons a s)
    show ?case
    proof (cases "is_whitespace a")
      case True
      with Cons.prems Cons.IH [of "[]"] show ?thesis by simp
    next
      case False
      with Cons.prems Cons.IH [of "a # cur"] show ?thesis by simp
    qed
  qed simp
  from this [of "[]"] show "w \<in> set (split_whitespace s) \<Longrightarrow> ?thesis" by (simp add: split_whitespace_def)
qed

lemma trim_start_id: "s = [] \<or> \<not> is_whitespace (hd s) \<Longrightarrow> trim_start s = s"
  by (simp add: trim_start_def dropWhile_id)

lemma trim_end_append:
  assumes "a \<noteq> []" and "\<not> is_whitespace (last a)"
  shows "trim_end (a @ r) = a @ trim_end r"
proof -
  from assms obtain b c where "a = b @ [c]" "\<not> is_whitespace c" by (metis append_butlast_last_id)
  then show ?thesis by (auto simp: trim_end_def dropWhile_append)
qed

lemma trim_end_prefix: obtains t where "s = trim_end s @ t"
proof -
  have "rev s = takeWhile is_whitespace (rev s) @ dropWhile is_whitespace (rev s)" by simp
  then have "s = trim_end s @ rev (takeWhile is_whitespace (rev s))"
    unfolding trim_end_def by (metis rev_append rev_rev_ident)
  then show thesis by (rule that)
qed

lemma hd_trim_end: "s = [] \<or> P (hd s) \<Longrightarrow> trim_end s = [] \<or> P (hd (trim_end s))"
  by (rule trim_end_prefix [of s]) (metis append_is_Nil_conv hd_append2)

lemma split_once_minimal:
  "split_once p s = Some (a, b) \<Longrightarrow> s = a' @ p @ b' \<Longrightarrow> length a \<le> length a'"
proof (induction s arbitrary: a a')
  case Nil
  then show ?case by (simp split: if_splits)
next
  case (Cons c cs)
  show ?case
  proof (cases "starts_with p (c # cs)")
    case False
    with Cons.prems(1) obtain a0 where a: "a = c # a0" "split_once p cs = Some (a0, b)"
      by (auto simp del: starts_with_append)
    from False Cons.prems(2) obtain d a1 where "a' = d # a1" "cs = a1 @ p @ b'"
      by (cases a') (auto simp: starts_with_iff)
    with Cons.IH [OF a(2)] a(1) show ?thesis by simp
  next
    case True
    then have "split_once p (c # cs) = Some ([], drop (length p) (c # cs))" by simp
    with Cons.prems(1) show ?thesis by simp
  qed
qed

lemma split_once_char_first: "c \<notin> set a \<Longrightarrow> split_once [c] (a @ c # b) = Some (a, b)"
  by (induction a) (auto simp: starts_with_def)

subsection \<open>Lines\<close>

lemma lines_acc_line:
  "10 \<notin> set l \<Longrightarrow> lines_acc cur (l @ 10 # s) = strip_cr (rev cur @ l) # lines_acc [] s"
  by (induction l arbitrary: cur) auto

lemma lines_Nil [simp]: "lines [] = []"
  by (simp add: lines_def)

lemma lines_Cons_line:
  "10 \<notin> set l \<Longrightarrow> lines (l @ 10 # s) = strip_cr l # lines s"
  by (simp add: lines_def lines_acc_line)

text \<open>Joining lines with line feeds, ending the last one too, and splitting them again.\<close>

lemma lines_join:
  assumes "ls \<noteq> []" and "\<forall>l \<in> set ls. 10 \<notin> set l \<and> (l = [] \<or> last l \<noteq> 13)"
  shows "lines (join [10] ls @ [10]) = ls"
  using assms
proof (induction "[10] :: ustr" ls rule: join.induct)
  case 1
  then show ?case by simp
next
  case (2 x)
  then show ?case by (auto simp: lines_Cons_line strip_cr_def)
next
  case (3 x y ys)
  then show ?case by (auto simp: lines_Cons_line strip_cr_def)
qed

subsection \<open>Numerals\<close>

lemma show_nat_not_Nil [simp]: "show_nat n \<noteq> []"
  by (subst show_nat.simps) simp

lemma show_nat_digits: "c \<in> set (show_nat n) \<Longrightarrow> is_ascii_digit c"
proof (induction n rule: show_nat.induct)
  case (1 n)
  show ?case
  proof (cases "n < 10")
    case True
    with "1.prems" show ?thesis by (simp add: show_nat.simps [of n] is_ascii_digit_def)
  next
    case False
    have "n mod 10 < 10" by simp
    with False "1.prems" "1.IH" show ?thesis
      by (auto simp: show_nat.simps [of n] is_ascii_digit_def)
  qed
qed

lemma read_digits_append: "read_digits a (xs @ ys) = read_digits (read_digits a xs) ys"
  by (induction xs arbitrary: a) auto

lemma read_digits_show: "read_digits 0 (show_nat n) = n"
proof (induction n rule: show_nat.induct)
  case (1 n)
  show ?case
  proof (cases "n < 10")
    case True
    then show ?thesis by (simp add: show_nat.simps [of n])
  next
    case False
    with "1.IH" show ?thesis
      by (simp add: show_nat.simps [of n] read_digits_append)
  qed
qed

lemma show_nat_inject [simp]: "show_nat m = show_nat n \<longleftrightarrow> m = n"
  by (metis read_digits_show)

subsection \<open>Results\<close>

lemma rbind_Inl [simp]: "rbind (Inl e) f = Inl e"
  by (simp add: rbind_def)

lemma rbind_Inr [simp]: "rbind (Inr x) f = f x"
  by (simp add: rbind_def)

lemma rbind_eq_Inr: "rbind r f = Inr y \<longleftrightarrow> (\<exists>x. r = Inr x \<and> f x = Inr y)"
  by (cases r) auto

lemma rbind_eq_Inl: "rbind r f = Inl e \<longleftrightarrow> r = Inl e \<or> (\<exists>x. r = Inr x \<and> f x = Inl e)"
  by (cases r) auto

lemma rbind_cong [fundef_cong]:
  "r = r' \<Longrightarrow> (\<And>x. r' = Inr x \<Longrightarrow> f x = f' x) \<Longrightarrow> rbind r f = rbind r' f'"
  by (cases r') auto

lemma ok_or_simps [simp]: "ok_or e None = Inl e" "ok_or e (Some x) = Inr x"
  by (simp_all add: ok_or_def)

lemma transpose_map_simps [simp]:
  "transpose_map f None = Inr None"
  "transpose_map f (Some x) = rbind (f x) (\<lambda>y. Inr (Some y))"
  by (simp_all add: transpose_map_def)

lemma collect_results_length: "collect_results f xs = Inr ys \<Longrightarrow> length ys = length xs"
  by (induction xs arbitrary: ys) (auto simp: rbind_eq_Inr)

lemma collect_results_cong [fundef_cong]:
  "xs = ys \<Longrightarrow> (\<And>x. x \<in> set ys \<Longrightarrow> f x = g x) \<Longrightarrow> collect_results f xs = collect_results g ys"
proof (induction ys arbitrary: xs)
  case Nil
  then show ?case by simp
next
  case (Cons y ys)
  from Cons.prems have "collect_results f ys = collect_results g ys" by (intro Cons.IH) auto
  with Cons.prems show ?case by simp
qed

subsection \<open>BTreeMap\<close>

lemma btree_wf_Nil [simp]: "btree_wf []"
  by (simp add: btree_wf_def)

lemma btree_wf_Cons:
  "btree_wf ((k, v) # m) \<longleftrightarrow> (\<forall>k' \<in> fst ` set m. k < k') \<and> btree_wf m"
  by (auto simp: btree_wf_def)

lemma set_btree_insert: "fst ` set (btree_insert k v m) = insert k (fst ` set m)"
  by (induction k v m rule: btree_insert.induct) auto

lemma btree_wf_insert [simp]: "btree_wf m \<Longrightarrow> btree_wf (btree_insert k v m)"
proof (induction k v m rule: btree_insert.induct)
  case (1 k v)
  then show ?case by (simp add: btree_wf_Cons)
next
  case (2 k v k' v' m)
  then show ?case by (auto simp: btree_wf_Cons set_btree_insert)
qed

lemma btree_get_Nil [simp]: "btree_get [] k = None"
  by (simp add: btree_get_def)

lemma btree_get_insert:
  "btree_wf m \<Longrightarrow> btree_get (btree_insert k v m) k' = (if k' = k then Some v else btree_get m k')"
proof (induction k v m rule: btree_insert.induct)
  case (1 k v)
  then show ?case by (simp add: btree_get_def)
next
  case (2 k v k1 v1 m)
  then show ?case by (auto simp: btree_wf_Cons btree_get_def)
qed

lemma btree_insert_last:
  "\<forall>k' \<in> fst ` set m. k' < k \<Longrightarrow> btree_insert k v m = m @ [(k, v)]"
  by (induction m) auto

lemma btree_wf_snoc:
  "btree_wf (m @ [(k, v)]) \<longleftrightarrow> (\<forall>k' \<in> fst ` set m. k' < k) \<and> btree_wf m"
  by (auto simp: btree_wf_def sorted_wrt_append)

section \<open>Contracts\<close>

subsection \<open>Finite maps\<close>

text \<open>What the clients of a map rely on: the object of a JSON document, the ledger of approval
  tokens, the tool requirements of a permission policy.\<close>

locale finite_map =
  fixes mempty :: "'m"
    and minsert :: "'k \<Rightarrow> 'v \<Rightarrow> 'm \<Rightarrow> 'm"
    and mget :: "'m \<Rightarrow> 'k \<Rightarrow> 'v option"
    and minv :: "'m \<Rightarrow> bool"
  assumes inv_empty: "minv mempty"
    and inv_insert: "minv m \<Longrightarrow> minv (minsert k v m)"
    and get_empty: "mget mempty k = None"
    and get_insert: "minv m \<Longrightarrow> mget (minsert k v m) k' = (if k' = k then Some v else mget m k')"
begin

definition inserts :: "('k \<times> 'v) list \<Rightarrow> 'm \<Rightarrow> 'm" where
  "inserts kvs m = fold (\<lambda>(k, v). minsert k v) kvs m"

lemma inserts_simps: "inserts [] m = m" "inserts ((k, v) # kvs) m = inserts kvs (minsert k v m)"
  by (simp_all add: inserts_def)

lemma inv_inserts: "minv m \<Longrightarrow> minv (inserts kvs m)"
  by (induction kvs arbitrary: m) (auto simp: inserts_def inv_insert)

text \<open>The last insertion of a key wins.\<close>

lemma get_inserts:
  "minv m \<Longrightarrow> mget (inserts kvs m) k =
     (case map_of (rev kvs) k of Some v \<Rightarrow> Some v | None \<Rightarrow> mget m k)"
proof (induction kvs arbitrary: m)
  case Nil
  then show ?case by (simp add: inserts_def)
next
  case (Cons kv kvs)
  obtain a b where kv: "kv = (a, b)" by (cases kv)
  with Cons have "mget (inserts kvs (minsert a b m)) k =
     (case map_of (rev kvs) k of Some v \<Rightarrow> Some v | None \<Rightarrow> mget (minsert a b m) k)"
    by (simp add: inv_insert)
  then show ?case using Cons.prems kv
    by (auto simp: inserts_simps get_insert map_add_def split: option.splits)
qed

lemma get_inserts_empty: "mget (inserts kvs mempty) k = map_of (rev kvs) k"
  by (simp add: get_inserts inv_empty get_empty split: option.split)

end

interpretation bt: finite_map "[]" btree_insert btree_get btree_wf
  by unfold_locales (simp_all add: btree_get_insert)

lemma btree_of_wf [simp]: "btree_wf (btree_of kvs)"
  using bt.inv_inserts [of "[]" kvs] by (simp add: btree_of_def bt.inserts_def)

lemma btree_get_of: "btree_get (btree_of kvs) k = map_of (rev kvs) k"
  using bt.get_inserts_empty [of kvs k] by (simp add: btree_of_def bt.inserts_def)

subsection \<open>Encoders with their decoders\<close>

locale codec =
  fixes enc :: "'a \<Rightarrow> 'b"
    and dec :: "'b \<Rightarrow> 'e + 'a"
    and valid :: "'a \<Rightarrow> bool"
  assumes dec_enc: "valid x \<Longrightarrow> dec (enc x) = Inr x"
begin

lemma enc_inj: "valid x \<Longrightarrow> valid y \<Longrightarrow> enc x = enc y \<Longrightarrow> x = y"
  by (metis dec_enc sum.inject(2))

lemma dec_enc_list: "\<forall>x \<in> set xs. valid x \<Longrightarrow> collect_results dec (map enc xs) = Inr xs"
  by (induction xs) (auto simp: dec_enc)

lemma dec_enc_option: "pred_option valid ox \<Longrightarrow> transpose_map dec (map_option enc ox) = Inr ox"
  by (cases ox) (auto simp: dec_enc)

end

subsection \<open>State with operations that keep an invariant\<close>

locale invariant_ops =
  fixes step :: "'op \<Rightarrow> 's \<Rightarrow> 's"
    and sinv :: "'s \<Rightarrow> bool"
  assumes step_inv: "sinv s \<Longrightarrow> sinv (step op s)"
begin

lemma run_inv: "sinv s \<Longrightarrow> sinv (fold step ops s)"
  by (induction ops arbitrary: s) (auto simp: step_inv)

end

end
