(* ===== verification/Json.thy ===== *)
theory Json
  imports Prelude
begin

text \<open>
  The hand-written JSON reader and printer of \<^verbatim>\<open>runtime/src/json.rs\<close>, which every persisted
  session goes through. The parser's state, a vector of characters and an index into it, is the
  suffix that is still unread; every parsing step returns its value and the new suffix, or a
  \<open>JsonError\<close>. The round trip at the end says that what is printed is read back unchanged.
\<close>

section \<open>Definitions\<close>

datatype JsonValue =
    JNull
  | JBool bool
  | JNumber i64
  | JString ustr
  | JArray "JsonValue list"
  | JObject "(ustr \<times> JsonValue) list"

datatype JsonError = JsonError ustr

definition JsonError_display :: "JsonError \<Rightarrow> ustr" where
  "JsonError_display e = (case e of JsonError m \<Rightarrow> m)"

subsection \<open>Printing\<close>

definition hex_digit :: "nat \<Rightarrow> uchar" where
  "hex_digit n = (if n < 10 then 48 + n else 87 + n)"

definition push_unicode_escape :: "uchar \<Rightarrow> ustr" where
  "push_unicode_escape c =
     [92, 117] @ map (\<lambda>shift. hex_digit ((c div 2 ^ shift) mod 16)) [12, 8, 4, 0]"

definition render_char :: "uchar \<Rightarrow> ustr" where
  "render_char ch =
     (if ch = 34 then [92, 34]
      else if ch = 92 then [92, 92]
      else if ch = 10 then [92, 110]
      else if ch = 13 then [92, 114]
      else if ch = 9 then [92, 116]
      else if ch = 8 then [92, 98]
      else if ch = 12 then [92, 102]
      else if is_control ch then push_unicode_escape ch
      else [ch])"

definition render_string :: "ustr \<Rightarrow> ustr" where
  "render_string s = [34] @ concat (map render_char s) @ [34]"

fun render :: "JsonValue \<Rightarrow> ustr" where
  "render JNull = lit ''null''"
| "render (JBool b) = (if b then lit ''true'' else lit ''false'')"
| "render (JNumber n) = show_int (sint n)"
| "render (JString s) = render_string s"
| "render (JArray vs) = [91] @ join [44] (map render vs) @ [93]"
| "render (JObject es) =
     [123] @ join [44] (map (\<lambda>e. render_string (fst e) @ [58] @ render (snd e)) es) @ [125]"

subsection \<open>The character-level steps of the parser\<close>

type_synonym 'a parsed = "JsonError + 'a \<times> ustr"

definition json_error :: "ustr \<Rightarrow> JsonError + 'a" where
  "json_error m = Inl (JsonError m)"

definition skip_whitespace :: "ustr \<Rightarrow> ustr" where
  "skip_whitespace s = dropWhile (\<lambda>c. c = 32 \<or> c = 10 \<or> c = 13 \<or> c = 9) s"

definition try_consume :: "uchar \<Rightarrow> ustr \<Rightarrow> ustr option" where
  "try_consume expected s =
     (case s of [] \<Rightarrow> None | c # cs \<Rightarrow> if c = expected then Some cs else None)"

definition expect :: "uchar \<Rightarrow> ustr \<Rightarrow> unit parsed" where
  "expect expected s =
     (case s of
        [] \<Rightarrow> json_error (lit ''expected '' @ [39, expected, 39] @ lit '', found end of input'')
      | c # cs \<Rightarrow>
          if c = expected then Inr ((), cs)
          else json_error (lit ''expected '' @ [39, expected, 39] @ lit '', found '' @ [39, c, 39]))"

fun parse_literal_loop :: "ustr \<Rightarrow> JsonValue \<Rightarrow> ustr \<Rightarrow> ustr \<Rightarrow> JsonValue parsed" where
  "parse_literal_loop expected v [] s = Inr (v, s)"
| "parse_literal_loop expected v (e # es) [] =
     json_error (lit ''invalid literal: expected '' @ expected)"
| "parse_literal_loop expected v (e # es) (c # cs) =
     (if c = e then parse_literal_loop expected v es cs
      else json_error (lit ''invalid literal: expected '' @ expected))"

definition parse_literal :: "ustr \<Rightarrow> JsonValue \<Rightarrow> ustr \<Rightarrow> JsonValue parsed" where
  "parse_literal expected v s = parse_literal_loop expected v expected s"

text \<open>\<^verbatim>\<open>char::to_digit(16)\<close> and \<^verbatim>\<open>char::from_u32\<close>.\<close>

definition to_digit16 :: "uchar \<Rightarrow> nat option" where
  "to_digit16 c =
     (if 48 \<le> c \<and> c \<le> 57 then Some (c - 48)
      else if 97 \<le> c \<and> c \<le> 102 then Some (c - 87)
      else if 65 \<le> c \<and> c \<le> 70 then Some (c - 55)
      else None)"

definition char_from_u32 :: "nat \<Rightarrow> uchar option" where
  "char_from_u32 n = (if n < 55296 \<or> (57344 \<le> n \<and> n < 1114112) then Some n else None)"

fun parse_hex_loop :: "nat \<Rightarrow> nat \<Rightarrow> ustr \<Rightarrow> nat parsed" where
  "parse_hex_loop n v [] =
     (if n = 0 then Inr (v, [])
      else json_error (lit ''unexpected end of input in unicode escape''))"
| "parse_hex_loop n v (c # cs) =
     (if n = 0 then Inr (v, c # cs)
      else case to_digit16 c of
             None \<Rightarrow> json_error (lit ''invalid unicode escape'')
           | Some d \<Rightarrow> parse_hex_loop (n - 1) (16 * v + d) cs)"

definition parse_unicode_escape :: "ustr \<Rightarrow> uchar parsed" where
  "parse_unicode_escape s =
     rbind (parse_hex_loop 4 0 s) (\<lambda>(v, r).
     case char_from_u32 v of
       None \<Rightarrow> json_error (lit ''invalid unicode scalar value'')
     | Some ch \<Rightarrow> Inr (ch, r))"

definition parse_escape :: "ustr \<Rightarrow> uchar parsed" where
  "parse_escape s =
     (case s of
        [] \<Rightarrow> json_error (lit ''unexpected end of input in escape sequence'')
      | c # cs \<Rightarrow>
          if c = 34 then Inr (34, cs)
          else if c = 92 then Inr (92, cs)
          else if c = 47 then Inr (47, cs)
          else if c = uc CHR ''b'' then Inr (8, cs)
          else if c = uc CHR ''f'' then Inr (12, cs)
          else if c = uc CHR ''n'' then Inr (10, cs)
          else if c = uc CHR ''r'' then Inr (13, cs)
          else if c = uc CHR ''t'' then Inr (9, cs)
          else if c = uc CHR ''u'' then parse_unicode_escape cs
          else json_error (lit ''invalid escape sequence: '' @ [c]))"

lemma parse_hex_loop_length:
  "parse_hex_loop n v s = Inr (w, r) \<Longrightarrow> length s = length r + n"
  by (induction n v s rule: parse_hex_loop.induct)
    (fastforce simp: json_error_def split: option.splits if_splits)+

lemma parse_escape_length [dest]: "parse_escape s = Inr (ch, r) \<Longrightarrow> length r < length s"
  by (auto simp: parse_escape_def parse_unicode_escape_def json_error_def rbind_eq_Inr
      split: list.splits if_splits option.splits dest!: parse_hex_loop_length)

function parse_string_loop :: "ustr \<Rightarrow> ustr \<Rightarrow> ustr parsed" where
  "parse_string_loop v s =
     (case s of
        [] \<Rightarrow> json_error (lit ''unterminated string'')
      | c # cs \<Rightarrow>
          if c = 34 then Inr (v, cs)
          else if c = 92 then
            rbind (parse_escape cs) (\<lambda>x. parse_string_loop (v @ [fst x]) (snd x))
          else parse_string_loop (v @ [c]) cs)"
  by pat_completeness auto
termination
  by (relation "measure (\<lambda>(v, s). length s)") auto

declare parse_string_loop.simps [simp del]

definition parse_string :: "ustr \<Rightarrow> ustr parsed" where
  "parse_string s = rbind (expect 34 s) (\<lambda>(_, r). parse_string_loop [] r)"

definition parse_number :: "ustr \<Rightarrow> i64 parsed" where
  "parse_number s =
     (let (sign, s1) = (case try_consume 45 s of Some r \<Rightarrow> ([45], r) | None \<Rightarrow> ([], s));
          v = sign @ takeWhile is_ascii_digit s1;
          r = dropWhile is_ascii_digit s1
      in if v = [] \<or> v = [45] then json_error (lit ''invalid number'')
         else case parse_i64 v of
                None \<Rightarrow> json_error (lit ''number out of range'')
              | Some n \<Rightarrow> Inr (n, r))"

text \<open>A string or a number that was read is shorter than the input.\<close>

lemma parse_string_loop_length: "parse_string_loop v s = Inr (w, r) \<Longrightarrow> length r < length s"
proof (induction v s rule: parse_string_loop.induct)
  case (1 v s)
  show ?case
  proof (cases s)
    case Nil
    with "1.prems" show ?thesis by (simp add: parse_string_loop.simps [of v "[]"] json_error_def)
  next
    case (Cons c cs)
    with "1.prems" have "parse_string_loop v (c # cs) = Inr (w, r)" by simp
    with Cons "1.IH" show ?thesis
      by (fastforce simp: parse_string_loop.simps [of v "c # cs"] rbind_eq_Inr split: if_splits
          dest: parse_escape_length)
  qed
qed

lemma expect_Inr: "expect c s = Inr (u, r) \<longleftrightarrow> s = c # r"
  by (auto simp: expect_def json_error_def split: list.splits)

lemma parse_string_length: "parse_string s = Inr (w, r) \<Longrightarrow> length r < length s"
  by (auto simp: parse_string_def rbind_eq_Inr expect_Inr dest!: parse_string_loop_length)

lemma skip_whitespace_length: "length (skip_whitespace s) \<le> length s"
  by (simp add: skip_whitespace_def length_dropWhile_le)

lemma try_consume_Some: "try_consume c s = Some r \<longleftrightarrow> s = c # r"
  by (auto simp: try_consume_def split: list.splits)

lemma length_dropWhile_less: "takeWhile P s \<noteq> [] \<Longrightarrow> length (dropWhile P s) < length s"
  by (cases s) (auto simp: le_imp_less_Suc length_dropWhile_le split: if_splits)

lemma parse_number_length: "parse_number s = Inr (n, r) \<Longrightarrow> length r < length s"
  by (auto simp: parse_number_def Let_def json_error_def try_consume_Some length_dropWhile_less
      split: option.splits if_splits intro: le_imp_less_Suc length_dropWhile_le)

lemma parse_literal_loop_length:
  "parse_literal_loop e v es s = Inr (w, r) \<Longrightarrow> length s = length r + length es"
  by (induction e v es s rule: parse_literal_loop.induct)
    (auto simp: json_error_def split: if_splits)

lemma parse_literal_length:
  "parse_literal e v s = Inr (w, r) \<Longrightarrow> e \<noteq> [] \<Longrightarrow> length r < length s"
  by (auto simp: parse_literal_def dest!: parse_literal_loop_length)

subsection \<open>Values, arrays and objects\<close>

function parse_value :: "ustr \<Rightarrow> JsonValue parsed"
  and parse_array_loop :: "JsonValue list \<Rightarrow> ustr \<Rightarrow> JsonValue parsed"
  and parse_object_loop :: "(ustr, JsonValue) btree \<Rightarrow> ustr \<Rightarrow> JsonValue parsed"
where
  "parse_value s =
     (case skip_whitespace s of
        [] \<Rightarrow> json_error (lit ''unexpected end of input'')
      | c # cs \<Rightarrow>
          if c = uc CHR ''n'' then parse_literal (lit ''null'') JNull (c # cs)
          else if c = uc CHR ''t'' then parse_literal (lit ''true'') (JBool True) (c # cs)
          else if c = uc CHR ''f'' then parse_literal (lit ''false'') (JBool False) (c # cs)
          else if c = 34 then rbind (parse_string (c # cs)) (\<lambda>(v, r). Inr (JString v, r))
          else if c = 91 then rbind (expect 91 (c # cs)) (\<lambda>x. parse_array_loop [] (snd x))
          else if c = 123 then rbind (expect 123 (c # cs)) (\<lambda>x. parse_object_loop [] (snd x))
          else if c = 45 \<or> is_ascii_digit c then
            rbind (parse_number (c # cs)) (\<lambda>(n, r). Inr (JNumber n, r))
          else json_error (lit ''unexpected character: '' @ [c]))"
| "parse_array_loop vs s =
     (case try_consume 93 (skip_whitespace s) of
        Some r \<Rightarrow> Inr (JArray vs, r)
      | None \<Rightarrow>
          rbind (parse_value (skip_whitespace s)) (\<lambda>x.
          case try_consume 93 (skip_whitespace (snd x)) of
            Some r \<Rightarrow> Inr (JArray (vs @ [fst x]), r)
          | None \<Rightarrow>
              rbind (expect 44 (skip_whitespace (snd x))) (\<lambda>y.
              parse_array_loop (vs @ [fst x]) (snd y))))"
| "parse_object_loop es s =
     (case try_consume 125 (skip_whitespace s) of
        Some r \<Rightarrow> Inr (JObject es, r)
      | None \<Rightarrow>
          rbind (parse_string (skip_whitespace s)) (\<lambda>k.
          rbind (expect 58 (skip_whitespace (snd k))) (\<lambda>y.
          rbind (parse_value (snd y)) (\<lambda>x.
          case try_consume 125 (skip_whitespace (snd x)) of
            Some r \<Rightarrow> Inr (JObject (btree_insert (fst k) (fst x) es), r)
          | None \<Rightarrow>
              rbind (expect 44 (skip_whitespace (snd x))) (\<lambda>z.
              parse_object_loop (btree_insert (fst k) (fst x) es) (snd z))))))"
  by pat_completeness auto

lemma skip_whitespace_shorter: "skip_whitespace s = c # cs \<Longrightarrow> length cs < length s"
  using skip_whitespace_length [of s] by simp

lemmas parsed_lengths =
  parse_literal_length parse_string_length parse_number_length

text \<open>Every value the parser returns has consumed at least one character. The recursion of the
  array and object loops goes on behind a value, so this is what makes them stop.\<close>

lemma parse_lengths:
  "parse_value_parse_array_loop_parse_object_loop_dom (Inl s) \<Longrightarrow>
     \<forall>v r. parse_value s = Inr (v, r) \<longrightarrow> length r < length s"
  "parse_value_parse_array_loop_parse_object_loop_dom (Inr (Inl (vs, s'))) \<Longrightarrow>
     \<forall>v r. parse_array_loop vs s' = Inr (v, r) \<longrightarrow> length r < length s'"
  "parse_value_parse_array_loop_parse_object_loop_dom (Inr (Inr (es, s''))) \<Longrightarrow>
     \<forall>v r. parse_object_loop es s'' = Inr (v, r) \<longrightarrow> length r < length s''"
proof (induction rule: parse_value_parse_array_loop_parse_object_loop.pinduct)
  case (1 s)
  show ?case
  proof (cases "skip_whitespace s")
    case Nil
    with "1.hyps" show ?thesis by (simp add: parse_value.psimps json_error_def)
  next
    case (Cons c cs)
    have len: "length cs < length s" by (rule skip_whitespace_shorter [OF Cons])
    have arr: "c = 91 \<Longrightarrow> parse_array_loop [] cs = Inr (v, r) \<Longrightarrow> length r < length s" for v r
      using "1.IH"(1) [OF Cons, of "((), cs)"] len by (auto simp: expect_Inr)
    have obj: "c = 123 \<Longrightarrow> parse_object_loop [] cs = Inr (v, r) \<Longrightarrow> length r < length s" for v r
      using "1.IH"(2) [OF Cons, of "((), cs)"] len by (auto simp: expect_Inr)
    show ?thesis using "1.hyps" Cons len
      by (auto simp: parse_value.psimps json_error_def rbind_eq_Inr expect_Inr
          split: if_splits dest!: parsed_lengths arr obj)
  qed
next
  case (2 vs s)
  have sk: "length (skip_whitespace t) \<le> length t" for t by (rule skip_whitespace_length)
  show ?case
  proof (intro allI impI)
    fix v r
    assume *: "parse_array_loop vs s = Inr (v, r)"
    show "length r < length s"
    proof (cases "try_consume 93 (skip_whitespace s)")
      case (Some r')
      with * sk [of s] "2.hyps" show ?thesis
        by (simp add: parse_array_loop.psimps try_consume_Some)
    next
      case None
      with * "2.hyps" obtain x where x: "parse_value (skip_whitespace s) = Inr x"
        by (auto simp: parse_array_loop.psimps rbind_eq_Inr)
      with "2.IH"(1) [OF None] sk [of s] sk [of "snd x"]
      have len: "length (skip_whitespace (snd x)) < length s" by (cases x) fastforce
      show ?thesis
      proof (cases "try_consume 93 (skip_whitespace (snd x))")
        case (Some r')
        with * None x len "2.hyps" show ?thesis
          by (simp add: parse_array_loop.psimps try_consume_Some)
      next
        case N2: None
        with * None x "2.hyps" obtain y where y: "expect 44 (skip_whitespace (snd x)) = Inr y"
          and "parse_array_loop (vs @ [fst x]) (snd y) = Inr (v, r)"
          by (auto simp: parse_array_loop.psimps rbind_eq_Inr)
        with "2.IH"(2) [OF None x N2 y] len show ?thesis
          by (cases y) (auto simp: expect_Inr)
      qed
    qed
  qed
next
  case (3 es s)
  have sk: "length (skip_whitespace t) \<le> length t" for t by (rule skip_whitespace_length)
  show ?case
  proof (intro allI impI)
    fix v r
    assume *: "parse_object_loop es s = Inr (v, r)"
    show "length r < length s"
    proof (cases "try_consume 125 (skip_whitespace s)")
      case (Some r')
      with * sk [of s] "3.hyps" show ?thesis
        by (simp add: parse_object_loop.psimps try_consume_Some)
    next
      case None
      with * "3.hyps" obtain k y x where k: "parse_string (skip_whitespace s) = Inr k"
        and y: "expect 58 (skip_whitespace (snd k)) = Inr y"
        and x: "parse_value (snd y) = Inr x"
        by (auto simp: parse_object_loop.psimps rbind_eq_Inr)
      from k sk [of s] sk [of "snd k"] have "length (skip_whitespace (snd k)) < length s"
        by (cases k) (auto dest!: parse_string_length)
      with y have "length (snd y) < length s" by (cases y) (auto simp: expect_Inr)
      with "3.IH"(1) [OF None k y] x sk [of "snd x"]
      have len: "length (skip_whitespace (snd x)) < length s" by (cases x) fastforce
      show ?thesis
      proof (cases "try_consume 125 (skip_whitespace (snd x))")
        case (Some r')
        with * None k y x len "3.hyps" show ?thesis
          by (simp add: parse_object_loop.psimps try_consume_Some)
      next
        case N2: None
        with * None k y x "3.hyps" obtain z where z: "expect 44 (skip_whitespace (snd x)) = Inr z"
          and "parse_object_loop (btree_insert (fst k) (fst x) es) (snd z) = Inr (v, r)"
          by (auto simp: parse_object_loop.psimps rbind_eq_Inr)
        with "3.IH"(2) [OF None k y x N2 z] len show ?thesis
          by (cases z) (auto simp: expect_Inr)
      qed
    qed
  qed
qed

termination parse_value
proof (relation "measure (\<lambda>x. case x of Inl s \<Rightarrow> 2 * length s
      | Inr (Inl (_, s)) \<Rightarrow> 2 * length s + 1 | Inr (Inr (_, s)) \<Rightarrow> 2 * length s + 1)",
    goal_cases)
  case 1
  show ?case by simp
next
  case (2 s c cs x)
  then show ?case using skip_whitespace_shorter [of s c cs] by (cases x) (simp add: expect_Inr)
next
  case (3 s c cs x)
  then show ?case using skip_whitespace_shorter [of s c cs] by (cases x) (simp add: expect_Inr)
next
  case (4 vs s)
  then show ?case using skip_whitespace_length [of s] by simp
next
  case (5 vs s x y)
  then have "length (snd x) < length (skip_whitespace s)"
    using parse_lengths(1) by (cases x) fastforce
  with 5 show ?case using skip_whitespace_length [of s] skip_whitespace_length [of "snd x"]
    by (cases y) (simp add: expect_Inr)
next
  case (6 es s k y)
  then have "length (snd k) < length (skip_whitespace s)"
    by (cases k) (auto dest: parse_string_length)
  with 6 show ?case using skip_whitespace_length [of s] skip_whitespace_length [of "snd k"]
    by (cases y) (simp add: expect_Inr)
next
  case (7 es s k y x z)
  then have "length (snd k) < length (skip_whitespace s)" "length (snd x) < length (snd y)"
    using parse_lengths(1) by (cases k; cases x; fastforce dest: parse_string_length)+
  with 7 show ?case
    using skip_whitespace_length [of s] skip_whitespace_length [of "snd k"]
      skip_whitespace_length [of "snd x"]
    by (cases y; cases z) (simp add: expect_Inr)
qed

declare parse_value.simps [simp del] parse_array_loop.simps [simp del]
  parse_object_loop.simps [simp del]

definition parse :: "ustr \<Rightarrow> JsonError + JsonValue" where
  "parse s =
     rbind (parse_value s) (\<lambda>(v, r).
     if skip_whitespace r = [] then Inr v else json_error (lit ''unexpected trailing content''))"

subsection \<open>Accessors\<close>

definition as_object :: "JsonValue \<Rightarrow> (ustr, JsonValue) btree option" where
  "as_object v = (case v of JObject es \<Rightarrow> Some es | _ \<Rightarrow> None)"

definition as_array :: "JsonValue \<Rightarrow> JsonValue list option" where
  "as_array v = (case v of JArray vs \<Rightarrow> Some vs | _ \<Rightarrow> None)"

definition as_str :: "JsonValue \<Rightarrow> ustr option" where
  "as_str v = (case v of JString s \<Rightarrow> Some s | _ \<Rightarrow> None)"

definition as_bool :: "JsonValue \<Rightarrow> bool option" where
  "as_bool v = (case v of JBool b \<Rightarrow> Some b | _ \<Rightarrow> None)"

definition as_i64 :: "JsonValue \<Rightarrow> i64 option" where
  "as_i64 v = (case v of JNumber n \<Rightarrow> Some n | _ \<Rightarrow> None)"

text \<open>The values a Rust \<^verbatim>\<open>JsonValue\<close> can hold: every object is a \<^verbatim>\<open>BTreeMap\<close>.\<close>

fun json_wf :: "JsonValue \<Rightarrow> bool" where
  "json_wf (JArray vs) \<longleftrightarrow> list_all json_wf vs"
| "json_wf (JObject es) \<longleftrightarrow> btree_wf es \<and> list_all (\<lambda>e. json_wf (snd e)) es"
| "json_wf _ \<longleftrightarrow> True"

section \<open>Round trip\<close>

lemma to_digit16_hex: "n < 16 \<Longrightarrow> to_digit16 (hex_digit n) = Some n"
  by (auto simp: to_digit16_def hex_digit_def)

lemma parse_unicode_escape_render:
  assumes "is_control c"
  shows "parse_escape (tl (push_unicode_escape c) @ s) = Inr (c, s)"
proof -
  from assms have c: "c < 160" by (auto simp: is_control_def)
  have eq: "tl (push_unicode_escape c) =
      [117, hex_digit 0, hex_digit 0, hex_digit (c div 16 mod 16), hex_digit (c mod 16)]"
    using c by (simp add: push_unicode_escape_def)
  have "16 * (c div 16 mod 16) + c mod 16 = c" using c by simp
  then have "parse_hex_loop 4 0 (drop 1 (tl (push_unicode_escape c)) @ s) = Inr (c, s)"
    by (cases s) (simp_all add: eq to_digit16_hex)
  then show ?thesis using c
    by (simp add: eq parse_escape_def parse_unicode_escape_def char_from_u32_def)
qed

lemma parse_string_loop_plain:
  "c \<noteq> 34 \<Longrightarrow> c \<noteq> 92 \<Longrightarrow> parse_string_loop v (c # s) = parse_string_loop (v @ [c]) s"
  by (simp add: parse_string_loop.simps [of v "c # s"])

lemma parse_string_loop_escape:
  "parse_escape s = Inr (c, r) \<Longrightarrow> parse_string_loop v (92 # s) = parse_string_loop (v @ [c]) r"
  by (simp add: parse_string_loop.simps [of v "92 # s"])

lemma parse_string_loop_char:
  "parse_string_loop v (render_char c @ s) = parse_string_loop (v @ [c]) s"
proof (cases "is_control c \<and> c \<notin> {10, 13, 9, 8, 12}")
  case True
  then have "render_char c = 92 # tl (push_unicode_escape c)"
    by (auto simp: render_char_def push_unicode_escape_def is_control_def)
  with True show ?thesis
    by (simp add: parse_string_loop_escape [OF parse_unicode_escape_render])
next
  case False
  then show ?thesis
    by (auto simp: render_char_def parse_escape_def parse_string_loop_escape parse_string_loop_plain)
qed

lemma parse_string_loop_render:
  "parse_string_loop v (concat (map render_char s) @ 34 # r) = Inr (v @ s, r)"
  by (induction s arbitrary: v)
    (simp_all add: parse_string_loop_char parse_string_loop.simps [of _ "34 # r"])

lemma parse_string_render [simp]: "parse_string (render_string s @ r) = Inr (s, r)"
  by (simp add: parse_string_def render_string_def expect_def parse_string_loop_render)

lemma show_nat_takeWhile:
  assumes "r = [] \<or> \<not> is_ascii_digit (hd r)"
  shows "takeWhile is_ascii_digit (show_nat n @ r) = show_nat n"
    and "dropWhile is_ascii_digit (show_nat n @ r) = r"
  using assms show_nat_digits [of _ n]
  by (cases r; auto simp: takeWhile_append dropWhile_append)+

lemma hd_show_nat: "is_ascii_digit (hd (show_nat n))"
  using show_nat_digits show_nat_not_Nil hd_in_set by blast

lemma parse_i64_show: "parse_i64 (show_int (sint w)) = Some w"
proof -
  have digits: "list_all is_ascii_digit (show_nat n)" for n
    by (auto simp: list_all_iff dest: show_nat_digits)
  have hd: "hd (show_nat n) \<noteq> 45" "hd (show_nat n) \<noteq> 43" for n
    using hd_show_nat [of n] by (auto simp: is_ascii_digit_def)
  have "- (2 ^ 63) \<le> sint w" "sint w < 2 ^ 63"
    using sint_range_size [of w] by (simp_all add: word_size)
  then show ?thesis
    by (auto simp: parse_i64_def show_int_def Let_def hd digits read_digits_show)
qed

lemma parse_number_render:
  assumes "r = [] \<or> \<not> is_ascii_digit (hd r)"
  shows "parse_number (show_int (sint w) @ r) = Inr (w, r)"
proof -
  have hd: "try_consume 45 (show_nat n @ r) = None" for n
    using hd_show_nat [of n] by (cases "show_nat n") (auto simp: try_consume_def is_ascii_digit_def)
  have ne: "show_nat n \<noteq> [45]" for n
    using hd_show_nat [of n] by (auto simp: is_ascii_digit_def)
  note split = show_nat_takeWhile [OF assms]
  show ?thesis
    using parse_i64_show [of w]
    by (cases "sint w < 0")
      (simp_all add: parse_number_def show_int_def split hd ne try_consume_Some [THEN iffD2])
qed

text \<open>A printed value starts with a character that is neither white space nor a closing bracket.\<close>

lemma show_int_Cons: "\<exists>c cs. show_int i = c # cs \<and> (c = 45 \<or> is_ascii_digit c)"
  using hd_show_nat [of "nat i"] by (cases "show_nat (nat i)") (auto simp: show_int_def)

lemma render_Cons: "\<exists>c cs. render v = c # cs \<and> c \<notin> {32, 10, 13, 9, 93, 125}"
proof (cases v)
  case (JNumber w)
  then show ?thesis using show_int_Cons [of "sint w"] by (auto simp: is_ascii_digit_def)
qed (simp_all add: render_string_def lit_Cons)

lemma skip_whitespace_render [simp]: "skip_whitespace (render v @ s) = render v @ s"
  using render_Cons [of v] by (auto simp: skip_whitespace_def)

lemma skip_whitespace_id [simp]:
  "c \<notin> {32, 10, 13, 9} \<Longrightarrow> skip_whitespace (c # s) = c # s"
  by (simp add: skip_whitespace_def)

lemma try_consume_render [simp]:
  "try_consume 93 (render v @ s) = None" "try_consume 125 (render v @ s) = None"
  using render_Cons [of v] by (auto simp: try_consume_def)

lemma expect_same [simp]: "expect c (c # s) = Inr ((), s)"
  by (simp add: expect_def)

lemma try_consume_Cons [simp]: "try_consume c (d # s) = (if d = c then Some s else None)"
  by (simp add: try_consume_def)

text \<open>The two loops, given that each element is read back.\<close>

lemma parse_array_loop_render:
  assumes "\<And>v r. v \<in> set vs \<Longrightarrow> r = [] \<or> \<not> is_ascii_digit (hd r) \<Longrightarrow>
      parse_value (render v @ r) = Inr (v, r)"
  shows "parse_array_loop acc (join [44] (map render vs) @ 93 # r) = Inr (JArray (acc @ vs), r)"
  using assms
proof (induction vs arbitrary: acc)
  case Nil
  show ?case by (simp add: parse_array_loop.simps)
next
  case (Cons v vs)
  show ?case
  proof (cases vs)
    case Nil
    then show ?thesis
      using Cons.prems [of v "93 # r"]
      by (simp add: parse_array_loop.simps [of acc] is_ascii_digit_def)
  next
    case (Cons w ws)
    let ?rest = "join [44] (map render vs) @ 93 # r"
    have "parse_value (render v @ 44 # ?rest) = Inr (v, 44 # ?rest)"
      using Cons.prems by (simp add: is_ascii_digit_def)
    moreover have "parse_array_loop (acc @ [v]) ?rest = Inr (JArray ((acc @ [v]) @ vs), r)"
      using Cons.IH Cons.prems by simp
    ultimately show ?thesis using Cons by (simp add: parse_array_loop.simps [of acc])
  qed
qed

abbreviation render_entry :: "ustr \<times> JsonValue \<Rightarrow> ustr" where
  "render_entry e \<equiv> render_string (fst e) @ [58] @ render (snd e)"

lemma skip_whitespace_render_string [simp]:
  "skip_whitespace (render_string s @ r) = render_string s @ r"
  "try_consume 125 (render_string s @ r) = None"
  by (simp_all add: render_string_def)

lemma parse_object_loop_render:
  assumes "\<And>e r. e \<in> set es \<Longrightarrow> r = [] \<or> \<not> is_ascii_digit (hd r) \<Longrightarrow>
      parse_value (render (snd e) @ r) = Inr (snd e, r)"
    and "btree_wf (acc @ es)"
  shows "parse_object_loop acc (join [44] (map render_entry es) @ 125 # r) = Inr (JObject (acc @ es), r)"
  using assms
proof (induction es arbitrary: acc)
  case Nil
  show ?case by (simp add: parse_object_loop.simps)
next
  case (Cons e es)
  obtain k v where e: "e = (k, v)" by (cases e)
  from Cons.prems(2) e have "btree_wf (acc @ [(k, v)])"
    by (auto simp: btree_wf_def sorted_wrt_append)
  then have ins: "btree_insert k v acc = acc @ [(k, v)]"
    by (simp add: btree_wf_snoc btree_insert_last)
  show ?case
  proof (cases es)
    case Nil
    then show ?thesis
      using Cons.prems(1) [of e "125 # r"] e ins
      by (simp add: parse_object_loop.simps [of acc] is_ascii_digit_def)
  next
    case (Cons w ws)
    let ?rest = "join [44] (map render_entry es) @ 125 # r"
    have "parse_value (render v @ 44 # ?rest) = Inr (v, 44 # ?rest)"
      using Cons.prems(1) [of e] e by (simp add: is_ascii_digit_def)
    moreover have "parse_object_loop (acc @ [(k, v)]) ?rest = Inr (JObject ((acc @ [(k, v)]) @ es), r)"
      using Cons.IH [of "acc @ [(k, v)]"] Cons.prems e by simp
    ultimately show ?thesis using Cons e ins by (simp add: parse_object_loop.simps [of acc])
  qed
qed

lemma parse_value_render:
  assumes "json_wf v" and "r = [] \<or> \<not> is_ascii_digit (hd r)"
  shows "parse_value (render v @ r) = Inr (v, r)"
  using assms
proof (induction v arbitrary: r)
  case (JString x)
  then show ?case
    using parse_string_render [of x r] by (simp add: parse_value.simps render_string_def)
next
  case (JNumber w)
  let ?s = "show_int (sint w) @ r"
  obtain c cs where s: "?s = c # cs" and c: "c = 45 \<or> is_ascii_digit c"
    using show_int_Cons [of "sint w"] by auto
  from c have "c \<notin> {32, 10, 13, 9}" and "c \<notin> {110, 116, 102, 34, 91, 123}"
    by (auto simp: is_ascii_digit_def)
  with s c have "parse_value ?s = rbind (parse_number ?s) (\<lambda>(n, r). Inr (JNumber n, r))"
    by (auto simp: parse_value.simps)
  then show ?case using JNumber by (simp add: parse_number_render)
next
  case (JArray vs)
  then have "parse_array_loop [] (join [44] (map render vs) @ 93 # r) = Inr (JArray vs, r)"
    by (subst parse_array_loop_render) (auto simp: list_all_iff)
  then show ?case by (simp add: parse_value.simps)
next
  case (JObject es)
  have "parse_value (render (snd e) @ t) = Inr (snd e, t)"
    if "e \<in> set es" "t = [] \<or> \<not> is_ascii_digit (hd t)" for e t
    using JObject.IH [of e "snd e" t] JObject.prems that by (cases e) (auto simp: list_all_iff)
  then have "parse_object_loop [] (join [44] (map render_entry es) @ 125 # r) = Inr (JObject es, r)"
    using JObject.prems by (subst parse_object_loop_render) auto
  then show ?case by (simp add: parse_value.simps)
qed (simp_all add: parse_value.simps parse_literal_def lit_Cons render_string_def skip_whitespace_def)

subsection \<open>What the parser returns\<close>

lemma parse_literal_value: "parse_literal e v s = Inr (w, r) \<Longrightarrow> w = v"
proof -
  have "parse_literal_loop e v es s = Inr (w, r) \<Longrightarrow> w = v" for es
    by (induction e v es s rule: parse_literal_loop.induct) (auto simp: json_error_def split: if_splits)
  then show "parse_literal e v s = Inr (w, r) \<Longrightarrow> w = v" by (simp add: parse_literal_def)
qed

lemma list_all_btree_insert:
  "list_all (\<lambda>e. P (snd e)) es \<Longrightarrow> P v \<Longrightarrow> list_all (\<lambda>e. P (snd e)) (btree_insert k v es)"
  by (induction k v es rule: btree_insert.induct) auto

lemma parse_values_wf:
  "\<forall>v r. parse_value s = Inr (v, r) \<longrightarrow> json_wf v"
  "list_all json_wf vs \<longrightarrow> (\<forall>v r. parse_array_loop vs s' = Inr (v, r) \<longrightarrow> json_wf v)"
  "json_wf (JObject es) \<longrightarrow> (\<forall>v r. parse_object_loop es s'' = Inr (v, r) \<longrightarrow> json_wf v)"
proof (induction s and vs s' and es s'' rule: parse_value_parse_array_loop_parse_object_loop.induct)
  case (1 s)
  show ?case
  proof (cases "skip_whitespace s")
    case (Cons c cs)
    have arr: "c = 91 \<Longrightarrow> parse_array_loop [] cs = Inr (v, r) \<Longrightarrow> json_wf v" for v r
      using "1.IH"(1) [OF Cons, of "((), cs)"] by auto
    have obj: "c = 123 \<Longrightarrow> parse_object_loop [] cs = Inr (v, r) \<Longrightarrow> json_wf v" for v r
      using "1.IH"(2) [OF Cons, of "((), cs)"] by auto
    from Cons show ?thesis
      by (auto simp: parse_value.simps [of s] json_error_def rbind_eq_Inr split: if_splits
          dest!: parse_literal_value dest: arr obj)
  qed (simp add: parse_value.simps [of s] json_error_def)
next
  case (2 vs s)
  then show ?case
    by (fastforce simp: parse_array_loop.simps [of vs s] rbind_eq_Inr split: option.splits)
next
  case (3 es s)
  then show ?case
    by (fastforce simp: parse_object_loop.simps [of es s] rbind_eq_Inr list_all_btree_insert
        split: option.splits)
qed

subsection \<open>The printer and the parser as a codec\<close>

interpretation json: codec render parse json_wf
  using parse_value_render [of _ "[]"] by unfold_locales (simp add: parse_def skip_whitespace_def)

text \<open>C11: printing a JSON value and parsing the text gives the value back, for every value whose
  objects are sorted maps, as a \<^verbatim>\<open>BTreeMap\<close> always is. In particular the parser returns on it.\<close>

theorem parse_render: "json_wf v \<Longrightarrow> parse (render v) = Inr v"
  by (rule json.dec_enc)

theorem parse_render_witness:
  "parse (render (JObject [(lit ''a'', JArray [JNumber (- 7), JBool True]), (lit ''b'', JString [10, 8230, 128])]))
     = Inr (JObject [(lit ''a'', JArray [JNumber (- 7), JBool True]), (lit ''b'', JString [10, 8230, 128])])"
proof -
  have "json_wf (JObject [(lit ''a'', JArray [JNumber (- 7), JBool True]), (lit ''b'', JString [10, 8230, 128])])"
    by (simp add: btree_wf_def lit_def)
  then show ?thesis by (rule parse_render)
qed

text \<open>Whatever the parser accepts is a well-formed value, and printing it is a normal form:
  it parses to the same value again, however the input was spaced or escaped.\<close>

theorem parse_normalises:
  assumes "parse s = Inr v"
  shows "json_wf v \<and> parse (render v) = Inr v"
proof -
  from assms have "json_wf v"
    using parse_values_wf(1) by (auto simp: parse_def json_error_def rbind_eq_Inr split: if_splits)
  then show ?thesis by (simp add: json.dec_enc)
qed

theorem parse_normalises_witness:
  "parse (lit ''[1 ,true, ]'') = Inr (JArray [JNumber 1, JBool True])
     \<and> parse (render (JArray [JNumber 1, JBool True])) = Inr (JArray [JNumber 1, JBool True])"
proof -
  have "parse (lit ''[1 ,true, ]'') = Inr (JArray [JNumber 1, JBool True])"
    by code_simp
  then show ?thesis using parse_normalises by blast
qed

subsection \<open>Printed values are single lines\<close>

text \<open>Control characters are always escaped, so a printed value never contains a line break; the
  session log relies on this to keep one record per line.\<close>

lemma push_unicode_escape_no_control: "c \<in> set (push_unicode_escape x) \<Longrightarrow> \<not> is_control c"
proof -
  have "\<not> is_control (hex_digit (n mod 16))" for n
    using mod_less_divisor [of 16 n] by (auto simp: hex_digit_def is_control_def)
  then show "c \<in> set (push_unicode_escape x) \<Longrightarrow> \<not> is_control c"
    by (auto simp: push_unicode_escape_def is_control_def [of 92] is_control_def [of 117])
qed

lemma render_char_no_control: "c \<in> set (render_char x) \<Longrightarrow> \<not> is_control c"
proof (cases "is_control x")
  case True
  then show "c \<in> set (render_char x) \<Longrightarrow> \<not> is_control c"
    using push_unicode_escape_no_control [of c x]
    by (simp add: render_char_def split: if_splits) (auto simp: is_control_def)
next
  case False
  then show "c \<in> set (render_char x) \<Longrightarrow> \<not> is_control c"
    by (simp add: render_char_def split: if_splits) (auto simp: is_control_def)
qed

lemma render_string_no_control: "c \<in> set (render_string s) \<Longrightarrow> \<not> is_control c"
  using render_char_no_control by (auto simp: render_string_def is_control_def [of 34])

lemma show_nat_no_control: "c \<in> set (show_nat n) \<Longrightarrow> \<not> is_control c"
  by (drule show_nat_digits) (auto simp: is_ascii_digit_def is_control_def)

lemma set_join: "set (join sep xs) \<subseteq> set sep \<union> \<Union> (set ` set xs)"
  by (induction sep xs rule: join.induct) auto

lemma render_no_control: "c \<in> set (render v) \<Longrightarrow> \<not> is_control c"
proof (induction v)
  case (JNumber w)
  then show ?case
    using show_nat_no_control by (auto simp: show_int_def is_control_def split: if_splits)
next
  case (JArray vs)
  from JArray.prems consider "c \<in> {44, 91, 93}" | v where "v \<in> set vs" "c \<in> set (render v)"
    using set_join [of "[44]" "map render vs"] by auto
  then show ?case using JArray.IH by cases (auto simp: is_control_def)
next
  case (JObject es)
  from JObject.prems consider "c \<in> {44, 58, 123, 125}"
    | e where "e \<in> set es" "c \<in> set (render_string (fst e))"
    | e where "e \<in> set es" "c \<in> set (render (snd e))"
    using set_join [of "[44]" "map render_entry es"] by (auto split: if_splits)
  then show ?case
  proof cases
    case (3 e)
    then show ?thesis using JObject.IH [of e "snd e"] by (auto intro: snds.intros)
  qed (auto simp: is_control_def dest: render_string_no_control)
qed (auto simp: lit_def is_control_def dest: render_string_no_control split: if_splits)

lemma render_object_line:
  "10 \<notin> set (render v)" "13 \<notin> set (render v)"
  using render_no_control [of 10 v] render_no_control [of 13 v] by (auto simp: is_control_def)

lemma trim_render_object: "trim (render (JObject es)) = render (JObject es)"
  by (rule trim_id) (auto simp: is_whitespace_def)

end
