(* ===== verification/Usage.thy ===== *)
theory Usage
  imports Prelude
begin

text \<open>
  Token accounting of \<^verbatim>\<open>runtime/src/usage.rs\<close>. The counters are 32-bit words and wrap around, as
  they do in a release build (a debug build panics on the same overflow).
  The dollar estimates of the file are floating-point display code and are not modelled.
\<close>

section \<open>Definitions\<close>

record TokenUsage =
  input_tokens :: u32
  output_tokens :: u32
  cache_creation_input_tokens :: u32
  cache_read_input_tokens :: u32

definition TokenUsage_default :: TokenUsage where
  "TokenUsage_default = \<lparr>input_tokens = 0, output_tokens = 0, cache_creation_input_tokens = 0,
     cache_read_input_tokens = 0\<rparr>"

definition total_tokens :: "TokenUsage \<Rightarrow> u32" where
  "total_tokens u = input_tokens u + output_tokens u + cache_creation_input_tokens u
     + cache_read_input_tokens u"

record UsageTracker =
  latest_turn :: TokenUsage
  cumulative :: TokenUsage
  turns :: u32

definition UsageTracker_new :: UsageTracker where
  "UsageTracker_new = \<lparr>latest_turn = TokenUsage_default, cumulative = TokenUsage_default, turns = 0\<rparr>"

definition UsageTracker_record :: "TokenUsage \<Rightarrow> UsageTracker \<Rightarrow> UsageTracker" where
  "UsageTracker_record u t =
     t\<lparr>latest_turn := u,
       cumulative :=
         \<lparr>input_tokens = input_tokens (cumulative t) + input_tokens u,
          output_tokens = output_tokens (cumulative t) + output_tokens u,
          cache_creation_input_tokens =
            cache_creation_input_tokens (cumulative t) + cache_creation_input_tokens u,
          cache_read_input_tokens =
            cache_read_input_tokens (cumulative t) + cache_read_input_tokens u\<rparr>,
       turns := turns t + 1\<rparr>"

definition cumulative_usage :: "UsageTracker \<Rightarrow> TokenUsage" where
  "cumulative_usage t = cumulative t"

section \<open>What the tracker has counted\<close>

lemma fold_record_input:
  "input_tokens (cumulative (fold UsageTracker_record us t)) =
     input_tokens (cumulative t) + sum_list (map input_tokens us)"
  by (induction us arbitrary: t) (simp_all add: UsageTracker_record_def algebra_simps)

lemma fold_record_output:
  "output_tokens (cumulative (fold UsageTracker_record us t)) =
     output_tokens (cumulative t) + sum_list (map output_tokens us)"
  by (induction us arbitrary: t) (simp_all add: UsageTracker_record_def algebra_simps)

lemma fold_record_cache:
  "cache_creation_input_tokens (cumulative (fold UsageTracker_record us t)) =
     cache_creation_input_tokens (cumulative t) + sum_list (map cache_creation_input_tokens us)"
  "cache_read_input_tokens (cumulative (fold UsageTracker_record us t)) =
     cache_read_input_tokens (cumulative t) + sum_list (map cache_read_input_tokens us)"
  by (induction us arbitrary: t) (simp_all add: UsageTracker_record_def algebra_simps)

lemma fold_record_turns: "turns (fold UsageTracker_record us t) = turns t + of_nat (length us)"
  by (induction us arbitrary: t) (simp_all add: UsageTracker_record_def algebra_simps)

lemma fold_record_latest:
  "us \<noteq> [] \<Longrightarrow> latest_turn (fold UsageTracker_record us t) = last us"
  by (induction us arbitrary: t) (auto simp: UsageTracker_record_def)

lemma unat_sum_list: "unat (sum_list (map f us) :: u32) = sum_list (map (unat \<circ> f) us) mod 2 ^ 32"
proof (induction us)
  case (Cons u us)
  then show ?case by (simp add: unat_word_ariths mod_add_right_eq)
qed simp

text \<open>The cumulative counters of a tracker are the sums of what was recorded, modulo \<open>2^32\<close>: exact
  as long as a sum fits 32 bits, wrapped around beyond (an unchecked build; a checked one stops).\<close>

theorem cumulative_usage_sums:
  "let t = fold UsageTracker_record us UsageTracker_new; c = cumulative_usage t; f = (\<lambda>g. sum_list (map (unat \<circ> g) us) mod 2 ^ 32)
   in unat (input_tokens c) = f input_tokens \<and> unat (output_tokens c) = f output_tokens
      \<and> unat (cache_creation_input_tokens c) = f cache_creation_input_tokens
      \<and> unat (cache_read_input_tokens c) = f cache_read_input_tokens
      \<and> unat (turns t) = length us mod 2 ^ 32 \<and> latest_turn t = (if us = [] then TokenUsage_default else last us)"
  by (simp only: Let_def cumulative_usage_def fold_record_input fold_record_output fold_record_cache
      fold_record_turns unat_sum_list [symmetric])
    (simp add: UsageTracker_new_def TokenUsage_default_def fold_record_latest unat_of_nat)

end
