(* ===== verification/Session.thy ===== *)
theory Session
  imports Json Usage
begin

text \<open>
  The persisted conversation of \<^verbatim>\<open>runtime/src/session.rs\<close>: its data, the JSON objects it is
  written as, the JSONL snapshot and its reader, and the operations that change a session.
  Time and fresh identifiers come from a \<open>clock\<close>: the process-wide atomics
  \<^verbatim>\<open>LAST_TIMESTAMP_MS\<close> and \<^verbatim>\<open>SESSION_ID_COUNTER\<close> together with the readings of the wall clock, used
  without contention. The file system behind a session is an argument of the operations that
  write to it. A path is its text when it is valid UTF-8.
\<close>

section \<open>Definitions\<close>

subsection \<open>Data\<close>

datatype MessageRole = System | User | Assistant | Tool

datatype ContentBlock =
    Text ustr
  | Thinking ustr "ustr option"
  | ToolUse ustr ustr ustr
  | ToolResult ustr ustr ustr bool

record ConversationMessage =
  role :: MessageRole
  blocks :: "ContentBlock list"
  usage :: "TokenUsage option"

record SessionCompaction =
  count :: u32
  sc_removed_message_count :: nat
  sc_summary :: ustr

record SessionFork =
  parent_session_id :: ustr
  branch_name :: "ustr option"

record SessionPromptEntry =
  timestamp_ms :: u64
  prompt_text :: ustr

datatype PathBuf = Utf8Path ustr | NonUtf8Path ustr

record Session =
  version :: u32
  session_id :: ustr
  created_at_ms :: u64
  updated_at_ms :: u64
  messages :: "ConversationMessage list"
  compaction :: "SessionCompaction option"
  fork :: "SessionFork option"
  workspace_root :: "PathBuf option"
  prompt_history :: "SessionPromptEntry list"
  last_health_check_ms :: "u64 option"
  model :: "ustr option"
  persistence :: "PathBuf option"

datatype SessionError = SessionIo ustr | SessionJson JsonError | SessionFormat ustr

definition SessionError_display :: "SessionError \<Rightarrow> ustr" where
  "SessionError_display e =
     (case e of SessionIo m \<Rightarrow> m | SessionJson j \<Rightarrow> JsonError_display j | SessionFormat m \<Rightarrow> m)"

definition SESSION_VERSION :: u32 where
  "SESSION_VERSION = 1"

subsection \<open>Time and identifiers\<close>

record clock =
  wall :: "nat \<Rightarrow> u64"
  reads :: nat
  last_timestamp_ms :: u64
  session_id_counter :: u64

definition saturating_inc :: "u64 \<Rightarrow> u64" where
  "saturating_inc w = (if w = - 1 then w else w + 1)"

definition current_time_millis :: "clock \<Rightarrow> u64 \<times> clock" where
  "current_time_millis c =
     (let wall_clock = wall c (reads c);
          previous = last_timestamp_ms c;
          candidate = (if wall_clock \<le> previous then saturating_inc previous else wall_clock)
      in (candidate, c\<lparr>reads := reads c + 1, last_timestamp_ms := candidate\<rparr>))"

definition generate_session_id :: "clock \<Rightarrow> ustr \<times> clock" where
  "generate_session_id c =
     (let (millis, c1) = current_time_millis c
      in (lit ''session-'' @ show_nat (unat millis) @ lit ''-'' @ show_nat (unat (session_id_counter c1)),
          c1\<lparr>session_id_counter := session_id_counter c1 + 1\<rparr>))"

definition Session_new :: "clock \<Rightarrow> Session \<times> clock" where
  "Session_new c =
     (let (now, c1) = current_time_millis c; (sid, c2) = generate_session_id c1
      in (\<lparr>version = SESSION_VERSION, session_id = sid, created_at_ms = now, updated_at_ms = now,
           messages = [], compaction = None, fork = None, workspace_root = None,
           prompt_history = [], last_health_check_ms = None, model = None, persistence = None\<rparr>, c2))"

subsection \<open>Integer conversions\<close>

definition u32_try_from :: "i64 \<Rightarrow> u32 option" where
  "u32_try_from v = (if 0 \<le> sint v \<and> sint v < 2 ^ 32 then Some (ucast v) else None)"

definition u64_try_from :: "i64 \<Rightarrow> u64 option" where
  "u64_try_from v = (if 0 \<le> sint v then Some v else None)"

definition usize_try_from :: "i64 \<Rightarrow> nat option" where
  "usize_try_from v = (if 0 \<le> sint v then Some (unat v) else None)"

definition i64_from_u64 :: "u64 \<Rightarrow> ustr \<Rightarrow> SessionError + i64" where
  "i64_from_u64 v key =
     (if unat v < 2 ^ 63 then Inr v
      else Inl (SessionFormat (key @ lit '' out of range for JSON number'')))"

definition i64_from_usize :: "nat \<Rightarrow> ustr \<Rightarrow> SessionError + i64" where
  "i64_from_usize v key =
     (if v < 2 ^ 63 then Inr (of_nat v)
      else Inl (SessionFormat (key @ lit '' out of range for JSON number'')))"

subsection \<open>Required fields\<close>

definition required_string :: "(ustr, JsonValue) btree \<Rightarrow> ustr \<Rightarrow> SessionError + ustr" where
  "required_string obj key =
     ok_or (SessionFormat (lit ''missing '' @ key)) (Option.bind (btree_get obj key) as_str)"

definition required_u32 :: "(ustr, JsonValue) btree \<Rightarrow> ustr \<Rightarrow> SessionError + u32" where
  "required_u32 obj key =
     rbind (ok_or (SessionFormat (lit ''missing '' @ key)) (Option.bind (btree_get obj key) as_i64)) (\<lambda>v.
     ok_or (SessionFormat (key @ lit '' out of range'')) (u32_try_from v))"

definition required_u64_from_value :: "JsonValue \<Rightarrow> ustr \<Rightarrow> SessionError + u64" where
  "required_u64_from_value j key =
     rbind (ok_or (SessionFormat (lit ''missing '' @ key)) (as_i64 j)) (\<lambda>v.
     ok_or (SessionFormat (key @ lit '' out of range'')) (u64_try_from v))"

definition required_u64 :: "(ustr, JsonValue) btree \<Rightarrow> ustr \<Rightarrow> SessionError + u64" where
  "required_u64 obj key =
     rbind (ok_or (SessionFormat (lit ''missing '' @ key)) (btree_get obj key)) (\<lambda>j.
     required_u64_from_value j key)"

definition required_usize :: "(ustr, JsonValue) btree \<Rightarrow> ustr \<Rightarrow> SessionError + nat" where
  "required_usize obj key =
     rbind (ok_or (SessionFormat (lit ''missing '' @ key)) (Option.bind (btree_get obj key) as_i64)) (\<lambda>v.
     ok_or (SessionFormat (key @ lit '' out of range'')) (usize_try_from v))"

definition workspace_root_to_string :: "PathBuf \<Rightarrow> SessionError + ustr" where
  "workspace_root_to_string p =
     (case p of
        Utf8Path s \<Rightarrow> Inr s
      | NonUtf8Path shown \<Rightarrow> Inl (SessionFormat (lit ''workspace_root is not valid UTF-8: '' @ shown)))"

definition normalize_optional_string :: "ustr option \<Rightarrow> ustr option" where
  "normalize_optional_string v =
     Option.bind v (\<lambda>s. if trim s = [] then None else Some (trim s))"

subsection \<open>JSON objects\<close>

abbreviation jstr :: "string \<Rightarrow> JsonValue" where
  "jstr s \<equiv> JString (lit s)"

definition usage_to_json :: "TokenUsage \<Rightarrow> JsonValue" where
  "usage_to_json u = JObject (btree_of
     [(lit ''input_tokens'', JNumber (ucast (input_tokens u))),
      (lit ''output_tokens'', JNumber (ucast (output_tokens u))),
      (lit ''cache_creation_input_tokens'', JNumber (ucast (cache_creation_input_tokens u))),
      (lit ''cache_read_input_tokens'', JNumber (ucast (cache_read_input_tokens u)))])"

definition usage_from_json :: "JsonValue \<Rightarrow> SessionError + TokenUsage" where
  "usage_from_json j =
     rbind (ok_or (SessionFormat (lit ''usage must be an object'')) (as_object j)) (\<lambda>obj.
     rbind (required_u32 obj (lit ''input_tokens'')) (\<lambda>i.
     rbind (required_u32 obj (lit ''output_tokens'')) (\<lambda>out.
     rbind (required_u32 obj (lit ''cache_creation_input_tokens'')) (\<lambda>cc.
     rbind (required_u32 obj (lit ''cache_read_input_tokens'')) (\<lambda>cr.
     Inr \<lparr>input_tokens = i, output_tokens = out, cache_creation_input_tokens = cc,
          cache_read_input_tokens = cr\<rparr>)))))"

definition ContentBlock_to_json :: "ContentBlock \<Rightarrow> JsonValue" where
  "ContentBlock_to_json b =
     JObject (btree_of (case b of
       Text t \<Rightarrow> [(lit ''type'', jstr ''text''), (lit ''text'', JString t)]
     | Thinking t sig \<Rightarrow>
         [(lit ''type'', jstr ''thinking''), (lit ''thinking'', JString t)]
         @ (case sig of None \<Rightarrow> [] | Some x \<Rightarrow> [(lit ''signature'', JString x)])
     | ToolUse i n inp \<Rightarrow>
         [(lit ''type'', jstr ''tool_use''), (lit ''id'', JString i), (lit ''name'', JString n),
          (lit ''input'', JString inp)]
     | ToolResult i n out e \<Rightarrow>
         [(lit ''type'', jstr ''tool_result''), (lit ''tool_use_id'', JString i),
          (lit ''tool_name'', JString n), (lit ''output'', JString out), (lit ''is_error'', JBool e)]))"

definition ContentBlock_from_json :: "JsonValue \<Rightarrow> SessionError + ContentBlock" where
  "ContentBlock_from_json j =
     rbind (ok_or (SessionFormat (lit ''block must be an object'')) (as_object j)) (\<lambda>obj.
     rbind (ok_or (SessionFormat (lit ''missing block type''))
              (Option.bind (btree_get obj (lit ''type'')) as_str)) (\<lambda>ty.
     if ty = lit ''text'' then
       rbind (required_string obj (lit ''text'')) (\<lambda>t. Inr (Text t))
     else if ty = lit ''thinking'' then
       rbind (required_string obj (lit ''thinking'')) (\<lambda>t.
       Inr (Thinking t (Option.bind (btree_get obj (lit ''signature'')) as_str)))
     else if ty = lit ''tool_use'' then
       rbind (required_string obj (lit ''id'')) (\<lambda>i.
       rbind (required_string obj (lit ''name'')) (\<lambda>n.
       rbind (required_string obj (lit ''input'')) (\<lambda>inp. Inr (ToolUse i n inp))))
     else if ty = lit ''tool_result'' then
       rbind (required_string obj (lit ''tool_use_id'')) (\<lambda>i.
       rbind (required_string obj (lit ''tool_name'')) (\<lambda>n.
       rbind (required_string obj (lit ''output'')) (\<lambda>out.
       rbind (ok_or (SessionFormat (lit ''missing is_error''))
                (Option.bind (btree_get obj (lit ''is_error'')) as_bool)) (\<lambda>e.
       Inr (ToolResult i n out e)))))
     else Inl (SessionFormat (lit ''unsupported block type: '' @ ty))))"

definition role_name :: "MessageRole \<Rightarrow> ustr" where
  "role_name r = (case r of System \<Rightarrow> lit ''system'' | User \<Rightarrow> lit ''user''
     | Assistant \<Rightarrow> lit ''assistant'' | Tool \<Rightarrow> lit ''tool'')"

definition ConversationMessage_to_json :: "ConversationMessage \<Rightarrow> JsonValue" where
  "ConversationMessage_to_json m =
     JObject (btree_of
       ([(lit ''role'', JString (role_name (role m))),
         (lit ''blocks'', JArray (map ContentBlock_to_json (blocks m)))]
        @ (case usage m of None \<Rightarrow> [] | Some u \<Rightarrow> [(lit ''usage'', usage_to_json u)])))"

definition role_from_name :: "ustr \<Rightarrow> SessionError + MessageRole" where
  "role_from_name r =
     (if r = lit ''system'' then Inr System
      else if r = lit ''user'' then Inr User
      else if r = lit ''assistant'' then Inr Assistant
      else if r = lit ''tool'' then Inr Tool
      else Inl (SessionFormat (lit ''unsupported message role: '' @ r)))"

definition ConversationMessage_from_json :: "JsonValue \<Rightarrow> SessionError + ConversationMessage" where
  "ConversationMessage_from_json j =
     rbind (ok_or (SessionFormat (lit ''message must be an object'')) (as_object j)) (\<lambda>obj.
     rbind (ok_or (SessionFormat (lit ''missing role''))
              (Option.bind (btree_get obj (lit ''role'')) as_str)) (\<lambda>r.
     rbind (role_from_name r) (\<lambda>r.
     rbind (ok_or (SessionFormat (lit ''missing blocks''))
              (Option.bind (btree_get obj (lit ''blocks'')) as_array)) (\<lambda>bs.
     rbind (collect_results ContentBlock_from_json bs) (\<lambda>bs.
     rbind (transpose_map usage_from_json (btree_get obj (lit ''usage''))) (\<lambda>u.
     Inr \<lparr>role = r, blocks = bs, usage = u\<rparr>))))))"

definition SessionCompaction_fields :: "SessionCompaction \<Rightarrow> SessionError + (ustr \<times> JsonValue) list" where
  "SessionCompaction_fields c =
     rbind (i64_from_usize (sc_removed_message_count c) (lit ''removed_message_count'')) (\<lambda>n.
     Inr [(lit ''count'', JNumber (ucast (count c))), (lit ''removed_message_count'', JNumber n),
          (lit ''summary'', JString (sc_summary c))])"

definition SessionCompaction_to_json :: "SessionCompaction \<Rightarrow> SessionError + JsonValue" where
  "SessionCompaction_to_json c =
     rbind (SessionCompaction_fields c) (\<lambda>fs. Inr (JObject (btree_of fs)))"

definition SessionCompaction_to_jsonl_record :: "SessionCompaction \<Rightarrow> SessionError + JsonValue" where
  "SessionCompaction_to_jsonl_record c =
     rbind (SessionCompaction_fields c) (\<lambda>fs.
     Inr (JObject (btree_of ((lit ''type'', jstr ''compaction'') # fs))))"

definition SessionCompaction_from_json :: "JsonValue \<Rightarrow> SessionError + SessionCompaction" where
  "SessionCompaction_from_json j =
     rbind (ok_or (SessionFormat (lit ''compaction must be an object'')) (as_object j)) (\<lambda>obj.
     rbind (required_u32 obj (lit ''count'')) (\<lambda>c.
     rbind (required_usize obj (lit ''removed_message_count'')) (\<lambda>n.
     rbind (required_string obj (lit ''summary'')) (\<lambda>s.
     Inr \<lparr>count = c, sc_removed_message_count = n, sc_summary = s\<rparr>))))"

definition SessionFork_to_json :: "SessionFork \<Rightarrow> JsonValue" where
  "SessionFork_to_json f =
     JObject (btree_of
       ((lit ''parent_session_id'', JString (parent_session_id f))
        # (case branch_name f of None \<Rightarrow> [] | Some b \<Rightarrow> [(lit ''branch_name'', JString b)])))"

definition SessionFork_from_json :: "JsonValue \<Rightarrow> SessionError + SessionFork" where
  "SessionFork_from_json j =
     rbind (ok_or (SessionFormat (lit ''fork metadata must be an object'')) (as_object j)) (\<lambda>obj.
     rbind (required_string obj (lit ''parent_session_id'')) (\<lambda>p.
     Inr \<lparr>parent_session_id = p, branch_name = Option.bind (btree_get obj (lit ''branch_name'')) as_str\<rparr>))"

text \<open>\<^verbatim>\<open>i64::try_from(timestamp).unwrap_or(i64::MAX)\<close>: a timestamp past the range is clamped.\<close>

definition clamp_i64 :: "u64 \<Rightarrow> i64" where
  "clamp_i64 v = (if unat v < 2 ^ 63 then v else 2 ^ 63 - 1)"

definition SessionPromptEntry_to_jsonl_record :: "SessionPromptEntry \<Rightarrow> JsonValue" where
  "SessionPromptEntry_to_jsonl_record e =
     JObject (btree_of
       [(lit ''type'', jstr ''prompt_history''),
        (lit ''timestamp_ms'', JNumber (clamp_i64 (timestamp_ms e))),
        (lit ''text'', JString (prompt_text e))])"

definition SessionPromptEntry_from_json_opt :: "JsonValue \<Rightarrow> SessionPromptEntry option" where
  "SessionPromptEntry_from_json_opt j =
     Option.bind (as_object j) (\<lambda>obj.
     Option.bind (Option.bind (Option.bind (btree_get obj (lit ''timestamp_ms'')) as_i64) u64_try_from) (\<lambda>ts.
     Option.bind (Option.bind (btree_get obj (lit ''text'')) as_str) (\<lambda>t.
     Some \<lparr>timestamp_ms = ts, prompt_text = t\<rparr>)))"

definition message_record :: "ConversationMessage \<Rightarrow> JsonValue" where
  "message_record m =
     JObject (btree_of [(lit ''type'', jstr ''message''), (lit ''message'', ConversationMessage_to_json m)])"

text \<open>An optional member of an object.\<close>

definition opt_field :: "string \<Rightarrow> JsonValue option \<Rightarrow> (ustr \<times> JsonValue) list" where
  "opt_field k v = (case v of None \<Rightarrow> [] | Some j \<Rightarrow> [(lit k, j)])"

definition meta_record :: "Session \<Rightarrow> SessionError + JsonValue" where
  "meta_record s =
     rbind (i64_from_u64 (created_at_ms s) (lit ''created_at_ms'')) (\<lambda>c.
     rbind (i64_from_u64 (updated_at_ms s) (lit ''updated_at_ms'')) (\<lambda>u.
     rbind (transpose_map workspace_root_to_string (workspace_root s)) (\<lambda>w.
     Inr (JObject (btree_of
       ([(lit ''type'', jstr ''session_meta''),
         (lit ''version'', JNumber (ucast (version s))),
         (lit ''session_id'', JString (session_id s)),
         (lit ''created_at_ms'', JNumber c),
         (lit ''updated_at_ms'', JNumber u)]
        @ opt_field ''fork'' (map_option SessionFork_to_json (fork s))
        @ opt_field ''workspace_root'' (map_option JString w)
        @ opt_field ''model'' (map_option JString (model s))))))))"

definition render_jsonl_snapshot :: "Session \<Rightarrow> SessionError + ustr" where
  "render_jsonl_snapshot s =
     rbind (meta_record s) (\<lambda>meta.
     rbind (transpose_map SessionCompaction_to_jsonl_record (compaction s)) (\<lambda>c.
     Inr (join [10]
       ([render meta]
        @ (case c of None \<Rightarrow> [] | Some j \<Rightarrow> [render j])
        @ map (\<lambda>e. render (SessionPromptEntry_to_jsonl_record e)) (prompt_history s)
        @ map (\<lambda>m. render (message_record m)) (messages s)) @ [10])))"

definition Session_to_json :: "Session \<Rightarrow> SessionError + JsonValue" where
  "Session_to_json s =
     rbind (i64_from_u64 (created_at_ms s) (lit ''created_at_ms'')) (\<lambda>c.
     rbind (i64_from_u64 (updated_at_ms s) (lit ''updated_at_ms'')) (\<lambda>u.
     rbind (transpose_map SessionCompaction_to_json (compaction s)) (\<lambda>cj.
     rbind (transpose_map workspace_root_to_string (workspace_root s)) (\<lambda>w.
     Inr (JObject (btree_of
       ([(lit ''version'', JNumber (ucast (version s))),
         (lit ''session_id'', JString (session_id s)),
         (lit ''created_at_ms'', JNumber c),
         (lit ''updated_at_ms'', JNumber u),
         (lit ''messages'', JArray (map ConversationMessage_to_json (messages s)))]
        @ opt_field ''compaction'' cj
        @ opt_field ''fork'' (map_option SessionFork_to_json (fork s))
        @ opt_field ''workspace_root'' (map_option JString w)
        @ (if prompt_history s = [] then []
           else [(lit ''prompt_history'',
                  JArray (map SessionPromptEntry_to_jsonl_record (prompt_history s)))]))))))))"

subsection \<open>Reading a session\<close>

text \<open>\<^verbatim>\<open>Session::from_json\<close>: version and messages are required; identity and timestamps have
  defaults from the clock.\<close>

definition Session_from_json :: "JsonValue \<Rightarrow> clock \<Rightarrow> (SessionError + Session) \<times> clock" where
  "Session_from_json j clk =
     (case rbind (ok_or (SessionFormat (lit ''session must be an object'')) (as_object j)) (\<lambda>obj.
           rbind (ok_or (SessionFormat (lit ''missing version''))
                    (Option.bind (btree_get obj (lit ''version'')) as_i64)) (\<lambda>v.
           rbind (ok_or (SessionFormat (lit ''version out of range'')) (u32_try_from v)) (\<lambda>v.
           rbind (ok_or (SessionFormat (lit ''missing messages''))
                    (Option.bind (btree_get obj (lit ''messages'')) as_array)) (\<lambda>ms.
           rbind (collect_results ConversationMessage_from_json ms) (\<lambda>ms.
           Inr (obj, v, ms)))))) of
        Inl e \<Rightarrow> (Inl e, clk)
      | Inr (obj, v, ms) \<Rightarrow>
          let (now, clk1) = current_time_millis clk;
              (sid, clk2) = (case Option.bind (btree_get obj (lit ''session_id'')) as_str of
                               Some i \<Rightarrow> (i, clk1) | None \<Rightarrow> generate_session_id clk1)
          in (rbind (transpose_map (\<lambda>x. required_u64_from_value x (lit ''created_at_ms''))
                       (btree_get obj (lit ''created_at_ms''))) (\<lambda>c.
              let created = (case c of Some x \<Rightarrow> x | None \<Rightarrow> now) in
              rbind (transpose_map (\<lambda>x. required_u64_from_value x (lit ''updated_at_ms''))
                       (btree_get obj (lit ''updated_at_ms''))) (\<lambda>u.
              let updated = (case u of Some x \<Rightarrow> x | None \<Rightarrow> created) in
              rbind (transpose_map SessionCompaction_from_json (btree_get obj (lit ''compaction''))) (\<lambda>comp.
              rbind (transpose_map SessionFork_from_json (btree_get obj (lit ''fork''))) (\<lambda>f.
              Inr \<lparr>version = v, session_id = sid, created_at_ms = created, updated_at_ms = updated,
                   messages = ms, compaction = comp, fork = f,
                   workspace_root =
                     map_option Utf8Path (Option.bind (btree_get obj (lit ''workspace_root'')) as_str),
                   prompt_history =
                     (case Option.bind (btree_get obj (lit ''prompt_history'')) as_array of
                        None \<Rightarrow> [] | Some es \<Rightarrow> List.map_filter SessionPromptEntry_from_json_opt es),
                   last_health_check_ms = None,
                   model = Option.bind (btree_get obj (lit ''model'')) as_str,
                   persistence = None\<rparr>)))), clk2))"

text \<open>\<^verbatim>\<open>Session::from_jsonl\<close>: the loop over the lines, and the session it ends in.\<close>

record jsonl_state =
  js_version :: u32
  js_session_id :: "ustr option"
  js_created_at_ms :: "u64 option"
  js_updated_at_ms :: "u64 option"
  js_messages :: "ConversationMessage list"
  js_compaction :: "SessionCompaction option"
  js_fork :: "SessionFork option"
  js_workspace_root :: "PathBuf option"
  js_model :: "ustr option"
  js_prompt_history :: "SessionPromptEntry list"

definition jsonl_init :: jsonl_state where
  "jsonl_init = \<lparr>js_version = SESSION_VERSION, js_session_id = None, js_created_at_ms = None,
     js_updated_at_ms = None, js_messages = [], js_compaction = None, js_fork = None,
     js_workspace_root = None, js_model = None, js_prompt_history = []\<rparr>"

definition jsonl_record :: "nat \<Rightarrow> (ustr, JsonValue) btree \<Rightarrow> jsonl_state \<Rightarrow> SessionError + jsonl_state" where
  "jsonl_record line_number obj st =
     rbind (ok_or (SessionFormat (lit ''JSONL record at line '' @ show_nat line_number @ lit '' missing type''))
              (Option.bind (btree_get obj (lit ''type'')) as_str)) (\<lambda>ty.
     if ty = lit ''session_meta'' then
       rbind (required_u32 obj (lit ''version'')) (\<lambda>v.
       rbind (required_string obj (lit ''session_id'')) (\<lambda>i.
       rbind (required_u64 obj (lit ''created_at_ms'')) (\<lambda>c.
       rbind (required_u64 obj (lit ''updated_at_ms'')) (\<lambda>u.
       rbind (transpose_map SessionFork_from_json (btree_get obj (lit ''fork''))) (\<lambda>f.
       Inr (st\<lparr>js_version := v, js_session_id := Some i, js_created_at_ms := Some c,
               js_updated_at_ms := Some u, js_fork := f,
               js_workspace_root :=
                 map_option Utf8Path (Option.bind (btree_get obj (lit ''workspace_root'')) as_str),
               js_model := Option.bind (btree_get obj (lit ''model'')) as_str\<rparr>))))))
     else if ty = lit ''message'' then
       rbind (ok_or (SessionFormat (lit ''JSONL record at line '' @ show_nat line_number @ lit '' missing message''))
                (btree_get obj (lit ''message''))) (\<lambda>mj.
       rbind (ConversationMessage_from_json mj) (\<lambda>m.
       Inr (st\<lparr>js_messages := js_messages st @ [m]\<rparr>)))
     else if ty = lit ''compaction'' then
       rbind (SessionCompaction_from_json (JObject obj)) (\<lambda>c.
       Inr (st\<lparr>js_compaction := Some c\<rparr>))
     else if ty = lit ''prompt_history'' then
       (case SessionPromptEntry_from_json_opt (JObject obj) of
          Some e \<Rightarrow> Inr (st\<lparr>js_prompt_history := js_prompt_history st @ [e]\<rparr>)
        | None \<Rightarrow> Inr st)
     else Inl (SessionFormat (lit ''unsupported JSONL record type at line '' @ show_nat line_number
                 @ lit '': '' @ ty)))"

definition jsonl_line :: "nat \<Rightarrow> ustr \<Rightarrow> jsonl_state \<Rightarrow> SessionError + jsonl_state" where
  "jsonl_line line_number raw_line st =
     (let line = trim raw_line in
      if line = [] then Inr st
      else case parse line of
             Inl e \<Rightarrow> Inl (SessionFormat (lit ''invalid JSONL record at line '' @ show_nat line_number
                        @ lit '': '' @ JsonError_display e))
           | Inr v \<Rightarrow>
               rbind (ok_or (SessionFormat (lit ''JSONL record at line '' @ show_nat line_number
                               @ lit '' must be an object'')) (as_object v)) (\<lambda>obj.
               jsonl_record line_number obj st))"

fun jsonl_loop :: "nat \<Rightarrow> ustr list \<Rightarrow> jsonl_state \<Rightarrow> SessionError + jsonl_state" where
  "jsonl_loop n [] st = Inr st"
| "jsonl_loop n (l # ls) st = rbind (jsonl_line (n + 1) l st) (\<lambda>st'. jsonl_loop (n + 1) ls st')"

definition Session_from_jsonl :: "ustr \<Rightarrow> clock \<Rightarrow> (SessionError + Session) \<times> clock" where
  "Session_from_jsonl contents clk =
     (case jsonl_loop 0 (lines contents) jsonl_init of
        Inl e \<Rightarrow> (Inl e, clk)
      | Inr st \<Rightarrow>
          let (now, clk1) = current_time_millis clk;
              (sid, clk2) = (case js_session_id st of
                               Some i \<Rightarrow> (i, clk1) | None \<Rightarrow> generate_session_id clk1);
              created = (case js_created_at_ms st of Some x \<Rightarrow> x | None \<Rightarrow> now)
          in (Inr \<lparr>version = js_version st, session_id = sid, created_at_ms = created,
                   updated_at_ms = (case js_updated_at_ms st of Some x \<Rightarrow> x | None \<Rightarrow> created),
                   messages = js_messages st, compaction = js_compaction st, fork = js_fork st,
                   workspace_root = js_workspace_root st, prompt_history = js_prompt_history st,
                   last_health_check_ms = None, model = js_model st, persistence = None\<rparr>, clk2))"

text \<open>\<^verbatim>\<open>Session::load_from_path\<close>, given what reading the file returned.\<close>

definition Session_load_from_path ::
  "PathBuf \<Rightarrow> SessionError + ustr \<Rightarrow> clock \<Rightarrow> (SessionError + Session) \<times> clock" where
  "Session_load_from_path path read clk =
     (case read of
        Inl e \<Rightarrow> (Inl e, clk)
      | Inr contents \<Rightarrow>
          (case (case parse contents of
                   Inr v \<Rightarrow>
                     if (case as_object v of Some obj \<Rightarrow> btree_get obj (lit ''messages'') \<noteq> None | None \<Rightarrow> False)
                     then Session_from_json v clk
                     else Session_from_jsonl contents clk
                 | Inl _ \<Rightarrow> Session_from_jsonl contents clk) of
             (Inl e, clk') \<Rightarrow> (Inl e, clk')
           | (Inr s, clk') \<Rightarrow> (Inr (s\<lparr>persistence := Some path\<rparr>), clk')))"

subsection \<open>Changing a session\<close>

definition touch :: "Session \<Rightarrow> clock \<Rightarrow> Session \<times> clock" where
  "touch s clk = (let (now, clk1) = current_time_millis clk in (s\<lparr>updated_at_ms := now\<rparr>, clk1))"

text \<open>\<^verbatim>\<open>push_message\<close>: the message stays only if appending it to the log succeeds. \<open>store\<close> is
  \<^verbatim>\<open>append_persisted_message\<close>, which writes to the file system \<open>'w\<close>.\<close>

definition push_message ::
  "(Session \<Rightarrow> ConversationMessage \<Rightarrow> 'w \<Rightarrow> (SessionError + unit) \<times> 'w) \<Rightarrow> ConversationMessage \<Rightarrow>
   Session \<Rightarrow> clock \<Rightarrow> 'w \<Rightarrow> (SessionError + unit) \<times> Session \<times> clock \<times> 'w" where
  "push_message store msg s clk w =
     (let (s1, clk1) = touch s clk;
          s2 = s1\<lparr>messages := messages s1 @ [msg]\<rparr>
      in case store s2 msg w of
           (Inl e, w') \<Rightarrow> (Inl e, s2\<lparr>messages := butlast (messages s2)\<rparr>, clk1, w')
         | (Inr u, w') \<Rightarrow> (Inr (), s2, clk1, w'))"

definition ConversationMessage_user_text :: "ustr \<Rightarrow> ConversationMessage" where
  "ConversationMessage_user_text t = \<lparr>role = User, blocks = [Text t], usage = None\<rparr>"

definition ConversationMessage_assistant_with_usage ::
  "ContentBlock list \<Rightarrow> TokenUsage option \<Rightarrow> ConversationMessage" where
  "ConversationMessage_assistant_with_usage bs u = \<lparr>role = Assistant, blocks = bs, usage = u\<rparr>"

definition ConversationMessage_tool_result ::
  "ustr \<Rightarrow> ustr \<Rightarrow> ustr \<Rightarrow> bool \<Rightarrow> ConversationMessage" where
  "ConversationMessage_tool_result i n out e =
     \<lparr>role = Tool, blocks = [ToolResult i n out e], usage = None\<rparr>"

definition record_compaction :: "ustr \<Rightarrow> nat \<Rightarrow> Session \<Rightarrow> clock \<Rightarrow> Session \<times> clock" where
  "record_compaction summ removed s clk =
     (let (s1, clk1) = touch s clk;
          n = (case compaction s1 of None \<Rightarrow> 1 | Some c \<Rightarrow> count c + 1)
      in (s1\<lparr>compaction := Some \<lparr>count = n, sc_removed_message_count = removed, sc_summary = summ\<rparr>\<rparr>, clk1))"

definition Session_fork :: "ustr option \<Rightarrow> Session \<Rightarrow> clock \<Rightarrow> Session \<times> clock" where
  "Session_fork branch s clk =
     (let (now, clk1) = current_time_millis clk; (sid, clk2) = generate_session_id clk1
      in (s\<lparr>session_id := sid, created_at_ms := now, updated_at_ms := now,
            fork := Some \<lparr>parent_session_id = session_id s, branch_name = normalize_optional_string branch\<rparr>,
            persistence := None\<rparr>, clk2))"

definition push_prompt_entry ::
  "(Session \<Rightarrow> SessionPromptEntry \<Rightarrow> 'w \<Rightarrow> (SessionError + unit) \<times> 'w) \<Rightarrow> ustr \<Rightarrow>
   Session \<Rightarrow> clock \<Rightarrow> 'w \<Rightarrow> (SessionError + unit) \<times> Session \<times> clock \<times> 'w" where
  "push_prompt_entry store t s clk w =
     (let (now, clk1) = current_time_millis clk;
          e = \<lparr>timestamp_ms = now, prompt_text = t\<rparr>;
          s1 = s\<lparr>prompt_history := prompt_history s @ [e]\<rparr>;
          (r, w') = store s1 e w
      in (r, s1, clk1, w'))"

text \<open>\<^verbatim>\<open>UsageTracker::from_session\<close>.\<close>

definition UsageTracker_from_session :: "Session \<Rightarrow> UsageTracker" where
  "UsageTracker_from_session s =
     fold (\<lambda>m t. case usage m of None \<Rightarrow> t | Some u \<Rightarrow> UsageTracker_record u t) (messages s) UsageTracker_new"

section \<open>Round trips of the parts\<close>

lemma sint_ucast_u32: "sint (ucast (w :: u32) :: i64) = uint w"
proof -
  have "uint w < 2 ^ 32" and ge: "0 \<le> uint w" using uint_lt2p [of w] by simp_all
  then have "uint (ucast w :: i64) = uint w" "uint w < 2 ^ 63"
    by (simp_all add: uint_up_ucast is_up)
  then show ?thesis using ge by (simp add: sint_uint signed_take_bit_int_eq_self order_trans [OF _ ge])
qed

lemma u32_try_from_ucast [simp]: "u32_try_from (ucast (w :: u32)) = Some w"
proof -
  have "uint w < 2 ^ 32" using uint_lt2p [of w] by simp
  moreover have "ucast (ucast w :: i64) = w" by (simp add: ucast_up_ucast_id is_up)
  ultimately show ?thesis by (simp add: u32_try_from_def sint_ucast_u32)
qed

lemma sint_nonneg_iff: "0 \<le> sint (v :: i64) \<longleftrightarrow> unat v < 2 ^ 63"
proof -
  have lt: "uint v < 2 ^ 64" and ge: "0 \<le> uint v" using uint_lt2p [of v] by simp_all
  have "0 \<le> sint v \<longleftrightarrow> even (uint v div 2 ^ 63)"
    by (simp add: sint_uint signed_take_bit_nonnegative_iff bit_iff_odd)
  also have "\<dots> \<longleftrightarrow> uint v < 2 ^ 63"
  proof (cases "uint v < 2 ^ 63")
    case False
    then have "uint v div 2 ^ 63 = (uint v - 2 ^ 63) div 2 ^ 63 + 1"
      by (intro div_pos_geq) simp_all
    moreover have "(uint v - 2 ^ 63) div 2 ^ 63 = 0"
      using False lt by (intro div_pos_pos_trivial) simp_all
    ultimately have "uint v div 2 ^ 63 = 1" by (simp only: add_0)
    with False show ?thesis by (metis odd_one)
  qed (use ge in simp)
  also have "\<dots> \<longleftrightarrow> int (unat v) < int (2 ^ 63)" by simp
  finally show ?thesis by (simp only: of_nat_less_iff)
qed

lemma u64_try_from_small [simp]: "unat v < 2 ^ 63 \<Longrightarrow> u64_try_from v = Some v"
  by (simp add: u64_try_from_def sint_nonneg_iff)

lemma usize_try_from_small [simp]: "n < 2 ^ 63 \<Longrightarrow> usize_try_from (of_nat n) = Some n"
  by (simp add: usize_try_from_def sint_nonneg_iff unat_of_nat)

lemma as_accessors [simp]:
  "as_object (JObject es) = Some es" "as_array (JArray vs) = Some vs" "as_str (JString t) = Some t"
  "as_bool (JBool b) = Some b" "as_i64 (JNumber n) = Some n"
  by (simp_all add: as_object_def as_array_def as_str_def as_bool_def as_i64_def)

lemmas field_simps_json = btree_get_of required_string_def required_u32_def required_u64_def
  required_u64_from_value_def required_usize_def opt_field_def

interpretation usage: codec usage_to_json usage_from_json "\<lambda>_. True"
  by unfold_locales (simp add: usage_to_json_def usage_from_json_def field_simps_json)

interpretation block: codec ContentBlock_to_json ContentBlock_from_json "\<lambda>_. True"
proof
  show "ContentBlock_from_json (ContentBlock_to_json b) = Inr b" for b
    by (cases b)
      (auto simp: ContentBlock_to_json_def ContentBlock_from_json_def field_simps_json
        split: option.split)
qed

lemma role_from_name_role_name [simp]: "role_from_name (role_name r) = Inr r"
  by (cases r) (simp_all add: role_from_name_def role_name_def)

interpretation message: codec ConversationMessage_to_json ConversationMessage_from_json "\<lambda>_. True"
proof
  show "ConversationMessage_from_json (ConversationMessage_to_json m) = Inr m" for m
    by (cases m)
      (auto simp: ConversationMessage_to_json_def ConversationMessage_from_json_def
        field_simps_json block.dec_enc_list usage.dec_enc split: option.split)
qed

interpretation sfork: codec SessionFork_to_json SessionFork_from_json "\<lambda>_. True"
proof
  show "SessionFork_from_json (SessionFork_to_json f) = Inr f" for f
    by (cases f)
      (auto simp: SessionFork_to_json_def SessionFork_from_json_def field_simps_json
        split: option.split)
qed

lemma SessionCompaction_record_roundtrip:
  "SessionCompaction_to_jsonl_record c = Inr j \<Longrightarrow> SessionCompaction_from_json j = Inr c"
  "SessionCompaction_to_json c = Inr j \<Longrightarrow> SessionCompaction_from_json j = Inr c"
  by (cases c; auto simp: SessionCompaction_to_jsonl_record_def SessionCompaction_to_json_def
      SessionCompaction_fields_def SessionCompaction_from_json_def i64_from_usize_def rbind_eq_Inr
      field_simps_json split: if_splits)+

lemma SessionPromptEntry_roundtrip:
  "unat (timestamp_ms e) < 2 ^ 63 \<Longrightarrow>
     SessionPromptEntry_from_json_opt (SessionPromptEntry_to_jsonl_record e) = Some e"
  by (cases e) (simp add: SessionPromptEntry_from_json_opt_def SessionPromptEntry_to_jsonl_record_def
      clamp_i64_def field_simps_json)

section \<open>The JSONL log\<close>

text \<open>Everything a session prints is a well-formed JSON value.\<close>

lemma list_all_btree_of:
  assumes "list_all (\<lambda>e. P (snd e)) kvs"
  shows "list_all (\<lambda>e. P (snd e)) (btree_of kvs)"
proof -
  have "list_all (\<lambda>e. P (snd e)) (fold (\<lambda>(k, v). btree_insert k v) kvs m)"
    if "list_all (\<lambda>e. P (snd e)) m" for m
    using assms that by (induction kvs arbitrary: m) (auto simp: list_all_btree_insert)
  then show ?thesis by (simp add: btree_of_def)
qed

lemma json_wf_object [simp]:
  "list_all (\<lambda>e. json_wf (snd e)) kvs \<Longrightarrow> json_wf (JObject (btree_of kvs))"
  by (simp add: list_all_btree_of)

declare json_wf.simps(2) [simp del] render.simps [simp del]

lemma usage_to_json_wf [simp]: "json_wf (usage_to_json u)"
  by (simp add: usage_to_json_def)

lemma ContentBlock_to_json_wf [simp]: "json_wf (ContentBlock_to_json b)"
  by (simp add: ContentBlock_to_json_def split: ContentBlock.split option.split)

lemma ConversationMessage_to_json_wf [simp]: "json_wf (ConversationMessage_to_json m)"
  by (simp add: ConversationMessage_to_json_def list_all_iff split: option.split)

lemma SessionFork_to_json_wf [simp]: "json_wf (SessionFork_to_json f)"
  by (simp add: SessionFork_to_json_def split: option.split)

lemma record_objects:
  "\<exists>kvs. message_record m = JObject (btree_of kvs) \<and> json_wf (message_record m)"
  "\<exists>kvs. SessionPromptEntry_to_jsonl_record e = JObject (btree_of kvs)
     \<and> json_wf (SessionPromptEntry_to_jsonl_record e)"
  "SessionCompaction_to_jsonl_record c = Inr j \<Longrightarrow> \<exists>kvs. j = JObject (btree_of kvs) \<and> json_wf j"
  "meta_record s = Inr j \<Longrightarrow> \<exists>kvs. j = JObject (btree_of kvs) \<and> json_wf j"
  by (auto simp: message_record_def SessionPromptEntry_to_jsonl_record_def
      SessionCompaction_to_jsonl_record_def SessionCompaction_fields_def meta_record_def opt_field_def
      rbind_eq_Inr split: option.splits)

text \<open>Reading one printed record is processing the object that was printed.\<close>

lemma jsonl_line_render:
  assumes "json_wf (JObject obj)"
  shows "jsonl_line n (render (JObject obj)) st = jsonl_record n obj st"
proof -
  have "render (JObject obj) \<noteq> []" using render_Cons [of "JObject obj"] by auto
  then show ?thesis
    using json.dec_enc [OF assms] trim_render_object [of obj] by (simp add: jsonl_line_def Let_def)
qed

lemma jsonl_line_message:
  "jsonl_line n (render (message_record m)) st = Inr (st\<lparr>js_messages := js_messages st @ [m]\<rparr>)"
  using record_objects(1) [of m]
  by (auto simp: message_record_def jsonl_line_render jsonl_record_def field_simps_json
      message.dec_enc)

lemma jsonl_line_prompt:
  assumes "unat (timestamp_ms e) < 2 ^ 63"
  shows "jsonl_line n (render (SessionPromptEntry_to_jsonl_record e)) st =
     Inr (st\<lparr>js_prompt_history := js_prompt_history st @ [e]\<rparr>)"
proof -
  obtain obj where obj: "SessionPromptEntry_to_jsonl_record e = JObject obj"
    and wf: "json_wf (JObject obj)"
    using record_objects(2) [of e] by metis
  have "btree_get obj (lit ''type'') = Some (jstr ''prompt_history'')"
    using obj by (auto simp: SessionPromptEntry_to_jsonl_record_def field_simps_json)
  then show ?thesis
    using SessionPromptEntry_roundtrip [OF assms] wf
    by (simp add: obj jsonl_line_render jsonl_record_def)
qed

lemma jsonl_line_compaction:
  assumes "SessionCompaction_to_jsonl_record c = Inr j"
  shows "jsonl_line n (render j) st = Inr (st\<lparr>js_compaction := Some c\<rparr>)"
proof -
  obtain obj where obj: "j = JObject obj" and wf: "json_wf (JObject obj)"
    using record_objects(3) [OF assms] by metis
  have "btree_get obj (lit ''type'') = Some (jstr ''compaction'')"
    using assms obj
    by (auto simp: SessionCompaction_to_jsonl_record_def SessionCompaction_fields_def rbind_eq_Inr
        field_simps_json)
  then show ?thesis
    using SessionCompaction_record_roundtrip(1) [OF assms] wf
    by (simp add: obj jsonl_line_render jsonl_record_def)
qed

lemma transpose_workspace_root:
  "transpose_map workspace_root_to_string r = Inr w \<Longrightarrow> map_option Utf8Path w = r"
  by (cases r) (auto simp: rbind_eq_Inr workspace_root_to_string_def split: PathBuf.splits)

lemma jsonl_line_meta:
  assumes "meta_record s = Inr j"
  shows "jsonl_line n (render j) st =
     Inr (st\<lparr>js_version := version s, js_session_id := Some (session_id s),
             js_created_at_ms := Some (created_at_ms s), js_updated_at_ms := Some (updated_at_ms s),
             js_fork := fork s, js_workspace_root := workspace_root s, js_model := model s\<rparr>)"
proof -
  obtain w where w: "transpose_map workspace_root_to_string (workspace_root s) = Inr w"
    and c: "unat (created_at_ms s) < 2 ^ 63" and u: "unat (updated_at_ms s) < 2 ^ 63"
    and j: "j = JObject (btree_of
       ([(lit ''type'', jstr ''session_meta''), (lit ''version'', JNumber (ucast (version s))),
         (lit ''session_id'', JString (session_id s)), (lit ''created_at_ms'', JNumber (created_at_ms s)),
         (lit ''updated_at_ms'', JNumber (updated_at_ms s))]
        @ opt_field ''fork'' (map_option SessionFork_to_json (fork s))
        @ opt_field ''workspace_root'' (map_option JString w)
        @ opt_field ''model'' (map_option JString (model s))))"
    using assms by (auto simp: meta_record_def i64_from_u64_def rbind_eq_Inr split: if_splits)
  from record_objects(4) [OF assms] have wf: "json_wf j" by blast
  show ?thesis
    using wf c u transpose_workspace_root [OF w]
    by (cases "fork s"; cases w; cases "model s")
      (simp_all add: j jsonl_line_render jsonl_record_def field_simps_json sfork.dec_enc)
qed

lemma jsonl_loop_append:
  "jsonl_loop n (ls @ ls') st = rbind (jsonl_loop n ls st) (\<lambda>st'. jsonl_loop (n + length ls) ls' st')"
proof (induction ls arbitrary: n st)
  case (Cons l ls)
  show ?case by (cases "jsonl_line (n + 1) l st") (simp_all add: Cons.IH)
qed simp

lemma jsonl_loop_messages:
  "jsonl_loop n (map (\<lambda>m. render (message_record m)) ms) st =
     Inr (st\<lparr>js_messages := js_messages st @ ms\<rparr>)"
  by (induction ms arbitrary: n st) (simp_all add: jsonl_line_message)

lemma jsonl_loop_prompts:
  "\<forall>e \<in> set es. unat (timestamp_ms e) < 2 ^ 63 \<Longrightarrow>
     jsonl_loop n (map (\<lambda>e. render (SessionPromptEntry_to_jsonl_record e)) es) st =
       Inr (st\<lparr>js_prompt_history := js_prompt_history st @ es\<rparr>)"
  by (induction es arbitrary: n st) (simp_all add: jsonl_line_prompt)

text \<open>A session as the reader reconstructs it: the two fields that are not written are reset.\<close>

definition persisted :: "Session \<Rightarrow> Session" where
  "persisted s = s\<lparr>last_health_check_ms := None, persistence := None\<rparr>"

lemma render_jsonl_snapshot_lines:
  assumes "render_jsonl_snapshot s = Inr text"
  obtains meta c where "meta_record s = Inr meta"
    and "transpose_map SessionCompaction_to_jsonl_record (compaction s) = Inr c"
    and "lines text = [render meta] @ (case c of None \<Rightarrow> [] | Some j \<Rightarrow> [render j])
        @ map (\<lambda>e. render (SessionPromptEntry_to_jsonl_record e)) (prompt_history s)
        @ map (\<lambda>m. render (message_record m)) (messages s)"
proof -
  from assms obtain meta c where m: "meta_record s = Inr meta"
    and c: "transpose_map SessionCompaction_to_jsonl_record (compaction s) = Inr c"
    and tx: "text = join [10] ([render meta] @ (case c of None \<Rightarrow> [] | Some j \<Rightarrow> [render j])
        @ map (\<lambda>e. render (SessionPromptEntry_to_jsonl_record e)) (prompt_history s)
        @ map (\<lambda>m. render (message_record m)) (messages s)) @ [10]"
    by (auto simp: render_jsonl_snapshot_def rbind_eq_Inr)
  have line: "10 \<notin> set (render j) \<and> (render j = [] \<or> last (render j) \<noteq> 13)" for j
    using render_object_line [of j] by (metis last_in_set)
  have "lines text = [render meta] @ (case c of None \<Rightarrow> [] | Some j \<Rightarrow> [render j])
        @ map (\<lambda>e. render (SessionPromptEntry_to_jsonl_record e)) (prompt_history s)
        @ map (\<lambda>m. render (message_record m)) (messages s)"
    unfolding tx by (rule lines_join) (use line in \<open>auto split: option.splits\<close>)
  with m c show ?thesis by (rule that)
qed

lemma jsonl_loop_snapshot:
  assumes "render_jsonl_snapshot s = Inr text"
    and "\<forall>e \<in> set (prompt_history s). unat (timestamp_ms e) < 2 ^ 63"
  shows "jsonl_loop 0 (lines text) jsonl_init =
     Inr \<lparr>js_version = version s, js_session_id = Some (session_id s),
          js_created_at_ms = Some (created_at_ms s), js_updated_at_ms = Some (updated_at_ms s),
          js_messages = messages s, js_compaction = compaction s, js_fork = fork s,
          js_workspace_root = workspace_root s, js_model = model s,
          js_prompt_history = prompt_history s\<rparr>"
proof -
  from assms(1) obtain meta c where meta: "meta_record s = Inr meta"
    and c: "transpose_map SessionCompaction_to_jsonl_record (compaction s) = Inr c"
    and ls: "lines text = [render meta] @ (case c of None \<Rightarrow> [] | Some j \<Rightarrow> [render j])
        @ map (\<lambda>e. render (SessionPromptEntry_to_jsonl_record e)) (prompt_history s)
        @ map (\<lambda>m. render (message_record m)) (messages s)"
    by (rule render_jsonl_snapshot_lines)
  show ?thesis
  proof (cases "compaction s")
    case None
    with c have "c = None" by simp
    with None show ?thesis
      by (simp add: ls jsonl_line_meta [OF meta] jsonl_loop_append jsonl_loop_messages
          jsonl_loop_prompts [OF assms(2)] jsonl_init_def)
  next
    case (Some comp)
    with c obtain j where j: "SessionCompaction_to_jsonl_record comp = Inr j" "c = Some j"
      by (auto simp: rbind_eq_Inr)
    with Some show ?thesis
      by (simp add: ls jsonl_line_meta [OF meta] jsonl_line_compaction [OF j(1)] jsonl_loop_append
          jsonl_loop_messages jsonl_loop_prompts [OF assms(2)] jsonl_init_def)
  qed
qed

lemma from_jsonl_snapshot:
  assumes "render_jsonl_snapshot s = Inr text"
    and "\<forall>e \<in> set (prompt_history s). unat (timestamp_ms e) < 2 ^ 63"
  shows "fst (Session_from_jsonl text clk) = Inr (persisted s)"
  using jsonl_loop_snapshot [OF assms]
  by (simp add: Session_from_jsonl_def persisted_def current_time_millis_def Let_def)

lemma join_Cons_sep: "\<exists>r. join sep (x # xs) @ sep = x @ sep @ r"
  by (cases xs) auto

text \<open>The whole log, parsed as one JSON document, is either not a document or the bare meta
  record; in both cases the line reader is used.\<close>

lemma parse_snapshot:
  assumes "render_jsonl_snapshot s = Inr text" and "parse text = Inr v"
  shows "case as_object v of Some obj \<Rightarrow> btree_get obj (lit ''messages'') = None | None \<Rightarrow> True"
proof -
  from assms(1) obtain meta r where m: "meta_record s = Inr meta" and t: "text = render meta @ 10 # r"
    using join_Cons_sep [of "[10]"] by (fastforce simp: render_jsonl_snapshot_def rbind_eq_Inr)
  from record_objects(4) [OF m] have "json_wf meta" by blast
  then have "parse_value text = Inr (meta, 10 # r)"
    unfolding t by (rule parse_value_render) (simp add: is_ascii_digit_def)
  with assms(2) have "v = meta" by (simp add: parse_def json_error_def split: if_splits)
  moreover have "case as_object meta of Some obj \<Rightarrow> btree_get obj (lit ''messages'') = None | None \<Rightarrow> True"
    using m by (auto simp: meta_record_def rbind_eq_Inr field_simps_json split: option.splits)
  ultimately show ?thesis by simp
qed

lemma load_snapshot:
  assumes "render_jsonl_snapshot s = Inr text"
    and "\<forall>e \<in> set (prompt_history s). unat (timestamp_ms e) < 2 ^ 63"
  shows "fst (Session_load_from_path path (Inr text) clk) =
     Inr (s\<lparr>last_health_check_ms := None, persistence := Some path\<rparr>)"
proof -
  have "fst (case Session_from_jsonl text clk of
      (Inl e, clk') \<Rightarrow> (Inl e, clk') | (Inr s, clk') \<Rightarrow> (Inr (s\<lparr>persistence := Some path\<rparr>), clk')) =
      Inr (s\<lparr>last_health_check_ms := None, persistence := Some path\<rparr>)"
    using from_jsonl_snapshot [OF assms, of clk]
    by (cases "Session_from_jsonl text clk") (simp add: persisted_def)
  then show ?thesis
    using parse_snapshot [OF assms(1)]
    by (cases "parse text") (auto simp: Session_load_from_path_def split: option.splits)
qed

text \<open>C8: a session that was written as a JSONL snapshot is loaded back unchanged: identity,
  timestamps, every message with its blocks and usage, compaction, fork, workspace root, model and
  prompt history. Only the health-check time is dropped, and the persistence path is the one it was
  loaded from. A prompt timestamp must fit a JSON number, as any real time does.\<close>

theorem load_saved_session:
  assumes "render_jsonl_snapshot s = Inr text"
    and "\<forall>e \<in> set (prompt_history s). unat (timestamp_ms e) < 2 ^ 63"
  shows "fst (Session_load_from_path path (Inr text) clk) =
     Inr (s\<lparr>last_health_check_ms := None, persistence := Some path\<rparr>)"
  by (rule load_snapshot [OF assms])

definition sample_clock :: clock where
  "sample_clock = \<lparr>wall = (\<lambda>n. 1000), reads = 0, last_timestamp_ms = 0, session_id_counter = 0\<rparr>"

definition sample_session :: Session where
  "sample_session = \<lparr>version = 1, session_id = lit ''s1'', created_at_ms = 5, updated_at_ms = 9,
     messages = [ConversationMessage_user_text (lit ''hi''),
       ConversationMessage_assistant_with_usage [ToolUse (lit ''t'') (lit ''bash'') (lit ''ls'')] None,
       ConversationMessage_tool_result (lit ''t'') (lit ''bash'') [10] False],
     compaction = Some \<lparr>count = 1, sc_removed_message_count = 2, sc_summary = lit ''sum''\<rparr>,
     fork = None, workspace_root = Some (Utf8Path (lit ''/w'')),
     prompt_history = [\<lparr>timestamp_ms = 7, prompt_text = lit ''hi''\<rparr>],
     last_health_check_ms = Some 3, model = Some (lit ''m''), persistence = None\<rparr>"

theorem load_saved_session_witness:
  "\<exists>text. render_jsonl_snapshot sample_session = Inr text
     \<and> fst (Session_load_from_path (Utf8Path (lit ''f'')) (Inr text) sample_clock) =
       Inr (sample_session\<lparr>last_health_check_ms := None, persistence := Some (Utf8Path (lit ''f''))\<rparr>)"
proof -
  have "\<exists>text. render_jsonl_snapshot sample_session = Inr text"
    by (simp add: render_jsonl_snapshot_def meta_record_def sample_session_def i64_from_u64_def
        workspace_root_to_string_def SessionCompaction_to_jsonl_record_def
        SessionCompaction_fields_def i64_from_usize_def)
  moreover have "\<forall>e \<in> set (prompt_history sample_session). unat (timestamp_ms e) < 2 ^ 63"
    by (simp add: sample_session_def)
  ultimately show ?thesis using load_saved_session by blast
qed

lemma map_filter_roundtrip:
  "\<forall>e \<in> set es. unat (timestamp_ms e) < 2 ^ 63 \<Longrightarrow>
     List.map_filter SessionPromptEntry_from_json_opt (map SessionPromptEntry_to_jsonl_record es) = es"
  by (induction es) (simp_all add: SessionPromptEntry_roundtrip List.map_filter_simps)

text \<open>The single-document form (\<^verbatim>\<open>to_json\<close>, \<^verbatim>\<open>from_json\<close>) loses the model: the reader looks
  for a \<^verbatim>\<open>model\<close> member that the writer never adds. Everything else is kept.\<close>

theorem to_json_drops_model:
  assumes "Session_to_json s = Inr j"
    and "\<forall>e \<in> set (prompt_history s). unat (timestamp_ms e) < 2 ^ 63"
  shows "fst (Session_from_json j clk) =
     Inr (s\<lparr>last_health_check_ms := None, model := None, persistence := None\<rparr>)"
proof -
  obtain cj w where cj: "transpose_map SessionCompaction_to_json (compaction s) = Inr cj"
    and w: "transpose_map workspace_root_to_string (workspace_root s) = Inr w"
    and c: "unat (created_at_ms s) < 2 ^ 63" and u: "unat (updated_at_ms s) < 2 ^ 63"
    and j: "j = JObject (btree_of
       ([(lit ''version'', JNumber (ucast (version s))), (lit ''session_id'', JString (session_id s)),
         (lit ''created_at_ms'', JNumber (created_at_ms s)), (lit ''updated_at_ms'', JNumber (updated_at_ms s)),
         (lit ''messages'', JArray (map ConversationMessage_to_json (messages s)))]
        @ opt_field ''compaction'' cj
        @ opt_field ''fork'' (map_option SessionFork_to_json (fork s))
        @ opt_field ''workspace_root'' (map_option JString w)
        @ (if prompt_history s = [] then [] else [(lit ''prompt_history'',
             JArray (map SessionPromptEntry_to_jsonl_record (prompt_history s)))])))"
    using assms(1) by (auto simp: Session_to_json_def i64_from_u64_def rbind_eq_Inr split: if_splits)
  have comp: "transpose_map SessionCompaction_from_json cj = Inr (compaction s)"
    using cj SessionCompaction_record_roundtrip(2)
    by (cases "compaction s") (auto simp: rbind_eq_Inr)
  show ?thesis
    using comp c u transpose_workspace_root [OF w] map_filter_roundtrip [OF assms(2)]
    by (cases cj; cases "fork s"; cases w)
      (simp_all add: j Session_from_json_def field_simps_json message.dec_enc_list sfork.dec_enc
        current_time_millis_def Let_def)
qed

theorem to_json_drops_model_witness:
  "\<exists>j. Session_to_json sample_session = Inr j
     \<and> fst (Session_from_json j sample_clock) =
       Inr (sample_session\<lparr>last_health_check_ms := None, model := None, persistence := None\<rparr>)
     \<and> model sample_session = Some (lit ''m'')"
proof -
  have "\<exists>j. Session_to_json sample_session = Inr j"
    by (simp add: Session_to_json_def sample_session_def i64_from_u64_def
        workspace_root_to_string_def SessionCompaction_to_json_def
        SessionCompaction_fields_def i64_from_usize_def)
  moreover have "\<forall>e \<in> set (prompt_history sample_session). unat (timestamp_ms e) < 2 ^ 63"
    by (simp add: sample_session_def)
  moreover have "model sample_session = Some (lit ''m'')" by (simp add: sample_session_def)
  ultimately show ?thesis using to_json_drops_model by blast
qed

section \<open>Operations\<close>

lemma push_message_cases:
  "push_message store msg s clk w =
     (case store (s\<lparr>updated_at_ms := fst (current_time_millis clk), messages := messages s @ [msg]\<rparr>) msg w of
        (Inl e, w') \<Rightarrow> (Inl e, s\<lparr>updated_at_ms := fst (current_time_millis clk)\<rparr>, snd (current_time_millis clk), w')
      | (Inr u, w') \<Rightarrow>
          (Inr (), s\<lparr>updated_at_ms := fst (current_time_millis clk), messages := messages s @ [msg]\<rparr>,
           snd (current_time_millis clk), w'))"
  by (cases "current_time_millis clk")
    (auto simp: push_message_def touch_def Let_def split: prod.split sum.split)

text \<open>Appending either happens or leaves the transcript as it was.\<close>

lemma push_message_messages:
  "push_message store msg s clk w = (r, s', clk', w') \<Longrightarrow>
     messages s' = (if r = Inr () then messages s @ [msg] else messages s)"
  by (auto simp: push_message_cases split: prod.splits sum.splits)

lemma push_message_frame:
  "push_message store msg s clk w = (r, s', clk', w') \<Longrightarrow>
     session_id s' = session_id s \<and> compaction s' = compaction s \<and> fork s' = fork s"
  by (auto simp: push_message_cases split: prod.splits sum.splits)

subsection \<open>Time stamps and identifiers\<close>

lemma saturating_inc_greater: "w \<noteq> - 1 \<Longrightarrow> w < saturating_inc w"
  by (metis inc_less_eq_triv_imp linorder_not_le saturating_inc_def)

text \<open>Every time stamp is later than the one before it, even if the wall clock stands still or
  goes back, until the 64-bit counter is exhausted.\<close>

theorem current_time_increases:
  assumes "last_timestamp_ms clk \<noteq> - 1"
  shows "last_timestamp_ms clk < fst (current_time_millis clk)
     \<and> last_timestamp_ms (snd (current_time_millis clk)) = fst (current_time_millis clk)"
  using saturating_inc_greater [OF assms] by (auto simp: current_time_millis_def Let_def)

theorem current_time_increases_witness:
  "last_timestamp_ms (sample_clock\<lparr>last_timestamp_ms := 5000\<rparr>)
     < fst (current_time_millis (sample_clock\<lparr>last_timestamp_ms := 5000\<rparr>))"
proof -
  have "last_timestamp_ms (sample_clock\<lparr>last_timestamp_ms := 5000\<rparr>) \<noteq> - 1" by simp
  then show ?thesis using current_time_increases by blast
qed

lemma generate_session_id_counter:
  "session_id_counter (snd (generate_session_id clk)) = session_id_counter clk + 1"
  by (simp add: generate_session_id_def current_time_millis_def Let_def)

lemma append_dash_eq:
  fixes x x' y y' :: ustr
  assumes "x @ 45 # y = x' @ 45 # y'" and "45 \<notin> set x" and "45 \<notin> set x'"
  shows "x = x' \<and> y = y'"
  using assms
proof (induction x arbitrary: x')
  case Nil
  then show ?case by (cases x') auto
next
  case (Cons c x)
  then show ?case by (cases x') auto
qed

lemma dash_not_digit: "45 \<notin> set (show_nat n)"
  using show_nat_digits [of 45 n] by (auto simp: is_ascii_digit_def)

lemma session_id_inject:
  "show_nat a @ lit ''-'' @ show_nat b = show_nat c @ lit ''-'' @ show_nat d \<longleftrightarrow> a = c \<and> b = d"
  using append_dash_eq [of "show_nat a" "show_nat b" "show_nat c" "show_nat d"] dash_not_digit
  by (auto simp: lit_Cons)

fun generate_session_ids :: "nat \<Rightarrow> clock \<Rightarrow> ustr list" where
  "generate_session_ids n clk =
     (if n = 0 then []
      else let (i, clk') = generate_session_id clk in i # generate_session_ids (n - 1) clk')"

declare generate_session_ids.simps [simp del]

lemma generate_session_ids_in:
  "i \<in> set (generate_session_ids n clk) \<Longrightarrow>
     \<exists>t k. k < n \<and> i = lit ''session-'' @ show_nat t @ lit ''-''
        @ show_nat (unat (session_id_counter clk + of_nat k))"
proof (induction n arbitrary: clk)
  case 0
  then show ?case by (simp add: generate_session_ids.simps)
next
  case (Suc n)
  let ?clk = "snd (generate_session_id clk)"
  from Suc.prems consider "i = fst (generate_session_id clk)" | "i \<in> set (generate_session_ids n ?clk)"
    by (auto simp: generate_session_ids.simps [of "Suc n"] case_prod_beta Let_def)
  then show ?case
  proof cases
    case 1
    then show ?thesis
      by (intro exI [of _ "unat (fst (current_time_millis clk))"] exI [of _ 0])
        (simp add: generate_session_id_def Let_def case_prod_beta current_time_millis_def)
  next
    case 2
    from Suc.IH [OF this] obtain t k where "k < n"
      "i = lit ''session-'' @ show_nat t @ lit ''-'' @ show_nat (unat (session_id_counter clk + of_nat (Suc k)))"
      by (auto simp: generate_session_id_counter add.assoc)
    then show ?thesis by (intro exI [of _ t] exI [of _ "Suc k"]) simp
  qed
qed

text \<open>The identifiers generated by one process are pairwise distinct, whatever the wall clock
  reads, as long as fewer than \<open>2^64\<close> are drawn.\<close>

theorem session_ids_distinct:
  "n \<le> 2 ^ 64 \<Longrightarrow> distinct (generate_session_ids n clk)"
proof (induction n arbitrary: clk)
  case 0
  then show ?case by (simp add: generate_session_ids.simps)
next
  case (Suc n)
  let ?c = "session_id_counter clk" and ?clk = "snd (generate_session_id clk)"
  have "fst (generate_session_id clk) \<notin> set (generate_session_ids n ?clk)"
  proof
    assume "fst (generate_session_id clk) \<in> set (generate_session_ids n ?clk)"
    then obtain t k where k: "k < n" and "fst (generate_session_id clk) =
        lit ''session-'' @ show_nat t @ lit ''-'' @ show_nat (unat (?c + 1 + of_nat k))"
      using generate_session_ids_in by (fastforce simp: generate_session_id_counter)
    then have "unat ?c = unat (?c + 1 + of_nat k)"
      by (simp add: generate_session_id_def Let_def case_prod_beta current_time_millis_def
          session_id_inject)
    then have "?c = ?c + (1 + of_nat k)" by (simp add: word_unat_eq_iff add.assoc)
    then have "(of_nat (Suc k) :: u64) = 0" by (simp only: add_cancel_right_right of_nat_Suc)
    then have "2 ^ 64 dvd Suc k" unfolding word_of_nat_eq_0_iff by simp
    with k Suc.prems show False by (auto dest!: dvd_imp_le)
  qed
  with Suc show ?case
    by (simp add: generate_session_ids.simps [of "Suc n"] case_prod_beta Let_def)
qed

theorem session_ids_distinct_witness: "distinct (generate_session_ids 3 sample_clock)"
proof -
  have "(3::nat) \<le> 2 ^ 64" by simp
  then show ?thesis by (rule session_ids_distinct)
qed

end
