(* ===== verification/Compact.thy ===== *)
theory Compact
  imports Session
begin

text \<open>
  Compaction of a long session, \<^verbatim>\<open>runtime/src/compact.rs\<close>: the token estimate, the textual
  summary of the removed messages, the boundary that keeps a tool result with its tool use, and
  \<^verbatim>\<open>compact_session\<close>. An index or slice out of range, which stops the Rust program, is \<open>None\<close>.
  The lemmas show what is kept and what is removed, that the rewritten transcript has no orphaned
  tool result, and that the next compaction finds the summary this one wrote.
\<close>

section \<open>Definitions\<close>

subsection \<open>Constants and configuration\<close>

definition COMPACT_CONTINUATION_PREAMBLE :: ustr where
  "COMPACT_CONTINUATION_PREAMBLE =
     lit ''This session is being continued from a previous conversation that ran out of context. '' @
     lit ''The summary below covers the earlier portion of the conversation.'' @ [10, 10]"

definition COMPACT_RECENT_MESSAGES_NOTE :: ustr where
  "COMPACT_RECENT_MESSAGES_NOTE = lit ''Recent messages are preserved verbatim.''"

definition COMPACT_DIRECT_RESUME_INSTRUCTION :: ustr where
  "COMPACT_DIRECT_RESUME_INSTRUCTION =
     lit ''Continue the conversation from where it left off without asking the user any further questions. '' @
     lit ''Resume directly '' @ [8212] @ lit '' do not acknowledge the summary, do not recap what was happening, '' @
     lit ''and do not preface with continuation text.''"

record CompactionConfig =
  preserve_recent_messages :: nat
  max_estimated_tokens :: nat

definition CompactionConfig_default :: CompactionConfig where
  "CompactionConfig_default = \<lparr>preserve_recent_messages = 4, max_estimated_tokens = 10000\<rparr>"

record CompactionResult =
  cr_summary :: ustr
  cr_formatted_summary :: ustr
  compacted_session :: Session
  cr_removed_message_count :: nat

subsection \<open>Token estimate\<close>

fun estimate_block_tokens :: "ContentBlock \<Rightarrow> nat" where
  "estimate_block_tokens (Text t) = str_len t div 4 + 1"
| "estimate_block_tokens (ToolUse i name inp) = (str_len name + str_len inp) div 4 + 1"
| "estimate_block_tokens (ToolResult i tool_name out e) = (str_len tool_name + str_len out) div 4 + 1"
| "estimate_block_tokens (Thinking th sig) =
     str_len th div 4 + (case sig of None \<Rightarrow> 0 | Some v \<Rightarrow> str_len v div 4 + 1)"

definition estimate_message_tokens :: "ConversationMessage \<Rightarrow> nat" where
  "estimate_message_tokens m = sum_list (map estimate_block_tokens (blocks m))"

definition estimate_session_tokens :: "Session \<Rightarrow> nat" where
  "estimate_session_tokens s = sum_list (map estimate_message_tokens (messages s))"

subsection \<open>Text of a summary\<close>

definition extract_tag_block :: "ustr \<Rightarrow> ustr \<Rightarrow> ustr option" where
  "extract_tag_block content tag =
     (case split_once (lit ''<'' @ tag @ lit ''>'') content of
        None \<Rightarrow> None
      | Some (_, rest) \<Rightarrow> map_option fst (split_once (lit ''</'' @ tag @ lit ''>'') rest))"

text \<open>Both tags are searched from the start of the text, as in the code.\<close>

definition strip_tag_block :: "ustr \<Rightarrow> ustr \<Rightarrow> ustr" where
  "strip_tag_block content tag =
     (case (split_once (lit ''<'' @ tag @ lit ''>'') content,
            split_once (lit ''</'' @ tag @ lit ''>'') content) of
        (Some (before, _), Some (_, after)) \<Rightarrow> before @ after
      | _ \<Rightarrow> content)"

fun collapse_lines :: "bool \<Rightarrow> ustr list \<Rightarrow> ustr list" where
  "collapse_lines last_blank [] = []"
| "collapse_lines last_blank (l # ls) =
     (let is_blank = (trim l = []) in
      if is_blank \<and> last_blank then collapse_lines last_blank ls else l # collapse_lines is_blank ls)"

definition collapse_blank_lines :: "ustr \<Rightarrow> ustr" where
  "collapse_blank_lines content = concat (map (\<lambda>l. l @ [10]) (collapse_lines False (lines content)))"

definition format_compact_summary :: "ustr \<Rightarrow> ustr" where
  "format_compact_summary summ =
     (let without_analysis = strip_tag_block summ (lit ''analysis'');
          formatted =
            (case extract_tag_block without_analysis (lit ''summary'') of
               Some content \<Rightarrow>
                 replace_all (lit ''<summary>'' @ content @ lit ''</summary>'')
                   (lit ''Summary:'' @ [10] @ trim content) without_analysis
             | None \<Rightarrow> without_analysis)
      in trim (collapse_blank_lines formatted))"

definition get_compact_continuation_message :: "ustr \<Rightarrow> bool \<Rightarrow> bool \<Rightarrow> ustr" where
  "get_compact_continuation_message summ suppress_follow_up_questions recent_messages_preserved =
     COMPACT_CONTINUATION_PREAMBLE @ format_compact_summary summ
     @ (if recent_messages_preserved then [10, 10] @ COMPACT_RECENT_MESSAGES_NOTE else [])
     @ (if suppress_follow_up_questions then [10] @ COMPACT_DIRECT_RESUME_INSTRUCTION else [])"

definition truncate_summary :: "ustr \<Rightarrow> nat \<Rightarrow> ustr" where
  "truncate_summary content max_chars =
     (if length content \<le> max_chars then content else take max_chars content @ [8230])"

fun first_text :: "ContentBlock list \<Rightarrow> ustr option" where
  "first_text [] = None"
| "first_text (Text t # bs) = (if trim t \<noteq> [] then Some t else first_text bs)"
| "first_text (_ # bs) = first_text bs"

definition first_text_block :: "ConversationMessage \<Rightarrow> ustr option" where
  "first_text_block m = first_text (blocks m)"

definition extract_existing_compacted_summary :: "ConversationMessage \<Rightarrow> ustr option" where
  "extract_existing_compacted_summary m =
     (if role m \<noteq> System then None
      else Option.bind (first_text_block m) (\<lambda>t.
           Option.bind (strip_prefix COMPACT_CONTINUATION_PREAMBLE t) (\<lambda>summ.
           let summ1 = (case split_once ([10, 10] @ COMPACT_RECENT_MESSAGES_NOTE) summ of
                          Some (v, _) \<Rightarrow> v | None \<Rightarrow> summ);
               summ2 = (case split_once ([10] @ COMPACT_DIRECT_RESUME_INSTRUCTION) summ1 of
                          Some (v, _) \<Rightarrow> v | None \<Rightarrow> summ1)
           in Some (trim summ2))))"

definition existing_summary :: "Session \<Rightarrow> ustr option" where
  "existing_summary s =
     (case messages s of [] \<Rightarrow> None | m # _ \<Rightarrow> extract_existing_compacted_summary m)"

definition compacted_summary_prefix_len :: "Session \<Rightarrow> nat" where
  "compacted_summary_prefix_len s = (if existing_summary s \<noteq> None then 1 else 0)"

definition should_compact :: "Session \<Rightarrow> CompactionConfig \<Rightarrow> bool" where
  "should_compact s config \<longleftrightarrow>
     (let compactable = drop (compacted_summary_prefix_len s) (messages s)
      in preserve_recent_messages config < length compactable
         \<and> max_estimated_tokens config \<le> sum_list (map estimate_message_tokens compactable))"

subsection \<open>Summarising messages\<close>

fun summarize_block_raw :: "ContentBlock \<Rightarrow> ustr" where
  "summarize_block_raw (Text t) = t"
| "summarize_block_raw (Thinking th sig) = lit ''thinking ('' @ show_nat (length th) @ lit '' chars)''"
| "summarize_block_raw (ToolUse i name inp) = lit ''tool_use '' @ name @ lit ''('' @ inp @ lit '')''"
| "summarize_block_raw (ToolResult i tool_name out is_error) =
     lit ''tool_result '' @ tool_name @ lit '': '' @ (if is_error then lit ''error '' else []) @ out"

definition summarize_block :: "ContentBlock \<Rightarrow> ustr" where
  "summarize_block b = truncate_summary (summarize_block_raw b) 160"

definition collect_recent_role_summaries :: "ConversationMessage list \<Rightarrow> MessageRole \<Rightarrow> nat \<Rightarrow> ustr list" where
  "collect_recent_role_summaries ms r limit =
     rev (map (\<lambda>t. truncate_summary t 160)
       (take limit (List.map_filter first_text_block (rev (filter (\<lambda>m. role m = r) ms)))))"

definition mentions_pending :: "ustr \<Rightarrow> bool" where
  "mentions_pending t \<longleftrightarrow>
     (let lowered = to_ascii_lowercase t
      in contains (lit ''todo'') lowered \<or> contains (lit ''next'') lowered \<or> contains (lit ''pending'') lowered
         \<or> contains (lit ''follow up'') lowered \<or> contains (lit ''remaining'') lowered)"

definition infer_pending_work :: "ConversationMessage list \<Rightarrow> ustr list" where
  "infer_pending_work ms =
     rev (map (\<lambda>t. truncate_summary t 160)
       (take 3 (filter mentions_pending (List.map_filter first_text_block (rev ms)))))"

text \<open>\<^verbatim>\<open>Path::extension\<close> on Unix: the last component that is neither empty nor a single dot; a name
  that is two dots or whose only dot comes first has no extension.\<close>

fun split_at_char :: "uchar \<Rightarrow> ustr \<Rightarrow> ustr list" where
  "split_at_char d [] = [[]]"
| "split_at_char d (c # cs) =
     (if c = d then [] # split_at_char d cs
      else case split_at_char d cs of [] \<Rightarrow> [[c]] | p # ps \<Rightarrow> (c # p) # ps)"

definition path_extension :: "ustr \<Rightarrow> ustr option" where
  "path_extension p =
     (let comps = filter (\<lambda>c. c \<noteq> [] \<and> c \<noteq> [46]) (split_at_char 47 p)
      in if comps = [] \<or> last comps = [46, 46] then None
         else let parts = split_at_char 46 (last comps)
              in if length parts < 2 \<or> (length parts = 2 \<and> hd parts = []) then None
                 else Some (last parts))"

definition has_interesting_extension :: "ustr \<Rightarrow> bool" where
  "has_interesting_extension candidate =
     (case path_extension candidate of
        None \<Rightarrow> False
      | Some e \<Rightarrow> to_ascii_lowercase e
          \<in> set [lit ''rs'', lit ''ts'', lit ''tsx'', lit ''js'', lit ''json'', lit ''md''])"

definition candidate_punctuation :: "uchar \<Rightarrow> bool" where
  "candidate_punctuation c \<longleftrightarrow> c \<in> set [44, 46, 58, 59, 41, 40, 34, 39, 96]"

definition extract_file_candidates :: "ustr \<Rightarrow> ustr list" where
  "extract_file_candidates content =
     filter (\<lambda>c. contains (lit ''/'') c \<and> has_interesting_extension c)
       (map (trim_matches candidate_punctuation) (split_whitespace content))"

fun block_content :: "ContentBlock \<Rightarrow> ustr" where
  "block_content (Text t) = t"
| "block_content (ToolUse i name inp) = inp"
| "block_content (ToolResult i tool_name out e) = out"
| "block_content (Thinking th sig) = th"

definition collect_key_files :: "ConversationMessage list \<Rightarrow> ustr list" where
  "collect_key_files ms =
     take 8 (remdups_adj (sort
       (concat (map (\<lambda>b. extract_file_candidates (block_content b)) (concat (map blocks ms))))))"

definition infer_current_work :: "ConversationMessage list \<Rightarrow> ustr option" where
  "infer_current_work ms =
     map_option (\<lambda>t. truncate_summary t 200)
       (find (\<lambda>t. trim t \<noteq> []) (List.map_filter first_text_block (rev ms)))"

fun block_tool_name :: "ContentBlock \<Rightarrow> ustr option" where
  "block_tool_name (ToolUse i name inp) = Some name"
| "block_tool_name (ToolResult i tool_name out e) = Some tool_name"
| "block_tool_name _ = None"

definition timeline_line :: "ConversationMessage \<Rightarrow> ustr" where
  "timeline_line m =
     lit ''  - '' @ (case role m of System \<Rightarrow> lit ''system'' | User \<Rightarrow> lit ''user''
        | Assistant \<Rightarrow> lit ''assistant'' | Tool \<Rightarrow> lit ''tool'')
     @ lit '': '' @ join (lit '' | '') (map summarize_block (blocks m))"

definition summarize_messages :: "ConversationMessage list \<Rightarrow> ustr" where
  "summarize_messages ms =
     (let n_of = (\<lambda>r. show_nat (length (filter (\<lambda>m. role m = r) ms)));
          tool_names = remdups_adj (sort (List.map_filter block_tool_name (concat (map blocks ms))));
          recent_user_requests = collect_recent_role_summaries ms User 3;
          pending_work = infer_pending_work ms;
          key_files = collect_key_files ms
      in join [10]
          ([lit ''<summary>'', lit ''Conversation summary:'',
            lit ''- Scope: '' @ show_nat (length ms) @ lit '' earlier messages compacted (user='' @ n_of User
              @ lit '', assistant='' @ n_of Assistant @ lit '', tool='' @ n_of Tool @ lit '').'']
           @ (if tool_names = [] then []
              else [lit ''- Tools mentioned: '' @ join (lit '', '') tool_names @ lit ''.''])
           @ (if recent_user_requests = [] then []
              else lit ''- Recent user requests:'' # map (\<lambda>r. lit ''  - '' @ r) recent_user_requests)
           @ (if pending_work = [] then []
              else lit ''- Pending work:'' # map (\<lambda>i. lit ''  - '' @ i) pending_work)
           @ (if key_files = [] then []
              else [lit ''- Key files referenced: '' @ join (lit '', '') key_files @ lit ''.''])
           @ (case infer_current_work ms of None \<Rightarrow> [] | Some w \<Rightarrow> [lit ''- Current work: '' @ w])
           @ [lit ''- Key timeline:''] @ map timeline_line ms @ [lit ''</summary>'']))"

subsection \<open>Merging with the previous summary\<close>

fun highlight_lines :: "bool \<Rightarrow> ustr list \<Rightarrow> ustr list" where
  "highlight_lines in_timeline [] = []"
| "highlight_lines in_timeline (line # ls) =
     (let trimmed = trim_end line in
      if trimmed = [] \<or> trimmed = lit ''Summary:'' \<or> trimmed = lit ''Conversation summary:''
      then highlight_lines in_timeline ls
      else if trimmed = lit ''- Key timeline:'' then highlight_lines True ls
      else if in_timeline then highlight_lines in_timeline ls
      else trimmed # highlight_lines in_timeline ls)"

definition extract_summary_highlights :: "ustr \<Rightarrow> ustr list" where
  "extract_summary_highlights summ = highlight_lines False (lines (format_compact_summary summ))"

fun timeline_lines :: "bool \<Rightarrow> ustr list \<Rightarrow> ustr list" where
  "timeline_lines in_timeline [] = []"
| "timeline_lines in_timeline (line # ls) =
     (let trimmed = trim_end line in
      if trimmed = lit ''- Key timeline:'' then timeline_lines True ls
      else if \<not> in_timeline then timeline_lines in_timeline ls
      else if trimmed = [] then []
      else trimmed # timeline_lines in_timeline ls)"

definition extract_summary_timeline :: "ustr \<Rightarrow> ustr list" where
  "extract_summary_timeline summ = timeline_lines False (lines (format_compact_summary summ))"

definition merge_compact_summaries :: "ustr option \<Rightarrow> ustr \<Rightarrow> ustr" where
  "merge_compact_summaries existing new_summary =
     (case existing of
        None \<Rightarrow> new_summary
      | Some existing_summ \<Rightarrow>
          let previous_highlights = extract_summary_highlights existing_summ;
              new_formatted_summary = format_compact_summary new_summary;
              new_highlights = extract_summary_highlights new_formatted_summary;
              new_timeline = extract_summary_timeline new_formatted_summary;
              sect = (\<lambda>title ls. if ls = [] then [] else lit title # map (\<lambda>l. lit ''  '' @ l) ls)
          in join [10]
              ([lit ''<summary>'', lit ''Conversation summary:'']
               @ sect ''- Previously compacted context:'' previous_highlights
               @ sect ''- Newly compacted context:'' new_highlights
               @ sect ''- Key timeline:'' new_timeline
               @ [lit ''</summary>'']))"

subsection \<open>Compacting\<close>

fun is_tool_result :: "ContentBlock \<Rightarrow> bool" where
  "is_tool_result (ToolResult i n out e) = True"
| "is_tool_result _ = False"

fun is_tool_use :: "ContentBlock \<Rightarrow> bool" where
  "is_tool_use (ToolUse i n inp) = True"
| "is_tool_use _ = False"

definition starts_with_tool_result :: "ConversationMessage \<Rightarrow> bool" where
  "starts_with_tool_result m \<longleftrightarrow> (case blocks m of [] \<Rightarrow> False | b # _ \<Rightarrow> is_tool_result b)"

definition has_tool_use :: "ConversationMessage \<Rightarrow> bool" where
  "has_tool_use m \<longleftrightarrow> list_ex is_tool_use (blocks m)"

text \<open>The loop that computes \<^verbatim>\<open>keep_from\<close>.\<close>

fun keep_from_loop :: "ConversationMessage list \<Rightarrow> nat \<Rightarrow> nat \<Rightarrow> nat option" where
  "keep_from_loop ms compacted_prefix_len k =
     (if k = 0 \<or> k \<le> compacted_prefix_len then Some k
      else if length ms \<le> k then None
      else if \<not> starts_with_tool_result (ms ! k) then Some k
      else if has_tool_use (ms ! (k - 1)) then Some (k - 1)
      else keep_from_loop ms compacted_prefix_len (k - 1))"

declare keep_from_loop.simps [simp del]

definition slice :: "'a list \<Rightarrow> nat \<Rightarrow> nat \<Rightarrow> 'a list option" where
  "slice xs i j = (if i \<le> j \<and> j \<le> length xs then Some (drop i (take j xs)) else None)"

definition summary_message :: "ustr \<Rightarrow> ConversationMessage" where
  "summary_message continuation = \<lparr>role = System, blocks = [Text continuation], usage = None\<rparr>"

definition compact_session ::
  "Session \<Rightarrow> CompactionConfig \<Rightarrow> clock \<Rightarrow> (CompactionResult \<times> clock) option" where
  "compact_session s config clk =
     (if \<not> should_compact s config
      then Some (\<lparr>cr_summary = [], cr_formatted_summary = [], compacted_session = s,
                  cr_removed_message_count = 0\<rparr>, clk)
      else
        let existing = existing_summary s;
            compacted_prefix_len = (if existing \<noteq> None then 1 else 0);
            raw_keep_from = length (messages s) - preserve_recent_messages config
        in Option.bind (keep_from_loop (messages s) compacted_prefix_len raw_keep_from) (\<lambda>keep_from.
           Option.bind (slice (messages s) compacted_prefix_len keep_from) (\<lambda>removed.
           Option.bind (slice (messages s) keep_from (length (messages s))) (\<lambda>preserved.
           let summ = merge_compact_summaries existing (summarize_messages removed);
               continuation = get_compact_continuation_message summ True (preserved \<noteq> []);
               (s', clk') = record_compaction summ (length removed)
                              (s\<lparr>messages := summary_message continuation # preserved\<rparr>) clk
           in Some (\<lparr>cr_summary = summ, cr_formatted_summary = format_compact_summary summ,
                     compacted_session = s', cr_removed_message_count = length removed\<rparr>, clk')))))"

subsection \<open>Pairing of tool uses and results\<close>

text \<open>Every tool result answers a tool use of the nearest message before it that is not a result.\<close>

definition tool_use_ids :: "ConversationMessage \<Rightarrow> ustr list" where
  "tool_use_ids m = List.map_filter (\<lambda>b. case b of ToolUse i _ _ \<Rightarrow> Some i | _ \<Rightarrow> None) (blocks m)"

definition tool_result_ids :: "ConversationMessage \<Rightarrow> ustr list" where
  "tool_result_ids m = List.map_filter (\<lambda>b. case b of ToolResult i _ _ _ \<Rightarrow> Some i | _ \<Rightarrow> None) (blocks m)"

fun paired :: "ustr list \<Rightarrow> ConversationMessage list \<Rightarrow> bool" where
  "paired ids [] = True"
| "paired ids (m # ms) =
     (if tool_result_ids m = []
      then (tool_use_ids m = [] \<or> role m = Assistant) \<and> paired (tool_use_ids m) ms
      else starts_with_tool_result m \<and> tool_use_ids m = [] \<and> set (tool_result_ids m) \<subseteq> set ids
           \<and> paired ids ms)"

subsection \<open>A small transcript\<close>

definition sample_transcript :: Session where
  "sample_transcript = sample_session\<lparr>messages :=
     [ConversationMessage_user_text (lit ''list the files''),
      ConversationMessage_assistant_with_usage [Text (lit ''sure''), ToolUse (lit ''t1'') (lit ''ls'') (lit ''{}'')] None,
      ConversationMessage_tool_result (lit ''t1'') (lit ''ls'') (lit ''a.txt'') False]\<rparr>"

definition sample_config :: CompactionConfig where
  "sample_config = \<lparr>preserve_recent_messages = 1, max_estimated_tokens = 1\<rparr>"

section \<open>What is kept and what is removed\<close>

lemma keep_from_loop_bounds:
  "keep_from_loop ms p k = Some k' \<Longrightarrow> p \<le> k \<Longrightarrow> p \<le> k' \<and> k' \<le> k"
proof (induction k)
  case 0
  then show ?case by (simp add: keep_from_loop.simps)
next
  case (Suc k)
  then show ?case by (auto simp: keep_from_loop.simps [of ms p "Suc k"] split: if_splits)
qed

text \<open>Where the loop stops.\<close>

lemma keep_from_loop_stops:
  "keep_from_loop ms p k = Some k' \<Longrightarrow> k' \<le> p \<or> k' < length ms \<and>
     (\<not> starts_with_tool_result (ms ! k') \<or> has_tool_use (ms ! k'))"
proof (induction k)
  case 0
  then show ?case by (simp add: keep_from_loop.simps)
next
  case (Suc k)
  then show ?case by (auto simp: keep_from_loop.simps [of ms p "Suc k"] split: if_splits)
qed

lemma keep_from_loop_total:
  "k < length ms \<Longrightarrow> \<exists>k'. keep_from_loop ms p k = Some k'"
proof (induction ms p k rule: keep_from_loop.induct)
  case (1 ms p k)
  then show ?case by (subst keep_from_loop.simps) auto
qed

lemma should_compact_bounds:
  "should_compact s config \<Longrightarrow>
     compacted_summary_prefix_len s < length (messages s) - preserve_recent_messages config"
  by (auto simp: should_compact_def Let_def)

lemma compacted_summary_prefix_len_le: "compacted_summary_prefix_len s \<le> 1"
  by (simp add: compacted_summary_prefix_len_def)

text \<open>The three parts of a session that is compacted: the old summary, what is removed, what is kept.\<close>

lemma compact_session_splits:
  assumes "should_compact s config" and "compact_session s config clk = Some (r, clk')"
  obtains p removed preserved where
    "messages s = p @ removed @ preserved" "length p = compacted_summary_prefix_len s"
    "keep_from_loop (messages s) (length p) (length (messages s) - preserve_recent_messages config)
       = Some (length p + length removed)"
    "preserve_recent_messages config \<le> length preserved"
    "cr_removed_message_count r = length removed"
    "cr_summary r = merge_compact_summaries (existing_summary s) (summarize_messages removed)"
    "messages (compacted_session r) =
       summary_message (get_compact_continuation_message (cr_summary r) True (preserved \<noteq> [])) # preserved"
proof -
  define q where "q = compacted_summary_prefix_len s"
  have q: "(if existing_summary s \<noteq> None then 1 else 0) = q"
    by (simp add: q_def compacted_summary_prefix_len_def)
  have c: "compact_session s config clk =
     Option.bind (keep_from_loop (messages s) q (length (messages s) - preserve_recent_messages config)) (\<lambda>k.
     Option.bind (slice (messages s) q k) (\<lambda>removed.
     Option.bind (slice (messages s) k (length (messages s))) (\<lambda>preserved.
       let summ = merge_compact_summaries (existing_summary s) (summarize_messages removed);
           continuation = get_compact_continuation_message summ True (preserved \<noteq> []);
           (s', clk') = record_compaction summ (length removed)
                          (s\<lparr>messages := summary_message continuation # preserved\<rparr>) clk
       in Some (\<lparr>cr_summary = summ, cr_formatted_summary = format_compact_summary summ,
                 compacted_session = s', cr_removed_message_count = length removed\<rparr>, clk'))))"
    using assms(1) unfolding compact_session_def q [symmetric] by (simp add: Let_def)
  from assms(2) c obtain k where k: "keep_from_loop (messages s) q
       (length (messages s) - preserve_recent_messages config) = Some k"
    by (auto simp: bind_eq_Some_conv)
  have qn: "q < length (messages s) - preserve_recent_messages config"
    using should_compact_bounds [OF assms(1)] by (simp add: q_def)
  with keep_from_loop_bounds [OF k] have kb: "q \<le> k" "k \<le> length (messages s) - preserve_recent_messages config"
    by simp_all
  let ?rem = "drop q (take k (messages s))" and ?pre = "drop k (messages s)"
  have m: "messages s = take q (messages s) @ ?rem @ ?pre"
    using kb(1) by (metis append_assoc append_take_drop_id min.absorb1 take_take)
  have l: "length (take q (messages s)) = q" "q + length ?rem = k" using kb qn by auto
  have "slice (messages s) q k = Some ?rem" "slice (messages s) k (length (messages s)) = Some ?pre"
    using kb qn by (auto simp: slice_def)
  with assms(2) c k have r: "cr_removed_message_count r = length ?rem"
    "cr_summary r = merge_compact_summaries (existing_summary s) (summarize_messages ?rem)"
    "messages (compacted_session r) =
       summary_message (get_compact_continuation_message (cr_summary r) True (?pre \<noteq> [])) # ?pre"
    by (auto simp: Let_def record_compaction_def touch_def split: prod.splits)
  show thesis
    by (rule that [OF m]) (use r l k kb qn in \<open>auto simp: q_def\<close>)
qed

lemma compact_session_total:
  assumes "should_compact s config \<Longrightarrow> preserve_recent_messages config \<noteq> 0"
  shows "\<exists>r. compact_session s config clk = Some r"
proof (cases "should_compact s config")
  case True
  let ?k = "length (messages s) - preserve_recent_messages config"
  have b: "compacted_summary_prefix_len s < ?k" by (rule should_compact_bounds [OF True])
  with assms True have "?k < length (messages s)" by simp
  from keep_from_loop_total [OF this] obtain k where
    k: "keep_from_loop (messages s) (compacted_summary_prefix_len s) ?k = Some k" by blast
  from keep_from_loop_bounds [OF k] b have "compacted_summary_prefix_len s \<le> k" "k \<le> ?k" by simp_all
  with k True show ?thesis
    by (auto simp: compact_session_def compacted_summary_prefix_len_def slice_def Let_def
        split: if_splits prod.splits)
qed (simp add: compact_session_def)

lemma compact_session_panics:
  assumes "should_compact s config" and "preserve_recent_messages config = 0"
  shows "compact_session s config clk = None"
proof -
  have "compacted_summary_prefix_len s < length (messages s)"
    using should_compact_bounds [OF assms(1)] assms(2) by simp
  then have "keep_from_loop (messages s) (compacted_summary_prefix_len s) (length (messages s)) = None"
    by (auto simp: keep_from_loop.simps [of _ _ "length (messages s)"])
  with assms show ?thesis
    by (auto simp: compact_session_def compacted_summary_prefix_len_def Let_def)
qed

text \<open>Compaction either returns or, when it is due and asked to keep no recent message,
  indexes past the end of the transcript.\<close>

theorem compact_session_None_iff:
  "compact_session s config clk = None \<longleftrightarrow> should_compact s config \<and> preserve_recent_messages config = 0"
  by (metis compact_session_panics compact_session_total option.distinct(1))

subsection \<open>The sample\<close>

lemma sample_should_compact: "should_compact sample_transcript sample_config"
  by code_simp

lemma sample_compacts: "\<exists>r clk'. compact_session sample_transcript sample_config sample_clock = Some (r, clk')"
  using compact_session_total [of sample_transcript sample_config sample_clock]
  by (auto simp: sample_config_def)

lemma sample_paired: "paired [] (messages sample_transcript)"
  by code_simp

lemma sample_k: "keep_from_loop (messages sample_transcript) 0 2 = Some 1"
  by code_simp

lemma sample_formatted_chars:
  "list_all (\<lambda>c. c \<noteq> 98 \<and> c \<noteq> 8212)
     (format_compact_summary (summarize_messages (take 1 (messages sample_transcript))))"
  by code_simp

lemma sample_existing: "existing_summary sample_transcript = None"
  by code_simp

lemma sample_formatted:
  assumes "compact_session sample_transcript sample_config sample_clock = Some (r, clk')"
  shows "cr_formatted_summary r =
     format_compact_summary (summarize_messages (take 1 (messages sample_transcript)))"
proof -
  have l: "length (messages sample_transcript) = 3" by (simp add: sample_transcript_def)
  then have "keep_from_loop (messages sample_transcript) 0
      (length (messages sample_transcript) - preserve_recent_messages sample_config) = Some 1"
    using sample_k by (simp add: sample_config_def)
  with assms l show ?thesis
    by (auto simp: compact_session_def sample_should_compact sample_existing slice_def
        merge_compact_summaries_def Let_def split: prod.splits)
qed

text \<open>C9: a compaction splits the transcript into the old summary, the removed messages and the
  kept ones, in that order; at least the configured number is kept, verbatim, behind a new
  summary made of the old one and of the removed messages, whose number it reports.\<close>

theorem compact_session_parts:
  assumes "should_compact s config" and "compact_session s config clk = Some (r, clk')"
  shows "\<exists>p removed preserved. messages s = p @ removed @ preserved
     \<and> length p = compacted_summary_prefix_len s
     \<and> cr_removed_message_count r = length removed
     \<and> preserve_recent_messages config \<le> length preserved
     \<and> messages (compacted_session r) =
         summary_message (get_compact_continuation_message
           (merge_compact_summaries (existing_summary s) (summarize_messages removed)) True (preserved \<noteq> [])) # preserved"
proof -
  from compact_session_splits [OF assms] obtain p removed preserved where
    "messages s = p @ removed @ preserved" "length p = compacted_summary_prefix_len s"
    "cr_removed_message_count r = length removed"
    "preserve_recent_messages config \<le> length preserved"
    "cr_summary r = merge_compact_summaries (existing_summary s) (summarize_messages removed)"
    "messages (compacted_session r) =
       summary_message (get_compact_continuation_message (cr_summary r) True (preserved \<noteq> [])) # preserved"
    by metis
  then show ?thesis by auto
qed

theorem compact_session_parts_witness:
  "\<exists>r clk' p removed preserved.
     compact_session sample_transcript sample_config sample_clock = Some (r, clk')
     \<and> messages sample_transcript = p @ removed @ preserved
     \<and> cr_removed_message_count r = length removed \<and> 1 \<le> length preserved"
proof -
  obtain r clk' where c: "compact_session sample_transcript sample_config sample_clock = Some (r, clk')"
    using sample_compacts by blast
  moreover have "preserve_recent_messages sample_config = 1" by (simp add: sample_config_def)
  ultimately show ?thesis using compact_session_parts [OF sample_should_compact c] by auto
qed

section \<open>Tool results stay with their tool uses\<close>

lemma paired_append_suffix: "paired ids (xs @ ys) \<Longrightarrow> \<exists>ids'. paired ids' ys"
  by (induction xs arbitrary: ids) (auto split: if_splits)

lemma paired_unanswered:
  "paired ids (m # ms) \<Longrightarrow> \<not> starts_with_tool_result m \<or> tool_use_ids m \<noteq> [] \<Longrightarrow> paired ids' (m # ms)"
  by (auto split: if_splits)

lemma has_tool_use_ids: "has_tool_use m \<longleftrightarrow> tool_use_ids m \<noteq> []"
proof -
  have "list_ex is_tool_use bs \<longleftrightarrow>
    List.map_filter (\<lambda>b. case b of ToolUse i _ _ \<Rightarrow> Some i | _ \<Rightarrow> None) bs \<noteq> []" for bs
  proof (induction bs)
    case (Cons b bs)
    then show ?case by (cases b) (auto simp: List.map_filter_simps)
  qed (simp add: List.map_filter_simps)
  then show ?thesis by (simp add: has_tool_use_def tool_use_ids_def)
qed

lemma summary_message_ids [simp]:
  "tool_use_ids (summary_message t) = []" "tool_result_ids (summary_message t) = []"
  by (simp_all add: summary_message_def tool_use_ids_def tool_result_ids_def List.map_filter_simps)

lemma existing_summary_system:
  "existing_summary s \<noteq> None \<Longrightarrow> \<exists>m ms. messages s = m # ms \<and> role m = System"
  by (auto simp: existing_summary_def extract_existing_compacted_summary_def split: list.splits if_splits)

lemma paired_drop_prefix:
  assumes "paired [] (messages s)"
  shows "paired [] (drop (compacted_summary_prefix_len s) (messages s))"
proof (cases "existing_summary s")
  case None
  with assms show ?thesis by (simp add: compacted_summary_prefix_len_def)
next
  case (Some t)
  then obtain m ms where m: "messages s = m # ms" "role m = System"
    using existing_summary_system by (metis option.distinct(1))
  with assms have "tool_result_ids m = [] \<Longrightarrow> tool_use_ids m = []" by (auto split: if_splits)
  with assms m Some show ?thesis by (auto simp: compacted_summary_prefix_len_def split: if_splits)
qed

lemma compact_paired:
  assumes "paired [] (messages s)" and "compact_session s config clk = Some (r, clk')"
  shows "paired [] (messages (compacted_session r))"
proof (cases "should_compact s config")
  case True
  from compact_session_splits [OF True assms(2)] obtain p removed preserved where
    m: "messages s = p @ removed @ preserved" "length p = compacted_summary_prefix_len s"
    and k: "keep_from_loop (messages s) (length p) (length (messages s) - preserve_recent_messages config)
       = Some (length p + length removed)"
    and c: "messages (compacted_session r) =
       summary_message (get_compact_continuation_message (cr_summary r) True (preserved \<noteq> [])) # preserved"
    by metis
  have "paired [] preserved"
  proof (cases "removed = [] \<or> preserved = []")
    case True
    with paired_drop_prefix [OF assms(1)] m show ?thesis by auto
  next
    case False
    then obtain q qs where q: "preserved = q # qs" by (cases preserved) auto
    with m have "messages s ! (length p + length removed) = q" by (simp add: nth_append)
    with keep_from_loop_stops [OF k] False have "\<not> starts_with_tool_result q \<or> tool_use_ids q \<noteq> []"
      by (simp add: has_tool_use_ids)
    moreover obtain ids' where "paired ids' preserved"
      using paired_append_suffix [of "[]" "p @ removed" preserved] assms(1) m(1) by auto
    ultimately show ?thesis unfolding q by (rule paired_unanswered [rotated])
  qed
  with c show ?thesis by simp
next
  case False
  with assms show ?thesis by (auto simp: compact_session_def)
qed

text \<open>C10: if every tool result of a transcript answers a tool use, the same holds after a
  compaction: the boundary never separates a result from its use.\<close>

theorem compact_session_keeps_pairing:
  assumes "paired [] (messages s)" and "compact_session s config clk = Some (r, clk')"
  shows "paired [] (messages (compacted_session r))"
  by (rule compact_paired [OF assms])

theorem compact_session_keeps_pairing_witness:
  "\<exists>r clk'. compact_session sample_transcript sample_config sample_clock = Some (r, clk')
     \<and> paired [] (messages (compacted_session r))"
proof -
  obtain r clk' where c: "compact_session sample_transcript sample_config sample_clock = Some (r, clk')"
    using sample_compacts by blast
  with compact_session_keeps_pairing [OF sample_paired c] show ?thesis by blast
qed

section \<open>The next compaction finds the summary\<close>

lemma borderless_note: "borderless ([10, 10] @ COMPACT_RECENT_MESSAGES_NOTE)"
  by code_simp

lemma first_text_continuation:
  "first_text_block (summary_message (get_compact_continuation_message summ q r))
     = Some (get_compact_continuation_message summ q r)"
proof -
  have "84 \<in> set (get_compact_continuation_message summ q r)"
    by (simp add: get_compact_continuation_message_def COMPACT_CONTINUATION_PREAMBLE_def lit_Cons)
  moreover have "\<not> is_whitespace 84" by (simp add: is_whitespace_def)
  ultimately have "trim (get_compact_continuation_message summ q r) \<noteq> []" unfolding trim_eq_Nil by blast
  then show ?thesis by (simp add: first_text_block_def summary_message_def)
qed

lemma extract_continuation:
  assumes "\<not> contains ([10, 10] @ COMPACT_RECENT_MESSAGES_NOTE) (format_compact_summary summ)"
    and "\<not> contains ([10] @ COMPACT_DIRECT_RESUME_INSTRUCTION) (format_compact_summary summ)"
  shows "extract_existing_compacted_summary
     (summary_message (get_compact_continuation_message summ True True)) = Some (format_compact_summary summ)"
proof -
  let ?f = "format_compact_summary summ"
  have f: "trim ?f = ?f" by (simp add: format_compact_summary_def Let_def)
  let ?rest = "?f @ ([10, 10] @ COMPACT_RECENT_MESSAGES_NOTE) @ [10] @ COMPACT_DIRECT_RESUME_INSTRUCTION"
  have c: "get_compact_continuation_message summ True True = COMPACT_CONTINUATION_PREAMBLE @ ?rest"
    by (simp add: get_compact_continuation_message_def)
  have "split_once ([10, 10] @ COMPACT_RECENT_MESSAGES_NOTE) ?rest = Some (?f, [10] @ COMPACT_DIRECT_RESUME_INSTRUCTION)"
    using split_once_borderless [OF borderless_note assms(1)] .
  moreover have "split_once ([10] @ COMPACT_DIRECT_RESUME_INSTRUCTION) ?f = None"
    using assms(2) unfolding split_once_None .
  moreover have "role (summary_message t) = System" for t by (simp add: summary_message_def)
  ultimately show ?thesis
    unfolding extract_existing_compacted_summary_def first_text_continuation
    by (simp only: c strip_prefix_append bind.bind_lunit f Let_def option.case prod.case simp_thms if_False)
qed

lemma extract_continuation_exists:
  "extract_existing_compacted_summary
     (summary_message (get_compact_continuation_message summ q r)) \<noteq> None"
proof -
  obtain t where "get_compact_continuation_message summ q r = COMPACT_CONTINUATION_PREAMBLE @ t"
    by (auto simp: get_compact_continuation_message_def)
  moreover have "role (summary_message u) = System" for u by (simp add: summary_message_def)
  ultimately show ?thesis
    unfolding extract_existing_compacted_summary_def first_text_continuation
    by (simp add: Let_def)
qed




end
