(* ===== verification/Permissions.thy ===== *)
theory Permissions
  imports Prelude
begin

text \<open>
  The permission policy of \<^verbatim>\<open>runtime/src/permissions.rs\<close>: modes in their derived order, rules and
  their textual form, and the decision \<^verbatim>\<open>authorize_with_context\<close> on every branch.
  \<^verbatim>\<open>serde_json\<close> is not part of the repository: its \<^verbatim>\<open>from_str\<close> is an argument of the operations that
  parse a tool input. The prompter is a function on a
  world \<open>'w\<close>, so that asking it is visible in the result.
  The lemmas give the exact condition under which a call is allowed, and show that a rule written
  for a subject matches that subject and no other.
\<close>

section \<open>Definitions\<close>

subsection \<open>Data\<close>

datatype PermissionMode = ReadOnly | WorkspaceWrite | DangerFullAccess | Prompt | Allow

fun mode_rank :: "PermissionMode \<Rightarrow> nat" where
  "mode_rank ReadOnly = 0"
| "mode_rank WorkspaceWrite = 1"
| "mode_rank DangerFullAccess = 2"
| "mode_rank Prompt = 3"
| "mode_rank Allow = 4"

text \<open>The derived order follows the order of the variants.\<close>

instantiation PermissionMode :: linorder
begin

definition less_eq_PermissionMode :: "PermissionMode \<Rightarrow> PermissionMode \<Rightarrow> bool" where
  "less_eq_PermissionMode a b \<longleftrightarrow> mode_rank a \<le> mode_rank b"

definition less_PermissionMode :: "PermissionMode \<Rightarrow> PermissionMode \<Rightarrow> bool" where
  "less_PermissionMode a b \<longleftrightarrow> mode_rank a < mode_rank b"

instance
proof
  fix a b :: PermissionMode
  show "a \<le> b \<Longrightarrow> b \<le> a \<Longrightarrow> a = b"
    by (cases a; cases b) (simp_all add: less_eq_PermissionMode_def)
qed (auto simp: less_eq_PermissionMode_def less_PermissionMode_def)

end

fun mode_as_str :: "PermissionMode \<Rightarrow> ustr" where
  "mode_as_str ReadOnly = lit ''read-only''"
| "mode_as_str WorkspaceWrite = lit ''workspace-write''"
| "mode_as_str DangerFullAccess = lit ''danger-full-access''"
| "mode_as_str Prompt = lit ''prompt''"
| "mode_as_str Allow = lit ''allow''"

datatype PermissionOverride = OverrideAllow | OverrideDeny | OverrideAsk

record PermissionContext =
  override_decision :: "PermissionOverride option"
  override_reason :: "ustr option"

definition PermissionContext_default :: PermissionContext where
  "PermissionContext_default = \<lparr>override_decision = None, override_reason = None\<rparr>"

record PermissionRequest =
  req_tool_name :: ustr
  req_input :: ustr
  req_current_mode :: PermissionMode
  req_required_mode :: PermissionMode
  req_reason :: "ustr option"

datatype PermissionPromptDecision = PromptAllow | PromptDeny ustr

datatype PermissionOutcome = OutcomeAllow | OutcomeDeny ustr

type_synonym 'w prompter = "PermissionRequest \<Rightarrow> 'w \<Rightarrow> PermissionPromptDecision \<times> 'w"

datatype PermissionRuleMatcher = Any | Exact ustr | Prefix ustr

record PermissionRule =
  rule_raw :: ustr
  rule_tool_name :: ustr
  matcher :: PermissionRuleMatcher

record PermissionPolicy =
  active_mode :: PermissionMode
  tool_requirements :: "(ustr, PermissionMode) btree"
  allow_rules :: "PermissionRule list"
  deny_rules :: "PermissionRule list"
  ask_rules :: "PermissionRule list"

record RuntimePermissionRuleConfig =
  cfg_allow :: "ustr list"
  cfg_deny :: "ustr list"
  cfg_ask :: "ustr list"

subsection \<open>Rules\<close>

fun find_first_from :: "bool \<Rightarrow> nat \<Rightarrow> ustr \<Rightarrow> uchar \<Rightarrow> nat option" where
  "find_first_from escaped idx [] needle = None"
| "find_first_from escaped idx (ch # cs) needle =
     (if ch = 92 then find_first_from (\<not> escaped) (idx + 1) cs needle
      else if ch = needle \<and> \<not> escaped then Some idx
      else find_first_from False (idx + 1) cs needle)"

definition find_first_unescaped :: "ustr \<Rightarrow> uchar \<Rightarrow> nat option" where
  "find_first_unescaped v needle = find_first_from False 0 v needle"

definition find_last_unescaped :: "ustr \<Rightarrow> uchar \<Rightarrow> nat option" where
  "find_last_unescaped v needle =
     find (\<lambda>pos. v ! pos = needle \<and> even (length (takeWhile (\<lambda>c. c = 92) (rev (take pos v)))))
       (rev [0..<length v])"

definition unescape_rule_content :: "ustr \<Rightarrow> ustr" where
  "unescape_rule_content content =
     replace_all [92, 92] [92] (replace_all [92, 41] [41] (replace_all [92, 40] [40] content))"

definition parse_rule_matcher :: "ustr \<Rightarrow> PermissionRuleMatcher" where
  "parse_rule_matcher content =
     (let unescaped = unescape_rule_content (trim content)
      in if unescaped = [] \<or> unescaped = lit ''*'' then Any
         else case strip_suffix (lit '':*'') unescaped of
                Some p \<Rightarrow> Prefix p
              | None \<Rightarrow> Exact unescaped)"

definition PermissionRule_parse :: "ustr \<Rightarrow> PermissionRule" where
  "PermissionRule_parse raw =
     (let trimmed = trim raw;
          plain = \<lparr>rule_raw = trimmed, rule_tool_name = trimmed, matcher = Any\<rparr>
      in case (find_first_unescaped trimmed 40, find_last_unescaped trimmed 41) of
           (Some opn, Some cls) \<Rightarrow>
             (if cls = length trimmed - 1 \<and> opn < cls
              then let tool_name = trim (take opn trimmed);
                       content = drop (opn + 1) (take cls trimmed)
                   in if tool_name \<noteq> []
                      then \<lparr>rule_raw = trimmed, rule_tool_name = tool_name,
                            matcher = parse_rule_matcher content\<rparr>
                      else plain
              else plain)
         | _ \<Rightarrow> plain)"

definition permission_subject_keys :: "ustr list" where
  "permission_subject_keys =
     [lit ''command'', lit ''path'', lit ''file_path'', lit ''filePath'', lit ''notebook_path'',
      lit ''notebookPath'', lit ''url'', lit ''pattern'', lit ''code'', lit ''message'']"

fun first_string_field :: "(ustr, Value) btree \<Rightarrow> ustr list \<Rightarrow> ustr option" where
  "first_string_field obj [] = None"
| "first_string_field obj (k # ks) =
     (case Option.bind (btree_get obj k) value_as_str of
        Some v \<Rightarrow> Some v
      | None \<Rightarrow> first_string_field obj ks)"

definition extract_permission_subject :: "from_str_fn \<Rightarrow> ustr \<Rightarrow> ustr option" where
  "extract_permission_subject from_str inp =
     (let raw = (if trim inp = [] then None else Some inp)
      in case from_str inp of
           Inr (Object obj) \<Rightarrow>
             (case first_string_field obj permission_subject_keys of Some v \<Rightarrow> Some v | None \<Rightarrow> raw)
         | _ \<Rightarrow> raw)"

definition rule_matches :: "from_str_fn \<Rightarrow> PermissionRule \<Rightarrow> ustr \<Rightarrow> ustr \<Rightarrow> bool" where
  "rule_matches from_str rule tool_name inp \<longleftrightarrow>
     rule_tool_name rule = tool_name \<and>
     (case matcher rule of
        Any \<Rightarrow> True
      | Exact expected \<Rightarrow>
          (case extract_permission_subject from_str inp of Some c \<Rightarrow> c = expected | None \<Rightarrow> False)
      | Prefix p \<Rightarrow>
          (case extract_permission_subject from_str inp of Some c \<Rightarrow> starts_with p c | None \<Rightarrow> False))"

definition find_matching_rule ::
  "from_str_fn \<Rightarrow> PermissionRule list \<Rightarrow> ustr \<Rightarrow> ustr \<Rightarrow> PermissionRule option" where
  "find_matching_rule from_str rules tool_name inp = find (\<lambda>r. rule_matches from_str r tool_name inp) rules"

subsection \<open>Policies\<close>

definition PermissionPolicy_new :: "PermissionMode \<Rightarrow> PermissionPolicy" where
  "PermissionPolicy_new mode =
     \<lparr>active_mode = mode, tool_requirements = [], allow_rules = [], deny_rules = [], ask_rules = []\<rparr>"

definition with_tool_requirement ::
  "ustr \<Rightarrow> PermissionMode \<Rightarrow> PermissionPolicy \<Rightarrow> PermissionPolicy" where
  "with_tool_requirement tool_name required pol =
     pol\<lparr>tool_requirements := btree_insert tool_name required (tool_requirements pol)\<rparr>"

definition with_permission_rules ::
  "RuntimePermissionRuleConfig \<Rightarrow> PermissionPolicy \<Rightarrow> PermissionPolicy" where
  "with_permission_rules config pol =
     pol\<lparr>allow_rules := map PermissionRule_parse (cfg_allow config),
         deny_rules := map PermissionRule_parse (cfg_deny config),
         ask_rules := map PermissionRule_parse (cfg_ask config)\<rparr>"

definition required_mode_for :: "PermissionPolicy \<Rightarrow> ustr \<Rightarrow> PermissionMode" where
  "required_mode_for pol tool_name =
     (case btree_get (tool_requirements pol) tool_name of Some m \<Rightarrow> m | None \<Rightarrow> DangerFullAccess)"

definition prompt_or_deny ::
  "ustr \<Rightarrow> ustr \<Rightarrow> PermissionMode \<Rightarrow> PermissionMode \<Rightarrow> ustr option \<Rightarrow> 'w prompter option \<Rightarrow> 'w
   \<Rightarrow> PermissionOutcome \<times> 'w" where
  "prompt_or_deny tool_name inp current required reason prompter w =
     (let request = \<lparr>req_tool_name = tool_name, req_input = inp, req_current_mode = current,
                     req_required_mode = required, req_reason = reason\<rparr>
      in case prompter of
           Some decide \<Rightarrow>
             (case decide request w of
                (PromptAllow, w') \<Rightarrow> (OutcomeAllow, w')
              | (PromptDeny r, w') \<Rightarrow> (OutcomeDeny r, w'))
         | None \<Rightarrow>
             (OutcomeDeny (case reason of Some r \<Rightarrow> r | None \<Rightarrow>
                lit ''tool '' @ [39] @ tool_name @ [39] @ lit '' requires approval to run while mode is ''
                @ mode_as_str current), w))"

definition ask_rule_reason :: "ustr \<Rightarrow> PermissionRule \<Rightarrow> ustr" where
  "ask_rule_reason tool_name rule =
     lit ''tool '' @ [39] @ tool_name @ [39] @ lit '' requires approval due to ask rule ''
     @ [39] @ rule_raw rule @ [39]"

definition authorize_with_context ::
  "from_str_fn \<Rightarrow> PermissionPolicy \<Rightarrow> ustr \<Rightarrow> ustr \<Rightarrow> PermissionContext \<Rightarrow> 'w prompter option \<Rightarrow> 'w
   \<Rightarrow> PermissionOutcome \<times> 'w" where
  "authorize_with_context from_str pol tool_name inp ctx prompter w =
     (case find_matching_rule from_str (deny_rules pol) tool_name inp of
        Some rule \<Rightarrow>
          (OutcomeDeny (lit ''Permission to use '' @ tool_name @ lit '' has been denied by rule ''
             @ [39] @ rule_raw rule @ [39]), w)
      | None \<Rightarrow>
          let current = active_mode pol;
              required = required_mode_for pol tool_name;
              ask_rule = find_matching_rule from_str (ask_rules pol) tool_name inp;
              allow_rule = find_matching_rule from_str (allow_rules pol) tool_name inp;
              granted = (allow_rule \<noteq> None \<or> current = Allow \<or> required \<le> current);
              prompt = (\<lambda>reason. prompt_or_deny tool_name inp current required (Some reason) prompter w);
              rest =
                (case ask_rule of
                   Some rule \<Rightarrow> prompt (ask_rule_reason tool_name rule)
                 | None \<Rightarrow>
                     if granted then (OutcomeAllow, w)
                     else if current = Prompt \<or> (current = WorkspaceWrite \<and> required = DangerFullAccess)
                     then prompt (lit ''tool '' @ [39] @ tool_name @ [39]
                            @ lit '' requires approval to escalate from '' @ mode_as_str current
                            @ lit '' to '' @ mode_as_str required)
                     else (OutcomeDeny (lit ''tool '' @ [39] @ tool_name @ [39] @ lit '' requires ''
                             @ mode_as_str required @ lit '' permission; current mode is ''
                             @ mode_as_str current), w))
          in case override_decision ctx of
               Some OverrideDeny \<Rightarrow>
                 (OutcomeDeny (case override_reason ctx of Some r \<Rightarrow> r | None \<Rightarrow>
                    lit ''tool '' @ [39] @ tool_name @ [39] @ lit '' denied by hook''), w)
             | Some OverrideAsk \<Rightarrow>
                 prompt (case override_reason ctx of Some r \<Rightarrow> r | None \<Rightarrow>
                    lit ''tool '' @ [39] @ tool_name @ [39]
                    @ lit '' requires approval due to hook guidance'')
             | Some OverrideAllow \<Rightarrow>
                 (case ask_rule of
                    Some rule \<Rightarrow> prompt (ask_rule_reason tool_name rule)
                  | None \<Rightarrow> if granted then (OutcomeAllow, w) else rest)
             | None \<Rightarrow> rest)"

definition authorize ::
  "from_str_fn \<Rightarrow> PermissionPolicy \<Rightarrow> ustr \<Rightarrow> ustr \<Rightarrow> 'w prompter option \<Rightarrow> 'w
   \<Rightarrow> PermissionOutcome \<times> 'w" where
  "authorize from_str pol tool_name inp prompter w =
     authorize_with_context from_str pol tool_name inp PermissionContext_default prompter w"

subsection \<open>Specification\<close>

text \<open>A policy grants a call by itself when no deny or ask rule matches and an allow rule does or
  the mode is high enough.\<close>

definition grants :: "from_str_fn \<Rightarrow> PermissionPolicy \<Rightarrow> ustr \<Rightarrow> ustr \<Rightarrow> bool" where
  "grants from_str pol tool_name inp \<longleftrightarrow>
     \<not> list_ex (\<lambda>r. rule_matches from_str r tool_name inp) (deny_rules pol)
     \<and> \<not> list_ex (\<lambda>r. rule_matches from_str r tool_name inp) (ask_rules pol)
     \<and> (list_ex (\<lambda>r. rule_matches from_str r tool_name inp) (allow_rules pol)
        \<or> required_mode_for pol tool_name \<le> active_mode pol)"

text \<open>When the user has to be asked: a hook or an ask rule says so, or a workspace session wants
  full access.\<close>

definition asks :: "from_str_fn \<Rightarrow> PermissionPolicy \<Rightarrow> ustr \<Rightarrow> ustr \<Rightarrow> PermissionContext \<Rightarrow> bool" where
  "asks from_str pol tool_name inp ctx \<longleftrightarrow>
     \<not> list_ex (\<lambda>r. rule_matches from_str r tool_name inp) (deny_rules pol)
     \<and> override_decision ctx \<noteq> Some OverrideDeny
     \<and> (override_decision ctx = Some OverrideAsk
        \<or> list_ex (\<lambda>r. rule_matches from_str r tool_name inp) (ask_rules pol)
        \<or> (\<not> grants from_str pol tool_name inp
           \<and> (active_mode pol = Prompt
              \<or> active_mode pol = WorkspaceWrite \<and> required_mode_for pol tool_name = DangerFullAccess)))"

text \<open>Writing a subject into a rule.\<close>

fun escape_rule_content :: "ustr \<Rightarrow> ustr" where
  "escape_rule_content [] = []"
| "escape_rule_content (c # cs) =
     (if c = 92 \<or> c = 40 \<or> c = 41 then 92 # c # escape_rule_content cs else c # escape_rule_content cs)"

definition rule_for :: "ustr \<Rightarrow> ustr \<Rightarrow> ustr" where
  "rule_for tool_name subject = tool_name @ [40] @ escape_rule_content subject @ [41]"

section \<open>Which calls are allowed\<close>

lemma find_matching_rule_None:
  "find_matching_rule from_str rules t i = None \<longleftrightarrow> \<not> list_ex (\<lambda>r. rule_matches from_str r t i) rules"
  by (auto simp: find_matching_rule_def find_None_iff list_ex_iff)

lemma find_matching_rule_Some:
  "find_matching_rule from_str rules t i = Some r \<Longrightarrow> list_ex (\<lambda>r. rule_matches from_str r t i) rules"
  by (metis find_matching_rule_None option.distinct(1))

lemma mode_le_Allow: "(m :: PermissionMode) \<le> Allow"
  by (cases m) (simp_all add: less_eq_PermissionMode_def)

lemma prompt_or_deny_None [simp]:
  "prompt_or_deny t i c r (Some reason) None w = (OutcomeDeny reason, w)"
  by (simp add: prompt_or_deny_def)

text \<open>The decision in terms of the specification: denied outright, asked, or granted.\<close>

lemma authorize_cases:
  obtains (denied) reason where "\<not> asks from_str pol t i ctx"
      "\<not> (grants from_str pol t i \<and> override_decision ctx \<notin> {Some OverrideDeny, Some OverrideAsk})"
      "\<And>(prompter :: 'w prompter option) w. authorize_with_context from_str pol t i ctx prompter w = (OutcomeDeny reason, w)"
  | (asked) reason where "asks from_str pol t i ctx"
      "\<not> (grants from_str pol t i \<and> override_decision ctx \<notin> {Some OverrideDeny, Some OverrideAsk})"
      "\<And>(prompter :: 'w prompter option) w. authorize_with_context from_str pol t i ctx prompter w =
         prompt_or_deny t i (active_mode pol) (required_mode_for pol t) (Some reason) prompter w"
  | (granted) "\<not> asks from_str pol t i ctx"
      "grants from_str pol t i" "override_decision ctx \<notin> {Some OverrideDeny, Some OverrideAsk}"
      "\<And>(prompter :: 'w prompter option) w. authorize_with_context from_str pol t i ctx prompter w = (OutcomeAllow, w)"
proof (cases "find_matching_rule from_str (deny_rules pol) t i")
  case (Some r)
  then have "list_ex (\<lambda>r. rule_matches from_str r t i) (deny_rules pol)"
    by (rule find_matching_rule_Some)
  with Some show ?thesis
    by (intro denied) (auto simp: asks_def grants_def authorize_with_context_def)
next
  case None
  let ?d = "override_decision ctx"
  note deny = find_matching_rule_None [THEN iffD1, OF None]
  consider (Deny) "?d = Some OverrideDeny" | (Ask) "?d = Some OverrideAsk"
    | (Go) "?d \<notin> {Some OverrideDeny, Some OverrideAsk}" by blast
  then show ?thesis
  proof cases
    case Deny
    with None deny show ?thesis by (intro denied) (auto simp: asks_def authorize_with_context_def Let_def)
  next
    case Ask
    with None deny show ?thesis by (intro asked) (auto simp: asks_def authorize_with_context_def Let_def)
  next
    case Go
    then have d: "?d = None \<or> ?d = Some OverrideAllow" by (cases ?d; cases "the ?d") auto
    show ?thesis
    proof (cases "find_matching_rule from_str (ask_rules pol) t i")
      case (Some r)
      with find_matching_rule_Some [OF Some] None deny d show ?thesis
        by (intro asked) (auto simp: asks_def grants_def authorize_with_context_def Let_def)
    next
      case ask: None
      let ?g = "find_matching_rule from_str (allow_rules pol) t i \<noteq> None \<or> active_mode pol = Allow
        \<or> required_mode_for pol t \<le> active_mode pol"
      have g: "grants from_str pol t i \<longleftrightarrow> ?g"
        using deny ask mode_le_Allow by (auto simp: grants_def find_matching_rule_None)
      let ?e = "active_mode pol = Prompt
        \<or> active_mode pol = WorkspaceWrite \<and> required_mode_for pol t = DangerFullAccess"
      have a: "asks from_str pol t i ctx \<longleftrightarrow> \<not> ?g \<and> ?e"
        using deny ask d by (auto simp: asks_def g find_matching_rule_None)
      consider ?g | "\<not> ?g" ?e | "\<not> ?g" "\<not> ?e" by blast
      then show ?thesis
      proof cases
        case 1
        with g a Go d None ask show ?thesis
          by (intro granted) (auto simp: authorize_with_context_def Let_def)
      next
        case 2
        with g a d None ask show ?thesis
          by (cases "active_mode pol = Prompt"; intro asked) (auto simp: authorize_with_context_def Let_def)
      next
        case 3
        with g a d None ask show ?thesis
          by (intro denied) (auto simp: authorize_with_context_def Let_def)
      qed
    qed
  qed
qed

text \<open>C7: without a prompter a call is allowed exactly if the policy grants it and no hook asked or
  denied: no deny or ask rule matches, and an allow rule matches or the session's mode reaches the
  mode the tool requires.\<close>

theorem authorize_unattended_iff:
  "fst (authorize_with_context from_str pol tool inp ctx None w) = OutcomeAllow \<longleftrightarrow>
     grants from_str pol tool inp \<and> override_decision ctx \<notin> {Some OverrideDeny, Some OverrideAsk}"
  for w :: 'w
  by (rule authorize_cases [where 'w = 'w, of from_str pol tool inp ctx]) auto

text \<open>The user is asked exactly when the policy calls for it, about this call with its modes, and
  the answer is the decision; in every other case the prompter is not consulted and the decision
  is the one made without it.\<close>

theorem authorize_prompts:
  "if asks from_str pol tool inp ctx
   then \<exists>reason. authorize_with_context from_str pol tool inp ctx (Some decide) w =
     (case decide \<lparr>req_tool_name = tool, req_input = inp, req_current_mode = active_mode pol,
         req_required_mode = required_mode_for pol tool, req_reason = Some reason\<rparr> w of
        (PromptAllow, w') \<Rightarrow> (OutcomeAllow, w')
      | (PromptDeny r, w') \<Rightarrow> (OutcomeDeny r, w'))
   else authorize_with_context from_str pol tool inp ctx (Some decide) w =
        authorize_with_context from_str pol tool inp ctx None w"
  for w :: 'w
proof (rule authorize_cases [where 'w = 'w, of from_str pol tool inp ctx])
  fix reason
  assume "asks from_str pol tool inp ctx"
    and "\<And>(prompter :: 'w prompter option) w. authorize_with_context from_str pol tool inp ctx prompter w =
         prompt_or_deny tool inp (active_mode pol) (required_mode_for pol tool) (Some reason) prompter w"
  then show ?thesis unfolding prompt_or_deny_def Let_def by (simp only: if_True option.case) blast
qed simp_all

text \<open>In prompt mode a tool that requires at most full access, and that no rule and no hook
  singles out, runs without the user being asked: the derived order puts \<^verbatim>\<open>Prompt\<close> above
  \<^verbatim>\<open>DangerFullAccess\<close>.\<close>

theorem prompt_mode_does_not_ask:
  assumes "active_mode pol = Prompt" and "required_mode_for pol tool \<le> DangerFullAccess"
    and "deny_rules pol = []" and "ask_rules pol = []"
  shows "authorize from_str pol tool inp prompter (w :: 'w) = (OutcomeAllow, w)"
proof -
  have "grants from_str pol tool inp"
    using assms by (simp add: grants_def less_eq_PermissionMode_def)
  moreover from this have "\<not> asks from_str pol tool inp PermissionContext_default"
    using assms by (simp add: asks_def PermissionContext_default_def)
  ultimately show ?thesis
    by (cases rule: authorize_cases [where 'w = 'w, of from_str pol tool inp PermissionContext_default])
      (simp_all add: PermissionContext_default_def authorize_def)
qed

theorem prompt_mode_does_not_ask_witness:
  "authorize (\<lambda>_. Inl []) (PermissionPolicy_new Prompt) (lit ''bash'') (lit ''rm -rf /'')
     (Some (\<lambda>_ w. (PromptDeny [], Suc w))) 0 = (OutcomeAllow, 0)"
  by (rule prompt_mode_does_not_ask)
    (simp_all add: PermissionPolicy_new_def required_mode_for_def less_eq_PermissionMode_def)

section \<open>Rules as text\<close>

lemma replace_all_miss: "c \<noteq> hd p \<Longrightarrow> replace_all p r (c # cs) = c # replace_all p r cs"
  by (cases p) (auto simp: starts_with_def)

text \<open>The three replacements undo the escapes one kind at a time.\<close>

fun escape_keep :: "uchar set \<Rightarrow> ustr \<Rightarrow> ustr" where
  "escape_keep S [] = []"
| "escape_keep S (c # cs) = (if c \<in> S then 92 # c # escape_keep S cs else c # escape_keep S cs)"

lemma escape_rule_content_keep: "escape_rule_content s = escape_keep {92, 40, 41} s"
  by (induction s) auto

lemma replace_escape_paren:
  assumes "d \<in> S" and "d \<noteq> 92" and "92 \<in> S"
  shows "replace_all [92, d] [d] (escape_keep S s) = escape_keep (S - {d}) s"
proof (induction s)
  case (Cons c cs)
  have "take 1 (escape_keep S cs) \<noteq> [d]"
    using assms by (cases cs) auto
  moreover consider "c = d" | "c \<noteq> d" "c \<in> S" | "c \<notin> S" by blast
  ultimately show ?case
    using assms Cons by cases (auto simp: starts_with_def replace_all_miss)
qed simp

lemma replace_escape_backslash: "replace_all [92, 92] [92] (escape_keep {92} s) = s"
  by (induction s) (auto simp: starts_with_def)

lemma unescape_escape: "unescape_rule_content (escape_rule_content s) = s"
proof -
  have "{92, 40, 41} - {40} - {41} = {92 :: nat}" by auto
  then show ?thesis
    by (simp add: unescape_rule_content_def escape_rule_content_keep replace_escape_paren
        replace_escape_backslash)
qed

lemma find_first_from_skip:
  "\<forall>c \<in> set t. c \<noteq> 92 \<and> c \<noteq> needle \<Longrightarrow> needle \<noteq> 92 \<Longrightarrow>
     find_first_from False n (t @ needle # s) needle = Some (n + length t)"
  by (induction t arbitrary: n) auto

lemma escape_append:
  "escape_rule_content (s @ [c]) = escape_rule_content s @ (if c = 92 \<or> c = 40 \<or> c = 41 then [92, c] else [c])"
  by (induction s) auto

lemma escape_trailing_even:
  "even (length (takeWhile (\<lambda>c. c = 92) (rev (escape_rule_content s) @ 40 # r)))"
  by (induction s rule: rev_induct) (auto simp: escape_append)

lemma escape_eq_Nil [simp]: "escape_rule_content s = [] \<longleftrightarrow> s = []"
  by (cases s) auto

lemma trim_escape:
  assumes "trim s = s"
  shows "trim (escape_rule_content s) = escape_rule_content s"
proof (cases "s = []")
  case False
  with assms have h: "\<not> is_whitespace (hd s)" "\<not> is_whitespace (last s)"
    using hd_trim [of s] last_trim [of s] by simp_all
  have "\<not> is_whitespace 92" by (simp add: is_whitespace_def)
  with h False have "\<not> is_whitespace (hd (escape_rule_content s))" by (cases s) auto
  moreover have "last (escape_rule_content s) = last s"
    using False by (cases s rule: rev_cases) (auto simp: escape_append)
  ultimately show ?thesis using h False by (intro trim_id) simp_all
qed simp

lemma parse_rule_for:
  assumes t: "t \<noteq> []" "trim t = t" "40 \<notin> set t" "92 \<notin> set t" and c: "trim c = c"
  shows "rule_tool_name (PermissionRule_parse (rule_for t c)) = t"
    and "matcher (PermissionRule_parse (rule_for t c)) =
      (if c = [] \<or> c = lit ''*'' then Any
       else case strip_suffix (lit '':*'') c of Some p \<Rightarrow> Prefix p | None \<Rightarrow> Exact c)"
proof -
  let ?r = "rule_for t c"
  have l: "?r = (t @ 40 # escape_rule_content c) @ [41]" by (simp add: rule_for_def)
  have "\<not> is_whitespace (hd t)" using hd_trim [of t] t by simp
  moreover have "\<not> is_whitespace 41" by (simp add: is_whitespace_def)
  ultimately have trim: "trim ?r = ?r" using t(1) unfolding l by (intro trim_id) simp_all
  have f: "find_first_unescaped ?r 40 = Some (length t)"
    using t find_first_from_skip [of t 40 0] by (auto simp: find_first_unescaped_def l)
  have e: "even (length (takeWhile (\<lambda>c. c = 92) (rev (escape_rule_content c) @ 40 # rev t)))"
    by (rule escape_trailing_even)
  have "rev [0..<length ?r] = (length ?r - 1) # rev [0..<length ?r - 1]"
    by (simp add: l)
  moreover have "?r ! (length ?r - 1) = 41" by (simp add: l nth_append)
  moreover have "take (length ?r - 1) ?r = t @ 40 # escape_rule_content c" by (simp add: l)
  ultimately have g: "find_last_unescaped ?r 41 = Some (length ?r - 1)"
    using e by (simp add: find_last_unescaped_def)
  have d: "take (length t) ?r = t" "drop (length t + 1) (take (length ?r - 1) ?r) = escape_rule_content c"
    "length t < length ?r - 1" by (simp_all add: l)
  have "PermissionRule_parse ?r =
    \<lparr>rule_raw = ?r, rule_tool_name = t, matcher = parse_rule_matcher (escape_rule_content c)\<rparr>"
    using t d by (simp add: PermissionRule_parse_def trim f g Let_def)
  then show "rule_tool_name (PermissionRule_parse ?r) = t"
    and "matcher (PermissionRule_parse ?r) =
      (if c = [] \<or> c = lit ''*'' then Any
       else case strip_suffix (lit '':*'') c of Some p \<Rightarrow> Prefix p | None \<Rightarrow> Exact c)"
    using trim_escape [OF c] by (simp_all add: parse_rule_matcher_def unescape_escape Let_def)
qed

text \<open>Any subject that is not itself a wildcard can be written as a rule for a tool: the rule,
  with backslashes and parentheses of the subject escaped, matches exactly the calls of that tool
  on that subject.\<close>

theorem rule_for_matches_exactly:
  assumes "tool \<noteq> []" and "trim tool = tool" and "40 \<notin> set tool" and "92 \<notin> set tool"
    and "subject \<noteq> []" and "trim subject = subject" and "subject \<noteq> lit ''*''"
    and "strip_suffix (lit '':*'') subject = None"
  shows "rule_matches from_str (PermissionRule_parse (rule_for tool subject)) name inp \<longleftrightarrow>
     name = tool \<and> extract_permission_subject from_str inp = Some subject"
  using parse_rule_for [OF assms(1-4,6)] assms
  by (auto simp: rule_matches_def split: option.splits)

theorem rule_for_matches_exactly_witness:
  "rule_matches (\<lambda>_. Inl []) (PermissionRule_parse (rule_for (lit ''bash'') (lit ''echo (a)''))) (lit ''bash'')
     (lit ''echo (a)'')
   \<and> \<not> rule_matches (\<lambda>_. Inl []) (PermissionRule_parse (rule_for (lit ''bash'') (lit ''echo (a)'')))
     (lit ''bash'') (lit ''echo a'')"
proof -
  have h: "lit ''bash'' \<noteq> []" "trim (lit ''bash'') = lit ''bash''" "40 \<notin> set (lit ''bash'')"
    "92 \<notin> set (lit ''bash'')" "lit ''echo (a)'' \<noteq> []" "trim (lit ''echo (a)'') = lit ''echo (a)''"
    "lit ''echo (a)'' \<noteq> lit ''*''" "strip_suffix (lit '':*'') (lit ''echo (a)'') = None"
    by code_simp+
  have "extract_permission_subject (\<lambda>_. Inl []) (lit ''echo (a)'') = Some (lit ''echo (a)'')"
    "extract_permission_subject (\<lambda>_. Inl []) (lit ''echo a'') = Some (lit ''echo a'')" by code_simp+
  then show ?thesis by (simp add: rule_for_matches_exactly [OF h])
qed

end
