(* ===== verification/Hooks.thy ===== *)
theory Hooks
  imports Permissions
begin

text \<open>
  The hook runner of \<^verbatim>\<open>runtime/src/hooks.rs\<close>: the loop over the configured commands, the outcome of
  one command from its exit code and output, the parsing of that output and the merging of the
  results. Spawning a process and waiting for it (\<^verbatim>\<open>output_with_stdin\<close>) is an argument on the world
  \<open>'w\<close>, as are the abort signal, the progress reporter and the two functions of \<^verbatim>\<open>serde_json\<close>.
  The lemmas show when the loop stops, what it reports and that a blocked call always carries a
  message.
\<close>

section \<open>Definitions\<close>

subsection \<open>Data\<close>

datatype HookEvent = PreToolUse | PostToolUse | PostToolUseFailure

fun event_as_str :: "HookEvent \<Rightarrow> ustr" where
  "event_as_str PreToolUse = lit ''PreToolUse''"
| "event_as_str PostToolUse = lit ''PostToolUse''"
| "event_as_str PostToolUseFailure = lit ''PostToolUseFailure''"

datatype HookProgressEvent =
    Started HookEvent ustr ustr
  | Completed HookEvent ustr ustr
  | ProgressCancelled HookEvent ustr ustr

record HookRunResult =
  hr_denied :: bool
  hr_failed :: bool
  hr_cancelled :: bool
  hr_messages :: "ustr list"
  hr_permission_override :: "PermissionOverride option"
  hr_permission_reason :: "ustr option"
  hr_updated_input :: "ustr option"

definition HookRunResult_allow :: "ustr list \<Rightarrow> HookRunResult" where
  "HookRunResult_allow ms =
     \<lparr>hr_denied = False, hr_failed = False, hr_cancelled = False, hr_messages = ms,
      hr_permission_override = None, hr_permission_reason = None, hr_updated_input = None\<rparr>"

record ParsedHookOutput =
  po_messages :: "ustr list"
  po_deny :: bool
  po_permission_override :: "PermissionOverride option"
  po_permission_reason :: "ustr option"
  po_updated_input :: "ustr option"

definition ParsedHookOutput_default :: ParsedHookOutput where
  "ParsedHookOutput_default =
     \<lparr>po_messages = [], po_deny = False, po_permission_override = None,
      po_permission_reason = None, po_updated_input = None\<rparr>"

datatype HookCommandOutcome =
    HookAllow ParsedHookOutput
  | HookDeny ParsedHookOutput
  | HookFailed ParsedHookOutput
  | HookCancelled ustr

text \<open>\<^verbatim>\<open>CommandExecution\<close>; \<open>Finished out err code\<close> has the decoded output streams and the exit code,
  which is absent when a signal ended the process.\<close>

datatype CommandExecution = Finished ustr ustr "int option" | ExecCancelled

record RuntimeHookConfig =
  pre_tool_use :: "ustr list"
  post_tool_use :: "ustr list"
  post_tool_use_failure :: "ustr list"

text \<open>What a hook command is given.\<close>

record HookCall =
  hc_event :: HookEvent
  hc_tool_name :: ustr
  hc_tool_input :: ustr
  hc_tool_output :: "ustr option"
  hc_is_error :: bool

text \<open>The surroundings of the runner: serde, the process launcher, the abort signal, the reporter.\<close>

record 'w hook_env =
  from_str :: from_str_fn
  to_json_string :: "Value \<Rightarrow> ustr"
  output_with_stdin :: "ustr \<Rightarrow> HookCall \<Rightarrow> ustr \<Rightarrow> 'w \<Rightarrow> (ustr + CommandExecution) \<times> 'w"
  abort_signal :: "('w \<Rightarrow> bool) option"
  reporter :: "(HookProgressEvent \<Rightarrow> 'w \<Rightarrow> 'w) option"

subsection \<open>Formatting\<close>

definition HOOK_PREVIEW_CHAR_LIMIT :: nat where
  "HOOK_PREVIEW_CHAR_LIMIT = 160"

definition preview_char :: "uchar \<Rightarrow> ustr" where
  "preview_char ch =
     (if ch = 10 then [92, 110] else if ch = 13 then [92, 114] else if ch = 9 then [92, 116]
      else if is_control ch then [92, 117, 123] @ show_hex ch @ [125]
      else [ch])"

definition bounded_hook_preview :: "ustr \<Rightarrow> ustr option" where
  "bounded_hook_preview v =
     (let trimmed = trim v
      in if trimmed = [] then None
         else Some (concat (map preview_char (take HOOK_PREVIEW_CHAR_LIMIT trimmed))
                    @ (if HOOK_PREVIEW_CHAR_LIMIT < length trimmed then [8230] else [])))"

definition preview_or_empty :: "ustr \<Rightarrow> ustr" where
  "preview_or_empty v = (case bounded_hook_preview v of Some p \<Rightarrow> p | None \<Rightarrow> lit ''<empty>'')"

definition format_invalid_hook_output ::
  "HookEvent \<Rightarrow> ustr \<Rightarrow> ustr \<Rightarrow> ustr \<Rightarrow> ustr \<Rightarrow> ustr \<Rightarrow> ustr" where
  "format_invalid_hook_output event tool_name command detail out err =
     lit ''hook_invalid_json: phase='' @ event_as_str event @ lit '' tool='' @ tool_name
     @ lit '' command='' @ preview_or_empty command @ lit '' detail='' @ detail
     @ lit '' stdout_preview='' @ preview_or_empty out @ lit '' stderr_preview='' @ preview_or_empty err"

definition json_type_name :: "Value \<Rightarrow> ustr" where
  "json_type_name v =
     (case v of Null \<Rightarrow> lit ''null'' | Bool _ \<Rightarrow> lit ''boolean'' | Number _ \<Rightarrow> lit ''number''
      | String _ \<Rightarrow> lit ''string'' | Array _ \<Rightarrow> lit ''array'' | Object _ \<Rightarrow> lit ''object'')"

definition looks_like_json_attempt :: "ustr \<Rightarrow> bool" where
  "looks_like_json_attempt v = (case trim_start v of [] \<Rightarrow> False | c # _ \<Rightarrow> c = 123 \<or> c = 91)"

definition format_hook_failure :: "ustr \<Rightarrow> int \<Rightarrow> ustr option \<Rightarrow> ustr \<Rightarrow> ustr" where
  "format_hook_failure command code out err =
     lit ''Hook `'' @ command @ lit ''` exited with status '' @ show_int code
     @ (case out of
          Some o1 \<Rightarrow> (if o1 \<noteq> [] then lit '': '' @ o1 else if err \<noteq> [] then lit '': '' @ err else [])
        | None \<Rightarrow> (if err \<noteq> [] then lit '': '' @ err else []))"

subsection \<open>Output of a hook\<close>

definition with_fallback_message :: "ustr \<Rightarrow> ParsedHookOutput \<Rightarrow> ParsedHookOutput" where
  "with_fallback_message fallback p =
     (if po_messages p = [] then p\<lparr>po_messages := [fallback]\<rparr> else p)"

definition primary_message :: "ParsedHookOutput \<Rightarrow> ustr option" where
  "primary_message p = (case po_messages p of [] \<Rightarrow> None | m # _ \<Rightarrow> Some m)"

definition merge_parsed_hook_output :: "ParsedHookOutput \<Rightarrow> HookRunResult \<Rightarrow> HookRunResult" where
  "merge_parsed_hook_output p r =
     r\<lparr>hr_messages := hr_messages r @ po_messages p,
       hr_permission_override :=
         (if po_permission_override p \<noteq> None then po_permission_override p else hr_permission_override r),
       hr_permission_reason :=
         (if po_permission_reason p \<noteq> None then po_permission_reason p else hr_permission_reason r),
       hr_updated_input :=
         (if po_updated_input p \<noteq> None then po_updated_input p else hr_updated_input r)\<rparr>"

definition string_field :: "(ustr, Value) btree \<Rightarrow> string \<Rightarrow> ustr option" where
  "string_field obj k = Option.bind (btree_get obj (lit k)) value_as_str"

definition override_of_text :: "ustr \<Rightarrow> PermissionOverride option" where
  "override_of_text d =
     (if d = lit ''allow'' then Some OverrideAllow
      else if d = lit ''deny'' then Some OverrideDeny
      else if d = lit ''ask'' then Some OverrideAsk
      else None)"

text \<open>The fields under \<^verbatim>\<open>hookSpecificOutput\<close>.\<close>

definition parse_hook_specific ::
  "(Value \<Rightarrow> ustr) \<Rightarrow> (ustr, Value) btree \<Rightarrow> ParsedHookOutput \<Rightarrow> ParsedHookOutput" where
  "parse_hook_specific to_str spec p =
     (let p1 = (case string_field spec ''additionalContext'' of
                  Some c \<Rightarrow> p\<lparr>po_messages := po_messages p @ [c]\<rparr> | None \<Rightarrow> p);
          p2 = (case string_field spec ''permissionDecision'' of
                  Some d \<Rightarrow> p1\<lparr>po_permission_override := override_of_text d\<rparr> | None \<Rightarrow> p1);
          p3 = (case string_field spec ''permissionDecisionReason'' of
                  Some r \<Rightarrow> p2\<lparr>po_permission_reason := Some r\<rparr> | None \<Rightarrow> p2)
      in case btree_get spec (lit ''updatedInput'') of
           Some v \<Rightarrow> p3\<lparr>po_updated_input := Some (to_str v)\<rparr> | None \<Rightarrow> p3)"

definition parse_hook_output ::
  "'w hook_env \<Rightarrow> HookEvent \<Rightarrow> ustr \<Rightarrow> ustr \<Rightarrow> ustr \<Rightarrow> ustr \<Rightarrow> ParsedHookOutput" where
  "parse_hook_output env event tool_name command out err =
     (if out = [] then ParsedHookOutput_default
      else case from_str env out of
        Inr (Object root) \<Rightarrow>
          let msgs = (case string_field root ''systemMessage'' of Some m \<Rightarrow> [m] | None \<Rightarrow> [])
                   @ (case string_field root ''reason'' of Some m \<Rightarrow> [m] | None \<Rightarrow> []);
              deny = (Option.bind (btree_get root (lit ''continue'')) value_as_bool = Some False
                      \<or> string_field root ''decision'' = Some (lit ''block''));
              p = ParsedHookOutput_default\<lparr>po_messages := msgs, po_deny := deny\<rparr>;
              p1 = (case btree_get root (lit ''hookSpecificOutput'') of
                      Some (Object spec) \<Rightarrow> parse_hook_specific (to_json_string env) spec p
                    | _ \<Rightarrow> p)
          in if po_messages p1 = [] then p1\<lparr>po_messages := [out]\<rparr> else p1
      | Inr v \<Rightarrow>
          ParsedHookOutput_default\<lparr>po_messages :=
            [format_invalid_hook_output event tool_name command
               (lit ''expected top-level JSON object, got '' @ json_type_name v) out err]\<rparr>
      | Inl e \<Rightarrow>
          (if looks_like_json_attempt out
           then ParsedHookOutput_default\<lparr>po_messages :=
                  [format_invalid_hook_output event tool_name command e out err]\<rparr>
           else ParsedHookOutput_default\<lparr>po_messages := [out]\<rparr>))"

subsection \<open>Running commands\<close>

definition parse_tool_input :: "from_str_fn \<Rightarrow> ustr \<Rightarrow> Value" where
  "parse_tool_input fs tool_input =
     (case fs tool_input of Inr v \<Rightarrow> v | Inl _ \<Rightarrow> Object (btree_of [(lit ''raw'', String tool_input)]))"

definition hook_payload :: "'w hook_env \<Rightarrow> HookCall \<Rightarrow> Value" where
  "hook_payload env call =
     (let out = (case hc_tool_output call of Some t \<Rightarrow> String t | None \<Rightarrow> Null);
          common = [(lit ''hook_event_name'', String (event_as_str (hc_event call))),
                    (lit ''tool_name'', String (hc_tool_name call)),
                    (lit ''tool_input'', parse_tool_input (from_str env) (hc_tool_input call)),
                    (lit ''tool_input_json'', String (hc_tool_input call))]
      in case hc_event call of
           PostToolUseFailure \<Rightarrow>
             Object (btree_of (common @ [(lit ''tool_error'', out), (lit ''tool_result_is_error'', Bool True)]))
         | _ \<Rightarrow>
             Object (btree_of (common @ [(lit ''tool_output'', out),
               (lit ''tool_result_is_error'', Bool (hc_is_error call))])))"

definition command_outcome ::
  "'w hook_env \<Rightarrow> HookCall \<Rightarrow> ustr \<Rightarrow> ustr + CommandExecution \<Rightarrow> HookCommandOutcome" where
  "command_outcome env call command res =
     (let ev = event_as_str (hc_event call); tool = hc_tool_name call in
      case res of
        Inr (Finished raw_out raw_err code) \<Rightarrow>
          let out = trim raw_out; err = trim raw_err;
              parsed = parse_hook_output env (hc_event call) tool command out err;
              primary = primary_message parsed
          in (case code of
                Some c \<Rightarrow>
                  if c = 0 then (if po_deny parsed then HookDeny parsed else HookAllow parsed)
                  else if c = 2
                  then HookDeny (with_fallback_message (ev @ lit '' hook denied tool `'' @ tool @ lit ''`'') parsed)
                  else HookFailed (with_fallback_message (format_hook_failure command c primary err) parsed)
              | None \<Rightarrow>
                  HookFailed (with_fallback_message (ev @ lit '' hook `'' @ command
                    @ lit ''` terminated by signal while handling `'' @ tool @ lit ''`'') parsed))
      | Inr ExecCancelled \<Rightarrow>
          HookCancelled (ev @ lit '' hook `'' @ command @ lit ''` cancelled while handling `'' @ tool @ lit ''`'')
      | Inl e \<Rightarrow>
          HookFailed (ParsedHookOutput_default\<lparr>po_messages :=
            [ev @ lit '' hook `'' @ command @ lit ''` failed to start for `'' @ tool @ lit ''`: '' @ e]\<rparr>))"

definition run_command ::
  "'w hook_env \<Rightarrow> HookCall \<Rightarrow> ustr \<Rightarrow> ustr \<Rightarrow> 'w \<Rightarrow> HookCommandOutcome \<times> 'w" where
  "run_command env call payload command w =
     (let (res, w') = output_with_stdin env command call payload w
      in (command_outcome env call command res, w'))"

definition notify :: "'w hook_env \<Rightarrow> HookProgressEvent \<Rightarrow> 'w \<Rightarrow> 'w" where
  "notify env e w = (case reporter env of Some r \<Rightarrow> r e w | None \<Rightarrow> w)"

fun run_loop ::
  "'w hook_env \<Rightarrow> HookCall \<Rightarrow> ustr \<Rightarrow> ustr list \<Rightarrow> HookRunResult \<Rightarrow> 'w \<Rightarrow> HookRunResult \<times> 'w" where
  "run_loop env call payload [] result w = (result, w)"
| "run_loop env call payload (command # commands) result w =
     (let w1 = notify env (Started (hc_event call) (hc_tool_name call) command) w;
          (outcome, w2) = run_command env call payload command w1;
          w3 = notify env (Completed (hc_event call) (hc_tool_name call) command) w2
      in case outcome of
           HookAllow parsed \<Rightarrow>
             run_loop env call payload commands (merge_parsed_hook_output parsed result) w3
         | HookDeny parsed \<Rightarrow> ((merge_parsed_hook_output parsed result)\<lparr>hr_denied := True\<rparr>, w3)
         | HookFailed parsed \<Rightarrow> ((merge_parsed_hook_output parsed result)\<lparr>hr_failed := True\<rparr>, w3)
         | HookCancelled m \<Rightarrow>
             (result\<lparr>hr_cancelled := True, hr_messages := hr_messages result @ [m]\<rparr>,
              notify env (ProgressCancelled (hc_event call) (hc_tool_name call) command) w2))"

definition run_commands ::
  "'w hook_env \<Rightarrow> ustr list \<Rightarrow> HookCall \<Rightarrow> 'w \<Rightarrow> HookRunResult \<times> 'w" where
  "run_commands env commands call w =
     (if commands = [] then (HookRunResult_allow [], w)
      else if (case abort_signal env of Some aborted \<Rightarrow> aborted w | None \<Rightarrow> False)
      then ((HookRunResult_allow [event_as_str (hc_event call) @ lit '' hook cancelled before execution''])
              \<lparr>hr_cancelled := True\<rparr>, w)
      else run_loop env call (to_json_string env (hook_payload env call)) commands (HookRunResult_allow []) w)"

definition run_pre_tool_use ::
  "'w hook_env \<Rightarrow> RuntimeHookConfig \<Rightarrow> ustr \<Rightarrow> ustr \<Rightarrow> 'w \<Rightarrow> HookRunResult \<times> 'w" where
  "run_pre_tool_use env config tool_name tool_input w =
     run_commands env (pre_tool_use config)
       \<lparr>hc_event = PreToolUse, hc_tool_name = tool_name, hc_tool_input = tool_input,
        hc_tool_output = None, hc_is_error = False\<rparr> w"

definition run_post_tool_use ::
  "'w hook_env \<Rightarrow> RuntimeHookConfig \<Rightarrow> ustr \<Rightarrow> ustr \<Rightarrow> ustr \<Rightarrow> bool \<Rightarrow> 'w \<Rightarrow> HookRunResult \<times> 'w" where
  "run_post_tool_use env config tool_name tool_input tool_output is_error w =
     run_commands env (post_tool_use config)
       \<lparr>hc_event = PostToolUse, hc_tool_name = tool_name, hc_tool_input = tool_input,
        hc_tool_output = Some tool_output, hc_is_error = is_error\<rparr> w"

definition run_post_tool_use_failure ::
  "'w hook_env \<Rightarrow> RuntimeHookConfig \<Rightarrow> ustr \<Rightarrow> ustr \<Rightarrow> ustr \<Rightarrow> 'w \<Rightarrow> HookRunResult \<times> 'w" where
  "run_post_tool_use_failure env config tool_name tool_input tool_error w =
     run_commands env (post_tool_use_failure config)
       \<lparr>hc_event = PostToolUseFailure, hc_tool_name = tool_name, hc_tool_input = tool_input,
        hc_tool_output = Some tool_error, hc_is_error = True\<rparr> w"

subsection \<open>Reference: the outcomes a run sees\<close>

text \<open>The outcomes of the commands that run, up to and including the first that does not allow, and
  the verdict over them.\<close>

fun outcomes :: "'w hook_env \<Rightarrow> HookCall \<Rightarrow> ustr \<Rightarrow> ustr list \<Rightarrow> 'w \<Rightarrow> HookCommandOutcome list" where
  "outcomes env call payload [] w = []"
| "outcomes env call payload (command # commands) w =
     (let (outcome, w2) = run_command env call payload command
            (notify env (Started (hc_event call) (hc_tool_name call) command) w)
      in case outcome of
           HookAllow _ \<Rightarrow> outcome # outcomes env call payload commands
             (notify env (Completed (hc_event call) (hc_tool_name call) command) w2)
         | _ \<Rightarrow> [outcome])"

fun outcome_parsed :: "HookCommandOutcome \<Rightarrow> ParsedHookOutput" where
  "outcome_parsed (HookAllow p) = p"
| "outcome_parsed (HookDeny p) = p"
| "outcome_parsed (HookFailed p) = p"
| "outcome_parsed (HookCancelled m) = ParsedHookOutput_default\<lparr>po_messages := [m]\<rparr>"

fun is_HookAllow :: "HookCommandOutcome \<Rightarrow> bool" where
  "is_HookAllow (HookAllow p) = True" | "is_HookAllow _ = False"

fun is_HookDeny :: "HookCommandOutcome \<Rightarrow> bool" where
  "is_HookDeny (HookDeny p) = True" | "is_HookDeny _ = False"

fun is_HookFailed :: "HookCommandOutcome \<Rightarrow> bool" where
  "is_HookFailed (HookFailed p) = True" | "is_HookFailed _ = False"

fun is_HookCancelled :: "HookCommandOutcome \<Rightarrow> bool" where
  "is_HookCancelled (HookCancelled m) = True" | "is_HookCancelled _ = False"

definition last_some :: "'a option list \<Rightarrow> 'a option" where
  "last_some xs = (let ys = filter (\<lambda>x. x \<noteq> None) xs in if ys = [] then None else last ys)"

definition verdict :: "HookCommandOutcome list \<Rightarrow> HookRunResult" where
  "verdict os =
     \<lparr>hr_denied = list_ex is_HookDeny os, hr_failed = list_ex is_HookFailed os,
      hr_cancelled = list_ex is_HookCancelled os,
      hr_messages = concat (map (po_messages \<circ> outcome_parsed) os),
      hr_permission_override = last_some (map (po_permission_override \<circ> outcome_parsed) os),
      hr_permission_reason = last_some (map (po_permission_reason \<circ> outcome_parsed) os),
      hr_updated_input = last_some (map (po_updated_input \<circ> outcome_parsed) os)\<rparr>"

text \<open>A runner with two hooks: the first approves, the second refuses with exit code 2.\<close>

definition sample_hook_env :: "unit hook_env" where
  "sample_hook_env =
     \<lparr>from_str = (\<lambda>_. Inl []), to_json_string = (\<lambda>_. []),
      output_with_stdin = (\<lambda>command call payload w.
        (Inr (Finished (lit ''seen'') [] (Some (if command = lit ''audit'' then 0 else 2))), w)),
      abort_signal = None, reporter = None\<rparr>"

definition sample_call :: HookCall where
  "sample_call = \<lparr>hc_event = PreToolUse, hc_tool_name = lit ''bash'', hc_tool_input = lit ''ls'',
     hc_tool_output = None, hc_is_error = False\<rparr>"

section \<open>The loop computes the verdict\<close>

lemma last_some_Nil [simp]: "last_some [] = None"
  by (simp add: last_some_def)

lemma last_some_snoc [simp]: "last_some (xs @ [x]) = (if x \<noteq> None then x else last_some xs)"
  by (simp add: last_some_def Let_def)

lemma verdict_Nil: "verdict [] = HookRunResult_allow []"
  by (simp add: verdict_def HookRunResult_allow_def)

lemma verdict_snoc:
  "verdict (os @ [HookAllow p]) = merge_parsed_hook_output p (verdict os)"
  "verdict (os @ [HookDeny p]) = (merge_parsed_hook_output p (verdict os))\<lparr>hr_denied := True\<rparr>"
  "verdict (os @ [HookFailed p]) = (merge_parsed_hook_output p (verdict os))\<lparr>hr_failed := True\<rparr>"
  "verdict (os @ [HookCancelled m]) =
     (verdict os)\<lparr>hr_cancelled := True, hr_messages := hr_messages (verdict os) @ [m]\<rparr>"
  by (simp_all add: verdict_def merge_parsed_hook_output_def ParsedHookOutput_default_def)

lemma run_loop_verdict:
  "fst (run_loop env call payload commands (verdict os) w) = verdict (os @ outcomes env call payload commands w)"
proof (induction commands arbitrary: os w)
  case Nil
  then show ?case by simp
next
  case (Cons c cs)
  obtain out w2 where r: "run_command env call payload c
      (notify env (Started (hc_event call) (hc_tool_name call) c) w) = (out, w2)" by fastforce
  show ?case
  proof (cases out)
    case (HookAllow p)
    with r Cons.IH [of "os @ [HookAllow p]"] show ?thesis by (simp add: verdict_snoc Let_def)
  qed (use r in \<open>simp_all add: verdict_snoc Let_def\<close>)
qed

lemma run_commands_verdict:
  assumes "case abort_signal env of Some aborted \<Rightarrow> \<not> aborted w | None \<Rightarrow> True"
  shows "fst (run_commands env commands call w) =
     verdict (outcomes env call (to_json_string env (hook_payload env call)) commands w)"
  using assms run_loop_verdict [of env call "to_json_string env (hook_payload env call)" commands "[]" w]
  by (auto simp: run_commands_def verdict_Nil split: option.splits)

text \<open>Only the last outcome of a run can be other than an approval.\<close>

lemma outcomes_butlast: "list_all is_HookAllow (butlast (outcomes env call payload commands w))"
proof (induction commands arbitrary: w)
  case (Cons c cs)
  obtain out w2 where r: "run_command env call payload c
      (notify env (Started (hc_event call) (hc_tool_name call) c) w) = (out, w2)" by fastforce
  then show ?case
    by (cases out) (simp_all add: Let_def Cons.IH)
qed simp

lemma not_allow_exclusive:
  "is_HookAllow o1 \<Longrightarrow> \<not> is_HookDeny o1 \<and> \<not> is_HookFailed o1 \<and> \<not> is_HookCancelled o1"
  by (cases o1) simp_all

lemma list_ex_last:
  assumes "list_all P (butlast xs)" and "\<And>x. P x \<Longrightarrow> \<not> Q x"
  shows "list_ex Q xs \<longleftrightarrow> xs \<noteq> [] \<and> Q (last xs)"
proof (cases xs rule: rev_cases)
  case (snoc ys y)
  with assms show ?thesis by (auto simp: list_all_iff list_ex_iff)
qed simp

lemma sample_outcomes:
  "outcomes sample_hook_env sample_call [] [lit ''audit'', lit ''guard'', lit ''late''] () =
     [HookAllow (ParsedHookOutput_default\<lparr>po_messages := [lit ''seen'']\<rparr>),
      HookDeny (ParsedHookOutput_default\<lparr>po_messages := [lit ''seen'']\<rparr>)]"
  by code_simp

text \<open>C14: a run of hooks stops at the first command that does not approve, and its result is the
  verdict over the outcomes up to there: denied, failed or cancelled according to the last
  outcome alone, all their messages in order, and for the override, its reason and the rewritten
  input the last value any of them gave.\<close>

theorem run_commands_stops_at_first_refusal:
  assumes "case abort_signal env of Some aborted \<Rightarrow> \<not> aborted w | None \<Rightarrow> True"
  shows "let os = outcomes env call (to_json_string env (hook_payload env call)) commands w;
             r = fst (run_commands env commands call w)
         in r = verdict os \<and> list_all is_HookAllow (butlast os)
            \<and> (hr_denied r \<longleftrightarrow> os \<noteq> [] \<and> is_HookDeny (last os))
            \<and> (hr_failed r \<longleftrightarrow> os \<noteq> [] \<and> is_HookFailed (last os))
            \<and> (hr_cancelled r \<longleftrightarrow> os \<noteq> [] \<and> is_HookCancelled (last os))"
proof -
  let ?os = "outcomes env call (to_json_string env (hook_payload env call)) commands w"
  have "list_ex Q ?os \<longleftrightarrow> ?os \<noteq> [] \<and> Q (last ?os)"
    if "Q = is_HookDeny \<or> Q = is_HookFailed \<or> Q = is_HookCancelled" for Q
    by (rule list_ex_last [OF outcomes_butlast]) (use that not_allow_exclusive in auto)
  then show ?thesis
    by (simp add: Let_def run_commands_verdict [OF assms] outcomes_butlast) (simp add: verdict_def)
qed

theorem run_commands_stops_at_first_refusal_witness:
  "hr_denied (fst (run_commands sample_hook_env [lit ''audit'', lit ''guard'', lit ''late''] sample_call ()))
   \<and> hr_messages (fst (run_commands sample_hook_env [lit ''audit'', lit ''guard'', lit ''late''] sample_call ()))
       = [lit ''seen'', lit ''seen'']"
proof -
  have a: "case abort_signal sample_hook_env of Some aborted \<Rightarrow> \<not> aborted () | None \<Rightarrow> True"
    and p: "to_json_string sample_hook_env (hook_payload sample_hook_env sample_call) = []"
    by (simp_all add: sample_hook_env_def)
  from run_commands_stops_at_first_refusal [OF a, of sample_call "[lit ''audit'', lit ''guard'', lit ''late'']"]
  show ?thesis
    unfolding Let_def p sample_outcomes
    by (auto simp: verdict_def ParsedHookOutput_default_def)
qed

section \<open>Messages\<close>

lemma parse_hook_output_messages:
  "po_messages (parse_hook_output env event tool command out err) = [] \<longleftrightarrow> out = []"
  by (simp add: parse_hook_output_def ParsedHookOutput_default_def Let_def split: sum.split Value.split)

lemma po_deny_needs_output:
  "po_deny (parse_hook_output env event tool command out err) \<Longrightarrow> out \<noteq> []"
  by (auto simp: parse_hook_output_def ParsedHookOutput_default_def)

lemma with_fallback_message_messages [simp]: "po_messages (with_fallback_message m p) \<noteq> []"
  by (simp add: with_fallback_message_def)

lemma command_outcome_messages:
  "\<not> is_HookAllow (command_outcome env call command res) \<Longrightarrow>
     po_messages (outcome_parsed (command_outcome env call command res)) \<noteq> []"
proof (cases res)
  case (Inr x)
  moreover assume "\<not> is_HookAllow (command_outcome env call command res)"
  ultimately show ?thesis
    by (cases x) (auto simp: command_outcome_def Let_def parse_hook_output_messages
        dest: po_deny_needs_output split: option.splits if_splits)
qed (simp add: command_outcome_def)

lemma outcomes_are_commands:
  "o1 \<in> set (outcomes env call payload commands w) \<Longrightarrow> \<exists>c res. o1 = command_outcome env call c res"
proof (induction commands arbitrary: w)
  case (Cons c cs)
  then show ?case
    by (auto simp: Let_def run_command_def split: prod.splits HookCommandOutcome.splits) metis+
qed simp

text \<open>A hook run that denies, fails or is cancelled always gives at least one message.\<close>

theorem blocked_hook_run_has_message:
  "fst (run_commands env commands call w) = r \<Longrightarrow> hr_denied r \<or> hr_failed r \<or> hr_cancelled r
     \<Longrightarrow> hr_messages r \<noteq> []"
proof -
  assume r: "fst (run_commands env commands call w) = r" and b: "hr_denied r \<or> hr_failed r \<or> hr_cancelled r"
  show "hr_messages r \<noteq> []"
  proof (cases "case abort_signal env of Some aborted \<Rightarrow> \<not> aborted w | None \<Rightarrow> True")
    case True
    let ?os = "outcomes env call (to_json_string env (hook_payload env call)) commands w"
    have v: "r = verdict ?os" using run_commands_verdict [OF True] r by metis
    with b obtain o1 where "o1 \<in> set ?os" "\<not> is_HookAllow o1"
      using not_allow_exclusive by (auto simp: verdict_def list_ex_iff)
    moreover from this have "po_messages (outcome_parsed o1) \<noteq> []"
      using outcomes_are_commands command_outcome_messages by metis
    ultimately show ?thesis unfolding v by (auto simp: verdict_def)
  next
    case False
    then show ?thesis using r b
      by (auto simp: run_commands_def HookRunResult_allow_def split: option.splits if_splits)
  qed
qed

theorem blocked_hook_run_has_message_witness:
  "hr_messages (fst (run_commands sample_hook_env [lit ''guard''] sample_call ())) \<noteq> []"
proof -
  have "hr_denied (fst (run_commands sample_hook_env [lit ''guard''] sample_call ()))" by code_simp
  then show ?thesis by (intro blocked_hook_run_has_message [OF refl] disjI1)
qed

end
