(* ===== verification/Conversation.thy ===== *)
theory Conversation
  imports Compact Hooks
begin

text \<open>
  The turn loop of \<^verbatim>\<open>runtime/src/conversation.rs\<close> with the errors of \<^verbatim>\<open>runtime/src/error.rs\<close>: one user
  message, then model calls and the tools they ask for until the model asks for none.
  The model client, the tool executor, the hook processes, the prompter, the cancel flags, the
  observer, the tracer and the session log all act on a world \<open>'e\<close>; they are the fields of
  \<open>conversation_env\<close>. The state of the runtime is its session, its usage tracker, the clock and that
  world. A panic is \<open>None\<close>. The async functions are sequential here: a turn awaits each call before
  it goes on. The lines of \<^verbatim>\<open>tracing\<close> are left out.
\<close>

section \<open>Definitions\<close>

subsection \<open>Errors\<close>

record ApiFailure =
  af_class :: ustr
  af_retryable :: bool
  af_provider :: "ustr option"
  af_status :: "u16 option"
  af_request_id :: "ustr option"
  af_message :: ustr

datatype RuntimeError =
    ApiFailureError ApiFailure
  | ToolFailure ustr ustr
  | SessionState ustr
  | MaxIterations
  | Cancelled
  | StreamInvalid ustr
  | Internal ustr ustr
  | Other ustr

definition RuntimeError_display :: "RuntimeError \<Rightarrow> ustr" where
  "RuntimeError_display e =
     (case e of
        ApiFailureError api \<Rightarrow> af_message api
      | ToolFailure tool m \<Rightarrow> lit ''tool '' @ [39] @ tool @ [39] @ lit '' failed: '' @ m
      | SessionState m \<Rightarrow> m
      | StreamInvalid m \<Rightarrow> m
      | Other m \<Rightarrow> m
      | MaxIterations \<Rightarrow> lit ''conversation loop exceeded the maximum number of iterations''
      | Cancelled \<Rightarrow> lit ''turn cancelled''
      | Internal src m \<Rightarrow> lit ''internal runtime error ('' @ src @ lit ''): '' @ m)"

subsection \<open>Data\<close>

record ApiRequest =
  ar_system_prompt :: "ustr list"
  ar_messages :: "ConversationMessage list"

record PromptCacheEvent =
  pc_unexpected :: bool
  pc_reason :: ustr
  pc_previous_cache_read_input_tokens :: u32
  pc_current_cache_read_input_tokens :: u32
  pc_token_drop :: u32

datatype AssistantEvent =
    EvThinking ustr "ustr option"
  | EvTextDelta ustr
  | EvToolUse ustr ustr ustr
  | EvUsage TokenUsage
  | EvPromptCache PromptCacheEvent
  | EvMessageStop

record TurnSummary =
  assistant_messages :: "ConversationMessage list"
  tool_results :: "ConversationMessage list"
  prompt_cache_events :: "PromptCacheEvent list"
  iterations :: nat
  ts_usage :: TokenUsage
  auto_compaction :: "nat option"

record 'e conversation_env =
  system_prompt :: "ustr list"
  max_iterations :: nat
  permission_policy :: PermissionPolicy
  hook_config :: RuntimeHookConfig
  auto_compaction_input_tokens_threshold :: u32
  hooks :: "'e hook_env"
  stream :: "ApiRequest \<Rightarrow> 'e \<Rightarrow> (RuntimeError + AssistantEvent list) \<times> 'e"
  execute :: "ustr \<Rightarrow> ustr \<Rightarrow> 'e \<Rightarrow> (ustr + ustr) \<times> 'e"
  prompter :: "'e prompter option"
  cancel_signal :: "('e \<Rightarrow> bool) option"
  cancel_token :: "('e \<Rightarrow> bool) option"
  client_model :: "'e \<Rightarrow> ustr"
  client_provider :: "'e \<Rightarrow> ustr"
  turn_observer :: "(ApiRequest \<Rightarrow> ustr \<Rightarrow> ustr \<Rightarrow> ustr \<Rightarrow> nat \<Rightarrow> 'e \<Rightarrow> 'e) option"
  session_tracer :: "(ustr \<Rightarrow> (ustr, Value) btree \<Rightarrow> 'e \<Rightarrow> 'e) option"
  append_persisted_message :: "Session \<Rightarrow> ConversationMessage \<Rightarrow> 'e \<Rightarrow> (SessionError + unit) \<times> 'e"

record 'e runtime =
  rt_session :: Session
  usage_tracker :: UsageTracker
  rt_clock :: clock
  world :: 'e

definition ConversationRuntime_new :: "Session \<Rightarrow> clock \<Rightarrow> 'e \<Rightarrow> 'e runtime" where
  "ConversationRuntime_new s clk w =
     \<lparr>rt_session = s, usage_tracker = UsageTracker_from_session s, rt_clock = clk, world = w\<rparr>"

subsection \<open>Compaction threshold\<close>

definition DEFAULT_AUTO_COMPACTION_INPUT_TOKENS_THRESHOLD :: u32 where
  "DEFAULT_AUTO_COMPACTION_INPUT_TOKENS_THRESHOLD = 100000"

definition parse_auto_compaction_threshold :: "ustr option \<Rightarrow> u32" where
  "parse_auto_compaction_threshold v =
     (case Option.bind v (\<lambda>raw. parse_u32 (trim raw)) of
        Some t \<Rightarrow> (if 0 < t then t else DEFAULT_AUTO_COMPACTION_INPUT_TOKENS_THRESHOLD)
      | None \<Rightarrow> DEFAULT_AUTO_COMPACTION_INPUT_TOKENS_THRESHOLD)"

subsection \<open>From the event stream to a message\<close>

definition flush_text_block :: "ustr \<Rightarrow> ContentBlock list \<Rightarrow> ContentBlock list" where
  "flush_text_block t bs = (if t \<noteq> [] then bs @ [Text t] else bs)"

record assembly =
  as_text :: ustr
  as_blocks :: "ContentBlock list"
  as_cache_events :: "PromptCacheEvent list"
  as_finished :: bool
  as_usage :: "TokenUsage option"

definition assembly_init :: assembly where
  "assembly_init = \<lparr>as_text = [], as_blocks = [], as_cache_events = [], as_finished = False, as_usage = None\<rparr>"

definition assembly_step :: "AssistantEvent \<Rightarrow> assembly \<Rightarrow> assembly" where
  "assembly_step event a =
     (case event of
        EvThinking th sig \<Rightarrow>
          a\<lparr>as_text := [], as_blocks := flush_text_block (as_text a) (as_blocks a) @ [Thinking th sig]\<rparr>
      | EvTextDelta d \<Rightarrow> a\<lparr>as_text := as_text a @ d\<rparr>
      | EvToolUse i name inp \<Rightarrow>
          a\<lparr>as_text := [], as_blocks := flush_text_block (as_text a) (as_blocks a) @ [ToolUse i name inp]\<rparr>
      | EvUsage u \<Rightarrow> a\<lparr>as_usage := Some u\<rparr>
      | EvPromptCache e \<Rightarrow> a\<lparr>as_cache_events := as_cache_events a @ [e]\<rparr>
      | EvMessageStop \<Rightarrow> a\<lparr>as_finished := True\<rparr>)"

definition build_assistant_message ::
  "AssistantEvent list \<Rightarrow> RuntimeError + (ConversationMessage \<times> TokenUsage option \<times> PromptCacheEvent list)" where
  "build_assistant_message events =
     (let a = fold assembly_step events assembly_init;
          bs = flush_text_block (as_text a) (as_blocks a)
      in if \<not> as_finished a
         then Inl (StreamInvalid (lit ''assistant stream ended without a message stop event''))
         else if bs = [] then Inl (StreamInvalid (lit ''assistant stream produced no content''))
         else Inr (ConversationMessage_assistant_with_usage bs (as_usage a), as_usage a, as_cache_events a))"

subsection \<open>Feedback of hooks\<close>

definition format_hook_message :: "HookRunResult \<Rightarrow> ustr \<Rightarrow> ustr" where
  "format_hook_message r fallback = (if hr_messages r = [] then fallback else join [10] (hr_messages r))"

definition merge_hook_feedback :: "ustr list \<Rightarrow> ustr \<Rightarrow> bool \<Rightarrow> ustr" where
  "merge_hook_feedback msgs out is_error =
     (if msgs = [] then out
      else join [10, 10]
        ((if trim out \<noteq> [] then [out] else [])
         @ [(if is_error then lit ''Hook feedback (error)'' else lit ''Hook feedback'') @ lit '':'' @ [10]
            @ join [10] msgs]))"

subsection \<open>Tracing\<close>

definition trace :: "'e conversation_env \<Rightarrow> string \<Rightarrow> (ustr \<times> Value) list \<Rightarrow> 'e runtime \<Rightarrow> 'e runtime" where
  "trace env name attributes st =
     (case session_tracer env of
        Some record \<Rightarrow> st\<lparr>world := record (lit name) (btree_of attributes) (world st)\<rparr>
      | None \<Rightarrow> st)"

definition value_from_usize :: "nat \<Rightarrow> Value" where
  "value_from_usize n = Number (show_nat n)"

definition record_turn_started :: "'e conversation_env \<Rightarrow> ustr \<Rightarrow> 'e runtime \<Rightarrow> 'e runtime" where
  "record_turn_started env user_input =
     trace env ''turn_started'' [(lit ''user_input'', String user_input)]"

definition record_assistant_iteration ::
  "'e conversation_env \<Rightarrow> nat \<Rightarrow> ConversationMessage \<Rightarrow> nat \<Rightarrow> 'e runtime \<Rightarrow> 'e runtime" where
  "record_assistant_iteration env iteration msg pending =
     trace env ''assistant_iteration_completed''
       [(lit ''iteration'', value_from_usize iteration),
        (lit ''assistant_blocks'', value_from_usize (length (blocks msg))),
        (lit ''pending_tool_use_count'', value_from_usize pending)]"

definition record_tool_started :: "'e conversation_env \<Rightarrow> nat \<Rightarrow> ustr \<Rightarrow> 'e runtime \<Rightarrow> 'e runtime" where
  "record_tool_started env iteration tool_name =
     trace env ''tool_execution_started''
       [(lit ''iteration'', value_from_usize iteration), (lit ''tool_name'', String tool_name)]"

definition record_tool_finished ::
  "'e conversation_env \<Rightarrow> nat \<Rightarrow> ConversationMessage \<Rightarrow> 'e runtime \<Rightarrow> 'e runtime" where
  "record_tool_finished env iteration msg =
     (case blocks msg of
        ToolResult i tool_name out is_error # _ \<Rightarrow>
          trace env ''tool_execution_finished''
            [(lit ''iteration'', value_from_usize iteration), (lit ''tool_name'', String tool_name),
             (lit ''is_error'', Bool is_error)]
      | _ \<Rightarrow> (\<lambda>st. st))"

definition record_turn_completed :: "'e conversation_env \<Rightarrow> TurnSummary \<Rightarrow> 'e runtime \<Rightarrow> 'e runtime" where
  "record_turn_completed env summ =
     trace env ''turn_completed''
       [(lit ''iterations'', value_from_usize (iterations summ)),
        (lit ''assistant_messages'', value_from_usize (length (assistant_messages summ))),
        (lit ''tool_results'', value_from_usize (length (tool_results summ))),
        (lit ''prompt_cache_events'', value_from_usize (length (prompt_cache_events summ)))]"

definition record_turn_failed :: "'e conversation_env \<Rightarrow> nat \<Rightarrow> RuntimeError \<Rightarrow> 'e runtime \<Rightarrow> 'e runtime" where
  "record_turn_failed env iteration e =
     trace env ''turn_failed''
       [(lit ''iteration'', value_from_usize iteration), (lit ''error'', String (RuntimeError_display e))]"

subsection \<open>One tool call\<close>

definition push :: "'e conversation_env \<Rightarrow> ConversationMessage \<Rightarrow> 'e runtime \<Rightarrow> (RuntimeError + unit) \<times> 'e runtime" where
  "push env msg st =
     (let (r, s, clk, w) = push_message (append_persisted_message env) msg (rt_session st) (rt_clock st) (world st);
          st' = st\<lparr>rt_session := s, rt_clock := clk, world := w\<rparr>
      in case r of Inl e \<Rightarrow> (Inl (SessionState (SessionError_display e)), st') | Inr _ \<Rightarrow> (Inr (), st'))"

definition hook_refused :: "HookRunResult \<Rightarrow> bool" where
  "hook_refused r \<longleftrightarrow> hr_denied r \<or> hr_failed r \<or> hr_cancelled r"

definition decide_permission ::
  "'e conversation_env \<Rightarrow> HookRunResult \<Rightarrow> ustr \<Rightarrow> ustr \<Rightarrow> 'e \<Rightarrow> PermissionOutcome \<times> 'e" where
  "decide_permission env pre tool_name effective_input w =
     (let refuse = (\<lambda>how. (OutcomeDeny (format_hook_message pre
                       (lit ''PreToolUse hook '' @ lit how @ lit '' tool `'' @ tool_name @ lit ''`'')), w))
      in if hr_cancelled pre then refuse ''cancelled''
         else if hr_failed pre then refuse ''failed for''
         else if hr_denied pre then refuse ''denied''
         else authorize_with_context (from_str (hooks env)) (permission_policy env) tool_name effective_input
                \<lparr>override_decision = hr_permission_override pre, override_reason = hr_permission_reason pre\<rparr>
                (prompter env) w)"

text \<open>The body of the loop over \<^verbatim>\<open>pending_tool_uses\<close> up to the message it produces.\<close>

definition run_tool ::
  "'e conversation_env \<Rightarrow> nat \<Rightarrow> ustr \<times> ustr \<times> ustr \<Rightarrow> 'e runtime \<Rightarrow> ConversationMessage \<times> 'e runtime" where
  "run_tool env iteration call st =
     (let (tool_use_id, tool_name, inp) = call;
          (pre, w1) = run_pre_tool_use (hooks env) (hook_config env) tool_name inp (world st);
          effective_input = (case hr_updated_input pre of Some i \<Rightarrow> i | None \<Rightarrow> inp);
          (outcome, w2) = decide_permission env pre tool_name effective_input w1;
          st2 = st\<lparr>world := w2\<rparr>
      in case outcome of
           OutcomeAllow \<Rightarrow>
             let st3 = record_tool_started env iteration tool_name st2;
                 (res, w4) = execute env tool_name effective_input (world st3);
                 (out, is_error) = (case res of Inr o1 \<Rightarrow> (o1, False) | Inl e \<Rightarrow> (e, True));
                 out1 = merge_hook_feedback (hr_messages pre) out False;
                 (post, w5) =
                   (if is_error
                    then run_post_tool_use_failure (hooks env) (hook_config env) tool_name effective_input out1 w4
                    else run_post_tool_use (hooks env) (hook_config env) tool_name effective_input out1 False w4);
                 is_error1 = (is_error \<or> hook_refused post);
                 out2 = merge_hook_feedback (hr_messages post) out1 (hook_refused post)
             in (ConversationMessage_tool_result tool_use_id tool_name out2 is_error1, st3\<lparr>world := w5\<rparr>)
         | OutcomeDeny reason \<Rightarrow>
             (ConversationMessage_tool_result tool_use_id tool_name
                (merge_hook_feedback (hr_messages pre) reason True) True, st2))"

fun run_tools ::
  "'e conversation_env \<Rightarrow> nat \<Rightarrow> (ustr \<times> ustr \<times> ustr) list \<Rightarrow> ConversationMessage list \<Rightarrow> 'e runtime
   \<Rightarrow> (RuntimeError + ConversationMessage list) \<times> 'e runtime" where
  "run_tools env iteration [] results st = (Inr results, st)"
| "run_tools env iteration (call # calls) results st =
     (let (msg, st1) = run_tool env iteration call st
      in case push env msg st1 of
           (Inl e, st2) \<Rightarrow> (Inl e, st2)
         | (Inr _, st2) \<Rightarrow>
             run_tools env iteration calls (results @ [msg]) (record_tool_finished env iteration msg st2))"

subsection \<open>The loop\<close>

record turn_acc =
  acc_assistant :: "ConversationMessage list"
  acc_results :: "ConversationMessage list"
  acc_cache :: "PromptCacheEvent list"

definition pending_tool_uses :: "ConversationMessage \<Rightarrow> (ustr \<times> ustr \<times> ustr) list" where
  "pending_tool_uses m =
     List.map_filter (\<lambda>b. case b of ToolUse i name inp \<Rightarrow> Some (i, name, inp) | _ \<Rightarrow> None) (blocks m)"

definition is_set :: "('e \<Rightarrow> bool) option \<Rightarrow> 'e \<Rightarrow> bool" where
  "is_set flag w = (case flag of Some f \<Rightarrow> f w | None \<Rightarrow> False)"

text \<open>One pass of the loop after the check of the iteration count. The Boolean says whether the
  loop ends.\<close>

definition turn_iteration ::
  "'e conversation_env \<Rightarrow> nat \<Rightarrow> turn_acc \<Rightarrow> 'e runtime \<Rightarrow> (RuntimeError + (turn_acc \<times> bool)) \<times> 'e runtime" where
  "turn_iteration env iteration acc st =
     (if is_set (cancel_signal env) (world st) \<or> is_set (cancel_token env) (world st)
      then (Inl Cancelled, record_turn_failed env iteration Cancelled st)
      else
        let request = \<lparr>ar_system_prompt = system_prompt env, ar_messages = messages (rt_session st)\<rparr>;
            w1 = (case turn_observer env of
                    Some before_stream \<Rightarrow>
                      before_stream request (client_model env (world st)) (client_provider env (world st))
                        (session_id (rt_session st)) iteration (world st)
                  | None \<Rightarrow> world st);
            (events, w2) = stream env request w1;
            st2 = st\<lparr>world := w2\<rparr>
        in case rbind events build_assistant_message of
             Inl e \<Rightarrow> (Inl e, record_turn_failed env iteration e st2)
           | Inr (msg, u, cache) \<Rightarrow>
               let st3 = (case u of Some v \<Rightarrow> st2\<lparr>usage_tracker := UsageTracker_record v (usage_tracker st2)\<rparr>
                          | None \<Rightarrow> st2);
                   calls = pending_tool_uses msg;
                   st4 = record_assistant_iteration env iteration msg (length calls) st3
               in (case push env msg st4 of
                     (Inl e, st5) \<Rightarrow> (Inl e, st5)
                   | (Inr _, st5) \<Rightarrow>
                       let acc1 = acc\<lparr>acc_cache := acc_cache acc @ cache,
                                      acc_assistant := acc_assistant acc @ [msg]\<rparr>
                       in if calls = [] then (Inr (acc1, True), st5)
                          else (case run_tools env iteration calls (acc_results acc1) st5 of
                                  (Inl e, st6) \<Rightarrow> (Inl e, st6)
                                | (Inr results, st6) \<Rightarrow> (Inr (acc1\<lparr>acc_results := results\<rparr>, False), st6))))"

function turn_loop ::
  "'e conversation_env \<Rightarrow> nat \<Rightarrow> turn_acc \<Rightarrow> 'e runtime \<Rightarrow> (RuntimeError + (turn_acc \<times> nat)) \<times> 'e runtime" where
  "turn_loop env iteration acc st =
     (if max_iterations env < iteration
      then (Inl MaxIterations, record_turn_failed env iteration MaxIterations st)
      else case turn_iteration env iteration acc st of
             (Inl e, st') \<Rightarrow> (Inl e, st')
           | (Inr (acc', fin), st') \<Rightarrow>
               if fin then (Inr (acc', iteration), st') else turn_loop env (iteration + 1) acc' st')"
  by pat_completeness auto

termination turn_loop
  by (relation "measure (\<lambda>(env, iteration, _). Suc (max_iterations env) - iteration)") auto

declare turn_loop.simps [simp del]

definition maybe_auto_compact ::
  "'e conversation_env \<Rightarrow> 'e runtime \<Rightarrow> (nat option \<times> 'e runtime) option" where
  "maybe_auto_compact env st =
     (if input_tokens (cumulative_usage (usage_tracker st)) < auto_compaction_input_tokens_threshold env
      then Some (None, st)
      else map_option
        (\<lambda>(result, clk).
           if cr_removed_message_count result = 0 then (None, st\<lparr>rt_clock := clk\<rparr>)
           else (Some (cr_removed_message_count result),
                 st\<lparr>rt_session := compacted_session result, rt_clock := clk\<rparr>))
        (compact_session (rt_session st) (CompactionConfig_default\<lparr>max_estimated_tokens := 0\<rparr>) (rt_clock st)))"

definition probe_input :: ustr where
  "probe_input = lit ''{'' @ [34] @ lit ''pattern'' @ [34] @ lit '': '' @ [34] @ lit ''*.health-check-probe-'' @ [34] @ lit ''}''"

definition run_session_health_probe ::
  "'e conversation_env \<Rightarrow> 'e runtime \<Rightarrow> (ustr + unit) \<times> 'e runtime" where
  "run_session_health_probe env st =
     (if messages (rt_session st) = [] \<and> compaction (rt_session st) \<noteq> None then (Inr (), st)
      else case execute env (lit ''glob_search'') probe_input (world st) of
             (Inr _, w) \<Rightarrow> (Inr (), st\<lparr>world := w\<rparr>)
           | (Inl e, w) \<Rightarrow> (Inl (lit ''Tool executor probe failed: '' @ e), st\<lparr>world := w\<rparr>))"

definition run_turn ::
  "'e conversation_env \<Rightarrow> ustr \<Rightarrow> 'e runtime \<Rightarrow> ((RuntimeError + TurnSummary) \<times> 'e runtime) option" where
  "run_turn env user_input st =
     (let (probe, st0) = (if compaction (rt_session st) \<noteq> None then run_session_health_probe env st
                          else (Inr (), st))
      in case probe of
           Inl e \<Rightarrow>
             Some (Inl (SessionState (lit ''Session health probe failed after compaction: '' @ e
               @ lit ''. The session may be in an inconsistent state. ''
               @ lit ''Consider starting a fresh session with /session new.'')), st0)
         | Inr _ \<Rightarrow>
             let st1 = record_turn_started env user_input st0
             in (case push env (ConversationMessage_user_text user_input) st1 of
                   (Inl e, st2) \<Rightarrow> Some (Inl e, st2)
                 | (Inr _, st2) \<Rightarrow>
                     (case turn_loop env 1 \<lparr>acc_assistant = [], acc_results = [], acc_cache = []\<rparr> st2 of
                        (Inl e, st3) \<Rightarrow> Some (Inl e, st3)
                      | (Inr (acc, n), st3) \<Rightarrow>
                          map_option (\<lambda>(compacted, st4).
                            let summ = \<lparr>assistant_messages = acc_assistant acc, tool_results = acc_results acc,
                                        prompt_cache_events = acc_cache acc, iterations = n,
                                        ts_usage = cumulative_usage (usage_tracker st4),
                                        auto_compaction = compacted\<rparr>
                            in (Inr summ, record_turn_completed env summ st4))
                          (maybe_auto_compact env st3))))"

subsection \<open>The in-memory tool executor\<close>

type_synonym 'h handlers = "(ustr, ustr \<Rightarrow> 'h \<Rightarrow> (ustr + ustr) \<times> 'h) btree"

definition StaticToolExecutor_register ::
  "ustr \<Rightarrow> (ustr \<Rightarrow> 'h \<Rightarrow> (ustr + ustr) \<times> 'h) \<Rightarrow> 'h handlers \<Rightarrow> 'h handlers" where
  "StaticToolExecutor_register tool_name handler hs = btree_insert tool_name handler hs"

definition StaticToolExecutor_execute ::
  "'h handlers \<Rightarrow> ustr \<Rightarrow> ustr \<Rightarrow> 'h \<Rightarrow> (ustr + ustr) \<times> 'h" where
  "StaticToolExecutor_execute hs tool_name inp h =
     (case btree_get hs tool_name of
        Some handler \<Rightarrow> handler inp h
      | None \<Rightarrow> (Inl (lit ''unknown tool: '' @ tool_name), h))"

subsection \<open>Specification\<close>

text \<open>The message that answers a tool use.\<close>

definition answers :: "ustr \<Rightarrow> ConversationMessage \<Rightarrow> bool" where
  "answers i m \<longleftrightarrow> role m = Tool \<and> usage m = None \<and>
     (case blocks m of [ToolResult j _ _ _] \<Rightarrow> j = i | _ \<Rightarrow> False)"

text \<open>A round: a reply of the model and the answers to its tool uses, all of them or the first few.\<close>

definition partial_round :: "ConversationMessage \<times> ConversationMessage list \<Rightarrow> bool" where
  "partial_round = (\<lambda>(a, rs). role a = Assistant \<and> tool_result_ids a = [] \<and> blocks a \<noteq> []
     \<and> list_all2 answers (take (length rs) (tool_use_ids a)) rs)"

definition complete_round :: "ConversationMessage \<times> ConversationMessage list \<Rightarrow> bool" where
  "complete_round = (\<lambda>(a, rs). role a = Assistant \<and> tool_result_ids a = [] \<and> blocks a \<noteq> []
     \<and> list_all2 answers (tool_use_ids a) rs)"

definition round_messages :: "(ConversationMessage \<times> ConversationMessage list) list \<Rightarrow> ConversationMessage list" where
  "round_messages rounds = concat (map (\<lambda>(a, rs). a # rs) rounds)"

definition record_message_usage :: "ConversationMessage \<Rightarrow> UsageTracker \<Rightarrow> UsageTracker" where
  "record_message_usage m t = (case usage m of None \<Rightarrow> t | Some u \<Rightarrow> UsageTracker_record u t)"

fun open_after :: "ustr list \<Rightarrow> ConversationMessage list \<Rightarrow> ustr list" where
  "open_after ids [] = ids"
| "open_after ids (m # ms) = open_after (if tool_result_ids m = [] then tool_use_ids m else ids) ms"

definition assembly_ok :: "assembly \<Rightarrow> bool" where
  "assembly_ok a \<longleftrightarrow> list_all (\<lambda>b. \<not> is_tool_result b) (as_blocks a)"

text \<open>What an iteration does once the model's reply is there.\<close>

definition finish_round ::
  "'e conversation_env \<Rightarrow> nat \<Rightarrow> turn_acc \<Rightarrow> ConversationMessage \<Rightarrow> PromptCacheEvent list \<Rightarrow>
   (RuntimeError + unit) \<times> 'e runtime \<Rightarrow> (RuntimeError + (turn_acc \<times> bool)) \<times> 'e runtime" where
  "finish_round env n acc m cache pushed =
     (case pushed of
        (Inl e, st5) \<Rightarrow> (Inl e, st5)
      | (Inr _, st5) \<Rightarrow>
          let acc1 = acc\<lparr>acc_cache := acc_cache acc @ cache, acc_assistant := acc_assistant acc @ [m]\<rparr>
          in if pending_tool_uses m = [] then (Inr (acc1, True), st5)
             else (case run_tools env n (pending_tool_uses m) (acc_results acc1) st5 of
                     (Inl e, st6) \<Rightarrow> (Inl e, st6)
                   | (Inr results, st6) \<Rightarrow> (Inr (acc1\<lparr>acc_results := results\<rparr>, False), st6)))"

text \<open>The rounds an iteration adds to a transcript.\<close>

definition adds_rounds ::
  "'e runtime \<Rightarrow> turn_acc \<Rightarrow> (ConversationMessage \<times> ConversationMessage list) list \<Rightarrow> 'e runtime \<Rightarrow> bool" where
  "adds_rounds st acc rounds st' \<longleftrightarrow>
     messages (rt_session st') = messages (rt_session st) @ round_messages rounds
     \<and> compaction (rt_session st') = compaction (rt_session st) \<and> list_all partial_round rounds"

definition ends_round ::
  "'e runtime \<Rightarrow> turn_acc \<Rightarrow> (ConversationMessage \<times> ConversationMessage list) list \<Rightarrow> 'e runtime \<Rightarrow>
   turn_acc \<Rightarrow> bool \<Rightarrow> bool" where
  "ends_round st acc rounds st' acc' fin \<longleftrightarrow> (\<exists>a rs. rounds = [(a, rs)]
     \<and> complete_round (a, rs) \<and> (fin \<longleftrightarrow> tool_use_ids a = [])
     \<and> acc_assistant acc' = acc_assistant acc @ [a] \<and> acc_results acc' = acc_results acc @ rs
     \<and> usage_tracker st' = record_message_usage a (usage_tracker st))"

text \<open>The rounds of a whole turn: every round but the last asks for tools, all are answered.\<close>

definition turn_rounds ::
  "'e runtime \<Rightarrow> turn_acc \<Rightarrow> (ConversationMessage \<times> ConversationMessage list) list \<Rightarrow> 'e runtime \<Rightarrow> turn_acc \<Rightarrow> bool" where
  "turn_rounds st acc rounds st' acc' \<longleftrightarrow>
     rounds \<noteq> [] \<and> list_all complete_round rounds
     \<and> tool_use_ids (fst (last rounds)) = [] \<and> list_all (\<lambda>(a, rs). tool_use_ids a \<noteq> []) (butlast rounds)
     \<and> acc_assistant acc' = acc_assistant acc @ map fst rounds
     \<and> acc_results acc' = acc_results acc @ concat (map snd rounds)
     \<and> usage_tracker st' = fold record_message_usage (map fst rounds) (usage_tracker st)"

text \<open>The start of a turn: probe, trace and the user's message.\<close>

definition turn_start :: "'e conversation_env \<Rightarrow> ustr \<Rightarrow> 'e runtime \<Rightarrow> (RuntimeError + unit) \<times> 'e runtime" where
  "turn_start env user_input st =
     (case (if compaction (rt_session st) \<noteq> None then run_session_health_probe env st else (Inr (), st)) of
        (Inl e, st0) \<Rightarrow>
          (Inl (SessionState (lit ''Session health probe failed after compaction: '' @ e
               @ lit ''. The session may be in an inconsistent state. ''
               @ lit ''Consider starting a fresh session with /session new.'')), st0)
      | (Inr _, st0) \<Rightarrow> push env (ConversationMessage_user_text user_input) (record_turn_started env user_input st0))"

definition turn_end :: "'e conversation_env \<Rightarrow> turn_acc \<Rightarrow> nat \<Rightarrow> nat option \<Rightarrow> 'e runtime \<Rightarrow> TurnSummary" where
  "turn_end env acc n compacted st =
     \<lparr>assistant_messages = acc_assistant acc, tool_results = acc_results acc,
      prompt_cache_events = acc_cache acc, iterations = n,
      ts_usage = cumulative_usage (usage_tracker st), auto_compaction = compacted\<rparr>"

definition acc_init :: turn_acc where
  "acc_init = \<lparr>acc_assistant = [], acc_results = [], acc_cache = []\<rparr>"

subsection \<open>Logging the tools that run\<close>

definition lift_fst :: "('e \<Rightarrow> 'r \<times> 'e) \<Rightarrow> 'e \<times> 'l \<Rightarrow> 'r \<times> ('e \<times> 'l)" where
  "lift_fst f w = (let (r, e) = f (fst w) in (r, (e, snd w)))"

definition lift_unit :: "('e \<Rightarrow> 'e) \<Rightarrow> 'e \<times> 'l \<Rightarrow> 'e \<times> 'l" where
  "lift_unit f w = (f (fst w), snd w)"

definition logged_hooks :: "'e hook_env \<Rightarrow> ('e \<times> 'l) hook_env" where
  "logged_hooks h =
     \<lparr>from_str = from_str h, to_json_string = to_json_string h,
      output_with_stdin = (\<lambda>c call payload. lift_fst (output_with_stdin h c call payload)),
      abort_signal = map_option (\<lambda>f w. f (fst w)) (abort_signal h),
      reporter = map_option (\<lambda>f ev. lift_unit (f ev)) (reporter h)\<rparr>"

definition logged :: "'e conversation_env \<Rightarrow> ('e \<times> (ustr \<times> ustr) list) conversation_env" where
  "logged env =
     \<lparr>system_prompt = system_prompt env, max_iterations = max_iterations env,
      permission_policy = permission_policy env, hook_config = hook_config env,
      auto_compaction_input_tokens_threshold = auto_compaction_input_tokens_threshold env,
      hooks = logged_hooks (hooks env),
      stream = (\<lambda>req. lift_fst (stream env req)),
      execute = (\<lambda>name inp w. let (r, e) = execute env name inp (fst w) in (r, (e, snd w @ [(name, inp)]))),
      prompter = map_option (\<lambda>d req. lift_fst (d req)) (prompter env),
      cancel_signal = map_option (\<lambda>f w. f (fst w)) (cancel_signal env),
      cancel_token = map_option (\<lambda>f w. f (fst w)) (cancel_token env),
      client_model = (\<lambda>w. client_model env (fst w)), client_provider = (\<lambda>w. client_provider env (fst w)),
      turn_observer = map_option (\<lambda>f req m p sid n. lift_unit (f req m p sid n)) (turn_observer env),
      session_tracer = map_option (\<lambda>f name kvs. lift_unit (f name kvs)) (session_tracer env),
      append_persisted_message = (\<lambda>s m. lift_fst (append_persisted_message env s m))\<rparr>"

text \<open>Counting the calls of the model.\<close>

definition counted :: "'e conversation_env \<Rightarrow> ('e \<times> nat) conversation_env" where
  "counted env =
     \<lparr>system_prompt = system_prompt env, max_iterations = max_iterations env,
      permission_policy = permission_policy env, hook_config = hook_config env,
      auto_compaction_input_tokens_threshold = auto_compaction_input_tokens_threshold env,
      hooks = logged_hooks (hooks env),
      stream = (\<lambda>req w. let (r, e) = stream env req (fst w) in (r, (e, Suc (snd w)))),
      execute = (\<lambda>name inp. lift_fst (execute env name inp)),
      prompter = map_option (\<lambda>d req. lift_fst (d req)) (prompter env),
      cancel_signal = map_option (\<lambda>f w. f (fst w)) (cancel_signal env),
      cancel_token = map_option (\<lambda>f w. f (fst w)) (cancel_token env),
      client_model = (\<lambda>w. client_model env (fst w)), client_provider = (\<lambda>w. client_provider env (fst w)),
      turn_observer = map_option (\<lambda>f req m p sid n. lift_unit (f req m p sid n)) (turn_observer env),
      session_tracer = map_option (\<lambda>f name kvs. lift_unit (f name kvs)) (session_tracer env),
      append_persisted_message = (\<lambda>s m. lift_fst (append_persisted_message env s m))\<rparr>"

definition authorised :: "'e conversation_env \<Rightarrow> ustr \<Rightarrow> ustr \<Rightarrow> bool" where
  "authorised env name inp \<longleftrightarrow> (name, inp) = (lit ''glob_search'', probe_input) \<or>
     (\<exists>ctx w. fst (authorize_with_context (from_str (hooks env)) (permission_policy env) name inp ctx
        (prompter env) w) = OutcomeAllow)"

subsection \<open>A sample\<close>

text \<open>A model that asks for one tool and then answers, with hooks that do nothing.\<close>

definition sample_hooks :: "unit hook_env" where
  "sample_hooks =
     \<lparr>from_str = (\<lambda>_. Inl []), to_json_string = (\<lambda>_. []),
      output_with_stdin = (\<lambda>_ _ _ w. (Inr ExecCancelled, w)), abort_signal = None, reporter = None\<rparr>"

definition sample_env :: "unit conversation_env" where
  "sample_env =
     \<lparr>system_prompt = [], max_iterations = 5, permission_policy = PermissionPolicy_new DangerFullAccess,
      hook_config = \<lparr>pre_tool_use = [], post_tool_use = [], post_tool_use_failure = []\<rparr>,
      auto_compaction_input_tokens_threshold = 100000, hooks = sample_hooks,
      stream = (\<lambda>req w. (Inr
        (if role (last (ar_messages req)) = Tool then [EvTextDelta (lit ''done''), EvMessageStop]
         else [EvToolUse (lit ''t1'') (lit ''ls'') [], EvMessageStop]), w)),
      execute = (\<lambda>_ _ w. (Inr (lit ''a.txt''), w)),
      prompter = None, cancel_signal = None, cancel_token = None,
      client_model = (\<lambda>_. []), client_provider = (\<lambda>_. []), turn_observer = None, session_tracer = None,
      append_persisted_message = (\<lambda>_ _ w. (Inr (), w))\<rparr>"

definition sample_runtime :: "(unit \<times> (ustr \<times> ustr) list) runtime" where
  "sample_runtime = ConversationRuntime_new (sample_session\<lparr>messages := [], compaction := None\<rparr>) sample_clock ((), [])"

section \<open>Rounds\<close>

lemma paired_append: "paired ids (xs @ ys) \<longleftrightarrow> paired ids xs \<and> paired (open_after ids xs) ys"
  by (induction xs arbitrary: ids) auto

lemma answers_ids:
  "answers i m \<Longrightarrow> tool_result_ids m = [i] \<and> tool_use_ids m = [] \<and> starts_with_tool_result m"
  by (auto simp: answers_def tool_result_ids_def tool_use_ids_def starts_with_tool_result_def
      List.map_filter_simps split: list.splits ContentBlock.splits)

lemma paired_answers:
  "list_all2 answers is rs \<Longrightarrow> set is \<subseteq> set ids \<Longrightarrow> paired ids rs"
proof (induction "is" rs rule: list_all2_induct)
  case (Cons i "is" m rs)
  then show ?case using answers_ids [of i m] by auto
qed simp

lemma paired_round:
  "partial_round (a, rs) \<Longrightarrow> paired ids (a # rs)"
  using paired_answers [of "take (length rs) (tool_use_ids a)" rs "tool_use_ids a"]
  by (auto simp: partial_round_def dest: in_set_takeD)

lemma paired_rounds: "list_all partial_round rounds \<Longrightarrow> paired ids (round_messages rounds)"
proof (induction rounds arbitrary: ids)
  case (Cons r rounds)
  obtain a rs where r: "r = (a, rs)" by (cases r)
  with Cons have "paired ids (a # rs)" "\<And>ids. paired ids (round_messages rounds)"
    by (auto intro: paired_round simp del: paired.simps)
  then show ?case unfolding r by (simp add: round_messages_def paired_append del: paired.simps)
    (metis append_Cons paired_append)
qed (simp add: round_messages_def)

lemma complete_round_partial: "complete_round r \<Longrightarrow> partial_round r"
  by (auto simp: complete_round_def partial_round_def list_all2_lengthD [symmetric])

section \<open>Frame lemmas\<close>

lemma trace_frame [simp]:
  "rt_session (trace env name kvs st) = rt_session st"
  "usage_tracker (trace env name kvs st) = usage_tracker st"
  "rt_clock (trace env name kvs st) = rt_clock st"
  by (simp_all add: trace_def split: option.split)

lemmas record_defs = record_turn_started_def record_assistant_iteration_def record_tool_started_def
  record_turn_completed_def record_turn_failed_def

lemma record_tool_finished_frame [simp]:
  "rt_session (record_tool_finished env n m st) = rt_session st"
  "usage_tracker (record_tool_finished env n m st) = usage_tracker st"
  by (simp_all add: record_tool_finished_def split: list.split ContentBlock.split)

lemma push_spec:
  assumes "push env m st = (r, st')"
  shows "messages (rt_session st') = (if r = Inr () then messages (rt_session st) @ [m] else messages (rt_session st))"
    and "usage_tracker st' = usage_tracker st"
    and "compaction (rt_session st') = compaction (rt_session st)"
proof -
  obtain r0 s clk w where p: "push_message (append_persisted_message env) m (rt_session st) (rt_clock st) (world st)
    = (r0, s, clk, w)" by (metis prod_cases4)
  show "messages (rt_session st') = (if r = Inr () then messages (rt_session st) @ [m] else messages (rt_session st))"
    and "usage_tracker st' = usage_tracker st"
    and "compaction (rt_session st') = compaction (rt_session st)"
    using assms push_message_messages [OF p] push_message_frame [OF p]
    by (auto simp: push_def p Let_def split: sum.splits)
qed

lemma run_tool_spec:
  "answers i (fst (run_tool env n (i, name, inp) st))"
  "rt_session (snd (run_tool env n (i, name, inp) st)) = rt_session st"
  "usage_tracker (snd (run_tool env n (i, name, inp) st)) = usage_tracker st"
  by (simp_all add: run_tool_def Let_def case_prod_beta answers_def ConversationMessage_tool_result_def
      record_tool_started_def split: PermissionOutcome.split)

lemma run_tools_spec:
  assumes "run_tools env n calls results st = (r, st')"
  shows "\<exists>rs. messages (rt_session st') = messages (rt_session st) @ rs
     \<and> usage_tracker st' = usage_tracker st \<and> compaction (rt_session st') = compaction (rt_session st)
     \<and> list_all2 answers (take (length rs) (map fst calls)) rs
     \<and> (\<forall>results'. r = Inr results' \<longrightarrow> results' = results @ rs \<and> length rs = length calls)"
  using assms
proof (induction calls arbitrary: results st)
  case Nil
  then show ?case by auto
next
  case (Cons call calls)
  obtain i name inp where call: "call = (i, name, inp)" by (cases call)
  obtain m st1 where t: "run_tool env n call st = (m, st1)" by fastforce
  note spec = run_tool_spec [where i = i and env = env and n = n and name = name and inp = inp and st = st, folded call, unfolded t, simplified]
  obtain p st2 where p: "push env m st1 = (p, st2)" by fastforce
  note ps = push_spec [OF p]
  show ?case
  proof (cases p)
    case (Inl e)
    with Cons.prems t p have "r = Inl e" "st' = st2" by auto
    with Inl ps spec show ?thesis by (intro exI [of _ "[]"]) simp
  next
    case (Inr u)
    with Cons.prems t p have "run_tools env n calls (results @ [m]) (record_tool_finished env n m st2) = (r, st')"
      by simp
    from Cons.IH [OF this] obtain rs where
      "messages (rt_session st') = messages (rt_session st2) @ rs"
      "usage_tracker st' = usage_tracker st2" "compaction (rt_session st') = compaction (rt_session st2)"
      "list_all2 answers (take (length rs) (map fst calls)) rs"
      "\<forall>results'. r = Inr results' \<longrightarrow> results' = results @ [m] @ rs \<and> length rs = length calls"
      by auto
    with Inr ps spec call show ?thesis by (intro exI [of _ "m # rs"]) auto
  qed
qed

lemma assembly_step_ok: "assembly_ok a \<Longrightarrow> assembly_ok (assembly_step event a)"
  by (cases event) (simp_all add: assembly_ok_def assembly_step_def flush_text_block_def)

interpretation assembly: invariant_ops assembly_step assembly_ok
  by unfold_locales (rule assembly_step_ok)

lemma tool_result_ids_Nil: "tool_result_ids m = [] \<longleftrightarrow> (\<forall>b \<in> set (blocks m). \<not> is_tool_result b)"
proof -
  have "List.map_filter (\<lambda>b. case b of ToolResult i _ _ _ \<Rightarrow> Some i | _ \<Rightarrow> None) bs = []
    \<longleftrightarrow> (\<forall>b \<in> set bs. \<not> is_tool_result b)" for bs
  proof (induction bs)
    case (Cons b bs)
    then show ?case by (cases b) (auto simp: List.map_filter_simps)
  qed (simp add: List.map_filter_simps)
  then show ?thesis by (simp add: tool_result_ids_def)
qed

lemma build_assistant_message_spec:
  assumes "build_assistant_message events = Inr (m, u, cache)"
  shows "role m = Assistant" "usage m = u" "blocks m \<noteq> []" "tool_result_ids m = []"
proof -
  let ?a = "fold assembly_step events assembly_init"
  have "assembly_ok ?a" by (rule assembly.run_inv) (simp add: assembly_ok_def assembly_init_def)
  then show "role m = Assistant" "usage m = u" "blocks m \<noteq> []" "tool_result_ids m = []"
    using assms by (auto simp: build_assistant_message_def Let_def assembly_ok_def list_all_iff tool_result_ids_Nil flush_text_block_def
        ConversationMessage_assistant_with_usage_def split: if_splits)
qed

lemma pending_tool_use_ids: "map fst (pending_tool_uses m) = tool_use_ids m"
proof -
  have "map fst (List.map_filter (\<lambda>b. case b of ToolUse i name inp \<Rightarrow> Some (i, name, inp) | _ \<Rightarrow> None) bs)
    = List.map_filter (\<lambda>b. case b of ToolUse i _ _ \<Rightarrow> Some i | _ \<Rightarrow> None) bs" for bs
  proof (induction bs)
    case (Cons b bs)
    then show ?case by (cases b) (auto simp: List.map_filter_simps)
  qed (simp add: List.map_filter_simps)
  then show ?thesis by (simp add: pending_tool_uses_def tool_use_ids_def)
qed


lemma set_usage_frame [simp]:
  "rt_session (case u of Some v \<Rightarrow> st\<lparr>usage_tracker := f v\<rparr> | None \<Rightarrow> st) = rt_session st"
  by (simp split: option.split)

lemma pending_Nil: "pending_tool_uses m = [] \<longleftrightarrow> tool_use_ids m = []"
  by (metis map_is_Nil_conv pending_tool_use_ids)

lemma finish_round_spec:
  assumes m: "role m = Assistant" "blocks m \<noteq> []" "tool_result_ids m = []"
    and st4: "rt_session st4 = rt_session st" "usage_tracker st4 = record_message_usage m (usage_tracker st)"
    and r: "finish_round env n acc m cache (push env m st4) = (r, st')"
  shows "\<exists>rounds. adds_rounds st acc rounds st'
     \<and> (\<forall>acc' fin. r = Inr (acc', fin) \<longrightarrow> ends_round st acc rounds st' acc' fin)"
proof -
  let ?calls = "pending_tool_uses m"
  obtain p st5 where p: "push env m st4 = (p, st5)" by fastforce
  note ps = push_spec [OF p]
  consider e where "p = Inl e" | "p = Inr ()" "?calls = []" | "p = Inr ()" "?calls \<noteq> []"
    by (cases p) auto
  then show ?thesis
  proof cases
    case 1
    with r p ps st4 show ?thesis
      by (intro exI [of _ "[]"]) (auto simp: finish_round_def adds_rounds_def round_messages_def)
  next
    case 2
    with m have "complete_round (m, [])" by (simp add: complete_round_def pending_Nil)
    moreover from this have "partial_round (m, [])" by (rule complete_round_partial)
    ultimately show ?thesis using 2 r p ps st4
      by (intro exI [of _ "[(m, [])]"])
        (auto simp: finish_round_def adds_rounds_def ends_round_def round_messages_def Let_def pending_Nil)
  next
    case 3
    obtain q st6 where q: "run_tools env n ?calls (acc_results acc) st5 = (q, st6)" by fastforce
    from run_tools_spec [OF q, unfolded pending_tool_use_ids] obtain rs where
      rs: "messages (rt_session st6) = messages (rt_session st5) @ rs"
        "usage_tracker st6 = usage_tracker st5" "compaction (rt_session st6) = compaction (rt_session st5)"
        "list_all2 answers (take (length rs) (tool_use_ids m)) rs"
        "\<forall>results'. q = Inr results' \<longrightarrow> results' = acc_results acc @ rs \<and> length rs = length ?calls"
      by blast
    have "partial_round (m, rs)" using rs(4) m by (simp add: partial_round_def)
    moreover have "complete_round (m, rs)" if "q = Inr results'" for results'
      using rs(4,5) m that length_map [of fst ?calls] unfolding pending_tool_use_ids
      by (simp add: complete_round_def)
    ultimately show ?thesis using 3 r p q rs ps st4
      by (intro exI [of _ "[(m, rs)]"])
        (auto simp: finish_round_def adds_rounds_def ends_round_def round_messages_def Let_def pending_Nil
          split: sum.splits)
  qed
qed

lemma turn_iteration_spec:
  assumes "turn_iteration env n acc st = (r, st')"
  shows "\<exists>rounds. adds_rounds st acc rounds st'
     \<and> (\<forall>acc' fin. r = Inr (acc', fin) \<longrightarrow> ends_round st acc rounds st' acc' fin)"
proof (cases "is_set (cancel_signal env) (world st) \<or> is_set (cancel_token env) (world st)")
  case True
  with assms show ?thesis
    by (intro exI [of _ "[]"]) (auto simp: turn_iteration_def record_defs adds_rounds_def round_messages_def)
next
  case False
  let ?req = "\<lparr>ar_system_prompt = system_prompt env, ar_messages = messages (rt_session st)\<rparr>"
  let ?w1 = "case turn_observer env of
      Some before_stream \<Rightarrow> before_stream ?req (client_model env (world st)) (client_provider env (world st))
        (session_id (rt_session st)) n (world st)
    | None \<Rightarrow> world st"
  obtain events w2 where s: "stream env ?req ?w1 = (events, w2)" by fastforce
  show ?thesis
  proof (cases "rbind events build_assistant_message")
    case (Inl e)
    with assms False s show ?thesis
      by (intro exI [of _ "[]"]) (auto simp: turn_iteration_def record_defs adds_rounds_def round_messages_def)
  next
    case (Inr b)
    obtain m u cache where b: "b = (m, u, cache)" by (cases b)
    with Inr have built: "rbind events build_assistant_message = Inr (m, u, cache)" by simp
    then have m: "role m = Assistant" "usage m = u" "blocks m \<noteq> []" "tool_result_ids m = []"
      by (auto simp: rbind_eq_Inr dest: build_assistant_message_spec)
    define st4 where "st4 = record_assistant_iteration env n m (length (pending_tool_uses m))
      (case u of Some v \<Rightarrow> st\<lparr>world := w2, usage_tracker := UsageTracker_record v (usage_tracker st)\<rparr>
       | None \<Rightarrow> st\<lparr>world := w2\<rparr>)"
    have st4: "rt_session st4 = rt_session st" "usage_tracker st4 = record_message_usage m (usage_tracker st)"
      by (auto simp: st4_def record_defs record_message_usage_def m(2) split: option.split)
    have "turn_iteration env n acc st = finish_round env n acc m cache (push env m st4)"
      using False s built
      by (simp add: turn_iteration_def finish_round_def Let_def st4_def cong: option.case_cong)
    with assms show ?thesis by (intro finish_round_spec [OF m(1,3,4) st4]) simp
  qed
qed

lemma adds_rounds_append:
  "adds_rounds st acc xs st1 \<Longrightarrow> adds_rounds st1 acc1 ys st' \<Longrightarrow> adds_rounds st acc (xs @ ys) st'"
  by (simp add: adds_rounds_def round_messages_def)

lemma turn_rounds_single: "ends_round st acc rounds st' acc' True \<Longrightarrow> turn_rounds st acc rounds st' acc'"
  by (auto simp: ends_round_def turn_rounds_def)

lemma turn_rounds_Cons:
  "ends_round st acc rounds1 st1 acc1 False \<Longrightarrow> turn_rounds st1 acc1 rounds st' acc' \<Longrightarrow>
     turn_rounds st acc (rounds1 @ rounds) st' acc'"
  by (auto simp: ends_round_def turn_rounds_def)

lemma turn_loop_spec:
  assumes "turn_loop env n acc st = (r, st')"
  shows "\<exists>rounds. adds_rounds st acc rounds st' \<and> (\<forall>acc' k. r = Inr (acc', k) \<longrightarrow>
     turn_rounds st acc rounds st' acc' \<and> k + 1 = n + length rounds \<and> k \<le> max_iterations env)"
  using assms
proof (induction env n acc st rule: turn_loop.induct)
  case (1 env n acc st)
  show ?case
  proof (cases "max_iterations env < n")
    case True
    with "1.prems" show ?thesis
      by (intro exI [of _ "[]"])
        (auto simp: turn_loop.simps [of env n] record_defs adds_rounds_def round_messages_def)
  next
    case False
    obtain q st1 where q: "turn_iteration env n acc st = (q, st1)" by fastforce
    from turn_iteration_spec [OF q] obtain rounds1 where
      r1: "adds_rounds st acc rounds1 st1"
      and e1: "\<And>acc' fin. q = Inr (acc', fin) \<Longrightarrow> ends_round st acc rounds1 st1 acc' fin" by blast
    consider (fail) e where "q = Inl e" | (stop) acc1 where "q = Inr (acc1, True)"
      | (more) acc1 where "q = Inr (acc1, False)" by (cases q) auto
    then show ?thesis
    proof cases
      case fail
      with "1.prems" False q r1 show ?thesis
        by (intro exI [of _ rounds1]) (auto simp: turn_loop.simps [of env n])
    next
      case stop
      with "1.prems" False q have "r = Inr (acc1, n)" "st' = st1" by (auto simp: turn_loop.simps [of env n])
      moreover have "length rounds1 = 1" using e1 [OF stop] by (auto simp: ends_round_def)
      ultimately show ?thesis using r1 turn_rounds_single [OF e1 [OF stop]] False
        by (intro exI [of _ rounds1]) auto
    next
      case more
      with "1.prems" False q have l: "turn_loop env (n + 1) acc1 st1 = (r, st')"
        by (auto simp: turn_loop.simps [of env n])
      from "1.IH" [OF False q [symmetric] more refl _ l] obtain rounds where
        "adds_rounds st1 acc1 rounds st'" and "\<forall>acc' k. r = Inr (acc', k) \<longrightarrow>
           turn_rounds st1 acc1 rounds st' acc' \<and> k + 1 = n + 1 + length rounds \<and> k \<le> max_iterations env"
        by auto
      moreover have "length rounds1 = 1" using e1 [OF more] by (auto simp: ends_round_def)
      ultimately show ?thesis using adds_rounds_append [OF r1] turn_rounds_Cons [OF e1 [OF more]]
        by (intro exI [of _ "rounds1 @ rounds"]) auto
    qed
  qed
qed

lemma maybe_auto_compact_total: "\<exists>c st'. maybe_auto_compact env st = Some (c, st')"
proof -
  have "preserve_recent_messages (CompactionConfig_default\<lparr>max_estimated_tokens := 0\<rparr>) \<noteq> 0"
    by (simp add: CompactionConfig_default_def)
  then obtain r where "compact_session (rt_session st) (CompactionConfig_default\<lparr>max_estimated_tokens := 0\<rparr>)
      (rt_clock st) = Some r"
    using compact_session_total by blast
  then show ?thesis by (cases r) (auto simp: maybe_auto_compact_def)
qed

lemma maybe_auto_compact_None:
  "maybe_auto_compact env st = Some (None, st') \<Longrightarrow> rt_session st' = rt_session st \<and> usage_tracker st' = usage_tracker st"
  by (auto simp: maybe_auto_compact_def split: if_splits)

lemma maybe_auto_compact_paired:
  assumes "maybe_auto_compact env st = Some (c, st')" and "paired [] (messages (rt_session st))"
  shows "paired [] (messages (rt_session st'))"
  using assms compact_paired [of "rt_session st"]
  by (fastforce simp: maybe_auto_compact_def split: if_splits)

lemma probe_frame:
  "run_session_health_probe env st = (r, st') \<Longrightarrow> rt_session st' = rt_session st \<and> usage_tracker st' = usage_tracker st"
  by (auto simp: run_session_health_probe_def split: if_splits prod.splits sum.splits)

lemma run_turn_phases:
  "run_turn env user_input st = (case turn_start env user_input st of
     (Inl e, st2) \<Rightarrow> Some (Inl e, st2)
   | (Inr _, st2) \<Rightarrow> (case turn_loop env 1 acc_init st2 of
       (Inl e, st3) \<Rightarrow> Some (Inl e, st3)
     | (Inr (acc, n), st3) \<Rightarrow> map_option (\<lambda>(c, st4).
         (Inr (turn_end env acc n c st4), record_turn_completed env (turn_end env acc n c st4) st4))
         (maybe_auto_compact env st3)))"
  by (simp add: run_turn_def turn_start_def turn_end_def acc_init_def Let_def split: prod.split sum.split)


lemma turn_start_spec:
  assumes "turn_start env user_input st = (r, st')"
  shows "messages (rt_session st') = (if r = Inr () then messages (rt_session st)
       @ [ConversationMessage_user_text user_input] else messages (rt_session st))"
    and "usage_tracker st' = usage_tracker st"
proof -
  obtain p st0 where p: "(if compaction (rt_session st) \<noteq> None then run_session_health_probe env st
      else (Inr (), st)) = (p, st0)" by fastforce
  then have f: "rt_session st0 = rt_session st" "usage_tracker st0 = usage_tracker st"
    by (auto dest: probe_frame split: if_splits)
  show "messages (rt_session st') = (if r = Inr () then messages (rt_session st)
       @ [ConversationMessage_user_text user_input] else messages (rt_session st))"
    and "usage_tracker st' = usage_tracker st"
    using assms f push_spec [of env "ConversationMessage_user_text user_input"
        "record_turn_started env user_input st0" r st']
    unfolding turn_start_def p by (auto simp: record_defs split: sum.splits)
qed

lemma run_turn_cases:
  assumes "run_turn env user_input st = Some (r, st')"
  obtains (start) e where "turn_start env user_input st = (Inl e, st')" "r = Inl e"
  | (loop) st2 e where "turn_start env user_input st = (Inr (), st2)"
      "turn_loop env 1 acc_init st2 = (Inl e, st')" "r = Inl e"
  | (finished) st2 acc n st3 c st4 where "turn_start env user_input st = (Inr (), st2)"
      "turn_loop env 1 acc_init st2 = (Inr (acc, n), st3)" "maybe_auto_compact env st3 = Some (c, st4)"
      "r = Inr (turn_end env acc n c st4)" "st' = record_turn_completed env (turn_end env acc n c st4) st4"
      "rt_session st' = rt_session st4" "usage_tracker st' = usage_tracker st4"
  using assms unfolding run_turn_phases
  by (auto simp: record_defs split: prod.splits sum.splits)

lemma user_message_ids [simp]:
  "tool_use_ids (ConversationMessage_user_text t) = []" "tool_result_ids (ConversationMessage_user_text t) = []"
  by (simp_all add: ConversationMessage_user_text_def tool_use_ids_def tool_result_ids_def List.map_filter_simps)

lemma turn_start_paired:
  "turn_start env ui st = (r, st') \<Longrightarrow> paired [] (messages (rt_session st)) \<Longrightarrow> paired [] (messages (rt_session st'))"
  using turn_start_spec(1) [of env ui st r st'] by (simp add: paired_append)

lemma adds_rounds_paired:
  "adds_rounds st acc rounds st' \<Longrightarrow> paired [] (messages (rt_session st)) \<Longrightarrow> paired [] (messages (rt_session st'))"
  by (simp add: adds_rounds_def paired_append paired_rounds)

lemma run_turn_paired:
  assumes "paired [] (messages (rt_session st))" and "run_turn env user_input st = Some (r, st')"
  shows "paired [] (messages (rt_session st'))"
  using assms(2)
proof (cases rule: run_turn_cases)
  case start
  with assms(1) show ?thesis by (blast intro: turn_start_paired)
next
  case (loop st2 e)
  with assms(1) turn_loop_spec [OF loop(2)] show ?thesis
    by (blast intro: turn_start_paired adds_rounds_paired)
next
  case (finished st2 acc n st3 c st4)
  with assms(1) turn_loop_spec [OF finished(2)] have "paired [] (messages (rt_session st3))"
    by (blast intro: turn_start_paired adds_rounds_paired)
  with maybe_auto_compact_paired [OF finished(3)] finished(6) show ?thesis by simp
qed

text \<open>C2: every tool result of a transcript answers a tool use of the reply before it, and a turn
  keeps it so, however it ends: with a summary, with any error, and with an automatic
  compaction.\<close>

theorem run_turn_keeps_pairing:
  assumes "paired [] (messages (rt_session st))" and "run_turn env user_input st = Some (r, st')"
  shows "paired [] (messages (rt_session st'))"
  by (rule run_turn_paired [OF assms])

lemma run_turn_total: "\<exists>r st'. run_turn env user_input st = Some (r, st')"
proof -
  obtain p st2 where p: "turn_start env user_input st = (p, st2)" by fastforce
  obtain q st3 where q: "turn_loop env 1 acc_init st2 = (q, st3)" by fastforce
  show ?thesis using maybe_auto_compact_total [of env st3]
    by (cases p; cases q) (auto simp: run_turn_phases p q simp del: One_nat_def)
qed

lemma run_turn_rounds:
  assumes "run_turn env user_input st = Some (Inr summ, st')" and "auto_compaction summ = None"
  shows "\<exists>rounds.
     messages (rt_session st') =
       messages (rt_session st) @ ConversationMessage_user_text user_input # round_messages rounds
     \<and> list_all complete_round rounds
     \<and> list_all (\<lambda>(a, rs). tool_use_ids a \<noteq> []) (butlast rounds) \<and> tool_use_ids (fst (last rounds)) = []
     \<and> assistant_messages summ = map fst rounds \<and> tool_results summ = concat (map snd rounds)
     \<and> iterations summ = length rounds \<and> 1 \<le> iterations summ \<and> iterations summ \<le> max_iterations env"
  using assms(1)
proof (cases rule: run_turn_cases)
  case (finished st2 acc n st3 c st4)
  with assms(2) have "c = None" by (simp add: turn_end_def)
  with finished(3) have s: "rt_session st4 = rt_session st3" by (simp add: maybe_auto_compact_None)
  from turn_loop_spec [OF finished(2)] obtain rounds where
    "adds_rounds st2 acc_init rounds st3" "turn_rounds st2 acc_init rounds st3 acc"
    "n + 1 = 1 + length rounds" "n \<le> max_iterations env" by blast
  with finished s turn_start_spec(1) [OF finished(1)] show ?thesis
    by (intro exI [of _ rounds])
      (auto simp: adds_rounds_def turn_rounds_def turn_end_def acc_init_def Suc_le_eq)
qed simp_all

text \<open>C1: a turn that succeeds without a compaction adds the user's message and then complete rounds:
  a reply and, for each of its tool uses, in order, one result with the same identifier. Every
  reply but the last asks for tools, the last asks for none. There are as many rounds as
  iterations, at most the configured maximum, and the summary lists exactly these messages.\<close>

theorem run_turn_transcript:
  assumes "run_turn env user_input st = Some (Inr summ, st')" and "auto_compaction summ = None"
  shows "\<exists>rounds.
     messages (rt_session st') =
       messages (rt_session st) @ ConversationMessage_user_text user_input # round_messages rounds
     \<and> list_all complete_round rounds
     \<and> list_all (\<lambda>(a, rs). tool_use_ids a \<noteq> []) (butlast rounds) \<and> tool_use_ids (fst (last rounds)) = []
     \<and> assistant_messages summ = map fst rounds \<and> tool_results summ = concat (map snd rounds)
     \<and> iterations summ = length rounds \<and> 1 \<le> iterations summ \<and> iterations summ \<le> max_iterations env"
  by (rule run_turn_rounds [OF assms])

lemma from_session_fold: "UsageTracker_from_session s = fold record_message_usage (messages s) UsageTracker_new"
  by (simp add: UsageTracker_from_session_def record_message_usage_def [abs_def])

lemma fold_rounds_usage:
  "list_all complete_round rounds \<Longrightarrow>
     fold record_message_usage (round_messages rounds) t = fold record_message_usage (map fst rounds) t"
proof (induction rounds arbitrary: t)
  case (Cons r rounds)
  obtain a rs where r: "r = (a, rs)" by (cases r)
  have "fold record_message_usage rs u = u" for u
  proof -
    have "\<forall>m \<in> set rs. usage m = None"
      using Cons.prems r by (auto simp: complete_round_def answers_def list_all2_conv_all_nth in_set_conv_nth)
    then show ?thesis by (induction rs arbitrary: u) (auto simp: record_message_usage_def)
  qed
  with Cons r show ?case by (simp add: round_messages_def)
qed (simp add: round_messages_def)

lemma run_turn_tracker:
  assumes "run_turn env user_input st = Some (Inr summ, st')" and "auto_compaction summ = None"
    and "usage_tracker st = UsageTracker_from_session (rt_session st)"
  shows "usage_tracker st' = UsageTracker_from_session (rt_session st')"
  using assms(1)
proof (cases rule: run_turn_cases)
  case (finished st2 acc n st3 c st4)
  with assms(2) have "c = None" by (simp add: turn_end_def)
  with finished(3) have s: "rt_session st4 = rt_session st3" "usage_tracker st4 = usage_tracker st3"
    by (simp_all add: maybe_auto_compact_None)
  from turn_loop_spec [OF finished(2)] obtain rounds where
    "adds_rounds st2 acc_init rounds st3" "turn_rounds st2 acc_init rounds st3 acc" by blast
  moreover have "record_message_usage (ConversationMessage_user_text t) u = u" for t u
    by (simp add: record_message_usage_def ConversationMessage_user_text_def)
  ultimately show ?thesis using finished s turn_start_spec [OF finished(1)] assms(3)
    by (simp add: adds_rounds_def turn_rounds_def from_session_fold fold_rounds_usage)
qed simp_all

text \<open>C15: a successful turn without a compaction keeps the usage tracker equal to the one recomputed
  from the transcript.\<close>

theorem run_turn_usage:
  assumes "run_turn env user_input st = Some (Inr summ, st')" and "auto_compaction summ = None"
    and "usage_tracker st = UsageTracker_from_session (rt_session st)"
  shows "usage_tracker st' = UsageTracker_from_session (rt_session st')"
  by (rule run_turn_tracker [OF assms])

lemma cancelled_before_model_call:
  assumes "n \<le> max_iterations env" and "is_set (cancel_signal env) (world st) \<or> is_set (cancel_token env) (world st)"
  shows "turn_loop env n acc st = (Inl Cancelled, record_turn_failed env n Cancelled st)"
  using assms by (auto simp: turn_loop.simps [of env n] turn_iteration_def)

text \<open>While a cancel flag is set a turn ends in an error and nothing of the model reaches the
  transcript: at most the user's message is added.\<close>

theorem cancelled_turn_adds_no_reply:
  assumes "1 \<le> max_iterations env"
    and "\<And>w. is_set (cancel_signal env) w \<or> is_set (cancel_token env) w"
    and "run_turn env user_input st = Some (r, st')"
  shows "\<exists>e. r = Inl e \<and> messages (rt_session st') \<in>
     {messages (rt_session st), messages (rt_session st) @ [ConversationMessage_user_text user_input]}"
  using assms(3)
proof (cases rule: run_turn_cases)
  case (start e)
  with turn_start_spec(1) [OF start(1)] show ?thesis by simp
next
  case (loop st2 e)
  with cancelled_before_model_call [OF assms(1,2)] turn_start_spec(1) [OF loop(1)] show ?thesis
    by (auto simp: record_defs)
next
  case (finished st2 acc n st3 c st4)
  with cancelled_before_model_call [OF assms(1,2)] show ?thesis by auto
qed

section \<open>Which tools run\<close>

text \<open>A predicate on the world that every callback keeps, except that the executor need keep it only
  for calls that satisfy \<open>ok\<close>, is kept by a whole turn when \<open>ok\<close> holds of every call the policy lets through.
  The first locale is about everything but the model: what starts a turn and what follows a reply.\<close>

text \<open>The ways an iteration goes: cancelled, without a reply, and with one.\<close>

lemma turn_iteration_cases:
  assumes "turn_iteration env n acc st = (r, st')"
  obtains (cancelled) "r = Inl Cancelled" "st' = record_turn_failed env n Cancelled st"
  | (failed) req w1 e where "w1 = world st \<or> (\<exists>f m p sid. turn_observer env = Some f \<and> w1 = f req m p sid n (world st))"
      "r = Inl e" "st' = record_turn_failed env n e (st\<lparr>world := snd (stream env req w1)\<rparr>)"
      "rbind (fst (stream env req w1)) build_assistant_message = Inl e"
  | (replied) req w1 m u cache st4 where
      "w1 = world st \<or> (\<exists>f m p sid. turn_observer env = Some f \<and> w1 = f req m p sid n (world st))"
      "rt_session st4 = rt_session st"
      "st4 = record_assistant_iteration env n m (length (pending_tool_uses m))
        (case u of Some v \<Rightarrow> st\<lparr>world := snd (stream env req w1), usage_tracker := UsageTracker_record v (usage_tracker st)\<rparr>
         | None \<Rightarrow> st\<lparr>world := snd (stream env req w1)\<rparr>)"
      "finish_round env n acc m cache (push env m st4) = (r, st')"
proof (cases "is_set (cancel_signal env) (world st) \<or> is_set (cancel_token env) (world st)")
  case True
  with assms cancelled show ?thesis by (auto simp: turn_iteration_def)
next
  case False
  let ?req = "\<lparr>ar_system_prompt = system_prompt env, ar_messages = messages (rt_session st)\<rparr>"
  let ?w1 = "case turn_observer env of
      Some before_stream \<Rightarrow> before_stream ?req (client_model env (world st)) (client_provider env (world st))
        (session_id (rt_session st)) n (world st)
    | None \<Rightarrow> world st"
  obtain events w2 where s: "stream env ?req ?w1 = (events, w2)" by fastforce
  have w1: "?w1 = world st \<or> (\<exists>f m p sid. turn_observer env = Some f \<and> ?w1 = f ?req m p sid n (world st))"
    by (auto split: option.split)
  show ?thesis
  proof (cases "rbind events build_assistant_message")
    case (Inl e)
    with assms False s show ?thesis by (intro failed [OF w1, of e]) (auto simp: turn_iteration_def)
  next
    case (Inr b)
    obtain m u cache where b: "b = (m, u, cache)" by (cases b)
    define st4 where "st4 = record_assistant_iteration env n m (length (pending_tool_uses m))
      (case u of Some v \<Rightarrow> st\<lparr>world := w2, usage_tracker := UsageTracker_record v (usage_tracker st)\<rparr>
       | None \<Rightarrow> st\<lparr>world := w2\<rparr>)"
    have "turn_iteration env n acc st = finish_round env n acc m cache (push env m st4)"
      using False s Inr b
      by (simp add: turn_iteration_def finish_round_def Let_def st4_def cong: option.case_cong)
    with assms have finish: "finish_round env n acc m cache (push env m st4) = (r, st')" by simp
    have frame: "rt_session st4 = rt_session st"
      by (simp add: st4_def record_assistant_iteration_def split: option.split)
    have w2: "snd (stream env ?req ?w1) = w2" by (simp only: s snd_conv)
    show ?thesis by (rule replied [OF w1 frame _ finish]) (simp only: w2 st4_def)
  qed
qed

locale tool_turn =
  fixes env :: "'e conversation_env" and I :: "'e \<Rightarrow> bool" and ok :: "ustr \<Rightarrow> ustr \<Rightarrow> bool"
  assumes tracer_I: "session_tracer env = Some g \<Longrightarrow> I w \<Longrightarrow> I (g name kvs w)"
    and store_I: "I w \<Longrightarrow> I (snd (append_persisted_message env s msg w))"
    and hook_I: "I w \<Longrightarrow> I (snd (output_with_stdin (hooks env) c call payload w))"
    and reporter_I: "reporter (hooks env) = Some h \<Longrightarrow> I w \<Longrightarrow> I (h ev w)"
    and prompter_I: "prompter env = Some d \<Longrightarrow> I w \<Longrightarrow> I (snd (d rq w))"
    and execute_I: "ok name inp \<Longrightarrow> I w \<Longrightarrow> I (snd (execute env name inp w))"
    and policy_ok: "fst (authorize_with_context (from_str (hooks env)) (permission_policy env) name inp ctx
       (prompter env) w) = OutcomeAllow \<Longrightarrow> ok name inp"
    and probe_ok: "ok (lit ''glob_search'') probe_input"
begin

lemma trace_I: "I (world st) \<Longrightarrow> I (world (trace env name kvs st))"
  by (auto simp: trace_def tracer_I split: option.split)

lemma push_I: "I (world st) \<Longrightarrow> push env m st = (r, st') \<Longrightarrow> I (world st')"
  using store_I by (auto simp: push_def push_message_def Let_def case_prod_beta split: sum.splits prod.splits)

lemma notify_I: "I w \<Longrightarrow> I (notify (hooks env) ev w)"
  by (auto simp: notify_def reporter_I split: option.split)

lemma run_loop_I: "I w \<Longrightarrow> I (snd (run_loop (hooks env) call payload cs r w))"
proof (induction cs arbitrary: r w)
  case (Cons c cs)
  let ?w1 = "notify (hooks env) (Started (hc_event call) (hc_tool_name call) c) w"
  have "I (snd (run_command (hooks env) call payload c ?w1))"
    using hook_I [OF notify_I [OF Cons.prems]] by (simp add: run_command_def case_prod_beta)
  then show ?case
    by (auto simp: case_prod_beta Let_def notify_I Cons.IH split: HookCommandOutcome.split)
qed simp

lemma run_commands_I: "I w \<Longrightarrow> I (snd (run_commands (hooks env) cs call w))"
  by (simp add: run_commands_def run_loop_I)

lemma authorize_I:
  "I w \<Longrightarrow> I (snd (authorize_with_context fs pol t i ctx (prompter env) w))"
  by (cases rule: authorize_cases [where 'w = 'e, of fs pol t i ctx])
    (auto simp: prompt_or_deny_def Let_def case_prod_beta intro: prompter_I
      split: option.split PermissionPromptDecision.split)

lemma decide_permission_I: "I w \<Longrightarrow> I (snd (decide_permission env pre t i w))"
  by (simp add: decide_permission_def Let_def authorize_I)

lemma decide_permission_ok: "fst (decide_permission env pre t i w) = OutcomeAllow \<Longrightarrow> ok t i"
  by (auto simp: decide_permission_def Let_def intro: policy_ok split: if_splits)

lemma run_tool_I:
  assumes "I (world st)"
  shows "I (world (snd (run_tool env n call st)))"
proof -
  obtain i t inp where c: "call = (i, t, inp)" by (cases call)
  obtain pre w1 where pre: "run_pre_tool_use (hooks env) (hook_config env) t inp (world st) = (pre, w1)" by fastforce
  let ?e = "case hr_updated_input pre of Some i \<Rightarrow> i | None \<Rightarrow> inp"
  obtain out w2 where d: "decide_permission env pre t ?e w1 = (out, w2)" by fastforce
  have "I w1" using run_commands_I [OF assms] pre by (metis run_pre_tool_use_def snd_conv)
  then have w2: "I w2" using decide_permission_I d by (metis snd_conv)
  show ?thesis
  proof (cases out)
    case OutcomeAllow
    then have "ok t ?e" using decide_permission_ok d by (metis fst_conv)
    moreover have "I (world (record_tool_started env n t (st\<lparr>world := w2\<rparr>)))"
      using w2 by (simp add: record_tool_started_def trace_I)
    ultimately have "I (snd (execute env t ?e (world (record_tool_started env n t (st\<lparr>world := w2\<rparr>)))))"
      by (rule execute_I)
    then show ?thesis
      by (simp add: run_tool_def c pre d OutcomeAllow Let_def case_prod_beta run_post_tool_use_def
          run_post_tool_use_failure_def run_commands_I)
  next
    case (OutcomeDeny r)
    with w2 show ?thesis by (simp add: run_tool_def c pre d Let_def)
  qed
qed

lemma run_tools_I: "I (world st) \<Longrightarrow> run_tools env n calls rs st = (r, st') \<Longrightarrow> I (world st')"
proof (induction calls arbitrary: rs st)
  case (Cons call calls)
  obtain m st1 where t: "run_tool env n call st = (m, st1)" by fastforce
  then have "I (world st1)" using run_tool_I [OF Cons.prems(1)] by (metis snd_conv)
  moreover obtain p st2 where p: "push env m st1 = (p, st2)" by fastforce
  ultimately have "I (world st2)" by (rule push_I)
  then have "I (world (record_tool_finished env n m st2))"
    by (auto simp: record_tool_finished_def trace_I split: list.split ContentBlock.split)
  with \<open>I (world st2)\<close> Cons t p show ?case by (cases p) auto
qed simp

lemma finish_round_I:
  assumes "I (world st4)" and "finish_round env n acc m cache (push env m st4) = (r, st')"
  shows "I (world st')"
  using assms(2) push_I [OF assms(1)]
  by (auto simp: finish_round_def Let_def split: prod.splits sum.splits if_splits dest: run_tools_I)

lemma failed_I: "I (world st) \<Longrightarrow> I (world (record_turn_failed env n e st))"
  by (simp add: record_turn_failed_def trace_I)

lemma probe_I: "I (world st) \<Longrightarrow> run_session_health_probe env st = (r, st') \<Longrightarrow> I (world st')"
  using execute_I [OF probe_ok, of "world st"]
  by (auto simp: run_session_health_probe_def split: if_splits prod.splits sum.splits)

lemma turn_start_I:
  assumes "I (world st)" and "turn_start env ui st = (r, st')"
  shows "I (world st')"
proof -
  obtain p st0 where p: "(if compaction (rt_session st) \<noteq> None then run_session_health_probe env st
      else (Inr (), st)) = (p, st0)" by fastforce
  then have "I (world st0)" using assms(1) by (auto intro: probe_I split: if_splits)
  moreover from this have "I (world (record_turn_started env ui st0))"
    by (simp add: record_turn_started_def trace_I)
  ultimately show ?thesis
    using assms(2) push_I unfolding turn_start_def p by (auto split: sum.splits)
qed

end

locale guarded_turn = tool_turn +
  assumes stream_I: "I w \<Longrightarrow> I (snd (stream env req w))"
    and observer_I: "turn_observer env = Some f \<Longrightarrow> I w \<Longrightarrow> I (f req m p sid n w)"
begin

lemma turn_iteration_I:
  assumes "I (world st)" and "turn_iteration env n acc st = (r, st')"
  shows "I (world st')"
  using assms(2)
proof (cases rule: turn_iteration_cases)
  case cancelled
  with assms(1) show ?thesis by (simp add: failed_I)
next
  case (failed req w1 e)
  then have "I w1" using assms(1) observer_I by blast
  with failed show ?thesis by (simp add: failed_I stream_I)
next
  case (replied req w1 m u cache st4)
  then have "I w1" using assms(1) observer_I by blast
  then have "I (world st4)"
    by (auto simp: replied(3) record_assistant_iteration_def stream_I split: option.split intro!: trace_I)
  then show ?thesis using replied(4) by (rule finish_round_I)
qed

lemma turn_loop_I: "I (world st) \<Longrightarrow> turn_loop env' n acc st = (r, st') \<Longrightarrow> env' = env \<Longrightarrow> I (world st')"
proof (induction env' n acc st rule: turn_loop.induct)
  case (1 env' n acc st)
  obtain q st1 where q: "turn_iteration env n acc st = (q, st1)" by fastforce
  with 1 have "I (world st1)" by (auto intro: turn_iteration_I)
  with 1 q show ?case
    by (auto simp: turn_loop.simps [of env n] record_turn_failed_def trace_I split: if_splits sum.splits)
qed

lemma run_turn_I:
  assumes "I (world st)" and "run_turn env ui st = Some (r, st')"
  shows "I (world st')"
  using assms(2)
proof (cases rule: run_turn_cases)
  case start
  with assms(1) show ?thesis by (blast intro: turn_start_I)
next
  case loop
  with assms(1) show ?thesis by (blast intro: turn_start_I turn_loop_I)
next
  case (finished st2 acc n st3 c st4)
  with assms(1) have "I (world st3)" by (blast intro: turn_start_I turn_loop_I)
  moreover have "world st4 = world st3"
    using finished(3) by (auto simp: maybe_auto_compact_def split: if_splits)
  ultimately show ?thesis using finished(5) by (simp add: record_turn_completed_def trace_I)
qed

end

lemma lift_snd [simp]: "snd (snd (lift_fst f w)) = snd w" "snd (lift_unit g w) = snd w"
  by (simp_all add: lift_fst_def lift_unit_def case_prod_beta)

interpretation log: guarded_turn "logged env"
  "\<lambda>w. \<forall>(name, inp) \<in> set (snd w). authorised (logged env) name inp" "authorised (logged env)"
  for env
proof (unfold_locales, goal_cases)
  case (6 name inp w)
  then show ?case by (auto simp: logged_def case_prod_beta)
next
  case (7 name inp ctx w)
  then show ?case unfolding authorised_def by blast
next
  case 8
  then show ?case by (simp add: authorised_def)
qed (auto simp: logged_def logged_hooks_def)


section \<open>How often the model is called\<close>

interpretation count: tool_turn "counted env" "\<lambda>w. snd w = k" "\<lambda>_ _. True"
  for env :: "'e conversation_env" and k :: nat
  by unfold_locales (auto simp: counted_def logged_hooks_def)

text \<open>An iteration calls the model once, unless it is cancelled before.\<close>

lemma turn_iteration_count:
  assumes "turn_iteration (counted env) n acc st = (r, st')"
  shows "snd (world st') = Suc (snd (world st)) \<or> r = Inl Cancelled \<and> snd (world st') = snd (world st)"
  using assms
proof (cases rule: turn_iteration_cases)
  case cancelled
  with count.failed_I [of st "snd (world st)"] show ?thesis by simp
next
  case (failed req w1 e)
  then have "snd w1 = snd (world st)" by (auto simp: counted_def lift_unit_def)
  then have "snd (snd (stream (counted env) req w1)) = Suc (snd (world st))" by (simp add: counted_def case_prod_beta)
  with failed(3) show ?thesis by (simp add: count.failed_I)
next
  case (replied req w1 m u cache st4)
  then have "snd w1 = snd (world st)" by (auto simp: counted_def lift_unit_def)
  then have "snd (snd (stream (counted env) req w1)) = Suc (snd (world st))" by (simp add: counted_def case_prod_beta)
  then have "snd (world st4) = Suc (snd (world st))"
    by (auto simp: replied(3) record_assistant_iteration_def split: option.split intro!: count.trace_I)
  from count.finish_round_I [OF this replied(4)] show ?thesis by simp
qed

lemma turn_iteration_MaxIterations:
  assumes "turn_iteration env n acc st = (Inl MaxIterations, st')" and "\<And>req w. fst (stream env req w) \<noteq> Inl MaxIterations"
  shows False
  using assms(1)
proof (cases rule: turn_iteration_cases)
  case (failed req w1 e)
  then show ?thesis using assms(2) [of req w1]
    by (auto simp: rbind_def build_assistant_message_def Let_def split: sum.splits if_splits)
next
  case (replied req w1 m u cache st4)
  have "run_tools env n calls results st \<noteq> (Inl MaxIterations, st')" for calls results st st'
    by (induction calls arbitrary: results st) (auto simp: push_def Let_def split: prod.splits sum.splits)
  with replied(4) show ?thesis
    by (auto simp: finish_round_def push_def Let_def split: prod.splits sum.splits if_splits)
qed simp

lemma turn_loop_count:
  assumes "turn_loop env' n acc st = (r, st')" "env' = counted env" "n \<le> Suc (max_iterations env)"
  shows "snd (world st) \<le> snd (world st') \<and> snd (world st') + n \<le> snd (world st) + Suc (max_iterations env)
    \<and> (case r of
         Inr (acc', k) \<Rightarrow> snd (world st) + Suc k = snd (world st') + n
       | Inl e \<Rightarrow> e = MaxIterations \<longrightarrow> (\<forall>req w. fst (stream env req w) \<noteq> Inl MaxIterations) \<longrightarrow>
           snd (world st') + n = snd (world st) + Suc (max_iterations env))"
  using assms
proof (induction env' n acc st rule: turn_loop.induct)
  case (1 env' n acc st)
  have max: "max_iterations env' = max_iterations env" using "1.prems"(2) by (simp add: counted_def)
  show ?case
  proof (cases "max_iterations env < n")
    case True
    then have "r = Inl MaxIterations" "st' = record_turn_failed (counted env) n MaxIterations st"
      using "1.prems" max by (simp_all add: turn_loop.simps [of "counted env" n])
    moreover from this(2) have "snd (world st') = snd (world st)" by (simp add: count.failed_I)
    ultimately show ?thesis using True "1.prems"(3) by simp
  next
    case False
    obtain q st1 where q: "turn_iteration env' n acc st = (q, st1)" by fastforce
    note step = turn_iteration_count [OF q [unfolded "1.prems"(2)]]
    show ?thesis
    proof (cases q)
      case (Inl e)
      then have r: "r = Inl e" "st' = st1"
        using "1.prems"(1) q False max by (simp_all add: turn_loop.simps [of env' n])
      have "e \<noteq> MaxIterations" if "\<forall>req w. fst (stream env req w) \<noteq> Inl MaxIterations"
        using turn_iteration_MaxIterations [of env' n acc st st1] q Inl that "1.prems"(2)
        by (auto simp: counted_def case_prod_beta)
      with step r False show ?thesis by auto
    next
      case (Inr p)
      obtain acc1 fin where p: "p = (acc1, fin)" by (cases p)
      then have st1: "snd (world st1) = Suc (snd (world st))" using step Inr by simp
      show ?thesis
      proof (cases fin)
        case True
        with "1.prems"(1) q False max Inr p have "r = Inr (acc1, n)" "st' = st1"
          by (simp_all add: turn_loop.simps [of env' n])
        with st1 False show ?thesis by simp
      next
        case more: False
        with "1.prems"(1) q False max Inr p have l: "turn_loop env' (n + 1) acc1 st1 = (r, st')"
          by (simp add: turn_loop.simps [of env' n])
        have "\<not> max_iterations env' < n" using False max by simp
        from "1.IH" [OF this q [symmetric] Inr p [symmetric] more l "1.prems"(2)] False have
          "snd (world st1) \<le> snd (world st') \<and> snd (world st') + (n + 1) \<le> snd (world st1) + Suc (max_iterations env)
           \<and> (case r of Inr (acc', k) \<Rightarrow> snd (world st1) + Suc k = snd (world st') + (n + 1)
              | Inl e \<Rightarrow> e = MaxIterations \<longrightarrow> (\<forall>req w. fst (stream env req w) \<noteq> Inl MaxIterations) \<longrightarrow>
                 snd (world st') + (n + 1) = snd (world st1) + Suc (max_iterations env))"
          by auto
        with st1 show ?thesis by (auto split: sum.splits prod.splits)
      qed
    qed
  qed
qed

lemma turn_start_not_Max: "turn_start env user_input st \<noteq> (Inl MaxIterations, st')"
  by (auto simp: turn_start_def push_def Let_def split: prod.splits sum.splits if_splits)

text \<open>C12: a turn always returns. It calls the model at most as often as the configuration allows; a successful turn calls it
  exactly as often as it reports iterations; and a turn gives up with \<open>MaxIterations\<close> only after the model was called exactly that
  often, if the model client does not fail with this error itself. The automatic compaction at the end never indexes out of range.\<close>

theorem run_turn_returns:
  "\<exists>r st'. run_turn (counted env) user_input st = Some (r, st')
     \<and> snd (world st) \<le> snd (world st') \<and> snd (world st') \<le> snd (world st) + max_iterations env
     \<and> (case r of
          Inr summ \<Rightarrow> snd (world st') = snd (world st) + iterations summ
        | Inl e \<Rightarrow> e = MaxIterations \<longrightarrow> (\<forall>req w. fst (stream env req w) \<noteq> Inl MaxIterations) \<longrightarrow>
            snd (world st') = snd (world st) + max_iterations env)"
proof -
  obtain r st' where run: "run_turn (counted env) user_input st = Some (r, st')" using run_turn_total by blast
  then show ?thesis
  proof (cases rule: run_turn_cases)
    case (start e)
    have "snd (world st') = snd (world st)" by (rule count.turn_start_I [OF refl start(1)])
    moreover have "e \<noteq> MaxIterations" using start(1) turn_start_not_Max by blast
    ultimately show ?thesis using run start(2) by (intro exI [of _ r] exI [of _ st']) simp
  next
    case (loop st2 e)
    have "snd (world st2) = snd (world st)" by (rule count.turn_start_I [OF refl loop(1)])
    with run loop(3) turn_loop_count [OF loop(2) refl] show ?thesis by (intro exI [of _ r] exI [of _ st']) auto
  next
    case (finished st2 acc n st3 c st4)
    have "snd (world st2) = snd (world st)" by (rule count.turn_start_I [OF refl finished(1)])
    moreover have "world st4 = world st3" using finished(3) by (auto simp: maybe_auto_compact_def split: if_splits)
    moreover have "snd (world st') = snd (world st4)"
      unfolding finished(5) record_turn_completed_def by (rule count.trace_I [OF refl])
    ultimately show ?thesis
      using finished(4) run turn_loop_count [OF finished(2) refl]
      by (intro exI [of _ r] exI [of _ st']) (auto simp: turn_end_def)
  qed
qed

lemma authorize_allow_grants:
  assumes "fst (authorize_with_context fs pol t i ctx None (w :: 'w)) = OutcomeAllow"
  shows "grants fs pol t i"
  using assms by (cases rule: authorize_cases [where 'w = 'w, of fs pol t i ctx]) auto

lemma authorize_allow_not_denied:
  assumes "fst (authorize_with_context fs pol t i ctx pr (w :: 'w)) = OutcomeAllow"
  shows "\<not> list_ex (\<lambda>r. rule_matches fs r t i) (deny_rules pol)"
  using assms by (cases rule: authorize_cases [where 'w = 'w, of fs pol t i ctx])
    (auto simp: grants_def asks_def)

lemma logged_simps:
  "from_str (hooks (logged env)) = from_str (hooks env)"
  "permission_policy (logged env) = permission_policy env"
  "prompter (logged env) = None \<longleftrightarrow> prompter env = None"
  by (simp_all add: logged_def logged_hooks_def)

text \<open>C5: no tool call that a deny rule matches is executed, whatever the model, the hooks and the
  user answer. The calls are those the executor receives, recorded by a log beside the world; the
  health probe after a compaction is the one call that does not pass through the policy.\<close>

theorem denied_tools_never_run:
  assumes "run_turn (logged env) user_input st = Some (r, st')" and "snd (world st) = []"
    and "(name, inp) \<in> set (snd (world st'))" and "(name, inp) \<noteq> (lit ''glob_search'', probe_input)"
  shows "\<not> list_ex (\<lambda>r. rule_matches (from_str (hooks env)) r name inp) (deny_rules (permission_policy env))"
proof -
  have "\<forall>(name, inp) \<in> set (snd (world st')). authorised (logged env) name inp"
    by (rule log.run_turn_I [OF _ assms(1)]) (simp add: assms(2))
  with assms(3,4) show ?thesis
    by (auto simp: authorised_def logged_simps dest!: authorize_allow_not_denied)
qed

text \<open>C6: without a prompter every executed call is one the policy grants by itself: no deny and no
  ask rule matches it, and an allow rule does or the session's mode is high enough. Hooks may
  rewrite the input, and it is the rewritten call that is checked.\<close>

theorem unattended_tools_are_granted:
  assumes "run_turn (logged env) user_input st = Some (r, st')" and "snd (world st) = []"
    and "prompter env = None" and "(name, inp) \<in> set (snd (world st'))"
    and "(name, inp) \<noteq> (lit ''glob_search'', probe_input)"
  shows "grants (from_str (hooks env)) (permission_policy env) name inp"
proof -
  have "\<forall>(name, inp) \<in> set (snd (world st')). authorised (logged env) name inp"
    by (rule log.run_turn_I [OF _ assms(1)]) (simp add: assms(2))
  moreover have "prompter (logged env) = None" using assms(3) by (simp add: logged_simps)
  ultimately show ?thesis using assms(4,5)
    by (auto simp: authorised_def logged_simps dest!: authorize_allow_grants)
qed

lemmas sample_run_defs =
  run_turn_def sample_runtime_def ConversationRuntime_new_def Let_def case_prod_beta push_def push_message_def
  touch_def trace_def record_defs record_tool_finished_def logged_def logged_hooks_def sample_env_def sample_hooks_def
  lift_fst_def lift_unit_def turn_loop.simps turn_iteration_def is_set_def build_assistant_message_def
  assembly_init_def assembly_step_def flush_text_block_def ConversationMessage_assistant_with_usage_def
  ConversationMessage_user_text_def ConversationMessage_tool_result_def pending_tool_uses_def
  List.map_filter_simps run_tool_def run_pre_tool_use_def run_post_tool_use_def run_commands_def
  HookRunResult_allow_def decide_permission_def authorize_with_context_def find_matching_rule_def
  PermissionPolicy_new_def required_mode_for_def maybe_auto_compact_def UsageTracker_from_session_def
  hook_refused_def cumulative_usage_def UsageTracker_new_def TokenUsage_default_def

lemma sample_run:
  obtains summ st' where "run_turn (logged sample_env) (lit ''go'') sample_runtime = Some (Inr summ, st')"
    "auto_compaction summ = None" "iterations summ = 2" "snd (world st') = [(lit ''ls'', [])]"
proof -
  have "case run_turn (logged sample_env) (lit ''go'') sample_runtime of
      Some (Inr summ, st') \<Rightarrow> auto_compaction summ = None \<and> iterations summ = 2
        \<and> snd (world st') = [(lit ''ls'', [])]
    | _ \<Rightarrow> False"
    by (simp add: sample_run_defs)
  then show thesis using that by (auto split: option.splits prod.splits sum.splits)
qed

lemma sample_paired_runtime: "paired [] (messages (rt_session sample_runtime))" "snd (world sample_runtime) = []"
  "usage_tracker sample_runtime = UsageTracker_from_session (rt_session sample_runtime)"
  by (simp_all add: sample_runtime_def ConversationRuntime_new_def)

theorem run_turn_keeps_pairing_witness:
  "\<exists>r st'. run_turn (logged sample_env) (lit ''go'') sample_runtime = Some (r, st')
     \<and> paired [] (messages (rt_session st'))"
  by (rule sample_run) (use run_turn_keeps_pairing [OF sample_paired_runtime(1)] in blast)

theorem run_turn_transcript_witness:
  "\<exists>summ st' rounds. run_turn (logged sample_env) (lit ''go'') sample_runtime = Some (Inr summ, st')
     \<and> messages (rt_session st') = messages (rt_session sample_runtime)
          @ ConversationMessage_user_text (lit ''go'') # round_messages rounds
     \<and> list_all complete_round rounds \<and> length rounds = 2"
proof (rule sample_run)
  fix summ st'
  assume r: "run_turn (logged sample_env) (lit ''go'') sample_runtime = Some (Inr summ, st')"
    and "auto_compaction summ = None" "iterations summ = 2"
  with run_turn_transcript [OF r] show ?thesis by fastforce
qed

theorem run_turn_usage_witness:
  "\<exists>summ st'. run_turn (logged sample_env) (lit ''go'') sample_runtime = Some (Inr summ, st')
     \<and> usage_tracker st' = UsageTracker_from_session (rt_session st')"
  by (rule sample_run) (use run_turn_usage [OF _ _ sample_paired_runtime(3)] in blast)

lemma sample_gives_up:
  "\<exists>st'. run_turn (counted (sample_env\<lparr>max_iterations := 1\<rparr>)) (lit ''go'')
      (ConversationRuntime_new (rt_session sample_runtime) sample_clock ((), 0)) = Some (Inl MaxIterations, st')"
proof -
  have "case run_turn (counted (sample_env\<lparr>max_iterations := 1\<rparr>)) (lit ''go'')
      (ConversationRuntime_new (rt_session sample_runtime) sample_clock ((), 0)) of
      Some (Inl e, st') \<Rightarrow> e = MaxIterations | _ \<Rightarrow> False"
    by (simp add: sample_run_defs counted_def)
  then show ?thesis by (auto split: option.splits prod.splits sum.splits)
qed

theorem run_turn_returns_witness:
  "\<exists>st'. run_turn (counted (sample_env\<lparr>max_iterations := 1\<rparr>)) (lit ''go'')
      (ConversationRuntime_new (rt_session sample_runtime) sample_clock ((), 0)) = Some (Inl MaxIterations, st')
    \<and> snd (world st') = 1"
proof -
  let ?env = "sample_env\<lparr>max_iterations := 1\<rparr>"
  have "\<forall>req w. fst (stream ?env req w) \<noteq> Inl MaxIterations" by (simp add: sample_env_def)
  with run_turn_returns [of ?env "lit ''go''" "ConversationRuntime_new (rt_session sample_runtime) sample_clock ((), 0)"]
    sample_gives_up show ?thesis
    by (auto simp: ConversationRuntime_new_def)
qed

theorem denied_tools_never_run_witness:
  "\<not> list_ex (\<lambda>r. rule_matches (from_str (hooks sample_env)) r (lit ''ls'') [])
     (deny_rules (permission_policy sample_env))"
proof (rule sample_run)
  fix summ st'
  assume r: "run_turn (logged sample_env) (lit ''go'') sample_runtime = Some (Inr summ, st')"
    and "snd (world st') = [(lit ''ls'', [])]"
  then have "(lit ''ls'', []) \<in> set (snd (world st'))" by simp
  then show ?thesis by (rule denied_tools_never_run [OF r sample_paired_runtime(2)]) simp
qed

theorem unattended_tools_are_granted_witness:
  "grants (from_str (hooks sample_env)) (permission_policy sample_env) (lit ''ls'') []"
proof (rule sample_run)
  fix summ st'
  assume r: "run_turn (logged sample_env) (lit ''go'') sample_runtime = Some (Inr summ, st')"
    and "snd (world st') = [(lit ''ls'', [])]"
  moreover have "prompter sample_env = None" by (simp add: sample_env_def)
  moreover have "(lit ''ls'', []) \<noteq> (lit ''glob_search'', probe_input)" by simp
  ultimately show ?thesis using unattended_tools_are_granted [OF r sample_paired_runtime(2)] by simp
qed

theorem cancelled_turn_adds_no_reply_witness:
  "\<exists>e st'. run_turn ((logged sample_env)\<lparr>cancel_signal := Some (\<lambda>_. True)\<rparr>) (lit ''go'') sample_runtime
     = Some (Inl e, st') \<and> length (messages (rt_session st')) \<le> 1"
proof -
  let ?env = "(logged sample_env)\<lparr>cancel_signal := Some (\<lambda>_. True)\<rparr>"
  have m: "1 \<le> max_iterations ?env" by (simp add: logged_def sample_env_def)
  have c: "is_set (cancel_signal ?env) w \<or> is_set (cancel_token ?env) w" for w by (simp add: is_set_def)
  obtain r st' where r: "run_turn ?env (lit ''go'') sample_runtime = Some (r, st')"
    using run_turn_total by blast
  have "messages (rt_session sample_runtime) = []" by (simp add: sample_runtime_def ConversationRuntime_new_def)
  with cancelled_turn_adds_no_reply [OF m c r] r show ?thesis by auto
qed

end
