(* ===== verification/Approval_Tokens.thy ===== *)
theory Approval_Tokens
  imports Prelude
begin

text \<open>
  The ledger of approval tokens, \<^verbatim>\<open>runtime/src/approval_tokens.rs\<close>: grants bound to a scope and an
  executor, their verification and consumption, and the audit record. The ledger is a
  \<^verbatim>\<open>BTreeMap\<close>; use counts are 32-bit words and expiry times 64-bit words.
  The lemmas show that a token is accepted exactly under its conditions, that a run of operations
  spends it at most as often as it was granted, and that a revoked token stays dead.
\<close>

section \<open>Definitions\<close>

record ApprovalScope =
  policy :: ustr
  scope_action :: ustr
  repository :: "ustr option"
  branch :: "ustr option"

definition ApprovalScope_new :: "ustr \<Rightarrow> ustr \<Rightarrow> ApprovalScope" where
  "ApprovalScope_new p a = \<lparr>policy = p, scope_action = a, repository = None, branch = None\<rparr>"

definition with_repository :: "ustr \<Rightarrow> ApprovalScope \<Rightarrow> ApprovalScope" where
  "with_repository r s = s\<lparr>repository := Some r\<rparr>"

definition with_branch :: "ustr \<Rightarrow> ApprovalScope \<Rightarrow> ApprovalScope" where
  "with_branch b s = s\<lparr>branch := Some b\<rparr>"

record ApprovalDelegationHop =
  actor :: ustr
  hop_session_id :: "ustr option"
  hop_reason :: ustr

definition ApprovalDelegationHop_new :: "ustr \<Rightarrow> ustr \<Rightarrow> ApprovalDelegationHop" where
  "ApprovalDelegationHop_new a r = \<lparr>actor = a, hop_session_id = None, hop_reason = r\<rparr>"

definition hop_with_session_id :: "ustr \<Rightarrow> ApprovalDelegationHop \<Rightarrow> ApprovalDelegationHop" where
  "hop_with_session_id i h = h\<lparr>hop_session_id := Some i\<rparr>"

datatype ApprovalTokenStatus = Pending | Granted | Consumed | Expired | Revoked

fun status_as_str :: "ApprovalTokenStatus \<Rightarrow> ustr" where
  "status_as_str Pending = lit ''approval_pending''"
| "status_as_str Granted = lit ''approval_granted''"
| "status_as_str Consumed = lit ''approval_consumed''"
| "status_as_str Expired = lit ''approval_expired''"
| "status_as_str Revoked = lit ''approval_revoked''"

datatype ApprovalTokenError =
    NoApproval
  | ApprovalPending
  | ApprovalExpired
  | ApprovalRevoked
  | ApprovalAlreadyConsumed
  | ScopeMismatch ApprovalScope ApprovalScope
  | UnauthorizedDelegate ustr ustr

fun token_error_as_str :: "ApprovalTokenError \<Rightarrow> ustr" where
  "token_error_as_str NoApproval = lit ''no_approval''"
| "token_error_as_str ApprovalPending = lit ''approval_pending''"
| "token_error_as_str ApprovalExpired = lit ''approval_expired''"
| "token_error_as_str ApprovalRevoked = lit ''approval_revoked''"
| "token_error_as_str ApprovalAlreadyConsumed = lit ''approval_already_consumed''"
| "token_error_as_str (ScopeMismatch e a) = lit ''approval_scope_mismatch''"
| "token_error_as_str (UnauthorizedDelegate e a) = lit ''approval_unauthorized_delegate''"

record ApprovalTokenGrant =
  token :: ustr
  grant_scope :: ApprovalScope
  approving_actor :: ustr
  approved_executor :: ustr
  status :: ApprovalTokenStatus
  expires_at_epoch_seconds :: "u64 option"
  max_uses :: u32
  uses :: u32
  delegation_chain :: "ApprovalDelegationHop list"

definition grant_pending :: "ustr \<Rightarrow> ApprovalScope \<Rightarrow> ustr \<Rightarrow> ustr \<Rightarrow> ApprovalTokenGrant" where
  "grant_pending tok s approver executor =
     \<lparr>token = tok, grant_scope = s, approving_actor = approver, approved_executor = executor,
      status = Pending, expires_at_epoch_seconds = None, max_uses = 1, uses = 0, delegation_chain = []\<rparr>"

definition grant_approve :: "ApprovalTokenGrant \<Rightarrow> ApprovalTokenGrant" where
  "grant_approve g = g\<lparr>status := Granted\<rparr>"

definition grant_granted :: "ustr \<Rightarrow> ApprovalScope \<Rightarrow> ustr \<Rightarrow> ustr \<Rightarrow> ApprovalTokenGrant" where
  "grant_granted tok s approver executor = grant_approve (grant_pending tok s approver executor)"

definition grant_expires_at :: "u64 \<Rightarrow> ApprovalTokenGrant \<Rightarrow> ApprovalTokenGrant" where
  "grant_expires_at t g = g\<lparr>expires_at_epoch_seconds := Some t\<rparr>"

definition with_max_uses :: "u32 \<Rightarrow> ApprovalTokenGrant \<Rightarrow> ApprovalTokenGrant" where
  "with_max_uses n g = g\<lparr>max_uses := max n 1\<rparr>"

definition with_delegation_hop :: "ApprovalDelegationHop \<Rightarrow> ApprovalTokenGrant \<Rightarrow> ApprovalTokenGrant" where
  "with_delegation_hop h g = g\<lparr>delegation_chain := delegation_chain g @ [h]\<rparr>"

record ApprovalTokenAudit =
  audit_token :: ustr
  audit_scope :: ApprovalScope
  audit_approving_actor :: ustr
  audit_executing_actor :: ustr
  audit_status :: ApprovalTokenStatus
  delegated_execution :: bool
  audit_chain :: "ApprovalDelegationHop list"
  audit_uses :: u32
  audit_max_uses :: u32

type_synonym ledger = "(ustr, ApprovalTokenGrant) btree"

definition audit_for :: "ApprovalTokenGrant \<Rightarrow> ustr \<Rightarrow> ApprovalTokenAudit" where
  "audit_for g executing_actor =
     (let chain = (if delegation_chain g = []
                   then [ApprovalDelegationHop_new (approving_actor g) (lit ''approval granted'')]
                   else delegation_chain g);
          chain1 = (if approving_actor g \<noteq> executing_actor
                       \<and> \<not> list_ex (\<lambda>h. actor h = executing_actor) chain
                    then chain @ [ApprovalDelegationHop_new executing_actor (lit ''delegated execution'')]
                    else chain)
      in \<lparr>audit_token = token g, audit_scope = grant_scope g, audit_approving_actor = approving_actor g,
          audit_executing_actor = executing_actor, audit_status = status g,
          delegated_execution = (approving_actor g \<noteq> executing_actor), audit_chain = chain1,
          audit_uses = uses g, audit_max_uses = max_uses g\<rparr>)"

definition validate_grant ::
  "ApprovalTokenGrant \<Rightarrow> ApprovalScope \<Rightarrow> ustr \<Rightarrow> u64 \<Rightarrow> ApprovalTokenError + unit" where
  "validate_grant g s executing_actor now =
     (case status g of
        Pending \<Rightarrow> Inl ApprovalPending
      | Consumed \<Rightarrow> Inl ApprovalAlreadyConsumed
      | Expired \<Rightarrow> Inl ApprovalExpired
      | Revoked \<Rightarrow> Inl ApprovalRevoked
      | Granted \<Rightarrow>
          if (case expires_at_epoch_seconds g of Some t \<Rightarrow> t < now | None \<Rightarrow> False) then Inl ApprovalExpired
          else if max_uses g \<le> uses g then Inl ApprovalAlreadyConsumed
          else if grant_scope g \<noteq> s then Inl (ScopeMismatch (grant_scope g) s)
          else if approved_executor g \<noteq> executing_actor
          then Inl (UnauthorizedDelegate (approved_executor g) executing_actor)
          else Inr ())"

definition ledger_insert :: "ApprovalTokenGrant \<Rightarrow> ledger \<Rightarrow> ledger" where
  "ledger_insert g l = btree_insert (token g) g l"

definition ledger_get :: "ledger \<Rightarrow> ustr \<Rightarrow> ApprovalTokenGrant option" where
  "ledger_get l tok = btree_get l tok"

definition ledger_revoke :: "ustr \<Rightarrow> ledger \<Rightarrow> (ApprovalTokenError + ApprovalTokenAudit) \<times> ledger" where
  "ledger_revoke tok l =
     (case ledger_get l tok of
        None \<Rightarrow> (Inl NoApproval, l)
      | Some g \<Rightarrow>
          let g' = g\<lparr>status := Revoked\<rparr>
          in (Inr (audit_for g' (approved_executor g')), btree_insert tok g' l))"

definition ledger_verify ::
  "ustr \<Rightarrow> ApprovalScope \<Rightarrow> ustr \<Rightarrow> u64 \<Rightarrow> ledger \<Rightarrow> ApprovalTokenError + ApprovalTokenAudit" where
  "ledger_verify tok s executing_actor now l =
     (case ledger_get l tok of
        None \<Rightarrow> Inl NoApproval
      | Some g \<Rightarrow> rbind (validate_grant g s executing_actor now) (\<lambda>_. Inr (audit_for g executing_actor)))"

definition ledger_consume ::
  "ustr \<Rightarrow> ApprovalScope \<Rightarrow> ustr \<Rightarrow> u64 \<Rightarrow> ledger \<Rightarrow> (ApprovalTokenError + ApprovalTokenAudit) \<times> ledger" where
  "ledger_consume tok s executing_actor now l =
     (case ledger_get l tok of
        None \<Rightarrow> (Inl NoApproval, l)
      | Some g \<Rightarrow>
          (case validate_grant g s executing_actor now of
             Inl e \<Rightarrow> (Inl e, l)
           | Inr _ \<Rightarrow>
               let g1 = g\<lparr>uses := uses g + 1\<rparr>;
                   g2 = (if max_uses g1 \<le> uses g1 then g1\<lparr>status := Consumed\<rparr> else g1)
               in (Inr (audit_for g2 executing_actor), btree_insert tok g2 l)))"

subsection \<open>Runs of the ledger\<close>

datatype LedgerOp =
    Insert ApprovalTokenGrant
  | Revoke ustr
  | Consume ustr ApprovalScope ustr u64

text \<open>One operation, with whether it was a successful consumption.\<close>

fun ledger_op :: "LedgerOp \<Rightarrow> ledger \<Rightarrow> ledger" where
  "ledger_op (Insert g) l = ledger_insert g l"
| "ledger_op (Revoke tok) l = snd (ledger_revoke tok l)"
| "ledger_op (Consume tok s a now) l = snd (ledger_consume tok s a now l)"

fun spends :: "ustr \<Rightarrow> LedgerOp \<Rightarrow> ledger \<Rightarrow> bool" where
  "spends tok (Consume tok' s a now) l \<longleftrightarrow> tok' = tok \<and> is_ok (fst (ledger_consume tok' s a now l))"
| "spends tok _ l \<longleftrightarrow> False"

fun times_spent :: "ustr \<Rightarrow> LedgerOp list \<Rightarrow> ledger \<Rightarrow> nat" where
  "times_spent tok [] l = 0"
| "times_spent tok (op # ops) l = (if spends tok op l then 1 else 0) + times_spent tok ops (ledger_op op l)"

fun reissues :: "ustr \<Rightarrow> LedgerOp \<Rightarrow> bool" where
  "reissues tok (Insert g) \<longleftrightarrow> token g = tok"
| "reissues tok _ \<longleftrightarrow> False"

definition ledger_wf :: "ledger \<Rightarrow> bool" where
  "ledger_wf l \<longleftrightarrow> btree_wf l \<and> list_all (\<lambda>(k, g). token g = k) l"

definition usable :: "ApprovalTokenGrant \<Rightarrow> ApprovalScope \<Rightarrow> ustr \<Rightarrow> u64 \<Rightarrow> bool" where
  "usable g s executing_actor now \<longleftrightarrow> status g = Granted
     \<and> (case expires_at_epoch_seconds g of Some t \<Rightarrow> now \<le> t | None \<Rightarrow> True)
     \<and> uses g < max_uses g \<and> grant_scope g = s \<and> approved_executor g = executing_actor"

text \<open>How often a grant may still be spent.\<close>

definition budget :: "ApprovalTokenGrant \<Rightarrow> nat" where
  "budget g = (if status g = Granted then unat (max_uses g) - unat (uses g) else 0)"

definition sample_grant :: ApprovalTokenGrant where
  "sample_grant = grant_granted (lit ''tok'') (ApprovalScope_new (lit ''main'') (lit ''push'')) (lit ''owner'') (lit ''bot'')"

section \<open>Consuming a token\<close>

lemma validate_grant_iff: "validate_grant g s a now = Inr () \<longleftrightarrow> usable g s a now"
  by (auto simp: validate_grant_def usable_def split: ApprovalTokenStatus.split option.split)

lemma validate_grant_cases: "(\<exists>e. validate_grant g s a now = Inl e) \<or> validate_grant g s a now = Inr ()"
  by (cases "validate_grant g s a now") auto

text \<open>A token is accepted exactly if it is in the ledger, granted and not yet expired, has uses
  left, and was issued for this very scope and executor. Acceptance counts one use and the last
  use retires the token; a refusal leaves the ledger as it was. Verifying gives the same answer
  without counting.\<close>

theorem consume_iff_usable:
  "case ledger_get l tok of
     Some g \<Rightarrow>
       (if usable g s executor now
        then snd (ledger_consume tok s executor now l) = btree_insert tok
               (if max_uses g \<le> uses g + 1 then g\<lparr>uses := uses g + 1, status := Consumed\<rparr>
                else g\<lparr>uses := uses g + 1\<rparr>) l
             \<and> is_ok (fst (ledger_consume tok s executor now l)) \<and> is_ok (ledger_verify tok s executor now l)
        else snd (ledger_consume tok s executor now l) = l
             \<and> \<not> is_ok (fst (ledger_consume tok s executor now l)) \<and> \<not> is_ok (ledger_verify tok s executor now l))
   | None \<Rightarrow> ledger_consume tok s executor now l = (Inl NoApproval, l) \<and> ledger_verify tok s executor now l = Inl NoApproval"
proof (cases "ledger_get l tok")
  case None
  then show ?thesis by (simp add: ledger_consume_def ledger_verify_def)
next
  case (Some g)
  show ?thesis
  proof (cases "usable g s executor now")
    case True
    then have "validate_grant g s executor now = Inr ()" "status g = Granted"
      by (simp_all add: validate_grant_iff) (simp add: usable_def)
    with Some True show ?thesis by (simp add: ledger_consume_def ledger_verify_def Let_def is_ok_def)
  next
    case False
    then obtain e where "validate_grant g s executor now = Inl e"
      using validate_grant_cases validate_grant_iff by blast
    with Some False show ?thesis by (simp add: ledger_consume_def ledger_verify_def is_ok_def)
  qed
qed

section \<open>Runs\<close>

lemma list_all_tokens:
  "list_all (\<lambda>(k, g). token g = k) l \<Longrightarrow> token g = k \<Longrightarrow> list_all (\<lambda>(k, g). token g = k) (btree_insert k g l)"
  by (induction k g l rule: btree_insert.induct) auto

lemma ledger_wf_insert: "ledger_wf l \<Longrightarrow> token g = k \<Longrightarrow> ledger_wf (btree_insert k g l)"
  by (simp add: ledger_wf_def list_all_tokens)

lemma ledger_get_token: "ledger_wf l \<Longrightarrow> ledger_get l tok = Some g \<Longrightarrow> token g = tok"
  by (auto simp: ledger_wf_def ledger_get_def btree_get_def list_all_iff dest: map_of_SomeD)

lemma ledger_op_wf: "ledger_wf l \<Longrightarrow> ledger_wf (ledger_op op l)"
  by (cases op) (auto simp: ledger_insert_def ledger_revoke_def ledger_consume_def Let_def ledger_wf_insert
      ledger_get_token split: option.split sum.split)

interpretation ledger: invariant_ops ledger_op ledger_wf
  by unfold_locales (rule ledger_op_wf)

lemma ledger_get_insert:
  "ledger_wf l \<Longrightarrow> ledger_get (btree_insert k g l) tok = (if tok = k then Some g else ledger_get l tok)"
  by (simp add: ledger_get_def ledger_wf_def bt.get_insert)

lemma unat_inc: "u < (m :: u32) \<Longrightarrow> unat (u + 1) = unat u + 1"
proof -
  assume "u < m"
  then have "u \<noteq> - 1" using word_n1_ge [of m] by (metis linorder_not_less)
  then have "1 + u \<noteq> 0" by (metis add.commute eq_neg_iff_add_eq_0)
  then show ?thesis by (metis Suc_eq_plus1 add.commute unatSuc)
qed

text \<open>An operation that does not reissue the token leaves its budget at most as large, and smaller by
  one when it spends it.\<close>

lemma ledger_op_budget:
  assumes wf: "ledger_wf l" and op: "\<not> reissues tok op"
  shows "case ledger_get l tok of
      None \<Rightarrow> ledger_get (ledger_op op l) tok = None \<and> \<not> spends tok op l
    | Some g \<Rightarrow> \<exists>g'. ledger_get (ledger_op op l) tok = Some g'
        \<and> budget g' + (if spends tok op l then 1 else 0) \<le> budget g"
proof (cases op)
  case (Insert g)
  with op wf show ?thesis by (auto simp: ledger_insert_def ledger_get_insert split: option.split)
next
  case (Revoke tok')
  with wf show ?thesis
    by (auto simp: ledger_revoke_def Let_def ledger_get_insert budget_def split: option.split)
next
  case (Consume tok' s a now)
  show ?thesis
  proof (cases "tok' = tok")
    case False
    with Consume wf show ?thesis
      by (auto simp: ledger_consume_def Let_def ledger_get_insert split: option.split sum.split)
  next
    case True
    show ?thesis
    proof (cases "ledger_get l tok")
      case None
      with True Consume show ?thesis by (simp add: ledger_consume_def is_ok_def)
    next
      case (Some g)
      show ?thesis
      proof (cases "usable g s a now")
        case u: True
        then have v: "validate_grant g s a now = Inr ()" by (simp add: validate_grant_iff)
        from u have lt: "uses g < max_uses g" "status g = Granted" by (simp_all add: usable_def)
        then have "unat (uses g + 1) = unat (uses g) + 1" "unat (uses g) < unat (max_uses g)"
          by (simp_all add: unat_inc word_less_nat_alt)
        with lt Some True Consume v wf show ?thesis
          by (auto simp: ledger_consume_def Let_def ledger_get_insert is_ok_def budget_def)
      next
        case False
        then obtain e where "validate_grant g s a now = Inl e"
          using validate_grant_cases validate_grant_iff by blast
        with Some True Consume show ?thesis by (simp add: ledger_consume_def is_ok_def)
      qed
    qed
  qed
qed

lemma times_spent_budget:
  assumes "ledger_wf l" and "list_all (\<lambda>op. \<not> reissues tok op) ops"
  shows "times_spent tok ops l \<le> (case ledger_get l tok of None \<Rightarrow> 0 | Some g \<Rightarrow> budget g)"
  using assms
proof (induction ops arbitrary: l)
  case (Cons op ops)
  then have "times_spent tok ops (ledger_op op l)
      \<le> (case ledger_get (ledger_op op l) tok of None \<Rightarrow> 0 | Some g \<Rightarrow> budget g)"
    by (simp add: ledger_op_wf)
  moreover have "\<not> reissues tok op" using Cons.prems by simp
  ultimately show ?case using ledger_op_budget [OF Cons.prems(1), of tok op]
    by (fastforce split: option.splits)
qed simp

text \<open>C17: however a ledger is used, by any number of actors and with any scopes and times, a token
  that is not issued anew is accepted at most as often as it has uses left.\<close>

theorem token_spent_within_budget:
  assumes "list_all (\<lambda>op. \<not> reissues tok op) ops"
    and "ledger_get (fold ledger_op history []) tok = Some g"
  shows "times_spent tok ops (fold ledger_op history []) \<le> unat (max_uses g) - unat (uses g)"
proof -
  have "ledger_wf (fold ledger_op history [])" by (rule ledger.run_inv) (simp add: ledger_wf_def)
  from times_spent_budget [OF this assms(1)] assms(2) show ?thesis
    by (simp add: budget_def split: if_splits)
qed

theorem token_spent_within_budget_witness:
  "times_spent (lit ''tok'') (replicate 3 (Consume (lit ''tok'') (grant_scope sample_grant) (lit ''bot'') 7))
     (fold ledger_op [Insert sample_grant] []) \<le> 1"
proof -
  have g: "ledger_get (fold ledger_op [Insert sample_grant] []) (lit ''tok'') = Some sample_grant"
    by (simp add: ledger_insert_def ledger_get_def btree_get_def sample_grant_def grant_granted_def
        grant_approve_def grant_pending_def)
  have n: "list_all (\<lambda>op. \<not> reissues (lit ''tok'') op)
      (replicate 3 (Consume (lit ''tok'') (grant_scope sample_grant) (lit ''bot'') 7))"
    by (simp add: numeral_3_eq_3)
  have "unat (max_uses sample_grant) - unat (uses sample_grant) = 1"
    by (simp add: sample_grant_def grant_granted_def grant_approve_def grant_pending_def)
  with token_spent_within_budget [OF n g] show ?thesis by simp
qed

text \<open>After a token is revoked it is never accepted again unless it is issued anew.\<close>

theorem revoked_token_never_spent:
  assumes "list_all (\<lambda>op. \<not> reissues tok op) ops"
  shows "times_spent tok ops (ledger_op (Revoke tok) (fold ledger_op history [])) = 0"
proof -
  let ?l = "ledger_op (Revoke tok) (fold ledger_op history [])"
  have wf: "ledger_wf (fold ledger_op history [])" by (rule ledger.run_inv) (simp add: ledger_wf_def)
  then have "ledger_get ?l tok = None \<or> (\<exists>g. ledger_get ?l tok = Some g \<and> budget g = 0)"
    by (auto simp: ledger_revoke_def Let_def ledger_get_insert budget_def split: option.split)
  with times_spent_budget [OF ledger_op_wf [OF wf, of "Revoke tok"] assms] show ?thesis by auto
qed

theorem revoked_token_never_spent_witness:
  "times_spent (lit ''tok'') (replicate 3 (Consume (lit ''tok'') (grant_scope sample_grant) (lit ''bot'') 7))
     (ledger_op (Revoke (lit ''tok'')) (fold ledger_op [Insert sample_grant] [])) = 0"
  by (rule revoked_token_never_spent) (simp add: numeral_3_eq_3)

section \<open>Audit\<close>

text \<open>The audit record of a delegated execution names the executing actor in its chain, and the
  chain is never empty.\<close>

theorem audit_names_executor:
  "audit_chain (audit_for g executor) \<noteq> []
   \<and> (if delegated_execution (audit_for g executor)
      then list_ex (\<lambda>h. actor h = executor) (audit_chain (audit_for g executor))
      else approving_actor g = executor)"
  by (simp add: audit_for_def Let_def ApprovalDelegationHop_new_def)

end
