(* ===== verification/Green_Contract.thy ===== *)
theory Green_Contract
  imports Prelude
begin

text \<open>
  The green contract of \<^verbatim>\<open>runtime/src/green_contract.rs\<close>: levels of test evidence in their derived
  order, the contract and its evaluation against an observed level and against recorded evidence.
\<close>

section \<open>Definitions\<close>

datatype GreenLevel = TargetedTests | Package | Workspace | MergeReady

fun green_rank :: "GreenLevel \<Rightarrow> nat" where
  "green_rank TargetedTests = 0"
| "green_rank Package = 1"
| "green_rank Workspace = 2"
| "green_rank MergeReady = 3"

instantiation GreenLevel :: linorder
begin

definition less_eq_GreenLevel :: "GreenLevel \<Rightarrow> GreenLevel \<Rightarrow> bool" where
  "less_eq_GreenLevel a b \<longleftrightarrow> green_rank a \<le> green_rank b"

definition less_GreenLevel :: "GreenLevel \<Rightarrow> GreenLevel \<Rightarrow> bool" where
  "less_GreenLevel a b \<longleftrightarrow> green_rank a < green_rank b"

instance
proof
  fix a b :: GreenLevel
  show "a \<le> b \<Longrightarrow> b \<le> a \<Longrightarrow> a = b"
    by (cases a; cases b) (simp_all add: less_eq_GreenLevel_def)
qed (auto simp: less_eq_GreenLevel_def less_GreenLevel_def)

end

fun green_as_str :: "GreenLevel \<Rightarrow> ustr" where
  "green_as_str TargetedTests = lit ''targeted_tests''"
| "green_as_str Package = lit ''package''"
| "green_as_str Workspace = lit ''workspace''"
| "green_as_str MergeReady = lit ''merge_ready''"

datatype GreenContractRequirement =
  RequiredLevel | TestCommandProvenanceReq | BaseBranchFreshness | RecoveryAttemptContext

record TestCommandProvenance =
  command :: ustr
  exit_code :: i32

definition test_passed :: "TestCommandProvenance \<Rightarrow> bool" where
  "test_passed t \<longleftrightarrow> exit_code t = 0 \<and> trim (command t) \<noteq> []"

record KnownFlake =
  test_name :: ustr
  blocks_green :: bool

record GreenEvidence =
  observed_level :: GreenLevel
  test_commands :: "TestCommandProvenance list"
  base_branch_fresh :: bool
  known_flakes :: "KnownFlake list"
  recovery_attempt_context_recorded :: bool

definition GreenEvidence_new :: "GreenLevel \<Rightarrow> GreenEvidence" where
  "GreenEvidence_new level =
     \<lparr>observed_level = level, test_commands = [], base_branch_fresh = False, known_flakes = [],
      recovery_attempt_context_recorded = False\<rparr>"

definition with_test_command :: "ustr \<Rightarrow> i32 \<Rightarrow> GreenEvidence \<Rightarrow> GreenEvidence" where
  "with_test_command c code e = e\<lparr>test_commands := test_commands e @ [\<lparr>command = c, exit_code = code\<rparr>]\<rparr>"

definition with_base_branch_fresh :: "bool \<Rightarrow> GreenEvidence \<Rightarrow> GreenEvidence" where
  "with_base_branch_fresh b e = e\<lparr>base_branch_fresh := b\<rparr>"

definition with_known_flake :: "ustr \<Rightarrow> bool \<Rightarrow> GreenEvidence \<Rightarrow> GreenEvidence" where
  "with_known_flake n b e = e\<lparr>known_flakes := known_flakes e @ [\<lparr>test_name = n, blocks_green = b\<rparr>]\<rparr>"

definition with_recovery_attempt_context :: "bool \<Rightarrow> GreenEvidence \<Rightarrow> GreenEvidence" where
  "with_recovery_attempt_context b e = e\<lparr>recovery_attempt_context_recorded := b\<rparr>"

definition has_passing_test_command :: "GreenEvidence \<Rightarrow> bool" where
  "has_passing_test_command e = list_ex test_passed (test_commands e)"

record GreenContract =
  required_level :: GreenLevel
  requirements :: "GreenContractRequirement list"
  block_known_flakes :: bool

definition GreenContract_new :: "GreenLevel \<Rightarrow> GreenContract" where
  "GreenContract_new level = \<lparr>required_level = level, requirements = [], block_known_flakes = False\<rparr>"

definition GreenContract_merge_ready :: "GreenLevel \<Rightarrow> GreenContract" where
  "GreenContract_merge_ready level =
     \<lparr>required_level = level,
      requirements = [TestCommandProvenanceReq, BaseBranchFreshness, RecoveryAttemptContext],
      block_known_flakes = True\<rparr>"

datatype GreenContractOutcome =
    Satisfied GreenLevel GreenLevel
  | Unsatisfied GreenLevel "GreenLevel option"

datatype GreenEvidenceOutcome =
    EvidenceSatisfied GreenLevel GreenLevel
  | EvidenceUnsatisfied GreenLevel GreenLevel "GreenContractRequirement list" "KnownFlake list"

definition green_evaluate :: "GreenContract \<Rightarrow> GreenLevel option \<Rightarrow> GreenContractOutcome" where
  "green_evaluate c observed =
     (case observed of
        Some level \<Rightarrow>
          (if required_level c \<le> level then Satisfied (required_level c) level
           else Unsatisfied (required_level c) observed)
      | None \<Rightarrow> Unsatisfied (required_level c) observed)"

text \<open>The test one requirement makes; the required level is tested apart, before the list.\<close>

fun requirement_missing :: "GreenEvidence \<Rightarrow> GreenContractRequirement \<Rightarrow> bool" where
  "requirement_missing e TestCommandProvenanceReq = (\<not> has_passing_test_command e)"
| "requirement_missing e BaseBranchFreshness = (\<not> base_branch_fresh e)"
| "requirement_missing e RecoveryAttemptContext = (\<not> recovery_attempt_context_recorded e)"
| "requirement_missing e RequiredLevel = False"

definition evaluate_evidence :: "GreenContract \<Rightarrow> GreenEvidence \<Rightarrow> GreenEvidenceOutcome" where
  "evaluate_evidence c e =
     (let missing = (if observed_level e < required_level c then [RequiredLevel] else [])
                    @ filter (requirement_missing e) (requirements c);
          blocking_flakes = (if block_known_flakes c then filter blocks_green (known_flakes e) else [])
      in if missing = [] \<and> blocking_flakes = []
         then EvidenceSatisfied (required_level c) (observed_level e)
         else EvidenceUnsatisfied (required_level c) (observed_level e) missing blocking_flakes)"

definition is_satisfied_by :: "GreenContract \<Rightarrow> GreenLevel \<Rightarrow> bool" where
  "is_satisfied_by c level \<longleftrightarrow> required_level c \<le> level"

fun evidence_is_satisfied :: "GreenEvidenceOutcome \<Rightarrow> bool" where
  "evidence_is_satisfied (EvidenceSatisfied r l) = True"
| "evidence_is_satisfied _ = False"

fun contract_is_satisfied :: "GreenContractOutcome \<Rightarrow> bool" where
  "contract_is_satisfied (Satisfied r l) = True"
| "contract_is_satisfied _ = False"

section \<open>When a contract is satisfied\<close>

lemma evidence_satisfied_iff:
  "evidence_is_satisfied (evaluate_evidence c e) \<longleftrightarrow>
     required_level c \<le> observed_level e \<and> list_all (\<lambda>r. \<not> requirement_missing e r) (requirements c)
     \<and> (block_known_flakes c \<longrightarrow> list_all (\<lambda>f. \<not> blocks_green f) (known_flakes e))"
  by (auto simp: evaluate_evidence_def Let_def list_all_iff filter_empty_conv not_le)

lemma contract_satisfied_iff:
  "contract_is_satisfied (green_evaluate c (Some level)) \<longleftrightarrow> is_satisfied_by c level"
  by (simp add: green_evaluate_def is_satisfied_by_def)

text \<open>Evidence makes a lane ready to merge exactly if it reaches the required level, holds a
  passing test command, a fresh base branch and the context of recovery attempts, and no known
  flake blocks it; and evidence that satisfies a contract satisfies every contract of a lower
  level.\<close>

theorem merge_ready_iff:
  "(evidence_is_satisfied (evaluate_evidence (GreenContract_merge_ready level) e) \<longleftrightarrow>
      level \<le> observed_level e \<and> list_ex test_passed (test_commands e) \<and> base_branch_fresh e
      \<and> recovery_attempt_context_recorded e \<and> filter blocks_green (known_flakes e) = [])
   \<and> (evidence_is_satisfied (evaluate_evidence (GreenContract_merge_ready (max level lower)) e) \<le>
      evidence_is_satisfied (evaluate_evidence (GreenContract_merge_ready lower) e))"
  by (auto simp: evidence_satisfied_iff GreenContract_merge_ready_def has_passing_test_command_def
      list_all_iff filter_empty_conv)

end
