(* ===== verification/Policy_Engine.thy ===== *)
theory Policy_Engine
  imports Prelude "HOL-Library.Multiset"
begin

text \<open>
  The lane policy of \<^verbatim>\<open>runtime/src/policy_engine.rs\<close>: conditions over the state of a lane, actions
  with chains, rules by priority and their evaluation. A \<^verbatim>\<open>Duration\<close> is its length in nanoseconds.
\<close>

section \<open>Definitions\<close>

type_synonym duration = nat

definition duration_from_secs :: "nat \<Rightarrow> duration" where
  "duration_from_secs n = n * 1000000000"

definition STALE_BRANCH_THRESHOLD :: duration where
  "STALE_BRANCH_THRESHOLD = duration_from_secs 3600"

datatype LaneBlocker = NoBlocker | Startup | External

datatype ReviewStatus = ReviewPending | Approved | Rejected

datatype DiffScope = Full | Scoped

record LaneContext =
  lane_id :: ustr
  green_level :: u8
  green_contract_satisfied :: bool
  branch_freshness :: duration
  blocker :: LaneBlocker
  review_status :: ReviewStatus
  diff_scope :: DiffScope
  completed :: bool
  reconciled :: bool

definition LaneContext_new ::
  "ustr \<Rightarrow> u8 \<Rightarrow> duration \<Rightarrow> LaneBlocker \<Rightarrow> ReviewStatus \<Rightarrow> DiffScope \<Rightarrow> bool \<Rightarrow> LaneContext" where
  "LaneContext_new i level fresh b r d compl =
     \<lparr>lane_id = i, green_level = level, green_contract_satisfied = False, branch_freshness = fresh,
      blocker = b, review_status = r, diff_scope = d, completed = compl, reconciled = False\<rparr>"

definition LaneContext_reconciled :: "ustr \<Rightarrow> LaneContext" where
  "LaneContext_reconciled i =
     \<lparr>lane_id = i, green_level = 0, green_contract_satisfied = False, branch_freshness = duration_from_secs 0,
      blocker = NoBlocker, review_status = ReviewPending, diff_scope = Full, completed = True, reconciled = True\<rparr>"

definition with_green_contract_satisfied :: "bool \<Rightarrow> LaneContext \<Rightarrow> LaneContext" where
  "with_green_contract_satisfied b ctx = ctx\<lparr>green_contract_satisfied := b\<rparr>"

datatype PolicyCondition =
    And "PolicyCondition list"
  | Or "PolicyCondition list"
  | GreenAt u8
  | StaleBranch
  | StartupBlocked
  | LaneCompleted
  | LaneReconciled
  | ReviewPassed
  | ScopedDiff
  | TimedOut duration

fun condition_matches :: "PolicyCondition \<Rightarrow> LaneContext \<Rightarrow> bool" where
  "condition_matches (And cs) ctx = list_all (\<lambda>c. condition_matches c ctx) cs"
| "condition_matches (Or cs) ctx = list_ex (\<lambda>c. condition_matches c ctx) cs"
| "condition_matches (GreenAt level) ctx = (green_contract_satisfied ctx \<and> level \<le> green_level ctx)"
| "condition_matches StaleBranch ctx = (STALE_BRANCH_THRESHOLD \<le> branch_freshness ctx)"
| "condition_matches StartupBlocked ctx = (blocker ctx = Startup)"
| "condition_matches LaneCompleted ctx = completed ctx"
| "condition_matches LaneReconciled ctx = reconciled ctx"
| "condition_matches ReviewPassed ctx = (review_status ctx = Approved)"
| "condition_matches ScopedDiff ctx = (diff_scope ctx = Scoped)"
| "condition_matches (TimedOut d) ctx = (d \<le> branch_freshness ctx)"

datatype ReconcileReason = AlreadyMerged | Superseded | EmptyDiff | ManualClose

datatype PolicyAction =
    MergeToDev
  | MergeForward
  | RecoverOnce
  | Escalate ustr
  | CloseoutLane
  | CleanupSession
  | Reconcile ReconcileReason
  | Notify ustr
  | Block ustr
  | Chain "PolicyAction list"

text \<open>\<^verbatim>\<open>flatten_into\<close> appends to the vector it is given.\<close>

fun flatten_into :: "PolicyAction \<Rightarrow> PolicyAction list \<Rightarrow> PolicyAction list" where
  "flatten_into (Chain chained) actions = fold flatten_into chained actions"
| "flatten_into action actions = actions @ [action]"

record PolicyRule =
  rule_name :: ustr
  condition :: PolicyCondition
  action :: PolicyAction
  priority :: u32

definition policy_rule_matches :: "PolicyRule \<Rightarrow> LaneContext \<Rightarrow> bool" where
  "policy_rule_matches r ctx = condition_matches (condition r) ctx"

record PolicyEngine =
  rules :: "PolicyRule list"

definition PolicyEngine_new :: "PolicyRule list \<Rightarrow> PolicyEngine" where
  "PolicyEngine_new rs = \<lparr>rules = sort_key priority rs\<rparr>"

definition evaluate :: "PolicyEngine \<Rightarrow> LaneContext \<Rightarrow> PolicyAction list" where
  "evaluate engine ctx =
     fold (\<lambda>rule actions. if policy_rule_matches rule ctx then flatten_into (action rule) actions else actions)
       (rules engine) []"

text \<open>The leaves of an action, in order.\<close>

fun leaves :: "PolicyAction \<Rightarrow> PolicyAction list" where
  "leaves (Chain chained) = concat (map leaves chained)"
| "leaves a = [a]"

fun is_chain :: "PolicyAction \<Rightarrow> bool" where
  "is_chain (Chain as) = True"
| "is_chain _ = False"

definition sample_rules :: "PolicyRule list" where
  "sample_rules =
     [\<lparr>rule_name = lit ''merge'', condition = And [GreenAt 2, ReviewPassed], action = MergeToDev, priority = 20\<rparr>,
      \<lparr>rule_name = lit ''stale'', condition = StaleBranch, action = Chain [MergeForward, Notify (lit ''dev'')], priority = 10\<rparr>]"

section \<open>Evaluation\<close>

lemma flatten_into_leaves: "flatten_into a actions = actions @ leaves a"
proof (induction a arbitrary: actions)
  case (Chain as)
  have "fold flatten_into as actions = actions @ concat (map leaves as)"
    using Chain by (induction as arbitrary: actions) auto
  then show ?case by simp
qed simp_all

lemma leaves_no_chain: "list_all (\<lambda>b. \<not> is_chain b) (leaves a)"
  by (induction a) (auto simp: list_all_iff)

lemma evaluate_leaves:
  "evaluate engine ctx =
     concat (map (\<lambda>r. leaves (action r)) (filter (\<lambda>r. policy_rule_matches r ctx) (rules engine)))"
proof -
  have "fold (\<lambda>rule actions. if policy_rule_matches rule ctx then flatten_into (action rule) actions else actions)
      rs actions = actions @ concat (map (\<lambda>r. leaves (action r)) (filter (\<lambda>r. policy_rule_matches r ctx) rs))"
    for rs actions
    by (induction rs arbitrary: actions) (auto simp: flatten_into_leaves)
  then show ?thesis by (simp add: evaluate_def)
qed

text \<open>The actions for a lane are the leaves of the matching rules' actions, in order of priority
  and, for rules of equal priority, in the order they were given; no chain is left among them.\<close>

theorem evaluate_by_priority:
  "evaluate (PolicyEngine_new rs) ctx =
     concat (map (\<lambda>r. leaves (action r)) (sort_key priority (filter (\<lambda>r. policy_rule_matches r ctx) rs)))
   \<and> list_all (\<lambda>a. \<not> is_chain a) (evaluate (PolicyEngine_new rs) ctx)"
  using leaves_no_chain by (auto simp: evaluate_leaves PolicyEngine_new_def filter_sort list_all_iff)

text \<open>When priorities are distinct the outcome does not depend on the order in which the rules
  were listed.\<close>

theorem evaluate_order_independent:
  assumes "mset rs = mset rs'" and "distinct (map priority rs)"
  shows "evaluate (PolicyEngine_new rs) ctx = evaluate (PolicyEngine_new rs') ctx"
proof -
  have "inj_on priority (set rs)" using assms(2) by (simp add: distinct_map)
  then have "sort_key priority rs = sort_key priority rs'"
    using assms(1) by (intro sort_key_inj_key_eq) simp_all
  then show ?thesis by (simp add: PolicyEngine_new_def)
qed

theorem evaluate_order_independent_witness:
  "evaluate (PolicyEngine_new sample_rules) (LaneContext_reconciled []) =
     evaluate (PolicyEngine_new (rev sample_rules)) (LaneContext_reconciled [])"
  by (rule evaluate_order_independent) (simp_all add: sample_rules_def)

end
