(* ===== verification/Registry_Spec.thy ===== *)
theory Registry_Spec
  imports Prelude "HOL-Library.AList"
begin

text \<open>
  What the in-memory registries of the runtime have in common: entries in a hash map, keyed by an
  identifier made of the time and a counter, and operations that each name one entry or create a new
  one. A \<^verbatim>\<open>HashMap\<close> is an association list with distinct keys; the order of the list stands for the
  iteration order, which the library leaves open, and no theorem depends on it.
  The locale \<open>keyed_registry\<close> states the contract and derives that entries are independent objects.
\<close>

section \<open>Hash maps\<close>

type_synonym ('k, 'v) hash_map = "('k \<times> 'v) list"

definition hm_get :: "('k, 'v) hash_map \<Rightarrow> 'k \<Rightarrow> 'v option" where
  "hm_get m k = map_of m k"

definition hm_insert :: "'k \<Rightarrow> 'v \<Rightarrow> ('k, 'v) hash_map \<Rightarrow> ('k, 'v) hash_map" where
  "hm_insert k v m = AList.update k v m"

definition hm_remove :: "'k \<Rightarrow> ('k, 'v) hash_map \<Rightarrow> ('k, 'v) hash_map" where
  "hm_remove k m = AList.delete k m"

definition hm_values :: "('k, 'v) hash_map \<Rightarrow> 'v list" where
  "hm_values m = map snd m"

definition hm_wf :: "('k, 'v) hash_map \<Rightarrow> bool" where
  "hm_wf m \<longleftrightarrow> distinct (map fst m)"

lemma hm_get_Nil [simp]: "hm_get [] k = None"
  by (simp add: hm_get_def)

lemma hm_get_insert [simp]: "hm_get (hm_insert k v m) k' = (if k' = k then Some v else hm_get m k')"
  by (simp add: hm_get_def hm_insert_def update_conv)

lemma hm_get_remove [simp]: "hm_get (hm_remove k m) k' = (if k' = k then None else hm_get m k')"
  by (auto simp: hm_get_def hm_remove_def delete_conv restrict_map_def)

lemma hm_wf_ops [simp]: "hm_wf []" "hm_wf m \<Longrightarrow> hm_wf (hm_insert k v m)" "hm_wf m \<Longrightarrow> hm_wf (hm_remove k m)"
  by (simp_all add: hm_wf_def hm_insert_def hm_remove_def distinct_update distinct_delete)

lemma hm_insert_length: "hm_get m k = None \<Longrightarrow> length (hm_insert k v m) = length m + 1"
  by (induction m) (auto simp: hm_get_def hm_insert_def split: if_splits)

lemma hm_values_iff: "hm_wf m \<Longrightarrow> v \<in> set (hm_values m) \<longleftrightarrow> (\<exists>k. hm_get m k = Some v)"
  by (force simp: hm_wf_def hm_values_def hm_get_def)

section \<open>Identifiers\<close>

text \<open>The format \<^verbatim>\<open>{:08x}\<close>.\<close>

definition hex08 :: "nat \<Rightarrow> ustr" where
  "hex08 n = replicate (8 - length (show_hex n)) 48 @ show_hex n"

text \<open>The format \<^verbatim>\<open>kind_{:08x}_{}\<close> of a time and a counter.\<close>

definition entry_id :: "ustr \<Rightarrow> u64 \<Rightarrow> u64 \<Rightarrow> ustr" where
  "entry_id kind ts n = kind @ lit ''_'' @ hex08 (unat ts) @ lit ''_'' @ show_nat (unat n)"

lemma last_underscore:
  fixes x :: ustr
  assumes "a @ [95] @ x = b @ [95] @ y" "95 \<notin> set x" "95 \<notin> set y"
  shows "x = y"
proof -
  have "takeWhile (\<lambda>c. c \<noteq> 95) (rev (a @ [95] @ x)) = rev x"
    "takeWhile (\<lambda>c. c \<noteq> 95) (rev (b @ [95] @ y)) = rev y"
    using assms(2,3) by (simp_all add: takeWhile_append2) (auto simp: takeWhile_append)
  then have "rev x = rev y" using assms(1) by metis
  then show ?thesis by simp
qed

text \<open>Two identifiers with different counters differ, whatever the clock says.\<close>

lemma entry_id_counter: "entry_id kind ts n = entry_id kind' ts' n' \<Longrightarrow> n = n'"
proof -
  assume eq: "entry_id kind ts n = entry_id kind' ts' n'"
  have "95 \<notin> set (show_nat k)" for k using show_nat_digits [of 95 k] by (auto simp: is_ascii_digit_def)
  moreover have "(kind @ lit ''_'' @ hex08 (unat ts)) @ [95] @ show_nat (unat n)
      = (kind' @ lit ''_'' @ hex08 (unat ts')) @ [95] @ show_nat (unat n')"
    using eq by (simp only: entry_id_def lit_def append_assoc) simp
  ultimately have "show_nat (unat n) = show_nat (unat n')" by (metis last_underscore)
  then show ?thesis by (simp add: show_nat_inject word_unat_eq_iff)
qed

text \<open>The identifiers a registry may have given out when its counter is \<open>n\<close>.\<close>

definition issued_id :: "ustr \<Rightarrow> u64 \<Rightarrow> ustr \<Rightarrow> bool" where
  "issued_id kind n k \<longleftrightarrow> (\<exists>ts i. i \<le> n \<and> k = entry_id kind ts i)"

lemma issued_mono: "issued_id kind n k \<Longrightarrow> n \<le> n' \<Longrightarrow> issued_id kind n' k"
  unfolding issued_id_def using order_trans by blast

lemma issued_new: "issued_id kind n (entry_id kind ts n)"
  unfolding issued_id_def by blast

lemma not_issued_next: "n < n' \<Longrightarrow> \<not> issued_id kind n (entry_id kind ts n')"
  unfolding issued_id_def using entry_id_counter by (metis leD)

lemma unat_inc64: "unat n < 2 ^ 64 - 1 \<Longrightarrow> unat (n + 1) = unat n + 1" for n :: u64
  by (simp add: unat_word_ariths)

lemma word_less_inc: "unat n < 2 ^ 64 - 1 \<Longrightarrow> n < n + 1" for n :: u64
  by (simp only: word_less_nat_alt unat_inc64)

section \<open>The contract\<close>

text \<open>Every operation either names the entry it works on (\<open>target\<close>) and does to it what \<open>effect\<close> says, or
  may create an entry under an identifier that was not given out before. \<open>room\<close> is the number of
  creations before the counter wraps around.\<close>

locale keyed_registry =
  fixes entry :: "'s \<Rightarrow> ustr \<Rightarrow> 'e option"
    and step :: "'op \<Rightarrow> 's \<Rightarrow> 's"
    and target :: "'op \<Rightarrow> ustr option"
    and effect :: "'op \<Rightarrow> 'e option \<Rightarrow> 'e option"
    and issued :: "'s \<Rightarrow> ustr \<Rightarrow> bool"
    and room :: "'s \<Rightarrow> nat"
  assumes step_target: "target op = Some k \<Longrightarrow> entry (step op s) k' = (if k' = k then effect op (entry s k) else entry s k')"
    and step_room: "target op = Some k \<Longrightarrow> room (step op s) = room s"
    and step_issued: "target op = Some k \<Longrightarrow> issued (step op s) = issued s"
    and new_other: "target op = None \<Longrightarrow> room s > 0 \<Longrightarrow> issued s k \<Longrightarrow> entry (step op s) k = entry s k"
    and new_room: "target op = None \<Longrightarrow> room s \<le> room (step op s) + 1"
    and new_issued: "target op = None \<Longrightarrow> room s > 0 \<Longrightarrow> issued s k \<Longrightarrow> issued (step op s) k"
begin

definition creations :: "'op list \<Rightarrow> nat" where
  "creations ops = length (filter (\<lambda>op. target op = None) ops)"

text \<open>An entry sees only the operations that name it, in their order.\<close>

lemma run_entry:
  "issued s k \<Longrightarrow> creations ops \<le> room s
   \<Longrightarrow> entry (fold step ops s) k = fold effect (filter (\<lambda>op. target op = Some k) ops) (entry s k)"
proof (induction ops arbitrary: s)
  case (Cons op ops)
  show ?case
  proof (cases "target op")
    case None
    with Cons.prems new_room [OF None, of s] have "room s > 0" "creations ops \<le> room (step op s)"
      by (simp_all add: creations_def)
    with None Cons show ?thesis by (simp add: new_other new_issued)
  next
    case (Some k')
    with Cons.prems have "creations ops \<le> room s" by (simp add: creations_def)
    with Some Cons show ?thesis by (simp add: step_target step_room step_issued)
  qed
qed simp

lemma run_room: "room s \<le> room (fold step ops s) + creations ops"
proof (induction ops arbitrary: s)
  case (Cons op ops)
  show ?case
    using Cons.IH [of "step op s"] new_room [of op s] step_room [of op _ s]
    by (cases "target op") (auto simp: creations_def)
qed (simp add: creations_def)

text \<open>So two runs with the same operations on an entry leave it in the same state.\<close>

lemma run_entry_cong:
  assumes "issued s k" "creations ops \<le> room s" "creations ops' \<le> room s"
    and "filter (\<lambda>op. target op = Some k) ops = filter (\<lambda>op. target op = Some k) ops'"
  shows "entry (fold step ops s) k = entry (fold step ops' s) k"
  using assms by (simp add: run_entry)

end

end
