(* ===== verification/Paths.thy ===== *)
theory Paths
  imports Prelude
begin

text \<open>
  The part of \<^verbatim>\<open>std::path\<close> (Unix) and of \<^verbatim>\<open>str\<close> that the worker modules use: components of a path, the
  prefix order on paths, file names, trimming of a repeated suffix, and the values the \<^verbatim>\<open>json!\<close> macro
  builds. Paths are texts; the file system
  (\<^verbatim>\<open>canonicalize\<close>) is an argument where it is used.
\<close>

section \<open>Definitions\<close>

datatype path_component = RootDir | CurDir | ParentDir | Normal ustr

fun split_slash_acc :: "ustr \<Rightarrow> ustr \<Rightarrow> ustr list" where
  "split_slash_acc cur [] = [rev cur]"
| "split_slash_acc cur (c # cs) = (if c = 47 then rev cur # split_slash_acc [] cs else split_slash_acc (c # cur) cs)"

definition split_slash :: "ustr \<Rightarrow> ustr list" where
  "split_slash s = split_slash_acc [] s"

definition component :: "ustr \<Rightarrow> path_component" where
  "component piece = (if piece = lit ''..'' then ParentDir else Normal piece)"

text \<open>\<^verbatim>\<open>Path::components\<close>: repeated slashes and dots are skipped, except for a dot at the start of a
  relative path.\<close>

definition components :: "ustr \<Rightarrow> path_component list" where
  "components p =
     (let pieces = split_slash p;
          rest = map component (filter (\<lambda>piece. piece \<noteq> [] \<and> piece \<noteq> lit ''.'') pieces)
      in if starts_with (lit ''/'') p then RootDir # rest
         else if hd pieces = lit ''.'' then CurDir # rest
         else rest)"

definition path_starts_with :: "ustr \<Rightarrow> ustr \<Rightarrow> bool" where
  "path_starts_with base p \<longleftrightarrow> take (length (components base)) (components p) = components base"

definition path_eq :: "ustr \<Rightarrow> ustr \<Rightarrow> bool" where
  "path_eq p q \<longleftrightarrow> components p = components q"

definition last_name :: "path_component list \<Rightarrow> ustr option" where
  "last_name cs = (case rev cs of Normal n # _ \<Rightarrow> Some n | _ \<Rightarrow> None)"

definition file_name :: "ustr \<Rightarrow> ustr option" where
  "file_name p = last_name (components p)"

text \<open>A path followed by its parents (\<^verbatim>\<open>Path::parent\<close>), as components; the root and the empty path have none.\<close>

function ancestors :: "path_component list \<Rightarrow> path_component list list" where
  "ancestors cs = cs # (if cs = [] \<or> cs = [RootDir] then [] else ancestors (butlast cs))"
  by pat_completeness auto
termination by (relation "measure length") simp_all

declare ancestors.simps [simp del]

text \<open>\<^verbatim>\<open>std::fs::canonicalize(path).unwrap_or(path)\<close>.\<close>

definition normalize_path :: "(ustr \<Rightarrow> ustr option) \<Rightarrow> ustr \<Rightarrow> ustr" where
  "normalize_path canonicalize p = (case canonicalize p of Some q \<Rightarrow> q | None \<Rightarrow> p)"

text \<open>\<^verbatim>\<open>str::trim_end_matches\<close> with a text that is not empty.\<close>

function trim_end_str :: "ustr \<Rightarrow> ustr \<Rightarrow> ustr" where
  "trim_end_str p s =
     (if p \<noteq> [] \<and> ends_with p s then trim_end_str p (take (length s - length p) s) else s)"
  by pat_completeness auto
termination
proof (relation "measure (length \<circ> snd)", simp, goal_cases)
  case (1 p s)
  then have "s \<noteq> []" by (auto simp: ends_with_def starts_with_def)
  with 1 show ?case by simp
qed

declare trim_end_str.simps [simp del]

definition trim_end_char :: "uchar \<Rightarrow> ustr \<Rightarrow> ustr" where
  "trim_end_char c s = rev (dropWhile (\<lambda>d. d = c) (rev s))"

definition saturating_sub :: "'a :: len word \<Rightarrow> 'a word \<Rightarrow> 'a word" where
  "saturating_sub a b = (if b \<le> a then a - b else 0)"

definition contains_any :: "ustr list \<Rightarrow> ustr \<Rightarrow> bool" where
  "contains_any needles s \<longleftrightarrow> list_ex (\<lambda>needle. contains needle s) needles"

definition show_bool :: "bool \<Rightarrow> ustr" where
  "show_bool b = (if b then lit ''true'' else lit ''false'')"

text \<open>\<^verbatim>\<open>Iterator::find_map\<close>.\<close>

fun find_map :: "('a \<Rightarrow> 'b option) \<Rightarrow> 'a list \<Rightarrow> 'b option" where
  "find_map f [] = None"
| "find_map f (x # xs) = (case f x of Some y \<Rightarrow> Some y | None \<Rightarrow> find_map f xs)"

text \<open>An object with the given fields, as the \<^verbatim>\<open>json!\<close> macro builds it.\<close>

definition json_object :: "(string \<times> Value) list \<Rightarrow> Value" where
  "json_object kvs = Object (btree_of (map (\<lambda>(k, v). (lit k, v)) kvs))"

definition json_u32 :: "u32 \<Rightarrow> Value" where
  "json_u32 n = Number (show_nat (unat n))"

definition json_option :: "ustr option \<Rightarrow> Value" where
  "json_option s = (case s of Some t \<Rightarrow> String t | None \<Rightarrow> Null)"

section \<open>Lemmas\<close>

lemma sorted_distinct_remdups_adj: "sorted xs \<Longrightarrow> sorted_wrt (<) (remdups_adj xs)"
proof (induction xs rule: remdups_adj.induct)
  case (3 x y xs)
  show ?case
  proof (cases "x = y")
    case False
    with 3 have "x < y" "sorted_wrt (<) (remdups_adj (y # xs))" "\<forall>z \<in> set (y # xs). y \<le> z" by auto
    then have "\<forall>z \<in> set (remdups_adj (y # xs)). x < z" unfolding remdups_adj_set by fastforce
    with False \<open>sorted_wrt (<) (remdups_adj (y # xs))\<close> show ?thesis by simp
  qed (use 3 in simp)
qed simp_all

lemma btree_get_insert_any: "btree_get (btree_insert k v m) k' = (if k' = k then Some v else btree_get m k')"
  by (induction m) (auto simp: btree_get_def)

lemma find_map_None: "find_map f xs = None \<longleftrightarrow> (\<forall>x \<in> set xs. f x = None)"
  by (induction xs) (auto split: option.splits)

lemma path_starts_with_refl [simp]: "path_starts_with p p"
  by (simp add: path_starts_with_def)

lemma path_starts_with_iff: "path_starts_with base p \<longleftrightarrow> (\<exists>cs. components p = components base @ cs)"
  unfolding path_starts_with_def by (metis append_eq_conv_conj append_take_drop_id)

lemma path_starts_with_trans: "path_starts_with a b \<Longrightarrow> path_starts_with b c \<Longrightarrow> path_starts_with a c"
  by (auto simp: path_starts_with_iff)

end
