(* ===== verification/Worker_Boot.thy ===== *)
theory Worker_Boot
  imports Registry_Spec Paths
begin

text \<open>
  The start-up state machine of a worker and its registry (\<^verbatim>\<open>worker_boot.rs\<close>): what is read off the
  worker's screen, the transitions, the event log of each worker and the state file written next to it.
  An operation gets a \<open>boot_env\<close>: the readings of the clock during the operation in their order, the
  resolution of paths by the file system, and whether the state file can be written. It works on a
  \<open>boot\<close>, the worker together with the number of readings used and the content of its state file.
  The theorems: the log is numbered and agrees with the worker; a prompt goes only to a worker that is
  ready and no second one before the worker is ready again; a misdelivered prompt is sent again
  unchanged; every worker can be brought back by a restart; the state file lags behind.
\<close>

section \<open>Data\<close>

datatype WorkerStatus = WSpawning | WTrustRequired | WToolPermissionRequired | WReadyForPrompt | WRunning
  | WFinished | WFailed

fun WorkerStatus_display :: "WorkerStatus \<Rightarrow> ustr" where
  "WorkerStatus_display WSpawning = lit ''spawning''"
| "WorkerStatus_display WTrustRequired = lit ''trust_required''"
| "WorkerStatus_display WToolPermissionRequired = lit ''tool_permission_required''"
| "WorkerStatus_display WReadyForPrompt = lit ''ready_for_prompt''"
| "WorkerStatus_display WRunning = lit ''running''"
| "WorkerStatus_display WFinished = lit ''finished''"
| "WorkerStatus_display WFailed = lit ''failed''"

text \<open>The derived \<^verbatim>\<open>Debug\<close> text.\<close>

fun WorkerStatus_debug :: "WorkerStatus \<Rightarrow> ustr" where
  "WorkerStatus_debug WSpawning = lit ''Spawning''"
| "WorkerStatus_debug WTrustRequired = lit ''TrustRequired''"
| "WorkerStatus_debug WToolPermissionRequired = lit ''ToolPermissionRequired''"
| "WorkerStatus_debug WReadyForPrompt = lit ''ReadyForPrompt''"
| "WorkerStatus_debug WRunning = lit ''Running''"
| "WorkerStatus_debug WFinished = lit ''Finished''"
| "WorkerStatus_debug WFailed = lit ''Failed''"

datatype WorkerFailureKind = TrustGate | ToolPermissionGate | PromptDelivery | Protocol | Provider
  | StartupNoEvidence

record WorkerFailure =
  failure_kind :: WorkerFailureKind
  failure_message :: ustr
  failure_created_at :: u64

datatype WorkerEventKind = EvSpawning | EvTrustRequired | EvToolPermissionRequired | EvTrustResolved
  | EvReadyForPrompt | EvPromptMisdelivery | EvPromptReplayArmed | EvRunning | EvRestarted | EvFinished
  | EvFailed | EvStartupNoEvidence

datatype WorkerTrustResolution = AutoAllowlisted | ManualApproval

datatype WorkerPromptTarget = TargetShell | TargetWrongTarget | TargetWrongTask | TargetUnknown

datatype StartupFailureClassification = ClassTrustRequired | ClassToolPermissionRequired
  | ClassPromptMisdelivery | ClassPromptAcceptanceTimeout | ClassTransportDead | ClassWorkerCrashed | ClassUnknown

fun StartupFailureClassification_debug :: "StartupFailureClassification \<Rightarrow> ustr" where
  "StartupFailureClassification_debug ClassTrustRequired = lit ''TrustRequired''"
| "StartupFailureClassification_debug ClassToolPermissionRequired = lit ''ToolPermissionRequired''"
| "StartupFailureClassification_debug ClassPromptMisdelivery = lit ''PromptMisdelivery''"
| "StartupFailureClassification_debug ClassPromptAcceptanceTimeout = lit ''PromptAcceptanceTimeout''"
| "StartupFailureClassification_debug ClassTransportDead = lit ''TransportDead''"
| "StartupFailureClassification_debug ClassWorkerCrashed = lit ''WorkerCrashed''"
| "StartupFailureClassification_debug ClassUnknown = lit ''Unknown''"

record StartupHealthSummary =
  healthy :: bool
  health_summary :: ustr

definition StartupHealthSummary_observed :: "ustr \<Rightarrow> bool \<Rightarrow> StartupHealthSummary" where
  "StartupHealthSummary_observed nam h =
     \<lparr>healthy = h, health_summary = nam @ lit ''_'' @ (if h then lit ''healthy'' else lit ''unhealthy'') @ lit ''_placeholder''\<rparr>"

datatype ToolPermissionAllowScope = SessionOnly | SessionOrAlways | AllowScopeUnknown

record StartupEvidenceBundle =
  last_lifecycle_state :: WorkerStatus
  last_lifecycle_at :: u64
  pane_command :: ustr
  pane_observed_at :: u64
  command_started_at :: u64
  ev_prompt_sent_at :: "u64 option"
  prompt_acceptance_state :: bool
  trust_prompt_detected :: bool
  tool_permission_prompt_detected :: bool
  tool_permission_prompt_age_seconds :: "u64 option"
  tool_permission_allow_scope :: "ToolPermissionAllowScope option"
  transport_healthy :: bool
  transport_health :: StartupHealthSummary
  mcp_healthy :: bool
  mcp_health :: StartupHealthSummary
  elapsed_seconds :: u64

record WorkerTaskReceipt =
  receipt_repo :: ustr
  task_kind :: ustr
  source_surface :: ustr
  expected_artifacts :: "ustr list"
  objective_preview :: ustr

text \<open>Payloads: the working directory and how trust was resolved; server, tool, age, scope and preview of a
  permission prompt; preview, target, observed directory and prompt, receipt and whether a replay is
  armed; the evidence at a timeout.\<close>

datatype WorkerEventPayload =
    TrustPrompt ustr "WorkerTrustResolution option"
  | ToolPermissionPrompt "ustr option" "ustr option" u64 ToolPermissionAllowScope ustr
  | PromptDeliveryPayload ustr WorkerPromptTarget "ustr option" "ustr option" "WorkerTaskReceipt option" bool
  | StartupNoEvidencePayload StartupEvidenceBundle StartupFailureClassification

record WorkerEvent =
  seq :: u64
  event_kind :: WorkerEventKind
  event_status :: WorkerStatus
  detail :: "ustr option"
  payload :: "WorkerEventPayload option"
  event_timestamp :: u64

record Worker =
  worker_id :: ustr
  cwd :: ustr
  worker_status :: WorkerStatus
  trust_auto_resolve :: bool
  trust_gate_cleared :: bool
  auto_recover_prompt_misdelivery :: bool
  prompt_delivery_attempts :: u32
  prompt_in_flight :: bool
  prompt_sent_at :: "u64 option"
  last_prompt :: "ustr option"
  expected_receipt :: "WorkerTaskReceipt option"
  replay_prompt :: "ustr option"
  last_error :: "WorkerFailure option"
  worker_created_at :: u64
  worker_updated_at :: u64
  worker_events :: "WorkerEvent list"

record StateSnapshot =
  ss_worker_id :: ustr
  ss_status :: WorkerStatus
  ss_is_ready :: bool
  ss_trust_gate_cleared :: bool
  ss_prompt_in_flight :: bool
  ss_last_event :: "WorkerEvent option"
  ss_updated_at :: u64
  ss_seconds_since_update :: u64

record WorkerReadySnapshot =
  ready_worker_id :: ustr
  ready_status :: WorkerStatus
  ready :: bool
  blocked :: bool
  replay_prompt_ready :: bool
  ready_last_error :: "WorkerFailure option"

text \<open>The state files are keyed by the directory they are under.\<close>

record WorkerRegistryInner =
  workers :: "(ustr, Worker) hash_map"
  worker_counter :: u64
  state_files :: "(ustr, StateSnapshot) hash_map"

record boot_env =
  clock_reading :: "nat \<Rightarrow> u64"
  canonicalize :: "ustr \<Rightarrow> ustr option"
  state_file_writable :: bool

record boot =
  worker :: Worker
  clock_reads :: nat
  state_file :: "StateSnapshot option"

section \<open>Reading the screen\<close>

definition extract_quoted_value :: "ustr \<Rightarrow> ustr option" where
  "extract_quoted_value s =
     (case split_once [34] s of
        None \<Rightarrow> None
      | Some (_, rest) \<Rightarrow> map_option fst (split_once [34] rest))"

definition extract_between :: "ustr \<Rightarrow> ustr \<Rightarrow> ustr \<Rightarrow> ustr option" where
  "extract_between s prefix suffix =
     (case split_once prefix s of
        None \<Rightarrow> None
      | Some (_, rest) \<Rightarrow>
          (case split_once suffix rest of
             None \<Rightarrow> None
           | Some (inner, _) \<Rightarrow> if trim inner = [] then None else Some (trim inner)))"

definition tool_token_punctuation :: "uchar \<Rightarrow> bool" where
  "tool_token_punctuation c \<longleftrightarrow> c = 63 \<or> c = 58 \<or> c = 34 \<or> c = 39"

text \<open>Lowering ASCII letters keeps every position, so the rest of the text itself is meant.\<close>

definition extract_after :: "ustr \<Rightarrow> ustr \<Rightarrow> ustr option" where
  "extract_after s prefix =
     (case split_once prefix (to_ascii_lowercase s) of
        None \<Rightarrow> None
      | Some (before, _) \<Rightarrow>
          (case split_whitespace (drop (length before + length prefix) s) of
             [] \<Rightarrow> None
           | token # _ \<Rightarrow>
               let v = trim_matches tool_token_punctuation token
               in if v = [] then None else Some v))"

definition normalize_tool_token :: "ustr \<Rightarrow> ustr" where
  "normalize_tool_token token = trim_matches tool_token_punctuation token"

definition extract_server_from_qualified_tool :: "ustr \<Rightarrow> ustr option" where
  "extract_server_from_qualified_tool tool =
     (case strip_prefix (lit ''mcp__'') tool of
        None \<Rightarrow> None
      | Some rest \<Rightarrow>
          (case split_once (lit ''__'') rest of
             None \<Rightarrow> None
           | Some (server, _) \<Rightarrow> if server = [] then None else Some server))"

definition prompt_preview :: "ustr \<Rightarrow> ustr" where
  "prompt_preview prompt =
     (let trimmed = trim prompt
      in if length trimmed \<le> 48 then trimmed else trim_end (take 48 trimmed) @ [8230])"

record ToolPermissionPromptObservation =
  tpo_server_name :: "ustr option"
  tpo_tool_name :: "ustr option"
  tpo_allow_scope :: ToolPermissionAllowScope
  tpo_prompt_preview :: ustr

definition ToolPermissionPromptObservation_message :: "ToolPermissionPromptObservation \<Rightarrow> ustr" where
  "ToolPermissionPromptObservation_message obs =
     lit ''worker boot blocked on tool permission prompt'' @
     (case (tpo_server_name obs, tpo_tool_name obs) of
        (Some server, Some tool) \<Rightarrow> lit '' for '' @ server @ lit ''.'' @ tool
      | (Some server, None) \<Rightarrow> lit '' for '' @ server
      | (None, Some tool) \<Rightarrow> lit '' for '' @ tool
      | (None, None) \<Rightarrow> [])"

definition detect_tool_permission_allow_scope :: "ustr \<Rightarrow> ToolPermissionAllowScope" where
  "detect_tool_permission_allow_scope lowered =
     (if contains_any (map lit [''always allow'', ''allow always'', ''allow this tool always'', ''allow for all sessions'']) lowered
      then SessionOrAlways
      else if contains_any (map lit [''allow once'', ''allow for this session'', ''allow this session'', ''yes, allow'']) lowered
      then SessionOnly
      else AllowScopeUnknown)"

definition is_tool_prompt_line :: "ustr \<Rightarrow> bool" where
  "is_tool_prompt_line line \<longleftrightarrow>
     (let l = to_ascii_lowercase line
      in contains (lit ''allow'') l \<and> contains (lit ''tool'') l
         \<and> (contains (lit ''run'') l \<or> contains (lit ''server'') l))"

definition detect_tool_permission_prompt :: "ustr \<Rightarrow> ustr \<Rightarrow> ToolPermissionPromptObservation option" where
  "detect_tool_permission_prompt screen_text lowered =
     (let looks_like_prompt = contains (lit ''allow the'') lowered \<and> contains (lit ''server'') lowered
            \<and> contains (lit ''tool'') lowered \<and> contains (lit ''run'') lowered;
          looks_like_tool_gate = contains (lit ''allow tool'') lowered \<and> contains (lit ''run'') lowered
      in if \<not> looks_like_prompt \<and> \<not> looks_like_tool_gate then None
         else let prompt_line = trim (case find is_tool_prompt_line (rev (lines screen_text)) of
                    Some line \<Rightarrow> line | None \<Rightarrow> screen_text);
                  tool_name = (case extract_quoted_value prompt_line of
                      Some v \<Rightarrow> Some v
                    | None \<Rightarrow> map_option normalize_tool_token (extract_after prompt_line (lit ''tool '')));
                  server_name = (case extract_between prompt_line (lit ''the '') (lit '' server'') of
                      Some server \<Rightarrow> Some (trim_end_str (lit '' MCP'') server)
                    | None \<Rightarrow> Option.bind tool_name extract_server_from_qualified_tool)
              in Some \<lparr>tpo_server_name = server_name, tpo_tool_name = tool_name,
                       tpo_allow_scope = detect_tool_permission_allow_scope lowered,
                       tpo_prompt_preview = prompt_preview prompt_line\<rparr>)"

definition detect_trust_prompt :: "ustr \<Rightarrow> bool" where
  "detect_trust_prompt lowered \<longleftrightarrow> contains_any (map lit
     [''do you trust the files in this folder'', ''trust the files in this folder'', ''trust this folder'',
      ''allow and continue'', ''yes, proceed'']) lowered"

definition is_shell_prompt :: "ustr \<Rightarrow> bool" where
  "is_shell_prompt trimmed \<longleftrightarrow>
     ends_with (lit ''$'') trimmed \<or> ends_with (lit ''%'') trimmed \<or> ends_with (lit ''#'') trimmed
     \<or> starts_with (lit ''$'') trimmed \<or> starts_with (lit ''%'') trimmed \<or> starts_with (lit ''#'') trimmed"

definition detect_ready_for_prompt :: "ustr \<Rightarrow> ustr \<Rightarrow> bool" where
  "detect_ready_for_prompt screen_text lowered \<longleftrightarrow>
     contains_any (map lit [''ready for input'', ''ready for your input'', ''ready for prompt'', ''send a message'']) lowered
     \<or> (case find (\<lambda>line. trim line \<noteq> []) (rev (lines screen_text)) of
          None \<Rightarrow> False
        | Some last_non_empty \<Rightarrow>
            let trimmed = trim last_non_empty
            in \<not> is_shell_prompt trimmed
               \<and> (trimmed \<in> {[62], [8250], [10095]}
                  \<or> starts_with [62, 32] trimmed \<or> starts_with [8250, 32] trimmed \<or> starts_with [10095, 32] trimmed
                  \<or> contains [9474, 32, 62] trimmed \<or> contains [9474, 32, 8250] trimmed
                  \<or> contains [9474, 32, 10095] trimmed))"

definition detect_running_cue :: "ustr \<Rightarrow> bool" where
  "detect_running_cue lowered \<longleftrightarrow>
     contains_any (map lit [''thinking'', ''working'', ''running tests'', ''inspecting'', ''analyzing'']) lowered"

definition detect_prompt_echo :: "ustr \<Rightarrow> ustr option" where
  "detect_prompt_echo screen_text =
     find_map (\<lambda>line. case strip_prefix [8250] (trim_start line) of
         None \<Rightarrow> None
       | Some v \<Rightarrow> if trim v = [] then None else Some (trim v)) (lines screen_text)"

definition task_receipt_visible :: "ustr \<Rightarrow> WorkerTaskReceipt \<Rightarrow> bool" where
  "task_receipt_visible lowered_screen_text receipt \<longleftrightarrow>
     list_all (\<lambda>token. contains (to_ascii_lowercase token) lowered_screen_text)
       [receipt_repo receipt, task_kind receipt, source_surface receipt, objective_preview receipt]
     \<and> list_all (\<lambda>artifact. contains (to_ascii_lowercase artifact) lowered_screen_text) (expected_artifacts receipt)"

definition is_shell_prompt_token :: "ustr \<Rightarrow> bool" where
  "is_shell_prompt_token token \<longleftrightarrow> token \<in> {[36], [37], [35], [62], [8250], [10095]}"

definition looks_like_cwd_label :: "ustr \<Rightarrow> bool" where
  "looks_like_cwd_label candidate \<longleftrightarrow>
     starts_with (lit ''/'') candidate \<or> starts_with (lit ''~'') candidate \<or> starts_with (lit ''.'') candidate
     \<or> contains (lit ''/'') candidate"

definition detect_observed_shell_cwd :: "ustr \<Rightarrow> ustr option" where
  "detect_observed_shell_cwd screen_text =
     find_map (\<lambda>line.
       let tokens = split_whitespace line;
           before = takeWhile (\<lambda>token. \<not> is_shell_prompt_token token) tokens
       in if before = tokens \<or> before = [] then None
          else if looks_like_cwd_label (last before) then Some (last before) else None) (lines screen_text)"

definition cwd_matches_observed_target :: "(ustr \<Rightarrow> ustr option) \<Rightarrow> ustr \<Rightarrow> ustr \<Rightarrow> bool" where
  "cwd_matches_observed_target canon expected_cwd observed_cwd \<longleftrightarrow>
     (let expected = normalize_path canon expected_cwd;
          expected_base = (case file_name expected of Some n \<Rightarrow> n | None \<Rightarrow> expected);
          observed_base = (case file_name observed_cwd of Some n \<Rightarrow> n | None \<Rightarrow> trim_matches (\<lambda>c. c = 58) observed_cwd)
      in ends_with observed_cwd expected \<or> ends_with expected observed_cwd \<or> expected_base = observed_base)"

record PromptDeliveryObservation =
  observed_target :: WorkerPromptTarget
  observed_cwd :: "ustr option"
  observed_prompt_preview :: "ustr option"

definition detect_prompt_misdelivery ::
  "(ustr \<Rightarrow> ustr option) \<Rightarrow> ustr \<Rightarrow> ustr \<Rightarrow> ustr option \<Rightarrow> ustr \<Rightarrow> WorkerTaskReceipt option
   \<Rightarrow> PromptDeliveryObservation option" where
  "detect_prompt_misdelivery canon screen_text lowered prompt_opt expected_cwd receipt_opt =
     (case prompt_opt of
        None \<Rightarrow> None
      | Some prompt \<Rightarrow>
          let prompt_snippet = (case find (\<lambda>line. trim line \<noteq> []) (lines prompt) of
                Some line \<Rightarrow> to_ascii_lowercase (trim line) | None \<Rightarrow> []);
              prompt_visible = contains prompt_snippet lowered;
              echo = detect_prompt_echo screen_text;
              wrong_task = (case receipt_opt of
                  None \<Rightarrow> False
                | Some receipt \<Rightarrow>
                    let mismatched = (case echo of None \<Rightarrow> False
                          | Some preview \<Rightarrow> \<not> contains prompt_snippet (to_ascii_lowercase preview))
                    in (prompt_visible \<or> mismatched) \<and> \<not> task_receipt_visible lowered receipt);
              shell_cwd = detect_observed_shell_cwd screen_text;
              shell_error = contains_any (map lit [''command not found'', ''syntax error near unexpected token'',
                ''parse error near'', ''no such file or directory'', ''unknown command'']) lowered
          in if prompt_snippet = [] then None
             else if wrong_task
             then Some \<lparr>observed_target = TargetWrongTask, observed_cwd = shell_cwd, observed_prompt_preview = echo\<rparr>
             else if prompt_visible \<and> (case shell_cwd of None \<Rightarrow> False
                       | Some c \<Rightarrow> \<not> cwd_matches_observed_target canon expected_cwd c)
             then Some \<lparr>observed_target = TargetWrongTarget, observed_cwd = shell_cwd, observed_prompt_preview = echo\<rparr>
             else if shell_error \<and> prompt_visible
             then Some \<lparr>observed_target = TargetShell, observed_cwd = None, observed_prompt_preview = echo\<rparr>
             else None)"

fun prompt_misdelivery_detail :: "WorkerPromptTarget \<Rightarrow> ustr" where
  "prompt_misdelivery_detail TargetShell = lit ''shell misdelivery detected''"
| "prompt_misdelivery_detail TargetWrongTarget = lit ''prompt landed in wrong target''"
| "prompt_misdelivery_detail TargetWrongTask = lit ''prompt receipt mismatched expected task context''"
| "prompt_misdelivery_detail TargetUnknown = lit ''prompt delivery failure detected''"

definition path_matches_allowlist :: "(ustr \<Rightarrow> ustr option) \<Rightarrow> ustr \<Rightarrow> ustr \<Rightarrow> bool" where
  "path_matches_allowlist canon dir trusted_root \<longleftrightarrow>
     (let c = normalize_path canon dir; r = normalize_path canon trusted_root
      in path_eq c r \<or> path_starts_with r c)"

section \<open>Transitions\<close>

subsection \<open>Clock, log and state file\<close>

definition now_secs :: "boot_env \<Rightarrow> boot \<Rightarrow> u64 \<times> boot" where
  "now_secs env b = (clock_reading env (clock_reads b), b\<lparr>clock_reads := clock_reads b + 1\<rparr>)"

definition upd :: "(Worker \<Rightarrow> Worker) \<Rightarrow> boot \<Rightarrow> boot" where
  "upd f b = b\<lparr>worker := f (worker b)\<rparr>"

definition state_snapshot :: "u64 \<Rightarrow> Worker \<Rightarrow> StateSnapshot" where
  "state_snapshot now w =
     \<lparr>ss_worker_id = worker_id w, ss_status = worker_status w, ss_is_ready = (worker_status w = WReadyForPrompt),
      ss_trust_gate_cleared = trust_gate_cleared w, ss_prompt_in_flight = prompt_in_flight w,
      ss_last_event = (if worker_events w = [] then None else Some (last (worker_events w))),
      ss_updated_at = worker_updated_at w, ss_seconds_since_update = saturating_sub now (worker_updated_at w)\<rparr>"

text \<open>\<open>state_file_writable\<close> says whether the directory can be made and the file written.\<close>

definition emit_state_file :: "boot_env \<Rightarrow> boot \<Rightarrow> boot" where
  "emit_state_file env b =
     (if \<not> state_file_writable env then b
      else let (now, b) = now_secs env b in b\<lparr>state_file := Some (state_snapshot now (worker b))\<rparr>)"

definition push_event ::
  "boot_env \<Rightarrow> WorkerEventKind \<Rightarrow> WorkerStatus \<Rightarrow> ustr option \<Rightarrow> WorkerEventPayload option \<Rightarrow> boot \<Rightarrow> boot" where
  "push_event env kind st det pay b =
     (let (ts, b) = now_secs env b;
          w = worker b;
          e = \<lparr>seq = of_nat (length (worker_events w)) + 1, event_kind = kind, event_status = st,
               detail = det, payload = pay, event_timestamp = ts\<rparr>
      in emit_state_file env
           (b\<lparr>worker := w\<lparr>worker_updated_at := ts, worker_status := st, worker_events := worker_events w @ [e]\<rparr>\<rparr>))"

definition set_error :: "boot_env \<Rightarrow> WorkerFailureKind \<Rightarrow> ustr \<Rightarrow> boot \<Rightarrow> boot" where
  "set_error env kind msg b =
     (let (t, b) = now_secs env b
      in upd (\<lambda>w. w\<lparr>last_error := Some \<lparr>failure_kind = kind, failure_message = msg, failure_created_at = t\<rparr>\<rparr>) b)"

subsection \<open>Observing the screen\<close>

definition observe_tool_prompt :: "boot_env \<Rightarrow> ToolPermissionPromptObservation \<Rightarrow> boot \<Rightarrow> boot" where
  "observe_tool_prompt env obs b =
     push_event env EvToolPermissionRequired WToolPermissionRequired (Some (lit ''tool permission prompt detected''))
       (Some (ToolPermissionPrompt (tpo_server_name obs) (tpo_tool_name obs) 0 (tpo_allow_scope obs) (tpo_prompt_preview obs)))
       (set_error env ToolPermissionGate (ToolPermissionPromptObservation_message obs)
         (upd (\<lambda>w. w\<lparr>worker_status := WToolPermissionRequired\<rparr>) b))"

definition observe_trust_prompt :: "boot_env \<Rightarrow> boot \<Rightarrow> boot" where
  "observe_trust_prompt env b =
     (let b = push_event env EvTrustRequired WTrustRequired (Some (lit ''trust prompt detected''))
                (Some (TrustPrompt (cwd (worker b)) None))
                (set_error env TrustGate (lit ''worker boot blocked on trust prompt'')
                  (upd (\<lambda>w. w\<lparr>worker_status := WTrustRequired\<rparr>) b))
      in if trust_auto_resolve (worker b)
         then push_event env EvTrustResolved WSpawning (Some (lit ''allowlisted repo auto-resolved trust prompt''))
                (Some (TrustPrompt (cwd (worker b)) (Some AutoAllowlisted)))
                (upd (\<lambda>w. w\<lparr>trust_gate_cleared := True, last_error := None, worker_status := WSpawning\<rparr>) b)
         else b)"

definition prompt_misdelivery_is_relevant :: "Worker \<Rightarrow> bool" where
  "prompt_misdelivery_is_relevant w \<longleftrightarrow> prompt_in_flight w \<and> last_prompt w \<noteq> None"

definition misdelivery_message :: "Worker \<Rightarrow> WorkerPromptTarget \<Rightarrow> ustr \<Rightarrow> ustr" where
  "misdelivery_message w target preview =
     (case target of
        TargetShell \<Rightarrow> lit ''worker prompt landed in shell instead of coding agent: '' @ preview
      | TargetWrongTarget \<Rightarrow> lit ''worker prompt landed in the wrong target instead of '' @ cwd w @ lit '': '' @ preview
      | TargetWrongTask \<Rightarrow> lit ''worker prompt receipt mismatched the expected task context for '' @ cwd w @ lit '': '' @ preview
      | TargetUnknown \<Rightarrow> lit ''worker prompt delivery failed before reaching coding agent: '' @ preview)"

definition observe_misdelivery :: "boot_env \<Rightarrow> PromptDeliveryObservation \<Rightarrow> boot \<Rightarrow> boot" where
  "observe_misdelivery env obs b =
     (let preview = prompt_preview (case last_prompt (worker b) of Some p \<Rightarrow> p | None \<Rightarrow> []);
          pay = (\<lambda>w armed. Some (PromptDeliveryPayload preview (observed_target obs) (observed_cwd obs)
                   (observed_prompt_preview obs) (expected_receipt w) armed));
          b = set_error env PromptDelivery (misdelivery_message (worker b) (observed_target obs) preview) b;
          b = upd (\<lambda>w. w\<lparr>prompt_in_flight := False\<rparr>) b;
          b = push_event env EvPromptMisdelivery WFailed (Some (prompt_misdelivery_detail (observed_target obs)))
                (pay (worker b) False) b
      in if auto_recover_prompt_misdelivery (worker b)
         then let b = upd (\<lambda>w. w\<lparr>replay_prompt := last_prompt w, worker_status := WReadyForPrompt\<rparr>) b
              in push_event env EvPromptReplayArmed WReadyForPrompt
                   (Some (lit ''prompt replay armed after prompt misdelivery'')) (pay (worker b) True) b
         else upd (\<lambda>w. w\<lparr>worker_status := WFailed\<rparr>) b)"

definition observe_running :: "ustr \<Rightarrow> boot \<Rightarrow> boot" where
  "observe_running lowered b =
     (if detect_running_cue lowered \<and> prompt_in_flight (worker b)
      then upd (\<lambda>w. w\<lparr>prompt_in_flight := False, worker_status := WRunning, last_error := None\<rparr>) b
      else b)"

definition observe_ready :: "boot_env \<Rightarrow> ustr \<Rightarrow> ustr \<Rightarrow> boot \<Rightarrow> boot" where
  "observe_ready env screen_text lowered b =
     (if detect_ready_for_prompt screen_text lowered \<and> worker_status (worker b) \<noteq> WReadyForPrompt
      then push_event env EvReadyForPrompt WReadyForPrompt (Some (lit ''worker is ready for prompt delivery'')) None
             (upd (\<lambda>w. w\<lparr>worker_status := WReadyForPrompt, prompt_in_flight := False,
                last_error := (case last_error w of
                    Some f \<Rightarrow> if failure_kind f = TrustGate then None else Some f | None \<Rightarrow> None)\<rparr>) b)
      else b)"

definition observe :: "boot_env \<Rightarrow> ustr \<Rightarrow> boot \<Rightarrow> boot" where
  "observe env screen_text b =
     (let lowered = to_ascii_lowercase screen_text
      in case detect_tool_permission_prompt screen_text lowered of
           Some obs \<Rightarrow> observe_tool_prompt env obs b
         | None \<Rightarrow>
             let trust = (\<not> trust_gate_cleared (worker b) \<and> detect_trust_prompt lowered);
                 b' = (if trust then observe_trust_prompt env b else b)
             in if trust \<and> \<not> trust_auto_resolve (worker b) then b'
                else case (if prompt_misdelivery_is_relevant (worker b')
                           then detect_prompt_misdelivery (canonicalize env) screen_text lowered
                                  (last_prompt (worker b')) (cwd (worker b')) (expected_receipt (worker b'))
                           else None) of
                       Some obs \<Rightarrow> observe_misdelivery env obs b'
                     | None \<Rightarrow> observe_ready env screen_text lowered (observe_running lowered b'))"

subsection \<open>Control operations\<close>

definition resolve_trust :: "boot_env \<Rightarrow> ustr \<Rightarrow> boot \<Rightarrow> (ustr + unit) \<times> boot" where
  "resolve_trust env wid b =
     (let w = worker b
      in if worker_status w \<noteq> WTrustRequired
         then (Inl (lit ''worker '' @ wid @ lit '' is not waiting on trust; current status: ''
                 @ WorkerStatus_display (worker_status w)), b)
         else (Inr (), push_event env EvTrustResolved WSpawning (Some (lit ''trust prompt resolved manually''))
                 (Some (TrustPrompt (cwd w) (Some ManualApproval)))
                 (upd (\<lambda>w. w\<lparr>trust_gate_cleared := True, last_error := None, worker_status := WSpawning\<rparr>) b)))"

definition next_prompt :: "ustr option \<Rightarrow> Worker \<Rightarrow> ustr option" where
  "next_prompt prompt w =
     (case prompt of
        Some p \<Rightarrow> if trim p \<noteq> [] then Some (trim p) else replay_prompt w
      | None \<Rightarrow> replay_prompt w)"

definition send_prompt ::
  "boot_env \<Rightarrow> ustr \<Rightarrow> ustr option \<Rightarrow> WorkerTaskReceipt option \<Rightarrow> boot \<Rightarrow> (ustr + unit) \<times> boot" where
  "send_prompt env wid prompt receipt b =
     (let w = worker b
      in if worker_status w \<noteq> WReadyForPrompt
         then (Inl (lit ''worker '' @ wid @ lit '' is not ready for prompt delivery; current status: ''
                 @ WorkerStatus_display (worker_status w)), b)
         else case next_prompt prompt w of
                None \<Rightarrow> (Inl (lit ''worker '' @ wid @ lit '' has no prompt to send or replay''), b)
              | Some p \<Rightarrow>
                  let (t, b) = now_secs env b;
                      b = upd (\<lambda>w. w\<lparr>prompt_delivery_attempts := prompt_delivery_attempts w + 1,
                            prompt_in_flight := True, prompt_sent_at := Some t, last_prompt := Some p,
                            expected_receipt := receipt, replay_prompt := None, last_error := None,
                            worker_status := WRunning\<rparr>) b
                  in (Inr (), push_event env EvRunning WRunning
                        (Some (lit ''prompt dispatched to worker: '' @ prompt_preview p)) None b))"

definition restart :: "boot_env \<Rightarrow> boot \<Rightarrow> boot" where
  "restart env b =
     push_event env EvRestarted WSpawning (Some (lit ''worker restarted'')) None
       (upd (\<lambda>w. w\<lparr>worker_status := WSpawning, trust_gate_cleared := False, last_prompt := None,
          replay_prompt := None, last_error := None, prompt_delivery_attempts := 0,
          prompt_in_flight := False, prompt_sent_at := None\<rparr>) b)"

definition terminate :: "boot_env \<Rightarrow> boot \<Rightarrow> boot" where
  "terminate env b =
     push_event env EvFinished WFinished (Some (lit ''worker terminated by control plane'')) None
       (upd (\<lambda>w. w\<lparr>worker_status := WFinished, prompt_in_flight := False\<rparr>) b)"

definition observe_completion :: "boot_env \<Rightarrow> ustr \<Rightarrow> u64 \<Rightarrow> boot \<Rightarrow> boot" where
  "observe_completion env finish_reason tokens_output b =
     (let degraded = (finish_reason = lit ''unknown'' \<and> tokens_output = 0)
      in if degraded \<or> finish_reason = lit ''error''
         then push_event env EvFailed WFailed (Some (lit ''provider failure classified'')) None
                (upd (\<lambda>w. w\<lparr>worker_status := WFailed, prompt_in_flight := False\<rparr>)
                  (set_error env Provider
                    (if degraded
                     then lit ''session completed with finish='' @ [39] @ lit ''unknown'' @ [39]
                       @ lit '' and zero output '' @ [8212] @ lit '' provider degraded or context exhausted''
                     else lit ''session failed with finish='' @ [39] @ finish_reason @ [39, 32, 8212]
                       @ lit '' provider error'') b))
         else push_event env EvFinished WFinished
                (Some (lit ''session completed: finish='' @ [39] @ finish_reason @ [39] @ lit '', tokens=''
                  @ show_nat (unat tokens_output))) None
                (upd (\<lambda>w. w\<lparr>worker_status := WFinished, prompt_in_flight := False, last_error := None\<rparr>) b))"

definition classify_startup_failure :: "StartupEvidenceBundle \<Rightarrow> StartupFailureClassification" where
  "classify_startup_failure ev =
     (if \<not> transport_healthy ev then ClassTransportDead
      else if trust_prompt_detected ev \<and> last_lifecycle_state ev = WTrustRequired then ClassTrustRequired
      else if tool_permission_prompt_detected ev \<and> last_lifecycle_state ev = WToolPermissionRequired
      then ClassToolPermissionRequired
      else if ev_prompt_sent_at ev \<noteq> None \<and> \<not> prompt_acceptance_state ev \<and> last_lifecycle_state ev = WRunning
      then ClassPromptAcceptanceTimeout
      else if ev_prompt_sent_at ev \<noteq> None \<and> \<not> prompt_acceptance_state ev \<and> 30 < elapsed_seconds ev
      then ClassPromptMisdelivery
      else if \<not> mcp_healthy ev \<and> transport_healthy ev then ClassWorkerCrashed
      else ClassUnknown)"

definition startup_evidence :: "u64 \<Rightarrow> ustr \<Rightarrow> bool \<Rightarrow> bool \<Rightarrow> Worker \<Rightarrow> StartupEvidenceBundle" where
  "startup_evidence now pane transport mcp w =
     (let latest = find (\<lambda>e. event_kind e = EvToolPermissionRequired) (rev (worker_events w))
      in \<lparr>last_lifecycle_state = worker_status w, last_lifecycle_at = worker_updated_at w, pane_command = pane,
          pane_observed_at = now, command_started_at = worker_created_at w, ev_prompt_sent_at = prompt_sent_at w,
          prompt_acceptance_state = (worker_status w = WRunning \<and> \<not> prompt_in_flight w),
          trust_prompt_detected = list_ex (\<lambda>e. event_kind e = EvTrustRequired) (worker_events w),
          tool_permission_prompt_detected = list_ex (\<lambda>e. event_kind e = EvToolPermissionRequired) (worker_events w),
          tool_permission_prompt_age_seconds = map_option (\<lambda>e. saturating_sub now (event_timestamp e)) latest,
          tool_permission_allow_scope = Option.bind latest (\<lambda>e. case payload e of
            Some (ToolPermissionPrompt _ _ _ allow_scope _) \<Rightarrow> Some allow_scope | _ \<Rightarrow> None),
          transport_healthy = transport,
          transport_health = StartupHealthSummary_observed (lit ''transport'') transport,
          mcp_healthy = mcp, mcp_health = StartupHealthSummary_observed (lit ''mcp'') mcp,
          elapsed_seconds = saturating_sub now (worker_created_at w)\<rparr>)"

definition observe_startup_timeout :: "boot_env \<Rightarrow> ustr \<Rightarrow> bool \<Rightarrow> bool \<Rightarrow> boot \<Rightarrow> boot" where
  "observe_startup_timeout env pane transport mcp b =
     (let (now, b) = now_secs env b;
          ev = startup_evidence now pane transport mcp (worker b);
          cls = classify_startup_failure ev
      in push_event env EvStartupNoEvidence WFailed
           (Some (lit ''startup timeout with evidence: last_state='' @ WorkerStatus_debug (last_lifecycle_state ev)
              @ lit '', trust_detected='' @ show_bool (trust_prompt_detected ev)
              @ lit '', prompt_accepted='' @ show_bool (prompt_acceptance_state ev)))
           (Some (StartupNoEvidencePayload ev cls))
           (upd (\<lambda>w. w\<lparr>last_error := Some \<lparr>failure_kind = StartupNoEvidence,
                failure_message = lit ''worker startup stalled after '' @ show_nat (unat (elapsed_seconds ev)) @ lit ''s ''
                  @ [8212] @ lit '' classified as '' @ StartupFailureClassification_debug cls,
                failure_created_at = now\<rparr>, worker_status := WFailed, prompt_in_flight := False\<rparr>) b))"

subsection \<open>The registry\<close>

definition WorkerRegistry_new :: WorkerRegistryInner where
  "WorkerRegistry_new = \<lparr>workers = [], worker_counter = 0, state_files = []\<rparr>"

definition new_worker ::
  "boot_env \<Rightarrow> ustr \<Rightarrow> ustr \<Rightarrow> ustr list \<Rightarrow> bool \<Rightarrow> StateSnapshot option \<Rightarrow> boot" where
  "new_worker env wid dir trusted_roots auto_recover old_file =
     (let ts = clock_reading env 0
      in push_event env EvSpawning WSpawning (Some (lit ''worker created'')) None
           \<lparr>worker =
             \<lparr>worker_id = wid, cwd = dir, worker_status = WSpawning,
              trust_auto_resolve = list_ex (path_matches_allowlist (canonicalize env) dir) trusted_roots,
              trust_gate_cleared = False, auto_recover_prompt_misdelivery = auto_recover,
              prompt_delivery_attempts = 0, prompt_in_flight = False, prompt_sent_at = None, last_prompt = None,
              expected_receipt = None, replay_prompt = None, last_error = None, worker_created_at = ts,
              worker_updated_at = ts, worker_events = []\<rparr>,
            clock_reads = 1, state_file = old_file\<rparr>)"

definition store_boot :: "ustr \<Rightarrow> boot \<Rightarrow> WorkerRegistryInner \<Rightarrow> WorkerRegistryInner" where
  "store_boot wid b inner =
     inner\<lparr>workers := hm_insert wid (worker b) (workers inner),
           state_files := (case state_file b of
              Some f \<Rightarrow> hm_insert (cwd (worker b)) f (state_files inner) | None \<Rightarrow> state_files inner)\<rparr>"

definition WorkerRegistry_create ::
  "boot_env \<Rightarrow> ustr \<Rightarrow> ustr list \<Rightarrow> bool \<Rightarrow> WorkerRegistryInner \<Rightarrow> Worker \<times> WorkerRegistryInner" where
  "WorkerRegistry_create env dir trusted_roots auto_recover inner =
     (let counter = worker_counter inner + 1;
          wid = entry_id (lit ''worker'') (clock_reading env 0) counter;
          b = new_worker env wid dir trusted_roots auto_recover (hm_get (state_files inner) dir)
      in (worker b, store_boot wid b (inner\<lparr>worker_counter := counter\<rparr>)))"

definition WorkerRegistry_get :: "ustr \<Rightarrow> WorkerRegistryInner \<Rightarrow> Worker option" where
  "WorkerRegistry_get wid inner = hm_get (workers inner) wid"

text \<open>The shape every operation on a worker has in the registry: look it up, change it in place, return a copy.\<close>

definition with_worker ::
  "ustr \<Rightarrow> (boot \<Rightarrow> (ustr + unit) \<times> boot) \<Rightarrow> WorkerRegistryInner \<Rightarrow> (ustr + Worker) \<times> WorkerRegistryInner" where
  "with_worker wid f inner =
     (case hm_get (workers inner) wid of
        None \<Rightarrow> (Inl (lit ''worker not found: '' @ wid), inner)
      | Some w \<Rightarrow>
          (case f \<lparr>worker = w, clock_reads = 0, state_file = hm_get (state_files inner) (cwd w)\<rparr> of
             (Inl e, b) \<Rightarrow> (Inl e, inner)
           | (Inr _, b) \<Rightarrow> (Inr (worker b), store_boot wid b inner)))"

definition await_ready :: "ustr \<Rightarrow> WorkerRegistryInner \<Rightarrow> ustr + WorkerReadySnapshot" where
  "await_ready wid inner =
     (case WorkerRegistry_get wid inner of
        None \<Rightarrow> Inl (lit ''worker not found: '' @ wid)
      | Some w \<Rightarrow>
          Inr \<lparr>ready_worker_id = worker_id w, ready_status = worker_status w,
               ready = (worker_status w = WReadyForPrompt),
               blocked = (worker_status w \<in> {WTrustRequired, WToolPermissionRequired, WFailed}),
               replay_prompt_ready = (replay_prompt w \<noteq> None), ready_last_error = last_error w\<rparr>)"

datatype boot_op = BootObserve ustr | BootResolveTrust | BootSendPrompt "ustr option" "WorkerTaskReceipt option"
  | BootRestart | BootTerminate | BootCompletion ustr u64 | BootStartupTimeout ustr bool bool

fun boot_step :: "boot_env \<Rightarrow> ustr \<Rightarrow> boot_op \<Rightarrow> boot \<Rightarrow> (ustr + unit) \<times> boot" where
  "boot_step env wid (BootObserve screen) b = (Inr (), observe env screen b)"
| "boot_step env wid BootResolveTrust b = resolve_trust env wid b"
| "boot_step env wid (BootSendPrompt p r) b = send_prompt env wid p r b"
| "boot_step env wid BootRestart b = (Inr (), restart env b)"
| "boot_step env wid BootTerminate b = (Inr (), terminate env b)"
| "boot_step env wid (BootCompletion reason tokens) b = (Inr (), observe_completion env reason tokens b)"
| "boot_step env wid (BootStartupTimeout pane t m) b = (Inr (), observe_startup_timeout env pane t m b)"

definition WorkerRegistry_apply ::
  "boot_env \<Rightarrow> ustr \<Rightarrow> boot_op \<Rightarrow> WorkerRegistryInner \<Rightarrow> (ustr + Worker) \<times> WorkerRegistryInner" where
  "WorkerRegistry_apply env wid op inner = with_worker wid (boot_step env wid op) inner"

section \<open>The log and the worker agree\<close>

definition numbered :: "WorkerEvent list \<Rightarrow> bool" where
  "numbered evs \<longleftrightarrow> map seq evs = map (\<lambda>i. of_nat i + 1) [0..<length evs]"

definition logged_kind :: "WorkerEventKind \<Rightarrow> Worker \<Rightarrow> bool" where
  "logged_kind k w \<longleftrightarrow> list_ex (\<lambda>e. event_kind e = k) (worker_events w)"

definition failed_with :: "WorkerFailureKind \<Rightarrow> Worker \<Rightarrow> bool" where
  "failed_with k w \<longleftrightarrow> (case last_error w of Some f \<Rightarrow> failure_kind f = k | None \<Rightarrow> False)"

text \<open>What holds of every worker: events are numbered from one and the last carries the time and, unless
  the worker was seen to work on its prompt, the status; a prompt in flight is there and is not blank;
  a worker that waits for trust or for a permission has logged that and has the error; a ready
  worker has no prompt in flight.\<close>

definition boot_inv :: "Worker \<Rightarrow> bool" where
  "boot_inv w \<longleftrightarrow>
     worker_events w \<noteq> [] \<and> numbered (worker_events w)
     \<and> worker_updated_at w = event_timestamp (last (worker_events w))
     \<and> (worker_status w = event_status (last (worker_events w)) \<or> worker_status w = WRunning)
     \<and> (prompt_in_flight w \<longrightarrow> last_prompt w \<noteq> None \<and> prompt_sent_at w \<noteq> None)
     \<and> pred_option (\<lambda>p. trim p \<noteq> []) (last_prompt w) \<and> pred_option (\<lambda>p. trim p \<noteq> []) (replay_prompt w)
     \<and> (worker_status w = WTrustRequired \<longrightarrow> \<not> trust_gate_cleared w \<and> logged_kind EvTrustRequired w \<and> failed_with TrustGate w)
     \<and> (worker_status w = WToolPermissionRequired \<longrightarrow> logged_kind EvToolPermissionRequired w \<and> failed_with ToolPermissionGate w)
     \<and> (worker_status w = WReadyForPrompt \<longrightarrow> \<not> prompt_in_flight w)"

lemma numbered_snoc:
  "numbered (evs @ [e]) \<longleftrightarrow> numbered evs \<and> seq e = of_nat (length evs) + 1"
  "numbered (evs @ [e, f]) \<longleftrightarrow> numbered evs \<and> seq e = of_nat (length evs) + 1 \<and> seq f = 2 + of_nat (length evs)"
  by (simp_all add: numbered_def)

lemma worker_upd [simp]: "worker (upd f b) = f (worker b)"
  by (simp add: upd_def)

lemma worker_emit [simp]: "worker (emit_state_file env b) = worker b"
  by (simp add: emit_state_file_def now_secs_def)

lemma worker_push_event [simp]:
  "worker (push_event env kind st det pay b) =
     (worker b)\<lparr>worker_updated_at := clock_reading env (clock_reads b), worker_status := st,
        worker_events := worker_events (worker b)
          @ [\<lparr>seq = of_nat (length (worker_events (worker b))) + 1, event_kind = kind, event_status = st,
              detail = det, payload = pay, event_timestamp = clock_reading env (clock_reads b)\<rparr>]\<rparr>"
  by (simp add: push_event_def now_secs_def Let_def)

lemma worker_set_error [simp]:
  "worker (set_error env kind msg b) = (worker b)\<lparr>last_error :=
     Some \<lparr>failure_kind = kind, failure_message = msg, failure_created_at = clock_reading env (clock_reads b)\<rparr>\<rparr>"
  by (simp add: set_error_def now_secs_def)

lemmas inv_defs = boot_inv_def logged_kind_def failed_with_def numbered_snoc

lemma inv_tool_prompt: "boot_inv (worker b) \<Longrightarrow> boot_inv (worker (observe_tool_prompt env obs b))"
  by (simp add: observe_tool_prompt_def inv_defs)

lemma inv_trust_prompt:
  "boot_inv (worker b) \<Longrightarrow> \<not> trust_gate_cleared (worker b) \<Longrightarrow> boot_inv (worker (observe_trust_prompt env b))"
  by (simp add: observe_trust_prompt_def inv_defs Let_def)

lemma inv_misdelivery:
  "boot_inv (worker b) \<Longrightarrow> prompt_misdelivery_is_relevant (worker b) \<Longrightarrow> boot_inv (worker (observe_misdelivery env obs b))"
  by (simp add: observe_misdelivery_def inv_defs Let_def prompt_misdelivery_is_relevant_def)

lemma inv_running: "boot_inv (worker b) \<Longrightarrow> boot_inv (worker (observe_running lowered b))"
  by (simp add: observe_running_def inv_defs)

lemma inv_ready: "boot_inv (worker b) \<Longrightarrow> boot_inv (worker (observe_ready env screen lowered b))"
  by (simp add: observe_ready_def inv_defs)

lemma inv_observe: "boot_inv (worker b) \<Longrightarrow> boot_inv (worker (observe env screen b))"
  by (simp add: observe_def Let_def inv_tool_prompt inv_trust_prompt inv_misdelivery inv_running inv_ready split: option.split)

lemma next_prompt_nonblank: "boot_inv w \<Longrightarrow> next_prompt p w = Some q \<Longrightarrow> trim q \<noteq> []"
proof -
  assume "boot_inv w" and q: "next_prompt p w = Some q"
  then have "pred_option (\<lambda>p. trim p \<noteq> []) (replay_prompt w)" by (simp add: boot_inv_def)
  with q trim_trim show ?thesis
    by (cases p; cases "trim (the p) = []") (auto simp: next_prompt_def)
qed

lemma inv_send: "boot_inv (worker b) \<Longrightarrow> boot_inv (worker (snd (send_prompt env wid p r b)))"
proof (cases "next_prompt p (worker b)")
  case None
  then show "boot_inv (worker b) \<Longrightarrow> ?thesis" by (simp add: send_prompt_def Let_def)
next
  case (Some q)
  assume inv: "boot_inv (worker b)"
  from next_prompt_nonblank [OF inv Some] inv Some show ?thesis
    by (cases "worker_status (worker b) = WReadyForPrompt") (simp_all add: send_prompt_def now_secs_def inv_defs)
qed

lemma inv_step: "boot_inv (worker b) \<Longrightarrow> boot_inv (worker (snd (boot_step env wid op b)))"
proof (cases op)
  case (BootObserve screen)
  then show "boot_inv (worker b) \<Longrightarrow> ?thesis" by (simp add: inv_observe)
next
  case (BootSendPrompt p r)
  then show "boot_inv (worker b) \<Longrightarrow> ?thesis" by (simp add: inv_send)
qed (simp_all add: resolve_trust_def restart_def terminate_def observe_completion_def observe_startup_timeout_def
    inv_defs Let_def now_secs_def)

lemma inv_new: "boot_inv (worker (new_worker env wid dir roots auto old))"
  by (simp add: new_worker_def inv_defs numbered_def Let_def)

text \<open>The workers of a registry, whatever environments and operations they went through.\<close>

inductive reachable_worker :: "Worker \<Rightarrow> bool" where
  created: "reachable_worker (worker (new_worker env wid dir roots auto old))"
| stepped: "reachable_worker w
    \<Longrightarrow> reachable_worker (worker (snd (boot_step env wid op \<lparr>worker = w, clock_reads = n, state_file = f\<rparr>)))"

lemma reachable_inv: "reachable_worker w \<Longrightarrow> boot_inv w"
proof (induction rule: reachable_worker.induct)
  case (stepped w env wid op n f)
  then show ?case using inv_step [of "\<lparr>worker = w, clock_reads = n, state_file = f\<rparr>"] by simp
qed (rule inv_new)

definition registry_reachable :: "WorkerRegistryInner \<Rightarrow> bool" where
  "registry_reachable inner \<longleftrightarrow> (\<forall>k w. hm_get (workers inner) k = Some w \<longrightarrow> reachable_worker w)"

lemma registry_reachable_new: "registry_reachable WorkerRegistry_new"
  by (simp add: registry_reachable_def WorkerRegistry_new_def)

lemma registry_reachable_create:
  "registry_reachable inner \<Longrightarrow> registry_reachable (snd (WorkerRegistry_create env dir roots auto inner))"
  by (simp add: registry_reachable_def WorkerRegistry_create_def Let_def store_boot_def created)

lemma registry_reachable_apply:
  assumes "registry_reachable inner"
  shows "registry_reachable (snd (WorkerRegistry_apply env wid op inner))"
proof (cases "hm_get (workers inner) wid")
  case None
  with assms show ?thesis by (simp add: WorkerRegistry_apply_def with_worker_def)
next
  case (Some w)
  let ?b = "\<lparr>worker = w, clock_reads = 0, state_file = hm_get (state_files inner) (cwd w)\<rparr>"
  from Some assms have "reachable_worker w" by (auto simp: registry_reachable_def)
  then have "reachable_worker (worker (snd (boot_step env wid op ?b)))" by (rule stepped)
  with Some assms show ?thesis
    by (cases "boot_step env wid op ?b"; cases "fst (boot_step env wid op ?b)")
      (simp_all add: WorkerRegistry_apply_def with_worker_def registry_reachable_def store_boot_def)
qed

section \<open>Properties\<close>

definition sample_boot_env :: boot_env where
  "sample_boot_env = \<lparr>clock_reading = (\<lambda>n. 100 + of_nat n), canonicalize = (\<lambda>_. None), state_file_writable = True\<rparr>"

definition sample_boot :: boot where
  "sample_boot = new_worker sample_boot_env (lit ''w'') (lit ''/r'') [] True None"

lemma sample_worker_reachable: "reachable_worker (worker sample_boot)"
  unfolding sample_boot_def by (rule created)

text \<open>C35: every worker a registry ever holds satisfies the invariant: events are numbered from one without
  gaps, the last one carries the time of the last change, a prompt in flight is recorded and not
  blank, a worker waiting for trust or for a permission has logged it and carries the error, a ready
  worker has no prompt in flight.\<close>

theorem workers_agree_with_log:
  assumes "reachable_worker w"
  shows "boot_inv w"
  by (rule reachable_inv [OF assms])

theorem workers_agree_with_log_witness:
  "boot_inv (worker sample_boot) \<and> length (worker_events (worker sample_boot)) = 1"
  using workers_agree_with_log [OF sample_worker_reachable] by (simp add: sample_boot_def new_worker_def Let_def)

subsection \<open>Dispatching prompts\<close>

lemma send_prompt_ok_iff:
  "(\<exists>u. fst (send_prompt env wid p r b) = Inr u) \<longleftrightarrow>
     worker_status (worker b) = WReadyForPrompt \<and> next_prompt p (worker b) \<noteq> None"
  by (simp add: send_prompt_def Let_def split: option.split prod.split)

text \<open>A prompt is dispatched exactly to a worker that is ready and for which a prompt is given or
  kept for replay. The worker then runs with that prompt in flight, so a second dispatch is refused
  and changes nothing; a refused dispatch changes nothing either.\<close>

theorem prompt_dispatched_once:
  "case send_prompt env wid p r b of
     (Inr _, b') \<Rightarrow> worker_status (worker b) = WReadyForPrompt
        \<and> last_prompt (worker b') = next_prompt p (worker b) \<and> next_prompt p (worker b) \<noteq> None
        \<and> prompt_in_flight (worker b') \<and> worker_status (worker b') = WRunning
        \<and> prompt_delivery_attempts (worker b') = prompt_delivery_attempts (worker b) + 1
        \<and> snd (send_prompt env' wid p' r' b') = b' \<and> is_ok (fst (send_prompt env' wid p' r' b')) = False
   | (Inl _, b') \<Rightarrow> b' = b
        \<and> \<not> (worker_status (worker b) = WReadyForPrompt \<and> next_prompt p (worker b) \<noteq> None)"
  by (simp add: send_prompt_def Let_def now_secs_def is_ok_def split: option.split)

text \<open>If a prompt in flight is seen to have landed in the wrong place and the worker may recover by
  itself, the worker is ready again and the next dispatch without a prompt sends the same prompt.\<close>

theorem misdelivered_prompt_is_replayed:
  assumes "last_prompt (worker b) = Some p" and "prompt_in_flight (worker b)"
    and "auto_recover_prompt_misdelivery (worker b)" and "trust_gate_cleared (worker b)"
    and "detect_tool_permission_prompt screen (to_ascii_lowercase screen) = None"
    and "detect_prompt_misdelivery (canonicalize env) screen (to_ascii_lowercase screen) (Some p)
           (cwd (worker b)) (expected_receipt (worker b)) = Some obs"
  shows "\<exists>b'. send_prompt env' wid None r (observe env screen b) = (Inr (), b')
     \<and> last_prompt (worker b') = Some p \<and> prompt_in_flight (worker b') \<and> replay_prompt (worker b') = None"
proof -
  have "observe env screen b = observe_misdelivery env obs b"
    using assms by (simp add: observe_def Let_def prompt_misdelivery_is_relevant_def)
  moreover have "worker_status (worker (observe_misdelivery env obs b)) = WReadyForPrompt"
    "replay_prompt (worker (observe_misdelivery env obs b)) = Some p"
    using assms(1,3) by (simp_all add: observe_misdelivery_def Let_def)
  ultimately show ?thesis by (simp add: send_prompt_def next_prompt_def now_secs_def Let_def)
qed

definition shell_screen :: ustr where
  "shell_screen = lit ''fix: command not found''"

definition sample_in_flight :: boot where
  "sample_in_flight = sample_boot\<lparr>worker := (worker sample_boot)\<lparr>trust_gate_cleared := True, prompt_in_flight := True,
     last_prompt := Some (lit ''fix''), worker_status := WRunning\<rparr>\<rparr>"

lemmas screen_defs = contains_any_def contains_def starts_with_def ends_with_def to_ascii_lowercase_def ascii_lower_def
  lines_def split_whitespace_def trim_def trim_start_def trim_end_def is_whitespace_def strip_prefix_def strip_cr_def lit_def

theorem misdelivered_prompt_is_replayed_witness:
  "\<exists>b'. send_prompt sample_boot_env (lit ''w'') None None (observe sample_boot_env shell_screen sample_in_flight) = (Inr (), b')
     \<and> last_prompt (worker b') = Some (lit ''fix'')"
proof -
  have "detect_tool_permission_prompt shell_screen (to_ascii_lowercase shell_screen) = None"
    by (simp add: detect_tool_permission_prompt_def shell_screen_def screen_defs)
  moreover have "detect_prompt_misdelivery (canonicalize sample_boot_env) shell_screen (to_ascii_lowercase shell_screen)
      (Some (lit ''fix'')) (cwd (worker sample_in_flight)) (expected_receipt (worker sample_in_flight))
      = Some \<lparr>observed_target = TargetShell, observed_cwd = None, observed_prompt_preview = None\<rparr>"
    by (simp add: detect_prompt_misdelivery_def shell_screen_def sample_in_flight_def sample_boot_def new_worker_def Let_def
        detect_observed_shell_cwd_def detect_prompt_echo_def is_shell_prompt_token_def screen_defs)
  ultimately show ?thesis
    using misdelivered_prompt_is_replayed [of sample_in_flight "lit ''fix''" shell_screen sample_boot_env
        "\<lparr>observed_target = TargetShell, observed_cwd = None, observed_prompt_preview = None\<rparr>"
        sample_boot_env "lit ''w''" None]
    by (auto simp: sample_in_flight_def sample_boot_def new_worker_def Let_def)
qed

subsection \<open>Recovery by restart\<close>

definition ready_screen :: ustr where
  "ready_screen = lit ''Ready for input''"

lemma observe_ready_screen:
  "worker_status (worker b) = WSpawning \<Longrightarrow> \<not> prompt_in_flight (worker b) \<Longrightarrow>
     observe env ready_screen b = observe_ready env ready_screen (to_ascii_lowercase ready_screen) b"
  "detect_ready_for_prompt ready_screen (to_ascii_lowercase ready_screen)"
proof -
  show "detect_ready_for_prompt ready_screen (to_ascii_lowercase ready_screen)"
    by (simp add: detect_ready_for_prompt_def ready_screen_def screen_defs)
  assume "worker_status (worker b) = WSpawning" "\<not> prompt_in_flight (worker b)"
  moreover have "detect_tool_permission_prompt ready_screen (to_ascii_lowercase ready_screen) = None"
    by (simp add: detect_tool_permission_prompt_def ready_screen_def screen_defs)
  moreover have "\<not> detect_trust_prompt (to_ascii_lowercase ready_screen)"
    by (simp add: detect_trust_prompt_def ready_screen_def screen_defs)
  ultimately show "observe env ready_screen b = observe_ready env ready_screen (to_ascii_lowercase ready_screen) b"
    by (simp add: observe_def Let_def prompt_misdelivery_is_relevant_def observe_running_def)
qed

text \<open>No worker is stuck for good: whatever state it is in, after a restart, once its screen shows that
  it is ready, a prompt that is not blank is dispatched as the first attempt.\<close>

theorem restart_unblocks_worker:
  assumes "trim p \<noteq> []"
  shows "\<exists>b'. send_prompt env'' wid (Some p) r (observe env' ready_screen (restart env b)) = (Inr (), b')
     \<and> worker_status (worker b') = WRunning \<and> last_prompt (worker b') = Some (trim p)
     \<and> prompt_delivery_attempts (worker b') = 1"
proof -
  let ?b = "restart env b"
  have b: "worker_status (worker ?b) = WSpawning" "\<not> prompt_in_flight (worker ?b)" "prompt_delivery_attempts (worker ?b) = 0"
    by (simp_all add: restart_def)
  have "worker_status (worker (observe env' ready_screen ?b)) = WReadyForPrompt"
    "prompt_delivery_attempts (worker (observe env' ready_screen ?b)) = 0"
    using b observe_ready_screen(1) [of ?b] observe_ready_screen(2) by (simp_all add: observe_ready_def)
  with assms show ?thesis by (simp add: send_prompt_def next_prompt_def now_secs_def Let_def)
qed

theorem restart_unblocks_worker_witness:
  "\<exists>b'. send_prompt sample_boot_env (lit ''w'') (Some (lit '' go '')) None (observe sample_boot_env ready_screen (restart sample_boot_env sample_boot))
     = (Inr (), b') \<and> last_prompt (worker b') = Some (lit ''go'')"
  using restart_unblocks_worker [of "lit '' go ''" sample_boot_env "lit ''w''" None sample_boot_env sample_boot_env sample_boot]
  by (auto simp: screen_defs)

subsection \<open>Timeouts\<close>

text \<open>A start-up timeout with a healthy transport is classified by what the worker waited for: trust, a
  permission, the acceptance of its prompt; otherwise by the age of an unaccepted prompt and the
  health of the MCP servers.\<close>

theorem timeout_classification:
  assumes "reachable_worker w"
  shows "classify_startup_failure (startup_evidence now pane True mcp w) =
     (case worker_status w of
        WTrustRequired \<Rightarrow> ClassTrustRequired
      | WToolPermissionRequired \<Rightarrow> ClassToolPermissionRequired
      | st \<Rightarrow>
          if st = WRunning \<and> prompt_in_flight w then ClassPromptAcceptanceTimeout
          else if st \<noteq> WRunning \<and> prompt_sent_at w \<noteq> None \<and> 30 < saturating_sub now (worker_created_at w)
          then ClassPromptMisdelivery
          else if mcp then ClassUnknown else ClassWorkerCrashed)"
  using reachable_inv [OF assms]
  by (cases "worker_status w")
    (auto simp: classify_startup_failure_def startup_evidence_def Let_def boot_inv_def logged_kind_def)

theorem timeout_classification_witness:
  "classify_startup_failure (startup_evidence 200 [] True False (worker sample_boot)) = ClassWorkerCrashed"
  using timeout_classification [OF sample_worker_reachable, of 200 "[]" False]
  by (simp add: sample_boot_def new_worker_def Let_def)

subsection \<open>The state file\<close>

text \<open>Every operation that logs an event leaves the file showing the worker.\<close>

lemma state_file_push_event:
  "state_file_writable env \<Longrightarrow> \<exists>now. state_file (push_event env k st d p b) = Some (state_snapshot now (worker (push_event env k st d p b)))"
  by (auto simp: push_event_def now_secs_def emit_state_file_def Let_def)

lemma state_file_status:
  "state_file_writable env \<Longrightarrow> map_option ss_status (state_file (push_event env k st d p b)) = Some st"
  using state_file_push_event [of env k st d p b] by (auto simp: state_snapshot_def)

lemma tool_prompt_frame:
  "prompt_in_flight (worker (observe_tool_prompt env obs b)) = prompt_in_flight (worker b)"
  "last_prompt (worker (observe_tool_prompt env obs b)) = last_prompt (worker b)"
  by (simp_all add: observe_tool_prompt_def)

lemma observe_thinking:
  assumes "prompt_in_flight (worker b)" "last_prompt (worker b) = Some (lit ''fix'')"
  shows "worker_status (worker (observe env (lit ''thinking'') b)) = WRunning"
    "state_file (observe env (lit ''thinking'') b) = state_file b"
proof -
  let ?think = "lit ''thinking''"
  have "detect_tool_permission_prompt ?think (to_ascii_lowercase ?think) = None"
    "\<not> detect_trust_prompt (to_ascii_lowercase ?think)" "detect_running_cue (to_ascii_lowercase ?think)"
    "\<not> detect_ready_for_prompt ?think (to_ascii_lowercase ?think)"
    by (simp_all add: detect_tool_permission_prompt_def detect_trust_prompt_def detect_running_cue_def
        detect_ready_for_prompt_def screen_defs)
  moreover have "detect_prompt_misdelivery c ?think (to_ascii_lowercase ?think) (Some (lit ''fix'')) d r = None" for c d r
    by (simp add: detect_prompt_misdelivery_def Let_def detect_prompt_echo_def screen_defs split: option.split)
  ultimately have "observe env ?think b = upd (\<lambda>w. w\<lparr>prompt_in_flight := False, worker_status := WRunning, last_error := None\<rparr>) b"
    using assms by (simp add: observe_def observe_ready_def observe_running_def Let_def)
  then show "worker_status (worker (observe env ?think b)) = WRunning" "state_file (observe env ?think b) = state_file b"
    by (simp_all add: upd_def)
qed

text \<open>The state file can lie: when a worker whose prompt is in flight passes a permission prompt and is
  then seen to work, no event is logged and the file keeps saying that it is blocked.\<close>

theorem state_file_can_be_stale:
  "\<exists>b :: boot. reachable_worker (worker b) \<and> worker_status (worker b) = WRunning
     \<and> map_option ss_status (state_file b) = Some WToolPermissionRequired"
proof -
  let ?step = "\<lambda>op b. snd (boot_step sample_boot_env (lit ''w'') op b)"
  let ?allow = "lit ''Allow tool x to run?''" and ?think = "lit ''thinking''"
  let ?b0 = "?step (BootObserve ready_screen) sample_boot"
  let ?b1 = "?step (BootSendPrompt (Some (lit ''fix'')) None) ?b0"
  let ?b2 = "?step (BootObserve ?allow) ?b1"
  let ?b3 = "?step (BootObserve ?think) ?b2"
  have reach: "reachable_worker (worker b) \<Longrightarrow> reachable_worker (worker (?step op b))" for op b
    using stepped [of "worker b" sample_boot_env "lit ''w''" op "clock_reads b" "state_file b"] by (cases b) simp
  have ready: "worker_status (worker ?b0) = WReadyForPrompt"
    using observe_ready_screen(1) [of sample_boot sample_boot_env] observe_ready_screen(2)
    by (simp add: sample_boot_def new_worker_def Let_def observe_ready_def)
  then have b1: "worker_status (worker ?b1) = WRunning" "prompt_in_flight (worker ?b1)" "last_prompt (worker ?b1) = Some (lit ''fix'')"
    by (simp_all add: send_prompt_def next_prompt_def now_secs_def Let_def screen_defs)
  obtain obs where "detect_tool_permission_prompt ?allow (to_ascii_lowercase ?allow) = Some obs"
    by (simp add: detect_tool_permission_prompt_def screen_defs Let_def)
  then have b2: "?b2 = observe_tool_prompt sample_boot_env obs ?b1" by (simp add: observe_def Let_def)
  have blocked_file: "map_option ss_status (state_file ?b2) = Some WToolPermissionRequired"
    unfolding b2 observe_tool_prompt_def by (rule state_file_status) (simp add: sample_boot_env_def)
  have "prompt_in_flight (worker ?b2)" "last_prompt (worker ?b2) = Some (lit ''fix'')"
    unfolding b2 by (simp_all only: tool_prompt_frame b1)
  note thinking = observe_thinking [OF this, of sample_boot_env]
  have running: "worker_status (worker ?b3) = WRunning" and same: "state_file ?b3 = state_file ?b2"
    using thinking by (simp_all only: boot_step.simps snd_conv)
  have "map_option ss_status (state_file ?b3) = Some WToolPermissionRequired" by (simp only: same blocked_file)
  moreover have "reachable_worker (worker ?b3)" by (intro reach sample_worker_reachable)
  ultimately show ?thesis using running by (intro exI [of _ ?b3] conjI)
qed

end
