(* ===== verification/Recovery.thy ===== *)
theory Recovery
  imports Worker_Boot
begin

text \<open>
  Automatic recovery, \<^verbatim>\<open>runtime/src/recovery_recipes.rs\<close>: the recipe of each failure scenario, the
  context with its attempt counters, event log and ledger, and \<^verbatim>\<open>attempt_recovery\<close>. The hash maps
  keyed by scenario are partial functions. Contexts reachable from a new one by attempts form an
  inductive predicate, and the invariant is proved by rule induction.
\<close>

section \<open>Definitions\<close>

subsection \<open>Data\<close>

datatype FailureScenario =
    TrustPromptUnresolved
  | PromptMisdelivery
  | StaleBranch
  | CompileRedCrossCrate
  | McpHandshakeFailure
  | PartialPluginStartup
  | ProviderFailure

definition all_scenarios :: "FailureScenario list" where
  "all_scenarios = [TrustPromptUnresolved, PromptMisdelivery, StaleBranch, CompileRedCrossCrate,
     McpHandshakeFailure, PartialPluginStartup, ProviderFailure]"

fun from_worker_failure_kind :: "WorkerFailureKind \<Rightarrow> FailureScenario" where
  "from_worker_failure_kind TrustGate = TrustPromptUnresolved"
| "from_worker_failure_kind ToolPermissionGate = TrustPromptUnresolved"
| "from_worker_failure_kind PromptDelivery = PromptMisdelivery"
| "from_worker_failure_kind Protocol = McpHandshakeFailure"
| "from_worker_failure_kind Provider = ProviderFailure"
| "from_worker_failure_kind StartupNoEvidence = ProviderFailure"

fun scenario_display :: "FailureScenario \<Rightarrow> ustr" where
  "scenario_display TrustPromptUnresolved = lit ''trust_prompt_unresolved''"
| "scenario_display PromptMisdelivery = lit ''prompt_misdelivery''"
| "scenario_display StaleBranch = lit ''stale_branch''"
| "scenario_display CompileRedCrossCrate = lit ''compile_red_cross_crate''"
| "scenario_display McpHandshakeFailure = lit ''mcp_handshake_failure''"
| "scenario_display PartialPluginStartup = lit ''partial_plugin_startup''"
| "scenario_display ProviderFailure = lit ''provider_failure''"

datatype RecoveryStep =
    AcceptTrustPrompt
  | RedirectPromptToAgent
  | RebaseBranch
  | CleanBuild
  | RetryMcpHandshake u64
  | RestartPlugin ustr
  | RestartWorker
  | EscalateToHuman ustr

datatype EscalationPolicy = AlertHuman | LogAndContinue | Abort

record RecoveryRecipe =
  scenario :: FailureScenario
  steps :: "RecoveryStep list"
  max_attempts :: u32
  escalation_policy :: EscalationPolicy

datatype RecoveryResult =
    Recovered u32
  | PartialRecovery "RecoveryStep list" "RecoveryStep list"
  | EscalationRequired ustr

datatype RecoveryAttemptType = Automatic

datatype RecoveryAttemptState = Queued | Running | Succeeded | Failed | Exhausted

record RecoveryCommandResult =
  rc_command :: RecoveryStep
  rc_status :: RecoveryAttemptState
  rc_result :: ustr

datatype RecoveryEvent =
    RecoveryAttempted FailureScenario RecoveryRecipe RecoveryResult
  | RecoverySucceeded
  | RecoveryFailed
  | Escalated

record RecoveryLedgerEntry =
  recipe_id :: ustr
  attempt_type :: RecoveryAttemptType
  trigger :: FailureScenario
  entry_attempt_count :: u32
  retry_limit :: u32
  attempts_remaining :: u32
  state :: RecoveryAttemptState
  started_at :: "ustr option"
  finished_at :: "ustr option"
  command_results :: "RecoveryCommandResult list"
  entry_result :: "RecoveryResult option"
  last_failure_summary :: "ustr option"
  escalation_reason :: "ustr option"

record RecoveryStatusReport =
  sr_scenario :: FailureScenario
  sr_attempted :: bool
  sr_state :: "RecoveryAttemptState option"
  sr_attempt_count :: u32
  sr_retry_limit :: "u32 option"
  sr_attempts_remaining :: "u32 option"
  sr_escalation_reason :: "ustr option"

record RecoveryContext =
  attempts :: "FailureScenario \<rightharpoonup> u32"
  events :: "RecoveryEvent list"
  ledger :: "FailureScenario \<rightharpoonup> RecoveryLedgerEntry"
  clock_tick :: u64
  fail_at_step :: "nat option"

subsection \<open>Operations\<close>

definition RecoveryContext_new :: RecoveryContext where
  "RecoveryContext_new =
     \<lparr>attempts = Map.empty, events = [], ledger = Map.empty, clock_tick = 0, fail_at_step = None\<rparr>"

definition with_fail_at_step :: "nat \<Rightarrow> RecoveryContext \<Rightarrow> RecoveryContext" where
  "with_fail_at_step i ctx = ctx\<lparr>fail_at_step := Some i\<rparr>"

definition attempt_count :: "RecoveryContext \<Rightarrow> FailureScenario \<Rightarrow> u32" where
  "attempt_count ctx sc = (case attempts ctx sc of Some n \<Rightarrow> n | None \<Rightarrow> 0)"

definition ledger_entries :: "RecoveryContext \<Rightarrow> RecoveryLedgerEntry list" where
  "ledger_entries ctx = sort_key recipe_id (List.map_filter (ledger ctx) all_scenarios)"

definition status_report :: "RecoveryContext \<Rightarrow> FailureScenario \<Rightarrow> RecoveryStatusReport" where
  "status_report ctx sc =
     (case ledger ctx sc of
        None \<Rightarrow>
          \<lparr>sr_scenario = sc, sr_attempted = False, sr_state = None, sr_attempt_count = 0,
           sr_retry_limit = None, sr_attempts_remaining = None, sr_escalation_reason = None\<rparr>
      | Some e \<Rightarrow>
          \<lparr>sr_scenario = sc, sr_attempted = (0 < entry_attempt_count e), sr_state = Some (state e),
           sr_attempt_count = entry_attempt_count e, sr_retry_limit = Some (retry_limit e),
           sr_attempts_remaining = Some (attempts_remaining e), sr_escalation_reason = escalation_reason e\<rparr>)"

definition next_timestamp :: "RecoveryContext \<Rightarrow> ustr \<times> RecoveryContext" where
  "next_timestamp ctx =
     (let t = clock_tick ctx + 1
      in (lit ''recovery-ledger-tick-'' @ show_nat (unat t), ctx\<lparr>clock_tick := t\<rparr>))"

definition recipe_for :: "FailureScenario \<Rightarrow> RecoveryRecipe" where
  "recipe_for sc =
     (let mk = (\<lambda>ss pol. \<lparr>scenario = sc, steps = ss, max_attempts = 1, escalation_policy = pol\<rparr>)
      in case sc of
           TrustPromptUnresolved \<Rightarrow> mk [AcceptTrustPrompt] AlertHuman
         | PromptMisdelivery \<Rightarrow> mk [RedirectPromptToAgent] AlertHuman
         | StaleBranch \<Rightarrow> mk [RebaseBranch, CleanBuild] AlertHuman
         | CompileRedCrossCrate \<Rightarrow> mk [CleanBuild] AlertHuman
         | McpHandshakeFailure \<Rightarrow> mk [RetryMcpHandshake 5000] Abort
         | PartialPluginStartup \<Rightarrow> mk [RestartPlugin (lit ''stalled''), RetryMcpHandshake 3000] LogAndContinue
         | ProviderFailure \<Rightarrow> mk [RestartWorker] AlertHuman)"

definition new_entry :: "FailureScenario \<Rightarrow> RecoveryLedgerEntry" where
  "new_entry sc =
     \<lparr>recipe_id = scenario_display sc, attempt_type = Automatic, trigger = sc, entry_attempt_count = 0,
      retry_limit = max_attempts (recipe_for sc), attempts_remaining = max_attempts (recipe_for sc),
      state = Queued, started_at = None, finished_at = None, command_results = [], entry_result = None,
      last_failure_summary = None, escalation_reason = None\<rparr>"

text \<open>\<^verbatim>\<open>if let Some(entry) = ctx.ledger.get_mut(scenario)\<close>.\<close>

definition update_entry ::
  "FailureScenario \<Rightarrow> (RecoveryLedgerEntry \<Rightarrow> RecoveryLedgerEntry) \<Rightarrow> RecoveryContext \<Rightarrow> RecoveryContext" where
  "update_entry sc f ctx =
     (case ledger ctx sc of Some e \<Rightarrow> ctx\<lparr>ledger := (ledger ctx)(sc \<mapsto> f e)\<rparr> | None \<Rightarrow> ctx)"

fun run_steps ::
  "FailureScenario \<Rightarrow> nat option \<Rightarrow> nat \<Rightarrow> RecoveryStep list \<Rightarrow>
   RecoveryStep list \<times> RecoveryCommandResult list \<times> bool" where
  "run_steps sc fail_index i [] = ([], [], False)"
| "run_steps sc fail_index i (s # ss) =
     (if fail_index = Some i
      then ([], [\<lparr>rc_command = s, rc_status = Failed,
                  rc_result = lit ''step '' @ show_nat i @ lit '' failed for '' @ scenario_display sc\<rparr>], True)
      else let (executed, results, failed) = run_steps sc fail_index (i + 1) ss
           in (s # executed,
               \<lparr>rc_command = s, rc_status = Succeeded,
                rc_result = lit ''step '' @ show_nat i @ lit '' succeeded for '' @ scenario_display sc\<rparr> # results,
               failed))"

definition steps_result :: "FailureScenario \<Rightarrow> RecoveryStep list \<Rightarrow> RecoveryStep list \<Rightarrow> bool \<Rightarrow> RecoveryResult" where
  "steps_result sc ss executed failed =
     (if failed
      then (if executed = []
            then EscalationRequired (lit ''recovery failed at first step for '' @ scenario_display sc)
            else PartialRecovery executed (drop (length executed) ss))
      else Recovered (of_nat (length ss)))"

definition close_entry :: "RecoveryResult \<Rightarrow> RecoveryLedgerEntry \<Rightarrow> RecoveryLedgerEntry" where
  "close_entry res e =
     (case res of
        Recovered n \<Rightarrow> e\<lparr>state := Succeeded\<rparr>
      | PartialRecovery done rest \<Rightarrow>
          e\<lparr>state := Failed,
            last_failure_summary := Some (show_nat (length rest) @ lit '' step(s) remaining after partial recovery'')\<rparr>
      | EscalationRequired r \<Rightarrow>
          e\<lparr>state := Exhausted, last_failure_summary := Some r, escalation_reason := Some r\<rparr>)"

definition result_event :: "RecoveryResult \<Rightarrow> RecoveryEvent" where
  "result_event res =
     (case res of Recovered n \<Rightarrow> RecoverySucceeded | PartialRecovery d r \<Rightarrow> RecoveryFailed
      | EscalationRequired r \<Rightarrow> Escalated)"

definition attempt_recovery :: "FailureScenario \<Rightarrow> RecoveryContext \<Rightarrow> RecoveryResult \<times> RecoveryContext" where
  "attempt_recovery sc ctx0 =
     (let recipe = recipe_for sc;
          ctx = (case ledger ctx0 sc of
                   None \<Rightarrow> ctx0\<lparr>ledger := (ledger ctx0)(sc \<mapsto> new_entry sc)\<rparr>
                 | Some _ \<Rightarrow> ctx0);
          current_attempts = attempt_count ctx sc
      in if max_attempts recipe \<le> current_attempts
         then
           let reason = lit ''max recovery attempts ('' @ show_nat (unat (max_attempts recipe))
                          @ lit '') exceeded for '' @ scenario_display sc;
               res = EscalationRequired reason;
               (stamp, ctx1) = next_timestamp ctx;
               ctx2 = update_entry sc (\<lambda>e. e\<lparr>entry_attempt_count := current_attempts, attempts_remaining := 0,
                        state := Exhausted, finished_at := Some stamp, entry_result := Some res,
                        last_failure_summary := Some reason, escalation_reason := Some reason\<rparr>) ctx1
           in (res, ctx2\<lparr>events := events ctx2 @ [RecoveryAttempted sc recipe res, Escalated]\<rparr>)
         else
           let updated_attempts = current_attempts + 1;
               ctx1 = ctx\<lparr>attempts := (attempts ctx)(sc \<mapsto> updated_attempts)\<rparr>;
               (start, ctx2) = next_timestamp ctx1;
               ctx3 = update_entry sc (\<lambda>e. e\<lparr>entry_attempt_count := updated_attempts,
                        attempts_remaining := saturating_sub (max_attempts recipe) updated_attempts,
                        state := Running, started_at := Some start, finished_at := None, command_results := [],
                        entry_result := None, last_failure_summary := None, escalation_reason := None\<rparr>) ctx2;
               (executed, results, failed) = run_steps sc (fail_at_step ctx3) 0 (steps recipe);
               res = steps_result sc (steps recipe) executed failed;
               (fin, ctx4) = next_timestamp ctx3;
               ctx5 = update_entry sc (\<lambda>e. close_entry res (e\<lparr>finished_at := Some fin,
                        command_results := results, entry_result := Some res\<rparr>)) ctx4
           in (res, ctx5\<lparr>events := events ctx5 @ [RecoveryAttempted sc recipe res, result_event res]\<rparr>))"

subsection \<open>Reachable contexts\<close>

text \<open>A context as its owner can make it: new, with a failing step configured at any time, and after
  attempts.\<close>

inductive reachable :: "RecoveryContext \<Rightarrow> bool" where
  start: "reachable RecoveryContext_new"
| configure: "reachable ctx \<Longrightarrow> reachable (with_fail_at_step i ctx)"
| attempt: "reachable ctx \<Longrightarrow> attempt_recovery sc ctx = (res, ctx') \<Longrightarrow> reachable ctx'"

definition entry_ok :: "RecoveryContext \<Rightarrow> FailureScenario \<Rightarrow> bool" where
  "entry_ok ctx sc \<longleftrightarrow>
     (case ledger ctx sc of
        None \<Rightarrow> attempts ctx sc = None
      | Some e \<Rightarrow> entry_attempt_count e = attempt_count ctx sc \<and> 1 \<le> entry_attempt_count e \<and> trigger e = sc
          \<and> recipe_id e = scenario_display sc \<and> retry_limit e = max_attempts (recipe_for sc)
          \<and> attempts_remaining e = max_attempts (recipe_for sc) - attempt_count ctx sc
          \<and> state e \<in> {Succeeded, Failed, Exhausted} \<and> (state e = Exhausted \<longleftrightarrow> escalation_reason e \<noteq> None))
     \<and> attempt_count ctx sc \<le> max_attempts (recipe_for sc)"

section \<open>One attempt\<close>

lemma recipe_facts [simp]:
  "max_attempts (recipe_for sc) = 1" "scenario (recipe_for sc) = sc" "steps (recipe_for sc) \<noteq> []"
  by (cases sc; simp add: recipe_for_def Let_def)+

lemma run_steps_spec:
  assumes "run_steps sc f i ss = (ex, rs, b)"
  shows "b \<longleftrightarrow> (\<exists>j. f = Some j \<and> i \<le> j \<and> j < i + length ss)"
    and "ex = (if b then take (the f - i) ss else ss)"
proof -
  have "(b \<longleftrightarrow> (\<exists>j. f = Some j \<and> i \<le> j \<and> j < i + length ss)) \<and> ex = (if b then take (the f - i) ss else ss)"
    using assms
  proof (induction ss arbitrary: i ex rs)
    case (Cons s ss)
    show ?case
    proof (cases "f = Some i")
      case False
      obtain ex' rs' where r: "run_steps sc f (i + 1) ss = (ex', rs', b)" "ex = s # ex'"
        using Cons.prems False by (auto simp: Let_def split: prod.splits)
      from Cons.IH [OF r(1)] False r(2) show ?thesis by (auto simp: take_Cons')
    qed (use Cons.prems in auto)
  qed simp
  then show "b \<longleftrightarrow> (\<exists>j. f = Some j \<and> i \<le> j \<and> j < i + length ss)"
    and "ex = (if b then take (the f - i) ss else ss)" by simp_all
qed

lemma update_entry_simps [simp]:
  "attempts (update_entry sc f ctx) = attempts ctx" "events (update_entry sc f ctx) = events ctx"
  "fail_at_step (update_entry sc f ctx) = fail_at_step ctx"
  "clock_tick (update_entry sc f ctx) = clock_tick ctx"
  "ledger (update_entry sc f ctx) = (ledger ctx)(sc := map_option f (ledger ctx sc))"
  by (auto simp: update_entry_def fun_eq_iff split: option.split)

lemma attempt_count_ledger [simp]: "attempt_count (ctx\<lparr>ledger := l\<rparr>) sc = attempt_count ctx sc"
  by (simp add: attempt_count_def)

text \<open>The context an attempt works on: the scenario has a ledger entry.\<close>

definition prepare :: "FailureScenario \<Rightarrow> RecoveryContext \<Rightarrow> RecoveryContext" where
  "prepare sc ctx = (case ledger ctx sc of None \<Rightarrow> ctx\<lparr>ledger := (ledger ctx)(sc \<mapsto> new_entry sc)\<rparr> | Some _ \<Rightarrow> ctx)"

lemma prepare_simps [simp]:
  "attempts (prepare sc ctx) = attempts ctx" "events (prepare sc ctx) = events ctx"
  "fail_at_step (prepare sc ctx) = fail_at_step ctx"
  "ledger (prepare sc ctx) = (ledger ctx)(sc \<mapsto> (case ledger ctx sc of None \<Rightarrow> new_entry sc | Some e \<Rightarrow> e))"
  "attempt_count (prepare sc ctx) sc' = attempt_count ctx sc'"
  by (auto simp: prepare_def attempt_count_def fun_eq_iff split: option.split)

lemma attempt_unfold:
  "attempt_recovery sc ctx =
     (if 1 \<le> attempt_count ctx sc
      then let reason = lit ''max recovery attempts ('' @ show_nat 1 @ lit '') exceeded for '' @ scenario_display sc;
               res = EscalationRequired reason;
               (stamp, ctx1) = next_timestamp (prepare sc ctx);
               ctx2 = update_entry sc (\<lambda>e. e\<lparr>entry_attempt_count := attempt_count ctx sc, attempts_remaining := 0,
                        state := Exhausted, finished_at := Some stamp, entry_result := Some res,
                        last_failure_summary := Some reason, escalation_reason := Some reason\<rparr>) ctx1
           in (res, ctx2\<lparr>events := events ctx2 @ [RecoveryAttempted sc (recipe_for sc) res, Escalated]\<rparr>)
      else let (start, ctx2) = next_timestamp ((prepare sc ctx)\<lparr>attempts := (attempts ctx)(sc \<mapsto> 1)\<rparr>);
               ctx3 = update_entry sc (\<lambda>e. e\<lparr>entry_attempt_count := 1,
                        attempts_remaining := saturating_sub 1 1,
                        state := Running, started_at := Some start, finished_at := None, command_results := [],
                        entry_result := None, last_failure_summary := None, escalation_reason := None\<rparr>) ctx2;
               (executed, results, failed) = run_steps sc (fail_at_step ctx) 0 (steps (recipe_for sc));
               res = steps_result sc (steps (recipe_for sc)) executed failed;
               (fin, ctx4) = next_timestamp ctx3;
               ctx5 = update_entry sc (\<lambda>e. close_entry res (e\<lparr>finished_at := Some fin,
                        command_results := results, entry_result := Some res\<rparr>)) ctx4
           in (res, ctx5\<lparr>events := events ctx5 @ [RecoveryAttempted sc (recipe_for sc) res, result_event res]\<rparr>))"
proof -
  have z: "attempt_count ctx sc = 0" if "\<not> 1 \<le> attempt_count ctx sc"
    using that by (metis linorder_not_le word_less_1)
  show ?thesis
    unfolding attempt_recovery_def prepare_def [symmetric]
    by (auto simp: Let_def next_timestamp_def z)
qed

lemma attempt_frame:
  "attempt_recovery sc ctx = (res, ctx') \<Longrightarrow> sc' \<noteq> sc \<Longrightarrow>
     ledger ctx' sc' = ledger ctx sc' \<and> attempts ctx' sc' = attempts ctx sc'"
  by (auto simp: attempt_unfold Let_def next_timestamp_def split: if_splits prod.splits)

lemma attempt_outcome:
  assumes "attempt_recovery sc ctx = (res, ctx')"
  shows "res = (if 1 \<le> attempt_count ctx sc
      then EscalationRequired (lit ''max recovery attempts ('' @ show_nat 1 @ lit '') exceeded for '' @ scenario_display sc)
      else let ss = steps (recipe_for sc) in case fail_at_step ctx of
          Some j \<Rightarrow>
            if j = 0 then EscalationRequired (lit ''recovery failed at first step for '' @ scenario_display sc)
            else if j < length ss then PartialRecovery (take j ss) (drop j ss) else Recovered (of_nat (length ss))
        | None \<Rightarrow> Recovered (of_nat (length ss)))"
proof (cases "1 \<le> attempt_count ctx sc")
  case True
  with assms show ?thesis by (auto simp: attempt_unfold Let_def next_timestamp_def)
next
  case False
  obtain ex rs b where r: "run_steps sc (fail_at_step ctx) 0 (steps (recipe_for sc)) = (ex, rs, b)"
    by (metis prod_cases3)
  with assms False have "res = steps_result sc (steps (recipe_for sc)) ex b"
    by (auto simp: attempt_unfold Let_def next_timestamp_def)
  with False run_steps_spec [OF r] show ?thesis
    by (cases "fail_at_step ctx") (auto simp: steps_result_def Let_def)
qed

text \<open>An attempt on a scenario that was not tried before runs the steps of its recipe in order:
  all of them, or those before the failing one, which together with the rest give the recipe; a
  failure at the first step asks for escalation.\<close>

theorem first_attempt_outcome:
  assumes "attempt_count ctx sc = 0"
  shows "case fst (attempt_recovery sc ctx) of
      Recovered n \<Rightarrow> n = of_nat (length (steps (recipe_for sc)))
        \<and> (\<forall>j. fail_at_step ctx = Some j \<longrightarrow> length (steps (recipe_for sc)) \<le> j)
    | PartialRecovery recovered remaining \<Rightarrow> recovered @ remaining = steps (recipe_for sc)
        \<and> fail_at_step ctx = Some (length recovered) \<and> recovered \<noteq> [] \<and> remaining \<noteq> []
    | EscalationRequired r \<Rightarrow> fail_at_step ctx = Some 0"
proof -
  obtain res ctx' where r: "attempt_recovery sc ctx = (res, ctx')" by fastforce
  have "\<not> 1 \<le> attempt_count ctx sc" using assms by simp
  with attempt_outcome [OF r] r show ?thesis
    by (auto simp: Let_def split: option.splits if_splits)
qed

theorem first_attempt_outcome_witness:
  "fst (attempt_recovery StaleBranch (with_fail_at_step 1 RecoveryContext_new)) = PartialRecovery [RebaseBranch] [CleanBuild]"
proof -
  let ?ctx = "with_fail_at_step 1 RecoveryContext_new"
  have s: "steps (recipe_for StaleBranch) = [RebaseBranch, CleanBuild]" by (simp add: recipe_for_def Let_def)
  have f: "fail_at_step ?ctx = Some 1" by (simp add: with_fail_at_step_def)
  have "attempt_count ?ctx StaleBranch = 0"
    by (simp add: attempt_count_def with_fail_at_step_def RecoveryContext_new_def)
  from first_attempt_outcome [OF this] show ?thesis
    by (auto simp: s f [simplified] append_eq_Cons_conv split: RecoveryResult.splits)
qed

text \<open>Every attempt appends to the event log exactly its own record and the event of its result.\<close>

theorem attempt_is_logged:
  "events (snd (attempt_recovery sc ctx)) =
     events ctx @ [RecoveryAttempted sc (recipe_for sc) (fst (attempt_recovery sc ctx)),
                   result_event (fst (attempt_recovery sc ctx))]"
  by (auto simp: attempt_unfold Let_def next_timestamp_def result_event_def split: prod.split)

section \<open>Reachable contexts\<close>

lemma attempt_entry_ok:
  assumes "entry_ok ctx sc" and "attempt_recovery sc ctx = (res, ctx')"
  shows "entry_ok ctx' sc" and "attempt_count ctx' sc = 1"
proof -
  have e: "case ledger ctx sc of None \<Rightarrow> True | Some e \<Rightarrow> trigger e = sc \<and> recipe_id e = scenario_display sc \<and> retry_limit e = 1"
    using assms(1) by (auto simp: entry_ok_def split: option.splits)
  have le: "attempt_count ctx sc \<le> 1" using assms(1) by (simp add: entry_ok_def)
  have "entry_ok ctx' sc \<and> attempt_count ctx' sc = 1"
  proof (cases "1 \<le> attempt_count ctx sc")
    case True
    with le have one: "attempt_count ctx sc = 1" by simp
    then have "attempts ctx sc = Some 1" by (auto simp: attempt_count_def split: option.splits)
    with one e assms(2) show ?thesis
      by (auto simp: attempt_unfold Let_def next_timestamp_def entry_ok_def attempt_count_def new_entry_def
          split: option.splits)
  next
    case False
    with e assms(2) show ?thesis
      by (auto simp: attempt_unfold Let_def next_timestamp_def entry_ok_def attempt_count_def new_entry_def
          close_entry_def saturating_sub_def split: option.splits prod.splits RecoveryResult.splits)
  qed
  then show "entry_ok ctx' sc" and "attempt_count ctx' sc = 1" by simp_all
qed

lemma reachable_entry_ok: "reachable ctx \<Longrightarrow> entry_ok ctx sc"
proof (induction rule: reachable.induct)
  case start
  then show ?case by (simp add: entry_ok_def RecoveryContext_new_def attempt_count_def)
next
  case (configure ctx i)
  then show ?case by (auto simp: entry_ok_def with_fail_at_step_def attempt_count_def split: option.splits)
next
  case (attempt ctx sc' res ctx')
  show ?case
  proof (cases "sc' = sc")
    case True
    with attempt show ?thesis by (blast intro: attempt_entry_ok(1))
  next
    case False
    with attempt attempt_frame [OF attempt.hyps(2), of sc] show ?thesis
      by (auto simp: entry_ok_def attempt_count_def split: option.splits)
  qed
qed

text \<open>C18: in every reachable context no scenario has been tried more often than its recipe allows, and
  the ledger agrees with the counters: attempts made and left, the identifier and the limit of the
  recipe, a closed state, and a reason exactly if the scenario is exhausted.\<close>

theorem reachable_ledger_consistent:
  "reachable ctx \<Longrightarrow> entry_ok ctx sc"
  by (rule reachable_entry_ok)

theorem reachable_ledger_consistent_witness:
  "entry_ok (snd (attempt_recovery StaleBranch RecoveryContext_new)) StaleBranch"
proof -
  have "reachable (snd (attempt_recovery StaleBranch RecoveryContext_new))"
    by (rule reachable.attempt [OF reachable.start prod.collapse [symmetric]])
  then show ?thesis by (rule reachable_ledger_consistent)
qed

text \<open>Once a scenario has been tried, no further step runs for it: every later attempt, after
  whatever happens in between, asks for escalation and leaves the counters as they are.\<close>

theorem later_attempts_escalate:
  assumes "reachable ctx" and "ledger ctx sc \<noteq> None"
  shows "\<exists>reason. fst (attempt_recovery sc ctx) = EscalationRequired reason
     \<and> attempts (snd (attempt_recovery sc ctx)) = attempts ctx"
proof -
  have "1 \<le> attempt_count ctx sc"
    using reachable_entry_ok [OF assms(1), of sc] assms(2) by (auto simp: entry_ok_def)
  then show ?thesis by (simp add: attempt_unfold Let_def next_timestamp_def)
qed

theorem later_attempts_escalate_witness:
  "\<exists>reason. fst (attempt_recovery StaleBranch (snd (attempt_recovery StaleBranch RecoveryContext_new)))
     = EscalationRequired reason"
proof -
  let ?ctx = "snd (attempt_recovery StaleBranch RecoveryContext_new)"
  have r: "reachable ?ctx"
    by (rule reachable.attempt [OF reachable.start prod.collapse [symmetric]])
  have "ledger ?ctx StaleBranch \<noteq> None"
    by (auto simp: attempt_unfold Let_def next_timestamp_def split: prod.splits)
  from later_attempts_escalate [OF r this] show ?thesis by blast
qed

end
