(* ===== verification/Bash_Validation.thy ===== *)
theory Bash_Validation
  imports Permissions
begin

text \<open>
  Validation of shell commands before they run (\<^verbatim>\<open>bash_validation.rs\<close>): the read-only check, the warnings
  about destructive commands, modes, \<^verbatim>\<open>sed\<close> and paths, the classification by intent and the pipeline
  that runs them.
  Two things can go wrong in this code and both are part of the model. A slice at a byte index that
  is not a character boundary panics: the value \<open>Panicked\<close> of type \<open>outcome\<close>. The read-only check
  calls itself on the command after \<^verbatim>\<open>sudo\<close> and may not return: it is a \<open>partial_function\<close> and
  \<open>None\<close> stands for unbounded recursion.
  The theorems say exactly when the read-only check accepts a command, when it does not return, and
  how leading assignments are skipped.
\<close>

section \<open>Definitions\<close>

subsection \<open>Strings by bytes\<close>

datatype 'a outcome = Panicked | Returned 'a

definition is_ascii_whitespace :: "uchar \<Rightarrow> bool" where
  "is_ascii_whitespace c \<longleftrightarrow> c = 32 \<or> c = 9 \<or> c = 10 \<or> c = 12 \<or> c = 13"

definition is_ascii_alphanumeric :: "uchar \<Rightarrow> bool" where
  "is_ascii_alphanumeric c \<longleftrightarrow> is_ascii_digit c \<or> (65 \<le> c \<and> c \<le> 90) \<or> (97 \<le> c \<and> c \<le> 122)"

text \<open>\<^verbatim>\<open>&s[n..]\<close>: \<open>None\<close> if \<open>n\<close> is not the byte index of a character of \<open>s\<close> or of its end.\<close>

fun slice_from :: "nat \<Rightarrow> ustr \<Rightarrow> ustr option" where
  "slice_from n s =
     (if n = 0 then Some s
      else case s of [] \<Rightarrow> None
           | c # cs \<Rightarrow> if len_utf8 c \<le> n then slice_from (n - len_utf8 c) cs else None)"

declare slice_from.simps [simp del]

text \<open>\<^verbatim>\<open>&s[s.find(part).unwrap_or(0)..]\<close>.\<close>

definition from_first :: "ustr \<Rightarrow> ustr \<Rightarrow> ustr" where
  "from_first part s = (case split_once part s of Some (_, b) \<Rightarrow> part @ b | None \<Rightarrow> s)"

definition first_word :: "ustr \<Rightarrow> ustr" where
  "first_word s = (case split_whitespace s of [] \<Rightarrow> [] | w # _ \<Rightarrow> w)"

subsection \<open>Results and tables\<close>

datatype ValidationResult = VAllow | VBlock ustr | VWarn ustr

datatype CommandIntent = IntentReadOnly | IntentWrite | IntentDestructive | IntentNetwork
  | IntentProcessManagement | IntentPackageManagement | IntentSystemAdmin | IntentUnknown

definition WRITE_COMMANDS :: "ustr list" where
  "WRITE_COMMANDS = map lit
     [''cp'', ''mv'', ''rm'', ''mkdir'', ''rmdir'', ''touch'', ''chmod'', ''chown'', ''chgrp'', ''ln'',
      ''install'', ''tee'', ''truncate'', ''shred'', ''mkfifo'', ''mknod'', ''dd'']"

definition STATE_MODIFYING_COMMANDS :: "ustr list" where
  "STATE_MODIFYING_COMMANDS = map lit
     [''apt'', ''apt-get'', ''yum'', ''dnf'', ''pacman'', ''brew'', ''pip'', ''pip3'', ''npm'', ''yarn'',
      ''pnpm'', ''bun'', ''cargo'', ''gem'', ''go'', ''rustup'', ''docker'', ''systemctl'', ''service'',
      ''mount'', ''umount'', ''kill'', ''pkill'', ''killall'', ''reboot'', ''shutdown'', ''halt'',
      ''poweroff'', ''useradd'', ''userdel'', ''usermod'', ''groupadd'', ''groupdel'', ''crontab'', ''at'']"

definition WRITE_REDIRECTIONS :: "ustr list" where
  "WRITE_REDIRECTIONS = map lit [''>'', ''>>'', ''>&'']"

definition GIT_READ_ONLY_SUBCOMMANDS :: "ustr list" where
  "GIT_READ_ONLY_SUBCOMMANDS = map lit
     [''status'', ''log'', ''diff'', ''show'', ''branch'', ''tag'', ''stash'', ''remote'', ''fetch'',
      ''ls-files'', ''ls-tree'', ''cat-file'', ''rev-parse'', ''describe'', ''shortlog'', ''blame'',
      ''bisect'', ''reflog'', ''config'']"

definition DESTRUCTIVE_PATTERNS :: "(ustr \<times> ustr) list" where
  "DESTRUCTIVE_PATTERNS =
     [(lit ''rm -rf /'', lit ''Recursive forced deletion at root '' @ [8212] @ lit '' this will destroy the system''),
      (lit ''rm -rf ~'', lit ''Recursive forced deletion of home directory''),
      (lit ''rm -rf *'', lit ''Recursive forced deletion of all files in current directory''),
      (lit ''rm -rf .'', lit ''Recursive forced deletion of current directory''),
      (lit ''mkfs'', lit ''Filesystem creation will destroy existing data on the device''),
      (lit ''dd if='', lit ''Direct disk write '' @ [8212] @ lit '' can overwrite partitions or devices''),
      (lit ''> /dev/sd'', lit ''Writing to raw disk device''),
      (lit ''chmod -R 777'', lit ''Recursively setting world-writable permissions''),
      (lit ''chmod -R 000'', lit ''Recursively removing all permissions''),
      (lit '':(){ :|:& };:'', lit ''Fork bomb '' @ [8212] @ lit '' will crash the system'')]"

definition ALWAYS_DESTRUCTIVE_COMMANDS :: "ustr list" where
  "ALWAYS_DESTRUCTIVE_COMMANDS = map lit [''shred'', ''wipefs'']"

definition system_paths :: "ustr list" where
  "system_paths = map lit
     [''/etc/'', ''/usr/'', ''/var/'', ''/boot/'', ''/sys/'', ''/proc/'', ''/dev/'', ''/sbin/'', ''/lib/'',
      ''/opt/'']"

definition SEMANTIC_READ_ONLY_COMMANDS :: "ustr list" where
  "SEMANTIC_READ_ONLY_COMMANDS = map lit
     [''ls'', ''cat'', ''head'', ''tail'', ''less'', ''more'', ''wc'', ''sort'', ''uniq'', ''grep'', ''egrep'',
      ''fgrep'', ''find'', ''which'', ''whereis'', ''whatis'', ''man'', ''info'', ''file'', ''stat'', ''du'',
      ''df'', ''free'', ''uptime'', ''uname'', ''hostname'', ''whoami'', ''id'', ''groups'', ''env'',
      ''printenv'', ''echo'', ''printf'', ''date'', ''cal'', ''bc'', ''expr'', ''test'', ''true'', ''false'',
      ''pwd'', ''tree'', ''diff'', ''cmp'', ''md5sum'', ''sha256sum'', ''sha1sum'', ''xxd'', ''od'', ''hexdump'',
      ''strings'', ''readlink'', ''realpath'', ''basename'', ''dirname'', ''seq'', ''yes'', ''tput'', ''column'',
      ''jq'', ''yq'', ''xargs'', ''tr'', ''cut'', ''paste'', ''awk'', ''sed'']"

definition NETWORK_COMMANDS :: "ustr list" where
  "NETWORK_COMMANDS = map lit
     [''curl'', ''wget'', ''ssh'', ''scp'', ''rsync'', ''ftp'', ''sftp'', ''nc'', ''ncat'', ''telnet'', ''ping'',
      ''traceroute'', ''dig'', ''nslookup'', ''host'', ''whois'', ''ifconfig'', ''ip'', ''netstat'', ''ss'', ''nmap'']"

definition PROCESS_COMMANDS :: "ustr list" where
  "PROCESS_COMMANDS = map lit
     [''kill'', ''pkill'', ''killall'', ''ps'', ''top'', ''htop'', ''bg'', ''fg'', ''jobs'', ''nohup'', ''disown'',
      ''wait'', ''nice'', ''renice'']"

definition PACKAGE_COMMANDS :: "ustr list" where
  "PACKAGE_COMMANDS = map lit
     [''apt'', ''apt-get'', ''yum'', ''dnf'', ''pacman'', ''brew'', ''pip'', ''pip3'', ''npm'', ''yarn'', ''pnpm'',
      ''bun'', ''cargo'', ''gem'', ''go'', ''rustup'', ''snap'', ''flatpak'']"

definition SYSTEM_ADMIN_COMMANDS :: "ustr list" where
  "SYSTEM_ADMIN_COMMANDS = map lit
     [''sudo'', ''su'', ''chroot'', ''mount'', ''umount'', ''fdisk'', ''parted'', ''lsblk'', ''blkid'', ''systemctl'',
      ''service'', ''journalctl'', ''dmesg'', ''modprobe'', ''insmod'', ''rmmod'', ''iptables'', ''ufw'',
      ''firewall-cmd'', ''sysctl'', ''crontab'', ''at'', ''useradd'', ''userdel'', ''usermod'', ''groupadd'',
      ''groupdel'', ''passwd'', ''visudo'']"

subsection \<open>Finding the command\<close>

text \<open>The search for the closing quote and the white space after it looks at bytes. All bytes it
  compares with are ASCII and no byte of a longer character is, so it visits the same places as a
  search by characters; positions are counted in bytes. \<open>prev\<close> is the character before.\<close>

fun quoted_end :: "uchar \<Rightarrow> uchar \<Rightarrow> nat \<Rightarrow> ustr \<Rightarrow> nat option" where
  "quoted_end quote prev i [] = None"
| "quoted_end quote prev i (c # cs) =
     (if c = quote \<and> prev \<noteq> 92
      then let skipped = takeWhile (\<lambda>d. \<not> is_ascii_whitespace d) cs
           in if skipped = cs then None else Some (i + 1 + str_len skipped)
      else quoted_end quote c (i + len_utf8 c) cs)"

definition find_end_of_value :: "ustr \<Rightarrow> nat option" where
  "find_end_of_value s0 =
     (case trim_start s0 of
        [] \<Rightarrow> None
      | first # rest \<Rightarrow>
          if first = 34 \<or> first = 39 then quoted_end first first 1 rest
          else let value = takeWhile (\<lambda>d. \<not> is_whitespace d) (first # rest)
               in if value = first # rest then None else Some (str_len value))"

function first_command_loop :: "ustr \<Rightarrow> ustr outcome" where
  "first_command_loop remaining =
     (let next = trim_start remaining
      in case split_once [61] next of
           Some (before_eq, after_eq) \<Rightarrow>
             if before_eq \<noteq> [] \<and> list_all (\<lambda>c. is_ascii_alphanumeric c \<or> c = 95) before_eq
             then (case find_end_of_value after_eq of
                     Some space \<Rightarrow>
                       (case slice_from space after_eq of
                          Some rest \<Rightarrow> first_command_loop rest
                        | None \<Rightarrow> Panicked)
                   | None \<Rightarrow> Returned [])
             else Returned (first_word remaining)
         | None \<Rightarrow> Returned (first_word remaining))"
  by pat_completeness auto

lemma slice_from_suffix: "slice_from n s = Some t \<Longrightarrow> \<exists>a. s = a @ t \<and> str_len a = n"
proof (induction n s rule: slice_from.induct)
  case (1 n s)
  show ?case
  proof (cases "n = 0")
    case True
    with "1.prems" show ?thesis by (simp add: slice_from.simps str_len_def)
  next
    case n: False
    with "1.prems" obtain c cs where s: "s = c # cs" "len_utf8 c \<le> n" "slice_from (n - len_utf8 c) cs = Some t"
      by (auto simp: slice_from.simps split: list.splits if_splits)
    from "1.IH" [OF n s(1-3)] obtain a where "cs = a @ t" "str_len a = n - len_utf8 c" by blast
    with s show ?thesis by (intro exI [of _ "c # a"]) (simp add: str_len_def)
  qed
qed

termination first_command_loop
proof (relation "measure length", goal_cases)
  case 1
  then show ?case by simp
next
  case (2 remaining nxt pr before_eq after_eq space rest)
  then have "trim_start remaining = before_eq @ [61] @ after_eq" by (metis split_once_Some)
  then have "length after_eq < length (trim_start remaining)" by simp
  moreover have "length (trim_start remaining) \<le> length remaining"
    unfolding trim_start_def by (rule length_dropWhile_le)
  moreover obtain a where "after_eq = a @ rest" using slice_from_suffix 2(6) by blast
  ultimately show ?case by simp
qed

declare first_command_loop.simps [simp del]

definition extract_first_command :: "ustr \<Rightarrow> ustr outcome" where
  "extract_first_command command = first_command_loop (trim command)"

definition extract_sudo_inner :: "ustr \<Rightarrow> ustr" where
  "extract_sudo_inner command =
     (case dropWhile (\<lambda>p. p \<noteq> lit ''sudo'') (split_whitespace command) of
        [] \<Rightarrow> []
      | _ # rest \<Rightarrow>
          (case find (\<lambda>part. \<not> starts_with (lit ''-'') part) rest of
             Some part \<Rightarrow> from_first part command
           | None \<Rightarrow> []))"

subsection \<open>Read-only mode\<close>

definition git_subcommand :: "ustr \<Rightarrow> ustr option" where
  "git_subcommand command =
     find (\<lambda>p. \<not> starts_with (lit ''-'') p) (drop 1 (split_whitespace command))"

definition validate_git_read_only :: "ustr \<Rightarrow> ValidationResult" where
  "validate_git_read_only command =
     (case git_subcommand command of
        Some sub \<Rightarrow>
          if sub \<in> set GIT_READ_ONLY_SUBCOMMANDS then VAllow
          else VBlock (lit ''Git subcommand '' @ [39] @ sub @ [39]
                 @ lit '' modifies repository state and is not allowed in read-only mode'')
      | None \<Rightarrow> VAllow)"

definition redirection_check :: "ustr \<Rightarrow> ValidationResult" where
  "redirection_check command =
     (case find (\<lambda>redir. contains redir command) WRITE_REDIRECTIONS of
        Some redir \<Rightarrow> VBlock (lit ''Command contains write redirection '' @ [39] @ redir @ [39]
                        @ lit '' which is not allowed in read-only mode'')
      | None \<Rightarrow> VAllow)"

partial_function (option) validate_read_only ::
  "ustr \<Rightarrow> PermissionMode \<Rightarrow> ValidationResult outcome option" where
  "validate_read_only command mode =
     (if mode \<noteq> ReadOnly then Some (Returned VAllow)
      else case extract_first_command command of
        Panicked \<Rightarrow> Some Panicked
      | Returned first_command \<Rightarrow>
          (case find (\<lambda>write_cmd. first_command = write_cmd) WRITE_COMMANDS of
             Some write_cmd \<Rightarrow> Some (Returned (VBlock (lit ''Command '' @ [39] @ write_cmd @ [39]
               @ lit '' modifies the filesystem and is not allowed in read-only mode'')))
           | None \<Rightarrow>
          (case find (\<lambda>state_cmd. first_command = state_cmd) STATE_MODIFYING_COMMANDS of
             Some state_cmd \<Rightarrow> Some (Returned (VBlock (lit ''Command '' @ [39] @ state_cmd @ [39]
               @ lit '' modifies system state and is not allowed in read-only mode'')))
           | None \<Rightarrow>
             Option.bind
               (if first_command = lit ''sudo'' \<and> extract_sudo_inner command \<noteq> []
                then validate_read_only (extract_sudo_inner command) mode
                else Some (Returned VAllow))
               (\<lambda>inner_result.
                  if inner_result \<noteq> Returned VAllow then Some inner_result
                  else if redirection_check command \<noteq> VAllow
                  then Some (Returned (redirection_check command))
                  else if first_command = lit ''git'' then Some (Returned (validate_git_read_only command))
                  else Some (Returned VAllow)))))"

subsection \<open>The other checks\<close>

definition destructive_command_check :: "ustr \<Rightarrow> ustr \<Rightarrow> ValidationResult" where
  "destructive_command_check command first =
     (case find (\<lambda>cmd. first = cmd) ALWAYS_DESTRUCTIVE_COMMANDS of
        Some cmd \<Rightarrow> VWarn (lit ''Command '' @ [39] @ cmd @ [39]
                      @ lit '' is inherently destructive and may cause data loss'')
      | None \<Rightarrow>
          if contains (lit ''rm '') command \<and> contains (lit ''-r'') command \<and> contains (lit ''-f'') command
          then VWarn (lit ''Recursive forced deletion detected '' @ [8212]
                 @ lit '' verify the target path is correct'')
          else VAllow)"

definition check_destructive :: "ustr \<Rightarrow> ValidationResult outcome" where
  "check_destructive command =
     (case find (\<lambda>(pattern, warning). contains pattern command) DESTRUCTIVE_PATTERNS of
        Some (pattern, warning) \<Rightarrow> Returned (VWarn (lit ''Destructive command detected: '' @ warning))
      | None \<Rightarrow>
          (case extract_first_command command of
             Panicked \<Rightarrow> Panicked
           | Returned first \<Rightarrow> Returned (destructive_command_check command first)))"

definition command_targets_outside_workspace :: "ustr \<Rightarrow> bool outcome" where
  "command_targets_outside_workspace command =
     (case extract_first_command command of
        Panicked \<Rightarrow> Panicked
      | Returned first \<Rightarrow>
          let is_write_cmd = first \<in> set WRITE_COMMANDS \<or> first \<in> set STATE_MODIFYING_COMMANDS
          in Returned (is_write_cmd \<and> list_ex (\<lambda>sys_path. contains sys_path command) system_paths))"

definition validate_mode :: "ustr \<Rightarrow> PermissionMode \<Rightarrow> ValidationResult outcome option" where
  "validate_mode command mode =
     (case mode of
        ReadOnly \<Rightarrow> validate_read_only command mode
      | WorkspaceWrite \<Rightarrow>
          (case command_targets_outside_workspace command of
             Panicked \<Rightarrow> Some Panicked
           | Returned outside \<Rightarrow>
               Some (Returned (if outside
                 then VWarn (lit ''Command appears to target files outside the workspace '' @ [8212]
                        @ lit '' requires elevated permission'')
                 else VAllow)))
      | _ \<Rightarrow> Some (Returned VAllow))"

definition validate_sed :: "ustr \<Rightarrow> PermissionMode \<Rightarrow> ValidationResult outcome" where
  "validate_sed command mode =
     (case extract_first_command command of
        Panicked \<Rightarrow> Panicked
      | Returned first \<Rightarrow>
          if first \<noteq> lit ''sed'' then Returned VAllow
          else if mode = ReadOnly \<and> contains (lit '' -i'') command
          then Returned (VBlock (lit ''sed -i (in-place editing) is not allowed in read-only mode''))
          else Returned VAllow)"

text \<open>The workspace is given as the text \<^verbatim>\<open>Path::to_string_lossy\<close> makes of it.\<close>

definition validate_paths :: "ustr \<Rightarrow> ustr \<Rightarrow> ValidationResult" where
  "validate_paths command workspace_str =
     (if contains (lit ''../'') command \<and> \<not> contains workspace_str command
      then VWarn (lit ''Command contains directory traversal pattern '' @ [39] @ lit ''../'' @ [39] @ [32, 8212]
             @ lit '' verify the target path resolves within the workspace'')
      else if contains (lit ''~/'') command \<or> contains (lit ''$HOME'') command
      then VWarn (lit ''Command references home directory '' @ [8212]
             @ lit '' verify it stays within the workspace scope'')
      else VAllow)"

text \<open>The pipeline: the next stage runs only after an \<open>Allow\<close>.\<close>

definition and_then :: "ValidationResult outcome option \<Rightarrow> ValidationResult outcome option
    \<Rightarrow> ValidationResult outcome option" where
  "and_then r next = (case r of Some (Returned VAllow) \<Rightarrow> next | _ \<Rightarrow> r)"

definition validate_command :: "ustr \<Rightarrow> PermissionMode \<Rightarrow> ustr \<Rightarrow> ValidationResult outcome option" where
  "validate_command command mode workspace =
     and_then (validate_mode command mode)
       (and_then (Some (validate_sed command mode))
         (and_then (Some (check_destructive command))
           (Some (Returned (validate_paths command workspace)))))"

subsection \<open>Intent\<close>

definition classify_git_command :: "ustr \<Rightarrow> CommandIntent" where
  "classify_git_command command =
     (case git_subcommand command of
        Some sub \<Rightarrow> if sub \<in> set GIT_READ_ONLY_SUBCOMMANDS then IntentReadOnly else IntentWrite
      | None \<Rightarrow> IntentWrite)"

definition classify_by_first_command :: "ustr \<Rightarrow> ustr \<Rightarrow> CommandIntent" where
  "classify_by_first_command first command =
     (if first \<in> set SEMANTIC_READ_ONLY_COMMANDS
      then if first = lit ''sed'' \<and> contains (lit '' -i'') command then IntentWrite else IntentReadOnly
      else if first \<in> set ALWAYS_DESTRUCTIVE_COMMANDS \<or> first = lit ''rm'' then IntentDestructive
      else if first \<in> set WRITE_COMMANDS then IntentWrite
      else if first \<in> set NETWORK_COMMANDS then IntentNetwork
      else if first \<in> set PROCESS_COMMANDS then IntentProcessManagement
      else if first \<in> set PACKAGE_COMMANDS then IntentPackageManagement
      else if first \<in> set SYSTEM_ADMIN_COMMANDS then IntentSystemAdmin
      else if first = lit ''git'' then classify_git_command command
      else IntentUnknown)"

definition classify_command :: "ustr \<Rightarrow> CommandIntent outcome" where
  "classify_command command =
     (case extract_first_command command of
        Panicked \<Rightarrow> Panicked
      | Returned first \<Rightarrow> Returned (classify_by_first_command first command))"

section \<open>The first command\<close>

text \<open>A word that can stand in command position: not empty, no white space, no equals sign.\<close>

definition bare_word :: "ustr \<Rightarrow> bool" where
  "bare_word w \<longleftrightarrow> w \<noteq> [] \<and> list_all (\<lambda>c. \<not> is_whitespace c \<and> c \<noteq> 61) w"

definition env_name :: "ustr \<Rightarrow> bool" where
  "env_name n \<longleftrightarrow> n \<noteq> [] \<and> list_all (\<lambda>c. is_ascii_alphanumeric c \<or> c = 95) n"

text \<open>A value without quotes and white space.\<close>

definition env_value :: "ustr \<Rightarrow> bool" where
  "env_value v \<longleftrightarrow> v \<noteq> [] \<and> hd v \<notin> {34, 39} \<and> list_all (\<lambda>c. \<not> is_whitespace c) v"

definition ends_word :: "ustr \<Rightarrow> bool" where
  "ends_word r \<longleftrightarrow> r = [] \<or> is_whitespace (hd r)"

definition assignment :: "ustr \<times> ustr \<Rightarrow> ustr" where
  "assignment nv = fst nv @ [61] @ snd nv @ [32]"

lemma name_char_not_space: "is_ascii_alphanumeric c \<or> c = 95 \<Longrightarrow> \<not> is_whitespace c \<and> c \<noteq> 61"
  by (auto simp: is_ascii_alphanumeric_def is_ascii_digit_def is_whitespace_def)

lemma bare_wordD:
  "bare_word w \<Longrightarrow> w \<noteq> []" "bare_word w \<Longrightarrow> \<forall>c \<in> set w. \<not> is_whitespace c" "bare_word w \<Longrightarrow> 61 \<notin> set w"
  by (auto simp: bare_word_def list_all_iff)

lemma env_name_bare: "env_name n \<Longrightarrow> bare_word n"
  using name_char_not_space by (auto simp: env_name_def bare_word_def list_all_iff)

lemma first_word_bare: "bare_word w \<Longrightarrow> ends_word r \<Longrightarrow> first_word (w @ r) = w"
  by (simp add: first_word_def split_whitespace_word bare_wordD ends_word_def)

lemma bare_not_assignment:
  assumes "bare_word w" "ends_word r" "split_once [61] (w @ r) = Some (b, a)"
  shows "\<not> list_all (\<lambda>c. is_ascii_alphanumeric c \<or> c = 95) b"
proof -
  from assms(3) have eq: "w @ r = b @ 61 # a" by (metis append_Cons append_Nil split_once_Some)
  with bare_wordD [OF assms(1)] obtain b' where b: "b = w @ b'" "r = b' @ 61 # a"
    by (auto simp: append_eq_append_conv2 append_eq_Cons_conv)
  with assms(2) have "b' \<noteq> []" "is_whitespace (hd b')"
    by (cases b'; simp add: ends_word_def is_whitespace_def)+
  with b(1) show ?thesis using name_char_not_space by (fastforce simp: list_all_iff)
qed

lemma trim_start_word: "bare_word w \<Longrightarrow> trim_start (w @ r) = w @ r"
  by (rule trim_start_id) (cases w; simp add: bare_word_def)

lemma first_command_loop_word:
  assumes "bare_word w" "ends_word r"
  shows "first_command_loop (w @ r) = Returned w"
  using bare_not_assignment [OF assms] first_word_bare [OF assms]
  by (auto simp: first_command_loop.simps [of "w @ r"] Let_def trim_start_word assms(1) split: option.split)

lemma first_command_loop_space: "is_whitespace c \<Longrightarrow> first_command_loop (c # s) = first_command_loop s"
proof -
  assume "is_whitespace c"
  then have "first_word (c # s) = first_word s" "trim_start (c # s) = trim_start s"
    by (simp_all add: first_word_def trim_start_def)
  then show ?thesis by (simp only: first_command_loop.simps [of "c # s"] first_command_loop.simps [of s])
qed

lemma slice_from_append: "slice_from (str_len a) (a @ t) = Some t"
  by (induction a) (simp_all add: slice_from.simps [of _ "_ # _"] slice_from.simps [of 0] str_len_def)

lemma find_end_of_env_value:
  assumes "env_value v" "is_whitespace c"
  shows "find_end_of_value (v @ c # r) = Some (str_len v)"
proof -
  from assms(1) obtain d ds where v: "v = d # ds" "\<not> is_whitespace d" "d \<notin> {34, 39}"
    by (cases v) (auto simp: env_value_def)
  have "takeWhile (\<lambda>d. \<not> is_whitespace d) (v @ c # r) = v"
    using assms by (simp add: env_value_def list_all_iff)
  then show ?thesis using v assms(2) by (auto simp: find_end_of_value_def trim_start_def Let_def)
qed

lemma first_command_loop_assignment:
  assumes "env_name n" "env_value v"
  shows "first_command_loop (assignment (n, v) @ r) = first_command_loop r"
proof -
  from assms(1) have "bare_word n" by (rule env_name_bare)
  then have "split_once [61] (n @ 61 # v @ 32 # r) = Some (n, v @ 32 # r)"
    "trim_start (n @ 61 # v @ 32 # r) = n @ 61 # v @ 32 # r"
    by (simp_all add: split_once_char_first bare_wordD trim_start_word)
  moreover have "is_whitespace 32" by (simp add: is_whitespace_def)
  ultimately show ?thesis using assms find_end_of_env_value [OF assms(2)] slice_from_append [of v "32 # r"]
    by (simp add: assignment_def first_command_loop.simps [of "n @ 61 # v @ 32 # r"] env_name_def
        first_command_loop_space)
qed

lemma trim_word:
  assumes "p = [] \<or> \<not> is_whitespace (hd p)" "bare_word w" "ends_word r"
  obtains r' where "trim (p @ w @ r) = p @ w @ r'" "ends_word r'"
proof -
  have "\<not> is_whitespace (hd (p @ w @ r))" "\<not> is_whitespace (last (p @ w))"
    using assms(1) bare_wordD [OF assms(2)] by (cases p; cases w; auto)+
  then have "trim (p @ w @ r) = (p @ w) @ trim_end r"
    using trim_end_append [of "p @ w" r] bare_wordD(1) [OF assms(2)]
    by (simp add: trim_def trim_start_id)
  moreover have "ends_word (trim_end r)"
    using assms(3) hd_trim_end [of r is_whitespace] by (simp add: ends_word_def)
  ultimately show thesis using that by simp
qed

text \<open>Leading assignments with plain values are skipped, and the word after them is the command.\<close>

lemma extract_after_assignments:
  assumes "\<forall>(n, v) \<in> set env. env_name n \<and> env_value v" "bare_word w" "ends_word r"
  shows "extract_first_command (concat (map assignment env) @ w @ r) = Returned w"
proof -
  have loop: "first_command_loop (concat (map assignment env) @ w @ r') = Returned w" if "ends_word r'" for r'
    using assms(1)
  proof (induction env)
    case Nil
    show ?case using first_command_loop_word [OF assms(2) that] by simp
  next
    case (Cons nv env)
    then obtain n v where "nv = (n, v)" "env_name n" "env_value v" by (cases nv) auto
    with Cons show ?case by (simp add: first_command_loop_assignment)
  qed
  have "concat (map assignment env) = [] \<or> \<not> is_whitespace (hd (concat (map assignment env)))"
  proof (cases env)
    case (Cons nv env')
    with assms(1) have "bare_word (fst nv)" by (auto simp: env_name_bare)
    then have "fst nv \<noteq> []" "\<not> is_whitespace (hd (fst nv))" by (cases "fst nv"; simp add: bare_word_def)+
    with Cons show ?thesis by (simp add: assignment_def)
  qed simp
  from trim_word [OF this assms(2,3)] obtain r' where
    "trim (concat (map assignment env) @ w @ r) = concat (map assignment env) @ w @ r'" "ends_word r'" .
  with loop show ?thesis by (simp add: extract_first_command_def)
qed

section \<open>Read-only mode\<close>

subsection \<open>What is accepted\<close>

lemma redirection_check_iff: "redirection_check c = VAllow \<longleftrightarrow> 62 \<notin> set c"
proof -
  have "contains (lit ''>'') c \<longleftrightarrow> 62 \<in> set c"
    by (auto simp: contains_iff lit_def in_set_conv_decomp)
  moreover have "contains (lit ''>>'') c \<Longrightarrow> 62 \<in> set c" "contains (lit ''>&'') c \<Longrightarrow> 62 \<in> set c"
    using contains_set by (force simp: lit_def)+
  ultimately show ?thesis
    by (auto simp: redirection_check_def WRITE_REDIRECTIONS_def split: option.splits if_splits)
qed

lemma find_eq_None: "find (\<lambda>x. w = x) xs = None \<longleftrightarrow> w \<notin> set xs"
  by (auto simp: find_None_iff)

lemma validate_git_read_only_iff:
  "validate_git_read_only c = VAllow \<longleftrightarrow> pred_option (\<lambda>sub. sub \<in> set GIT_READ_ONLY_SUBCOMMANDS) (git_subcommand c)"
  by (auto simp: validate_git_read_only_def split: option.splits)

definition read_only_tail :: "ustr \<Rightarrow> ustr \<Rightarrow> ValidationResult outcome \<Rightarrow> ValidationResult outcome" where
  "read_only_tail c f inner_result =
     (if inner_result \<noteq> Returned VAllow then inner_result
      else if redirection_check c \<noteq> VAllow then Returned (redirection_check c)
      else if f = lit ''git'' then Returned (validate_git_read_only c) else Returned VAllow)"

lemma read_only_panics: "extract_first_command c = Panicked \<Longrightarrow> validate_read_only c ReadOnly = Some Panicked"
  by (simp add: validate_read_only.simps [of c])

lemma read_only_blocks:
  assumes "extract_first_command c = Returned f" "f \<in> set WRITE_COMMANDS \<union> set STATE_MODIFYING_COMMANDS"
  obtains reason where "validate_read_only c ReadOnly = Some (Returned (VBlock reason))"
proof (cases "find (\<lambda>x. f = x) WRITE_COMMANDS")
  case None
  with assms(2) obtain x where "find (\<lambda>x. f = x) STATE_MODIFYING_COMMANDS = Some x"
    by (metis UnE find_eq_None not_None_eq)
  with None assms(1) that show thesis by (simp add: validate_read_only.simps [of c])
next
  case (Some x)
  with assms(1) that show thesis by (simp add: validate_read_only.simps [of c])
qed

lemma read_only_continues:
  assumes "extract_first_command c = Returned f" "f \<notin> set WRITE_COMMANDS \<union> set STATE_MODIFYING_COMMANDS"
  shows "validate_read_only c ReadOnly =
    (if f = lit ''sudo'' \<and> extract_sudo_inner c \<noteq> []
     then map_option (read_only_tail c f) (validate_read_only (extract_sudo_inner c) ReadOnly)
     else Some (read_only_tail c f (Returned VAllow)))"
proof -
  from assms(2) have "find (\<lambda>x. f = x) WRITE_COMMANDS = None" "find (\<lambda>x. f = x) STATE_MODIFYING_COMMANDS = None"
    by (simp_all add: find_eq_None)
  with assms(1) show ?thesis
    by (cases "validate_read_only (extract_sudo_inner c) ReadOnly")
      (simp_all add: validate_read_only.simps [of c] read_only_tail_def)
qed

lemma read_only_tail_iff:
  "read_only_tail c f r = Returned VAllow \<longleftrightarrow> r = Returned VAllow \<and> 62 \<notin> set c
     \<and> (f = lit ''git'' \<longrightarrow> pred_option (\<lambda>sub. sub \<in> set GIT_READ_ONLY_SUBCOMMANDS) (git_subcommand c))"
  by (simp add: read_only_tail_def redirection_check_iff validate_git_read_only_iff)

text \<open>Exactly which commands the check accepts: the command word is not a modifying one, there is no
  redirection sign anywhere, a \<^verbatim>\<open>git\<close> command has a harmless subcommand or none, and what follows
  \<^verbatim>\<open>sudo\<close> is accepted too.\<close>

lemma validate_read_only_accepts:
  "validate_read_only c ReadOnly = Some (Returned VAllow) \<longleftrightarrow>
     (\<exists>f. extract_first_command c = Returned f
        \<and> f \<notin> set WRITE_COMMANDS \<union> set STATE_MODIFYING_COMMANDS
        \<and> 62 \<notin> set c
        \<and> (f = lit ''git'' \<longrightarrow> pred_option (\<lambda>sub. sub \<in> set GIT_READ_ONLY_SUBCOMMANDS) (git_subcommand c))
        \<and> (f = lit ''sudo'' \<and> extract_sudo_inner c \<noteq> []
           \<longrightarrow> validate_read_only (extract_sudo_inner c) ReadOnly = Some (Returned VAllow)))"
proof (cases "extract_first_command c")
  case Panicked
  then show ?thesis by (simp add: read_only_panics)
next
  case (Returned f)
  show ?thesis
  proof (cases "f \<in> set WRITE_COMMANDS \<union> set STATE_MODIFYING_COMMANDS")
    case True
    from read_only_blocks [OF Returned True] obtain reason
      where "validate_read_only c ReadOnly = Some (Returned (VBlock reason))" .
    with Returned True show ?thesis by auto
  next
    case False
    show ?thesis unfolding read_only_continues [OF Returned False] using Returned False
      by (simp add: read_only_tail_iff) blast
  qed
qed

lemma validate_command_block:
  "validate_mode c m = Some (Returned (VBlock r)) \<Longrightarrow> validate_command c m ws = Some (Returned (VBlock r))"
  by (simp add: validate_command_def and_then_def)

subsection \<open>When the check returns\<close>

lemma from_first_suffix: obtains a where "s = a @ from_first p s"
proof (cases "split_once p s")
  case None
  with that [of "[]"] show thesis by (simp add: from_first_def)
next
  case (Some ab)
  with that [of "fst ab"] show thesis by (cases ab) (simp add: from_first_def split_once_Some)
qed

lemma from_first_length: "length (from_first p s) \<le> length s"
  by (rule from_first_suffix [of s p]) (metis le_add2 length_append)

lemma extract_sudo_inner_length: "length (extract_sudo_inner c) \<le> length c"
  by (simp add: extract_sudo_inner_def from_first_length split: list.split option.split)

text \<open>The recursion on the command after \<^verbatim>\<open>sudo\<close> does not get shorter when that text is the whole command.\<close>

function sudo_loops :: "ustr \<Rightarrow> bool" where
  "sudo_loops c \<longleftrightarrow>
     extract_first_command c = Returned (lit ''sudo'') \<and> extract_sudo_inner c \<noteq> []
     \<and> (if length (extract_sudo_inner c) < length c then sudo_loops (extract_sudo_inner c) else True)"
  by pat_completeness auto
termination by (relation "measure length") simp_all

declare sudo_loops.simps [simp del]

lemma sudo_not_modifying: "lit ''sudo'' \<notin> set WRITE_COMMANDS \<union> set STATE_MODIFYING_COMMANDS"
  by (simp add: WRITE_COMMANDS_def STATE_MODIFYING_COMMANDS_def)

lemma inner_unshortened: "\<not> length (extract_sudo_inner c) < length c \<Longrightarrow> extract_sudo_inner c = c \<or> extract_sudo_inner c = []"
proof -
  assume l: "\<not> length (extract_sudo_inner c) < length c"
  have "\<exists>a. c = a @ extract_sudo_inner c \<or> extract_sudo_inner c = []"
    by (auto simp: extract_sudo_inner_def split: list.split option.split intro: from_first_suffix)
  with l show ?thesis by (metis append_Nil length_append length_greater_0_conv less_add_same_cancel2)
qed

lemma returned_not_loops:
  assumes "validate_read_only c m = Some r"
  shows "m = ReadOnly \<longrightarrow> \<not> sudo_loops c"
proof (rule validate_read_only.raw_induct [where P = "\<lambda>c m r. m = ReadOnly \<longrightarrow> \<not> sudo_loops c", OF _ assms],
    intro impI notI, goal_cases)
  case (1 f c m r)
  note IH = 1(1) and step = 1(2) and m = 1(3) and loops = 1(4)
  let ?inner = "extract_sudo_inner c"
  from loops have c: "extract_first_command c = Returned (lit ''sudo'')" "?inner \<noteq> []"
    by (simp_all add: sudo_loops.simps [of c])
  have nf: "find (\<lambda>x. lit ''sudo'' = x) WRITE_COMMANDS = None"
    "find (\<lambda>x. lit ''sudo'' = x) STATE_MODIFYING_COMMANDS = None"
    using sudo_not_modifying by (simp_all add: find_eq_None)
  have inner: "sudo_loops ?inner"
  proof (cases "length ?inner < length c")
    case True
    with loops show ?thesis by (simp add: sudo_loops.simps [of c])
  next
    case False
    with inner_unshortened c(2) loops show ?thesis by metis
  qed
  then have "f ?inner ReadOnly = None" using IH by (cases "f ?inner ReadOnly") auto
  with step m c nf show False by simp
qed

lemma not_loops_returned: "\<not> sudo_loops c \<Longrightarrow> \<exists>r. validate_read_only c ReadOnly = Some r"
proof (induction c rule: sudo_loops.induct)
  case (1 c)
  show ?case
  proof (cases "extract_first_command c")
    case Panicked
    then show ?thesis by (simp add: read_only_panics)
  next
    case (Returned f)
    show ?thesis
    proof (cases "f \<in> set WRITE_COMMANDS \<union> set STATE_MODIFYING_COMMANDS")
      case True
      then show ?thesis using read_only_blocks [OF Returned True] by metis
    next
      case False
      show ?thesis
      proof (cases "f = lit ''sudo'' \<and> extract_sudo_inner c \<noteq> []")
        case True
        with Returned "1.prems" have "length (extract_sudo_inner c) < length c" "\<not> sudo_loops (extract_sudo_inner c)"
          by (simp_all add: sudo_loops.simps [of c] split: if_splits)
        with True Returned "1.IH" obtain r where "validate_read_only (extract_sudo_inner c) ReadOnly = Some r"
          by blast
        with read_only_continues [OF Returned False] show ?thesis by simp
      qed (use read_only_continues [OF Returned False] in auto)
    qed
  qed
qed

lemma validate_read_only_None: "validate_read_only c ReadOnly = None \<longleftrightarrow> sudo_loops c"
  using returned_not_loops [of c ReadOnly] not_loops_returned [of c]
  by (cases "validate_read_only c ReadOnly") auto

lemma and_then_None:
  "and_then r next = None \<longleftrightarrow> r = None \<or> r = Some (Returned VAllow) \<and> next = None"
  by (simp add: and_then_def split: option.split outcome.split ValidationResult.split)

lemma validate_command_None: "validate_command c m ws = None \<longleftrightarrow> m = ReadOnly \<and> sudo_loops c"
  by (cases m)
    (simp_all add: validate_command_def and_then_None validate_mode_def validate_read_only_None
      split: outcome.split)

lemma extract_bare: "bare_word w \<Longrightarrow> ends_word r \<Longrightarrow> extract_first_command (w @ r) = Returned w"
  using extract_after_assignments [of "[]" w r] by simp

lemma extract_after_space: "\<forall>x \<in> set p. is_whitespace x \<Longrightarrow> extract_first_command (p @ s) = extract_first_command s"
  by (simp add: extract_first_command_def trim_def trim_start_def dropWhile_append1)

lemma from_first_prefix: "starts_with t s \<Longrightarrow> from_first t s = s"
  by (auto simp: from_first_def starts_with_iff)

lemma sudo_word: "bare_word (lit ''sudo'')"
  by (simp add: bare_word_def lit_def is_whitespace_def)

lemma find_first: "\<forall>x \<in> set xs. \<not> P x \<Longrightarrow> P t \<Longrightarrow> find P (xs @ t # ys) = Some t"
  by (induction xs) simp_all

text \<open>The places of the words of a text.\<close>

lemma words_head:
  assumes "split_whitespace s = t # post"
  obtains p r where "s = p @ t @ r" "\<forall>x \<in> set p. is_whitespace x" "ends_word r" "split_whitespace r = post"
proof -
  let ?p = "takeWhile is_whitespace s" and ?d = "dropWhile is_whitespace s"
  let ?t = "takeWhile (\<lambda>c. \<not> is_whitespace c) ?d" and ?r = "dropWhile (\<lambda>c. \<not> is_whitespace c) ?d"
  have skip: "\<forall>x \<in> set q. is_whitespace x \<Longrightarrow> split_whitespace (q @ u) = split_whitespace u" for q u
    by (induction q) simp_all
  have ws: "\<forall>x \<in> set ?p. is_whitespace x" by (auto dest: set_takeWhileD)
  then have d: "split_whitespace ?d = t # post"
    using assms skip [of ?p ?d] by simp
  then have "?d \<noteq> []" by (metis list.distinct(1) split_whitespace_Nil)
  then have "\<not> is_whitespace (hd ?d)" by (rule hd_dropWhile)
  with \<open>?d \<noteq> []\<close> have "?t \<noteq> []" by (cases ?d) auto
  moreover have "\<forall>c \<in> set ?t. \<not> is_whitespace c" by (auto dest: set_takeWhileD)
  moreover have r: "ends_word ?r"
    using hd_dropWhile [of "\<lambda>c. \<not> is_whitespace c" ?d] by (auto simp: ends_word_def)
  ultimately have "split_whitespace (?t @ ?r) = ?t # split_whitespace ?r"
    unfolding ends_word_def by (rule split_whitespace_word)
  with d have "t # post = ?t # split_whitespace ?r" by (simp only: takeWhile_dropWhile_id)
  then have t: "t = ?t" and post: "split_whitespace ?r = post" by blast+
  have "s = ?p @ ?t @ ?r" by (simp only: takeWhile_dropWhile_id)
  then have s: "s = ?p @ t @ ?r" by (simp only: t [symmetric])
  show thesis by (rule that [OF s ws r post])
qed

lemma words_place:
  "split_whitespace s = pre @ t # post \<Longrightarrow> \<exists>p r. s = p @ t @ r \<and> ends_word r \<and> (\<forall>x \<in> set p. is_whitespace x \<or> x \<in> set (concat pre))"
proof (induction pre arbitrary: s)
  case Nil
  then have "split_whitespace s = t # post" by simp
  then show ?case by (rule words_head) auto
next
  case (Cons x pre)
  then have "split_whitespace s = x # pre @ t # post" by simp
  then obtain p r where s: "s = p @ x @ r" "\<forall>x \<in> set p. is_whitespace x" "split_whitespace r = pre @ t # post"
    by (rule words_head) blast
  from Cons.IH [OF s(3)] obtain p' r' where "r = p' @ t @ r'" "ends_word r'"
    "\<forall>x \<in> set p'. is_whitespace x \<or> x \<in> set (concat pre)" by blast
  with s(1,2) show ?case by (intro exI [of _ "p @ x @ p'"] exI [of _ r']) auto
qed

text \<open>What follows the first place of a word, when no equals sign comes before the end of the word.\<close>

lemma from_first_word:
  assumes c: "c = p @ t @ r" "ends_word r" and t: "t \<noteq> []" "\<forall>x \<in> set t. \<not> is_whitespace x" and eq: "61 \<notin> set (p @ t)"
  obtains w r' where "from_first t c = w @ r'" "bare_word w" "ends_word r'" "starts_with t w"
proof -
  obtain a b where ab: "split_once t c = Some (a, b)" using split_once_exists c(1) by blast
  then have c': "c = a @ t @ b" by (rule split_once_Some)
  have short: "length a \<le> length p" by (rule split_once_minimal [OF ab c(1)])
  let ?q = "drop (length a) (p @ t)"
  have "t @ b = drop (length a) c" using c' by simp
  also have "\<dots> = ?q @ r" using short c(1) by simp
  finally have q: "t @ b = ?q @ r" .
  have ne: "?q \<noteq> []" using short t(1) by simp
  let ?w = "takeWhile (\<lambda>x. \<not> is_whitespace x) ?q" and ?r = "dropWhile (\<lambda>x. \<not> is_whitespace x) ?q @ r"
  have inner: "from_first t c = ?w @ ?r" using ab q by (simp add: from_first_def)
  have "hd ?q = hd t" using q ne t(1) by (metis hd_append2)
  then have "\<not> is_whitespace (hd ?q)" using t by simp
  with ne have w: "?w \<noteq> []" by (cases ?q) auto
  have "61 \<notin> set ?q" using eq by (auto dest: in_set_dropD)
  with w have bare: "bare_word ?w" by (auto simp: bare_word_def list_all_iff dest: set_takeWhileD)
  have ends: "ends_word ?r"
  proof (cases "dropWhile (\<lambda>x. \<not> is_whitespace x) ?q")
    case Nil
    show ?thesis unfolding Nil using c(2) by simp
  next
    case (Cons y ys)
    then show ?thesis using hd_dropWhile [of "\<lambda>x. \<not> is_whitespace x" ?q] by (simp add: ends_word_def)
  qed
  have "t @ b = ?w @ ?r" using q by (metis append_assoc takeWhile_dropWhile_id)
  then obtain u where u: "t = ?w @ u \<and> ?r = u @ b \<or> t @ u = ?w" by (metis append_eq_append_conv2)
  have "starts_with t ?w"
  proof (cases "t @ u = ?w")
    case False
    with u have t': "t = ?w @ u" "?r = u @ b" by auto
    have "\<forall>x \<in> set u. \<not> is_whitespace x" using t(2) t'(1) by (metis Un_iff set_append)
    moreover have "ends_word (u @ b)" using ends t'(2) by (simp only:)
    ultimately have "u = []" by (cases u) (simp_all add: ends_word_def)
    with t' show ?thesis by (simp add: starts_with_iff)
  next
    case True
    show ?thesis unfolding True [symmetric] by (simp add: starts_with_iff)
  qed
  with inner bare ends show thesis using that by blast
qed

text \<open>The validation of a \<^verbatim>\<open>sudo\<close> command calls itself on the text from the first place of the first word that is no option.\<close>

lemma sudo_inner_target:
  assumes "split_whitespace c = lit ''sudo'' # options @ t # rest"
    and "\<forall>x \<in> set options. starts_with (lit ''-'') x" "\<not> starts_with (lit ''-'') t"
  shows "extract_sudo_inner c = from_first t c"
  using assms find_first [of options "\<lambda>part. \<not> starts_with (lit ''-'') part" t rest] by (simp add: extract_sudo_inner_def)

lemma sudo_loops_same:
  "extract_first_command d = Returned (lit ''sudo'') \<Longrightarrow> extract_sudo_inner d = d \<Longrightarrow> d \<noteq> [] \<Longrightarrow> sudo_loops d"
  by (simp add: sudo_loops.simps [of d])

lemma sudo_loops_target:
  assumes words: "split_whitespace c = lit ''sudo'' # options @ t # rest"
    and options: "\<forall>x \<in> set options. starts_with (lit ''-'') x" "\<not> starts_with (lit ''-'') t"
    and eq: "61 \<notin> set (concat options @ t)"
  shows "sudo_loops c \<longleftrightarrow> starts_with t (lit ''sudo'')"
proof -
  from words obtain p r where c: "c = p @ lit ''sudo'' @ r" and p: "\<forall>x \<in> set p. is_whitespace x"
    and r: "ends_word r" "split_whitespace r = options @ t # rest" by (rule words_head)
  let ?d = "lit ''sudo'' @ r"
  have first: "extract_first_command ?d = Returned (lit ''sudo'')" by (rule extract_bare [OF sudo_word r(1)])
  then have sudo: "extract_first_command c = Returned (lit ''sudo'')" unfolding c by (simp add: extract_after_space p)
  have inner: "extract_sudo_inner c = from_first t c" by (rule sudo_inner_target [OF words options])
  have t: "t \<noteq> []" "\<forall>x \<in> set t. \<not> is_whitespace x" using split_whitespace_words [of t c] words by auto
  show ?thesis
  proof (cases "starts_with t (lit ''sudo'')")
    case True
    then obtain u where u: "lit ''sudo'' = t @ u" by (auto simp: starts_with_iff)
    have "split_whitespace ?d = lit ''sudo'' # options @ t # rest"
      using split_whitespace_word [OF bare_wordD(1,2) [OF sudo_word], of r] r by (simp add: ends_word_def)
    then have "extract_sudo_inner ?d = from_first t ?d" by (rule sudo_inner_target [OF _ options])
    then have "extract_sudo_inner ?d = ?d" using u by (simp add: from_first_prefix starts_with_iff)
    with first have d: "sudo_loops ?d" by (rule sudo_loops_same) (simp add: lit_def)
    have "\<not> starts_with t (drop i p @ t @ u @ r)" if "i < length p" for i
    proof
      assume "starts_with t (drop i p @ t @ u @ r)"
      then obtain v where "drop i p @ t @ u @ r = t @ v" by (auto simp: starts_with_iff)
      then have "hd t = p ! i" using that t(1) by (metis hd_append2 hd_drop_conv_nth drop_eq_Nil2 not_le)
      then show False using t p that by (metis hd_in_set nth_mem)
    qed
    then have "split_once t (p @ t @ u @ r) = Some (p, u @ r)" by (intro split_once_first) blast
    then have "extract_sudo_inner c = ?d" using inner u c by (simp add: from_first_def)
    with sudo d True show ?thesis by (simp add: sudo_loops.simps [of c] lit_def)
  next
    case False
    have "split_whitespace c = (lit ''sudo'' # options) @ t # rest" using words by simp
    from words_place [OF this] obtain q s where q: "c = q @ t @ s" "ends_word s"
      "\<forall>x \<in> set q. is_whitespace x \<or> x \<in> set (concat (lit ''sudo'' # options))" by blast
    have "61 \<notin> set q" using q(3) eq by (auto simp: lit_def is_whitespace_def)
    then have "61 \<notin> set (q @ t)" using eq by simp
    from from_first_word [OF q(1,2) t this] obtain w s' where
      w: "from_first t c = w @ s'" "bare_word w" "ends_word s'" "starts_with t w" .
    then have "extract_first_command (extract_sudo_inner c) = Returned w" by (simp add: inner extract_bare)
    moreover have "w \<noteq> lit ''sudo''" using w(4) False by auto
    ultimately have "\<not> sudo_loops (extract_sudo_inner c)" "extract_sudo_inner c \<noteq> c"
      using sudo by (auto simp: sudo_loops.simps)
    then show ?thesis using False inner_unshortened [of c] by (auto simp: sudo_loops.simps [of c])
  qed
qed

subsection \<open>Modifying commands\<close>

lemma modifying_bare: "w \<in> set WRITE_COMMANDS \<union> set STATE_MODIFYING_COMMANDS \<Longrightarrow> bare_word w \<and> \<not> starts_with (lit ''-'') w"
proof -
  have "\<forall>w \<in> set WRITE_COMMANDS \<union> set STATE_MODIFYING_COMMANDS. bare_word w \<and> \<not> starts_with (lit ''-'') w"
    by (simp add: WRITE_COMMANDS_def STATE_MODIFYING_COMMANDS_def bare_word_def lit_def is_whitespace_def starts_with_def)
  then show "w \<in> set WRITE_COMMANDS \<union> set STATE_MODIFYING_COMMANDS \<Longrightarrow> ?thesis" by blast
qed

lemma modifying_blocked:
  assumes "\<forall>(n, v) \<in> set env. env_name n \<and> env_value v"
    and "w \<in> set WRITE_COMMANDS \<union> set STATE_MODIFYING_COMMANDS" and "ends_word args"
  obtains reason where "validate_read_only (concat (map assignment env) @ w @ args) ReadOnly = Some (Returned (VBlock reason))"
  using read_only_blocks [OF extract_after_assignments [OF assms(1) _ assms(3)] assms(2)] modifying_bare [OF assms(2)] by blast

lemma write_command_blocked:
  assumes "\<forall>(n, v) \<in> set env. env_name n \<and> env_value v"
    and "w \<in> set WRITE_COMMANDS \<union> set STATE_MODIFYING_COMMANDS" and "ends_word args"
  shows "\<exists>reason. validate_command (concat (map assignment env) @ w @ args) ReadOnly workspace
    = Some (Returned (VBlock reason))"
proof (rule modifying_blocked [OF assms])
  fix reason
  assume "validate_read_only (concat (map assignment env) @ w @ args) ReadOnly = Some (Returned (VBlock reason))"
  then show ?thesis by (intro exI [of _ reason] validate_command_block) (simp add: validate_mode_def)
qed

text \<open>\<^verbatim>\<open>sudo\<close> with options, and the words of a text of words.\<close>

definition sudo_prefix :: "ustr list \<Rightarrow> ustr" where
  "sudo_prefix options = concat (map (\<lambda>word. word @ [32]) (lit ''sudo'' # options))"

lemma split_words:
  assumes "\<forall>x \<in> set xs. x \<noteq> [] \<and> (\<forall>c \<in> set x. \<not> is_whitespace c)"
  shows "split_whitespace (concat (map (\<lambda>word. word @ [32]) xs) @ s) = xs @ split_whitespace s"
  using assms
proof (induction xs)
  case (Cons x xs)
  have "is_whitespace 32" by (simp add: is_whitespace_def)
  then have "split_whitespace (x @ 32 # u) = x # split_whitespace u" for u
    using Cons.prems split_whitespace_word [of x "32 # u"] by simp
  with Cons show ?case by simp
qed simp

text \<open>A word that does not occur in a text that ends with a space is first found behind it.\<close>

lemma from_first_behind:
  assumes "\<not> contains w (p @ [32])" "\<forall>c \<in> set w. \<not> is_whitespace c"
  shows "from_first w ((p @ [32]) @ w @ r) = w @ r"
proof -
  let ?p = "p @ [32]"
  have "\<not> starts_with w (drop i ?p @ w @ r)" if i: "i < length ?p" for i
  proof
    assume "starts_with w (drop i ?p @ w @ r)"
    then obtain b where b: "drop i ?p @ w @ r = w @ b" by (auto simp: starts_with_iff)
    then obtain u where "drop i ?p = w @ u \<or> w = drop i ?p @ u" by (auto simp: append_eq_append_conv2)
    then show False
    proof
      assume "drop i ?p = w @ u"
      then have "?p = take i ?p @ w @ u" by (metis append_take_drop_id)
      with assms(1) show False by (metis contains_iff)
    next
      assume w: "w = drop i ?p @ u"
      have "32 \<in> set (drop i ?p)" using i by simp
      with w have "32 \<in> set w" by (metis Un_iff set_append)
      with assms(2) show False by (auto simp: is_whitespace_def)
    qed
  qed
  then have "split_once w (?p @ w @ r) = Some (?p, r)" by (intro split_once_first) blast
  then show ?thesis by (simp only: from_first_def option.case prod.case)
qed

lemma modifying_sudo_blocked:
  assumes env: "\<forall>(n, v) \<in> set env. env_name n \<and> env_value v"
    and options: "\<forall>x \<in> set options. starts_with (lit ''-'') x \<and> (\<forall>c \<in> set x. \<not> is_whitespace c)"
    and w: "w \<in> set WRITE_COMMANDS \<union> set STATE_MODIFYING_COMMANDS" and args: "ends_word args"
    and fresh: "\<not> contains w (concat (map assignment env) @ sudo_prefix options)"
  obtains reason where
    "validate_read_only (concat (map assignment env) @ sudo_prefix options @ w @ args) ReadOnly = Some (Returned (VBlock reason))"
proof -
  let ?env = "concat (map assignment env)"
  let ?c = "?env @ sudo_prefix options @ w @ args"
  note bare = modifying_bare [OF w]
  obtain os where os: "sudo_prefix options = lit ''sudo'' @ 32 # os" by (simp add: sudo_prefix_def)
  have first: "extract_first_command ?c = Returned (lit ''sudo'')"
    unfolding os append_assoc
    by (rule extract_after_assignments [OF env sudo_word]) (simp add: ends_word_def is_whitespace_def)
  have env_words: "?env = concat (map (\<lambda>word. word @ [32]) (map (\<lambda>(n, v). n @ [61] @ v) env))"
    by (induction env) (auto simp: assignment_def)
  let ?words = "map (\<lambda>(n, v). n @ [61] @ v) env @ lit ''sudo'' # options"
  have "\<forall>x \<in> set ?words. x \<noteq> [] \<and> (\<forall>c \<in> set x. \<not> is_whitespace c)"
    using env options bare_wordD(1,2) [OF sudo_word] bare_wordD(1,2) [OF env_name_bare]
    by (fastforce simp: env_value_def list_all_iff starts_with_def lit_def is_whitespace_def)
  moreover have w_args: "split_whitespace (w @ args) = w # split_whitespace args"
    by (rule split_whitespace_word) (use bare_wordD(1,2) bare args in \<open>auto simp: ends_word_def\<close>)
  ultimately have "split_whitespace (concat (map (\<lambda>word. word @ [32]) ?words) @ w @ args) = ?words @ w # split_whitespace args"
    using split_words [of ?words "w @ args"] w_args by simp
  then have "split_whitespace ?c = ?words @ w # split_whitespace args"
    by (simp add: env_words sudo_prefix_def)
  moreover have "\<forall>x \<in> set (map (\<lambda>(n, v). n @ [61] @ v) env). x \<noteq> lit ''sudo''"
    by (auto simp: lit_def append_eq_Cons_conv)
  moreover have "dropWhile (\<lambda>p. p \<noteq> lit ''sudo'') (xs @ lit ''sudo'' # ys) = lit ''sudo'' # ys"
    if "\<forall>x \<in> set xs. x \<noteq> lit ''sudo''" for xs ys
    using that by (induction xs) simp_all
  ultimately have "dropWhile (\<lambda>p. p \<noteq> lit ''sudo'') (split_whitespace ?c) = lit ''sudo'' # options @ w # split_whitespace args"
    by (simp only: append_assoc append_Cons)
  then have "extract_sudo_inner ?c = from_first w ?c"
    using find_first [of options "\<lambda>part. \<not> starts_with (lit ''-'') part" w "split_whitespace args"] options bare
    by (simp add: extract_sudo_inner_def)
  moreover have "\<exists>p. ?env @ sudo_prefix options = p @ [32]"
    by (cases options rule: rev_cases) (simp_all add: sudo_prefix_def)
  then obtain p where p: "?env @ sudo_prefix options = p @ [32]" ..
  ultimately have inner: "extract_sudo_inner ?c = w @ args"
    using from_first_behind [of w p args] fresh bare_wordD(2) bare by (metis append_assoc)
  have ne: "w @ args \<noteq> []" using bare_wordD(1) bare by auto
  obtain reason where "validate_read_only (w @ args) ReadOnly = Some (Returned (VBlock reason))"
    using modifying_blocked [of "[]" w args] w args by auto
  then have "validate_read_only ?c ReadOnly = Some (Returned (VBlock reason))"
    using read_only_continues [OF first sudo_not_modifying] inner ne by (simp add: read_only_tail_def)
  then show thesis by (rule that)
qed

subsection \<open>An assignment with an empty value\<close>

lemma modifying_words:
  "w \<in> set WRITE_COMMANDS \<union> set STATE_MODIFYING_COMMANDS \<Longrightarrow>
     bare_word w \<and> list_all (\<lambda>c. c < 128 \<and> c \<notin> {34, 39, 62}) w
     \<and> [last w] \<notin> set WRITE_COMMANDS \<union> set STATE_MODIFYING_COMMANDS \<union> {lit ''sudo'', lit ''git''}"
proof -
  have "\<forall>w \<in> set (WRITE_COMMANDS @ STATE_MODIFYING_COMMANDS).
     bare_word w \<and> list_all (\<lambda>c. c < 128 \<and> c \<notin> {34, 39, 62}) w
     \<and> [last w] \<notin> set WRITE_COMMANDS \<union> set STATE_MODIFYING_COMMANDS \<union> {lit ''sudo'', lit ''git''}"
    by (simp add: WRITE_COMMANDS_def STATE_MODIFYING_COMMANDS_def bare_word_def lit_def is_whitespace_def)
  then show "w \<in> set WRITE_COMMANDS \<union> set STATE_MODIFYING_COMMANDS \<Longrightarrow> ?thesis" by simp
qed

lemma str_len_ascii: "list_all (\<lambda>c. c < 128) s \<Longrightarrow> str_len s = length s"
  by (induction s) (simp_all add: str_len_def len_utf8_def)

lemma extract_after_empty_value:
  assumes "env_name n" "bare_word w" "list_all (\<lambda>c. c < 128) w" "hd w \<notin> {34, 39}"
    and "args \<noteq> []" "\<not> is_whitespace (last args)"
  shows "extract_first_command (n @ lit ''= '' @ w @ lit '' '' @ args) = Returned [last w]"
proof -
  let ?v = "w @ 32 # args"
  from env_name_bare [OF assms(1)] have n: "bare_word n" .
  have "trim (n @ 61 # 32 # ?v) = n @ 61 # 32 # ?v"
    using assms(5,6) n by (intro trim_id) (cases n; simp add: bare_word_def)+
  moreover have "trim_start (n @ 61 # 32 # ?v) = n @ 61 # 32 # ?v"
    "split_once [61] (n @ 61 # 32 # ?v) = Some (n, 32 # ?v)"
    using n by (simp_all add: trim_start_word split_once_char_first bare_wordD)
  moreover have "find_end_of_value (32 # ?v) = Some (length w)"
  proof -
    have "env_value w" using assms(2,4) by (auto simp: env_value_def bare_word_def list_all_iff)
    then have "find_end_of_value ?v = Some (str_len w)" by (rule find_end_of_env_value) simp
    then show ?thesis using assms(3) by (simp add: find_end_of_value_def trim_start_def str_len_ascii)
  qed
  moreover have "slice_from (length w) (32 # ?v) = Some (last w # 32 # args)"
  proof -
    have "32 # ?v = (32 # butlast w) @ last w # 32 # args" using bare_wordD(1) [OF assms(2)] by simp
    moreover have "str_len (32 # butlast w) = length w"
      using assms(3) bare_wordD(1) [OF assms(2)]
      by (subst str_len_ascii) (auto simp: list_all_iff dest: in_set_butlastD)
    ultimately show ?thesis using slice_from_append [of "32 # butlast w"] by metis
  qed
  moreover have "first_command_loop ([last w] @ 32 # args) = Returned [last w]"
    using assms(2) by (intro first_command_loop_word) (auto simp: bare_word_def list_all_iff ends_word_def)
  ultimately show ?thesis using assms(1)
    by (simp add: extract_first_command_def lit_def first_command_loop.simps [of "n @ 61 # 32 # ?v"] env_name_def)
qed

section \<open>Properties\<close>

lemmas sample_words = bare_word_def env_name_def env_value_def ends_word_def lit_def is_whitespace_def
  is_ascii_alphanumeric_def is_ascii_digit_def

text \<open>C39: in read-only mode a command whose command word modifies files or the system is blocked, whatever plain assignments
  stand before it and whatever arguments follow; and so it is behind \<^verbatim>\<open>sudo\<close> and its options, unless an assignment or an
  option contains the command word. Assignments are plain if their values are neither empty nor quoted; an option
  with an argument of its own is not covered, for its argument is taken for the command word.\<close>

theorem read_only_blocks_modifying:
  assumes "\<forall>(n, v) \<in> set env. env_name n \<and> env_value v"
    and "w \<in> set WRITE_COMMANDS \<union> set STATE_MODIFYING_COMMANDS" and "ends_word args"
    and "sudo = [] \<or> sudo = sudo_prefix options \<and> \<not> contains w (concat (map assignment env) @ sudo)"
    and "\<forall>x \<in> set options. starts_with (lit ''-'') x \<and> (\<forall>c \<in> set x. \<not> is_whitespace c)"
  shows "\<exists>reason. validate_command (concat (map assignment env) @ sudo @ w @ args) ReadOnly workspace
    = Some (Returned (VBlock reason))"
proof -
  have "\<exists>reason. validate_read_only (concat (map assignment env) @ sudo @ w @ args) ReadOnly = Some (Returned (VBlock reason))"
    using assms(4)
  proof
    assume "sudo = []"
    then show ?thesis using modifying_blocked [OF assms(1-3)] by auto
  next
    assume "sudo = sudo_prefix options \<and> \<not> contains w (concat (map assignment env) @ sudo)"
    then show ?thesis using modifying_sudo_blocked [OF assms(1,5,2,3)] by metis
  qed
  then show ?thesis using validate_command_block by (auto simp: validate_mode_def)
qed

theorem read_only_blocks_modifying_witness:
  "\<exists>reason. validate_command (lit ''A=1 sudo -n rm -r x'') ReadOnly [] = Some (Returned (VBlock reason))"
proof -
  have fresh: "\<not> contains (lit ''rm'') (concat (map assignment [(lit ''A'', lit ''1'')]) @ sudo_prefix [lit ''-n''])" by code_simp
  have "\<exists>reason. validate_command (concat (map assignment [(lit ''A'', lit ''1'')]) @ sudo_prefix [lit ''-n''] @ lit ''rm'' @ lit '' -r x'')
      ReadOnly [] = Some (Returned (VBlock reason))"
    by (rule read_only_blocks_modifying [where options = "[lit ''-n'']", OF _ _ _ disjI2 [OF conjI [OF refl fresh]]])
      (simp_all add: sample_words WRITE_COMMANDS_def starts_with_def)
  then show ?thesis by (simp add: assignment_def sudo_prefix_def lit_def)
qed

text \<open>C40: in read-only mode the validation of a \<^verbatim>\<open>sudo\<close> command does not return if and only if the first word
  after \<^verbatim>\<open>sudo\<close> and its options is a prefix of the word \<^verbatim>\<open>sudo\<close>: the recursion is then on the same text, however the
  words are spaced and whatever follows. So \<^verbatim>\<open>sudo su\<close> and \<^verbatim>\<open>sudo -n su\<close> overflow the stack. Up to that word the
  command has no equals sign.\<close>

theorem sudo_validation_diverges_iff:
  assumes "split_whitespace command = lit ''sudo'' # options @ target # rest"
    and "\<forall>word \<in> set options. starts_with (lit ''-'') word" and "\<not> starts_with (lit ''-'') target"
    and "uc CHR ''='' \<notin> set (concat options @ target)"
  shows "validate_command command ReadOnly workspace = None \<longleftrightarrow> starts_with target (lit ''sudo'')"
  using sudo_loops_target [OF assms(1-3)] assms(4) by (simp add: validate_command_None)

theorem sudo_validation_diverges_iff_witness:
  "validate_command (lit ''sudo -n su'') ReadOnly [] = None \<and> validate_command (lit ''sudo ls'') ReadOnly [] \<noteq> None"
proof -
  have "split_whitespace (lit ''sudo -n su'') = lit ''sudo'' # [lit ''-n''] @ lit ''su'' # []"
    "split_whitespace (lit ''sudo ls'') = lit ''sudo'' # [] @ lit ''ls'' # []" by code_simp+
  from sudo_validation_diverges_iff [OF this(1), of "[]"] sudo_validation_diverges_iff [OF this(2), of "[]"] show ?thesis
    by (simp add: starts_with_def lit_def)
qed

text \<open>An assignment with an empty value hides the command from the read-only check: only the last
  letter of the command word is looked up, so every modifying command without a redirection is
  accepted.\<close>

theorem empty_assignment_bypasses_read_only:
  assumes "env_name n" and "w \<in> set WRITE_COMMANDS \<union> set STATE_MODIFYING_COMMANDS"
    and "args \<noteq> []" and "\<not> is_whitespace (last args)" and "uc CHR ''>'' \<notin> set args"
  shows "validate_read_only (n @ lit ''= '' @ w @ lit '' '' @ args) ReadOnly = Some (Returned VAllow)"
proof -
  from modifying_words [OF assms(2)] have w: "bare_word w" "list_all (\<lambda>c. c < 128) w" "hd w \<notin> {34, 39}"
    "62 \<notin> set w" "[last w] \<notin> set WRITE_COMMANDS \<union> set STATE_MODIFYING_COMMANDS"
    "[last w] \<noteq> lit ''sudo''" "[last w] \<noteq> lit ''git''"
    by (auto simp: list_all_iff bare_word_def)
  have "62 \<notin> set n" using assms(1)
    by (auto simp: env_name_def list_all_iff is_ascii_alphanumeric_def is_ascii_digit_def)
  with w(4) assms(5) have "62 \<notin> set (n @ lit ''= '' @ w @ lit '' '' @ args)" by (simp add: lit_def)
  with extract_after_empty_value [OF assms(1) w(1-3) assms(3,4)] w(5-7) show ?thesis
    by (subst validate_read_only_accepts) blast
qed

theorem empty_assignment_bypasses_read_only_witness:
  "validate_read_only (lit ''A= rm -r x'') ReadOnly = Some (Returned VAllow)"
proof -
  have "validate_read_only (lit ''A'' @ lit ''= '' @ lit ''rm'' @ lit '' '' @ lit ''-r x'') ReadOnly = Some (Returned VAllow)"
    by (rule empty_assignment_bypasses_read_only) (simp_all add: sample_words WRITE_COMMANDS_def)
  then show ?thesis by (simp add: lit_def)
qed

text \<open>The argument of an option of \<^verbatim>\<open>sudo\<close> is taken for the command, and a command word that occurs in an assignment hides
  the command as well.\<close>

lemma sudo_accepts:
  assumes "extract_first_command c = Returned (lit ''sudo'')" "62 \<notin> set c"
    and "extract_first_command (extract_sudo_inner c) = Returned f" "62 \<notin> set (extract_sudo_inner c)"
    and "f \<notin> set WRITE_COMMANDS \<union> set STATE_MODIFYING_COMMANDS \<union> {lit ''sudo'', lit ''git''}"
  shows "validate_read_only c ReadOnly = Some (Returned VAllow)"
proof -
  have "validate_read_only (extract_sudo_inner c) ReadOnly = Some (Returned VAllow)"
    using assms(3-5) by (subst validate_read_only_accepts) auto
  moreover have "lit ''sudo'' \<noteq> lit ''git''" by (simp add: lit_def)
  ultimately show ?thesis using assms(1,2) sudo_not_modifying by (subst validate_read_only_accepts) blast
qed

lemma option_argument_hides_command: "validate_read_only (lit ''sudo -u root touch x'') ReadOnly = Some (Returned VAllow)"
  by (rule sudo_accepts [where f = "lit ''root''"]) code_simp+

lemma assignment_hides_command: "validate_read_only (lit ''A=xrmy sudo rm -r x'') ReadOnly = Some (Returned VAllow)"
  by (rule sudo_accepts [where f = "lit ''rmy''"]) code_simp+

end
