(* ===== verification/Permission_Enforcer.thy ===== *)
theory Permission_Enforcer
  imports Bash_Validation
begin

text \<open>
  The enforcement layer between tools and the policy (\<^verbatim>\<open>permission_enforcer.rs\<close>): a check of a tool call
  that never asks, one with a required mode given by the caller, a check of file writes against the
  workspace and a heuristic for read-only shell commands.
  The theorems reduce the first check to the specification \<open>grants\<close> of the policy and say exactly
  which file writes pass.
\<close>

section \<open>Definitions\<close>

datatype EnforcementResult = Allowed
  | Denied (denied_tool: ustr) (denied_active_mode: ustr) (denied_required_mode: ustr) (denied_reason: ustr)

record PermissionEnforcer =
  policy :: PermissionPolicy

definition PermissionEnforcer_new :: "PermissionPolicy \<Rightarrow> PermissionEnforcer" where
  "PermissionEnforcer_new pol = \<lparr>policy = pol\<rparr>"

definition enforcer_active_mode :: "PermissionEnforcer \<Rightarrow> PermissionMode" where
  "enforcer_active_mode e = active_mode (policy e)"

definition check :: "from_str_fn \<Rightarrow> PermissionEnforcer \<Rightarrow> ustr \<Rightarrow> ustr \<Rightarrow> EnforcementResult" where
  "check from_str e tool_name inp =
     (if active_mode (policy e) = Prompt then Allowed
      else case authorize from_str (policy e) tool_name inp None () of
        (OutcomeAllow, _) \<Rightarrow> Allowed
      | (OutcomeDeny reason, _) \<Rightarrow>
          Denied tool_name (mode_as_str (active_mode (policy e)))
            (mode_as_str (required_mode_for (policy e) tool_name)) reason)"

definition is_allowed :: "from_str_fn \<Rightarrow> PermissionEnforcer \<Rightarrow> ustr \<Rightarrow> ustr \<Rightarrow> bool" where
  "is_allowed from_str e tool_name inp \<longleftrightarrow> check from_str e tool_name inp = Allowed"

definition check_with_required_mode ::
  "PermissionEnforcer \<Rightarrow> ustr \<Rightarrow> ustr \<Rightarrow> PermissionMode \<Rightarrow> EnforcementResult" where
  "check_with_required_mode e tool_name inp required =
     (let active = active_mode (policy e)
      in if active = Prompt then Allowed
         else if required \<le> active then Allowed
         else Denied tool_name (mode_as_str active) (mode_as_str required)
           ([39] @ tool_name @ [39] @ lit '' with input '' @ [39] @ inp @ [39] @ lit '' requires '' @ [39]
            @ mode_as_str required @ [39] @ lit '' permission, but current mode is '' @ [39]
            @ mode_as_str active @ [39]))"

definition trim_end_slashes :: "ustr \<Rightarrow> ustr" where
  "trim_end_slashes s = rev (dropWhile (\<lambda>c. c = 47) (rev s))"

definition is_within_workspace :: "ustr \<Rightarrow> ustr \<Rightarrow> bool" where
  "is_within_workspace path workspace_root \<longleftrightarrow>
     (let normalized = (if starts_with (lit ''/'') path then path else workspace_root @ lit ''/'' @ path);
          root = (if ends_with (lit ''/'') workspace_root then workspace_root else workspace_root @ lit ''/'')
      in starts_with root normalized \<or> normalized = trim_end_slashes workspace_root)"

definition check_file_write :: "PermissionEnforcer \<Rightarrow> ustr \<Rightarrow> ustr \<Rightarrow> EnforcementResult" where
  "check_file_write e path workspace_root =
     (let mode = active_mode (policy e)
      in case mode of
           ReadOnly \<Rightarrow> Denied (lit ''write_file'') (mode_as_str mode) (mode_as_str WorkspaceWrite)
             (lit ''file writes are not allowed in '' @ [39] @ mode_as_str mode @ [39] @ lit '' mode'')
         | WorkspaceWrite \<Rightarrow>
             if is_within_workspace path workspace_root then Allowed
             else Denied (lit ''write_file'') (mode_as_str mode) (mode_as_str DangerFullAccess)
               (lit ''path '' @ [39] @ path @ [39] @ lit '' is outside workspace root '' @ [39]
                @ workspace_root @ [39])
         | Allow \<Rightarrow> Allowed
         | DangerFullAccess \<Rightarrow> Allowed
         | Prompt \<Rightarrow> Denied (lit ''write_file'') (mode_as_str mode) (mode_as_str WorkspaceWrite)
             (lit ''file write requires confirmation in prompt mode''))"

definition read_only_command_names :: "ustr list" where
  "read_only_command_names = map lit
     [''cat'', ''head'', ''tail'', ''less'', ''more'', ''wc'', ''ls'', ''find'', ''grep'', ''rg'', ''awk'', ''sed'',
      ''echo'', ''printf'', ''which'', ''where'', ''whoami'', ''pwd'', ''env'', ''printenv'', ''date'', ''cal'',
      ''df'', ''du'', ''free'', ''uptime'', ''uname'', ''file'', ''stat'', ''diff'', ''sort'', ''uniq'', ''tr'',
      ''cut'', ''paste'', ''tee'', ''xargs'', ''test'', ''true'', ''false'', ''type'', ''readlink'', ''realpath'',
      ''basename'', ''dirname'', ''sha256sum'', ''md5sum'', ''b3sum'', ''xxd'', ''hexdump'', ''od'', ''strings'',
      ''tree'', ''jq'', ''yq'', ''python3'', ''python'', ''node'', ''ruby'', ''cargo'', ''rustc'', ''git'', ''gh'']"

definition is_read_only_command :: "ustr \<Rightarrow> bool" where
  "is_read_only_command command \<longleftrightarrow>
     (let first_token = rev (takeWhile (\<lambda>c. c \<noteq> 47) (rev (first_word command)))
      in first_token \<in> set read_only_command_names
         \<and> \<not> contains (lit ''-i '') command \<and> \<not> contains (lit ''--in-place'') command
         \<and> \<not> contains (lit '' > '') command \<and> \<not> contains (lit '' >> '') command)"

definition check_bash :: "PermissionEnforcer \<Rightarrow> ustr \<Rightarrow> EnforcementResult" where
  "check_bash e command =
     (let mode = active_mode (policy e)
      in case mode of
           ReadOnly \<Rightarrow>
             if is_read_only_command command then Allowed
             else Denied (lit ''bash'') (mode_as_str mode) (mode_as_str WorkspaceWrite)
               (lit ''command may modify state; not allowed in '' @ [39] @ mode_as_str mode @ [39] @ lit '' mode'')
         | Prompt \<Rightarrow> Denied (lit ''bash'') (mode_as_str mode) (mode_as_str DangerFullAccess)
             (lit ''bash requires confirmation in prompt mode'')
         | _ \<Rightarrow> Allowed)"

section \<open>Tool calls\<close>

text \<open>Outside prompt mode the enforcer lets a tool call pass exactly if the policy grants it without
  asking; in prompt mode it lets every call pass, also one that a deny rule matches.\<close>

theorem enforcer_allows_iff:
  "check from_str e tool inp = Allowed \<longleftrightarrow>
     active_mode (policy e) = Prompt \<or> grants from_str (policy e) tool inp"
  by (rule authorize_cases [where 'w = unit, of from_str "policy e" tool inp PermissionContext_default])
    (auto simp: check_def authorize_def PermissionContext_default_def)

section \<open>File writes\<close>

lemma ends_with_slash: "ends_with (lit ''/'') s \<longleftrightarrow> (\<exists>t. s = t @ [47])"
  by (cases s rule: rev_cases) (simp_all add: ends_with_def starts_with_def lit_def)

lemma relative_within: "\<not> starts_with (lit ''/'') path \<Longrightarrow> is_within_workspace path root"
  by (simp add: is_within_workspace_def Let_def starts_with_iff)

lemma absolute_within:
  assumes "starts_with (lit ''/'') path"
  shows "is_within_workspace path root \<longleftrightarrow>
    starts_with (if ends_with (lit ''/'') root then root else root @ lit ''/'') path \<or> path = trim_end_slashes root"
  using assms by (simp add: is_within_workspace_def Let_def)

text \<open>Which file writes pass. The modes with full access let every write pass. In workspace mode a
  write passes if the path is absolute and is the root or starts with the root followed by a slash,
  and always if the path is relative, however many parent directories it names.\<close>

theorem file_write_allowed_iff:
  "check_file_write e path root = Allowed \<longleftrightarrow>
     active_mode (policy e) \<in> {Allow, DangerFullAccess}
     \<or> active_mode (policy e) = WorkspaceWrite
       \<and> (starts_with (lit ''/'') path \<longrightarrow>
            path = trim_end_slashes root
            \<or> starts_with (if ends_with (lit ''/'') root then root else root @ lit ''/'') path)"
  using relative_within [of path root] absolute_within [of path root]
  by (cases "active_mode (policy e)"; cases "starts_with (lit ''/'') path") (auto simp: check_file_write_def Let_def)

theorem file_write_allowed_iff_witness:
  "check_file_write \<lparr>policy = PermissionPolicy_new WorkspaceWrite\<rparr> (lit ''../../etc/passwd'') (lit ''/w'') = Allowed
   \<and> check_file_write \<lparr>policy = PermissionPolicy_new WorkspaceWrite\<rparr> (lit ''/etc/passwd'') (lit ''/w'') \<noteq> Allowed"
  unfolding file_write_allowed_iff
  by (simp add: PermissionPolicy_new_def starts_with_def ends_with_def trim_end_slashes_def lit_def)

section \<open>Shell commands\<close>

text \<open>The two checks of read-only commands disagree: \<^verbatim>\<open>tee\<close> is on the list of harmless commands here and on
  the list of writing commands there.\<close>

lemma tee_passes_enforcer:
  "check_bash \<lparr>policy = PermissionPolicy_new ReadOnly\<rparr> (lit ''tee f'') = Allowed"
  "\<exists>reason. validate_command (lit ''tee f'') ReadOnly ws = Some (Returned (VBlock reason))"
proof -
  show "check_bash \<lparr>policy = PermissionPolicy_new ReadOnly\<rparr> (lit ''tee f'') = Allowed"
    by (simp add: check_bash_def PermissionPolicy_new_def is_read_only_command_def first_word_def Let_def
        split_whitespace_def read_only_command_names_def contains_def starts_with_def lit_def is_whitespace_def)
  have "\<exists>reason. validate_command (concat (map assignment []) @ lit ''tee'' @ lit '' f'') ReadOnly ws
      = Some (Returned (VBlock reason))"
    by (rule write_command_blocked) (simp_all add: sample_words WRITE_COMMANDS_def)
  then show "\<exists>reason. validate_command (lit ''tee f'') ReadOnly ws = Some (Returned (VBlock reason))"
    by (simp add: lit_def)
qed

end
