(* ===== verification/Task_Registry.thy ===== *)
theory Task_Registry
  imports Registry_Spec
begin

text \<open>
  Task packets and their validation (\<^verbatim>\<open>task_packet.rs\<close>) and the registry of sub-agent tasks
  (\<^verbatim>\<open>task_registry.rs\<close>). The registry is behind a mutex, so each operation is one atomic step on
  \<open>RegistryInner\<close>; the readings of the clock are arguments, one for each call of \<^verbatim>\<open>now_secs\<close>.
  A packet is accepted exactly if it meets a list of requirements, and the errors name each one that
  is missed. A task is an independent object: what happened to it depends only on the operations
  that name it; a task that was stopped stays so under every operation but \<^verbatim>\<open>set_status\<close> and \<^verbatim>\<open>remove\<close>.
\<close>

section \<open>Task packets\<close>

datatype TaskScope = ScopeWorkspace | ScopeModule | ScopeSingleFile | ScopeCustom

fun TaskScope_display :: "TaskScope \<Rightarrow> ustr" where
  "TaskScope_display ScopeWorkspace = lit ''workspace''"
| "TaskScope_display ScopeModule = lit ''module''"
| "TaskScope_display ScopeSingleFile = lit ''single-file''"
| "TaskScope_display ScopeCustom = lit ''custom''"

record TaskPacket =
  objective :: ustr
  scope :: TaskScope
  scope_path :: "ustr option"
  repo :: ustr
  tp_worktree :: "ustr option"
  branch_policy :: ustr
  acceptance_tests :: "ustr list"
  commit_policy :: ustr
  reporting_contract :: ustr
  escalation_policy :: ustr

type_synonym TaskPacketValidationError = "ustr list"

definition TaskPacketValidationError_display :: "TaskPacketValidationError \<Rightarrow> ustr" where
  "TaskPacketValidationError_display errs = join (lit ''; '') errs"

definition validate_required :: "ustr \<Rightarrow> ustr \<Rightarrow> ustr list \<Rightarrow> ustr list" where
  "validate_required field v errs = (if trim v = [] then errs @ [field @ lit '' must not be empty''] else errs)"

definition validate_scope_requirements :: "TaskPacket \<Rightarrow> ustr list \<Rightarrow> ustr list" where
  "validate_scope_requirements packet errs =
     (let needs_scope_path = scope packet \<in> {ScopeModule, ScopeSingleFile, ScopeCustom}
      in if needs_scope_path \<and> (case scope_path packet of None \<Rightarrow> True | Some p \<Rightarrow> trim p = [])
         then errs @ [lit ''scope_path is required for scope '' @ [39] @ TaskScope_display (scope packet) @ [39]]
         else errs)"

fun validate_tests :: "nat \<Rightarrow> ustr list \<Rightarrow> ustr list \<Rightarrow> ustr list" where
  "validate_tests index [] errs = errs"
| "validate_tests index (test # tests) errs =
     validate_tests (index + 1) tests
       (if trim test = []
        then errs @ [lit ''acceptance_tests contains an empty value at index '' @ show_nat index] else errs)"

definition validate_packet :: "TaskPacket \<Rightarrow> TaskPacketValidationError + TaskPacket" where
  "validate_packet packet =
     (let errs = validate_required (lit ''objective'') (objective packet) [];
          errs = validate_required (lit ''repo'') (repo packet) errs;
          errs = validate_required (lit ''branch_policy'') (branch_policy packet) errs;
          errs = validate_required (lit ''commit_policy'') (commit_policy packet) errs;
          errs = validate_required (lit ''reporting_contract'') (reporting_contract packet) errs;
          errs = validate_required (lit ''escalation_policy'') (escalation_policy packet) errs;
          errs = validate_scope_requirements packet errs;
          errs = validate_tests 0 (acceptance_tests packet) errs
      in if errs = [] then Inr packet else Inl errs)"

section \<open>The registry\<close>

datatype TaskStatus = TaskCreated | TaskRunning | TaskCompleted | TaskFailed | TaskStopped

fun TaskStatus_display :: "TaskStatus \<Rightarrow> ustr" where
  "TaskStatus_display TaskCreated = lit ''created''"
| "TaskStatus_display TaskRunning = lit ''running''"
| "TaskStatus_display TaskCompleted = lit ''completed''"
| "TaskStatus_display TaskFailed = lit ''failed''"
| "TaskStatus_display TaskStopped = lit ''stopped''"

record TaskMessage =
  tm_role :: ustr
  tm_content :: ustr
  tm_timestamp :: u64

record Task =
  task_id :: ustr
  prompt :: ustr
  description :: "ustr option"
  task_packet :: "TaskPacket option"
  task_status :: TaskStatus
  task_created_at :: u64
  task_updated_at :: u64
  task_messages :: "TaskMessage list"
  task_output :: ustr
  team_id :: "ustr option"

record RegistryInner =
  tasks :: "(ustr, Task) hash_map"
  task_counter :: u64

definition TaskRegistry_new :: RegistryInner where
  "TaskRegistry_new = \<lparr>tasks = [], task_counter = 0\<rparr>"

definition create_task ::
  "u64 \<Rightarrow> ustr \<Rightarrow> ustr option \<Rightarrow> TaskPacket option \<Rightarrow> RegistryInner \<Rightarrow> Task \<times> RegistryInner" where
  "create_task ts prom descr packet inner =
     (let counter = task_counter inner + 1;
          tid = entry_id (lit ''task'') ts counter;
          task = \<lparr>task_id = tid, prompt = prom, description = descr, task_packet = packet,
                  task_status = TaskCreated, task_created_at = ts, task_updated_at = ts,
                  task_messages = [], task_output = [], team_id = None\<rparr>
      in (task, inner\<lparr>task_counter := counter, tasks := hm_insert tid task (tasks inner)\<rparr>))"

definition TaskRegistry_create :: "u64 \<Rightarrow> ustr \<Rightarrow> ustr option \<Rightarrow> RegistryInner \<Rightarrow> Task \<times> RegistryInner" where
  "TaskRegistry_create ts prom descr inner = create_task ts prom descr None inner"

definition create_from_packet ::
  "u64 \<Rightarrow> TaskPacket \<Rightarrow> RegistryInner \<Rightarrow> (TaskPacketValidationError + Task) \<times> RegistryInner" where
  "create_from_packet ts packet inner =
     (case validate_packet packet of
        Inl e \<Rightarrow> (Inl e, inner)
      | Inr packet \<Rightarrow>
          let descr = (case scope_path packet of Some p \<Rightarrow> Some p | None \<Rightarrow> Some (TaskScope_display (scope packet)));
              (task, inner) = create_task ts (objective packet) descr (Some packet) inner
          in (Inr task, inner))"

definition TaskRegistry_get :: "ustr \<Rightarrow> RegistryInner \<Rightarrow> Task option" where
  "TaskRegistry_get tid inner = hm_get (tasks inner) tid"

definition TaskRegistry_list :: "TaskStatus option \<Rightarrow> RegistryInner \<Rightarrow> Task list" where
  "TaskRegistry_list status_filter inner =
     filter (\<lambda>t. case status_filter of None \<Rightarrow> True | Some s \<Rightarrow> task_status t = s) (hm_values (tasks inner))"

definition task_not_found :: "ustr \<Rightarrow> ustr" where
  "task_not_found tid = lit ''task not found: '' @ tid"

definition terminal :: "TaskStatus \<Rightarrow> bool" where
  "terminal s \<longleftrightarrow> s \<in> {TaskCompleted, TaskFailed, TaskStopped}"

definition TaskRegistry_stop :: "u64 \<Rightarrow> ustr \<Rightarrow> RegistryInner \<Rightarrow> (ustr + Task) \<times> RegistryInner" where
  "TaskRegistry_stop now tid inner =
     (case hm_get (tasks inner) tid of
        None \<Rightarrow> (Inl (task_not_found tid), inner)
      | Some task \<Rightarrow>
          if terminal (task_status task)
          then (Inl (lit ''task '' @ tid @ lit '' is already in terminal state: ''
                  @ TaskStatus_display (task_status task)), inner)
          else let task = task\<lparr>task_status := TaskStopped, task_updated_at := now\<rparr>
               in (Inr task, inner\<lparr>tasks := hm_insert tid task (tasks inner)\<rparr>))"

text \<open>The operations that look a task up, change it and put it back.\<close>

definition modify_task :: "ustr \<Rightarrow> (Task \<Rightarrow> Task) \<Rightarrow> RegistryInner \<Rightarrow> (ustr + Task) \<times> RegistryInner" where
  "modify_task tid f inner =
     (case hm_get (tasks inner) tid of
        None \<Rightarrow> (Inl (task_not_found tid), inner)
      | Some task \<Rightarrow> (Inr (f task), inner\<lparr>tasks := hm_insert tid (f task) (tasks inner)\<rparr>))"

definition TaskRegistry_update :: "u64 \<Rightarrow> u64 \<Rightarrow> ustr \<Rightarrow> ustr \<Rightarrow> RegistryInner \<Rightarrow> (ustr + Task) \<times> RegistryInner" where
  "TaskRegistry_update now now' tid message inner =
     modify_task tid
       (\<lambda>task. task\<lparr>task_messages := task_messages task
            @ [\<lparr>tm_role = lit ''user'', tm_content = message, tm_timestamp = now\<rparr>],
          task_updated_at := now'\<rparr>) inner"

definition TaskRegistry_output :: "ustr \<Rightarrow> RegistryInner \<Rightarrow> ustr + ustr" where
  "TaskRegistry_output tid inner =
     (case hm_get (tasks inner) tid of None \<Rightarrow> Inl (task_not_found tid) | Some task \<Rightarrow> Inr (task_output task))"

definition discard :: "('e + 'a) \<times> 's \<Rightarrow> ('e + unit) \<times> 's" where
  "discard r = (case r of (Inl e, s) \<Rightarrow> (Inl e, s) | (Inr _, s) \<Rightarrow> (Inr (), s))"

definition append_output :: "u64 \<Rightarrow> ustr \<Rightarrow> ustr \<Rightarrow> RegistryInner \<Rightarrow> (ustr + unit) \<times> RegistryInner" where
  "append_output now tid outp inner =
     discard (modify_task tid (\<lambda>task. task\<lparr>task_output := task_output task @ outp, task_updated_at := now\<rparr>) inner)"

definition set_status :: "u64 \<Rightarrow> ustr \<Rightarrow> TaskStatus \<Rightarrow> RegistryInner \<Rightarrow> (ustr + unit) \<times> RegistryInner" where
  "set_status now tid status inner =
     discard (modify_task tid (\<lambda>task. task\<lparr>task_status := status, task_updated_at := now\<rparr>) inner)"

definition assign_team :: "u64 \<Rightarrow> ustr \<Rightarrow> ustr \<Rightarrow> RegistryInner \<Rightarrow> (ustr + unit) \<times> RegistryInner" where
  "assign_team now tid team inner =
     discard (modify_task tid (\<lambda>task. task\<lparr>team_id := Some team, task_updated_at := now\<rparr>) inner)"

definition TaskRegistry_remove :: "ustr \<Rightarrow> RegistryInner \<Rightarrow> Task option \<times> RegistryInner" where
  "TaskRegistry_remove tid inner =
     (hm_get (tasks inner) tid, inner\<lparr>tasks := hm_remove tid (tasks inner)\<rparr>)"

definition TaskRegistry_len :: "RegistryInner \<Rightarrow> nat" where
  "TaskRegistry_len inner = length (tasks inner)"

definition TaskRegistry_is_empty :: "RegistryInner \<Rightarrow> bool" where
  "TaskRegistry_is_empty inner \<longleftrightarrow> TaskRegistry_len inner = 0"

text \<open>One operation of a client, with the readings of the clock.\<close>

datatype task_op =
    OpCreate u64 ustr "ustr option"
  | OpCreateFromPacket u64 TaskPacket
  | OpStop u64 ustr
  | OpUpdate u64 u64 ustr ustr
  | OpAppendOutput u64 ustr ustr
  | OpSetStatus u64 ustr TaskStatus
  | OpAssignTeam u64 ustr ustr
  | OpRemove ustr

fun task_step :: "task_op \<Rightarrow> RegistryInner \<Rightarrow> RegistryInner" where
  "task_step (OpCreate ts p d) inner = snd (TaskRegistry_create ts p d inner)"
| "task_step (OpCreateFromPacket ts packet) inner = snd (create_from_packet ts packet inner)"
| "task_step (OpStop now tid) inner = snd (TaskRegistry_stop now tid inner)"
| "task_step (OpUpdate now now' tid m) inner = snd (TaskRegistry_update now now' tid m inner)"
| "task_step (OpAppendOutput now tid out) inner = snd (append_output now tid out inner)"
| "task_step (OpSetStatus now tid s) inner = snd (set_status now tid s inner)"
| "task_step (OpAssignTeam now tid t) inner = snd (assign_team now tid t inner)"
| "task_step (OpRemove tid) inner = snd (TaskRegistry_remove tid inner)"

subsection \<open>Specification: a single task\<close>

fun task_target :: "task_op \<Rightarrow> ustr option" where
  "task_target (OpStop now tid) = Some tid"
| "task_target (OpUpdate now now' tid m) = Some tid"
| "task_target (OpAppendOutput now tid out) = Some tid"
| "task_target (OpSetStatus now tid s) = Some tid"
| "task_target (OpAssignTeam now tid t) = Some tid"
| "task_target (OpRemove tid) = Some tid"
| "task_target _ = None"

fun task_effect :: "task_op \<Rightarrow> Task option \<Rightarrow> Task option" where
  "task_effect (OpStop now tid) =
     map_option (\<lambda>t. if terminal (task_status t) then t else t\<lparr>task_status := TaskStopped, task_updated_at := now\<rparr>)"
| "task_effect (OpUpdate now now' tid m) =
     map_option (\<lambda>t. t\<lparr>task_messages := task_messages t
       @ [\<lparr>tm_role = lit ''user'', tm_content = m, tm_timestamp = now\<rparr>], task_updated_at := now'\<rparr>)"
| "task_effect (OpAppendOutput now tid out) =
     map_option (\<lambda>t. t\<lparr>task_output := task_output t @ out, task_updated_at := now\<rparr>)"
| "task_effect (OpSetStatus now tid s) = map_option (\<lambda>t. t\<lparr>task_status := s, task_updated_at := now\<rparr>)"
| "task_effect (OpAssignTeam now tid team) = map_option (\<lambda>t. t\<lparr>team_id := Some team, task_updated_at := now\<rparr>)"
| "task_effect (OpRemove tid) = (\<lambda>_. None)"
| "task_effect _ = id"

definition task_room :: "RegistryInner \<Rightarrow> nat" where
  "task_room inner = 2 ^ 64 - 1 - unat (task_counter inner)"

definition task_issued :: "RegistryInner \<Rightarrow> ustr \<Rightarrow> bool" where
  "task_issued inner k \<longleftrightarrow> issued_id (lit ''task'') (task_counter inner) k"

section \<open>Validation of packets\<close>

lemma validate_required_Nil: "validate_required f v errs = [] \<longleftrightarrow> errs = [] \<and> trim v \<noteq> []"
  by (simp add: validate_required_def)

lemma validate_tests_Nil: "validate_tests i ts errs = [] \<longleftrightarrow> errs = [] \<and> (\<forall>t \<in> set ts. trim t \<noteq> [])"
  by (induction i ts errs rule: validate_tests.induct) auto

lemma validate_scope_Nil:
  "validate_scope_requirements p errs = [] \<longleftrightarrow>
     errs = [] \<and> (scope p \<noteq> ScopeWorkspace \<longrightarrow> (\<exists>q. scope_path p = Some q \<and> trim q \<noteq> []))"
  by (cases "scope p") (auto simp: validate_scope_requirements_def split: option.splits)

text \<open>A packet is accepted, unchanged, exactly if no required text is blank, a scope other than the
  workspace comes with a path that is not blank, and no acceptance test is blank.\<close>

lemma validate_packet_iff:
  "validate_packet p = Inr p' \<longleftrightarrow> p' = p
     \<and> list_all (\<lambda>v. trim v \<noteq> [])
         [objective p, repo p, branch_policy p, commit_policy p, reporting_contract p, escalation_policy p]
     \<and> (scope p \<noteq> ScopeWorkspace \<longrightarrow> (\<exists>q. scope_path p = Some q \<and> trim q \<noteq> []))
     \<and> (\<forall>t \<in> set (acceptance_tests p). trim t \<noteq> [])"
  by (auto simp: validate_packet_def Let_def validate_required_Nil validate_tests_Nil validate_scope_Nil)

section \<open>Tasks are independent objects\<close>

lemma discard_snd [simp]: "snd (discard r) = snd r"
  by (simp add: discard_def split: prod.split sum.split)

lemma get_modify_task:
  "hm_get (tasks (snd (modify_task tid f s))) k = (if k = tid then map_option f (hm_get (tasks s) tid) else hm_get (tasks s) k)"
  by (simp add: modify_task_def split: option.split)

lemma modify_task_counter: "task_counter (snd (modify_task tid f s)) = task_counter s"
  by (simp add: modify_task_def split: option.split)

lemmas task_op_defs = TaskRegistry_update_def append_output_def set_status_def assign_team_def
  TaskRegistry_remove_def TaskRegistry_get_def

lemma task_step_target:
  "task_target op = Some k \<Longrightarrow> TaskRegistry_get k' (task_step op s)
     = (if k' = k then task_effect op (TaskRegistry_get k s) else TaskRegistry_get k' s)"
  by (cases op) (auto simp: task_op_defs get_modify_task TaskRegistry_stop_def Let_def split: option.split)

lemma task_step_counter: "task_target op = Some k \<Longrightarrow> task_counter (task_step op s) = task_counter s"
  by (cases op) (auto simp: task_op_defs modify_task_counter TaskRegistry_stop_def Let_def split: option.split)

lemma task_step_new:
  assumes "task_target op = None"
  obtains "task_step op s = s"
  | ts task where "task_step op s = s\<lparr>task_counter := task_counter s + 1,
      tasks := hm_insert (entry_id (lit ''task'') ts (task_counter s + 1)) task (tasks s)\<rparr>"
    "task_id task = entry_id (lit ''task'') ts (task_counter s + 1)"
proof (cases op)
  case (OpCreate ts p d)
  then show thesis using that(2) by (simp add: TaskRegistry_create_def create_task_def Let_def)
next
  case (OpCreateFromPacket ts packet)
  then show thesis using that
    by (cases "validate_packet packet") (simp_all add: create_from_packet_def create_task_def Let_def)
qed (use assms in simp_all)

interpretation task: keyed_registry "\<lambda>s k. TaskRegistry_get k s" task_step task_target task_effect task_issued task_room
proof
  fix op k s k'
  assume "task_target op = Some k"
  then show "TaskRegistry_get k' (task_step op s)
      = (if k' = k then task_effect op (TaskRegistry_get k s) else TaskRegistry_get k' s)"
    and "task_room (task_step op s) = task_room s" and "task_issued (task_step op s) = task_issued s"
    by (simp_all add: task_step_target task_room_def task_issued_def [abs_def] task_step_counter)
next
  fix op s k
  assume new: "task_target op = None" and "0 < task_room s" and i: "task_issued s k"
  then have n: "unat (task_counter s) < 2 ^ 64 - 1" by (simp add: task_room_def)
  note less = word_less_inc [OF n]
  from new show "TaskRegistry_get k (task_step op s) = TaskRegistry_get k s"
  proof (rule task_step_new)
    fix ts t
    assume s': "task_step op s = s\<lparr>task_counter := task_counter s + 1,
      tasks := hm_insert (entry_id (lit ''task'') ts (task_counter s + 1)) t (tasks s)\<rparr>"
    have "k \<noteq> entry_id (lit ''task'') ts (task_counter s + 1)"
      using i not_issued_next [OF less] by (auto simp: task_issued_def)
    then show ?thesis by (simp add: s' TaskRegistry_get_def)
  qed simp
  from new show "task_issued (task_step op s) k"
    by (rule task_step_new [where s = s])
      (use i issued_mono [OF _ less_imp_le [OF less]] in \<open>simp_all add: task_issued_def\<close>)
next
  fix op s
  assume "task_target op = None"
  then show "task_room s \<le> task_room (task_step op s) + 1"
    by (rule task_step_new [where s = s]) (simp_all add: task_room_def unat_word_ariths)
qed

section \<open>The invariant\<close>

text \<open>Keys are distinct and were given out by this registry, and a task is stored under its own identifier.\<close>

definition registry_inv :: "RegistryInner \<Rightarrow> bool" where
  "registry_inv s \<longleftrightarrow> hm_wf (tasks s)
     \<and> (\<forall>k t. hm_get (tasks s) k = Some t \<longrightarrow> task_id t = k \<and> task_issued s k)"

lemma registry_inv_new: "registry_inv TaskRegistry_new"
  by (simp add: registry_inv_def TaskRegistry_new_def)

lemma task_effect_id: "task_effect op e = Some t \<Longrightarrow> \<exists>t0. e = Some t0 \<and> task_id t = task_id t0"
  by (cases op; cases e) (auto split: if_splits)

lemma task_step_wf: "hm_wf (tasks s) \<Longrightarrow> hm_wf (tasks (task_step op s))"
  by (cases op)
    (auto simp: task_op_defs modify_task_def TaskRegistry_stop_def TaskRegistry_create_def create_from_packet_def
      create_task_def Let_def split: option.split sum.split)

lemma task_step_inv:
  assumes inv: "registry_inv s" and room: "task_target op = None \<Longrightarrow> 0 < task_room s"
  shows "registry_inv (task_step op s)"
proof (cases "task_target op")
  case None
  with room have "unat (task_counter s) < 2 ^ 64 - 1" by (simp add: task_room_def)
  note less = less_imp_le [OF word_less_inc [OF this]]
  from None show ?thesis
    by (rule task_step_new [where s = s])
      (use inv issued_mono [OF _ less] issued_new in \<open>auto simp: registry_inv_def task_issued_def split: if_splits\<close>)
next
  case (Some k)
  have "task_id t = k' \<and> task_issued (task_step op s) k'" if "TaskRegistry_get k' (task_step op s) = Some t" for k' t
  proof -
    from that obtain t0 where "TaskRegistry_get k' s = Some t0" "task_id t = task_id t0"
      using task_effect_id [of op "TaskRegistry_get k s" t]
      by (cases "k' = k") (auto simp: task_step_target [OF Some])
    with inv show ?thesis
      by (simp add: registry_inv_def TaskRegistry_get_def task_issued_def task_step_counter [OF Some])
  qed
  with task_step_wf inv show ?thesis by (simp add: registry_inv_def TaskRegistry_get_def)
qed

lemma task_run_inv:
  "registry_inv s \<Longrightarrow> task.creations ops \<le> task_room s \<Longrightarrow> registry_inv (fold task_step ops s)"
proof (induction ops arbitrary: s)
  case (Cons op ops)
  show ?case
  proof (cases "task_target op")
    case None
    with Cons.prems task.new_room [OF None, of s] have "0 < task_room s" "task.creations ops \<le> task_room (task_step op s)"
      by (simp_all add: task.creations_def)
    with Cons show ?thesis by (simp add: task_step_inv)
  next
    case (Some k)
    with Cons.prems have "task.creations ops \<le> task_room (task_step op s)"
      by (simp add: task.creations_def task.step_room)
    moreover have "registry_inv (task_step op s)" 
      by (rule task_step_inv [OF Cons.prems(1)]) (simp add: Some)
    ultimately show ?thesis using Cons.IH by simp
  qed
qed simp

section \<open>Properties\<close>

definition sample_registry :: RegistryInner where
  "sample_registry = task_step (OpCreate 5 (lit ''a'') None) TaskRegistry_new"

definition sample_task :: Task where
  "sample_task = fst (TaskRegistry_create 5 (lit ''a'') None TaskRegistry_new)"

lemma sample_registry_facts:
  "registry_inv sample_registry" "TaskRegistry_get (task_id sample_task) sample_registry = Some sample_task"
  "task_room sample_registry = 2 ^ 64 - 2" "task_status sample_task = TaskCreated"
proof -
  show "registry_inv sample_registry"
    unfolding sample_registry_def by (rule task_step_inv [OF registry_inv_new]) (simp add: task_room_def TaskRegistry_new_def)
qed (simp_all add: sample_registry_def sample_task_def TaskRegistry_create_def create_task_def Let_def
    TaskRegistry_get_def TaskRegistry_new_def task_room_def)

text \<open>In every registry that grew from an empty one by fewer than \<open>2^64\<close> creations, each task is stored
  under its own identifier, no identifier occurs twice, and creating a task uses an identifier that
  no task has, so it adds an entry and replaces none.\<close>

theorem created_tasks_are_fresh:
  assumes "length (filter (\<lambda>op. task_target op = None) ops) < 2 ^ 64 - 1"
  shows "let s = fold task_step ops TaskRegistry_new; (t, s') = create_task ts p d packet s
    in (\<forall>k u. TaskRegistry_get k s = Some u \<longrightarrow> task_id u = k)
      \<and> TaskRegistry_get (task_id t) s = None \<and> TaskRegistry_len s' = TaskRegistry_len s + 1"
proof -
  let ?s = "fold task_step ops TaskRegistry_new"
  let ?id = "entry_id (lit ''task'') ts (task_counter ?s + 1)"
  have room: "task_room TaskRegistry_new = 2 ^ 64 - 1" by (simp add: task_room_def TaskRegistry_new_def)
  have inv: "registry_inv ?s"
    by (rule task_run_inv [OF registry_inv_new]) (use assms room in \<open>simp add: task.creations_def\<close>)
  have "0 < task_room ?s" using task.run_room [of TaskRegistry_new ops] assms room by (simp add: task.creations_def)
  then have "unat (task_counter ?s) < 2 ^ 64 - 1" by (simp add: task_room_def)
  from not_issued_next [OF word_less_inc [OF this]] inv have fresh: "TaskRegistry_get ?id ?s = None"
    by (cases "TaskRegistry_get ?id ?s") (auto simp: registry_inv_def task_issued_def TaskRegistry_get_def)
  then have "length (hm_insert ?id t (tasks ?s)) = length (tasks ?s) + 1" for t
    by (simp add: TaskRegistry_get_def hm_insert_length)
  with fresh inv show ?thesis
    by (simp add: create_task_def Let_def registry_inv_def TaskRegistry_get_def TaskRegistry_len_def)
qed

theorem created_tasks_are_fresh_witness:
  "TaskRegistry_get (entry_id (lit ''task'') 5 2) sample_registry = None"
  using created_tasks_are_fresh [of "[OpCreate 5 (lit ''a'') None]" 5 "[]" None None]
  by (simp add: sample_registry_def create_task_def Let_def TaskRegistry_create_def TaskRegistry_new_def)

text \<open>C38: the registry refines a collection of independent tasks: whatever operations clients interleave,
  the task under an identifier is what the operations that name it, in their order, make of it one
  by one.\<close>

theorem tasks_are_independent:
  assumes "registry_inv s" and "TaskRegistry_get k s = Some t"
    and "length (filter (\<lambda>op. task_target op = None) ops) \<le> task_room s"
  shows "TaskRegistry_get k (fold task_step ops s) =
     fold task_effect (filter (\<lambda>op. task_target op = Some k) ops) (Some t)"
  using task.run_entry [of s k ops] assms
  by (simp add: task.creations_def registry_inv_def TaskRegistry_get_def)

theorem tasks_are_independent_witness:
  "TaskRegistry_get (task_id sample_task) (fold task_step [OpCreate 6 [] None, OpAppendOutput 7 (task_id sample_task) (lit ''x''),
     OpRemove (lit ''other'')] sample_registry) = Some (sample_task\<lparr>task_output := lit ''x'', task_updated_at := 7\<rparr>)"
proof -
  have "task_id sample_task \<noteq> lit ''other''"
    by (simp add: sample_task_def TaskRegistry_create_def create_task_def Let_def entry_id_def lit_def)
  then show ?thesis
    using sample_registry_facts tasks_are_independent [OF sample_registry_facts(1,2), of
        "[OpCreate 6 [] None, OpAppendOutput 7 (task_id sample_task) (lit ''x''), OpRemove (lit ''other'')]"]
    by (simp add: sample_task_def TaskRegistry_create_def create_task_def Let_def)
qed

text \<open>A task that is completed, failed or stopped keeps its status, and cannot be stopped again, until
  an operation sets its status or removes it.\<close>

theorem terminal_task_stays:
  assumes "registry_inv s" and "TaskRegistry_get k s = Some t" and "terminal (task_status t)"
    and "length (filter (\<lambda>op. task_target op = None) ops) \<le> task_room s"
    and "OpRemove k \<notin> set ops" and "\<forall>now st. OpSetStatus now k st \<notin> set ops"
  shows "\<exists>t'. TaskRegistry_get k (fold task_step ops s) = Some t' \<and> task_status t' = task_status t
     \<and> fst (TaskRegistry_stop now k (fold task_step ops s)) =
         Inl (lit ''task '' @ k @ lit '' is already in terminal state: '' @ TaskStatus_display (task_status t))"
proof -
  have "\<exists>t'. fold task_effect ops' (Some t) = Some t' \<and> task_status t' = task_status t"
    if "set ops' \<subseteq> {op \<in> set ops. task_target op = Some k}" for ops'
    using that assms(3)
  proof (induction ops' arbitrary: t)
    case (Cons op ops')
    with assms(5,6) obtain t' where t': "task_effect op (Some t) = Some t'" "task_status t' = task_status t"
      by (cases op) auto
    with Cons.IH [of t'] Cons.prems show ?case by simp
  qed simp
  from this [of "filter (\<lambda>op. task_target op = Some k) ops"] obtain t' where
    "fold task_effect (filter (\<lambda>op. task_target op = Some k) ops) (Some t) = Some t'" "task_status t' = task_status t"
    by auto
  then have "TaskRegistry_get k (fold task_step ops s) = Some t'" "task_status t' = task_status t"
    using task.run_entry [of s k ops] assms by (simp_all add: task.creations_def registry_inv_def TaskRegistry_get_def)
  with assms(3) show ?thesis by (simp add: TaskRegistry_stop_def TaskRegistry_get_def)
qed

theorem terminal_task_stays_witness:
  "\<exists>t'. TaskRegistry_get (task_id sample_task) (fold task_step [OpAppendOutput 9 (task_id sample_task) []]
     (task_step (OpStop 8 (task_id sample_task)) sample_registry)) = Some t' \<and> task_status t' = TaskStopped"
proof -
  let ?s = "task_step (OpStop 8 (task_id sample_task)) sample_registry"
  let ?t = "sample_task\<lparr>task_status := TaskStopped, task_updated_at := 8\<rparr>"
  have "registry_inv ?s" by (rule task_step_inv [OF sample_registry_facts(1)]) simp
  moreover have "TaskRegistry_get (task_id sample_task) ?s = Some ?t"
    by (subst task_step_target [where k = "task_id sample_task"]) (simp_all add: sample_registry_facts terminal_def)
  ultimately show ?thesis
    using terminal_task_stays [of ?s "task_id sample_task" ?t "[OpAppendOutput 9 (task_id sample_task) []]"]
    by (auto simp: terminal_def)
qed

end
