(* ===== verification/Team_Cron_Registry.thy ===== *)
theory Team_Cron_Registry
  imports Registry_Spec
begin

text \<open>
  The registries of teams and of scheduled prompts (\<^verbatim>\<open>team_cron_registry.rs\<close>). As in the task registry
  every operation is one atomic step and the readings of the clock are arguments.
  Both satisfy the contract \<open>keyed_registry\<close>. Deleting a team keeps it with the status
  \<open>TeamDeleted\<close>; a cron entry counts exactly the runs recorded for it, modulo \<open>2^64\<close>.
\<close>

section \<open>Teams\<close>

datatype TeamStatus = TeamCreated | TeamRunning | TeamCompleted | TeamDeleted

fun TeamStatus_display :: "TeamStatus \<Rightarrow> ustr" where
  "TeamStatus_display TeamCreated = lit ''created''"
| "TeamStatus_display TeamRunning = lit ''running''"
| "TeamStatus_display TeamCompleted = lit ''completed''"
| "TeamStatus_display TeamDeleted = lit ''deleted''"

record Team =
  tm_team_id :: ustr
  team_name :: ustr
  task_ids :: "ustr list"
  team_status :: TeamStatus
  team_created_at :: u64
  team_updated_at :: u64

record TeamInner =
  teams :: "(ustr, Team) hash_map"
  team_counter :: u64

definition TeamRegistry_new :: TeamInner where
  "TeamRegistry_new = \<lparr>teams = [], team_counter = 0\<rparr>"

definition TeamRegistry_create :: "u64 \<Rightarrow> ustr \<Rightarrow> ustr list \<Rightarrow> TeamInner \<Rightarrow> Team \<times> TeamInner" where
  "TeamRegistry_create ts nam ids inner =
     (let counter = team_counter inner + 1;
          tid = entry_id (lit ''team'') ts counter;
          team = \<lparr>tm_team_id = tid, team_name = nam, task_ids = ids, team_status = TeamCreated,
                  team_created_at = ts, team_updated_at = ts\<rparr>
      in (team, inner\<lparr>team_counter := counter, teams := hm_insert tid team (teams inner)\<rparr>))"

definition TeamRegistry_get :: "ustr \<Rightarrow> TeamInner \<Rightarrow> Team option" where
  "TeamRegistry_get tid inner = hm_get (teams inner) tid"

definition TeamRegistry_list :: "TeamInner \<Rightarrow> Team list" where
  "TeamRegistry_list inner = hm_values (teams inner)"

definition TeamRegistry_delete :: "u64 \<Rightarrow> ustr \<Rightarrow> TeamInner \<Rightarrow> (ustr + Team) \<times> TeamInner" where
  "TeamRegistry_delete now tid inner =
     (case hm_get (teams inner) tid of
        None \<Rightarrow> (Inl (lit ''team not found: '' @ tid), inner)
      | Some team \<Rightarrow>
          let team = team\<lparr>team_status := TeamDeleted, team_updated_at := now\<rparr>
          in (Inr team, inner\<lparr>teams := hm_insert tid team (teams inner)\<rparr>))"

definition TeamRegistry_remove :: "ustr \<Rightarrow> TeamInner \<Rightarrow> Team option \<times> TeamInner" where
  "TeamRegistry_remove tid inner =
     (hm_get (teams inner) tid, inner\<lparr>teams := hm_remove tid (teams inner)\<rparr>)"

definition TeamRegistry_len :: "TeamInner \<Rightarrow> nat" where
  "TeamRegistry_len inner = length (teams inner)"

definition TeamRegistry_is_empty :: "TeamInner \<Rightarrow> bool" where
  "TeamRegistry_is_empty inner \<longleftrightarrow> TeamRegistry_len inner = 0"

datatype team_op = TeamOpCreate u64 ustr "ustr list" | TeamOpDelete u64 ustr | TeamOpRemove ustr

fun team_step :: "team_op \<Rightarrow> TeamInner \<Rightarrow> TeamInner" where
  "team_step (TeamOpCreate ts n ids) inner = snd (TeamRegistry_create ts n ids inner)"
| "team_step (TeamOpDelete now tid) inner = snd (TeamRegistry_delete now tid inner)"
| "team_step (TeamOpRemove tid) inner = snd (TeamRegistry_remove tid inner)"

fun team_target :: "team_op \<Rightarrow> ustr option" where
  "team_target (TeamOpCreate ts n ids) = None"
| "team_target (TeamOpDelete now tid) = Some tid"
| "team_target (TeamOpRemove tid) = Some tid"

fun team_effect :: "team_op \<Rightarrow> Team option \<Rightarrow> Team option" where
  "team_effect (TeamOpCreate ts n ids) = id"
| "team_effect (TeamOpDelete now tid) = map_option (\<lambda>t. t\<lparr>team_status := TeamDeleted, team_updated_at := now\<rparr>)"
| "team_effect (TeamOpRemove tid) = (\<lambda>_. None)"

section \<open>Scheduled prompts\<close>

record CronEntry =
  cron_id :: ustr
  schedule :: ustr
  cron_prompt :: ustr
  cron_description :: "ustr option"
  enabled :: bool
  cron_created_at :: u64
  cron_updated_at :: u64
  last_run_at :: "u64 option"
  run_count :: u64

record CronInner =
  entries :: "(ustr, CronEntry) hash_map"
  cron_counter :: u64

definition CronRegistry_new :: CronInner where
  "CronRegistry_new = \<lparr>entries = [], cron_counter = 0\<rparr>"

definition CronRegistry_create ::
  "u64 \<Rightarrow> ustr \<Rightarrow> ustr \<Rightarrow> ustr option \<Rightarrow> CronInner \<Rightarrow> CronEntry \<times> CronInner" where
  "CronRegistry_create ts sched prom descr inner =
     (let counter = cron_counter inner + 1;
          cid = entry_id (lit ''cron'') ts counter;
          e = \<lparr>cron_id = cid, schedule = sched, cron_prompt = prom, cron_description = descr,
               enabled = True, cron_created_at = ts, cron_updated_at = ts, last_run_at = None, run_count = 0\<rparr>
      in (e, inner\<lparr>cron_counter := counter, entries := hm_insert cid e (entries inner)\<rparr>))"

definition CronRegistry_get :: "ustr \<Rightarrow> CronInner \<Rightarrow> CronEntry option" where
  "CronRegistry_get cid inner = hm_get (entries inner) cid"

definition CronRegistry_list :: "bool \<Rightarrow> CronInner \<Rightarrow> CronEntry list" where
  "CronRegistry_list enabled_only inner = filter (\<lambda>e. \<not> enabled_only \<or> enabled e) (hm_values (entries inner))"

definition cron_not_found :: "ustr \<Rightarrow> ustr" where
  "cron_not_found cid = lit ''cron not found: '' @ cid"

definition CronRegistry_delete :: "ustr \<Rightarrow> CronInner \<Rightarrow> (ustr + CronEntry) \<times> CronInner" where
  "CronRegistry_delete cid inner =
     (ok_or (cron_not_found cid) (hm_get (entries inner) cid), inner\<lparr>entries := hm_remove cid (entries inner)\<rparr>)"

definition modify_cron :: "ustr \<Rightarrow> (CronEntry \<Rightarrow> CronEntry) \<Rightarrow> CronInner \<Rightarrow> (ustr + unit) \<times> CronInner" where
  "modify_cron cid f inner =
     (case hm_get (entries inner) cid of
        None \<Rightarrow> (Inl (cron_not_found cid), inner)
      | Some e \<Rightarrow> (Inr (), inner\<lparr>entries := hm_insert cid (f e) (entries inner)\<rparr>))"

definition CronRegistry_disable :: "u64 \<Rightarrow> ustr \<Rightarrow> CronInner \<Rightarrow> (ustr + unit) \<times> CronInner" where
  "CronRegistry_disable now cid inner = modify_cron cid (\<lambda>e. e\<lparr>enabled := False, cron_updated_at := now\<rparr>) inner"

definition record_run :: "u64 \<Rightarrow> u64 \<Rightarrow> ustr \<Rightarrow> CronInner \<Rightarrow> (ustr + unit) \<times> CronInner" where
  "record_run now now' cid inner =
     modify_cron cid (\<lambda>e. e\<lparr>last_run_at := Some now, run_count := run_count e + 1, cron_updated_at := now'\<rparr>) inner"

definition CronRegistry_len :: "CronInner \<Rightarrow> nat" where
  "CronRegistry_len inner = length (entries inner)"

definition CronRegistry_is_empty :: "CronInner \<Rightarrow> bool" where
  "CronRegistry_is_empty inner \<longleftrightarrow> CronRegistry_len inner = 0"

datatype cron_op = CronOpCreate u64 ustr ustr "ustr option" | CronOpDelete ustr | CronOpDisable u64 ustr
  | CronOpRecordRun u64 u64 ustr

fun cron_step :: "cron_op \<Rightarrow> CronInner \<Rightarrow> CronInner" where
  "cron_step (CronOpCreate ts s p d) inner = snd (CronRegistry_create ts s p d inner)"
| "cron_step (CronOpDelete cid) inner = snd (CronRegistry_delete cid inner)"
| "cron_step (CronOpDisable now cid) inner = snd (CronRegistry_disable now cid inner)"
| "cron_step (CronOpRecordRun now now' cid) inner = snd (record_run now now' cid inner)"

fun cron_target :: "cron_op \<Rightarrow> ustr option" where
  "cron_target (CronOpCreate ts s p d) = None"
| "cron_target (CronOpDelete cid) = Some cid"
| "cron_target (CronOpDisable now cid) = Some cid"
| "cron_target (CronOpRecordRun now now' cid) = Some cid"

fun cron_effect :: "cron_op \<Rightarrow> CronEntry option \<Rightarrow> CronEntry option" where
  "cron_effect (CronOpCreate ts s p d) = id"
| "cron_effect (CronOpDelete cid) = (\<lambda>_. None)"
| "cron_effect (CronOpDisable now cid) = map_option (\<lambda>e. e\<lparr>enabled := False, cron_updated_at := now\<rparr>)"
| "cron_effect (CronOpRecordRun now now' cid) =
     map_option (\<lambda>e. e\<lparr>last_run_at := Some now, run_count := run_count e + 1, cron_updated_at := now'\<rparr>)"

fun is_run :: "cron_op \<Rightarrow> bool" where
  "is_run (CronOpRecordRun now now' cid) = True"
| "is_run _ = False"

section \<open>The contract\<close>

definition counter_room :: "u64 \<Rightarrow> nat" where
  "counter_room n = 2 ^ 64 - 1 - unat n"

lemma counter_room_inc: "counter_room n \<le> counter_room (n + 1) + 1"
  by (simp add: counter_room_def unat_word_ariths)

lemma counter_room_pos: "0 < counter_room n \<Longrightarrow> n < n + 1"
  by (rule word_less_inc) (simp add: counter_room_def)

lemma issued_not_next: "0 < counter_room n \<Longrightarrow> issued_id kind n k \<Longrightarrow> k \<noteq> entry_id kind ts (n + 1)"
  using not_issued_next [OF counter_room_pos] by metis

lemma issued_inc: "0 < counter_room n \<Longrightarrow> issued_id kind n k \<Longrightarrow> issued_id kind (n + 1) k"
  using issued_mono less_imp_le [OF counter_room_pos] by blast

interpretation team: keyed_registry "\<lambda>s k. TeamRegistry_get k s" team_step team_target team_effect
  "\<lambda>s. issued_id (lit ''team'') (team_counter s)" "\<lambda>s. counter_room (team_counter s)"
proof
  fix op k and s :: TeamInner and k'
  assume "team_target op = Some k"
  then show "TeamRegistry_get k' (team_step op s)
      = (if k' = k then team_effect op (TeamRegistry_get k s) else TeamRegistry_get k' s)"
    and "counter_room (team_counter (team_step op s)) = counter_room (team_counter s)"
    and "issued_id (lit ''team'') (team_counter (team_step op s)) = issued_id (lit ''team'') (team_counter s)"
    by (cases op; simp add: TeamRegistry_get_def TeamRegistry_delete_def TeamRegistry_remove_def Let_def split: option.split)+
next
  fix op and s :: TeamInner and k
  assume "team_target op = None" "0 < counter_room (team_counter s)" "issued_id (lit ''team'') (team_counter s) k"
  then show "TeamRegistry_get k (team_step op s) = TeamRegistry_get k s"
    and "issued_id (lit ''team'') (team_counter (team_step op s)) k"
    by (cases op; simp add: TeamRegistry_get_def TeamRegistry_create_def Let_def issued_not_next issued_inc)+
next
  fix op and s :: TeamInner
  assume "team_target op = None"
  then show "counter_room (team_counter s) \<le> counter_room (team_counter (team_step op s)) + 1"
    using counter_room_inc [of "team_counter s"] by (cases op) (simp_all add: TeamRegistry_create_def Let_def)
qed

interpretation cron: keyed_registry "\<lambda>s k. CronRegistry_get k s" cron_step cron_target cron_effect
  "\<lambda>s. issued_id (lit ''cron'') (cron_counter s)" "\<lambda>s. counter_room (cron_counter s)"
proof
  fix op k and s :: CronInner and k'
  assume "cron_target op = Some k"
  then show "CronRegistry_get k' (cron_step op s)
      = (if k' = k then cron_effect op (CronRegistry_get k s) else CronRegistry_get k' s)"
    and "counter_room (cron_counter (cron_step op s)) = counter_room (cron_counter s)"
    and "issued_id (lit ''cron'') (cron_counter (cron_step op s)) = issued_id (lit ''cron'') (cron_counter s)"
    by (cases op; simp add: CronRegistry_get_def CronRegistry_delete_def CronRegistry_disable_def record_run_def
        modify_cron_def split: option.split)+
next
  fix op and s :: CronInner and k
  assume "cron_target op = None" "0 < counter_room (cron_counter s)" "issued_id (lit ''cron'') (cron_counter s) k"
  then show "CronRegistry_get k (cron_step op s) = CronRegistry_get k s"
    and "issued_id (lit ''cron'') (cron_counter (cron_step op s)) k"
    by (cases op; simp add: CronRegistry_get_def CronRegistry_create_def Let_def issued_not_next issued_inc)+
next
  fix op and s :: CronInner
  assume "cron_target op = None"
  then show "counter_room (cron_counter s) \<le> counter_room (cron_counter (cron_step op s)) + 1"
    using counter_room_inc [of "cron_counter s"] by (cases op) (simp_all add: CronRegistry_create_def Let_def)
qed

section \<open>Properties\<close>

lemma run_count_effects:
  assumes "CronOpDelete k \<notin> set ops" "\<forall>op \<in> set ops. cron_target op = Some k"
  shows "\<exists>e'. fold cron_effect ops (Some e) = Some e' \<and> run_count e' = run_count e + of_nat (length (filter is_run ops))
    \<and> (enabled e' \<longleftrightarrow> enabled e \<and> (\<forall>op \<in> set ops. is_run op))"
  using assms
proof (induction ops arbitrary: e)
  case (Cons op ops)
  then show ?case
  proof (cases op)
    case (CronOpDisable now c)
    with Cons.IH [of "e\<lparr>enabled := False, cron_updated_at := now\<rparr>"] Cons.prems show ?thesis by auto
  next
    case (CronOpRecordRun now now' c)
    with Cons.IH [of "e\<lparr>last_run_at := Some now, run_count := run_count e + 1, cron_updated_at := now'\<rparr>"] Cons.prems
    show ?thesis by (auto simp: add.assoc)
  qed auto
qed simp

text \<open>While a cron entry is not deleted it counts exactly the runs recorded for it, modulo \<open>2^64\<close>, and
  it is enabled exactly if it was and nobody disabled it, whatever happens to other entries.\<close>

theorem cron_counts_its_runs:
  assumes "CronRegistry_get k s = Some e" and "issued_id (lit ''cron'') (cron_counter s) k"
    and "length (filter (\<lambda>op. cron_target op = None) ops) \<le> counter_room (cron_counter s)"
    and "CronOpDelete k \<notin> set ops"
  shows "\<exists>e'. CronRegistry_get k (fold cron_step ops s) = Some e'
     \<and> run_count e' = run_count e + of_nat (length (filter (\<lambda>op. cron_target op = Some k \<and> is_run op) ops))
     \<and> (enabled e' \<longleftrightarrow> enabled e \<and> list_all is_run (filter (\<lambda>op. cron_target op = Some k) ops))"
proof -
  let ?ops = "filter (\<lambda>op. cron_target op = Some k) ops"
  have get: "CronRegistry_get k (fold cron_step ops s) = fold cron_effect ?ops (Some e)"
    using cron.run_entry [of s k ops] assms(1-3) by (simp add: cron.creations_def)
  have runs: "filter (\<lambda>op. cron_target op = Some k \<and> is_run op) ops = filter is_run ?ops"
    by (simp add: conj_commute)
  have "CronOpDelete k \<notin> set ?ops" "\<forall>op \<in> set ?ops. cron_target op = Some k" using assms(4) by auto
  from run_count_effects [OF this, of e] show ?thesis unfolding get runs list_all_iff .
qed

theorem cron_counts_its_runs_witness:
  "let s = cron_step (CronOpCreate 5 (lit ''* * * * *'') (lit ''p'') None) CronRegistry_new; k = entry_id (lit ''cron'') 5 1
   in \<exists>e'. CronRegistry_get k (fold cron_step [CronOpRecordRun 6 6 k, CronOpCreate 7 [] [] None, CronOpRecordRun 8 8 k] s) = Some e'
     \<and> run_count e' = 2 \<and> enabled e'"
proof -
  let ?s = "cron_step (CronOpCreate 5 (lit ''* * * * *'') (lit ''p'') None) CronRegistry_new"
  let ?k = "entry_id (lit ''cron'') 5 1"
  let ?e = "fst (CronRegistry_create 5 (lit ''* * * * *'') (lit ''p'') None CronRegistry_new)"
  have "CronRegistry_get ?k ?s = Some ?e" "run_count ?e = 0" "enabled ?e" "cron_counter ?s = 1"
    by (simp_all add: CronRegistry_create_def CronRegistry_get_def CronRegistry_new_def Let_def)
  then show ?thesis
    using cron_counts_its_runs [of ?k ?s ?e "[CronOpRecordRun 6 6 ?k, CronOpCreate 7 [] [] None, CronOpRecordRun 8 8 ?k]"]
      issued_new [of "lit ''cron''" 1 5]
    by (simp add: Let_def counter_room_def del: fold.simps)
qed

text \<open>A deleted team stays in the registry until it is removed.\<close>

lemma deleted_team_stays:
  assumes "TeamRegistry_get k s = Some t" "team_status t = TeamDeleted" "issued_id (lit ''team'') (team_counter s) k"
    and "length (filter (\<lambda>op. team_target op = None) ops) \<le> counter_room (team_counter s)" "TeamOpRemove k \<notin> set ops"
  shows "\<exists>t'. TeamRegistry_get k (fold team_step ops s) = Some t' \<and> team_status t' = TeamDeleted"
proof -
  have "\<exists>t'. fold team_effect ops' (Some t) = Some t' \<and> team_status t' = TeamDeleted"
    if "set ops' \<subseteq> {op \<in> set ops. team_target op = Some k}" for ops'
    using that assms(2)
  proof (induction ops' arbitrary: t)
    case (Cons op ops')
    with assms(5) obtain t' where "team_effect op (Some t) = Some t'" "team_status t' = TeamDeleted"
      by (cases op) auto
    with Cons.IH [of t'] Cons.prems show ?case by simp
  qed simp
  from this [of "filter (\<lambda>op. team_target op = Some k) ops"] show ?thesis
    using team.run_entry [of s k ops] assms(1,3,4) by (auto simp: team.creations_def)
qed

end
