(* ===== verification/Trust_Resolver.thy ===== *)
theory Trust_Resolver
  imports Paths
begin

text \<open>
  Which directories are trusted without asking (\<^verbatim>\<open>trust_resolver.rs\<close>): allowlist entries with patterns,
  denied roots, the glob matcher with its backtracking, and the decision with its events.
  The file system is an argument: the resolution of paths and the test for a \<^verbatim>\<open>.git\<close> directory.
  The glob matcher, which works on indexes, decides the language of globs; a pattern that is an
  absolute directory means containment; a blank pattern matches every path; denied roots win.
\<close>

section \<open>Definitions\<close>

definition TRUST_PROMPT_CUES :: "ustr list" where
  "TRUST_PROMPT_CUES = map lit
     [''do you trust the files in this folder'', ''trust the files in this folder'', ''trust this folder'',
      ''allow and continue'', ''yes, proceed'']"

definition MANUAL_APPROVAL_CUES :: "ustr list" where
  "MANUAL_APPROVAL_CUES = map lit [''yes, i trust'', ''i trust this'', ''trusted manually'', ''approval granted'']"

datatype TrustPolicy = AutoTrust | RequireApproval | TrustDeny

datatype TrustResolution = ResolvedAutoAllowlisted | ResolvedManualApproval

datatype TrustEvent =
    TrustRequired (te_cwd: ustr) (te_repo: "ustr option") (te_worktree: "ustr option")
  | TrustResolved (te_cwd: ustr) (te_policy: TrustPolicy) (te_resolution: TrustResolution)
  | TrustDenied (te_cwd: ustr) (te_reason: ustr)

record TrustAllowlistEntry =
  pattern :: ustr
  worktree_pattern :: "ustr option"
  allow_description :: "ustr option"

definition TrustAllowlistEntry_new :: "ustr \<Rightarrow> TrustAllowlistEntry" where
  "TrustAllowlistEntry_new p = \<lparr>pattern = p, worktree_pattern = None, allow_description = None\<rparr>"

definition with_worktree_pattern :: "ustr \<Rightarrow> TrustAllowlistEntry \<Rightarrow> TrustAllowlistEntry" where
  "with_worktree_pattern p e = e\<lparr>worktree_pattern := Some p\<rparr>"

definition with_description :: "ustr \<Rightarrow> TrustAllowlistEntry \<Rightarrow> TrustAllowlistEntry" where
  "with_description d e = e\<lparr>allow_description := Some d\<rparr>"

record TrustConfig =
  allowlisted :: "TrustAllowlistEntry list"
  denied :: "ustr list"
  emit_events :: bool

definition TrustConfig_new :: TrustConfig where
  "TrustConfig_new = \<lparr>allowlisted = [], denied = [], emit_events = True\<rparr>"

definition with_allowlisted_entry :: "TrustAllowlistEntry \<Rightarrow> TrustConfig \<Rightarrow> TrustConfig" where
  "with_allowlisted_entry e c = c\<lparr>allowlisted := allowlisted c @ [e]\<rparr>"

definition with_allowlisted :: "ustr \<Rightarrow> TrustConfig \<Rightarrow> TrustConfig" where
  "with_allowlisted p c = c\<lparr>allowlisted := allowlisted c @ [TrustAllowlistEntry_new p]\<rparr>"

definition with_denied :: "ustr \<Rightarrow> TrustConfig \<Rightarrow> TrustConfig" where
  "with_denied p c = c\<lparr>denied := denied c @ [p]\<rparr>"

subsection \<open>Globs\<close>

text \<open>One round of the loop for each pattern character; a star tries every number of skipped characters.
  The indexes are those of the code.\<close>

function glob_match_recursive :: "ustr \<Rightarrow> ustr \<Rightarrow> nat \<Rightarrow> nat \<Rightarrow> bool" where
  "glob_match_recursive pat path p s =
     (if p < length pat
      then if pat ! p = uc CHR ''*''
           then p + 1 \<ge> length pat \<or> list_ex (\<lambda>skip. glob_match_recursive pat path (p + 1) (s + skip)) [0..<length path - s + 1]
           else if pat ! p = uc CHR ''?''
           then s < length path \<and> glob_match_recursive pat path (p + 1) (s + 1)
           else s < length path \<and> path ! s = pat ! p \<and> glob_match_recursive pat path (p + 1) (s + 1)
      else s \<ge> length path)"
  by pat_completeness auto
termination by (relation "measure (\<lambda>(pat, path, p, s). length pat - p)") auto

declare glob_match_recursive.simps [simp del]

definition glob_matches :: "ustr \<Rightarrow> ustr \<Rightarrow> bool" where
  "glob_matches pat path \<longleftrightarrow> glob_match_recursive pat path 0 0"

text \<open>The checks after the normalisation, in the order of the code; each may settle the question.\<close>

definition continues_dir :: "ustr \<Rightarrow> bool" where
  "continues_dir rest \<longleftrightarrow> rest = [] \<or> starts_with (lit ''/'') rest"

definition component_or_glob :: "ustr \<Rightarrow> ustr \<Rightarrow> ustr \<Rightarrow> bool" where
  "component_or_glob pat patn pathn \<longleftrightarrow>
     list_ex (\<lambda>piece. piece = patn) (split_slash pathn)
     \<or> list_ex (\<lambda>piece. contains patn piece) (split_slash pathn)
     \<or> ((contains (lit ''?'') pat \<or> contains (lit ''/*/'') pat \<or> starts_with (lit ''*/'') pat)
        \<and> glob_matches patn pathn)"

definition wildcard_or_rest :: "ustr \<Rightarrow> ustr \<Rightarrow> ustr \<Rightarrow> bool" where
  "wildcard_or_rest pat patn pathn =
     (if ends_with (lit ''/*'') patn
      then case strip_prefix (trim_end_str (lit ''/*'') patn) pathn of
             Some rest \<Rightarrow> continues_dir rest
           | None \<Rightarrow> component_or_glob pat patn pathn
      else if ends_with (lit ''*'') patn \<and> \<not> contains (lit ''/*/'') patn
      then case strip_prefix (trim_end_char (uc CHR ''*'') patn) pathn of
             Some rest \<Rightarrow> rest = [] \<or> \<not> starts_with (lit ''/'') rest
           | None \<Rightarrow> component_or_glob pat patn pathn
      else component_or_glob pat patn pathn)"

definition pattern_matches :: "ustr \<Rightarrow> ustr \<Rightarrow> bool" where
  "pattern_matches pat0 path0 =
     (let pat = trim pat0; path = trim path0;
          patn = replace_all (lit ''//'') (lit ''/'') pat;
          pathn = replace_all (lit ''//'') (lit ''/'') path
      in pat = path
         \<or> (if \<not> contains (lit ''*'') patn \<and> \<not> contains (lit ''?'') patn \<and> starts_with patn pathn
            then continues_dir (drop (length patn) pathn)
            else wildcard_or_rest pat patn pathn))"

definition entry_matches :: "ustr \<Rightarrow> ustr option \<Rightarrow> TrustAllowlistEntry \<Rightarrow> bool" where
  "entry_matches cwd worktree e \<longleftrightarrow>
     pattern_matches (pattern e) cwd
     \<and> (case (worktree_pattern e, worktree) of
          (Some wp, Some wt) \<Rightarrow> pattern_matches wp wt
        | (Some _, None) \<Rightarrow> False
        | (None, _) \<Rightarrow> True)"

definition is_allowlisted :: "TrustConfig \<Rightarrow> ustr \<Rightarrow> ustr option \<Rightarrow> TrustAllowlistEntry option" where
  "is_allowlisted c cwd worktree = find (entry_matches cwd worktree) (allowlisted c)"

subsection \<open>The decision\<close>

datatype TrustDecision = NotRequired | Required TrustPolicy "TrustEvent list"

definition TrustDecision_policy :: "TrustDecision \<Rightarrow> TrustPolicy option" where
  "TrustDecision_policy d = (case d of NotRequired \<Rightarrow> None | Required p _ \<Rightarrow> Some p)"

definition TrustDecision_events :: "TrustDecision \<Rightarrow> TrustEvent list" where
  "TrustDecision_events d = (case d of NotRequired \<Rightarrow> [] | Required _ es \<Rightarrow> es)"

record trust_fs =
  canonical :: "ustr \<Rightarrow> ustr option"
  has_git_dir :: "path_component list \<Rightarrow> bool"

definition path_matches :: "trust_fs \<Rightarrow> ustr \<Rightarrow> ustr \<Rightarrow> bool" where
  "path_matches fs candidate root \<longleftrightarrow>
     (let c = normalize_path (canonical fs) candidate; r = normalize_path (canonical fs) root
      in path_eq c r \<or> path_starts_with r c)"

definition path_matches_trusted_root :: "trust_fs \<Rightarrow> ustr \<Rightarrow> ustr \<Rightarrow> bool" where
  "path_matches_trusted_root fs cwd trusted_root =
     path_matches fs cwd (normalize_path (canonical fs) trusted_root)"

definition extract_repo_name :: "trust_fs \<Rightarrow> ustr \<Rightarrow> ustr option" where
  "extract_repo_name fs cwd =
     (case find (has_git_dir fs) (ancestors (components cwd)) of
        Some p \<Rightarrow> last_name p
      | None \<Rightarrow> file_name cwd)"

definition trust_prompt_shown :: "ustr \<Rightarrow> bool" where
  "trust_prompt_shown screen_text \<longleftrightarrow> contains_any TRUST_PROMPT_CUES (to_ascii_lowercase screen_text)"

definition detect_manual_approval :: "ustr \<Rightarrow> bool" where
  "detect_manual_approval screen_text \<longleftrightarrow> contains_any MANUAL_APPROVAL_CUES (to_ascii_lowercase screen_text)"

definition resolve :: "trust_fs \<Rightarrow> TrustConfig \<Rightarrow> ustr \<Rightarrow> ustr option \<Rightarrow> ustr \<Rightarrow> TrustDecision" where
  "resolve fs c cwd worktree screen_text =
     (if \<not> trust_prompt_shown screen_text then NotRequired
      else let req = TrustRequired cwd (extract_repo_name fs cwd) worktree
           in case find (path_matches fs cwd) (denied c) of
                Some root \<Rightarrow> Required TrustDeny [req, TrustDenied cwd (lit ''cwd matches denied trust root: '' @ root)]
              | None \<Rightarrow>
                  if is_allowlisted c cwd worktree \<noteq> None
                  then Required AutoTrust [req, TrustResolved cwd AutoTrust ResolvedAutoAllowlisted]
                  else if detect_manual_approval screen_text
                  then Required RequireApproval [req, TrustResolved cwd RequireApproval ResolvedManualApproval]
                  else Required RequireApproval [req])"

definition trusts :: "trust_fs \<Rightarrow> TrustConfig \<Rightarrow> ustr \<Rightarrow> ustr option \<Rightarrow> bool" where
  "trusts fs c cwd worktree \<longleftrightarrow>
     \<not> list_ex (path_matches fs cwd) (denied c) \<and> is_allowlisted c cwd worktree \<noteq> None"

section \<open>The language of globs\<close>

inductive glob :: "ustr \<Rightarrow> ustr \<Rightarrow> bool" where
  done_both: "glob [] []"
| star: "glob ps s \<Longrightarrow> glob (uc CHR ''*'' # ps) (t @ s)"
| any: "glob ps s \<Longrightarrow> glob (uc CHR ''?'' # ps) (c # s)"
| same: "c \<noteq> uc CHR ''*'' \<Longrightarrow> c \<noteq> uc CHR ''?'' \<Longrightarrow> glob ps s \<Longrightarrow> glob (c # ps) (c # s)"

inductive_cases glob_NilE: "glob [] s"
inductive_cases glob_ConsE: "glob (c # ps) s"

lemma glob_Nil [simp]: "glob [] s \<longleftrightarrow> s = []"
  by (auto elim: glob_NilE intro: glob.intros)

lemma glob_star: "glob (uc CHR ''*'' # ps) s \<longleftrightarrow> (\<exists>n \<le> length s. glob ps (drop n s))"
proof
  assume "glob (uc CHR ''*'' # ps) s"
  then obtain t r where "s = t @ r" "glob ps r" by (auto elim: glob_ConsE)
  then show "\<exists>n \<le> length s. glob ps (drop n s)" by (intro exI [of _ "length t"]) simp
next
  assume "\<exists>n \<le> length s. glob ps (drop n s)"
  then show "glob (uc CHR ''*'' # ps) s" using glob.star by (metis append_take_drop_id)
qed

lemma glob_any: "glob (uc CHR ''?'' # ps) s \<longleftrightarrow> s \<noteq> [] \<and> glob ps (tl s)"
  using glob.any [of ps "tl s" "hd s"] by (cases s) (auto elim: glob_ConsE)

lemma glob_same: "c \<noteq> uc CHR ''*'' \<Longrightarrow> c \<noteq> uc CHR ''?'' \<Longrightarrow> glob (c # ps) s \<longleftrightarrow> s \<noteq> [] \<and> hd s = c \<and> glob ps (tl s)"
  by (cases s) (auto elim: glob_ConsE intro: glob.intros)

lemma glob_star_end: "glob [uc CHR ''*''] s"
  unfolding glob_star by (intro exI [of _ "length s"]) simp

text \<open>The matcher at two indexes decides the rest of the pattern against the rest of the path.\<close>

lemma glob_match_recursive_glob:
  "s \<le> length path \<Longrightarrow> glob_match_recursive pat path p s \<longleftrightarrow> glob (drop p pat) (drop s path)"
proof (induction pat path p s rule: glob_match_recursive.induct)
  case (1 pat path p s)
  show ?case
  proof (cases "p < length pat")
    case False
    then show ?thesis using "1.prems" by (simp add: glob_match_recursive.simps [of pat path p s])
  next
    case p: True
    then have d: "drop p pat = pat ! p # drop (p + 1) pat" by (simp add: Cons_nth_drop_Suc)
    have rest: "tl (drop s path) = drop (s + 1) path" by (simp add: tl_drop drop_Suc)
    consider (star) "pat ! p = uc CHR ''*''" | (any) "pat ! p = uc CHR ''?''"
      | (same) "pat ! p \<noteq> uc CHR ''*''" "pat ! p \<noteq> uc CHR ''?''" by blast
    then show ?thesis
    proof cases
      case star
      have IH: "glob_match_recursive pat path (p + 1) (s + skip) \<longleftrightarrow> glob (drop (p + 1) pat) (drop skip (drop s path))"
        if "skip \<le> length path - s" for skip
      proof -
        from that "1.prems" have range: "skip \<in> set [0..<length path - s + 1]" "s + skip \<le> length path" by auto
        have "drop skip (drop s path) = drop (s + skip) path" by (simp add: add.commute)
        with "1.IH"(1) [OF p star range] show ?thesis by (simp only:)
      qed
      have "glob_match_recursive pat path p s \<longleftrightarrow>
          p + 1 \<ge> length pat \<or> (\<exists>skip \<le> length path - s. glob_match_recursive pat path (p + 1) (s + skip))"
        using p star by (simp add: glob_match_recursive.simps [of pat path p s] list_ex_iff Bex_def less_Suc_eq_le del: upt_Suc)
      also have "\<dots> \<longleftrightarrow> p + 1 \<ge> length pat \<or> (\<exists>skip \<le> length path - s. glob (drop (p + 1) pat) (drop skip (drop s path)))"
        using IH by blast
      also have "\<dots> \<longleftrightarrow> glob (drop p pat) (drop s path)"
      proof (cases "p + 1 \<ge> length pat")
        case True
        then have "drop p pat = [uc CHR ''*'']" unfolding d star by simp
        with True glob_star_end show ?thesis by metis
      next
        case False
        then show ?thesis unfolding d star glob_star length_drop by blast
      qed
      finally show ?thesis .
    next
      case any
      have "glob_match_recursive pat path p s \<longleftrightarrow> s < length path \<and> glob_match_recursive pat path (p + 1) (s + 1)"
        using p any by (subst glob_match_recursive.simps) simp
      also have "\<dots> \<longleftrightarrow> s < length path \<and> glob (drop (p + 1) pat) (drop (s + 1) path)"
        using "1.IH"(2) [OF p] any by auto
      finally show ?thesis unfolding d any glob_any rest by (auto simp: not_le)
    next
      case same
      have "glob_match_recursive pat path p s \<longleftrightarrow> s < length path \<and> path ! s = pat ! p \<and> glob_match_recursive pat path (p + 1) (s + 1)"
        using p same by (subst glob_match_recursive.simps) simp
      also have "\<dots> \<longleftrightarrow> s < length path \<and> path ! s = pat ! p \<and> glob (drop (p + 1) pat) (drop (s + 1) path)"
        using "1.IH"(3) [OF p same] by auto
      finally show ?thesis unfolding d glob_same [OF same] rest by (auto simp: hd_drop_conv_nth)
    qed
  qed
qed

section \<open>Patterns\<close>

lemma replace_all_id: "\<not> contains p s \<Longrightarrow> replace_all p r s = s"
proof (induction s)
  case (Cons c s)
  have "\<not> starts_with p (c # s)"
    using Cons.prems unfolding contains_iff starts_with_iff by (metis append_Nil)
  moreover have "\<not> contains p s"
    using Cons.prems unfolding contains_iff by (metis append_Cons)
  ultimately show ?case using Cons.IH by simp
qed simp

lemma split_slash_pieces: "piece \<in> set (split_slash s) \<Longrightarrow> 47 \<notin> set piece"
proof -
  have "47 \<notin> set cur \<Longrightarrow> \<forall>piece \<in> set (split_slash_acc cur s). 47 \<notin> set piece" for cur
    by (induction cur s rule: split_slash_acc.induct) auto
  from this [of "[]"] show "piece \<in> set (split_slash s) \<Longrightarrow> ?thesis" by (simp add: split_slash_def)
qed

lemma contains_char: "contains [c] s \<longleftrightarrow> c \<in> set s"
  by (auto simp: contains_iff in_set_conv_decomp)

lemma ends_with_set: "ends_with p s \<Longrightarrow> set p \<subseteq> set s"
  by (auto simp: ends_with_def starts_with_def) (metis in_set_takeD set_rev)

text \<open>A pattern that names a directory: it has a slash and no wildcard, no white space around it, no
  doubled slash.\<close>

definition plain_dir :: "ustr \<Rightarrow> bool" where
  "plain_dir d \<longleftrightarrow> 47 \<in> set d \<and> uc CHR ''*'' \<notin> set d \<and> uc CHR ''?'' \<notin> set d \<and> trim d = d \<and> \<not> contains (lit ''//'') d"

lemma pattern_matches_dir:
  assumes "plain_dir d" "trim path = path" "\<not> contains (lit ''//'') path"
  shows "pattern_matches d path \<longleftrightarrow> path = d \<or> starts_with (d @ lit ''/'') path"
proof -
  have d: "47 \<in> set d" "42 \<notin> set d" "63 \<notin> set d" "trim d = d" "\<not> contains (lit ''//'') d"
    using assms(1) by (simp_all add: plain_dir_def)
  have "\<not> list_ex (\<lambda>piece. piece = d) (split_slash path)" "\<not> list_ex (\<lambda>piece. contains d piece) (split_slash path)"
    using d(1) split_slash_pieces [of _ path] contains_set [of d] by (auto simp: list_ex_iff dest!: subsetD)
  moreover have "\<not> contains (lit ''?'') d" "\<not> contains (lit ''/*/'') d" "\<not> starts_with (lit ''*/'') d"
    using d(2,3) contains_set [of "lit ''?''" d] contains_set [of "lit ''/*/''" d]
    by (auto simp: lit_def starts_with_iff)
  ultimately have "\<not> component_or_glob d d path" by (simp add: component_or_glob_def)
  moreover have "\<not> ends_with (lit ''/*'') d" "\<not> ends_with (lit ''*'') d"
    using d(2) ends_with_set [of "lit ''/*''" d] ends_with_set [of "lit ''*''" d] by (auto simp: lit_def)
  ultimately have "\<not> wildcard_or_rest d d path" by (simp add: wildcard_or_rest_def)
  moreover have "\<not> contains (lit ''*'') d" "\<not> contains (lit ''?'') d"
    using d(2,3) by (simp_all add: lit_def contains_char)
  ultimately have "pattern_matches d path \<longleftrightarrow> d = path \<or> (starts_with d path \<and> continues_dir (drop (length d) path))"
    using assms(2,3) d(4,5) by (auto simp: pattern_matches_def Let_def replace_all_id)
  also have "\<dots> \<longleftrightarrow> path = d \<or> starts_with (d @ lit ''/'') path"
    by (auto simp: continues_dir_def starts_with_iff)
  finally show ?thesis .
qed

lemma blank_pattern_matches:
  assumes "trim pat = []" "starts_with (lit ''/'') (trim path)"
  shows "pattern_matches pat path"
proof -
  from assms(2) obtain r where "trim path = 47 # r" by (auto simp: starts_with_iff lit_def)
  then have "starts_with (lit ''/'') (replace_all (lit ''//'') (lit ''/'') (trim path))"
    by (simp add: lit_def starts_with_def)
  then show ?thesis
    by (simp add: pattern_matches_def Let_def assms(1) continues_dir_def contains_def) (simp add: starts_with_def lit_def)
qed

section \<open>Properties\<close>

text \<open>C36: the backtracking matcher on indexes decides the language of globs, where a star stands for any
  text and a question mark for one character.\<close>

theorem glob_matches_iff_glob: "glob_matches pat path \<longleftrightarrow> glob pat path"
  using glob_match_recursive_glob [of 0 path pat 0] by (simp add: glob_matches_def)

text \<open>An allowlist pattern that is a plain directory matches a path exactly if the path is that
  directory or lies below it, never a sibling whose name only begins the same way.\<close>

theorem directory_pattern_means_containment:
  assumes "plain_dir d" and "trim path = path" and "\<not> contains (lit ''//'') path"
  shows "pattern_matches d path \<longleftrightarrow> path = d \<or> starts_with (d @ lit ''/'') path"
  by (rule pattern_matches_dir [OF assms])

theorem directory_pattern_means_containment_witness:
  "pattern_matches (lit ''/w'') (lit ''/w/r'') \<and> \<not> pattern_matches (lit ''/w'') (lit ''/wx'')"
proof -
  have "pattern_matches (lit ''/w'') (lit ''/w/r'') \<longleftrightarrow> lit ''/w/r'' = lit ''/w'' \<or> starts_with (lit ''/w'' @ lit ''/'') (lit ''/w/r'')"
    "pattern_matches (lit ''/w'') (lit ''/wx'') \<longleftrightarrow> lit ''/wx'' = lit ''/w'' \<or> starts_with (lit ''/w'' @ lit ''/'') (lit ''/wx'')"
    by (rule directory_pattern_means_containment;
        simp add: plain_dir_def trim_def trim_start_def trim_end_def is_whitespace_def contains_def starts_with_def lit_def)+
  then show ?thesis by (simp add: starts_with_def lit_def)
qed

text \<open>Denied roots win: a directory below a denied root is never trusted and the decision is to deny,
  whatever the allowlist says; and the decision is to trust exactly if the resolver trusts it.\<close>

theorem denied_root_wins:
  assumes "trust_prompt_shown screen"
  shows "TrustDecision_policy (resolve fs c cwd worktree screen) =
     Some (if list_ex (path_matches fs cwd) (denied c) then TrustDeny
           else if trusts fs c cwd worktree then AutoTrust else RequireApproval)"
proof (cases "find (path_matches fs cwd) (denied c)")
  case None
  then have "\<not> list_ex (path_matches fs cwd) (denied c)" by (auto simp: find_None_iff list_ex_iff)
  with None assms show ?thesis by (simp add: resolve_def TrustDecision_policy_def trusts_def Let_def)
next
  case (Some root)
  then have "list_ex (path_matches fs cwd) (denied c)" by (auto simp: find_Some_iff list_ex_iff)
  with Some assms show ?thesis by (simp add: resolve_def TrustDecision_policy_def Let_def)
qed

definition sample_fs :: trust_fs where
  "sample_fs = \<lparr>canonical = (\<lambda>_. None), has_git_dir = (\<lambda>_. False)\<rparr>"

lemmas path_defs = path_matches_def normalize_path_def path_eq_def path_starts_with_def components_def split_slash_def
  component_def starts_with_def lit_def Let_def

theorem denied_root_wins_witness:
  "TrustDecision_policy (resolve sample_fs (with_denied (lit ''/w'') (with_allowlisted (lit ''/w'') TrustConfig_new))
     (lit ''/w/r'') None (lit ''Trust this folder'')) = Some TrustDeny"
proof -
  have "trust_prompt_shown (lit ''Trust this folder'')"
    by (simp add: trust_prompt_shown_def contains_any_def contains_def TRUST_PROMPT_CUES_def to_ascii_lowercase_def
        ascii_lower_def starts_with_def lit_def)
  moreover have "path_matches sample_fs (lit ''/w/r'') (lit ''/w'')"
    by (simp add: sample_fs_def path_defs)
  ultimately show ?thesis
    by (simp add: denied_root_wins with_denied_def with_allowlisted_def TrustConfig_new_def)
qed

text \<open>A blank allowlist pattern trusts every absolute directory that is not denied.\<close>

theorem blank_pattern_trusts_everything:
  assumes "trim (pattern e) = []" and "worktree_pattern e = None" and "e \<in> set (allowlisted c)"
    and "starts_with (lit ''/'') (trim cwd)" and "\<not> list_ex (path_matches fs cwd) (denied c)"
  shows "trusts fs c cwd worktree"
  using blank_pattern_matches [OF assms(1,4)] assms(2,3,5)
  by (auto simp: trusts_def is_allowlisted_def find_None_iff entry_matches_def)

theorem blank_pattern_trusts_everything_witness:
  "trusts sample_fs (with_allowlisted [] TrustConfig_new) (lit ''/etc'') None"
  by (rule blank_pattern_trusts_everything [where e = "TrustAllowlistEntry_new []"])
    (simp_all add: TrustAllowlistEntry_new_def with_allowlisted_def TrustConfig_new_def trim_def trim_start_def
      trim_end_def starts_with_def is_whitespace_def lit_def)

end
