(* ===== verification/Mcp_Lifecycle.thy ===== *)
theory Mcp_Lifecycle
  imports Paths
begin

text \<open>
  The life cycle of MCP servers (\<^verbatim>\<open>mcp_lifecycle_hardened.rs\<close>) and of plugins (\<^verbatim>\<open>plugin_lifecycle.rs\<close>).
  A validator records phases, errors and results; the readings of the clock are arguments (one for
  the error, one for the phase), durations are milliseconds.
  The theorems: when a phase is entered, that a failure that is not recoverable keeps a server from
  being ready until someone records a recoverable one, that a server reaches readiness only through
  tool discovery or such an error, and how plugin health follows from the health of its servers.
\<close>

section \<open>Sorted lists without duplicates\<close>

text \<open>\<^verbatim>\<open>Vec::sort\<close> followed by \<^verbatim>\<open>Vec::dedup\<close>.\<close>

definition dedupe_sorted :: "'a::linorder list \<Rightarrow> 'a list" where
  "dedupe_sorted values = remdups_adj (sort values)"

lemma set_dedupe_sorted [simp]: "set (dedupe_sorted xs) = set xs"
  by (simp add: dedupe_sorted_def)

lemma strict_dedupe_sorted: "sorted_wrt (<) (dedupe_sorted xs)"
  by (simp add: dedupe_sorted_def sorted_distinct_remdups_adj)

text \<open>The result depends only on the set of values.\<close>

lemma dedupe_sorted_eq: "dedupe_sorted xs = sorted_list_of_set (set xs)"
  using strict_dedupe_sorted [of xs] set_dedupe_sorted [of xs]
  by (metis List.finite_set sorted_list_of_set.idem_if_sorted_distinct strict_sorted_iff)

section \<open>Phases\<close>

datatype McpLifecyclePhase = ConfigLoad | ServerRegistration | SpawnConnect | InitializeHandshake
  | ToolDiscovery | ResourceDiscovery | Ready | Invocation | ErrorSurfacing | Shutdown | Cleanup

definition McpLifecyclePhase_all :: "McpLifecyclePhase list" where
  "McpLifecyclePhase_all = [ConfigLoad, ServerRegistration, SpawnConnect, InitializeHandshake, ToolDiscovery,
     ResourceDiscovery, Ready, Invocation, ErrorSurfacing, Shutdown, Cleanup]"

fun phase_rank :: "McpLifecyclePhase \<Rightarrow> nat" where
  "phase_rank ConfigLoad = 0" | "phase_rank ServerRegistration = 1" | "phase_rank SpawnConnect = 2"
| "phase_rank InitializeHandshake = 3" | "phase_rank ToolDiscovery = 4" | "phase_rank ResourceDiscovery = 5"
| "phase_rank Ready = 6" | "phase_rank Invocation = 7" | "phase_rank ErrorSurfacing = 8"
| "phase_rank Shutdown = 9" | "phase_rank Cleanup = 10"

instantiation McpLifecyclePhase :: linorder
begin

definition less_eq_McpLifecyclePhase :: "McpLifecyclePhase \<Rightarrow> McpLifecyclePhase \<Rightarrow> bool" where
  "less_eq_McpLifecyclePhase a b \<longleftrightarrow> phase_rank a \<le> phase_rank b"

definition less_McpLifecyclePhase :: "McpLifecyclePhase \<Rightarrow> McpLifecyclePhase \<Rightarrow> bool" where
  "less_McpLifecyclePhase a b \<longleftrightarrow> phase_rank a < phase_rank b"

instance
proof
  fix a b :: McpLifecyclePhase
  show "a \<le> b \<Longrightarrow> b \<le> a \<Longrightarrow> a = b"
    by (cases a; cases b) (simp_all add: less_eq_McpLifecyclePhase_def)
qed (auto simp: less_eq_McpLifecyclePhase_def less_McpLifecyclePhase_def)

end

fun phase_display :: "McpLifecyclePhase \<Rightarrow> ustr" where
  "phase_display ConfigLoad = lit ''config_load''"
| "phase_display ServerRegistration = lit ''server_registration''"
| "phase_display SpawnConnect = lit ''spawn_connect''"
| "phase_display InitializeHandshake = lit ''initialize_handshake''"
| "phase_display ToolDiscovery = lit ''tool_discovery''"
| "phase_display ResourceDiscovery = lit ''resource_discovery''"
| "phase_display Ready = lit ''ready''"
| "phase_display Invocation = lit ''invocation''"
| "phase_display ErrorSurfacing = lit ''error_surfacing''"
| "phase_display Shutdown = lit ''shutdown''"
| "phase_display Cleanup = lit ''cleanup''"

record McpErrorSurface =
  err_phase :: McpLifecyclePhase
  err_server_name :: "ustr option"
  err_message :: ustr
  err_context :: "(ustr, ustr) btree"
  recoverable :: bool
  err_timestamp :: u64

definition McpErrorSurface_new ::
  "u64 \<Rightarrow> McpLifecyclePhase \<Rightarrow> ustr option \<Rightarrow> ustr \<Rightarrow> (ustr, ustr) btree \<Rightarrow> bool \<Rightarrow> McpErrorSurface" where
  "McpErrorSurface_new now phase server msg ctx recov =
     \<lparr>err_phase = phase, err_server_name = server, err_message = msg, err_context = ctx,
      recoverable = recov, err_timestamp = now\<rparr>"

datatype McpPhaseResult = Success McpLifecyclePhase nat | Failure McpLifecyclePhase McpErrorSurface
  | Timeout McpLifecyclePhase nat McpErrorSurface

fun result_phase :: "McpPhaseResult \<Rightarrow> McpLifecyclePhase" where
  "result_phase (Success p d) = p"
| "result_phase (Failure p e) = p"
| "result_phase (Timeout p w e) = p"

record McpLifecycleState =
  current_phase :: "McpLifecyclePhase option"
  phase_errors :: "(McpLifecyclePhase, McpErrorSurface list) btree"
  phase_timestamps :: "(McpLifecyclePhase, u64) btree"
  phase_results :: "McpPhaseResult list"

definition McpLifecycleState_new :: McpLifecycleState where
  "McpLifecycleState_new = \<lparr>current_phase = None, phase_errors = [], phase_timestamps = [], phase_results = []\<rparr>"

definition errors_for_phase :: "McpLifecyclePhase \<Rightarrow> McpLifecycleState \<Rightarrow> McpErrorSurface list" where
  "errors_for_phase phase st = (case btree_get (phase_errors st) phase of Some es \<Rightarrow> es | None \<Rightarrow> [])"

definition phase_timestamp :: "McpLifecyclePhase \<Rightarrow> McpLifecycleState \<Rightarrow> u64 option" where
  "phase_timestamp phase st = btree_get (phase_timestamps st) phase"

definition record_phase :: "u64 \<Rightarrow> McpLifecyclePhase \<Rightarrow> McpLifecycleState \<Rightarrow> McpLifecycleState" where
  "record_phase now phase st =
     st\<lparr>current_phase := Some phase, phase_timestamps := btree_insert phase now (phase_timestamps st)\<rparr>"

definition record_error :: "McpErrorSurface \<Rightarrow> McpLifecycleState \<Rightarrow> McpLifecycleState" where
  "record_error e st =
     st\<lparr>phase_errors := btree_insert (err_phase e) (errors_for_phase (err_phase e) st @ [e]) (phase_errors st)\<rparr>"

definition record_result :: "McpPhaseResult \<Rightarrow> McpLifecycleState \<Rightarrow> McpLifecycleState" where
  "record_result r st = st\<lparr>phase_results := phase_results st @ [r]\<rparr>"

definition can_resume_after_error :: "McpLifecycleState \<Rightarrow> bool" where
  "can_resume_after_error st =
     (case rev (phase_results st) of
        Failure _ e # _ \<Rightarrow> recoverable e
      | Timeout _ _ e # _ \<Rightarrow> recoverable e
      | _ \<Rightarrow> False)"

section \<open>The validator\<close>

definition listed_transitions :: "(McpLifecyclePhase \<times> McpLifecyclePhase) list" where
  "listed_transitions =
     [(ConfigLoad, ServerRegistration), (ServerRegistration, SpawnConnect), (SpawnConnect, InitializeHandshake),
      (InitializeHandshake, ToolDiscovery), (ToolDiscovery, ResourceDiscovery), (ToolDiscovery, Ready),
      (ResourceDiscovery, Ready), (Ready, Invocation), (Invocation, Ready), (ErrorSurfacing, Ready),
      (ErrorSurfacing, Shutdown), (Shutdown, Cleanup)]"

definition validate_phase_transition :: "McpLifecyclePhase \<Rightarrow> McpLifecyclePhase \<Rightarrow> bool" where
  "validate_phase_transition from to =
     (if (from, to) \<in> set listed_transitions then True
      else case to of
        Shutdown \<Rightarrow> from \<noteq> Cleanup
      | ErrorSurfacing \<Rightarrow> from \<noteq> Cleanup \<and> from \<noteq> Shutdown
      | _ \<Rightarrow> False)"

definition record_failure :: "u64 \<Rightarrow> McpErrorSurface \<Rightarrow> McpLifecycleState \<Rightarrow> McpPhaseResult \<times> McpLifecycleState" where
  "record_failure now e st =
     (let result = Failure (err_phase e) e
      in (result, record_result result (record_phase now ErrorSurfacing (record_error e st))))"

definition record_timeout ::
  "u64 \<Rightarrow> u64 \<Rightarrow> McpLifecyclePhase \<Rightarrow> nat \<Rightarrow> ustr option \<Rightarrow> (ustr, ustr) btree \<Rightarrow> McpLifecycleState
   \<Rightarrow> McpPhaseResult \<times> McpLifecycleState" where
  "record_timeout now now' phase waited server ctx st =
     (let e = McpErrorSurface_new now phase server
            (lit ''MCP lifecycle phase '' @ phase_display phase @ lit '' timed out after '' @ show_nat waited @ lit '' ms'')
            (btree_insert (lit ''waited_ms'') (show_nat waited) ctx) True;
          result = Timeout phase waited e
      in (result, record_result result (record_phase now' ErrorSurfacing (record_error e st))))"

definition transition_context :: "McpLifecyclePhase \<Rightarrow> McpLifecyclePhase \<Rightarrow> (ustr, ustr) btree" where
  "transition_context from to = btree_of [(lit ''from'', phase_display from), (lit ''to'', phase_display to)]"

text \<open>\<open>refusal\<close> is the error for a phase that may not be entered, if any.\<close>

definition refusal :: "u64 \<Rightarrow> McpLifecyclePhase \<Rightarrow> McpLifecycleState \<Rightarrow> McpErrorSurface option" where
  "refusal now phase st =
     (case current_phase st of
        Some cur \<Rightarrow>
          if cur = ErrorSurfacing \<and> phase = Ready \<and> \<not> can_resume_after_error st
          then Some (McpErrorSurface_new now phase None
                 (lit ''cannot return to ready after a non-recoverable MCP lifecycle failure'')
                 (transition_context cur phase) False)
          else if \<not> validate_phase_transition cur phase
          then Some (McpErrorSurface_new now phase None
                 (lit ''invalid MCP lifecycle transition from '' @ phase_display cur @ lit '' to '' @ phase_display phase)
                 (transition_context cur phase) False)
          else None
      | None \<Rightarrow>
          if phase \<noteq> ConfigLoad
          then Some (McpErrorSurface_new now phase None
                 (lit ''invalid initial MCP lifecycle phase '' @ phase_display phase)
                 (btree_of [(lit ''phase'', phase_display phase)]) False)
          else None)"

definition run_phase ::
  "u64 \<Rightarrow> u64 \<Rightarrow> nat \<Rightarrow> McpLifecyclePhase \<Rightarrow> McpLifecycleState \<Rightarrow> McpPhaseResult \<times> McpLifecycleState" where
  "run_phase now now' elapsed phase st =
     (case refusal now phase st of
        Some e \<Rightarrow> record_failure now' e st
      | None \<Rightarrow>
          let result = Success phase elapsed
          in (result, record_result result (record_phase now phase st)))"

record McpFailedServer =
  failed_server_name :: ustr
  failed_phase :: McpLifecyclePhase
  failed_error :: McpErrorSurface

record McpDegradedReport =
  working_servers :: "ustr list"
  report_failed_servers :: "McpFailedServer list"
  report_available_tools :: "ustr list"
  missing_tools :: "ustr list"

definition McpDegradedReport_new ::
  "ustr list \<Rightarrow> McpFailedServer list \<Rightarrow> ustr list \<Rightarrow> ustr list \<Rightarrow> McpDegradedReport" where
  "McpDegradedReport_new working failed available expected =
     (let available = dedupe_sorted available
      in \<lparr>working_servers = dedupe_sorted working, report_failed_servers = failed, report_available_tools = available,
          missing_tools = filter (\<lambda>tool. tool \<notin> set available) (dedupe_sorted expected)\<rparr>)"

section \<open>Plugins\<close>

datatype ServerStatus = ServerHealthy | ServerDegraded | ServerFailed

fun ServerStatus_display :: "ServerStatus \<Rightarrow> ustr" where
  "ServerStatus_display ServerHealthy = lit ''healthy''"
| "ServerStatus_display ServerDegraded = lit ''degraded''"
| "ServerStatus_display ServerFailed = lit ''failed''"

record ServerHealth =
  server_name :: ustr
  server_status :: ServerStatus
  capabilities :: "ustr list"
  server_last_error :: "ustr option"

datatype PluginState = PluginUnconfigured | PluginValidated | PluginStarting | PluginHealthy
  | PluginDegraded "ustr list" "ServerHealth list" | PluginFailed ustr | PluginShuttingDown | PluginStopped

fun PluginState_display :: "PluginState \<Rightarrow> ustr" where
  "PluginState_display PluginUnconfigured = lit ''unconfigured''"
| "PluginState_display PluginValidated = lit ''validated''"
| "PluginState_display PluginStarting = lit ''starting''"
| "PluginState_display PluginHealthy = lit ''healthy''"
| "PluginState_display (PluginDegraded h f) = lit ''degraded''"
| "PluginState_display (PluginFailed r) = lit ''failed''"
| "PluginState_display PluginShuttingDown = lit ''shutting_down''"
| "PluginState_display PluginStopped = lit ''stopped''"

definition from_servers :: "ServerHealth list \<Rightarrow> PluginState" where
  "from_servers servers =
     (if servers = [] then PluginFailed (lit ''no servers available'')
      else let healthy = map server_name (filter (\<lambda>s. server_status s \<noteq> ServerFailed) servers);
               failed = filter (\<lambda>s. server_status s = ServerFailed) servers;
               has_degraded = list_ex (\<lambda>s. server_status s = ServerDegraded) servers
           in if failed = [] \<and> \<not> has_degraded then PluginHealthy
              else if healthy = []
              then PluginFailed (lit ''all '' @ show_nat (length failed) @ lit '' servers failed'')
              else PluginDegraded healthy failed)"

record PluginHealthcheck =
  plugin_name :: ustr
  plugin_state :: PluginState
  servers :: "ServerHealth list"
  last_check :: u64

definition PluginHealthcheck_new :: "u64 \<Rightarrow> ustr \<Rightarrow> ServerHealth list \<Rightarrow> PluginHealthcheck" where
  "PluginHealthcheck_new now nam srv =
     \<lparr>plugin_name = nam, plugin_state = from_servers srv, servers = srv, last_check = now\<rparr>"

record DegradedMode =
  available_tools :: "ustr list"
  unavailable_tools :: "ustr list"
  degraded_reason :: ustr

text \<open>A discovery result is used for the names of its tools only.\<close>

definition degraded_mode :: "ustr list \<Rightarrow> PluginHealthcheck \<Rightarrow> DegradedMode option" where
  "degraded_mode discovered_tool_names h =
     (case plugin_state h of
        PluginDegraded healthy failed \<Rightarrow>
          Some \<lparr>available_tools = discovered_tool_names, unavailable_tools = concat (map capabilities failed),
                degraded_reason = show_nat (length healthy) @ lit '' servers healthy, '' @ show_nat (length failed)
                  @ lit '' servers failed''\<rparr>
      | _ \<Rightarrow> None)"

section \<open>Entering a phase\<close>

text \<open>What the results of a life cycle say about readiness.\<close>

definition resumable :: "McpPhaseResult \<Rightarrow> bool" where
  "resumable r = (case r of Success _ _ \<Rightarrow> False | Failure _ e \<Rightarrow> recoverable e | Timeout _ _ e \<Rightarrow> recoverable e)"

lemma can_resume_snoc: "can_resume_after_error (record_result r st) = resumable r"
  by (cases r) (simp_all add: can_resume_after_error_def record_result_def resumable_def)

lemma can_resume_iff: "can_resume_after_error st \<longleftrightarrow> phase_results st \<noteq> [] \<and> resumable (last (phase_results st))"
proof (cases "phase_results st" rule: rev_cases)
  case Nil
  then show ?thesis by (simp add: can_resume_after_error_def)
next
  case (snoc rs r)
  then show ?thesis by (cases r) (simp_all add: can_resume_after_error_def resumable_def)
qed

lemma refusal_None:
  "refusal now p st = None \<longleftrightarrow>
     (case current_phase st of
        None \<Rightarrow> p = ConfigLoad
      | Some cur \<Rightarrow> validate_phase_transition cur p \<and> (cur = ErrorSurfacing \<and> p = Ready \<longrightarrow> can_resume_after_error st))"
  by (auto simp: refusal_def split: option.split)

lemma refusal_not_recoverable: "refusal now p st = Some e \<Longrightarrow> \<not> recoverable e"
  by (auto simp: refusal_def McpErrorSurface_new_def split: option.splits if_splits)

text \<open>What one call does: it enters the phase, or it surfaces an error that is not recoverable.\<close>

lemma run_phase_cases:
  obtains (entered) "refusal now p st = None" "current_phase (snd (run_phase now now' el p st)) = Some p"
      "phase_results (snd (run_phase now now' el p st)) = phase_results st @ [Success p el]"
  | (refused) e where "refusal now p st = Some e" "current_phase (snd (run_phase now now' el p st)) = Some ErrorSurfacing"
      "phase_results (snd (run_phase now now' el p st)) = phase_results st @ [Failure (err_phase e) e]" "\<not> recoverable e"
proof (cases "refusal now p st")
  case None
  then show thesis by (intro entered) (simp_all add: run_phase_def record_result_def record_phase_def Let_def)
next
  case (Some e)
  then show thesis using refusal_not_recoverable [OF Some]
    by (intro refused) (simp_all add: run_phase_def record_failure_def record_result_def record_phase_def record_error_def Let_def)
qed

datatype mcp_op = McpRunPhase u64 u64 nat McpLifecyclePhase | McpRecordFailure u64 McpErrorSurface
  | McpRecordTimeout u64 u64 McpLifecyclePhase nat "ustr option" "(ustr, ustr) btree"

fun mcp_step :: "mcp_op \<Rightarrow> McpLifecycleState \<Rightarrow> McpLifecycleState" where
  "mcp_step (McpRunPhase now now' el p) st = snd (run_phase now now' el p st)"
| "mcp_step (McpRecordFailure now e) st = snd (record_failure now e st)"
| "mcp_step (McpRecordTimeout now now' p w srv ctx) st = snd (record_timeout now now' p w srv ctx st)"

definition entered :: "McpLifecyclePhase \<Rightarrow> McpLifecycleState \<Rightarrow> bool" where
  "entered p st \<longleftrightarrow> list_ex (\<lambda>r. case r of Success q _ \<Rightarrow> q = p | _ \<Rightarrow> False) (phase_results st)"

text \<open>The start-up phases are entered in their order, and a server is ready only after tool discovery or
  after an error that was called recoverable.\<close>

definition mcp_inv :: "McpLifecycleState \<Rightarrow> bool" where
  "mcp_inv st \<longleftrightarrow>
     (\<forall>p q. current_phase st = Some p \<and> phase_rank q \<le> phase_rank p \<and> phase_rank p \<le> 5 \<longrightarrow> entered q st)
     \<and> (current_phase st \<in> {Some Ready, Some Invocation} \<longrightarrow>
          (\<forall>q. phase_rank q \<le> 4 \<longrightarrow> entered q st) \<or> list_ex resumable (phase_results st))"

lemma entered_snoc:
  "phase_results st' = phase_results st @ [r] \<Longrightarrow> entered q st' \<longleftrightarrow> entered q st \<or> (\<exists>d. r = Success q d)"
  by (cases r) (auto simp: entered_def)

lemma resumable_snoc:
  "phase_results st' = phase_results st @ [r] \<Longrightarrow> list_ex resumable (phase_results st') \<longleftrightarrow> list_ex resumable (phase_results st) \<or> resumable r"
  by auto

lemma startup_predecessor:
  assumes "validate_phase_transition cur p" "phase_rank p \<le> 5"
  shows "phase_rank p = phase_rank cur + 1"
  using assms by (cases p; cases cur) (simp_all add: validate_phase_transition_def listed_transitions_def)

lemma ready_predecessor:
  assumes "validate_phase_transition cur p" "p = Ready \<or> p = Invocation"
  shows "cur = ToolDiscovery \<or> cur = ResourceDiscovery \<or> cur = Ready \<or> cur = Invocation \<or> (cur = ErrorSurfacing \<and> p = Ready)"
  using assms by (cases p; cases cur) (simp_all add: validate_phase_transition_def listed_transitions_def)

lemma phase_rank_inj: "phase_rank p = phase_rank q \<Longrightarrow> p = q"
  by (cases p; cases q) simp_all

lemma mcp_inv_enter:
  assumes inv: "mcp_inv st" and ok: "refusal now p st = None"
    and st': "current_phase st' = Some p" "phase_results st' = phase_results st @ [Success p d]"
  shows "mcp_inv st'"
proof -
  note new = entered_snoc [OF st'(2)] resumable_snoc [OF st'(2)]
  have start: "entered q st'" if "phase_rank q \<le> phase_rank p" "phase_rank p \<le> 5" for q
  proof (cases "current_phase st")
    case None
    with ok have "p = ConfigLoad" by (simp add: refusal_None)
    with that phase_rank_inj [of q p] have "q = p" by simp
    then show ?thesis by (simp add: new)
  next
    case (Some cur)
    with ok have "validate_phase_transition cur p" by (simp add: refusal_None)
    from startup_predecessor [OF this that(2)] have r: "phase_rank p = phase_rank cur + 1" .
    show ?thesis
    proof (cases "q = p")
      case False
      with that(1) r phase_rank_inj [of q p] have "phase_rank q \<le> phase_rank cur" by (simp add: le_Suc_eq) blast
      with inv Some that(2) r have "entered q st" by (simp add: mcp_inv_def)
      then show ?thesis by (simp add: new)
    qed (simp add: new)
  qed
  have "(\<forall>q. phase_rank q \<le> 4 \<longrightarrow> entered q st') \<or> list_ex resumable (phase_results st')" if rdy: "p = Ready \<or> p = Invocation"
  proof (cases "current_phase st")
    case None
    with ok rdy show ?thesis by (auto simp: refusal_None)
  next
    case (Some cur)
    with ok have v: "validate_phase_transition cur p" "cur = ErrorSurfacing \<and> p = Ready \<longrightarrow> can_resume_after_error st"
      by (simp_all add: refusal_None)
    from ready_predecessor [OF v(1) rdy] show ?thesis
    proof (elim disjE)
      assume "cur = ErrorSurfacing \<and> p = Ready"
      with v(2) have "list_ex resumable (phase_results st)" by (auto simp: can_resume_iff list_ex_iff)
      then show ?thesis by (simp add: new)
    qed (use inv Some in \<open>auto simp: mcp_inv_def new\<close>)
  qed
  with start st'(1) show ?thesis by (auto simp: mcp_inv_def)
qed

lemma mcp_inv_error: "current_phase st = Some ErrorSurfacing \<Longrightarrow> mcp_inv st"
  by (simp add: mcp_inv_def)

interpretation mcp: invariant_ops mcp_step mcp_inv
proof
  fix st op
  assume inv: "mcp_inv st"
  show "mcp_inv (mcp_step op st)"
  proof (cases op)
    case (McpRunPhase now now' el p)
    show ?thesis
    proof (rule run_phase_cases [of now p st now' el])
      assume "refusal now p st = None" "current_phase (snd (run_phase now now' el p st)) = Some p"
        "phase_results (snd (run_phase now now' el p st)) = phase_results st @ [Success p el]"
      from mcp_inv_enter [OF inv this] show ?thesis by (simp add: McpRunPhase)
    qed (simp add: McpRunPhase mcp_inv_error)
  qed (simp_all add: record_failure_def record_timeout_def record_result_def record_phase_def Let_def mcp_inv_error)
qed

section \<open>Properties\<close>

text \<open>C37: however a validator is used, a server is ready or serving calls only if all phases from loading
  the configuration to tool discovery were entered, or an error was recorded as recoverable.\<close>

theorem readiness_is_earned:
  assumes "st = fold mcp_step ops McpLifecycleState_new" and "current_phase st \<in> {Some Ready, Some Invocation}"
  shows "list_all (\<lambda>q. entered q st) [ConfigLoad, ServerRegistration, SpawnConnect, InitializeHandshake, ToolDiscovery]
     \<or> list_ex resumable (phase_results st)"
proof -
  have "mcp_inv McpLifecycleState_new" by (simp add: mcp_inv_def McpLifecycleState_new_def)
  with mcp.run_inv assms(1) have "mcp_inv st" by blast
  with assms(2) show ?thesis by (auto simp: mcp_inv_def)
qed

theorem readiness_is_earned_witness:
  "let st = fold mcp_step (map (McpRunPhase 1 1 0) [ConfigLoad, ServerRegistration, SpawnConnect, InitializeHandshake, ToolDiscovery, Ready])
      McpLifecycleState_new
   in current_phase st = Some Ready \<and> entered InitializeHandshake st \<and> \<not> list_ex resumable (phase_results st)"
proof -
  let ?st = "fold mcp_step (map (McpRunPhase 1 1 0) [ConfigLoad, ServerRegistration, SpawnConnect, InitializeHandshake, ToolDiscovery, Ready])
      McpLifecycleState_new"
  have "current_phase ?st = Some Ready \<and> \<not> list_ex resumable (phase_results ?st)"
    by (simp add: run_phase_def refusal_def validate_phase_transition_def listed_transitions_def record_result_def
        record_phase_def McpLifecycleState_new_def resumable_def Let_def)
  then show ?thesis using readiness_is_earned [OF refl, of "map (McpRunPhase 1 1 0) [ConfigLoad, ServerRegistration, SpawnConnect, InitializeHandshake, ToolDiscovery, Ready]"]
    by (simp add: Let_def)
qed

text \<open>After a failure that is not recoverable no sequence of requested phases makes the server ready
  again: it stays with the error or shuts down.\<close>

theorem hard_failure_is_final:
  assumes "current_phase st = Some ErrorSurfacing" and "\<not> can_resume_after_error st"
  shows "current_phase (fold (\<lambda>(now, now', el, p) s. snd (run_phase now now' el p s)) calls st)
     \<in> {Some ErrorSurfacing, Some Shutdown, Some Cleanup}"
proof -
  have "current_phase (fold (\<lambda>(now, now', el, p) s. snd (run_phase now now' el p s)) calls st)
      \<in> {Some ErrorSurfacing, Some Shutdown, Some Cleanup}"
    if "current_phase st \<in> {Some ErrorSurfacing, Some Shutdown, Some Cleanup}" "\<not> can_resume_after_error st" for st
    using that
  proof (induction calls arbitrary: st)
    case (Cons call calls)
    obtain now now' el p where call: "call = (now, now', el, p)" by (cases call)
    have "current_phase (snd (run_phase now now' el p st)) \<in> {Some ErrorSurfacing, Some Shutdown, Some Cleanup}
       \<and> \<not> can_resume_after_error (snd (run_phase now now' el p st))"
      by (rule run_phase_cases [of now p st now' el], use Cons.prems in \<open>cases p\<close>)
        (auto simp: refusal_None can_resume_iff resumable_def validate_phase_transition_def listed_transitions_def)
    with Cons.IH call show ?case by simp
  qed simp
  then show ?thesis using assms by blast
qed

theorem hard_failure_is_final_witness:
  "current_phase (fold (\<lambda>(now, now', el, p) s. snd (run_phase now now' el p s)) [(1, 1, 0, Ready), (1, 1, 0, Shutdown)]
     (snd (run_phase 1 1 0 Ready McpLifecycleState_new))) \<in> {Some ErrorSurfacing, Some Shutdown, Some Cleanup}"
  by (rule hard_failure_is_final)
    (simp_all add: run_phase_def refusal_def record_failure_def record_result_def record_phase_def record_error_def
      can_resume_after_error_def McpLifecycleState_new_def McpErrorSurface_new_def Let_def)

text \<open>A time-out recorded before anything else opens the way to readiness.\<close>

lemma timeout_skips_startup:
  "fst (run_phase now now' el Ready (snd (record_timeout t t' SpawnConnect w srv ctx McpLifecycleState_new))) = Success Ready el"
  by (simp add: run_phase_def refusal_def record_timeout_def record_result_def record_phase_def record_error_def
      validate_phase_transition_def listed_transitions_def can_resume_after_error_def McpErrorSurface_new_def Let_def)

text \<open>A request refused after the clean-up takes the server back to the error phase, from which it can shut
  down again.\<close>

lemma refusal_reopens_cleanup:
  assumes "current_phase st = Some Cleanup"
  shows "current_phase (snd (run_phase now now' el p st)) = Some ErrorSurfacing"
proof -
  have "\<not> validate_phase_transition Cleanup p"
    by (cases p) (simp_all add: validate_phase_transition_def listed_transitions_def)
  with assms show ?thesis by (simp add: run_phase_def refusal_def record_failure_def record_result_def record_phase_def Let_def)
qed

text \<open>The report names as missing exactly the expected tools that are not available, in order and once.\<close>

lemma missing_tools_exact:
  "set (missing_tools (McpDegradedReport_new w f a e)) = set e - set a"
  "sorted_wrt (<) (missing_tools (McpDegradedReport_new w f a e))"
  by (auto simp: McpDegradedReport_new_def Let_def sorted_wrt_filter strict_dedupe_sorted)

text \<open>A plugin is healthy if it has servers and all are, failed if none is left, and degraded otherwise.\<close>

lemma from_servers_cases:
  "from_servers srv = PluginHealthy \<longleftrightarrow> srv \<noteq> [] \<and> list_all (\<lambda>s. server_status s = ServerHealthy) srv"
  "(\<exists>r. from_servers srv = PluginFailed r) \<longleftrightarrow> list_all (\<lambda>s. server_status s = ServerFailed) srv"
proof -
  have st: "server_status s = ServerHealthy \<longleftrightarrow> server_status s \<noteq> ServerFailed \<and> server_status s \<noteq> ServerDegraded" for s :: ServerHealth
    by (cases "server_status s") simp_all
  show "from_servers srv = PluginHealthy \<longleftrightarrow> srv \<noteq> [] \<and> list_all (\<lambda>s. server_status s = ServerHealthy) srv"
    by (auto simp: from_servers_def Let_def list_ex_iff list_all_iff st filter_empty_conv)
  show "(\<exists>r. from_servers srv = PluginFailed r) \<longleftrightarrow> list_all (\<lambda>s. server_status s = ServerFailed) srv"
    by (auto simp: from_servers_def Let_def list_ex_iff list_all_iff filter_empty_conv)
qed

end
