(* ===== verification/Api_Types.thy ===== *)
theory Api_Types
  imports Usage Paths
begin

text \<open>
  The wire types and the errors of the client crate, \<^verbatim>\<open>api/src/types.rs\<close> and \<^verbatim>\<open>api/src/error.rs\<close>.
  Errors of the libraries (\<^verbatim>\<open>reqwest\<close>, \<^verbatim>\<open>std::io\<close>, \<^verbatim>\<open>std::env\<close>, \<^verbatim>\<open>serde_json\<close>) are their texts, an HTTP error
  with the three flags the code asks for. A status is its number; how a status and a duration are
  printed is left to two arguments of the display function. A floating-point parameter of a request
  is its JSON text.
\<close>

section \<open>Definitions\<close>

subsection \<open>Requests\<close>

datatype ToolResultContentBlock = ResText ustr | ResJson Value

datatype InputContentBlock =
    InText ustr
  | InThinking ustr "ustr option"
  | InToolUse ustr ustr Value
  | InToolResult ustr "ToolResultContentBlock list" bool

record InputMessage =
  in_role :: ustr
  in_content :: "InputContentBlock list"

definition InputMessage_user_text :: "ustr \<Rightarrow> InputMessage" where
  "InputMessage_user_text txt = \<lparr>in_role = lit ''user'', in_content = [InText txt]\<rparr>"

definition InputMessage_user_tool_result :: "ustr \<Rightarrow> ustr \<Rightarrow> bool \<Rightarrow> InputMessage" where
  "InputMessage_user_tool_result tool_use_id content is_error =
     \<lparr>in_role = lit ''user'', in_content = [InToolResult tool_use_id [ResText content] is_error]\<rparr>"

record ToolDefinition =
  tool_def_name :: ustr
  tool_def_description :: "ustr option"
  tool_def_input_schema :: Value

datatype ToolChoice = ToolAuto | ToolAny | ToolNamed ustr

record MessageRequest =
  req_model :: ustr
  req_max_tokens :: u32
  req_messages :: "InputMessage list"
  req_system :: "ustr option"
  req_tools :: "ToolDefinition list option"
  req_tool_choice :: "ToolChoice option"
  req_stream :: bool
  req_temperature :: "ustr option"
  req_top_p :: "ustr option"
  req_frequency_penalty :: "ustr option"
  req_presence_penalty :: "ustr option"
  req_stop :: "ustr list option"
  req_reasoning_effort :: "ustr option"

definition with_streaming :: "MessageRequest \<Rightarrow> MessageRequest" where
  "with_streaming r = r\<lparr>req_stream := True\<rparr>"

subsection \<open>Responses and stream events\<close>

datatype OutputContentBlock =
    OutText ustr
  | OutToolUse ustr ustr Value
  | OutThinking ustr "ustr option"
  | OutRedactedThinking Value

record Usage =
  us_input_tokens :: u32
  us_cache_creation_input_tokens :: u32
  us_cache_read_input_tokens :: u32
  us_output_tokens :: u32

definition Usage_total_tokens :: "Usage \<Rightarrow> u32" where
  "Usage_total_tokens u =
     us_input_tokens u + us_output_tokens u + us_cache_creation_input_tokens u + us_cache_read_input_tokens u"

definition token_usage :: "Usage \<Rightarrow> TokenUsage" where
  "token_usage u =
     \<lparr>input_tokens = us_input_tokens u, output_tokens = us_output_tokens u,
      cache_creation_input_tokens = us_cache_creation_input_tokens u,
      cache_read_input_tokens = us_cache_read_input_tokens u\<rparr>"

definition no_usage :: Usage where
  "no_usage = \<lparr>us_input_tokens = 0, us_cache_creation_input_tokens = 0, us_cache_read_input_tokens = 0,
     us_output_tokens = 0\<rparr>"

record MessageResponse =
  resp_id :: ustr
  resp_kind :: ustr
  resp_role :: ustr
  resp_content :: "OutputContentBlock list"
  resp_model :: ustr
  resp_stop_reason :: "ustr option"
  resp_stop_sequence :: "ustr option"
  resp_usage :: Usage
  resp_request_id :: "ustr option"

definition MessageResponse_total_tokens :: "MessageResponse \<Rightarrow> u32" where
  "MessageResponse_total_tokens r = Usage_total_tokens (resp_usage r)"

record MessageDelta =
  md_stop_reason :: "ustr option"
  md_stop_sequence :: "ustr option"

datatype ContentBlockDelta = TextDelta ustr | InputJsonDelta ustr | ThinkingDelta ustr | SignatureDelta ustr

text \<open>The events with their one or two fields in place.\<close>

datatype StreamEvent =
    MessageStart MessageResponse
  | MessageDeltaEv MessageDelta Usage
  | ContentBlockStart u32 OutputContentBlock
  | ContentBlockDeltaEv u32 ContentBlockDelta
  | ContentBlockStop u32
  | MessageStop

subsection \<open>Errors\<close>

record HttpError =
  http_is_connect :: bool
  http_is_timeout :: bool
  http_is_request :: bool
  http_text :: ustr

type_synonym duration = nat

datatype ApiError =
    MissingCredentials ustr "ustr list" "ustr option"
  | ContextWindowExceeded ustr u32 u32 u32 u32
  | ExpiredOAuthToken
  | Auth ustr
  | InvalidApiKeyEnv ustr
  | Http HttpError
  | Io ustr
  | JsonErr ustr ustr ustr ustr
  | Api u16 "ustr option" "ustr option" "ustr option" ustr bool "ustr option"
  | RetriesExhausted u32 ApiError
  | InvalidSseFrame ustr
  | BackoffOverflow u32 duration
  | RequestBodySizeExceeded nat nat ustr

definition missing_credentials :: "ustr \<Rightarrow> ustr list \<Rightarrow> ApiError" where
  "missing_credentials provider env_vars = MissingCredentials provider env_vars None"

definition missing_credentials_with_hint :: "ustr \<Rightarrow> ustr list \<Rightarrow> ustr \<Rightarrow> ApiError" where
  "missing_credentials_with_hint provider env_vars hint = MissingCredentials provider env_vars (Some hint)"

text \<open>The loop over \<^verbatim>\<open>char_indices\<close> of \<^verbatim>\<open>truncate_body_snippet\<close>: characters taken and the end of their bytes.\<close>

fun snippet_loop :: "nat \<Rightarrow> nat \<Rightarrow> nat \<Rightarrow> nat \<Rightarrow> ustr \<Rightarrow> nat \<times> nat" where
  "snippet_loop max_chars offset taken byte_end [] = (taken, byte_end)"
| "snippet_loop max_chars offset taken byte_end (c # cs) =
     (if max_chars \<le> taken then (taken, byte_end)
      else snippet_loop max_chars (offset + len_utf8 c) (taken + 1) (offset + len_utf8 c) cs)"

text \<open>The text up to a byte position that is a character boundary.\<close>

fun prefix_bytes :: "nat \<Rightarrow> ustr \<Rightarrow> ustr" where
  "prefix_bytes n [] = []"
| "prefix_bytes n (c # cs) = (if n < len_utf8 c then [] else c # prefix_bytes (n - len_utf8 c) cs)"

definition truncate_body_snippet :: "ustr \<Rightarrow> nat \<Rightarrow> ustr" where
  "truncate_body_snippet body max_chars =
     (let (taken, byte_end) = snippet_loop max_chars 0 0 0 body
      in if max_chars \<le> taken \<and> byte_end < str_len body then prefix_bytes byte_end body @ [8230]
         else prefix_bytes byte_end body)"

definition json_deserialize :: "ustr \<Rightarrow> ustr \<Rightarrow> ustr \<Rightarrow> ustr \<Rightarrow> ApiError" where
  "json_deserialize provider model body source =
     JsonErr provider model (truncate_body_snippet body 200) source"

definition ApiError_from_json :: "ustr \<Rightarrow> ApiError" where
  "ApiError_from_json err = JsonErr (lit ''unknown'') (lit ''unknown'') [] err"

fun is_retryable :: "ApiError \<Rightarrow> bool" where
  "is_retryable (Http e) \<longleftrightarrow> http_is_connect e \<or> http_is_timeout e \<or> http_is_request e"
| "is_retryable (Api status error_type message request_id body retryable action) = retryable"
| "is_retryable (RetriesExhausted attempts last_error) = is_retryable last_error"
| "is_retryable _ = False"

fun error_request_id :: "ApiError \<Rightarrow> ustr option" where
  "error_request_id (Api status error_type message request_id body retryable action) = request_id"
| "error_request_id (RetriesExhausted attempts last_error) = error_request_id last_error"
| "error_request_id _ = None"

definition GENERIC_FATAL_WRAPPER_MARKERS :: "ustr list" where
  "GENERIC_FATAL_WRAPPER_MARKERS =
     [lit ''something went wrong while processing your request'',
      lit ''please try again, or use /new to start a fresh session'']"

definition CONTEXT_WINDOW_ERROR_MARKERS :: "ustr list" where
  "CONTEXT_WINDOW_ERROR_MARKERS = map lit
     [''maximum context length'', ''context window'', ''context length'', ''too many tokens'',
      ''prompt is too long'', ''input is too long'', ''input tokens exceed'', ''configured limit'',
      ''messages resulted in'', ''completion tokens'', ''prompt tokens'', ''request is too large'']"

definition looks_like_generic_fatal_wrapper :: "ustr \<Rightarrow> bool" where
  "looks_like_generic_fatal_wrapper txt \<longleftrightarrow> contains_any GENERIC_FATAL_WRAPPER_MARKERS (to_ascii_lowercase txt)"

definition looks_like_context_window_error :: "ustr \<Rightarrow> bool" where
  "looks_like_context_window_error txt \<longleftrightarrow> contains_any CONTEXT_WINDOW_ERROR_MARKERS (to_ascii_lowercase txt)"

fun is_generic_fatal_wrapper :: "ApiError \<Rightarrow> bool" where
  "is_generic_fatal_wrapper (Api status error_type message request_id body retryable action) \<longleftrightarrow>
     (case message of Some m \<Rightarrow> looks_like_generic_fatal_wrapper m | None \<Rightarrow> False)
     \<or> looks_like_generic_fatal_wrapper body"
| "is_generic_fatal_wrapper (RetriesExhausted attempts last_error) = is_generic_fatal_wrapper last_error"
| "is_generic_fatal_wrapper _ = False"

fun is_context_window_failure :: "ApiError \<Rightarrow> bool" where
  "is_context_window_failure (ContextWindowExceeded model a b c d) = True"
| "is_context_window_failure (Api status error_type message request_id body retryable action) \<longleftrightarrow>
     status \<in> {400, 413, 422}
     \<and> ((case message of Some m \<Rightarrow> looks_like_context_window_error m | None \<Rightarrow> False)
        \<or> looks_like_context_window_error body)"
| "is_context_window_failure (RetriesExhausted attempts last_error) = is_context_window_failure last_error"
| "is_context_window_failure _ = False"

fun safe_failure_class :: "ApiError \<Rightarrow> ustr" where
  "safe_failure_class (RetriesExhausted attempts last_error) =
     (if is_context_window_failure last_error then lit ''context_window''
      else if is_generic_fatal_wrapper last_error then lit ''provider_retry_exhausted''
      else safe_failure_class last_error)"
| "safe_failure_class (Api status error_type message request_id body retryable action) =
     (let e = Api status error_type message request_id body retryable action
      in if status \<in> {401, 403} then lit ''provider_auth''
         else if is_context_window_failure e then lit ''context_window''
         else if status = 429 then lit ''provider_rate_limit''
         else if is_generic_fatal_wrapper e then lit ''provider_internal''
         else lit ''provider_error'')"
| "safe_failure_class (MissingCredentials provider env_vars hint) = lit ''provider_auth''"
| "safe_failure_class ExpiredOAuthToken = lit ''provider_auth''"
| "safe_failure_class (Auth message) = lit ''provider_auth''"
| "safe_failure_class (ContextWindowExceeded model a b c d) = lit ''context_window''"
| "safe_failure_class (Http e) = lit ''provider_transport''"
| "safe_failure_class (InvalidSseFrame message) = lit ''provider_transport''"
| "safe_failure_class (BackoffOverflow attempt base_delay) = lit ''provider_transport''"
| "safe_failure_class (InvalidApiKeyEnv e) = lit ''runtime_io''"
| "safe_failure_class (Io e) = lit ''runtime_io''"
| "safe_failure_class (JsonErr provider model body_snippet source) = lit ''runtime_io''"
| "safe_failure_class (RequestBodySizeExceeded estimated_bytes max_bytes provider) = lit ''request_size''"

definition trace_text :: "ustr option \<Rightarrow> ustr" where
  "trace_text request_id = (case request_id of Some r \<Rightarrow> lit '' [trace '' @ r @ lit '']'' | None \<Rightarrow> [])"

fun ApiError_display :: "(u16 \<Rightarrow> ustr) \<Rightarrow> (duration \<Rightarrow> ustr) \<Rightarrow> ApiError \<Rightarrow> ustr" where
  "ApiError_display st dur (MissingCredentials provider env_vars hint) =
     lit ''missing '' @ provider @ lit '' credentials; export '' @ join (lit '' or '') env_vars
     @ lit '' before calling the '' @ provider @ lit '' API''
     @ (case hint of Some h \<Rightarrow> lit '' '' @ [8212] @ lit '' hint: '' @ h | None \<Rightarrow> [])"
| "ApiError_display st dur (ContextWindowExceeded model inp out tot window) =
     lit ''context_window_blocked for '' @ model @ lit '': estimated input '' @ show_nat (unat inp)
     @ lit '' + requested output '' @ show_nat (unat out) @ lit '' = '' @ show_nat (unat tot)
     @ lit '' tokens exceeds the '' @ show_nat (unat window)
     @ lit ''-token context window; compact the session or reduce request size before retrying''"
| "ApiError_display st dur ExpiredOAuthToken =
     lit ''saved OAuth token is expired and no refresh token is available''"
| "ApiError_display st dur (Auth message) = lit ''auth error: '' @ message"
| "ApiError_display st dur (InvalidApiKeyEnv e) =
     lit ''failed to read credential environment variable: '' @ e"
| "ApiError_display st dur (Http e) = lit ''http error: '' @ http_text e"
| "ApiError_display st dur (Io e) = lit ''io error: '' @ e"
| "ApiError_display st dur (JsonErr provider model body_snippet source) =
     lit ''failed to parse '' @ provider @ lit '' response for model '' @ model @ lit '': '' @ source
     @ lit ''; first 200 chars of body: '' @ body_snippet"
| "ApiError_display st dur (Api status error_type message request_id body retryable action) =
     (case (error_type, message) of
        (Some t, Some m) \<Rightarrow>
          lit ''api returned '' @ st status @ lit '' ('' @ t @ lit '')'' @ trace_text request_id @ lit '': '' @ m
      | _ \<Rightarrow> lit ''api returned '' @ st status @ trace_text request_id @ lit '': '' @ body)"
| "ApiError_display st dur (RetriesExhausted attempts last_error) =
     lit ''api failed after '' @ show_nat (unat attempts) @ lit '' attempts: '' @ ApiError_display st dur last_error"
| "ApiError_display st dur (InvalidSseFrame message) = lit ''invalid sse frame: '' @ message"
| "ApiError_display st dur (BackoffOverflow attempt base_delay) =
     lit ''retry backoff overflowed on attempt '' @ show_nat (unat attempt) @ lit '' with base delay ''
     @ dur base_delay"
| "ApiError_display st dur (RequestBodySizeExceeded estimated_bytes max_bytes provider) =
     lit ''request body size ('' @ show_nat estimated_bytes @ lit '' bytes) exceeds '' @ provider
     @ lit '' limit ('' @ show_nat max_bytes
     @ lit '' bytes); reduce prompt length or context before retrying''"

section \<open>Lemmas\<close>

lemma prefix_bytes_append: "prefix_bytes (str_len a) (a @ b) = a"
proof -
  have "prefix_bytes 0 b = []" by (cases b) (simp_all add: len_utf8_def)
  then show ?thesis by (induction a) (simp_all add: str_len_def)
qed

lemma snippet_loop_eq:
  "taken \<le> n \<Longrightarrow> offset = byte_end \<Longrightarrow> snippet_loop n offset taken byte_end s
     = (taken + length (take (n - taken) s), byte_end + str_len (take (n - taken) s))"
proof (induction s arbitrary: offset taken byte_end)
  case Nil
  then show ?case by (simp add: str_len_def)
next
  case (Cons c cs)
  show ?case
  proof (cases "n \<le> taken")
    case True
    with Cons.prems show ?thesis by (simp add: str_len_def)
  next
    case False
    then have "n - taken = Suc (n - Suc taken)" by simp
    with False Cons.IH [of "taken + 1"] Cons.prems show ?thesis by (simp add: str_len_def)
  qed
qed

text \<open>The byte arithmetic amounts to taking characters: no slice of the body falls inside a character.\<close>

lemma truncate_body_snippet_eq:
  "truncate_body_snippet body n = (if length body \<le> n then body else take n body @ [8230])"
proof -
  have l: "snippet_loop n 0 0 0 body = (length (take n body), str_len (take n body))"
    using snippet_loop_eq [of 0 n 0 0 body] by simp
  have p: "prefix_bytes (str_len (take n body)) body = take n body"
    using prefix_bytes_append [of "take n body" "drop n body"] by simp
  have "str_len (take n body) < str_len body" if "n < length body"
  proof -
    have "str_len body = str_len (take n body) + str_len (drop n body)"
      by (metis append_take_drop_id str_len_append)
    moreover have "0 < str_len (drop n body)" using that by (metis bot_nat_0.not_eq_extremum drop_eq_Nil leD str_len_eq_0)
    ultimately show ?thesis by linarith
  qed
  with l p show ?thesis by (auto simp: truncate_body_snippet_def)
qed

text \<open>However often an error was wrapped, it is retryable and carries a request identifier as the one inside.\<close>

lemma wrapped_error:
  "is_retryable (RetriesExhausted n e) = is_retryable e"
  "error_request_id (RetriesExhausted n e) = error_request_id e"
  "is_context_window_failure e \<Longrightarrow> safe_failure_class (RetriesExhausted n e) = lit ''context_window''"
  by simp_all

end
