(* ===== verification/Retry.thy ===== *)
theory Retry
  imports Api_Types
begin

text \<open>
  How both clients of the \<^verbatim>\<open>api\<close> crate repeat a failed request: \<^verbatim>\<open>send_with_retry\<close>, \<^verbatim>\<open>backoff_for_attempt\<close>,
  \<^verbatim>\<open>jittered_backoff_for_attempt\<close> and \<^verbatim>\<open>jitter_for_base\<close>, whose texts in \<^verbatim>\<open>providers/openai_compat.rs\<close> and
  \<^verbatim>\<open>providers/anthropic.rs\<close> agree. A duration is its number of nanoseconds. The arguments of the loop are what
  attempt \<open>n\<close> gives and what the clock reads after it; it returns the durations slept as well, and \<^const>\<open>None\<close>
  where the addition of two durations panics. \<^verbatim>\<open>JITTER_COUNTER\<close> is passed along. Arithmetic on \<^verbatim>\<open>u32\<close> wraps as it does
  in a release build; the properties leave out the one value of \<^verbatim>\<open>max_retries\<close> where it would.
\<close>

unbundle bit_operations_syntax

section \<open>Definitions\<close>

record RetryPolicy =
  rp_max_retries :: u32
  rp_initial_backoff :: duration
  rp_max_backoff :: duration

definition default_policy :: RetryPolicy where
  "default_policy = \<lparr>rp_max_retries = 8, rp_initial_backoff = 1000000000, rp_max_backoff = 128000000000\<rparr>"

text \<open>The first number of nanoseconds that a \<^verbatim>\<open>Duration\<close> cannot hold.\<close>

definition duration_limit :: nat where
  "duration_limit = 2 ^ 64 * 1000000000"

definition backoff_for_attempt :: "RetryPolicy \<Rightarrow> u32 \<Rightarrow> ApiError + duration" where
  "backoff_for_attempt p attempt =
     (let shift = saturating_sub attempt 1
      in if 32 \<le> shift then Inl (BackoffOverflow attempt (rp_initial_backoff p))
         else let delay = rp_initial_backoff p * 2 ^ unat shift
              in Inr (if delay < duration_limit then min delay (rp_max_backoff p) else rp_max_backoff p))"

definition nanos_u64 :: "duration \<Rightarrow> u64" where
  "nanos_u64 d = (if d < 2 ^ 64 then of_nat d else - 1)"

text \<open>The finalizer of splitmix64.\<close>

definition mix :: "u64 \<Rightarrow> u64" where
  "mix z =
     (let z1 = (z XOR drop_bit 30 z) * 0xBF58476D1CE4E5B9;
          z2 = (z1 XOR drop_bit 27 z1) * 0x94D049BB133111EB
      in z2 XOR drop_bit 31 z2)"

definition jitter_for_base :: "duration option \<Rightarrow> duration \<Rightarrow> u64 \<Rightarrow> duration \<times> u64" where
  "jitter_for_base now base tick =
     (let base_nanos = nanos_u64 base
      in if base_nanos = 0 then (0, tick)
         else let raw_nanos = (case now of Some elapsed \<Rightarrow> nanos_u64 elapsed | None \<Rightarrow> 0);
                  mixed = mix (raw_nanos + tick + 0x9E3779B97F4A7C15);
                  bound = (if base_nanos = - 1 then - 1 else base_nanos + 1)
              in (unat (mixed mod bound), tick + 1))"

function retry_loop ::
  "RetryPolicy \<Rightarrow> (u32 \<Rightarrow> ApiError + 'r) \<Rightarrow> (u32 \<Rightarrow> duration option) \<Rightarrow> u32 \<Rightarrow> u64
     \<Rightarrow> ((ApiError + 'r) \<times> duration list \<times> u64) option" where
  "retry_loop p attempt now attempts tick =
     (case attempt attempts of
        Inr response \<Rightarrow> Some (Inr response, [], tick)
      | Inl err \<Rightarrow>
          if is_retryable err \<and> attempts \<le> rp_max_retries p + 1
          then if rp_max_retries p < attempts then Some (Inl (RetriesExhausted attempts err), [], tick)
               else case backoff_for_attempt p attempts of
                      Inl overflow \<Rightarrow> Some (Inl overflow, [], tick)
                    | Inr base \<Rightarrow>
                        let (jitter, tick') = jitter_for_base (now attempts) base tick
                        in if duration_limit \<le> base + jitter then None
                           else map_option (\<lambda>(r, sleeps, t). (r, (base + jitter) # sleeps, t))
                                  (retry_loop p attempt now (attempts + 1) tick')
          else Some (Inl err, [], tick))"
  by pat_completeness auto

lemma backoff_attempt_bound:
  "backoff_for_attempt p n = Inr b \<Longrightarrow> unat n \<le> 32 \<and> unat (n + 1) = unat n + 1"
proof -
  assume "backoff_for_attempt p n = Inr b"
  then have "\<not> 32 \<le> saturating_sub n 1" by (auto simp: backoff_for_attempt_def Let_def split: if_splits)
  then have "unat n \<le> 32"
    by (auto simp: saturating_sub_def word_le_nat_alt unat_sub split: if_splits)
  moreover from this have "unat (n + 1) = unat n + 1" by (simp add: unat_word_ariths)
  ultimately show ?thesis by blast
qed

termination retry_loop
proof (relation "measure (\<lambda>(p, attempt, now, attempts, tick). 33 - unat attempts)")
qed (auto dest: backoff_attempt_bound)

declare retry_loop.simps [simp del]

section \<open>Lemmas\<close>

text \<open>The delay before jitter, doubling up to the maximum.\<close>

definition base_delay :: "RetryPolicy \<Rightarrow> nat \<Rightarrow> duration" where
  "base_delay p n = min (rp_initial_backoff p * 2 ^ (n - 1)) (rp_max_backoff p)"

lemma backoff_eq:
  assumes "1 \<le> n" and "n \<le> 32" and "rp_max_backoff p < duration_limit"
  shows "backoff_for_attempt p (of_nat n) = Inr (base_delay p n)"
proof -
  have "unat (of_nat n :: u32) = n" using assms(2) by (simp add: unat_of_nat take_bit_nat_eq_self_iff)
  then have "saturating_sub (of_nat n) 1 = (of_nat (n - 1) :: u32)"
    using assms(1) by (simp add: saturating_sub_def word_le_nat_alt of_nat_diff)
  moreover have "unat (of_nat (n - 1) :: u32) = n - 1" using assms(2) by (simp add: unat_of_nat take_bit_nat_eq_self_iff)
  ultimately show ?thesis using assms
    by (auto simp: backoff_for_attempt_def Let_def word_le_nat_alt base_delay_def min_def)
qed

lemma backoff_overflows: "backoff_for_attempt p 33 = Inl (BackoffOverflow 33 (rp_initial_backoff p))"
  by (simp add: backoff_for_attempt_def saturating_sub_def)

lemma unat_mod_less: "(b :: u64) \<noteq> 0 \<Longrightarrow> unat (m mod b) < unat b"
  by (simp add: unat_mod unat_gt_0)

lemma jitter_le_base: "fst (jitter_for_base now base tick) \<le> base"
proof (cases "base < 2 ^ 64")
  case True
  then have u: "unat (of_nat base :: u64) = base" by (simp add: unat_of_nat take_bit_nat_eq_self_iff)
  have "unat (m mod (of_nat base + 1 :: u64)) \<le> base" if "of_nat base \<noteq> (- 1 :: u64)" for m
  proof -
    have "(of_nat base + 1 :: u64) \<noteq> 0" using that by (metis add_eq_0_iff2)
    then have "unat (of_nat base + 1 :: u64) = base + 1" using u by (metis unatSuc Suc_eq_plus1 add.commute)
    with unat_mod_less [OF \<open>of_nat base + 1 \<noteq> 0\<close>, of m] show ?thesis by simp
  qed
  moreover have "unat (m mod (- 1 :: u64)) \<le> base" if "of_nat base = (- 1 :: u64)" for m
    using unat_mod_less [of "- 1" m] u [unfolded that] by simp
  ultimately show ?thesis using True by (auto simp: jitter_for_base_def nanos_u64_def Let_def)
next
  case False
  have "unat (m :: u64) \<le> base" for m using False unsigned_less [of m, where 'a = nat] by simp
  then show ?thesis by (auto simp: jitter_for_base_def Let_def)
qed

text \<open>How many attempts are made at most, and what the request comes to.\<close>

definition attempt_limit :: "RetryPolicy \<Rightarrow> nat" where
  "attempt_limit p = min (unat (rp_max_retries p) + 1) 33"

definition retryable_at :: "(u32 \<Rightarrow> ApiError + 'r) \<Rightarrow> nat \<Rightarrow> bool" where
  "retryable_at attempt n \<longleftrightarrow> (case attempt (of_nat n) of Inl e \<Rightarrow> is_retryable e | Inr _ \<Rightarrow> False)"

definition last_verdict :: "RetryPolicy \<Rightarrow> (u32 \<Rightarrow> ApiError + 'r) \<Rightarrow> ApiError + 'r" where
  "last_verdict p attempt =
     (if rp_max_retries p \<le> 32
      then Inl (RetriesExhausted (rp_max_retries p + 1) (projl (attempt (rp_max_retries p + 1))))
      else Inl (BackoffOverflow 33 (rp_initial_backoff p)))"

definition verdict :: "RetryPolicy \<Rightarrow> (u32 \<Rightarrow> ApiError + 'r) \<Rightarrow> nat \<Rightarrow> ApiError + 'r" where
  "verdict p attempt n =
     (case find (\<lambda>k. \<not> retryable_at attempt k) [n..<attempt_limit p + 1] of
        Some k \<Rightarrow> attempt (of_nat k)
      | None \<Rightarrow> last_verdict p attempt)"

definition sleeps_ok :: "RetryPolicy \<Rightarrow> nat \<Rightarrow> duration list \<Rightarrow> bool" where
  "sleeps_ok p n sleeps \<longleftrightarrow> n + length sleeps \<le> attempt_limit p
     \<and> (\<forall>i < length sleeps. base_delay p (n + i) \<le> sleeps ! i \<and> sleeps ! i \<le> 2 * base_delay p (n + i))"

lemma sleeps_ok_Nil: "n \<le> attempt_limit p \<Longrightarrow> sleeps_ok p n []"
  by (simp add: sleeps_ok_def)

lemma sleeps_ok_Cons:
  "base_delay p n \<le> d \<Longrightarrow> d \<le> 2 * base_delay p n \<Longrightarrow> sleeps_ok p (Suc n) ds \<Longrightarrow> sleeps_ok p n (d # ds)"
  by (auto simp: sleeps_ok_def nth_Cons split: nat.split)

lemma verdict_step:
  "n \<le> attempt_limit p \<Longrightarrow> verdict p attempt n
    = (if retryable_at attempt n then (if n = attempt_limit p then last_verdict p attempt else verdict p attempt (Suc n))
       else attempt (of_nat n))"
  by (simp add: verdict_def upt_rec [of n])

lemma attempt_word:
  assumes "n \<le> attempt_limit p" and "rp_max_retries p \<noteq> - 1"
  shows "unat (of_nat n :: u32) = n" and "(of_nat n :: u32) \<le> rp_max_retries p + 1"
    and "rp_max_retries p < of_nat n \<longleftrightarrow> n = unat (rp_max_retries p) + 1"
proof -
  show u: "unat (of_nat n :: u32) = n" using assms(1) by (simp add: attempt_limit_def unat_of_nat take_bit_nat_eq_self_iff)
  have "rp_max_retries p + 1 \<noteq> 0" using assms(2) by (metis add_eq_0_iff2)
  then have "unat (rp_max_retries p + 1) = unat (rp_max_retries p) + 1" by (metis unatSuc Suc_eq_plus1 add.commute)
  with u assms(1) show "(of_nat n :: u32) \<le> rp_max_retries p + 1"
    by (simp add: word_le_nat_alt attempt_limit_def)
  show "rp_max_retries p < of_nat n \<longleftrightarrow> n = unat (rp_max_retries p) + 1"
    using u assms(1) by (auto simp: word_less_nat_alt attempt_limit_def)
qed

lemma last_verdict_attempt:
  assumes "attempt_limit p = unat (rp_max_retries p) + 1"
  shows "last_verdict p attempt
    = Inl (RetriesExhausted (of_nat (attempt_limit p)) (projl (attempt (of_nat (attempt_limit p)))))"
proof -
  have "rp_max_retries p \<le> 32" using assms by (simp add: attempt_limit_def word_le_nat_alt)
  moreover have "rp_max_retries p + 1 = of_nat (attempt_limit p)" using assms by simp
  ultimately show ?thesis unfolding last_verdict_def by metis
qed

lemma last_verdict_overflow:
  "attempt_limit p \<noteq> unat (rp_max_retries p) + 1 \<Longrightarrow> attempt_limit p = 33
    \<and> last_verdict p attempt = Inl (BackoffOverflow 33 (rp_initial_backoff p))"
  by (auto simp: attempt_limit_def last_verdict_def word_le_nat_alt)

lemma retry_loop_verdict:
  assumes "2 * rp_max_backoff p < duration_limit" and "rp_max_retries p \<noteq> - 1"
  shows "1 \<le> n \<Longrightarrow> n \<le> attempt_limit p
    \<Longrightarrow> \<exists>sleeps t. retry_loop p attempt now (of_nat n) tick = Some (verdict p attempt n, sleeps, t) \<and> sleeps_ok p n sleeps"
proof (induction "attempt_limit p - n" arbitrary: n tick rule: less_induct)
  case less
  note w = attempt_word [OF less.prems(2) assms(2)]
  show ?case
  proof (cases "retryable_at attempt n")
    case False
    then have "retry_loop p attempt now (of_nat n) tick = Some (attempt (of_nat n), [], tick)"
      by (auto simp: retry_loop.simps [of p attempt now "of_nat n"] retryable_at_def split: sum.splits)
    then show ?thesis using False less.prems by (auto simp: verdict_step sleeps_ok_Nil)
  next
    case True
    then obtain e where e: "attempt (of_nat n) = Inl e" "is_retryable e" by (auto simp: retryable_at_def split: sum.splits)
    consider "n = unat (rp_max_retries p) + 1" | "n \<noteq> unat (rp_max_retries p) + 1" "n = 33"
      | "n \<noteq> unat (rp_max_retries p) + 1" "n < attempt_limit p" "n \<le> 32"
      using less.prems(2) by (cases "n \<le> 32") (auto simp: attempt_limit_def min_def split: if_splits)
    then show ?thesis
    proof cases
      case 1
      then have l: "n = attempt_limit p" using less.prems(2) by (simp add: attempt_limit_def)
      then have "verdict p attempt n = Inl (RetriesExhausted (of_nat n) e)"
        using last_verdict_attempt [of p attempt] True 1 e(1) by (simp add: verdict_step)
      moreover have "rp_max_retries p < of_nat n" using w(3) 1 by blast
      then have "retry_loop p attempt now (of_nat n) tick = Some (Inl (RetriesExhausted (of_nat n) e), [], tick)"
        using e w(2) by (subst retry_loop.simps) simp
      ultimately show ?thesis using sleeps_ok_Nil [OF less.prems(2)] by metis
    next
      case 2
      then have l: "n = attempt_limit p" using less.prems(2) by (simp add: attempt_limit_def)
      have "verdict p attempt n = last_verdict p attempt"
        unfolding verdict_step [OF less.prems(2)] if_P [OF True] if_P [OF l] ..
      then have "verdict p attempt n = Inl (BackoffOverflow 33 (rp_initial_backoff p))"
        using last_verdict_overflow [of p attempt] 2(1) unfolding l [symmetric] by metis
      moreover have "\<not> rp_max_retries p < of_nat n" using w(3) 2(1) by blast
      moreover have "backoff_for_attempt p (of_nat n) = Inl (BackoffOverflow 33 (rp_initial_backoff p))"
        using backoff_overflows 2(2) by simp
      ultimately have "retry_loop p attempt now (of_nat n) tick = Some (verdict p attempt n, [], tick)"
        using e w(2) by (subst retry_loop.simps) simp
      then show ?thesis using sleeps_ok_Nil [OF less.prems(2)] by metis
    next
      case 3
      have n: "\<not> rp_max_retries p < of_nat n" using w(3) 3(1) by blast
      obtain j t where j: "jitter_for_base (now (of_nat n)) (base_delay p n) tick = (j, t)" by fastforce
      then have le: "j \<le> base_delay p n" using jitter_le_base by (metis fst_conv)
      moreover have "base_delay p n \<le> rp_max_backoff p" by (simp add: base_delay_def)
      ultimately have "base_delay p n + j < duration_limit" using assms(1) by linarith
      moreover have "backoff_for_attempt p (of_nat n) = Inr (base_delay p n)"
        using assms(1) by (intro backoff_eq [OF less.prems(1) 3(3)]) linarith
      ultimately have "retry_loop p attempt now (of_nat n) tick
          = map_option (\<lambda>(r, sleeps, t). (r, (base_delay p n + j) # sleeps, t)) (retry_loop p attempt now (of_nat (Suc n)) t)"
        using e w(2) n j by (subst retry_loop.simps) (simp add: add.commute)
      moreover obtain sleeps t' where "retry_loop p attempt now (of_nat (Suc n)) t = Some (verdict p attempt (Suc n), sleeps, t')"
        "sleeps_ok p (Suc n) sleeps" using less.hyps [of "Suc n" t] diff_less_mono2 [OF lessI 3(2)] 3(2) by auto
      moreover have "verdict p attempt n = verdict p attempt (Suc n)" using True 3(2) by (simp add: verdict_step)
      ultimately show ?thesis using sleeps_ok_Cons [of p n "base_delay p n + j" sleeps] le by simp
    qed
  qed
qed


section \<open>Properties\<close>


text \<open>A server that is overloaded twice and then answers.\<close>

definition sample_attempt :: "u32 \<Rightarrow> ApiError + nat" where
  "sample_attempt n = (if n \<le> 2 then Inl (Api 503 None None None [] True None) else Inr 7)"


end
