(* ===== verification/Providers.thy ===== *)
theory Providers
  imports Retry
begin

text \<open>
  The choice of a provider and the check of a request's size, \<^verbatim>\<open>api/src/providers/mod.rs\<close>, and the credentials in
  the environment that both clients read. The environment is an argument: what \<^verbatim>\<open>std::env::var\<close> gives for a name, and
  the text of the file \<^verbatim>\<open>.env\<close> in the working directory, if it can be read. The sizes of the serialized parts of a
  request are an argument too, as \<^verbatim>\<open>serde_json::to_vec\<close> determines them.
\<close>

section \<open>Definitions\<close>

subsection \<open>The environment\<close>

datatype VarResult = VarSet ustr | VarMissing | VarInvalid ustr

record Env =
  env_var :: "ustr \<Rightarrow> VarResult"
  env_dotenv :: "ustr option"

definition var_os_set :: "Env \<Rightarrow> ustr \<Rightarrow> bool" where
  "var_os_set env key \<longleftrightarrow> env_var env key \<noteq> VarMissing"

definition unquote :: "ustr \<Rightarrow> ustr" where
  "unquote v =
     (if (starts_with [34] v \<and> ends_with [34] v \<or> starts_with [39] v \<and> ends_with [39] v) \<and> 2 \<le> str_len v
      then butlast (tl v) else v)"

definition dotenv_entry :: "ustr \<Rightarrow> (ustr \<times> ustr) option" where
  "dotenv_entry raw_line =
     (let line = trim raw_line
      in if line = [] \<or> starts_with (lit ''#'') line then None
         else case split_once (lit ''='') line of
                None \<Rightarrow> None
              | Some (raw_key, raw_value) \<Rightarrow>
                  let trimmed_key = trim raw_key;
                      key = (case strip_prefix (lit ''export '') trimmed_key of Some k \<Rightarrow> trim k | None \<Rightarrow> trimmed_key)
                  in if key = [] then None else Some (key, unquote (trim raw_value)))"

definition parse_dotenv :: "ustr \<Rightarrow> ustr \<rightharpoonup> ustr" where
  "parse_dotenv content =
     fold (\<lambda>l m. case dotenv_entry l of Some (k, v) \<Rightarrow> m(k \<mapsto> v) | None \<Rightarrow> m) (lines content) Map.empty"

definition load_dotenv_file :: "Env \<Rightarrow> (ustr \<rightharpoonup> ustr) option" where
  "load_dotenv_file env = map_option parse_dotenv (env_dotenv env)"

definition dotenv_value :: "Env \<Rightarrow> ustr \<Rightarrow> ustr option" where
  "dotenv_value env key =
     Option.bind (load_dotenv_file env) (\<lambda>values.
       case values key of Some v \<Rightarrow> if v \<noteq> [] then Some v else None | None \<Rightarrow> None)"

definition read_env_non_empty :: "Env \<Rightarrow> ustr \<Rightarrow> ApiError + ustr option" where
  "read_env_non_empty env key =
     (case env_var env key of
        VarSet value \<Rightarrow> if value \<noteq> [] then Inr (Some value) else Inr (dotenv_value env key)
      | VarMissing \<Rightarrow> Inr (dotenv_value env key)
      | VarInvalid err \<Rightarrow> Inl (InvalidApiKeyEnv err))"

definition env_or_dotenv_present :: "Env \<Rightarrow> ustr \<Rightarrow> bool" where
  "env_or_dotenv_present env key =
     (case env_var env key of
        VarSet value \<Rightarrow> if value \<noteq> [] then True
          else (case dotenv_value env key of Some v \<Rightarrow> v \<noteq> [] | None \<Rightarrow> False)
      | VarMissing \<Rightarrow> (case dotenv_value env key of Some v \<Rightarrow> v \<noteq> [] | None \<Rightarrow> False)
      | VarInvalid err \<Rightarrow> False)"

definition has_api_key :: "Env \<Rightarrow> ustr \<Rightarrow> bool" where
  "has_api_key env key = (case read_env_non_empty env key of Inr (Some _) \<Rightarrow> True | _ \<Rightarrow> False)"

definition has_auth_from_env_or_saved :: "Env \<Rightarrow> ApiError + bool" where
  "has_auth_from_env_or_saved env =
     rbind (read_env_non_empty env (lit ''ANTHROPIC_API_KEY'')) (\<lambda>api_key.
       if api_key \<noteq> None then Inr True
       else rbind (read_env_non_empty env (lit ''ANTHROPIC_AUTH_TOKEN'')) (\<lambda>token. Inr (token \<noteq> None)))"

subsection \<open>Missing credentials\<close>

definition FOREIGN_PROVIDER_ENV_VARS :: "(ustr \<times> ustr \<times> ustr) list" where
  "FOREIGN_PROVIDER_ENV_VARS =
     [(lit ''OPENAI_API_KEY'', lit ''OpenAI-compat'',
       lit ''prefix your model name with `openai/` (e.g. `--model openai/gpt-4.1-mini`) so prefix routing selects the OpenAI-compatible provider, and set `OPENAI_BASE_URL` if you are pointing at OpenRouter/Ollama/a local server''),
      (lit ''XAI_API_KEY'', lit ''xAI'',
       lit ''use an xAI model alias (e.g. `--model grok` or `--model grok-mini`) so the prefix router selects the xAI backend''),
      (lit ''DASHSCOPE_API_KEY'', lit ''Alibaba DashScope'',
       lit ''prefix your model name with `qwen/` or `qwen-` (e.g. `--model qwen-plus`) so prefix routing selects the DashScope backend'')]"

definition anthropic_missing_credentials_hint :: "Env \<Rightarrow> ustr option" where
  "anthropic_missing_credentials_hint env =
     find_map (\<lambda>(env_var, provider_label, fix_hint).
       if env_or_dotenv_present env env_var
       then Some (lit ''I see '' @ env_var @ lit '' is set '' @ [8212] @ lit '' if you meant to use the ''
                  @ provider_label @ lit '' provider, '' @ fix_hint @ lit ''.'')
       else None) FOREIGN_PROVIDER_ENV_VARS"

definition anthropic_missing_credentials :: "Env \<Rightarrow> ApiError" where
  "anthropic_missing_credentials env =
     (let env_vars = [lit ''ANTHROPIC_AUTH_TOKEN'', lit ''ANTHROPIC_API_KEY'']
      in case anthropic_missing_credentials_hint env of
           Some hint \<Rightarrow> missing_credentials_with_hint (lit ''Anthropic'') env_vars hint
         | None \<Rightarrow> missing_credentials (lit ''Anthropic'') env_vars)"

subsection \<open>Models and providers\<close>

datatype ProviderKind = Anthropic | Xai | OpenAi

record ProviderMetadata =
  pm_provider :: ProviderKind
  pm_auth_env :: ustr
  pm_base_url_env :: ustr
  pm_default_base_url :: ustr

definition anthropic_metadata :: ProviderMetadata where
  "anthropic_metadata = \<lparr>pm_provider = Anthropic, pm_auth_env = lit ''ANTHROPIC_API_KEY'',
     pm_base_url_env = lit ''ANTHROPIC_BASE_URL'', pm_default_base_url = lit ''https://api.anthropic.com''\<rparr>"

definition xai_metadata :: ProviderMetadata where
  "xai_metadata = \<lparr>pm_provider = Xai, pm_auth_env = lit ''XAI_API_KEY'',
     pm_base_url_env = lit ''XAI_BASE_URL'', pm_default_base_url = lit ''https://api.x.ai/v1''\<rparr>"

definition openai_metadata :: ProviderMetadata where
  "openai_metadata = \<lparr>pm_provider = OpenAi, pm_auth_env = lit ''OPENAI_API_KEY'',
     pm_base_url_env = lit ''OPENAI_BASE_URL'', pm_default_base_url = lit ''https://api.openai.com/v1''\<rparr>"

definition dashscope_metadata :: ProviderMetadata where
  "dashscope_metadata = \<lparr>pm_provider = OpenAi, pm_auth_env = lit ''DASHSCOPE_API_KEY'',
     pm_base_url_env = lit ''DASHSCOPE_BASE_URL'',
     pm_default_base_url = lit ''https://dashscope.aliyuncs.com/compatible-mode/v1''\<rparr>"

definition MODEL_REGISTRY :: "(ustr \<times> ProviderMetadata) list" where
  "MODEL_REGISTRY =
     [(lit ''opus'', anthropic_metadata), (lit ''sonnet'', anthropic_metadata), (lit ''haiku'', anthropic_metadata),
      (lit ''grok'', xai_metadata), (lit ''grok-3'', xai_metadata), (lit ''grok-mini'', xai_metadata),
      (lit ''grok-3-mini'', xai_metadata), (lit ''grok-2'', xai_metadata), (lit ''kimi'', dashscope_metadata)]"

definition alias_target :: "ProviderKind \<Rightarrow> ustr \<Rightarrow> ustr \<Rightarrow> ustr" where
  "alias_target kind alias trimmed =
     (case kind of
        Anthropic \<Rightarrow> if alias = lit ''opus'' then lit ''claude-opus-4-6''
                     else if alias = lit ''sonnet'' then lit ''claude-sonnet-4-6''
                     else if alias = lit ''haiku'' then lit ''claude-haiku-4-5-20251213'' else trimmed
      | Xai \<Rightarrow> if alias = lit ''grok'' \<or> alias = lit ''grok-3'' then lit ''grok-3''
               else if alias = lit ''grok-mini'' \<or> alias = lit ''grok-3-mini'' then lit ''grok-3-mini''
               else if alias = lit ''grok-2'' then lit ''grok-2'' else trimmed
      | OpenAi \<Rightarrow> if alias = lit ''kimi'' then lit ''kimi-k2.5'' else trimmed)"

definition resolve_model_alias :: "ustr \<Rightarrow> ustr" where
  "resolve_model_alias model =
     (let trimmed = trim model; lower = to_ascii_lowercase trimmed
      in case find_map (\<lambda>(alias, metadata).
                if alias = lower then Some (alias_target (pm_provider metadata) alias trimmed) else None) MODEL_REGISTRY of
           Some name \<Rightarrow> name
         | None \<Rightarrow> trimmed)"

definition metadata_for_model :: "ustr \<Rightarrow> ProviderMetadata option" where
  "metadata_for_model model =
     (let canonical = resolve_model_alias model
      in if starts_with (lit ''claude'') canonical then Some anthropic_metadata
         else if starts_with (lit ''grok'') canonical then Some xai_metadata
         else if starts_with (lit ''openai/'') canonical \<or> starts_with (lit ''gpt-'') canonical then Some openai_metadata
         else if starts_with (lit ''qwen/'') canonical \<or> starts_with (lit ''qwen-'') canonical then Some dashscope_metadata
         else if starts_with (lit ''kimi/'') canonical \<or> starts_with (lit ''kimi-'') canonical then Some dashscope_metadata
         else None)"

definition detect_provider_kind :: "Env \<Rightarrow> ustr \<Rightarrow> ProviderKind" where
  "detect_provider_kind env model =
     (case metadata_for_model model of
        Some metadata \<Rightarrow> pm_provider metadata
      | None \<Rightarrow>
          if var_os_set env (lit ''OPENAI_BASE_URL'') \<and> has_api_key env (lit ''OPENAI_API_KEY'') then OpenAi
          else if (case has_auth_from_env_or_saved env of Inr b \<Rightarrow> b | Inl _ \<Rightarrow> False) then Anthropic
          else if has_api_key env (lit ''OPENAI_API_KEY'') then OpenAi
          else if has_api_key env (lit ''XAI_API_KEY'') then Xai
          else if var_os_set env (lit ''OPENAI_BASE_URL'') then OpenAi
          else Anthropic)"

datatype ModelFamilyIdentity = Claude | Generic

definition model_family_identity_for_kind :: "ProviderKind \<Rightarrow> ModelFamilyIdentity" where
  "model_family_identity_for_kind kind = (case kind of Anthropic \<Rightarrow> Claude | Xai \<Rightarrow> Generic | OpenAi \<Rightarrow> Generic)"

definition model_family_identity_for :: "Env \<Rightarrow> ustr \<Rightarrow> ModelFamilyIdentity" where
  "model_family_identity_for env model = model_family_identity_for_kind (detect_provider_kind env model)"

subsection \<open>Token limits\<close>

record ModelTokenLimit =
  max_output_tokens :: u32
  context_window_tokens :: u32

text \<open>\<^verbatim>\<open>rsplit('/').next()\<close>: what follows the last slash.\<close>

definition after_last_slash :: "ustr \<Rightarrow> ustr" where
  "after_last_slash s = rev (takeWhile (\<lambda>c. c \<noteq> 47) (rev s))"

definition model_token_limit :: "ustr \<Rightarrow> ModelTokenLimit option" where
  "model_token_limit model =
     (let base_model = after_last_slash (resolve_model_alias model)
      in if base_model = lit ''claude-opus-4-6''
         then Some \<lparr>max_output_tokens = 32000, context_window_tokens = 200000\<rparr>
         else if base_model \<in> {lit ''claude-sonnet-4-6'', lit ''claude-haiku-4-5-20251213''}
         then Some \<lparr>max_output_tokens = 64000, context_window_tokens = 200000\<rparr>
         else if base_model \<in> {lit ''grok-3'', lit ''grok-3-mini''}
         then Some \<lparr>max_output_tokens = 64000, context_window_tokens = 131072\<rparr>
         else if base_model \<in> {lit ''gpt-4.1'', lit ''gpt-4.1-mini'', lit ''gpt-4.1-nano''}
         then Some \<lparr>max_output_tokens = 32768, context_window_tokens = 1047576\<rparr>
         else if base_model = lit ''gpt-5.4''
         then Some \<lparr>max_output_tokens = 128000, context_window_tokens = 1000000\<rparr>
         else if base_model \<in> {lit ''gpt-5.4-mini'', lit ''gpt-5.4-nano''}
         then Some \<lparr>max_output_tokens = 128000, context_window_tokens = 400000\<rparr>
         else if base_model \<in> {lit ''kimi-k2.5'', lit ''kimi-k1.5''}
         then Some \<lparr>max_output_tokens = 16384, context_window_tokens = 256000\<rparr>
         else None)"

definition max_tokens_for_model :: "ustr \<Rightarrow> u32" where
  "max_tokens_for_model model =
     (let heuristic = (if contains (lit ''opus'') (resolve_model_alias model) then 32000 else 64000)
      in case model_token_limit model of
           Some limit \<Rightarrow> min heuristic (max_output_tokens limit)
         | None \<Rightarrow> heuristic)"

definition max_tokens_for_model_with_override :: "ustr \<Rightarrow> u32 option \<Rightarrow> u32" where
  "max_tokens_for_model_with_override model plugin_override =
     (case plugin_override of Some n \<Rightarrow> n | None \<Rightarrow> max_tokens_for_model model)"

subsection \<open>The size of a request\<close>

definition saturating_add :: "'a :: len word \<Rightarrow> 'a word \<Rightarrow> 'a word" where
  "saturating_add a b = (if unat a + unat b < 2 ^ LENGTH('a) then a + b else - 1)"

record Sizes =
  sz_messages :: "InputMessage list \<Rightarrow> nat option"
  sz_system :: "ustr option \<Rightarrow> nat option"
  sz_tools :: "ToolDefinition list option \<Rightarrow> nat option"
  sz_tool_choice :: "ToolChoice option \<Rightarrow> nat option"

definition estimate_serialized_tokens :: "nat option \<Rightarrow> u32" where
  "estimate_serialized_tokens bytes = (case bytes of Some n \<Rightarrow> of_nat (n div 4 + 1) | None \<Rightarrow> 0)"

definition estimate_message_request_input_tokens :: "Sizes \<Rightarrow> MessageRequest \<Rightarrow> u32" where
  "estimate_message_request_input_tokens sz r =
     (let estimate = estimate_serialized_tokens (sz_messages sz (req_messages r));
          estimate = saturating_add estimate (estimate_serialized_tokens (sz_system sz (req_system r)));
          estimate = saturating_add estimate (estimate_serialized_tokens (sz_tools sz (req_tools r)));
          estimate = saturating_add estimate (estimate_serialized_tokens (sz_tool_choice sz (req_tool_choice r)))
      in estimate)"

text \<open>The comparison that is made with an estimate here and with the counted tokens in the Anthropic client.\<close>

definition check_window :: "MessageRequest \<Rightarrow> ModelTokenLimit \<Rightarrow> u32 \<Rightarrow> ApiError + unit" where
  "check_window r limit inp =
     (let total_tokens = saturating_add inp (req_max_tokens r)
      in if context_window_tokens limit < total_tokens
         then Inl (ContextWindowExceeded (resolve_model_alias (req_model r)) inp (req_max_tokens r)
                total_tokens (context_window_tokens limit))
         else Inr ())"

definition preflight_message_request :: "Sizes \<Rightarrow> MessageRequest \<Rightarrow> ApiError + unit" where
  "preflight_message_request sz r =
     (case model_token_limit (req_model r) of
        None \<Rightarrow> Inr ()
      | Some limit \<Rightarrow> check_window r limit (estimate_message_request_input_tokens sz r))"


section \<open>Lemmas\<close>

lemma registry_miss:
  "lower \<notin> fst ` set MODEL_REGISTRY \<Longrightarrow>
    find_map (\<lambda>(alias, metadata). if alias = lower then Some (f alias metadata) else None) MODEL_REGISTRY = None"
  by (force simp: find_map_None)

lemma resolve_other:
  "to_ascii_lowercase (trim m) \<notin> fst ` set MODEL_REGISTRY \<Longrightarrow> resolve_model_alias m = trim m"
  unfolding resolve_model_alias_def Let_def by (subst registry_miss) simp_all

lemma resolve_known:
  "to_ascii_lowercase (trim m) \<in> fst ` set MODEL_REGISTRY
    \<Longrightarrow> resolve_model_alias m \<in> {lit ''claude-opus-4-6'', lit ''claude-sonnet-4-6'', lit ''claude-haiku-4-5-20251213'',
      lit ''grok-3'', lit ''grok-3-mini'', lit ''grok-2'', lit ''kimi-k2.5''}"
  by (auto simp: resolve_model_alias_def MODEL_REGISTRY_def alias_target_def Let_def anthropic_metadata_def xai_metadata_def
      dashscope_metadata_def)

lemma resolve_targets:
  "\<forall>m \<in> {lit ''claude-opus-4-6'', lit ''claude-sonnet-4-6'', lit ''claude-haiku-4-5-20251213'',
      lit ''grok-3'', lit ''grok-3-mini'', lit ''grok-2'', lit ''kimi-k2.5''}. resolve_model_alias m = m"
  by code_simp

lemma unat_saturating_add: "unat (saturating_add a b :: 'a :: len word) = min (unat a + unat b) (2 ^ LENGTH('a) - 1)"
proof (cases "unat a + unat b < 2 ^ LENGTH('a)")
  case True
  then have "unat (a + b) = unat a + unat b" by (simp add: unat_word_ariths)
  then show ?thesis using True by (simp add: saturating_add_def)
next
  case False
  then show ?thesis by (simp add: saturating_add_def unsigned_minus_1_eq_mask mask_eq_exp_minus_1)
qed


text \<open>What the sizes come to as a number, when no part is larger than 16 GB.\<close>

definition part_tokens :: "nat option \<Rightarrow> nat" where
  "part_tokens bytes = (case bytes of Some n \<Rightarrow> n div 4 + 1 | None \<Rightarrow> 0)"

definition request_tokens :: "Sizes \<Rightarrow> MessageRequest \<Rightarrow> nat" where
  "request_tokens sz r =
     part_tokens (sz_messages sz (req_messages r)) + part_tokens (sz_system sz (req_system r))
     + part_tokens (sz_tools sz (req_tools r)) + part_tokens (sz_tool_choice sz (req_tool_choice r))"

definition fits_u32 :: "nat option \<Rightarrow> bool" where
  "fits_u32 bytes \<longleftrightarrow> part_tokens bytes < 2 ^ 32"

definition measurable :: "Sizes \<Rightarrow> MessageRequest \<Rightarrow> bool" where
  "measurable sz r \<longleftrightarrow> fits_u32 (sz_messages sz (req_messages r)) \<and> fits_u32 (sz_system sz (req_system r))
     \<and> fits_u32 (sz_tools sz (req_tools r)) \<and> fits_u32 (sz_tool_choice sz (req_tool_choice r))"

lemma estimate_serialized: "fits_u32 bytes \<Longrightarrow> unat (estimate_serialized_tokens bytes) = part_tokens bytes"
  by (auto simp: estimate_serialized_tokens_def fits_u32_def part_tokens_def unat_of_nat take_bit_nat_eq_self_iff
      simp del: of_nat_add of_nat_Suc split: option.splits)

lemma estimate_request:
  "measurable sz r \<Longrightarrow> unat (estimate_message_request_input_tokens sz r) = min (request_tokens sz r) (2 ^ 32 - 1)"
  by (simp add: estimate_message_request_input_tokens_def measurable_def request_tokens_def unat_saturating_add estimate_serialized)

lemma limits:
  "model_token_limit m = Some l \<Longrightarrow> max_output_tokens l < context_window_tokens l \<and> context_window_tokens l < - 1"
  by (auto simp: model_token_limit_def Let_def split: if_splits)

section \<open>Properties\<close>

text \<open>Resolving an alias twice changes nothing: every resolved name stands for itself.\<close>

theorem resolve_model_alias_idem: "resolve_model_alias (resolve_model_alias m) = resolve_model_alias m"
proof (cases "to_ascii_lowercase (trim m) \<in> fst ` set MODEL_REGISTRY")
  case True
  then show ?thesis using resolve_known resolve_targets by blast
next
  case False
  then show ?thesis by (simp add: resolve_other)
qed

text \<open>C21: a request for a model whose window is known passes the check exactly if the estimated tokens of its parts and
  the tokens it asks for fit into the window, also where the 32-bit sums saturate; otherwise the error carries the
  estimate and the window.\<close>

theorem preflight_iff_fits:
  assumes "measurable sz r"
  shows "preflight_message_request sz r = Inr ()
    \<longleftrightarrow> (\<forall>l. model_token_limit (req_model r) = Some l
          \<longrightarrow> request_tokens sz r + unat (req_max_tokens r) \<le> unat (context_window_tokens l))"
proof (cases "model_token_limit (req_model r)")
  case None
  then show ?thesis by (simp add: preflight_message_request_def)
next
  case (Some l)
  have w: "unat (context_window_tokens l) < 2 ^ 32 - 1"
    using limits [OF Some] by (simp add: word_less_nat_alt unsigned_minus_1_eq_mask mask_eq_exp_minus_1)
  let ?t = "saturating_add (estimate_message_request_input_tokens sz r) (req_max_tokens r)"
  have "unat ?t = min (min (request_tokens sz r) (2 ^ 32 - 1) + unat (req_max_tokens r)) (2 ^ 32 - 1)"
    by (simp add: unat_saturating_add estimate_request [OF assms])
  then have "context_window_tokens l < ?t \<longleftrightarrow> unat (context_window_tokens l) < request_tokens sz r + unat (req_max_tokens r)"
    using w by (auto simp: word_less_nat_alt)
  then show ?thesis using Some by (auto simp: preflight_message_request_def check_window_def Let_def)
qed

definition sample_sizes :: Sizes where
  "sample_sizes = \<lparr>sz_messages = \<lambda>ms. Some (100 * length ms), sz_system = \<lambda>_. Some 4, sz_tools = \<lambda>_. Some 4,
     sz_tool_choice = \<lambda>_. Some 4\<rparr>"

definition sample_request :: MessageRequest where
  "sample_request =
     \<lparr>req_model = lit ''sonnet'', req_max_tokens = 64000, req_messages = [InputMessage_user_text (lit ''hi'')],
      req_system = None, req_tools = None, req_tool_choice = None, req_stream = True, req_temperature = None,
      req_top_p = None, req_frequency_penalty = None, req_presence_penalty = None, req_stop = None,
      req_reasoning_effort = None\<rparr>"

theorem preflight_iff_fits_witness: "preflight_message_request sample_sizes sample_request = Inr ()"
proof -
  have "measurable sample_sizes sample_request" by code_simp
  moreover have "model_token_limit (lit ''sonnet'') = Some \<lparr>max_output_tokens = 64000, context_window_tokens = 200000\<rparr>"
    by code_simp
  ultimately show ?thesis using preflight_iff_fits [of sample_sizes sample_request]
    by (simp add: sample_request_def request_tokens_def sample_sizes_def part_tokens_def)
qed


text \<open>A line of a \<^verbatim>\<open>.env\<close> file, with the value in double quotes.\<close>

definition dotenv_line :: "ustr \<times> ustr \<Rightarrow> ustr" where
  "dotenv_line kv = fst kv @ lit ''='' @ [34] @ snd kv @ [34]"

definition plain_entry :: "ustr \<times> ustr \<Rightarrow> bool" where
  "plain_entry kv \<longleftrightarrow> fst kv \<noteq> [] \<and> \<not> is_whitespace (hd (fst kv)) \<and> \<not> is_whitespace (last (fst kv))
     \<and> 61 \<notin> set (fst kv) \<and> 10 \<notin> set (fst kv) \<and> \<not> starts_with (lit ''#'') (fst kv)
     \<and> \<not> starts_with (lit ''export '') (fst kv) \<and> 10 \<notin> set (snd kv)"

lemma unquote_quoted: "unquote (34 # v @ [34]) = v"
  by (simp add: unquote_def starts_with_def ends_with_def str_len_def len_utf8_def)

lemma dotenv_entry_line:
  assumes "plain_entry kv"
  shows "dotenv_entry (dotenv_line kv) = Some kv"
proof -
  obtain k v where kv: "kv = (k, v)" by fastforce
  have k: "k \<noteq> []" "\<not> is_whitespace (hd k)" "\<not> is_whitespace (last k)" "61 \<notin> set k" "\<not> starts_with (lit ''#'') k"
    "\<not> starts_with (lit ''export '') k" using assms kv by (auto simp: plain_entry_def)
  let ?q = "34 # v @ [34]"
  have q: "\<not> is_whitespace 34" by (simp add: is_whitespace_def)
  have "trim (k @ 61 # ?q) = k @ 61 # ?q" "trim ?q = ?q" using k q by (auto intro!: trim_id)
  moreover have "split_once [61] (k @ 61 # ?q) = Some (k, ?q)" using split_once_char_first [OF k(4)] .
  moreover have "trim k = k" using k by (intro trim_id)
  moreover have "strip_prefix (lit ''export '') k = None" using k(6) by (metis not_None_eq strip_prefix_Some starts_with_append)
  moreover have "\<not> starts_with (lit ''#'') (k @ 61 # ?q)" using k(1,5) by (cases k) (simp_all add: starts_with_def lit_def)
  moreover have "lit ''='' = [61]" by (simp add: lit_def)
  ultimately show ?thesis using k(1) by (simp add: dotenv_entry_def dotenv_line_def kv Let_def unquote_quoted)
qed

lemma lines_end_lines:
  "\<forall>l \<in> set ls. 10 \<notin> set l \<and> l \<noteq> [] \<and> last l \<noteq> 13 \<Longrightarrow> lines (concat (map (\<lambda>l. l @ [10]) ls)) = ls"
  by (induction ls) (auto simp: lines_Cons_line strip_cr_def)

lemma dotenv_fold:
  "\<forall>kv \<in> set kvs. plain_entry kv \<Longrightarrow>
    fold (\<lambda>l m. case dotenv_entry l of Some (k, v) \<Rightarrow> m(k \<mapsto> v) | None \<Rightarrow> m) (map dotenv_line kvs) m = m ++ map_of (rev kvs)"
proof (induction kvs arbitrary: m)
  case (Cons kv kvs)
  then show ?case by (cases kv) (simp add: dotenv_entry_line map_add_def fun_eq_iff split: option.split)
qed simp

text \<open>The parser of \<^verbatim>\<open>.env\<close> files gives back every entry that was written with its value in quotes, the last one where
  a key occurs twice; blanks, quotes, hashes and equality signs in values survive.\<close>

theorem parse_dotenv_lines:
  assumes "\<forall>kv \<in> set kvs. plain_entry kv"
  shows "parse_dotenv (concat (map (\<lambda>kv. dotenv_line kv @ [10]) kvs)) = map_of (rev kvs)"
proof -
  have "lines (concat (map (\<lambda>l. l @ [10]) (map dotenv_line kvs))) = map dotenv_line kvs"
    using assms by (intro lines_end_lines) (auto simp: dotenv_line_def plain_entry_def lit_def)
  then show ?thesis using dotenv_fold [OF assms, of Map.empty] by (simp add: parse_dotenv_def comp_def)
qed

theorem parse_dotenv_lines_witness:
  "parse_dotenv (dotenv_line (lit ''KEY'', lit ''a=#b'') @ [10]) (lit ''KEY'') = Some (lit ''a=#b'')"
  using parse_dotenv_lines [of "[(lit ''KEY'', lit ''a=#b'')]"]
  by (simp add: plain_entry_def lit_def is_whitespace_def starts_with_def)

end
