(* ===== verification/Sse.thy ===== *)
theory Sse
  imports Api_Types
begin

text \<open>
  The readers of server-sent events: the incremental parser of \<^verbatim>\<open>runtime/src/sse.rs\<close> and the frame parser
  of \<^verbatim>\<open>api/src/sse.rs\<close>, whose framing \<^verbatim>\<open>api/src/providers/openai_compat.rs\<close> repeats. Data arrives in chunks
  cut at arbitrary places. The locale \<open>chunked_parser\<close> states what makes the cuts irrelevant; it holds
  for the incremental parser always, and for the frame parsers on streams without carriage returns.
  \<^verbatim>\<open>String::from_utf8_lossy\<close> is modelled, \<^verbatim>\<open>serde_json::from_str\<close> is an argument.
\<close>

section \<open>Definitions\<close>

subsection \<open>The incremental parser\<close>

record SseEvent =
  ev_event :: "ustr option"
  ev_data :: ustr
  ev_id :: "ustr option"
  ev_retry :: "u64 option"

record IncrementalSseParser =
  inc_buffer :: ustr
  inc_event_name :: "ustr option"
  inc_data_lines :: "ustr list"
  inc_id :: "ustr option"
  inc_retry :: "u64 option"

definition IncrementalSseParser_new :: IncrementalSseParser where
  "IncrementalSseParser_new =
     \<lparr>inc_buffer = [], inc_event_name = None, inc_data_lines = [], inc_id = None, inc_retry = None\<rparr>"

definition take_event :: "IncrementalSseParser \<Rightarrow> SseEvent option \<times> IncrementalSseParser" where
  "take_event p =
     (if inc_data_lines p = [] \<and> inc_event_name p = None \<and> inc_id p = None \<and> inc_retry p = None
      then (None, p)
      else (Some \<lparr>ev_event = inc_event_name p, ev_data = join [10] (inc_data_lines p), ev_id = inc_id p,
                  ev_retry = inc_retry p\<rparr>,
            p\<lparr>inc_event_name := None, inc_data_lines := [], inc_id := None, inc_retry := None\<rparr>))"

definition opt_list :: "'a option \<Rightarrow> 'a list" where
  "opt_list r = (case r of Some x \<Rightarrow> [x] | None \<Rightarrow> [])"

definition process_field :: "ustr \<Rightarrow> ustr \<Rightarrow> IncrementalSseParser \<Rightarrow> IncrementalSseParser" where
  "process_field field value p =
     (if field = lit ''event'' then p\<lparr>inc_event_name := Some value\<rparr>
      else if field = lit ''data'' then p\<lparr>inc_data_lines := inc_data_lines p @ [value]\<rparr>
      else if field = lit ''id'' then p\<lparr>inc_id := Some value\<rparr>
      else if field = lit ''retry'' then p\<lparr>inc_retry := parse_u64 value\<rparr>
      else p)"

definition process_line :: "ustr \<Rightarrow> IncrementalSseParser \<Rightarrow> SseEvent list \<times> IncrementalSseParser" where
  "process_line line p =
     (if line = [] then (case take_event p of (ev, p') \<Rightarrow> (opt_list ev, p'))
      else if starts_with [58] line then ([], p)
      else ([], case split_once [58] line of
                  None \<Rightarrow> process_field line [] p
                | Some (field, value) \<Rightarrow>
                    process_field field (case strip_prefix [32] value of Some v \<Rightarrow> v | None \<Rightarrow> value) p))"

lemma buffer_process_line [simp]: "inc_buffer (snd (process_line line p)) = inc_buffer p"
  by (simp add: process_line_def take_event_def process_field_def split: option.splits prod.splits if_splits)

function line_loop :: "IncrementalSseParser \<Rightarrow> SseEvent list \<times> IncrementalSseParser" where
  "line_loop p =
     (case split_once [10] (inc_buffer p) of
        None \<Rightarrow> ([], p)
      | Some (line, rest) \<Rightarrow>
          (let (es, p1) = process_line (strip_cr line) (p\<lparr>inc_buffer := rest\<rparr>);
               (es', p2) = line_loop p1
           in (es @ es', p2)))"
  by pat_completeness auto
termination
proof (relation "measure (length \<circ> inc_buffer)", simp, goal_cases)
  case (1 p lr line rest r es p1)
  then have "inc_buffer p = line @ [10] @ rest" by (metis split_once_Some)
  moreover have "inc_buffer p1 = rest"
    using 1 by (metis IncrementalSseParser.select_convs(1) IncrementalSseParser.surjective
        IncrementalSseParser.update_convs(1) buffer_process_line snd_conv)
  ultimately show ?case by simp
qed

declare line_loop.simps [simp del]

definition push_chunk :: "ustr \<Rightarrow> IncrementalSseParser \<Rightarrow> SseEvent list \<times> IncrementalSseParser" where
  "push_chunk chunk p = line_loop (p\<lparr>inc_buffer := inc_buffer p @ chunk\<rparr>)"

definition sse_finish :: "IncrementalSseParser \<Rightarrow> SseEvent list \<times> IncrementalSseParser" where
  "sse_finish p =
     (let (es, p1) = (if inc_buffer p = [] then ([], p)
                      else process_line (trim_end_char 13 (inc_buffer p)) (p\<lparr>inc_buffer := []\<rparr>));
          (ev, p2) = take_event p1
      in (es @ opt_list ev, p2))"

subsection \<open>UTF-8\<close>

text \<open>\<^verbatim>\<open>String::from_utf8_lossy\<close>: a maximal prefix of a well-formed sequence that is not continued becomes
  one replacement character. Bytes are read as numbers.\<close>

definition continuation :: "nat \<Rightarrow> bool" where
  "continuation b \<longleftrightarrow> 128 \<le> b \<and> b < 192"

definition second_of_three :: "nat \<Rightarrow> nat \<Rightarrow> bool" where
  "second_of_three a b \<longleftrightarrow> (if a = 224 then 160 \<le> b \<and> b < 192 else if a = 237 then 128 \<le> b \<and> b < 160
     else continuation b)"

definition second_of_four :: "nat \<Rightarrow> nat \<Rightarrow> bool" where
  "second_of_four a b \<longleftrightarrow> (if a = 240 then 144 \<le> b \<and> b < 192 else if a = 244 then 128 \<le> b \<and> b < 144
     else continuation b)"

fun utf8_step :: "nat \<Rightarrow> nat list \<Rightarrow> uchar \<times> nat list" where
  "utf8_step a bs =
     (if a < 128 then (a, bs)
      else if 194 \<le> a \<and> a < 224 then
        (case bs of
           b # r \<Rightarrow> if continuation b then (64 * (a - 192) + (b - 128), r) else (65533, bs)
         | [] \<Rightarrow> (65533, bs))
      else if 224 \<le> a \<and> a < 240 then
        (case bs of
           b # r \<Rightarrow>
             if second_of_three a b then
               (case r of
                  c # r' \<Rightarrow> if continuation c then (4096 * (a - 224) + 64 * (b - 128) + (c - 128), r') else (65533, r)
                | [] \<Rightarrow> (65533, r))
             else (65533, bs)
         | [] \<Rightarrow> (65533, bs))
      else if 240 \<le> a \<and> a < 245 then
        (case bs of
           b # r \<Rightarrow>
             if second_of_four a b then
               (case r of
                  c # r' \<Rightarrow>
                    if continuation c then
                      (case r' of
                         d # r'' \<Rightarrow>
                           if continuation d
                           then (262144 * (a - 240) + 4096 * (b - 128) + 64 * (c - 128) + (d - 128), r'')
                           else (65533, r')
                       | [] \<Rightarrow> (65533, r'))
                    else (65533, r)
                | [] \<Rightarrow> (65533, r))
             else (65533, bs)
         | [] \<Rightarrow> (65533, bs))
      else (65533, bs))"

declare utf8_step.simps [simp del]

lemma utf8_step_shorter: "length (snd (utf8_step a bs)) \<le> length bs"
  by (simp add: utf8_step.simps split: list.split)

function from_utf8_lossy :: "nat list \<Rightarrow> ustr" where
  "from_utf8_lossy [] = []"
| "from_utf8_lossy (b # bs) = fst (utf8_step b bs) # from_utf8_lossy (snd (utf8_step b bs))"
  by pat_completeness auto
termination
  by (relation "measure length") (simp_all add: utf8_step_shorter le_imp_less_Suc)

definition decode :: "u8 list \<Rightarrow> ustr" where
  "decode bs = from_utf8_lossy (map unat bs)"

subsection \<open>Frames\<close>

text \<open>\<^verbatim>\<open>windows(n).position(\<dots>)\<close>.\<close>

fun position_window :: "'a list \<Rightarrow> 'a list \<Rightarrow> nat option" where
  "position_window pat [] = None"
| "position_window pat (x # xs) =
     (if take (length pat) (x # xs) = pat then Some 0 else map_option Suc (position_window pat xs))"

definition find_separator :: "u8 list \<Rightarrow> (nat \<times> nat) option" where
  "find_separator buffer =
     (case position_window [10, 10] buffer of
        Some position \<Rightarrow> Some (position, 2)
      | None \<Rightarrow> map_option (\<lambda>position. (position, 4)) (position_window [13, 10, 13, 10] buffer))"

definition next_frame :: "u8 list \<Rightarrow> (ustr \<times> u8 list) option" where
  "next_frame buffer =
     map_option (\<lambda>(position, separator_len).
        (decode (take position buffer), drop (position + separator_len) buffer)) (find_separator buffer)"

lemma position_window_less: "position_window pat xs = Some n \<Longrightarrow> n < length xs"
  by (induction xs arbitrary: n) (auto split: if_splits)

lemma next_frame_shorter: "next_frame buffer = Some (frame, rest) \<Longrightarrow> length rest < length buffer"
  by (auto simp: next_frame_def find_separator_def dest: position_window_less split: option.splits)

text \<open>The loop of \<^verbatim>\<open>push\<close>: a frame that fails to parse ends it, and the frames behind it stay in the buffer.\<close>

function frame_loop :: "(ustr \<Rightarrow> 'e + 'v option) \<Rightarrow> u8 list \<Rightarrow> ('e + 'v list) \<times> u8 list" where
  "frame_loop parse_fn buffer =
     (case next_frame buffer of
        None \<Rightarrow> (Inr [], buffer)
      | Some (frame, rest) \<Rightarrow>
          (case parse_fn frame of
             Inl e \<Rightarrow> (Inl e, rest)
           | Inr ev \<Rightarrow>
               (case frame_loop parse_fn rest of
                  (Inl e, buffer') \<Rightarrow> (Inl e, buffer')
                | (Inr events, buffer') \<Rightarrow> (Inr (opt_list ev @ events), buffer'))))"
  by pat_completeness auto
termination
  by (relation "measure (length \<circ> snd)") (auto dest: next_frame_shorter)

declare frame_loop.simps [simp del]

text \<open>The scan over the lines of a frame: the last event name and the data lines.\<close>

fun frame_lines :: "ustr option \<Rightarrow> ustr list \<Rightarrow> ustr list \<Rightarrow> ustr option \<times> ustr list" where
  "frame_lines event_name data_lines [] = (event_name, data_lines)"
| "frame_lines event_name data_lines (line # ls) =
     (if starts_with [58] line then frame_lines event_name data_lines ls
      else case strip_prefix (lit ''event:'') line of
             Some name \<Rightarrow> frame_lines (Some (trim name)) data_lines ls
           | None \<Rightarrow>
               (case strip_prefix (lit ''data:'') line of
                  Some payload \<Rightarrow> frame_lines event_name (data_lines @ [trim_start payload]) ls
                | None \<Rightarrow> frame_lines event_name data_lines ls))"

definition parse_frame_with_provider ::
  "(ustr \<Rightarrow> ustr + StreamEvent) \<Rightarrow> ustr \<Rightarrow> ustr \<Rightarrow> ustr \<Rightarrow> ApiError + StreamEvent option" where
  "parse_frame_with_provider from_str frame provider model =
     (let trimmed = trim frame
      in if trimmed = [] then Inr None
         else let (event_name, data_lines) = frame_lines None [] (lines trimmed)
              in if event_name = Some (lit ''ping'') then Inr None
                 else if data_lines = [] then Inr None
                 else let payload = join [10] data_lines
                      in if payload = lit ''[DONE]'' then Inr None
                         else case from_str payload of
                                Inr ev \<Rightarrow> Inr (Some ev)
                              | Inl err \<Rightarrow> Inl (json_deserialize provider model payload err))"

definition parse_frame :: "(ustr \<Rightarrow> ustr + StreamEvent) \<Rightarrow> ustr \<Rightarrow> ApiError + StreamEvent option" where
  "parse_frame from_str frame = parse_frame_with_provider from_str frame (lit ''unknown'') (lit ''unknown'')"

record SseParser =
  sse_buffer :: "u8 list"
  sse_provider :: "ustr option"
  sse_model :: "ustr option"

definition SseParser_new :: SseParser where
  "SseParser_new = \<lparr>sse_buffer = [], sse_provider = None, sse_model = None\<rparr>"

definition SseParser_with_context :: "ustr \<Rightarrow> ustr \<Rightarrow> SseParser \<Rightarrow> SseParser" where
  "SseParser_with_context provider model p = p\<lparr>sse_provider := Some provider, sse_model := Some model\<rparr>"

definition unwrap_or :: "'a \<Rightarrow> 'a option \<Rightarrow> 'a" where
  "unwrap_or d r = (case r of Some x \<Rightarrow> x | None \<Rightarrow> d)"

definition parse_frame_with_context ::
  "(ustr \<Rightarrow> ustr + StreamEvent) \<Rightarrow> SseParser \<Rightarrow> ustr \<Rightarrow> ApiError + StreamEvent option" where
  "parse_frame_with_context from_str p frame =
     parse_frame_with_provider from_str frame (unwrap_or (lit ''unknown'') (sse_provider p))
       (unwrap_or (lit ''unknown'') (sse_model p))"

definition SseParser_push ::
  "(ustr \<Rightarrow> ustr + StreamEvent) \<Rightarrow> u8 list \<Rightarrow> SseParser \<Rightarrow> (ApiError + StreamEvent list) \<times> SseParser" where
  "SseParser_push from_str chunk p =
     (let (r, buffer) = frame_loop (parse_frame_with_context from_str p) (sse_buffer p @ chunk)
      in (r, p\<lparr>sse_buffer := buffer\<rparr>))"

definition SseParser_finish ::
  "(ustr \<Rightarrow> ustr + StreamEvent) \<Rightarrow> SseParser \<Rightarrow> (ApiError + StreamEvent list) \<times> SseParser" where
  "SseParser_finish from_str p =
     (if sse_buffer p = [] then (Inr [], p)
      else (rbind (parse_frame_with_context from_str p (decode (sse_buffer p))) (\<lambda>ev. Inr (opt_list ev)),
            p\<lparr>sse_buffer := []\<rparr>))"

text \<open>Chunks pushed one after another, up to the first error.\<close>

fun feed :: "('c list \<Rightarrow> 's \<Rightarrow> ('e + 'v list) \<times> 's) \<Rightarrow> 'c list list \<Rightarrow> 's \<Rightarrow> ('e + 'v list) \<times> 's" where
  "feed push [] s = (Inr [], s)"
| "feed push (c # cs) s =
     (case push c s of
        (Inl e, s') \<Rightarrow> (Inl e, s')
      | (Inr es, s') \<Rightarrow>
          (case feed push cs s' of
             (Inl e, s'') \<Rightarrow> (Inl e, s'')
           | (Inr es', s'') \<Rightarrow> (Inr (es @ es'), s'')))"

section \<open>Chunks\<close>

subsection \<open>The contract\<close>

text \<open>\<open>clean\<close> says that everything complete has been taken out of the buffer, \<open>plain\<close> restricts the input.
  Pushing two pieces at once is pushing one after the other, unless the first fails.\<close>

locale chunked_parser =
  fixes push :: "'c list \<Rightarrow> 's \<Rightarrow> ('e + 'v list) \<times> 's"
    and clean :: "'s \<Rightarrow> bool"
    and plain :: "'c \<Rightarrow> bool"
  assumes push_Nil: "clean s \<Longrightarrow> push [] s = (Inr [], s)"
    and push_clean: "clean s \<Longrightarrow> list_all plain c \<Longrightarrow> push c s = (Inr es, s') \<Longrightarrow> clean s'"
    and push_append: "clean s \<Longrightarrow> list_all plain (c @ d) \<Longrightarrow> push c s = (Inr es, s')
      \<Longrightarrow> push (c @ d) s = (case push d s' of (Inl e, s'') \<Rightarrow> (Inl e, s'') | (Inr es', s'') \<Rightarrow> (Inr (es @ es'), s''))"
    and push_error: "clean s \<Longrightarrow> list_all plain (c @ d) \<Longrightarrow> push c s = (Inl e, s')
      \<Longrightarrow> fst (push (c @ d) s) = Inl e"
begin

lemma feed_eq_push:
  "clean s \<Longrightarrow> list_all plain (concat cs) \<Longrightarrow> push (concat cs) s = (Inr es, s') \<Longrightarrow> feed push cs s = (Inr es, s')"
proof (induction cs arbitrary: s es)
  case Nil
  then show ?case by (simp add: push_Nil)
next
  case (Cons c cs)
  obtain r s1 where c: "push c s = (r, s1)" by (cases "push c s")
  show ?case
  proof (cases r)
    case (Inl e)
    with push_error [OF Cons.prems(1), of c "concat cs"] Cons.prems c show ?thesis by simp
  next
    case (Inr es1)
    with Cons.prems c have w: "push (concat (c # cs)) s =
        (case push (concat cs) s1 of (Inl e, s'') \<Rightarrow> (Inl e, s'') | (Inr es', s'') \<Rightarrow> (Inr (es1 @ es'), s''))"
      by (simp add: push_append)
    with Cons.prems(3) obtain es2 where "push (concat cs) s1 = (Inr es2, s')" "es = es1 @ es2"
      by (auto split: prod.splits sum.splits)
    moreover have "clean s1" using push_clean [OF Cons.prems(1), of c] Cons.prems(2) c Inr by simp
    ultimately show ?thesis using Cons.IH [of s1 es2] Cons.prems(2) c Inr by simp
  qed
qed

text \<open>So any two ways to cut the same data give the same events.\<close>

lemma feed_same:
  "clean s \<Longrightarrow> list_all plain (concat cs) \<Longrightarrow> concat ds = concat cs \<Longrightarrow> push (concat cs) s = (Inr es, s')
    \<Longrightarrow> feed push cs s = feed push ds s"
  by (metis feed_eq_push)

end

subsection \<open>The incremental parser\<close>

definition inc_push :: "ustr \<Rightarrow> IncrementalSseParser \<Rightarrow> (unit + SseEvent list) \<times> IncrementalSseParser" where
  "inc_push chunk p = (case push_chunk chunk p of (es, p') \<Rightarrow> (Inr es, p'))"

definition inc_clean :: "IncrementalSseParser \<Rightarrow> bool" where
  "inc_clean p \<longleftrightarrow> 10 \<notin> set (inc_buffer p)"

lemma split_once_char: "split_once [c] s = None \<longleftrightarrow> c \<notin> set s"
  by (metis append_Cons append_self_conv2 contains_iff in_set_conv_decomp split_once_None)

lemma split_once_char_append:
  "split_once [c] s = Some (a, b) \<Longrightarrow> split_once [c] (s @ t) = Some (a, b @ t)"
  by (induction s arbitrary: a) (auto simp: starts_with_def split: if_splits)

lemma process_line_buffer:
  "process_line line (p\<lparr>inc_buffer := b\<rparr>) = (case process_line line p of (es, p') \<Rightarrow> (es, p'\<lparr>inc_buffer := b\<rparr>))"
  by (cases p) (auto simp: process_line_def take_event_def process_field_def split: option.splits if_splits)

lemma line_loop_clean: "line_loop p = (es, p') \<Longrightarrow> inc_clean p'"
proof (induction p arbitrary: es p' rule: line_loop.induct)
  case (1 p)
  show ?case
  proof (cases "split_once [10] (inc_buffer p)")
    case None
    with 1(2) show ?thesis by (simp add: line_loop.simps [of p] inc_clean_def split_once_char)
  next
    case (Some lr)
    obtain line rest where lr: "lr = (line, rest)" by (cases lr)
    obtain e1 p1 where p1: "process_line (strip_cr line) (p\<lparr>inc_buffer := rest\<rparr>) = (e1, p1)"
      by (cases "process_line (strip_cr line) (p\<lparr>inc_buffer := rest\<rparr>)")
    obtain e2 p2 where p2: "line_loop p1 = (e2, p2)" by (cases "line_loop p1")
    from 1(1) [OF Some lr [symmetric] refl p1 [symmetric] p2] 1(2) Some lr p1 p2 show ?thesis
      by (simp add: line_loop.simps [of p])
  qed
qed

lemma line_loop_append:
  "line_loop p = (es, p') \<Longrightarrow> line_loop (p\<lparr>inc_buffer := inc_buffer p @ t\<rparr>)
     = (case line_loop (p'\<lparr>inc_buffer := inc_buffer p' @ t\<rparr>) of (es', p'') \<Rightarrow> (es @ es', p''))"
proof (induction p arbitrary: es p' rule: line_loop.induct)
  case (1 p)
  show ?case
  proof (cases "split_once [10] (inc_buffer p)")
    case None
    with 1(2) show ?thesis by (simp add: line_loop.simps [of p])
  next
    case (Some lr)
    obtain line rest where lr: "lr = (line, rest)" by (cases lr)
    obtain e1 p1 where p1: "process_line (strip_cr line) (p\<lparr>inc_buffer := rest\<rparr>) = (e1, p1)"
      by (cases "process_line (strip_cr line) (p\<lparr>inc_buffer := rest\<rparr>)")
    obtain e2 p2 where p2: "line_loop p1 = (e2, p2)" by (cases "line_loop p1")
    have b: "inc_buffer p1 = rest" using buffer_process_line [of "strip_cr line" "p\<lparr>inc_buffer := rest\<rparr>"] p1 by simp
    have "process_line (strip_cr line) (p\<lparr>inc_buffer := rest @ t\<rparr>) = (e1, p1\<lparr>inc_buffer := rest @ t\<rparr>)"
      using p1 process_line_buffer [of "strip_cr line" "rest @ t" "p\<lparr>inc_buffer := rest\<rparr>"] by simp
    moreover have "split_once [10] (inc_buffer p @ t) = Some (line, rest @ t)"
      using Some lr by (simp add: split_once_char_append)
    ultimately have "line_loop (p\<lparr>inc_buffer := inc_buffer p @ t\<rparr>)
        = (case line_loop (p1\<lparr>inc_buffer := rest @ t\<rparr>) of (es', p'') \<Rightarrow> (e1 @ es', p''))"
      by (simp add: line_loop.simps [of "p\<lparr>inc_buffer := inc_buffer p @ t\<rparr>"])
    moreover have "es = e1 @ e2" "p' = p2" using 1(2) Some lr p1 p2 by (simp_all add: line_loop.simps [of p])
    ultimately show ?thesis using 1(1) [OF Some lr [symmetric] refl p1 [symmetric] p2] b by (simp split: prod.split)
  qed
qed

interpretation inc: chunked_parser inc_push inc_clean "\<lambda>_. True"
proof (unfold_locales, goal_cases)
  case (1 s)
  then show ?case
    by (simp add: inc_push_def push_chunk_def line_loop.simps [of s] inc_clean_def split_once_char [THEN iffD2])
next
  case (2 s c es s')
  then show ?case by (auto simp: inc_push_def push_chunk_def intro: line_loop_clean split: prod.splits)
next
  case (3 s c d es s')
  then have "line_loop (s\<lparr>inc_buffer := inc_buffer s @ c\<rparr>) = (es, s')"
    by (simp add: inc_push_def push_chunk_def split: prod.splits)
  from line_loop_append [OF this, of d] show ?case
    by (simp add: inc_push_def push_chunk_def split: prod.splits)
next
  case (4 s c d e s')
  then show ?case by (simp add: inc_push_def split: prod.splits)
qed

text \<open>Events as the server writes them: the pending fields are read back line by line.\<close>

fun process_lines :: "ustr list \<Rightarrow> IncrementalSseParser \<Rightarrow> SseEvent list \<times> IncrementalSseParser" where
  "process_lines [] p = ([], p)"
| "process_lines (l # ls) p =
     (let (es, p1) = process_line l p; (es', p2) = process_lines ls p1 in (es @ es', p2))"

definition end_lines :: "ustr list \<Rightarrow> ustr" where
  "end_lines ls = concat (map (\<lambda>l. l @ [10]) ls)"

definition is_line :: "ustr \<Rightarrow> bool" where
  "is_line l \<longleftrightarrow> 10 \<notin> set l \<and> (l = [] \<or> last l \<noteq> 13)"

fun split_lf :: "ustr \<Rightarrow> ustr list" where
  "split_lf [] = [[]]"
| "split_lf (c # cs) =
     (if c = 10 then [] # split_lf cs else case split_lf cs of [] \<Rightarrow> [[c]] | l # ls \<Rightarrow> (c # l) # ls)"

definition event_lines :: "SseEvent \<Rightarrow> ustr list" where
  "event_lines e =
     map (\<lambda>n. lit ''event: '' @ n) (opt_list (ev_event e))
     @ map (\<lambda>l. lit ''data: '' @ l) (split_lf (ev_data e))
     @ map (\<lambda>i. lit ''id: '' @ i) (opt_list (ev_id e))
     @ map (\<lambda>r. lit ''retry: '' @ show_nat (unat r)) (opt_list (ev_retry e))
     @ [[]]"

definition format_event :: "SseEvent \<Rightarrow> ustr" where
  "format_event e = end_lines (event_lines e)"

definition plain_event :: "SseEvent \<Rightarrow> bool" where
  "plain_event e \<longleftrightarrow> list_all is_line (opt_list (ev_event e) @ split_lf (ev_data e) @ opt_list (ev_id e))"

lemma split_lf_not_Nil [simp]: "split_lf s \<noteq> []"
  by (induction s) (auto split: list.splits)

lemma join_split_lf: "join [10] (split_lf s) = s"
proof (induction s)
  case (Cons c cs)
  have j: "join [10] ((c # l) # ls) = c # join [10] (l # ls)" for l ls by (cases ls) simp_all
  obtain l ls where "split_lf cs = l # ls" by (metis neq_Nil_conv split_lf_not_Nil)
  with Cons j show ?case by simp
qed simp

lemma process_lines_buffer:
  "process_lines ls (p\<lparr>inc_buffer := b\<rparr>) = (case process_lines ls p of (es, p') \<Rightarrow> (es, p'\<lparr>inc_buffer := b\<rparr>))"
  by (induction ls arbitrary: p) (auto simp: process_line_buffer split: prod.split)

lemma line_loop_lines:
  "list_all is_line ls \<Longrightarrow> line_loop (p\<lparr>inc_buffer := end_lines ls @ t\<rparr>)
     = (case process_lines ls p of (es, p1) \<Rightarrow>
         case line_loop (p1\<lparr>inc_buffer := t\<rparr>) of (es', p2) \<Rightarrow> (es @ es', p2))"
proof (induction ls arbitrary: p)
  case Nil
  then show ?case by (simp add: end_lines_def split: prod.split)
next
  case (Cons l ls)
  then have l: "10 \<notin> set l" "strip_cr l = l" by (auto simp: is_line_def strip_cr_def)
  then have "split_once [10] (end_lines (l # ls) @ t) = Some (l, end_lines ls @ t)"
    by (simp add: end_lines_def split_once_char_first)
  then have "line_loop (p\<lparr>inc_buffer := end_lines (l # ls) @ t\<rparr>)
      = (case process_line l p of (es, p1) \<Rightarrow>
          case line_loop (p1\<lparr>inc_buffer := end_lines ls @ t\<rparr>) of (es', p2) \<Rightarrow> (es @ es', p2))"
    by (simp add: line_loop.simps [of "p\<lparr>inc_buffer := end_lines (l # ls) @ t\<rparr>"] l process_line_buffer
        split: prod.split)
  then show ?case using Cons by (simp split: prod.split)
qed

lemma process_field_line:
  assumes "58 \<notin> set f" and "f \<noteq> []"
  shows "process_line (f @ [58, 32] @ v) p = ([], process_field f v p)"
proof -
  have "f @ [58, 32] @ v \<noteq> []" "\<not> starts_with [58] (f @ [58, 32] @ v)"
    using assms by (cases f; simp add: starts_with_def)+
  moreover have "split_once [58] (f @ [58, 32] @ v) = Some (f, 32 # v)"
    using split_once_char_first [OF assms(1), of "32 # v"] by simp
  moreover have "strip_prefix [32] (32 # v) = Some v" using strip_prefix_append [of "[32]" v] by simp
  ultimately show ?thesis by (simp only: process_line_def if_False option.case prod.case)
qed

lemma process_field_lines:
  "process_line (lit ''event: '' @ v) p = ([], p\<lparr>inc_event_name := Some v\<rparr>)"
  "process_line (lit ''data: '' @ v) p = ([], p\<lparr>inc_data_lines := inc_data_lines p @ [v]\<rparr>)"
  "process_line (lit ''id: '' @ v) p = ([], p\<lparr>inc_id := Some v\<rparr>)"
  "process_line (lit ''retry: '' @ v) p = ([], p\<lparr>inc_retry := parse_u64 v\<rparr>)"
  using process_field_line [of "lit ''event''" v p] process_field_line [of "lit ''data''" v p]
    process_field_line [of "lit ''id''" v p] process_field_line [of "lit ''retry''" v p]
  by (simp_all add: lit_def process_field_def)

lemma parse_show_u64: "parse_u64 (show_nat (unat r)) = Some r"
proof -
  have d: "list_all is_ascii_digit (show_nat (unat r))" by (simp add: list_all_iff show_nat_digits)
  have "is_ascii_digit (hd (show_nat (unat r)))" by (rule show_nat_digits [of _ "unat r"]) simp
  then have "hd (show_nat (unat r)) \<noteq> 43" by (auto simp: is_ascii_digit_def)
  moreover have "unat r < 2 ^ 64" using unsigned_less [of r] by simp
  ultimately show ?thesis using d by (simp add: parse_u64_def Let_def read_digits_show)
qed

text \<open>The lines of an event, read in a state with nothing pending, yield the event and leave nothing pending.\<close>

lemma process_lines_append:
  "process_lines (xs @ ys) p
     = (case process_lines xs p of (es, p1) \<Rightarrow> case process_lines ys p1 of (es', p2) \<Rightarrow> (es @ es', p2))"
  by (induction xs arbitrary: p) (auto split: prod.split)

lemma process_data_lines:
  "process_lines (map (\<lambda>l. lit ''data: '' @ l) ls) p = ([], p\<lparr>inc_data_lines := inc_data_lines p @ ls\<rparr>)"
  by (induction ls arbitrary: p) (simp_all add: process_field_lines)

lemma process_opt_lines:
  "process_lines (map (\<lambda>n. lit ''event: '' @ n) (opt_list x)) p
     = ([], if x = None then p else p\<lparr>inc_event_name := x\<rparr>)"
  "process_lines (map (\<lambda>i. lit ''id: '' @ i) (opt_list x)) p
     = ([], if x = None then p else p\<lparr>inc_id := x\<rparr>)"
  "process_lines (map (\<lambda>r. lit ''retry: '' @ show_nat (unat r)) (opt_list y)) p
     = ([], if y = None then p else p\<lparr>inc_retry := y\<rparr>)"
  by (cases x; cases y; simp add: opt_list_def process_field_lines parse_show_u64)+

lemma process_event_lines: "process_lines (event_lines e) IncrementalSseParser_new = ([e], IncrementalSseParser_new)"
proof -
  have "process_lines [[]] \<lparr>inc_buffer = [], inc_event_name = ev_event e, inc_data_lines = split_lf (ev_data e),
      inc_id = ev_id e, inc_retry = ev_retry e\<rparr> = ([e], IncrementalSseParser_new)"
    by (cases e) (simp add: process_line_def take_event_def join_split_lf opt_list_def IncrementalSseParser_new_def)
  then show ?thesis
    unfolding event_lines_def process_lines_append process_data_lines process_opt_lines prod.case
    by (cases "ev_event e"; cases "ev_id e"; cases "ev_retry e")
      (simp_all only: IncrementalSseParser_new_def IncrementalSseParser.simps if_True if_False refl option.simps
        append_Nil prod.case)
qed

lemma event_lines_are_lines: "plain_event e \<Longrightarrow> list_all is_line (event_lines e)"
proof -
  have a: "is_line (lit ''event: '' @ l) \<longleftrightarrow> is_line l" "is_line (lit ''data: '' @ l) \<longleftrightarrow> is_line l"
    "is_line (lit ''id: '' @ l) \<longleftrightarrow> is_line l" "is_line (lit ''retry: '' @ l) \<longleftrightarrow> is_line l" for l
    by (simp_all add: is_line_def lit_def)
  have "is_ascii_digit (last (show_nat n))" for n by (rule show_nat_digits [of _ n]) simp
  moreover have "10 \<notin> set (show_nat n)" for n using show_nat_digits [of 10 n] by (auto simp: is_ascii_digit_def)
  moreover have "is_ascii_digit c \<Longrightarrow> c \<noteq> 13" for c by (auto simp: is_ascii_digit_def)
  ultimately have "is_line (show_nat n)" for n unfolding is_line_def by blast
  moreover have "is_line []" by (simp add: is_line_def)
  ultimately show "plain_event e \<Longrightarrow> ?thesis"
    by (auto simp: plain_event_def event_lines_def list.pred_map list_all_iff a)
qed

lemma process_stream:
  "list_all plain_event evs \<Longrightarrow>
     line_loop (IncrementalSseParser_new\<lparr>inc_buffer := concat (map format_event evs)\<rparr>)
       = (evs, IncrementalSseParser_new)"
proof (induction evs)
  case Nil
  then show ?case
    by (subst line_loop.simps) (simp add: IncrementalSseParser_new_def)
next
  case (Cons e evs)
  then show ?case
    using line_loop_lines [OF event_lines_are_lines [of e], of "concat (map format_event evs)" IncrementalSseParser_new]
    by (simp add: format_event_def [of e] process_event_lines)
qed

lemma push_stream:
  "list_all plain_event evs \<Longrightarrow>
     inc_push (concat (map format_event evs)) IncrementalSseParser_new = (Inr evs, IncrementalSseParser_new)"
  using process_stream [of evs] by (simp add: inc_push_def push_chunk_def IncrementalSseParser_new_def)

subsection \<open>Frames\<close>

definition no_cr :: "u8 \<Rightarrow> bool" where
  "no_cr b \<longleftrightarrow> b \<noteq> 13"

lemma position_window_length: "position_window pat xs = Some n \<Longrightarrow> n + length pat \<le> length xs"
proof (induction xs arbitrary: n)
  case (Cons x xs)
  then show ?case by (auto split: if_splits) (metis length_Cons length_take min.cobounded1)
qed simp

lemma position_window_append:
  "position_window pat xs = Some n \<Longrightarrow> position_window pat (xs @ ys) = Some n"
proof (induction xs arbitrary: n)
  case (Cons x xs)
  from position_window_length [OF Cons.prems] have "length pat \<le> length (x # xs)" by simp
  then have "take (length pat) ((x # xs) @ ys) = take (length pat) (x # xs)"
    by (simp only: take_append diff_is_0_eq' take_0 append_Nil2)
  with Cons show ?case by (auto split: if_splits)
qed simp

lemma position_window_None: "pat \<noteq> [] \<Longrightarrow> hd pat \<notin> set xs \<Longrightarrow> position_window pat xs = None"
  by (induction xs) (auto simp: neq_Nil_conv)

lemma find_separator_no_cr:
  "list_all no_cr buffer \<Longrightarrow> find_separator buffer = map_option (\<lambda>p. (p, 2)) (position_window [10, 10] buffer)"
proof -
  assume "list_all no_cr buffer"
  then have "position_window [13, 10, 13, 10] buffer = None"
    by (intro position_window_None) (auto simp: no_cr_def list_all_iff)
  then show ?thesis by (simp add: find_separator_def split: option.split)
qed

lemma next_frame_append:
  assumes "list_all no_cr (xs @ ys)" and "next_frame xs = Some (frame, rest)"
  shows "next_frame (xs @ ys) = Some (frame, rest @ ys)"
proof -
  from assms obtain n where n: "position_window [10, 10] xs = Some n" "frame = decode (take n xs)" "rest = drop (n + 2) xs"
    by (auto simp: next_frame_def find_separator_no_cr)
  then show ?thesis using assms(1) position_window_length [OF n(1)]
    by (simp add: next_frame_def find_separator_no_cr position_window_append)
qed

lemma next_frame_rest: "list_all no_cr xs \<Longrightarrow> next_frame xs = Some (frame, rest) \<Longrightarrow> list_all no_cr rest"
  by (auto simp: next_frame_def list_all_iff dest: in_set_dropD)

lemma frame_loop_append:
  "list_all no_cr (xs @ ys) \<Longrightarrow> frame_loop f xs = (r, rest) \<Longrightarrow> frame_loop f (xs @ ys) =
     (case r of Inl e \<Rightarrow> (Inl e, rest @ ys)
      | Inr es \<Rightarrow> (case frame_loop f (rest @ ys) of (Inl e, b) \<Rightarrow> (Inl e, b) | (Inr es', b) \<Rightarrow> (Inr (es @ es'), b)))"
proof (induction f xs arbitrary: r rest rule: frame_loop.induct)
  case (1 f xs)
  show ?case
  proof (cases "next_frame xs")
    case None
    with 1(3) show ?thesis by (auto simp: frame_loop.simps [of f xs] split: prod.split sum.split)
  next
    case (Some fr)
    obtain frame xs' where fr: "fr = (frame, xs')" by (cases fr)
    have n: "next_frame (xs @ ys) = Some (frame, xs' @ ys)" using 1(2) Some fr by (simp add: next_frame_append)
    have nc: "list_all no_cr (xs' @ ys)" using 1(2) next_frame_rest Some fr by auto
    show ?thesis
    proof (cases "f frame")
      case (Inl e)
      with 1(3) Some fr n show ?thesis
        by (auto simp: frame_loop.simps [of f xs] frame_loop.simps [of f "xs @ ys"])
    next
      case (Inr ev)
      obtain r' rest' where l: "frame_loop f xs' = (r', rest')" by (cases "frame_loop f xs'")
      from 1(1) [OF Some fr [symmetric] Inr nc l] 1(3) Some fr Inr n l show ?thesis
        by (auto simp: frame_loop.simps [of f xs] frame_loop.simps [of f "xs @ ys"] split: sum.split prod.split)
    qed
  qed
qed

lemma frame_loop_clean:
  "frame_loop f xs = (Inr es, rest) \<Longrightarrow> next_frame rest = None \<and> set rest \<subseteq> set xs"
proof (induction f xs arbitrary: es rule: frame_loop.induct)
  case (1 f xs)
  show ?case
  proof (cases "next_frame xs")
    case None
    with 1(2) show ?thesis by (simp add: frame_loop.simps [of f xs])
  next
    case (Some fr)
    obtain frame xs' where fr: "fr = (frame, xs')" by (cases fr)
    with 1(2) Some obtain ev es' where "f frame = Inr ev" "frame_loop f xs' = (Inr es', rest)"
      by (auto simp: frame_loop.simps [of f xs] split: sum.splits prod.splits)
    moreover have "set xs' \<subseteq> set xs" using Some fr by (auto simp: next_frame_def dest: in_set_dropD)
    ultimately show ?thesis using 1(1) [OF Some fr [symmetric]] by blast
  qed
qed

text \<open>What the framing gives to a parser that keeps its bytes in \<open>buf\<close> and parses frames by \<open>f\<close>.\<close>

definition buffer_clean :: "u8 list \<Rightarrow> bool" where
  "buffer_clean b \<longleftrightarrow> next_frame b = None \<and> list_all no_cr b"

definition frame_push :: "(ustr \<Rightarrow> 'e + 'v option) \<Rightarrow> u8 list \<Rightarrow> u8 list \<Rightarrow> ('e + 'v list) \<times> u8 list" where
  "frame_push f chunk buffer = frame_loop f (buffer @ chunk)"

interpretation frames: chunked_parser "frame_push f" buffer_clean no_cr for f
proof (unfold_locales, goal_cases)
  case (1 s)
  then show ?case by (simp add: frame_push_def buffer_clean_def frame_loop.simps [of f s])
next
  case (2 s c es s')
  then show ?case using frame_loop_clean [of f "s @ c" es s'] by (auto simp: frame_push_def buffer_clean_def list_all_iff)
next
  case (3 s c d es s')
  then show ?case using frame_loop_append [of "s @ c" d f "Inr es" s'] by (simp add: frame_push_def buffer_clean_def)
next
  case (4 s c d e s')
  then show ?case using frame_loop_append [of "s @ c" d f "Inl e" s'] by (simp add: frame_push_def buffer_clean_def)
qed

subsection \<open>Encoded text\<close>

definition scalar_value :: "uchar \<Rightarrow> bool" where
  "scalar_value c \<longleftrightarrow> c < 55296 \<or> (57344 \<le> c \<and> c < 1114112)"

definition encode_char :: "uchar \<Rightarrow> nat list" where
  "encode_char c =
     (if c < 128 then [c]
      else if c < 2048 then [192 + c div 64, 128 + c mod 64]
      else if c < 65536 then [224 + c div 4096, 128 + c div 64 mod 64, 128 + c mod 64]
      else [240 + c div 262144, 128 + c div 4096 mod 64, 128 + c div 64 mod 64, 128 + c mod 64])"

definition encode_utf8 :: "ustr \<Rightarrow> u8 list" where
  "encode_utf8 s = map of_nat (concat (map encode_char s))"

lemma digits64:
  fixes c :: nat
  shows "64 * (c div 64) + c mod 64 = c"
    and "4096 * (c div 4096) + 64 * (c div 64 mod 64) + c mod 64 = c"
    and "262144 * (c div 262144) + 4096 * (c div 4096 mod 64) + 64 * (c div 64 mod 64) + c mod 64 = c"
proof -
  have d: "64 * (x div 64) + x mod 64 = x" for x :: nat by simp
  have e: "c div 4096 = c div 64 div 64" "c div 262144 = c div 64 div 64 div 64" by (simp_all add: div_mult2_eq [symmetric])
  show "64 * (c div 64) + c mod 64 = c" by (rule d)
  then show "4096 * (c div 4096) + 64 * (c div 64 mod 64) + c mod 64 = c"
    using d [of "c div 64"] by (simp only: e)
  then show "262144 * (c div 262144) + 4096 * (c div 4096 mod 64) + 64 * (c div 64 mod 64) + c mod 64 = c"
    using d [of "c div 64 div 64"] by (simp only: e)
qed

lemma utf8_steps:
  "2 \<le> x \<Longrightarrow> x < 32 \<Longrightarrow> y < 64 \<Longrightarrow> utf8_step (192 + x) ((128 + y) # r) = (64 * x + y, r)"
  "x < 16 \<Longrightarrow> y < 64 \<Longrightarrow> z < 64 \<Longrightarrow> (x = 0 \<longrightarrow> 32 \<le> y) \<Longrightarrow> (x = 13 \<longrightarrow> y < 32)
     \<Longrightarrow> utf8_step (224 + x) ((128 + y) # (128 + z) # r) = (4096 * x + 64 * y + z, r)"
  "x < 5 \<Longrightarrow> y < 64 \<Longrightarrow> z < 64 \<Longrightarrow> w < 64 \<Longrightarrow> (x = 0 \<longrightarrow> 16 \<le> y) \<Longrightarrow> (x = 4 \<longrightarrow> y < 16)
     \<Longrightarrow> utf8_step (240 + x) ((128 + y) # (128 + z) # (128 + w) # r) = (262144 * x + 4096 * y + 64 * z + w, r)"
  by (simp_all add: utf8_step.simps continuation_def second_of_three_def second_of_four_def)

lemma utf8_step_encode:
  assumes "scalar_value c"
  shows "\<exists>a bs. encode_char c = a # bs \<and> utf8_step a (bs @ r) = (c, r)"
proof -
  have m: "x mod 64 < 64" for x :: nat by simp
  consider "c < 128" | "128 \<le> c" "c < 2048" | "2048 \<le> c" "c < 65536" | "65536 \<le> c" by linarith
  then show ?thesis
  proof cases
    case 1
    then show ?thesis by (simp add: encode_char_def utf8_step.simps)
  next
    case 2
    with m [of c] digits64(1) [of c] have "2 \<le> c div 64" "c div 64 < 32" by linarith+
    from utf8_steps(1) [OF this m [of c]] 2 show ?thesis
      by (simp add: encode_char_def digits64)
  next
    case 3
    let ?x = "c div 4096" and ?y = "c div 64 mod 64" and ?z = "c mod 64"
    have "?x < 16" "?x = 0 \<longrightarrow> 32 \<le> ?y" "?x = 13 \<longrightarrow> ?y < 32"
      using 3 assms m [of c] m [of "c div 64"] digits64(2) [of c] unfolding scalar_value_def by arith+
    from utf8_steps(2) [of ?x ?y ?z r, OF this(1) m m this(2,3)] 3 show ?thesis
      by (simp add: encode_char_def digits64)
  next
    case 4
    let ?x = "c div 262144" and ?y = "c div 4096 mod 64"
    have "?x < 5" "?x = 0 \<longrightarrow> 16 \<le> ?y" "?x = 4 \<longrightarrow> ?y < 16"
      using 4 assms m [of c] m [of "c div 64"] m [of "c div 4096"] digits64(3) [of c] unfolding scalar_value_def by arith+
    from utf8_steps(3) [of ?x ?y "c div 64 mod 64" "c mod 64" r, OF this(1) m m m this(2,3)] 4 show ?thesis
      by (simp add: encode_char_def digits64)
  qed
qed

lemma from_utf8_lossy_encode:
  "list_all scalar_value s \<Longrightarrow> from_utf8_lossy (concat (map encode_char s)) = s"
proof (induction s)
  case (Cons c s)
  then obtain a bs where "encode_char c = a # bs" "utf8_step a (bs @ concat (map encode_char s)) = (c, concat (map encode_char s))"
    using utf8_step_encode [of c "concat (map encode_char s)"] by auto
  with Cons show ?case by simp
qed simp

lemma encode_char_byte: "scalar_value c \<Longrightarrow> b \<in> set (encode_char c) \<Longrightarrow> b < 256 \<and> (c < 128 \<and> b = c \<or> 128 \<le> c \<and> 128 \<le> b)"
  by (auto simp: encode_char_def scalar_value_def split: if_splits)

lemma decode_encode: "list_all scalar_value s \<Longrightarrow> decode (encode_utf8 s) = s"
proof -
  assume s: "list_all scalar_value s"
  then have "\<forall>b \<in> set (concat (map encode_char s)). b < 256"
    by (auto simp: list_all_iff dest: encode_char_byte)
  then have "map (unat \<circ> (of_nat :: nat \<Rightarrow> u8)) (concat (map encode_char s)) = concat (map encode_char s)"
    by (intro map_idI) (auto simp: unat_of_nat)
  then show ?thesis using from_utf8_lossy_encode [OF s] by (simp add: decode_def encode_utf8_def)
qed

text \<open>The text of a frame has no carriage return and no blank line, and does not end in a line feed.\<close>

definition frame_char :: "uchar \<Rightarrow> bool" where
  "frame_char c \<longleftrightarrow> scalar_value c \<and> c \<noteq> 13"

fun no_blank_line :: "ustr \<Rightarrow> bool" where
  "no_blank_line [] \<longleftrightarrow> True"
| "no_blank_line [c] \<longleftrightarrow> c \<noteq> 10"
| "no_blank_line (c # d # s) \<longleftrightarrow> (c \<noteq> 10 \<or> d \<noteq> 10) \<and> no_blank_line (d # s)"

definition frame_text :: "ustr \<Rightarrow> bool" where
  "frame_text s \<longleftrightarrow> list_all frame_char s \<and> no_blank_line s"

definition end_frames :: "ustr list \<Rightarrow> u8 list" where
  "end_frames fs = concat (map (\<lambda>f. encode_utf8 f @ [10, 10]) fs)"

lemma encode_Cons: "encode_utf8 (c # s) = map of_nat (encode_char c) @ encode_utf8 s"
  by (simp add: encode_utf8_def)

lemma of_nat_byte:
  "b < 256 \<Longrightarrow> (of_nat b :: u8) = 10 \<longleftrightarrow> b = 10" "b < 256 \<Longrightarrow> (of_nat b :: u8) = 13 \<longleftrightarrow> b = 13"
  by (auto simp: word_unat_eq_iff unat_of_nat)

lemma encode_frame_no_cr: "list_all frame_char f \<Longrightarrow> list_all no_cr (encode_utf8 f)"
  by (induction f)
    (auto simp: encode_Cons list_all_iff no_cr_def frame_char_def of_nat_byte encode_utf8_def dest: encode_char_byte)

lemma encode_other_no_lf: "scalar_value c \<Longrightarrow> c \<noteq> 10 \<Longrightarrow> 10 \<notin> set (map of_nat (encode_char c) :: u8 list)"
  by (auto simp: of_nat_byte dest: encode_char_byte)

lemma position_window_skip:
  "10 \<notin> set xs \<Longrightarrow> position_window [10, 10 :: u8] (xs @ ys) = map_option ((+) (length xs)) (position_window [10, 10] ys)"
  by (induction xs) (cases "position_window [10, 10] ys"; simp)+

lemma frame_separator:
  "list_all frame_char f \<Longrightarrow> no_blank_line f
     \<Longrightarrow> position_window [10, 10] (encode_utf8 f @ 10 # 10 # r) = Some (length (encode_utf8 f))"
proof (induction f rule: no_blank_line.induct)
  case 1
  then show ?case by (simp add: encode_utf8_def)
next
  case (2 c)
  then have "10 \<notin> set (map of_nat (encode_char c) :: u8 list)"
    by (intro encode_other_no_lf) (simp_all add: frame_char_def)
  then show ?case by (simp add: encode_Cons encode_utf8_def position_window_skip)
next
  case (3 c d s)
  then have IH: "position_window [10, 10] (encode_utf8 (d # s) @ 10 # 10 # r) = Some (length (encode_utf8 (d # s)))"
    by simp
  show ?case
  proof (cases "c = 10")
    case True
    with 3 have d: "scalar_value d" "d \<noteq> 10" by (simp_all add: frame_char_def)
    obtain a bs where a: "encode_char d = a # bs" using utf8_step_encode [OF d(1)] by blast
    then have "(of_nat a :: u8) \<noteq> 10" using encode_other_no_lf [OF d] by auto
    moreover have "encode_char c = [10]" using True by (simp add: encode_char_def)
    ultimately show ?thesis using IH a by (simp add: encode_Cons)
  next
    case False
    with 3 have "10 \<notin> set (map of_nat (encode_char c) :: u8 list)"
      by (intro encode_other_no_lf) (simp_all add: frame_char_def)
    with IH show ?thesis by (simp add: encode_Cons [of c] position_window_skip)
  qed
qed

lemma next_frame_text:
  assumes "frame_text f" and "list_all no_cr r"
  shows "next_frame (encode_utf8 f @ 10 # 10 # r) = Some (f, r)"
proof -
  have "list_all scalar_value f" using assms(1) by (auto simp: frame_text_def frame_char_def list_all_iff)
  moreover have "list_all no_cr (encode_utf8 f @ 10 # 10 # r)"
    using assms encode_frame_no_cr by (simp add: frame_text_def no_cr_def)
  ultimately show ?thesis using assms(1) frame_separator [of f r]
    by (simp add: next_frame_def find_separator_no_cr frame_text_def decode_encode)
qed

lemma end_frames_no_cr: "list_all frame_text fs \<Longrightarrow> list_all no_cr (end_frames fs)"
  by (induction fs) (simp_all add: end_frames_def frame_text_def encode_frame_no_cr no_cr_def)

text \<open>Bytes behind the last complete frame.\<close>

lemma no_separator: "list_all frame_char f \<Longrightarrow> no_blank_line f \<Longrightarrow> position_window [10, 10] (encode_utf8 f) = None"
proof (induction f rule: no_blank_line.induct)
  case 1
  then show ?case by (simp add: encode_utf8_def)
next
  case (2 c)
  then have "10 \<notin> set (map of_nat (encode_char c) :: u8 list)" by (intro encode_other_no_lf) (simp_all add: frame_char_def)
  from position_window_skip [OF this, of "[]"] show ?case by (simp add: encode_Cons encode_utf8_def)
next
  case (3 c d s)
  then have IH: "position_window [10, 10] (encode_utf8 (d # s)) = None" by simp
  show ?case
  proof (cases "c = 10")
    case True
    with 3 have d: "scalar_value d" "d \<noteq> 10" by (simp_all add: frame_char_def)
    obtain a bs where a: "encode_char d = a # bs" using utf8_step_encode [OF d(1)] by blast
    then have "(of_nat a :: u8) \<noteq> 10" using encode_other_no_lf [OF d] by auto
    moreover have "encode_char c = [10]" using True by (simp add: encode_char_def)
    ultimately show ?thesis using IH a by (simp add: encode_Cons)
  next
    case False
    with 3 have "10 \<notin> set (map of_nat (encode_char c) :: u8 list)"
      by (intro encode_other_no_lf) (simp_all add: frame_char_def)
    with IH show ?thesis by (simp add: encode_Cons [of c] position_window_skip)
  qed
qed

lemma next_frame_tail: "frame_text f \<Longrightarrow> next_frame (encode_utf8 f) = None"
  using no_separator [of f] encode_frame_no_cr [of f]
  by (simp add: next_frame_def find_separator_no_cr frame_text_def)

lemma frame_loop_tail:
  "list_all frame_text fs \<Longrightarrow> frame_text t \<Longrightarrow> collect_results f fs = Inr evs
     \<Longrightarrow> frame_loop f (end_frames fs @ encode_utf8 t) = (Inr (concat (map opt_list evs)), encode_utf8 t)"
proof (induction fs arbitrary: evs)
  case Nil
  then show ?case by (simp add: frame_loop.simps [of f "encode_utf8 t"] end_frames_def next_frame_tail)
next
  case (Cons u fs)
  then obtain ev evs' where e: "f u = Inr ev" "collect_results f fs = Inr evs'" "evs = ev # evs'"
    by (auto simp: rbind_eq_Inr)
  let ?r = "end_frames fs @ encode_utf8 t"
  have "end_frames (u # fs) @ encode_utf8 t = encode_utf8 u @ 10 # 10 # ?r" by (simp add: end_frames_def)
  moreover have "next_frame \<dots> = Some (u, ?r)"
    using Cons.prems end_frames_no_cr [of fs] encode_frame_no_cr [of t]
    by (intro next_frame_text) (simp_all add: frame_text_def [of t])
  ultimately have "next_frame (end_frames (u # fs) @ encode_utf8 t) = Some (u, ?r)" by simp
  then show ?case using Cons e by (simp add: frame_loop.simps [of f "end_frames (u # fs) @ encode_utf8 t"])
qed

lemma frame_push_tail:
  assumes "list_all frame_text fs" and "frame_text t" and "collect_results f fs = Inr evs"
    and "concat chunks = end_frames fs @ encode_utf8 t"
  shows "feed (frame_push f) chunks [] = (Inr (concat (map opt_list evs)), encode_utf8 t)"
proof (rule frames.feed_eq_push)
  show "buffer_clean []" by (simp add: buffer_clean_def next_frame_def find_separator_def)
  show "list_all no_cr (concat chunks)" using assms(1,2,4) end_frames_no_cr encode_frame_no_cr by (simp add: frame_text_def)
  show "frame_push f (concat chunks) [] = (Inr (concat (map opt_list evs)), encode_utf8 t)"
    using assms frame_loop_tail by (simp add: frame_push_def)
qed

lemma frame_push_end_frames:
  assumes "list_all frame_text fs" and "collect_results f fs = Inr evs" and "concat chunks = end_frames fs"
  shows "feed (frame_push f) chunks [] = (Inr (concat (map opt_list evs)), [])"
  using frame_push_tail [OF assms(1) _ assms(2), of "[]" chunks] assms(3) by (simp add: frame_text_def encode_utf8_def)

text \<open>A parser that keeps the bytes in one of its fields and is otherwise constant.\<close>

lemma feed_wrapped:
  assumes "\<And>c p. push c p = (case frame_push (f p) c (buf p) of (r, b) \<Rightarrow> (r, upd b p))"
    and "\<And>b p. f (upd b p) = f p" and "\<And>b p. buf (upd b p) = b"
    and "\<And>b b' p. upd b' (upd b p) = upd b' p" and "\<And>p. upd (buf p) p = p"
  shows "feed push cs p = (case feed (frame_push (f p)) cs (buf p) of (r, b) \<Rightarrow> (r, upd b p))"
proof (induction cs arbitrary: p)
  case Nil
  then show ?case by (simp add: assms)
next
  case (Cons c cs)
  then show ?case by (auto simp: assms split: prod.split sum.split)
qed

lemma feed_SseParser:
  "feed (SseParser_push from_str) cs p
     = (case feed (frame_push (parse_frame_with_context from_str p)) cs (sse_buffer p) of (r, b) \<Rightarrow> (r, p\<lparr>sse_buffer := b\<rparr>))"
  by (rule feed_wrapped [where upd = "\<lambda>b p. p\<lparr>sse_buffer := b\<rparr>"])
    (simp_all add: SseParser_push_def frame_push_def parse_frame_with_context_def [abs_def])

section \<open>Properties\<close>

text \<open>C25: any events written in the format of server-sent events are read back exactly by the incremental
  parser, however the text is cut into chunks, and nothing is left in the buffer.\<close>

theorem sse_stream_roundtrip:
  assumes "list_all plain_event evs" and "concat chunks = concat (map format_event evs)"
  shows "feed inc_push chunks IncrementalSseParser_new = (Inr evs, IncrementalSseParser_new)"
proof (rule inc.feed_eq_push)
  show "inc_clean IncrementalSseParser_new" by (simp add: inc_clean_def IncrementalSseParser_new_def)
  show "inc_push (concat chunks) IncrementalSseParser_new = (Inr evs, IncrementalSseParser_new)"
    using assms push_stream by simp
qed (simp add: list_all_iff)

lemma concat_singletons: "concat (map (\<lambda>c. [c]) xs) = xs"
  by (induction xs) simp_all

theorem sse_stream_roundtrip_witness:
  "feed inc_push
     (map (\<lambda>c. [c]) (concat (map format_event
        [\<lparr>ev_event = Some (lit ''message''), ev_data = lit ''a'' @ [10] @ lit '' b'', ev_id = None, ev_retry = Some 7\<rparr>])))
     IncrementalSseParser_new
   = (Inr [\<lparr>ev_event = Some (lit ''message''), ev_data = lit ''a'' @ [10] @ lit '' b'', ev_id = None, ev_retry = Some 7\<rparr>],
      IncrementalSseParser_new)"
  by (rule sse_stream_roundtrip [OF _ concat_singletons])
    (simp add: plain_event_def is_line_def opt_list_def lit_def)

text \<open>Frames that arrive as UTF-8 text, each ended by a blank line and without carriage returns, reach
  the caller as the events they parse to, in order, however the bytes are cut, even inside a
  character; the buffer is empty afterwards.\<close>

theorem frames_survive_chunking:
  assumes "list_all frame_text fs" and "sse_buffer p = []"
    and "collect_results (parse_frame_with_context from_str p) fs = Inr evs"
    and "concat chunks = end_frames fs"
  shows "feed (SseParser_push from_str) chunks p = (Inr (concat (map opt_list evs)), p)"
  using frame_push_end_frames [OF assms(1,3,4)] assms(2) by (simp add: feed_SseParser)

definition echo_frame :: "ustr \<Rightarrow> ustr + StreamEvent" where
  "echo_frame payload = Inr (ContentBlockDeltaEv 0 (TextDelta payload))"

theorem frames_survive_chunking_witness:
  "feed (SseParser_push echo_frame)
     (map (\<lambda>b. [b]) (end_frames [lit ''data: '' @ [233], lit '': ping'', lit ''event: ping'' @ [10] @ lit ''data: x'']))
     SseParser_new
   = (Inr [ContentBlockDeltaEv 0 (TextDelta [233])], SseParser_new)"
proof -
  let ?fs = "[lit ''data: '' @ [233], lit '': ping'', lit ''event: ping'' @ [10] @ lit ''data: x'']"
  have "collect_results (parse_frame_with_context echo_frame SseParser_new) ?fs
      = Inr [Some (ContentBlockDeltaEv 0 (TextDelta [233])), None, None]"
    by (code_simp)
  moreover have "list_all frame_text ?fs"
    by (simp add: frame_text_def frame_char_def scalar_value_def lit_def)
  moreover have "sse_buffer SseParser_new = []" by (simp add: SseParser_new_def)
  ultimately show ?thesis
    using frames_survive_chunking [of ?fs SseParser_new echo_frame _ "map (\<lambda>b. [b]) (end_frames ?fs)"]
    by (simp add: concat_singletons opt_list_def)
qed

text \<open>With both kinds of blank line in one stream the cuts matter: the search for two line feeds runs
  past a complete frame that ends in carriage returns, and merges it with the next.\<close>

lemma mixed_separators_depend_on_chunks:
  defines "one \<equiv> [100, 97, 116, 97, 58, 49, 13, 10, 13, 10] :: u8 list"
    and "two \<equiv> [100, 97, 116, 97, 58, 50, 10, 10] :: u8 list"
  shows "fst (feed (SseParser_push echo_frame) [one, two] SseParser_new)
           = Inr [ContentBlockDeltaEv 0 (TextDelta (lit ''1'')), ContentBlockDeltaEv 0 (TextDelta (lit ''2''))]"
    and "fst (feed (SseParser_push echo_frame) [one @ two] SseParser_new)
           = Inr [ContentBlockDeltaEv 0 (TextDelta (lit ''1'' @ [10] @ lit ''2''))]"
  unfolding one_def two_def by code_simp+

end
