(* ===== verification/Event_Source.thy ===== *)
theory Event_Source
  imports Sse
begin

text \<open>
  What the callers of a stream rely on: \<^verbatim>\<open>next_event\<close> hands out the events that the stream will deliver one at a time, in
  order, and reports the end afterwards. Both clients promise this, see the interpretations in the theories of their streams.
\<close>

text \<open>The results of calling \<^verbatim>\<open>next_event\<close> a number of times.\<close>

fun call_next :: "('s \<Rightarrow> (ApiError + StreamEvent option) \<times> 's) \<Rightarrow> nat \<Rightarrow> 's \<Rightarrow> (ApiError + StreamEvent option) list" where
  "call_next pull 0 s = []"
| "call_next pull (Suc n) s = (case pull s of (r, s') \<Rightarrow> r # call_next pull n s')"

locale event_source =
  fixes pull :: "'s \<Rightarrow> (ApiError + StreamEvent option) \<times> 's"
    and will :: "StreamEvent list \<Rightarrow> 's \<Rightarrow> bool"
  assumes next_will: "will es s \<Longrightarrow> fst (pull s) = Inr (case es of e # _ \<Rightarrow> Some e | [] \<Rightarrow> None) \<and> will (tl es) (snd (pull s))"
begin

lemma call_next_will: "will es s \<Longrightarrow> call_next pull (length es + 1) s = map (\<lambda>e. Inr (Some e)) es @ [Inr None]"
proof (induction es arbitrary: s)
  case Nil
  from next_will [OF Nil] show ?case by (simp add: split_beta)
next
  case (Cons e es)
  from next_will [OF Cons.prems] have "fst (pull s) = Inr (Some e)" "will es (snd (pull s))" by simp_all
  with Cons.IH show ?case by (simp add: split_beta)
qed

end

end
