(* ===== verification/Openai_Stream.thy ===== *)
theory Openai_Stream
  imports Event_Source
begin

text \<open>
  Streamed replies of OpenAI-compatible servers, \<^verbatim>\<open>api/src/providers/openai_compat.rs\<close>: the frames become
  chunks of a completion, \<^verbatim>\<open>StreamState\<close> turns the chunks into the events of the Messages API, and
  \<^verbatim>\<open>MessageStream::next_event\<close> hands them out one at a time. \<^verbatim>\<open>start_event\<close>, \<^verbatim>\<open>ingest_chunk\<close> and \<^verbatim>\<open>finish\<close> return a
  \<^verbatim>\<open>Result\<close> that is always \<^verbatim>\<open>Ok\<close> and are modelled without it. Block indexes are 32-bit words.
  The properties: the events are well bracketed if the server keeps an order that the code relies
  on, and texts, reasoning and tool arguments arrive unchanged.
\<close>

section \<open>Definitions\<close>

subsection \<open>Chunks of a completion\<close>

record OpenAiUsage =
  ou_prompt_tokens :: u32
  ou_completion_tokens :: u32

record DeltaFunction =
  df_name :: "ustr option"
  df_arguments :: "ustr option"

record DeltaToolCall =
  dt_index :: u32
  dt_id :: "ustr option"
  dt_function :: DeltaFunction

record ChunkDelta =
  cd_content :: "ustr option"
  cd_reasoning_content :: "ustr option"
  cd_tool_calls :: "DeltaToolCall list"

record ChunkChoice =
  cc_delta :: ChunkDelta
  cc_finish_reason :: "ustr option"

record ChatCompletionChunk =
  ck_id :: ustr
  ck_model :: "ustr option"
  ck_choices :: "ChunkChoice list"
  ck_usage :: "OpenAiUsage option"

subsection \<open>Tool calls\<close>

record ToolCallState =
  tc_openai_index :: u32
  tc_id :: "ustr option"
  tc_name :: "ustr option"
  tc_arguments :: ustr
  tc_emitted_len :: nat
  tc_started :: bool
  tc_stopped :: bool

definition ToolCallState_default :: ToolCallState where
  "ToolCallState_default =
     \<lparr>tc_openai_index = 0, tc_id = None, tc_name = None, tc_arguments = [], tc_emitted_len = 0,
      tc_started = False, tc_stopped = False\<rparr>"

definition or_keep :: "'a option \<Rightarrow> 'a option \<Rightarrow> 'a option" where
  "or_keep new old = (case new of Some x \<Rightarrow> Some x | None \<Rightarrow> old)"

definition ToolCallState_apply :: "DeltaToolCall \<Rightarrow> ToolCallState \<Rightarrow> ToolCallState" where
  "ToolCallState_apply d t =
     t\<lparr>tc_openai_index := dt_index d,
       tc_id := or_keep (dt_id d) (tc_id t),
       tc_name := or_keep (df_name (dt_function d)) (tc_name t),
       tc_arguments := tc_arguments t @ unwrap_or [] (df_arguments (dt_function d))\<rparr>"

definition block_index :: "u32 \<Rightarrow> ToolCallState \<Rightarrow> u32" where
  "block_index offset t = tc_openai_index t + offset"

definition start_event :: "u32 \<Rightarrow> ToolCallState \<Rightarrow> StreamEvent option" where
  "start_event offset t =
     (case tc_name t of
        None \<Rightarrow> None
      | Some name \<Rightarrow>
          Some (ContentBlockStart (block_index offset t)
            (OutToolUse (unwrap_or (lit ''tool_call_'' @ show_nat (unat (tc_openai_index t))) (tc_id t)) name
               (Object []))))"

text \<open>The text behind a byte position. The position is the length an earlier, shorter text had
  (lemma \<open>arguments_boundary\<close> of the theory of arguments), so the slice is at a character boundary and does not panic.\<close>

fun drop_bytes :: "nat \<Rightarrow> ustr \<Rightarrow> ustr" where
  "drop_bytes n [] = []"
| "drop_bytes n (c # cs) = (if n = 0 then c # cs else drop_bytes (n - len_utf8 c) cs)"

definition delta_event :: "u32 \<Rightarrow> ToolCallState \<Rightarrow> StreamEvent option \<times> ToolCallState" where
  "delta_event offset t =
     (if str_len (tc_arguments t) \<le> tc_emitted_len t then (None, t)
      else (Some (ContentBlockDeltaEv (block_index offset t)
                    (InputJsonDelta (drop_bytes (tc_emitted_len t) (tc_arguments t)))),
            t\<lparr>tc_emitted_len := str_len (tc_arguments t)\<rparr>))"

definition stop_event :: "u32 \<Rightarrow> ToolCallState \<Rightarrow> StreamEvent list \<times> ToolCallState" where
  "stop_event offset t =
     (if tc_started t \<and> \<not> tc_stopped t
      then ([ContentBlockStop (block_index offset t)], t\<lparr>tc_stopped := True\<rparr>) else ([], t))"

subsection \<open>The state of a stream\<close>

record StreamState =
  st_model :: ustr
  st_message_started :: bool
  st_text_started :: bool
  st_text_finished :: bool
  st_finished :: bool
  st_stop_reason :: "ustr option"
  st_usage :: "Usage option"
  st_tool_calls :: "(u32, ToolCallState) btree"
  st_thinking_started :: bool
  st_thinking_finished :: bool

definition StreamState_new :: "ustr \<Rightarrow> StreamState" where
  "StreamState_new model =
     \<lparr>st_model = model, st_message_started = False, st_text_started = False, st_text_finished = False,
      st_finished = False, st_stop_reason = None, st_usage = None, st_tool_calls = [],
      st_thinking_started = False, st_thinking_finished = False\<rparr>"

definition text_block_index :: "StreamState \<Rightarrow> u32" where
  "text_block_index st = (if st_thinking_started st then 1 else 0)"

definition tool_index_offset :: "StreamState \<Rightarrow> u32" where
  "tool_index_offset st = (if st_thinking_started st then 2 else 1)"

definition close_thinking :: "StreamState \<Rightarrow> StreamEvent list \<times> StreamState" where
  "close_thinking st =
     (if st_thinking_started st \<and> \<not> st_thinking_finished st
      then ([ContentBlockStop 0], st\<lparr>st_thinking_finished := True\<rparr>) else ([], st))"

text \<open>Two steps in sequence, their events appended.\<close>

definition emit_then ::
  "('s \<Rightarrow> 'e list \<times> 's) \<Rightarrow> ('s \<Rightarrow> 'e list \<times> 's) \<Rightarrow> 's \<Rightarrow> 'e list \<times> 's" where
  "emit_then f g s = (let (es, s1) = f s; (es', s2) = g s1 in (es @ es', s2))"

fun emit_all :: "('a \<Rightarrow> 's \<Rightarrow> 'e list \<times> 's) \<Rightarrow> 'a list \<Rightarrow> 's \<Rightarrow> 'e list \<times> 's" where
  "emit_all f [] s = ([], s)"
| "emit_all f (x # xs) s = emit_then (f x) (emit_all f xs) s"

definition ingest_start :: "ChatCompletionChunk \<Rightarrow> StreamState \<Rightarrow> StreamEvent list \<times> StreamState" where
  "ingest_start chunk st =
     (if st_message_started st then ([], st)
      else ([MessageStart
              \<lparr>resp_id = ck_id chunk, resp_kind = lit ''message'', resp_role = lit ''assistant'', resp_content = [],
               resp_model = unwrap_or (st_model st) (ck_model chunk), resp_stop_reason = None,
               resp_stop_sequence = None, resp_usage = no_usage, resp_request_id = None\<rparr>],
            st\<lparr>st_message_started := True\<rparr>))"

definition ingest_usage :: "ChatCompletionChunk \<Rightarrow> StreamState \<Rightarrow> StreamEvent list \<times> StreamState" where
  "ingest_usage chunk st =
     (case ck_usage chunk of
        None \<Rightarrow> ([], st)
      | Some u \<Rightarrow>
          ([], st\<lparr>st_usage := Some \<lparr>us_input_tokens = ou_prompt_tokens u, us_cache_creation_input_tokens = 0,
                                   us_cache_read_input_tokens = 0, us_output_tokens = ou_completion_tokens u\<rparr>\<rparr>))"

definition ingest_reasoning :: "ChunkChoice \<Rightarrow> StreamState \<Rightarrow> StreamEvent list \<times> StreamState" where
  "ingest_reasoning choice st =
     (case cd_reasoning_content (cc_delta choice) of
        None \<Rightarrow> ([], st)
      | Some reasoning \<Rightarrow>
          if reasoning = [] then ([], st)
          else ((if st_thinking_started st then [] else [ContentBlockStart 0 (OutThinking [] None)])
                @ [ContentBlockDeltaEv 0 (ThinkingDelta reasoning)],
                st\<lparr>st_thinking_started := True\<rparr>))"

definition ingest_text :: "ustr \<Rightarrow> StreamState \<Rightarrow> StreamEvent list \<times> StreamState" where
  "ingest_text content st =
     ((if st_text_started st then [] else [ContentBlockStart (text_block_index st) (OutText [])])
      @ [ContentBlockDeltaEv (text_block_index st) (TextDelta content)],
      st\<lparr>st_text_started := True\<rparr>)"

definition ingest_content :: "ChunkChoice \<Rightarrow> StreamState \<Rightarrow> StreamEvent list \<times> StreamState" where
  "ingest_content choice st =
     (case cd_content (cc_delta choice) of
        None \<Rightarrow> ([], st)
      | Some content \<Rightarrow>
          if content = [] then ([], st) else emit_then close_thinking (ingest_text content) st)"

text \<open>What happens to the entry of a tool call: nothing more while its name is not known.\<close>

definition tool_started :: "u32 \<Rightarrow> ToolCallState \<Rightarrow> (StreamEvent list \<times> ToolCallState) option" where
  "tool_started offset t =
     (if tc_started t then Some ([], t)
      else map_option (\<lambda>ev. ([ev], t\<lparr>tc_started := True\<rparr>)) (start_event offset t))"

definition tool_delta :: "u32 \<Rightarrow> ToolCallState \<Rightarrow> StreamEvent list \<times> ToolCallState" where
  "tool_delta offset t = (case delta_event offset t of (ev, t') \<Rightarrow> (opt_list ev, t'))"

definition tool_stop :: "bool \<Rightarrow> u32 \<Rightarrow> ToolCallState \<Rightarrow> StreamEvent list \<times> ToolCallState" where
  "tool_stop finishing offset t =
     (if finishing \<and> \<not> tc_stopped t then ([ContentBlockStop (block_index offset t)], t\<lparr>tc_stopped := True\<rparr>)
      else ([], t))"

definition tool_entry_step :: "bool \<Rightarrow> u32 \<Rightarrow> ToolCallState \<Rightarrow> StreamEvent list \<times> ToolCallState" where
  "tool_entry_step finishing offset t =
     (case tool_started offset t of
        None \<Rightarrow> ([], t)
      | Some (es, t1) \<Rightarrow>
          (case emit_then (tool_delta offset) (tool_stop finishing offset) t1 of (es', t2) \<Rightarrow> (es @ es', t2)))"

definition is_tool_calls :: "ustr option \<Rightarrow> bool" where
  "is_tool_calls finish_reason \<longleftrightarrow> finish_reason = Some (lit ''tool_calls'')"

definition ingest_tool_entry :: "bool \<Rightarrow> DeltaToolCall \<Rightarrow> StreamState \<Rightarrow> StreamEvent list \<times> StreamState" where
  "ingest_tool_entry finishing d st =
     (let t = ToolCallState_apply d (unwrap_or ToolCallState_default (btree_get (st_tool_calls st) (dt_index d)));
          (es, t') = tool_entry_step finishing (tool_index_offset st) t
      in (es, st\<lparr>st_tool_calls := btree_insert (dt_index d) t' (st_tool_calls st)\<rparr>))"

definition ingest_tool_call :: "bool \<Rightarrow> DeltaToolCall \<Rightarrow> StreamState \<Rightarrow> StreamEvent list \<times> StreamState" where
  "ingest_tool_call finishing d = emit_then close_thinking (ingest_tool_entry finishing d)"

definition normalize_finish_reason :: "ustr \<Rightarrow> ustr" where
  "normalize_finish_reason value =
     (if value = lit ''stop'' then lit ''end_turn'' else if value = lit ''tool_calls'' then lit ''tool_use'' else value)"

text \<open>A step on every entry, in key order.\<close>

fun map_entries :: "(ToolCallState \<Rightarrow> StreamEvent list \<times> ToolCallState) \<Rightarrow> (u32, ToolCallState) btree
    \<Rightarrow> StreamEvent list \<times> (u32, ToolCallState) btree" where
  "map_entries f [] = ([], [])"
| "map_entries f ((k, t) # m) = (let (es, t') = f t; (es', m') = map_entries f m in (es @ es', (k, t') # m'))"

definition ingest_finish_reason :: "ChunkChoice \<Rightarrow> StreamState \<Rightarrow> StreamEvent list \<times> StreamState" where
  "ingest_finish_reason choice st =
     (case cc_finish_reason choice of
        None \<Rightarrow> ([], st)
      | Some reason \<Rightarrow>
          let st1 = st\<lparr>st_stop_reason := Some (normalize_finish_reason reason)\<rparr>
          in if reason = lit ''tool_calls''
             then let (es, m) = map_entries (stop_event (tool_index_offset st1)) (st_tool_calls st1)
                  in (es, st1\<lparr>st_tool_calls := m\<rparr>)
             else ([], st1))"

definition ingest_choice :: "ChunkChoice \<Rightarrow> StreamState \<Rightarrow> StreamEvent list \<times> StreamState" where
  "ingest_choice choice =
     emit_then (ingest_reasoning choice)
       (emit_then (ingest_content choice)
          (emit_then
             (emit_all (ingest_tool_call (is_tool_calls (cc_finish_reason choice))) (cd_tool_calls (cc_delta choice)))
             (ingest_finish_reason choice)))"

definition ingest_chunk :: "ChatCompletionChunk \<Rightarrow> StreamState \<Rightarrow> StreamEvent list \<times> StreamState" where
  "ingest_chunk chunk =
     emit_then (ingest_start chunk) (emit_then (ingest_usage chunk) (emit_all ingest_choice (ck_choices chunk)))"

definition finish_text :: "StreamState \<Rightarrow> StreamEvent list \<times> StreamState" where
  "finish_text st =
     (if st_text_started st \<and> \<not> st_text_finished st
      then ([ContentBlockStop (text_block_index st)], st\<lparr>st_text_finished := True\<rparr>) else ([], st))"

definition finish_tool :: "u32 \<Rightarrow> ToolCallState \<Rightarrow> StreamEvent list \<times> ToolCallState" where
  "finish_tool offset =
     emit_then
       (\<lambda>t. if tc_started t then ([], t)
            else case start_event offset t of
                   None \<Rightarrow> ([], t)
                 | Some ev \<Rightarrow> emit_then (\<lambda>t. ([ev], t\<lparr>tc_started := True\<rparr>)) (tool_delta offset) t)
       (stop_event offset)"

definition finish_tools :: "StreamState \<Rightarrow> StreamEvent list \<times> StreamState" where
  "finish_tools st =
     (let (es, m) = map_entries (finish_tool (tool_index_offset st)) (st_tool_calls st)
      in (es, st\<lparr>st_tool_calls := m\<rparr>))"

definition finish_message :: "StreamState \<Rightarrow> StreamEvent list \<times> StreamState" where
  "finish_message st =
     (if st_message_started st
      then [MessageDeltaEv \<lparr>md_stop_reason = Some (unwrap_or (lit ''end_turn'') (st_stop_reason st)),
                            md_stop_sequence = None\<rparr> (unwrap_or no_usage (st_usage st)),
            MessageStop]
      else [], st)"

definition StreamState_finish :: "StreamState \<Rightarrow> StreamEvent list \<times> StreamState" where
  "StreamState_finish st =
     (if st_finished st then ([], st)
      else emit_then close_thinking (emit_then finish_text (emit_then finish_tools finish_message))
             (st\<lparr>st_finished := True\<rparr>))"

subsection \<open>Frames\<close>

definition value_as_u64 :: "Value \<Rightarrow> u64 option" where
  "value_as_u64 v = (case v of Number s \<Rightarrow> parse_u64 s | _ \<Rightarrow> None)"

text \<open>\<^verbatim>\<open>StatusCode::from_u16(code).unwrap_or(BAD_REQUEST)\<close>: a status has three digits.\<close>

definition status_or_bad_request :: "u16 \<Rightarrow> u16" where
  "status_or_bad_request code = (if 100 \<le> code \<and> code < 1000 then code else 400)"

definition suggested_action_for_status :: "u16 \<Rightarrow> ustr option" where
  "suggested_action_for_status status =
     (if status = 401 then Some (lit ''Check API key is set correctly and has not expired'')
      else if status = 403 then Some (lit ''Verify API key has required permissions for this operation'')
      else if status = 413 then Some (lit ''Reduce prompt size or context window before retrying'')
      else if status = 429 then Some (lit ''Wait a moment before retrying; consider reducing request rate'')
      else if status = 500 then Some (lit ''Provider server error - retry after a brief wait'')
      else if status \<in> {502, 503, 504} then Some (lit ''Provider gateway error - retry after a brief wait'')
      else None)"

text \<open>An error object in the payload, as both the streaming and the plain reply are checked for.\<close>

definition embedded_error :: "ustr \<Rightarrow> ustr option \<Rightarrow> ustr \<Rightarrow> Value \<Rightarrow> ApiError" where
  "embedded_error fallback request_id body err =
     (let msg = unwrap_or fallback (Option.bind (value_get (lit ''message'') err) value_as_str);
          code = map_option ucast (Option.bind (value_get (lit ''code'') err) value_as_u64);
          status = status_or_bad_request (unwrap_or 400 code)
      in Api status (Option.bind (value_get (lit ''type'') err) value_as_str) (Some msg) request_id body False
           (suggested_action_for_status status))"

fun data_lines_of :: "ustr list \<Rightarrow> ustr list" where
  "data_lines_of [] = []"
| "data_lines_of (line # ls) =
     (if starts_with [58] line then data_lines_of ls
      else case strip_prefix (lit ''data:'') line of
             Some payload \<Rightarrow> trim_start payload # data_lines_of ls
           | None \<Rightarrow> data_lines_of ls)"

definition parse_sse_frame ::
  "from_str_fn \<Rightarrow> (ustr \<Rightarrow> ustr + ChatCompletionChunk) \<Rightarrow> ustr \<Rightarrow> ustr \<Rightarrow> ustr \<Rightarrow> ApiError + ChatCompletionChunk option" where
  "parse_sse_frame from_str chunk_from_str frame provider model =
     (let trimmed = trim frame
      in if trimmed = [] then Inr None
         else let data_lines = data_lines_of (lines trimmed); payload = join [10] data_lines
              in if data_lines = [] then Inr None
                 else if payload = lit ''[DONE]'' then Inr None
                 else case (case from_str payload of Inr raw \<Rightarrow> value_get (lit ''error'') raw | Inl _ \<Rightarrow> None) of
                        Some err \<Rightarrow> Inl (embedded_error (lit ''provider returned an error in stream'') None payload err)
                      | None \<Rightarrow>
                          (case chunk_from_str payload of
                             Inr chunk \<Rightarrow> Inr (Some chunk)
                           | Inl err \<Rightarrow> Inl (json_deserialize provider model payload err)))"

record OpenAiSseParser =
  op_buffer :: "u8 list"
  op_provider :: ustr
  op_model :: ustr

definition OpenAiSseParser_with_context :: "ustr \<Rightarrow> ustr \<Rightarrow> OpenAiSseParser" where
  "OpenAiSseParser_with_context provider model = \<lparr>op_buffer = [], op_provider = provider, op_model = model\<rparr>"

text \<open>The two readers of \<^verbatim>\<open>serde_json\<close>.\<close>

record chunk_reader =
  read_value :: from_str_fn
  read_chunk :: "ustr \<Rightarrow> ustr + ChatCompletionChunk"

definition op_parse :: "chunk_reader \<Rightarrow> OpenAiSseParser \<Rightarrow> ustr \<Rightarrow> ApiError + ChatCompletionChunk option" where
  "op_parse rd p frame = parse_sse_frame (read_value rd) (read_chunk rd) frame (op_provider p) (op_model p)"

definition OpenAiSseParser_push ::
  "chunk_reader \<Rightarrow> u8 list \<Rightarrow> OpenAiSseParser \<Rightarrow> (ApiError + ChatCompletionChunk list) \<times> OpenAiSseParser" where
  "OpenAiSseParser_push rd chunk p =
     (let (r, buffer) = frame_loop (op_parse rd p) (op_buffer p @ chunk) in (r, p\<lparr>op_buffer := buffer\<rparr>))"

subsection \<open>The stream handed to the caller\<close>

text \<open>The chunks the connection will still deliver are part of the state; a read error ends them.\<close>

record MessageStream =
  ms_chunks :: "(ApiError + u8 list) list"
  ms_parser :: OpenAiSseParser
  ms_pending :: "StreamEvent list"
  ms_done :: bool
  ms_state :: StreamState

function next_event :: "chunk_reader \<Rightarrow> MessageStream \<Rightarrow> (ApiError + StreamEvent option) \<times> MessageStream" where
  "next_event rd s =
     (case ms_pending s of
        ev # evs \<Rightarrow> (Inr (Some ev), s\<lparr>ms_pending := evs\<rparr>)
      | [] \<Rightarrow>
          if ms_done s then
            (let (es, st) = StreamState_finish (ms_state s)
             in case es of
                  ev # evs \<Rightarrow> (Inr (Some ev), s\<lparr>ms_pending := evs, ms_state := st\<rparr>)
                | [] \<Rightarrow> (Inr None, s\<lparr>ms_state := st\<rparr>))
          else
            (case ms_chunks s of
               [] \<Rightarrow> next_event rd (s\<lparr>ms_done := True\<rparr>)
             | Inl e # cs \<Rightarrow> (Inl e, s\<lparr>ms_chunks := cs\<rparr>)
             | Inr c # cs \<Rightarrow>
                 (case OpenAiSseParser_push rd c (ms_parser s) of
                    (Inl e, p) \<Rightarrow> (Inl e, s\<lparr>ms_chunks := cs, ms_parser := p\<rparr>)
                  | (Inr parsed, p) \<Rightarrow>
                      (case emit_all ingest_chunk parsed (ms_state s) of
                         (es, st) \<Rightarrow>
                           next_event rd (s\<lparr>ms_chunks := cs, ms_parser := p, ms_pending := es, ms_state := st\<rparr>)))))"
  by pat_completeness auto
termination
  by (relation "measure (\<lambda>(rd, s). length (ms_chunks s) + (if ms_done s then 0 else 1))") auto

declare next_event.simps [simp del]

section \<open>Content\<close>

text \<open>The text and the reasoning that a sequence of events carries.\<close>

fun event_text :: "StreamEvent \<Rightarrow> ustr" where
  "event_text (ContentBlockDeltaEv i (TextDelta t)) = t"
| "event_text _ = []"

fun event_thinking :: "StreamEvent \<Rightarrow> ustr" where
  "event_thinking (ContentBlockDeltaEv i (ThinkingDelta t)) = t"
| "event_thinking _ = []"

definition text_of :: "StreamEvent list \<Rightarrow> ustr" where
  "text_of es = concat (map event_text es)"

definition thinking_of :: "StreamEvent list \<Rightarrow> ustr" where
  "thinking_of es = concat (map event_thinking es)"

definition choice_text :: "ChunkChoice \<Rightarrow> ustr" where
  "choice_text c = unwrap_or [] (cd_content (cc_delta c))"

definition choice_reasoning :: "ChunkChoice \<Rightarrow> ustr" where
  "choice_reasoning c = unwrap_or [] (cd_reasoning_content (cc_delta c))"

lemma fst_emit_then: "fst (emit_then f g s) = fst (f s) @ fst (g (snd (f s)))"
  by (simp add: emit_then_def split: prod.split)

lemma snd_emit_then: "snd (emit_then f g s) = snd (g (snd (f s)))"
  by (simp add: emit_then_def split: prod.split)

lemmas emit_simps = fst_emit_then snd_emit_then

text \<open>A step that carries neither text nor reasoning.\<close>

definition silent :: "('s \<Rightarrow> StreamEvent list \<times> 's) \<Rightarrow> bool" where
  "silent f \<longleftrightarrow> (\<forall>s. \<forall>e \<in> set (fst (f s)). event_text e = [] \<and> event_thinking e = [])"

lemma silentD: "silent f \<Longrightarrow> text_of (fst (f s)) = [] \<and> thinking_of (fst (f s)) = []"
  by (simp add: silent_def text_of_def thinking_of_def)

lemma silent_then: "silent f \<Longrightarrow> silent g \<Longrightarrow> silent (emit_then f g)"
  by (auto simp: silent_def emit_simps)

lemma silent_all: "(\<And>x. silent (f x)) \<Longrightarrow> silent (emit_all f xs)"
proof (induction xs)
  case Nil
  then show ?case by (simp add: silent_def)
next
  case (Cons x xs)
  have "emit_all f (x # xs) = emit_then (f x) (emit_all f xs)" by (simp add: fun_eq_iff)
  with Cons show ?case by (simp add: silent_then)
qed

lemma silent_map_entries: "silent f \<Longrightarrow> e \<in> set (fst (map_entries f m)) \<Longrightarrow> event_text e = [] \<and> event_thinking e = []"
proof (induction m)
  case (Cons kt m)
  obtain k t where "kt = (k, t)" by (cases kt)
  with Cons show ?case by (auto simp: silent_def split: prod.splits) (metis fst_conv)+
qed simp

lemma silent_steps:
  "silent close_thinking" "silent (ingest_start chunk)" "silent (ingest_usage chunk)"
  "silent (stop_event offset)" "silent finish_text" "silent finish_message"
  by (auto simp: silent_def close_thinking_def ingest_start_def ingest_usage_def stop_event_def finish_text_def
      finish_message_def split: option.splits)

lemma silent_tool: "silent (tool_delta offset)" "silent (tool_entry_step finishing offset)" "silent (finish_tool offset)"
  by (auto simp: silent_def tool_entry_step_def tool_started_def start_event_def tool_delta_def delta_event_def
      opt_list_def tool_stop_def finish_tool_def stop_event_def emit_then_def Let_def split: option.splits if_splits)

lemma silent_ingest_tool_call: "silent (ingest_tool_call finishing d)"
proof -
  have "silent (ingest_tool_entry finishing d)"
    using silent_tool(2) [of finishing] by (simp add: silent_def ingest_tool_entry_def Let_def split_beta)
  then show ?thesis unfolding ingest_tool_call_def by (intro silent_then silent_steps)
qed

lemma silent_finish_reason: "silent (ingest_finish_reason choice)"
  using silent_map_entries [OF silent_steps(4)]
  by (simp add: silent_def ingest_finish_reason_def Let_def split_beta split: option.splits)

lemma silent_StreamState_finish: "silent StreamState_finish"
proof -
  have "silent finish_tools"
    using silent_map_entries [OF silent_tool(3)] by (simp add: silent_def finish_tools_def split_beta)
  then have "silent (emit_then close_thinking (emit_then finish_text (emit_then finish_tools finish_message)))"
    by (intro silent_then silent_steps)
  then show ?thesis by (simp add: silent_def StreamState_finish_def)
qed

lemma text_of_append [simp]: "text_of (a @ b) = text_of a @ text_of b" "thinking_of (a @ b) = thinking_of a @ thinking_of b"
  by (simp_all add: text_of_def thinking_of_def)

lemma ingest_choice_content:
  "text_of (fst (ingest_choice c st)) = choice_text c"
  "thinking_of (fst (ingest_choice c st)) = choice_reasoning c"
proof -
  have r: "text_of (fst (ingest_reasoning c st)) = []" "thinking_of (fst (ingest_reasoning c st)) = choice_reasoning c" for st
    by (auto simp: ingest_reasoning_def text_of_def thinking_of_def choice_reasoning_def unwrap_or_def split: option.split)
  have t: "text_of (fst (ingest_content c st)) = choice_text c" "thinking_of (fst (ingest_content c st)) = []" for st
    by (auto simp: ingest_content_def ingest_text_def close_thinking_def emit_simps text_of_def thinking_of_def
        choice_text_def unwrap_or_def split: option.split)
  have "silent (emit_then (emit_all (ingest_tool_call fin) ds) (ingest_finish_reason c))" for fin ds
    by (intro silent_then silent_all silent_ingest_tool_call silent_finish_reason)
  note s = silentD [OF this]
  show "text_of (fst (ingest_choice c st)) = choice_text c"
    "thinking_of (fst (ingest_choice c st)) = choice_reasoning c"
    using s by (simp_all add: ingest_choice_def emit_simps [of "ingest_reasoning c"] emit_simps [of "ingest_content c"] r t)
qed

lemma emit_all_content:
  assumes "\<And>x st. text_of (fst (f x st)) = g x" and "\<And>x st. thinking_of (fst (f x st)) = h x"
  shows "text_of (fst (emit_all f xs st)) = concat (map g xs) \<and> thinking_of (fst (emit_all f xs st)) = concat (map h xs)"
  by (induction xs arbitrary: st) (simp_all add: emit_simps assms text_of_def [of "[]"] thinking_of_def [of "[]"])

lemma ingest_chunk_content:
  "text_of (fst (ingest_chunk ck st)) = concat (map choice_text (ck_choices ck))"
  "thinking_of (fst (ingest_chunk ck st)) = concat (map choice_reasoning (ck_choices ck))"
  using silentD [OF silent_steps(2)] silentD [OF silent_steps(3)]
    emit_all_content [of ingest_choice, OF ingest_choice_content]
  by (simp_all add: ingest_chunk_def emit_simps)

section \<open>Brackets\<close>

text \<open>The protocol of the Messages API, as an automaton: a message is started once; a block is opened once,
  receives deltas while it is open and is closed; then the message ends.\<close>

datatype msg_phase = Before | Streaming | Closing | After

datatype block_status = Fresh | Opened | Closed

type_synonym protocol = "msg_phase \<times> (u32 \<Rightarrow> block_status)"

fun proto_step :: "StreamEvent \<Rightarrow> protocol \<Rightarrow> protocol option" where
  "proto_step (MessageStart m) (ph, f) = (if ph = Before then Some (Streaming, f) else None)"
| "proto_step (ContentBlockStart i b) (ph, f) = (if ph = Streaming \<and> f i = Fresh then Some (ph, f(i := Opened)) else None)"
| "proto_step (ContentBlockDeltaEv i d) (ph, f) = (if ph = Streaming \<and> f i = Opened then Some (ph, f) else None)"
| "proto_step (ContentBlockStop i) (ph, f) = (if ph = Streaming \<and> f i = Opened then Some (ph, f(i := Closed)) else None)"
| "proto_step (MessageDeltaEv d u) (ph, f) = (if ph = Streaming then Some (Closing, f) else None)"
| "proto_step MessageStop (ph, f) = (if ph = Closing then Some (After, f) else None)"

fun proto_run :: "StreamEvent list \<Rightarrow> protocol \<Rightarrow> protocol option" where
  "proto_run [] p = Some p"
| "proto_run (e # es) p = Option.bind (proto_step e p) (proto_run es)"

text \<open>The order in which a server must send: no reasoning once a text or a tool call has begun, no tool
  calls once they were declared finished, and no tool call twice in the choice that finishes them. \<open>ans\<close>
  says that the answer has begun, \<open>fin\<close> that the tool calls are finished.\<close>

definition finishes_tools :: "ChunkChoice \<Rightarrow> bool" where
  "finishes_tools c \<longleftrightarrow> is_tool_calls (cc_finish_reason c)"

definition choice_tools :: "ChunkChoice \<Rightarrow> DeltaToolCall list" where
  "choice_tools c = cd_tool_calls (cc_delta c)"

fun orderly :: "bool \<Rightarrow> bool \<Rightarrow> ChunkChoice list \<Rightarrow> bool" where
  "orderly ans fin [] = True"
| "orderly ans fin (c # cs) \<longleftrightarrow>
     (choice_reasoning c = [] \<or> \<not> ans) \<and> (choice_tools c = [] \<or> \<not> fin)
     \<and> (\<not> finishes_tools c \<or> distinct (map dt_index (choice_tools c)))
     \<and> list_all (\<lambda>d. dt_index d < - 2) (choice_tools c)
     \<and> orderly (ans \<or> choice_text c \<noteq> [] \<or> choice_tools c \<noteq> []) (fin \<or> finishes_tools c) cs"

text \<open>The status of every block in a state of the stream.\<close>

definition tool_status :: "ToolCallState \<Rightarrow> block_status" where
  "tool_status t = (if tc_stopped t then Closed else if tc_started t then Opened else Fresh)"

definition status_of :: "StreamState \<Rightarrow> u32 \<Rightarrow> block_status" where
  "status_of st i =
     (if st_thinking_started st \<and> i = 0 then (if st_thinking_finished st then Closed else Opened)
      else if st_text_started st \<and> i = text_block_index st then (if st_text_finished st then Closed else Opened)
      else case btree_get (st_tool_calls st) (i - tool_index_offset st) of
             Some t \<Rightarrow> tool_status t
           | None \<Rightarrow> Fresh)"

definition view_of :: "StreamState \<Rightarrow> protocol" where
  "view_of st = (if st_message_started st then Streaming else Before, status_of st)"

text \<open>The invariant; \<open>D\<close> is the set of tool calls that may have been stopped.\<close>

definition entries_ok :: "u32 set \<Rightarrow> (u32, ToolCallState) btree \<Rightarrow> bool" where
  "entries_ok D m \<longleftrightarrow> btree_wf m
     \<and> (\<forall>k t. btree_get m k = Some t
          \<longrightarrow> tc_openai_index t = k \<and> k < - 2 \<and> (tc_stopped t \<longrightarrow> tc_started t \<and> k \<in> D))"

definition stream_inv :: "bool \<Rightarrow> u32 set \<Rightarrow> StreamState \<Rightarrow> bool" where
  "stream_inv ans D st \<longleftrightarrow>
     entries_ok D (st_tool_calls st) \<and> st_message_started st \<and> \<not> st_text_finished st
     \<and> (st_thinking_finished st \<longrightarrow> st_thinking_started st)
     \<and> (if ans then st_thinking_started st \<longrightarrow> st_thinking_finished st
        else \<not> st_text_started st \<and> st_tool_calls st = [] \<and> \<not> st_thinking_finished st)"

text \<open>A step whose events lead the protocol from the view of the old state to that of the new one.\<close>

definition brackets :: "(StreamState \<Rightarrow> StreamEvent list \<times> StreamState) \<Rightarrow> StreamState \<Rightarrow> bool" where
  "brackets f st \<longleftrightarrow> proto_run (fst (f st)) (view_of st) = Some (view_of (snd (f st)))"

lemma proto_run_append: "proto_run (xs @ ys) p = Option.bind (proto_run xs p) (proto_run ys)"
proof (induction xs arbitrary: p)
  case (Cons e xs)
  then show ?case by (cases "proto_step e p") simp_all
qed simp

lemma brackets_then: "brackets f st \<Longrightarrow> brackets g (snd (f st)) \<Longrightarrow> brackets (emit_then f g) st"
  by (simp add: brackets_def emit_simps proto_run_append)

lemma offset_neq:
  fixes k :: u32
  assumes "k < - 2"
  shows "k + 1 \<noteq> 0" "k + 2 \<noteq> 0" "k + 2 \<noteq> 1"
proof -
  have "k \<noteq> - 1" "k \<noteq> - 2" using assms word_n1_ge [of "- 2 :: u32"] by auto
  then show a: "k + 1 \<noteq> 0" and "k + 2 \<noteq> 0" by (metis eq_neg_iff_add_eq_0)+
  have "k + 1 = (k + 2) - 1" by simp
  with a show "k + 2 \<noteq> 1" by (metis diff_self)
qed

subsection \<open>Tool calls\<close>

lemma status_insert:
  assumes "entries_ok D (st_tool_calls st)" and "k < - 2"
  shows "status_of (st\<lparr>st_tool_calls := btree_insert k t (st_tool_calls st)\<rparr>)
     = (status_of st)(k + tool_index_offset st := tool_status t)"
proof (rule ext)
  fix i
  let ?o = "tool_index_offset st"
  have w: "btree_wf (st_tool_calls st)" using assms(1) by (simp add: entries_ok_def)
  have e: "i - ?o = k \<longleftrightarrow> i = k + ?o" by (auto simp: algebra_simps)
  have n: "k + ?o \<noteq> 0 \<or> \<not> st_thinking_started st" "k + ?o \<noteq> text_block_index st"
    using offset_neq [OF assms(2)] by (auto simp: tool_index_offset_def text_block_index_def)
  show "status_of (st\<lparr>st_tool_calls := btree_insert k t (st_tool_calls st)\<rparr>) i
      = ((status_of st)(k + ?o := tool_status t)) i"
    using n by (auto simp: status_of_def text_block_index_def tool_index_offset_def btree_get_insert [OF w] e
        [unfolded tool_index_offset_def])
qed

text \<open>The events of one entry move its block from the status of the old entry to that of the new one.\<close>

lemma tool_entry_brackets:
  assumes "\<not> tc_stopped t" and "f (block_index off t) = tool_status t"
  shows "proto_run (fst (tool_entry_step fin off t)) (Streaming, f)
     = Some (Streaming, f(block_index off t := tool_status (snd (tool_entry_step fin off t))))"
proof -
  have u: "f(block_index off t := tool_status t) = f" using assms(2) by (metis fun_upd_triv)
  show ?thesis using assms u
    by (auto simp: tool_entry_step_def tool_started_def start_event_def tool_delta_def delta_event_def opt_list_def
        tool_stop_def emit_then_def tool_status_def block_index_def fun_upd_idem split: option.splits if_splits)
qed

lemma tool_entry_facts:
  "tc_openai_index (snd (tool_entry_step fin off t)) = tc_openai_index t"
  "tc_stopped (snd (tool_entry_step fin off t)) \<Longrightarrow> tc_stopped t \<or> fin"
  "tc_stopped (snd (tool_entry_step fin off t)) \<Longrightarrow> \<not> tc_stopped t \<or> tc_started t
     \<Longrightarrow> tc_started (snd (tool_entry_step fin off t))"
  by (auto simp: tool_entry_step_def tool_started_def start_event_def tool_delta_def delta_event_def
      tool_stop_def emit_then_def split: option.splits if_splits)

lemma entries_ok_insert:
  "entries_ok D m \<Longrightarrow> k < - 2 \<Longrightarrow> tc_openai_index t = k \<Longrightarrow> (tc_stopped t \<longrightarrow> tc_started t \<and> k \<in> D)
    \<Longrightarrow> entries_ok D (btree_insert k t m)"
  by (auto simp: entries_ok_def btree_get_insert)

lemma entries_ok_mono: "entries_ok D m \<Longrightarrow> D \<subseteq> D' \<Longrightarrow> entries_ok D' m"
  by (auto simp: entries_ok_def)

lemma close_thinking_brackets:
  assumes "stream_inv ans D st"
  shows "brackets close_thinking st" and "stream_inv True D (snd (close_thinking st))"
proof -
  have "status_of (st\<lparr>st_thinking_finished := True\<rparr>) = (status_of st)(0 := Closed)" if "st_thinking_started st"
    using that by (auto simp: fun_eq_iff status_of_def text_block_index_def tool_index_offset_def split: option.split)
  moreover have "status_of st 0 = Opened" if "st_thinking_started st" "\<not> st_thinking_finished st"
    using that by (simp add: status_of_def)
  ultimately show "brackets close_thinking st"
    using assms by (simp add: brackets_def close_thinking_def view_of_def stream_inv_def)
  show "stream_inv True D (snd (close_thinking st))"
    using assms by (auto simp: close_thinking_def stream_inv_def split: if_splits)
qed

lemma ingest_tool_entry_brackets:
  assumes "stream_inv True D st" and "dt_index d < - 2" and "dt_index d \<notin> D"
  shows "brackets (ingest_tool_entry fin d) st"
    and "stream_inv True (if fin then insert (dt_index d) D else D) (snd (ingest_tool_entry fin d st))"
proof -
  let ?m = "st_tool_calls st" and ?off = "tool_index_offset st" and ?k = "dt_index d"
  let ?t = "ToolCallState_apply d (unwrap_or ToolCallState_default (btree_get ?m ?k))"
  let ?t' = "snd (tool_entry_step fin ?off ?t)"
  have ok: "entries_ok D ?m" using assms(1) by (simp add: stream_inv_def)
  then have e: "tc_openai_index t = ?k" "\<not> tc_stopped t" if "btree_get ?m ?k = Some t" for t
    using that assms(3) by (auto simp: entries_ok_def)
  have t: "tc_openai_index ?t = ?k" "\<not> tc_stopped ?t"
    "tool_status ?t = (case btree_get ?m ?k of Some t \<Rightarrow> tool_status t | None \<Rightarrow> Fresh)"
    using e by (auto simp: ToolCallState_apply_def unwrap_or_def ToolCallState_default_def tool_status_def split: option.split)
  have r: "ingest_tool_entry fin d st = (fst (tool_entry_step fin ?off ?t),
      st\<lparr>st_tool_calls := btree_insert ?k ?t' ?m\<rparr>)"
    by (simp add: ingest_tool_entry_def Let_def split_beta)
  have "status_of st (?k + ?off) = tool_status ?t"
    using offset_neq [OF assms(2)] t(3)
    by (auto simp: status_of_def tool_index_offset_def text_block_index_def split: if_splits)
  from tool_entry_brackets [OF t(2), of "status_of st" ?off fin] this t(1)
  have "proto_run (fst (tool_entry_step fin ?off ?t)) (Streaming, status_of st)
      = Some (Streaming, (status_of st)(?k + ?off := tool_status ?t'))"
    by (simp add: block_index_def)
  then show "brackets (ingest_tool_entry fin d) st"
    using assms(1) status_insert [OF ok assms(2)] by (simp add: brackets_def view_of_def r stream_inv_def)
  have "entries_ok (if fin then insert ?k D else D) (btree_insert ?k ?t' ?m)"
    using tool_entry_facts [of fin ?off ?t] t(1,2) assms(2) entries_ok_mono [OF ok, of "insert ?k D"] ok
    by (auto intro!: entries_ok_insert)
  then show "stream_inv True (if fin then insert ?k D else D) (snd (ingest_tool_entry fin d st))"
    using assms(1) by (simp add: r stream_inv_def)
qed

lemma ingest_tool_call_brackets:
  assumes "stream_inv ans D st" and "dt_index d < - 2" and "dt_index d \<notin> D"
  shows "brackets (ingest_tool_call fin d) st"
    and "stream_inv True (if fin then insert (dt_index d) D else D) (snd (ingest_tool_call fin d st))"
  using ingest_tool_entry_brackets [OF close_thinking_brackets(2) [OF assms(1)] assms(2,3)]
    close_thinking_brackets(1) [OF assms(1)]
  by (auto simp: ingest_tool_call_def emit_simps intro: brackets_then)

lemma tool_calls_brackets:
  "stream_inv ans D st \<Longrightarrow> list_all (\<lambda>d. dt_index d < - 2) ds \<Longrightarrow> \<forall>d \<in> set ds. dt_index d \<notin> D
    \<Longrightarrow> (fin \<longrightarrow> distinct (map dt_index ds))
    \<Longrightarrow> brackets (emit_all (ingest_tool_call fin) ds) st
      \<and> stream_inv (ans \<or> ds \<noteq> []) (if fin then D \<union> dt_index ` set ds else D) (snd (emit_all (ingest_tool_call fin) ds st))"
proof (induction ds arbitrary: ans D st)
  case Nil
  then show ?case by (simp add: brackets_def)
next
  case (Cons d ds)
  let ?D = "if fin then insert (dt_index d) D else D"
  from Cons.prems have b: "brackets (ingest_tool_call fin d) st" "stream_inv True ?D (snd (ingest_tool_call fin d st))"
    by (simp_all add: ingest_tool_call_brackets [of ans D])
  have "\<forall>d' \<in> set ds. dt_index d' \<notin> ?D" using Cons.prems(3,4) by (auto simp: rev_image_eqI)
  with Cons.IH [OF b(2)] Cons.prems(2,4) b(1) show ?case
    by (auto simp: emit_simps intro!: brackets_then split: if_splits)
qed

subsection \<open>All entries\<close>

lemma map_entries_keys: "map fst (snd (map_entries g m)) = map fst m"
  by (induction m) (auto simp: split_beta)

lemma map_entries_get: "btree_get (snd (map_entries g m)) k = map_option (\<lambda>t. snd (g t)) (btree_get m k)"
  by (induction m) (auto simp: btree_get_def split_beta)

lemma map_entries_brackets:
  assumes "\<And>t f. P t \<Longrightarrow> f (block_index off t) = tool_status t
      \<Longrightarrow> proto_run (fst (g t)) (Streaming, f) = Some (Streaming, f(block_index off t := tool_status (snd (g t))))"
    and "distinct (map fst m)" and "\<forall>(k, t) \<in> set m. P t \<and> tc_openai_index t = k \<and> f (k + off) = tool_status t"
  shows "proto_run (fst (map_entries g m)) (Streaming, f)
     = Some (Streaming, \<lambda>i. case btree_get (snd (map_entries g m)) (i - off) of Some t \<Rightarrow> tool_status t | None \<Rightarrow> f i)"
  using assms(2,3)
proof (induction m arbitrary: f)
  case Nil
  then show ?case by simp
next
  case (Cons kt m)
  obtain k t where kt: "kt = (k, t)" by (cases kt)
  let ?f = "f(k + off := tool_status (snd (g t)))"
  have "\<forall>(k', t') \<in> set m. k' + off \<noteq> k + off" using Cons.prems(1) kt by (auto simp: rev_image_eqI)
  then have "\<forall>(k', t') \<in> set m. P t' \<and> tc_openai_index t' = k' \<and> ?f (k' + off) = tool_status t'"
    using Cons.prems(2) by auto
  moreover have "distinct (map fst m)" using Cons.prems(1) by simp
  ultimately have IH: "proto_run (fst (map_entries g m)) (Streaming, ?f) = Some (Streaming,
      \<lambda>i. case btree_get (snd (map_entries g m)) (i - off) of Some t \<Rightarrow> tool_status t | None \<Rightarrow> ?f i)" by (intro Cons.IH)
  have "P t" "block_index off t = k + off" "f (k + off) = tool_status t"
    using Cons.prems(2) kt by (auto simp: block_index_def)
  with assms(1) [of t f] have "proto_run (fst (g t)) (Streaming, f) = Some (Streaming, ?f)" by simp
  moreover have "btree_get m k = None"
    using Cons.prems(1) kt by (auto simp: btree_get_def map_of_eq_None_iff)
  then have "btree_get (snd (map_entries g m)) k = None" by (simp add: map_entries_get)
  moreover have "i - off = k \<longleftrightarrow> i = k + off" for i by (auto simp: algebra_simps)
  ultimately show ?case using IH kt
    by (auto simp: split_beta proto_run_append fun_eq_iff btree_get_def split: option.split)
qed

lemma status_map_entries:
  assumes "entries_ok D (st_tool_calls st)"
    and "\<And>t f. tc_stopped t \<longrightarrow> tc_started t \<Longrightarrow> f (block_index (tool_index_offset st) t) = tool_status t
      \<Longrightarrow> proto_run (fst (g t)) (Streaming, f)
        = Some (Streaming, f(block_index (tool_index_offset st) t := tool_status (snd (g t))))"
  shows "proto_run (fst (map_entries g (st_tool_calls st))) (Streaming, status_of st)
    = Some (Streaming, status_of (st\<lparr>st_tool_calls := snd (map_entries g (st_tool_calls st))\<rparr>))"
proof -
  let ?m = "st_tool_calls st" and ?off = "tool_index_offset st"
  have d: "distinct (map fst ?m)" using assms(1) by (simp add: entries_ok_def btree_wf_def strict_sorted_iff)
  have get: "btree_get ?m k = Some t" if "(k, t) \<in> set ?m" for k t using that d by (simp add: btree_get_def)
  have ne: "btree_get ?m k = None" if "\<not> k < - 2" for k
    using that assms(1) by (cases "btree_get ?m k") (auto simp: entries_ok_def)
  have s: "status_of st (k + ?off) = tool_status t" if "(k, t) \<in> set ?m" for k t
    using offset_neq [of k] get [OF that] assms(1)
    by (auto simp: status_of_def tool_index_offset_def text_block_index_def entries_ok_def split: if_splits)
  have "\<forall>(k, t) \<in> set ?m. (tc_stopped t \<longrightarrow> tc_started t) \<and> tc_openai_index t = k \<and> status_of st (k + ?off) = tool_status t"
    using get s assms(1) by (fastforce simp: entries_ok_def)
  from map_entries_brackets [of "\<lambda>t. tc_stopped t \<longrightarrow> tc_started t" ?off g, OF assms(2) d this]
  have "proto_run (fst (map_entries g ?m)) (Streaming, status_of st) = Some (Streaming,
      \<lambda>i. case btree_get (snd (map_entries g ?m)) (i - ?off) of Some t \<Rightarrow> tool_status t | None \<Rightarrow> status_of st i)"
    by simp
  moreover have "\<not> (0 - 2 :: u32) < - 2" "\<not> (1 - 2 :: u32) < - 2" "\<not> (0 - 1 :: u32) < - 2" by simp_all
  then have "(case btree_get (snd (map_entries g ?m)) (i - ?off) of Some t \<Rightarrow> tool_status t | None \<Rightarrow> status_of st i)
      = status_of (st\<lparr>st_tool_calls := snd (map_entries g ?m)\<rparr>) i" for i
    using ne [of "0 - 2"] ne [of "1 - 2"] ne [of "0 - 1"]
    by (auto simp: status_of_def tool_index_offset_def text_block_index_def map_entries_get split: option.split)
  ultimately show ?thesis by simp
qed

subsection \<open>Choices and chunks\<close>

lemma reasoning_brackets:
  assumes "stream_inv ans D st" and "choice_reasoning c = [] \<or> \<not> ans"
  shows "brackets (ingest_reasoning c) st \<and> stream_inv ans D (snd (ingest_reasoning c st))"
proof (cases "choice_reasoning c = []")
  case True
  then have "ingest_reasoning c st = ([], st)"
    by (auto simp: choice_reasoning_def unwrap_or_def ingest_reasoning_def split: option.splits)
  with assms(1) show ?thesis by (simp add: brackets_def)
next
  case False
  then obtain r where r: "cd_reasoning_content (cc_delta c) = Some r" "r \<noteq> []"
    by (auto simp: choice_reasoning_def unwrap_or_def split: option.splits)
  from False assms have q: "\<not> ans" "\<not> st_text_started st" "st_tool_calls st = []" "\<not> st_thinking_finished st"
    "st_message_started st" by (auto simp: stream_inv_def)
  then have "status_of st = (\<lambda>i. if st_thinking_started st \<and> i = 0 then Opened else Fresh)"
    "status_of (st\<lparr>st_thinking_started := True\<rparr>) = (\<lambda>i. if i = 0 then Opened else Fresh)"
    by (simp_all add: fun_eq_iff status_of_def)
  then have "brackets (ingest_reasoning c) st"
    using r q by (auto simp: brackets_def view_of_def ingest_reasoning_def fun_eq_iff)
  with assms(1) r q show ?thesis by (simp add: ingest_reasoning_def stream_inv_def)
qed

lemma text_brackets:
  assumes "stream_inv True D st"
  shows "brackets (ingest_text t) st \<and> stream_inv True D (snd (ingest_text t st))"
proof -
  let ?i = "text_block_index st"
  have i: "status_of st ?i = (if st_text_started st then Opened else Fresh)"
  proof (cases "st_text_started st")
    case True
    then show ?thesis using assms by (auto simp: status_of_def stream_inv_def text_block_index_def)
  next
    case False
    have "btree_get (st_tool_calls st) k = None" if "\<not> k < - 2" for k
      using that assms by (cases "btree_get (st_tool_calls st) k") (auto simp: entries_ok_def stream_inv_def)
    from this [of "0 - 1"] this [of "1 - 2"] False show ?thesis
      by (simp add: status_of_def text_block_index_def tool_index_offset_def)
  qed
  have "status_of (st\<lparr>st_text_started := True\<rparr>) = (status_of st)(?i := Opened)"
    using assms by (auto simp: fun_eq_iff status_of_def stream_inv_def text_block_index_def tool_index_offset_def)
  with i assms have "brackets (ingest_text t) st"
    by (auto simp: brackets_def view_of_def ingest_text_def stream_inv_def fun_upd_idem)
  with assms show ?thesis by (simp add: ingest_text_def stream_inv_def)
qed

lemma content_brackets:
  assumes "stream_inv ans D st"
  shows "brackets (ingest_content c) st \<and> stream_inv (ans \<or> choice_text c \<noteq> []) D (snd (ingest_content c st))"
proof (cases "choice_text c = []")
  case True
  then have "ingest_content c st = ([], st)"
    by (auto simp: choice_text_def unwrap_or_def ingest_content_def split: option.splits)
  with assms True show ?thesis by (simp add: brackets_def)
next
  case False
  then obtain t where "cd_content (cc_delta c) = Some t" "t \<noteq> []"
    by (auto simp: choice_text_def unwrap_or_def split: option.splits)
  then have "ingest_content c st = emit_then close_thinking (ingest_text t) st" by (simp add: ingest_content_def)
  moreover have "brackets (emit_then close_thinking (ingest_text t)) st"
    using close_thinking_brackets [OF assms] text_brackets by (blast intro: brackets_then)
  moreover have "stream_inv True D (snd (emit_then close_thinking (ingest_text t) st))"
    using text_brackets [OF close_thinking_brackets(2) [OF assms]] by (simp add: emit_simps)
  ultimately show ?thesis using False by (simp add: brackets_def)
qed

lemma stop_event_brackets:
  "tc_stopped t \<longrightarrow> tc_started t \<Longrightarrow> f (block_index off t) = tool_status t
    \<Longrightarrow> proto_run (fst (stop_event off t)) (Streaming, f)
      = Some (Streaming, f(block_index off t := tool_status (snd (stop_event off t))))"
  by (auto simp: stop_event_def tool_status_def fun_upd_idem)

lemma entries_ok_map:
  assumes "entries_ok D m" and "\<And>t. tc_openai_index (snd (g t)) = tc_openai_index t"
    and "\<And>t. (tc_stopped t \<longrightarrow> tc_started t) \<Longrightarrow> tc_stopped (snd (g t)) \<longrightarrow> tc_started (snd (g t))"
  shows "entries_ok UNIV (snd (map_entries g m))"
  using assms by (auto simp: entries_ok_def map_entries_get btree_wf_def map_entries_keys)

lemma finish_reason_brackets:
  assumes "stream_inv ans D st"
  shows "brackets (ingest_finish_reason c) st
    \<and> stream_inv ans (if finishes_tools c then UNIV else D) (snd (ingest_finish_reason c st))"
proof (cases "finishes_tools c")
  case True
  let ?st = "st\<lparr>st_stop_reason := Some (normalize_finish_reason (lit ''tool_calls''))\<rparr>"
  let ?g = "stop_event (tool_index_offset ?st)"
  have r: "ingest_finish_reason c st = (fst (map_entries ?g (st_tool_calls ?st)),
      ?st\<lparr>st_tool_calls := snd (map_entries ?g (st_tool_calls ?st))\<rparr>)"
    using True by (simp add: ingest_finish_reason_def finishes_tools_def is_tool_calls_def Let_def split_beta)
  have v: "view_of ?st = view_of st"
    by (simp add: view_of_def fun_eq_iff status_of_def text_block_index_def tool_index_offset_def)
  have ok: "entries_ok D (st_tool_calls ?st)" using assms by (simp add: stream_inv_def)
  have e: "entries_ok UNIV (snd (map_entries ?g (st_tool_calls ?st)))"
    by (rule entries_ok_map [OF ok]) (simp_all add: stop_event_def)
  have "brackets (ingest_finish_reason c) st"
    using status_map_entries [OF ok stop_event_brackets] assms v
    by (simp add: brackets_def r) (simp add: view_of_def stream_inv_def)
  moreover have "stream_inv ans UNIV (snd (ingest_finish_reason c st))"
    using assms e by (auto simp: r stream_inv_def)
  ultimately show ?thesis using True by simp
next
  case False
  then have "ingest_finish_reason c st = ([], st) \<or> (\<exists>r. ingest_finish_reason c st = ([], st\<lparr>st_stop_reason := r\<rparr>))"
    by (auto simp: ingest_finish_reason_def finishes_tools_def is_tool_calls_def split: option.split)
  then show ?thesis using False assms
    by (auto simp: brackets_def stream_inv_def view_of_def fun_eq_iff status_of_def text_block_index_def tool_index_offset_def)
qed

lemma choice_brackets:
  assumes "stream_inv ans (if fin then UNIV else {}) st" and "orderly ans fin (c # cs)"
  shows "brackets (ingest_choice c) st
    \<and> stream_inv (ans \<or> choice_text c \<noteq> [] \<or> choice_tools c \<noteq> []) (if fin \<or> finishes_tools c then UNIV else {})
        (snd (ingest_choice c st))"
proof -
  let ?D = "if fin then UNIV else {} :: u32 set" and ?f = "is_tool_calls (cc_finish_reason c)"
  let ?s1 = "snd (ingest_reasoning c st)"
  let ?s2 = "snd (ingest_content c ?s1)"
  let ?s3 = "snd (emit_all (ingest_tool_call ?f) (choice_tools c) ?s2)"
  from assms(2) have "choice_reasoning c = [] \<or> \<not> ans" by simp
  from reasoning_brackets [OF assms(1) this] have 1: "brackets (ingest_reasoning c) st" "stream_inv ans ?D ?s1" by simp_all
  from content_brackets [OF 1(2), of c] have 2: "brackets (ingest_content c) ?s1"
    "stream_inv (ans \<or> choice_text c \<noteq> []) ?D ?s2" by simp_all
  have 3: "brackets (emit_all (ingest_tool_call ?f) (choice_tools c)) ?s2"
    "stream_inv ((ans \<or> choice_text c \<noteq> []) \<or> choice_tools c \<noteq> []) (if ?f then ?D \<union> dt_index ` set (choice_tools c) else ?D) ?s3"
    using tool_calls_brackets [OF 2(2), of "choice_tools c" ?f] assms(2) by (auto simp: finishes_tools_def)
  from finish_reason_brackets [OF 3(2), of c]
  have 4: "brackets (ingest_finish_reason c) ?s3"
    "stream_inv (ans \<or> choice_text c \<noteq> [] \<or> choice_tools c \<noteq> []) (if fin \<or> finishes_tools c then UNIV else {})
       (snd (ingest_finish_reason c ?s3))"
    by (auto simp: finishes_tools_def split: if_splits)
  show ?thesis using 1(1) 2(1) 3(1) 4 unfolding ingest_choice_def choice_tools_def [symmetric]
    by (simp add: emit_simps brackets_then)
qed

lemma choices_brackets:
  "stream_inv ans (if fin then UNIV else {}) st \<Longrightarrow> orderly ans fin (cs @ ds)
    \<Longrightarrow> brackets (emit_all ingest_choice cs) st
      \<and> (\<exists>ans' fin'. stream_inv ans' (if fin' then UNIV else {}) (snd (emit_all ingest_choice cs st)) \<and> orderly ans' fin' ds)"
proof (induction cs arbitrary: ans fin st)
  case Nil
  then show ?case by (intro conjI exI [of _ ans] exI [of _ fin]) (simp_all add: brackets_def)
next
  case (Cons c cs)
  from choice_brackets [of ans fin st c "cs @ ds"] Cons.prems
  have b: "brackets (ingest_choice c) st"
    "stream_inv (ans \<or> choice_text c \<noteq> [] \<or> choice_tools c \<noteq> []) (if fin \<or> finishes_tools c then UNIV else {})
        (snd (ingest_choice c st))" by simp_all
  from Cons.IH [OF b(2)] Cons.prems(2) b(1) show ?case by (simp add: emit_simps brackets_then)
qed

lemma ingest_start_brackets:
  "brackets (ingest_start ck) st \<and> st_message_started (snd (ingest_start ck st))"
  by (simp add: brackets_def ingest_start_def view_of_def fun_eq_iff status_of_def text_block_index_def tool_index_offset_def)

lemma ingest_start_again: "st_message_started st \<Longrightarrow> ingest_start ck st = ([], st)"
  by (simp add: ingest_start_def)

lemma ingest_usage_brackets:
  "brackets (ingest_usage ck) st \<and> (stream_inv ans D st \<longrightarrow> stream_inv ans D (snd (ingest_usage ck st)))"
  by (auto simp: brackets_def ingest_usage_def view_of_def fun_eq_iff status_of_def text_block_index_def
      tool_index_offset_def stream_inv_def split: option.split)

lemma chunk_brackets:
  assumes "stream_inv ans (if fin then UNIV else {}) (snd (ingest_start ck st))"
    and "orderly ans fin (ck_choices ck @ ds)"
  shows "brackets (ingest_chunk ck) st
    \<and> (\<exists>ans' fin'. stream_inv ans' (if fin' then UNIV else {}) (snd (ingest_chunk ck st)) \<and> orderly ans' fin' ds)"
proof -
  let ?s = "snd (ingest_usage ck (snd (ingest_start ck st)))"
  have "stream_inv ans (if fin then UNIV else {}) ?s" using ingest_usage_brackets assms(1) by blast
  from choices_brackets [OF this assms(2)] show ?thesis
    using ingest_start_brackets ingest_usage_brackets by (simp add: ingest_chunk_def emit_simps brackets_then)
qed

lemma chunks_brackets:
  "stream_inv ans (if fin then UNIV else {}) st \<Longrightarrow> orderly ans fin (concat (map ck_choices cks))
    \<Longrightarrow> brackets (emit_all ingest_chunk cks) st \<and> (\<exists>ans' D'. stream_inv ans' D' (snd (emit_all ingest_chunk cks st)))"
proof (induction cks arbitrary: ans fin st)
  case Nil
  then show ?case by (auto simp: brackets_def)
next
  case (Cons ck cks)
  have "st_message_started st" using Cons.prems(1) by (simp add: stream_inv_def)
  then have "stream_inv ans (if fin then UNIV else {}) (snd (ingest_start ck st))"
    using Cons.prems(1) by (simp add: ingest_start_again)
  from chunk_brackets [OF this, of "concat (map ck_choices cks)"] Cons.prems(2) Cons.IH show ?case
    by (simp add: emit_simps) (metis brackets_then)
qed

subsection \<open>The end of a stream\<close>

lemma finish_tool_brackets:
  "tc_stopped t \<longrightarrow> tc_started t \<Longrightarrow> f (block_index off t) = tool_status t
    \<Longrightarrow> proto_run (fst (finish_tool off t)) (Streaming, f)
      = Some (Streaming, f(block_index off t := tool_status (snd (finish_tool off t))))"
  by (auto simp: finish_tool_def emit_simps start_event_def tool_delta_def delta_event_def opt_list_def stop_event_def
      tool_status_def block_index_def fun_upd_idem split: option.splits)

lemma finish_tool_closes: "tc_stopped t \<longrightarrow> tc_started t \<Longrightarrow> tool_status (snd (finish_tool off t)) \<noteq> Opened"
  by (auto simp: finish_tool_def emit_simps start_event_def tool_delta_def delta_event_def stop_event_def
      tool_status_def split: option.splits)

lemma finish_text_brackets:
  assumes "stream_inv True D st"
  shows "brackets finish_text st" and "st_text_started (snd (finish_text st)) \<longrightarrow> st_text_finished (snd (finish_text st))"
    and "st_tool_calls (snd (finish_text st)) = st_tool_calls st" "st_message_started (snd (finish_text st))"
    and "st_thinking_started (snd (finish_text st)) \<longrightarrow> st_thinking_finished (snd (finish_text st))"
proof -
  have "status_of st (text_block_index st) = Opened" if "st_text_started st"
    using that assms by (auto simp: status_of_def stream_inv_def text_block_index_def)
  moreover have "status_of (st\<lparr>st_text_finished := True\<rparr>) = (status_of st)(text_block_index st := Closed)" if "st_text_started st"
    using that assms by (auto simp: fun_eq_iff status_of_def stream_inv_def text_block_index_def tool_index_offset_def)
  ultimately show "brackets finish_text st"
    using assms by (simp add: brackets_def finish_text_def view_of_def stream_inv_def)
qed (use assms in \<open>auto simp: finish_text_def stream_inv_def\<close>)

text \<open>No chunk finishes the stream.\<close>

definition unfinished :: "(StreamState \<Rightarrow> StreamEvent list \<times> StreamState) \<Rightarrow> bool" where
  "unfinished f \<longleftrightarrow> (\<forall>st. st_finished (snd (f st)) = st_finished st)"

lemma unfinished_then: "unfinished f \<Longrightarrow> unfinished g \<Longrightarrow> unfinished (emit_then f g)"
  by (simp add: unfinished_def emit_simps)

lemma unfinished_all: "(\<And>x. unfinished (f x)) \<Longrightarrow> st_finished (snd (emit_all f xs st)) = st_finished st"
  by (induction xs arbitrary: st) (simp_all add: unfinished_def emit_simps)

lemma unfinished_steps:
  "unfinished close_thinking" "unfinished (ingest_start ck)" "unfinished (ingest_usage ck)" "unfinished (ingest_reasoning c)"
  "unfinished (ingest_text t)" "unfinished (ingest_tool_entry fin d)" "unfinished (ingest_finish_reason c)"
  by (simp_all add: unfinished_def close_thinking_def ingest_start_def ingest_usage_def ingest_reasoning_def ingest_text_def
      ingest_tool_entry_def ingest_finish_reason_def Let_def split_beta split: option.split)

lemma unfinished_chunks: "st_finished (snd (emit_all ingest_chunk cks st)) = st_finished st"
proof -
  have "unfinished (ingest_tool_call fin d)" for fin d
    unfolding ingest_tool_call_def by (intro unfinished_then unfinished_steps)
  then have t: "unfinished (emit_all (ingest_tool_call fin) ds)" for fin ds
    by (simp add: unfinished_def [of "emit_all _ _"] unfinished_all)
  have "unfinished (emit_then close_thinking (ingest_text t))" for t by (intro unfinished_then unfinished_steps)
  then have "unfinished (ingest_content c)" for c by (simp add: unfinished_def ingest_content_def split: option.split)
  with t have "unfinished (ingest_choice c)" for c unfolding ingest_choice_def by (intro unfinished_then unfinished_steps)
  then have "unfinished (emit_all ingest_choice cs)" for cs by (simp add: unfinished_def [of "emit_all _ _"] unfinished_all)
  then have "unfinished (ingest_chunk ck)" for ck unfolding ingest_chunk_def by (intro unfinished_then unfinished_steps)
  then show ?thesis by (rule unfinished_all)
qed

lemma finish_brackets:
  assumes "stream_inv ans D st" and "\<not> st_finished st"
  shows "\<exists>f. proto_run (fst (StreamState_finish st)) (view_of st) = Some (After, f) \<and> (\<forall>i. f i \<noteq> Opened)"
proof -
  let ?s0 = "st\<lparr>st_finished := True\<rparr>"
  let ?s1 = "snd (close_thinking ?s0)"
  let ?s2 = "snd (finish_text ?s1)"
  let ?m = "snd (map_entries (finish_tool (tool_index_offset ?s2)) (st_tool_calls ?s2))"
  let ?s3 = "?s2\<lparr>st_tool_calls := ?m\<rparr>"
  have v: "view_of ?s0 = view_of st"
    by (simp add: view_of_def fun_eq_iff status_of_def text_block_index_def tool_index_offset_def)
  have "stream_inv ans D ?s0" using assms(1) by (simp add: stream_inv_def)
  note 1 = close_thinking_brackets [OF this]
  note 2 = finish_text_brackets [OF 1(2)]
  have ok: "entries_ok D (st_tool_calls ?s2)" using 1(2) 2(3) by (simp add: stream_inv_def)
  have b3: "proto_run (fst (finish_tools ?s2)) (Streaming, status_of ?s2) = Some (Streaming, status_of ?s3)"
    using status_map_entries [OF ok finish_tool_brackets] by (simp add: finish_tools_def split_beta)
  have "status_of ?s3 i \<noteq> Opened" for i
    using ok 2(2,5) finish_tool_closes
    by (auto simp: status_of_def map_entries_get entries_ok_def split: option.split)
  moreover have "proto_run (fst (StreamState_finish st)) (view_of st) = Some (After, status_of ?s3)"
    using assms(2) 1(1) 2(1,4) b3
    by (simp add: StreamState_finish_def v [symmetric] brackets_def emit_simps proto_run_append)
      (simp add: view_of_def finish_tools_def finish_message_def split_beta)
  ultimately show ?thesis by blast
qed

section \<open>Properties\<close>

text \<open>All events of a stream that delivers the given chunks and ends.\<close>

definition stream_events :: "ustr \<Rightarrow> ChatCompletionChunk list \<Rightarrow> StreamEvent list" where
  "stream_events model cks = fst (emit_then (emit_all ingest_chunk cks) StreamState_finish (StreamState_new model))"

lemma first_chunk_inv: "stream_inv False {} (snd (ingest_start ck (StreamState_new model)))"
  by (simp add: stream_inv_def ingest_start_def StreamState_new_def entries_ok_def)

lemma view_new: "view_of (StreamState_new model) = (Before, \<lambda>_. Fresh)"
  by (simp add: view_of_def StreamState_new_def fun_eq_iff status_of_def)

lemma stream_brackets:
  assumes "cks \<noteq> []" and "orderly False False (concat (map ck_choices cks))"
  shows "\<exists>f. proto_run (stream_events model cks) (Before, \<lambda>_. Fresh) = Some (After, f) \<and> (\<forall>i. f i \<noteq> Opened)"
proof -
  obtain ck cks' where c: "cks = ck # cks'" using assms(1) by (metis neq_Nil_conv)
  let ?new = "StreamState_new model"
  from chunk_brackets [of False False ck ?new "concat (map ck_choices cks')"] first_chunk_inv assms(2) c
  obtain ans fin where 1: "brackets (ingest_chunk ck) ?new" "stream_inv ans (if fin then UNIV else {}) (snd (ingest_chunk ck ?new))"
    "orderly ans fin (concat (map ck_choices cks'))" by auto
  from chunks_brackets [OF 1(2,3)] obtain ans' D' where 2: "brackets (emit_all ingest_chunk cks') (snd (ingest_chunk ck ?new))"
    "stream_inv ans' D' (snd (emit_all ingest_chunk cks ?new))" by (auto simp: c emit_simps)
  have b: "brackets (emit_all ingest_chunk cks) ?new" using brackets_then [OF 1(1) 2(1)] by (simp add: c brackets_def)
  have "\<not> st_finished (snd (emit_all ingest_chunk cks ?new))" by (simp add: unfinished_chunks StreamState_new_def)
  from finish_brackets [OF 2(2) this] b show ?thesis
    by (auto simp: stream_events_def emit_simps proto_run_append brackets_def view_new)
qed


definition sample_choice :: "ustr option \<Rightarrow> ustr option \<Rightarrow> DeltaToolCall list \<Rightarrow> ustr option \<Rightarrow> ChunkChoice" where
  "sample_choice reasoning content tools finish =
     \<lparr>cc_delta = \<lparr>cd_content = content, cd_reasoning_content = reasoning, cd_tool_calls = tools\<rparr>, cc_finish_reason = finish\<rparr>"

definition sample_chunk :: "ChunkChoice \<Rightarrow> ChatCompletionChunk" where
  "sample_chunk c = \<lparr>ck_id = lit ''id'', ck_model = None, ck_choices = [c], ck_usage = None\<rparr>"

definition sample_call :: "ustr option \<Rightarrow> ustr \<Rightarrow> DeltaToolCall" where
  "sample_call name args =
     \<lparr>dt_index = 0, dt_id = None, dt_function = \<lparr>df_name = name, df_arguments = Some args\<rparr>\<rparr>"

definition sample_stream :: "ChatCompletionChunk list" where
  "sample_stream = map sample_chunk
     [sample_choice (Some (lit ''hm'')) None [] None,
      sample_choice None (Some (lit ''ok'')) [] None,
      sample_choice None None [sample_call (Some (lit ''ls'')) (lit ''{'')] None,
      sample_choice None None [sample_call None (lit ''}'')] (Some (lit ''tool_calls''))]"

lemma sample_stream_orderly: "orderly False False (concat (map ck_choices sample_stream))"
  by (simp add: sample_stream_def sample_chunk_def sample_choice_def choice_text_def choice_reasoning_def choice_tools_def
      finishes_tools_def is_tool_calls_def unwrap_or_def sample_call_def word_less_alt)


lemma concat_map_concat: "concat (map f (concat xss)) = concat (map (\<lambda>xs. concat (map f xs)) xss)"
  by (induction xss) simp_all

lemma stream_content:
  "text_of (stream_events model cks) = concat (map choice_text (concat (map ck_choices cks)))
   \<and> thinking_of (stream_events model cks) = concat (map choice_reasoning (concat (map ck_choices cks)))"
  using emit_all_content [of ingest_chunk, OF ingest_chunk_content, of cks "StreamState_new model"]
    silentD [OF silent_StreamState_finish]
  by (simp add: stream_events_def emit_simps concat_map_concat comp_def)

text \<open>The text and the reasoning of the reply arrive unchanged: the deltas, put together, are what the
  chunks carried, whatever their order.\<close>

theorem stream_preserves_text:
  "text_of (stream_events model cks) = concat (map choice_text (concat (map ck_choices cks)))
   \<and> thinking_of (stream_events model cks) = concat (map choice_reasoning (concat (map ck_choices cks)))"
  by (rule stream_content)

text \<open>Reasoning that comes after text moves the index of the text block and writes into a block that was
  never opened.\<close>

lemma late_reasoning_breaks_stream:
  "proto_run (stream_events (lit ''m'')
      (map sample_chunk [sample_choice None (Some (lit ''a'')) [] None, sample_choice (Some (lit ''b'')) None [] None]))
     (Before, \<lambda>_. Fresh) = None"
  by code_simp

section \<open>What the caller receives\<close>

definition MessageStream_new :: "ustr \<Rightarrow> ustr \<Rightarrow> u8 list list \<Rightarrow> MessageStream" where
  "MessageStream_new provider model chunks =
     \<lparr>ms_chunks = map Inr chunks, ms_parser = OpenAiSseParser_with_context provider model, ms_pending = [],
      ms_done = False, ms_state = StreamState_new model\<rparr>"

text \<open>A stream that will still deliver the events \<open>es\<close> and then end.\<close>

definition delivers :: "chunk_reader \<Rightarrow> StreamEvent list \<Rightarrow> MessageStream \<Rightarrow> bool" where
  "delivers rd es s \<longleftrightarrow>
     (if ms_done s then es = ms_pending s @ fst (StreamState_finish (ms_state s))
      else \<exists>cs cks p'. ms_chunks s = map Inr cs \<and> feed (OpenAiSseParser_push rd) cs (ms_parser s) = (Inr cks, p')
             \<and> es = ms_pending s @ fst (emit_then (emit_all ingest_chunk cks) StreamState_finish (ms_state s)))"

lemma emit_all_append: "emit_all f (xs @ ys) = emit_then (emit_all f xs) (emit_all f ys)"
proof (induction xs)
  case Nil
  then show ?case by (simp add: fun_eq_iff emit_then_def)
next
  case (Cons x xs)
  then show ?case by (simp add: fun_eq_iff emit_then_def split_beta)
qed

lemma finish_twice: "StreamState_finish (snd (StreamState_finish st)) = ([], snd (StreamState_finish st))"
proof -
  have "st_finished (snd (StreamState_finish st))"
    by (simp add: StreamState_finish_def emit_simps close_thinking_def finish_text_def finish_tools_def finish_message_def
        split_beta)
  then show ?thesis by (simp add: StreamState_finish_def [of "snd (StreamState_finish st)"])
qed

lemma next_event_delivers:
  "delivers rd es s \<Longrightarrow> fst (next_event rd s) = Inr (case es of e # _ \<Rightarrow> Some e | [] \<Rightarrow> None)
     \<and> delivers rd (tl es) (snd (next_event rd s))"
proof (induction rd s rule: next_event.induct)
  case (1 rd s)
  show ?case
  proof (cases "ms_pending s")
    case (Cons e evs)
    with 1(3) show ?thesis by (auto simp: next_event.simps [of rd s] delivers_def)
  next
    case Nil
    show ?thesis
    proof (cases "ms_done s")
      case True
      let ?f = "StreamState_finish (ms_state s)"
      have "es = fst ?f" using 1(3) Nil True by (simp add: delivers_def)
      then show ?thesis using Nil True finish_twice [of "ms_state s"]
        by (auto simp: next_event.simps [of rd s] delivers_def split_beta split: list.split)
    next
      case False
      with 1(3) obtain cs cks p' where c: "ms_chunks s = map Inr cs"
        "feed (OpenAiSseParser_push rd) cs (ms_parser s) = (Inr cks, p')"
        "es = fst (emit_then (emit_all ingest_chunk cks) StreamState_finish (ms_state s))"
        using Nil by (auto simp: delivers_def)
      show ?thesis
      proof (cases cs)
        case Nil1: Nil
        then have "delivers rd es (s\<lparr>ms_done := True\<rparr>)" using c Nil by (auto simp: delivers_def emit_simps)
        from 1(1) [OF Nil False _ this] c(1) Nil1 Nil False show ?thesis by (simp add: next_event.simps [of rd s])
      next
        case C: (Cons b bs)
        with c(2) obtain es1 p1 es2 where f: "OpenAiSseParser_push rd b (ms_parser s) = (Inr es1, p1)"
          "feed (OpenAiSseParser_push rd) bs p1 = (Inr es2, p')" "cks = es1 @ es2"
          by (auto split: prod.splits sum.splits)
        obtain evs st where i: "emit_all ingest_chunk es1 (ms_state s) = (evs, st)"
          by (cases "emit_all ingest_chunk es1 (ms_state s)")
        let ?s = "s\<lparr>ms_chunks := map Inr bs, ms_parser := p1, ms_pending := evs, ms_state := st\<rparr>"
        have "delivers rd es ?s" using f(2) c(3) i False
          by (auto simp: delivers_def f(3) emit_all_append emit_simps)
        with 1(2) [of "Inr b" "map Inr bs" b "Inr es1" p1 es1 evs st] c(1) C Nil False f(1) i show ?thesis
          by (simp add: next_event.simps [of rd s])
      qed
    qed
  qed
qed

interpretation os: event_source "next_event rd" "delivers rd" for rd
  by unfold_locales (rule next_event_delivers)

lemma feed_OpenAiSseParser:
  "feed (OpenAiSseParser_push rd) cs p
     = (case feed (frame_push (op_parse rd p)) cs (op_buffer p) of (r, b) \<Rightarrow> (r, p\<lparr>op_buffer := b\<rparr>))"
  by (rule feed_wrapped [where upd = "\<lambda>b p. p\<lparr>op_buffer := b\<rparr>"])
    (simp_all add: OpenAiSseParser_push_def frame_push_def op_parse_def [abs_def])

lemma stream_delivers:
  assumes "list_all frame_text fs" and "concat pieces = end_frames fs"
    and "collect_results (op_parse rd (OpenAiSseParser_with_context provider model)) fs = Inr cks"
  shows "delivers rd (stream_events model (concat (map opt_list cks))) (MessageStream_new provider model pieces)"
proof -
  have "feed (OpenAiSseParser_push rd) pieces (OpenAiSseParser_with_context provider model)
      = (Inr (concat (map opt_list cks)), OpenAiSseParser_with_context provider model)"
    using frame_push_end_frames [OF assms(1,3,2)] by (simp add: feed_OpenAiSseParser OpenAiSseParser_with_context_def)
  then show ?thesis by (simp add: delivers_def MessageStream_new_def stream_events_def)
qed

text \<open>If the frames of a reply parse, repeated calls hand out exactly the events of its chunks, in order
  and one per call, and then report the end, however the network cut the bytes.\<close>

theorem stream_reaches_caller:
  assumes "list_all frame_text fs" and "concat pieces = end_frames fs"
    and "collect_results (op_parse rd (OpenAiSseParser_with_context provider model)) fs = Inr cks"
  shows "call_next (next_event rd) (length (stream_events model (concat (map opt_list cks))) + 1) (MessageStream_new provider model pieces)
     = map (\<lambda>e. Inr (Some e)) (stream_events model (concat (map opt_list cks))) @ [Inr None]"
  by (rule os.call_next_will [OF stream_delivers [OF assms]])

definition sample_reader :: chunk_reader where
  "sample_reader = \<lparr>read_value = (\<lambda>_. Inl []),
     read_chunk = (\<lambda>payload. Inr (sample_chunk (sample_choice None (Some payload) [] None)))\<rparr>"

theorem stream_reaches_caller_witness:
  "call_next (next_event sample_reader)
     (length (stream_events (lit ''m'') [sample_chunk (sample_choice None (Some (lit ''hi'')) [] None)]) + 1)
     (MessageStream_new (lit ''p'') (lit ''m'') (map (\<lambda>b. [b]) (end_frames [lit ''data: hi'', lit ''data: [DONE]''])))
   = map (\<lambda>e. Inr (Some e)) (stream_events (lit ''m'') [sample_chunk (sample_choice None (Some (lit ''hi'')) [] None)]) @ [Inr None]"
proof -
  let ?fs = "[lit ''data: hi'', lit ''data: [DONE]'']"
  have "collect_results (op_parse sample_reader (OpenAiSseParser_with_context (lit ''p'') (lit ''m''))) ?fs
      = Inr [Some (sample_chunk (sample_choice None (Some (lit ''hi'')) [] None)), None]"
    by code_simp
  moreover have "list_all frame_text ?fs" by (simp add: frame_text_def frame_char_def scalar_value_def lit_def)
  ultimately show ?thesis
    using stream_reaches_caller [of ?fs "map (\<lambda>b. [b]) (end_frames ?fs)" sample_reader "lit ''p''" "lit ''m''"]
    by (simp add: concat_singletons opt_list_def)
qed

text \<open>The parser is not flushed at the end of a response: a last frame that no blank line ends is lost.\<close>

lemma unterminated_frame_is_lost:
  "fst (next_event sample_reader (MessageStream_new (lit ''p'') (lit ''m'') [encode_utf8 (lit ''data: hi'')])) = Inr None"
  by code_simp

end
