(* ===== verification/Openai_Request.thy ===== *)
theory Openai_Request
  imports Providers Openai_Stream
begin

text \<open>
  Requests to OpenAI-compatible servers, the rest of \<^verbatim>\<open>api/src/providers/openai_compat.rs\<close>: the translation of a request
  to the wire format, the removal of tool messages and tool calls that lost their partner, the normalisation of
  schemas and of replies that are not streamed, and the client with its retries. \<^verbatim>\<open>Value::to_string\<close>, the length of a
  serialized value and the readers of replies belong to \<^verbatim>\<open>serde_json\<close> and are arguments; so is the server's answer to
  each attempt.
\<close>

section \<open>Definitions\<close>

subsection \<open>Providers\<close>

record OpenAiCompatConfig =
  oc_provider_name :: ustr
  oc_api_key_env :: ustr
  oc_base_url_env :: ustr
  oc_default_base_url :: ustr
  oc_max_request_body_bytes :: nat

definition OpenAiCompatConfig_xai :: OpenAiCompatConfig where
  "OpenAiCompatConfig_xai = \<lparr>oc_provider_name = lit ''xAI'', oc_api_key_env = lit ''XAI_API_KEY'',
     oc_base_url_env = lit ''XAI_BASE_URL'', oc_default_base_url = lit ''https://api.x.ai/v1'',
     oc_max_request_body_bytes = 52428800\<rparr>"

definition OpenAiCompatConfig_openai :: OpenAiCompatConfig where
  "OpenAiCompatConfig_openai = \<lparr>oc_provider_name = lit ''OpenAI'', oc_api_key_env = lit ''OPENAI_API_KEY'',
     oc_base_url_env = lit ''OPENAI_BASE_URL'', oc_default_base_url = lit ''https://api.openai.com/v1'',
     oc_max_request_body_bytes = 104857600\<rparr>"

definition OpenAiCompatConfig_dashscope :: OpenAiCompatConfig where
  "OpenAiCompatConfig_dashscope = \<lparr>oc_provider_name = lit ''DashScope'', oc_api_key_env = lit ''DASHSCOPE_API_KEY'',
     oc_base_url_env = lit ''DASHSCOPE_BASE_URL'',
     oc_default_base_url = lit ''https://dashscope.aliyuncs.com/compatible-mode/v1'',
     oc_max_request_body_bytes = 6291456\<rparr>"

definition credential_env_vars :: "OpenAiCompatConfig \<Rightarrow> ustr list" where
  "credential_env_vars config =
     (if oc_provider_name config = lit ''xAI'' then [lit ''XAI_API_KEY'']
      else if oc_provider_name config = lit ''OpenAI'' then [lit ''OPENAI_API_KEY'']
      else if oc_provider_name config = lit ''DashScope'' then [lit ''DASHSCOPE_API_KEY'']
      else [])"

subsection \<open>Families of models\<close>

text \<open>\<^verbatim>\<open>model.to_ascii_lowercase()\<close> without the part up to the last slash.\<close>

definition canonical_model :: "ustr \<Rightarrow> ustr" where
  "canonical_model model = after_last_slash (to_ascii_lowercase model)"

definition is_reasoning_model :: "ustr \<Rightarrow> bool" where
  "is_reasoning_model model \<longleftrightarrow>
     (let canonical = canonical_model model
      in starts_with (lit ''o1'') canonical \<or> starts_with (lit ''o3'') canonical \<or> starts_with (lit ''o4'') canonical
         \<or> canonical = lit ''grok-3-mini'' \<or> starts_with (lit ''qwen-qwq'') canonical
         \<or> starts_with (lit ''qwq'') canonical \<or> contains (lit ''thinking'') canonical)"

definition model_requires_reasoning_content_in_history :: "ustr \<Rightarrow> bool" where
  "model_requires_reasoning_content_in_history model \<longleftrightarrow> starts_with (lit ''deepseek-v4'') (canonical_model model)"

definition model_rejects_is_error_field :: "ustr \<Rightarrow> bool" where
  "model_rejects_is_error_field model \<longleftrightarrow> starts_with (lit ''kimi'') (canonical_model model)"

definition strip_routing_prefix :: "ustr \<Rightarrow> ustr" where
  "strip_routing_prefix model =
     (case split_once (lit ''/'') model of
        Some (prefix, rest) \<Rightarrow>
          if prefix \<in> {lit ''openai'', lit ''xai'', lit ''grok'', lit ''qwen'', lit ''kimi''} then rest else model
      | None \<Rightarrow> model)"

subsection \<open>Messages\<close>

definition block_text :: "ToolResultContentBlock \<Rightarrow> (Value \<Rightarrow> ustr) \<Rightarrow> ustr" where
  "block_text b to_string = (case b of ResText t \<Rightarrow> t | ResJson v \<Rightarrow> to_string v)"

definition flatten_tool_result_content :: "(Value \<Rightarrow> ustr) \<Rightarrow> ToolResultContentBlock list \<Rightarrow> ustr" where
  "flatten_tool_result_content to_string content = join [10] (map (\<lambda>b. block_text b to_string) content)"

definition tool_call_json :: "(Value \<Rightarrow> ustr) \<Rightarrow> ustr \<Rightarrow> ustr \<Rightarrow> Value \<Rightarrow> Value" where
  "tool_call_json to_string i name input =
     json_object [(''id'', String i), (''type'', String (lit ''function'')),
       (''function'', json_object [(''name'', String name), (''arguments'', String (to_string input))])]"

text \<open>The three accumulators of the loop over the blocks of an assistant message.\<close>

definition assistant_text :: "InputContentBlock list \<Rightarrow> ustr" where
  "assistant_text bs = concat (map (\<lambda>b. case b of InText t \<Rightarrow> t | _ \<Rightarrow> []) bs)"

definition assistant_reasoning :: "InputContentBlock list \<Rightarrow> ustr" where
  "assistant_reasoning bs = concat (map (\<lambda>b. case b of InThinking t _ \<Rightarrow> t | _ \<Rightarrow> []) bs)"

definition assistant_tool_calls :: "(Value \<Rightarrow> ustr) \<Rightarrow> InputContentBlock list \<Rightarrow> Value list" where
  "assistant_tool_calls to_string bs =
     List.map_filter (\<lambda>b. case b of InToolUse i name input \<Rightarrow> Some (tool_call_json to_string i name input) | _ \<Rightarrow> None) bs"

definition translate_assistant :: "(Value \<Rightarrow> ustr) \<Rightarrow> InputContentBlock list \<Rightarrow> ustr \<Rightarrow> Value list" where
  "translate_assistant to_string bs model =
     (let txt = assistant_text bs; reasoning = assistant_reasoning bs; tool_calls = assistant_tool_calls to_string bs;
          include_reasoning = model_requires_reasoning_content_in_history model \<and> reasoning \<noteq> []
      in if txt = [] \<and> tool_calls = [] \<and> \<not> include_reasoning then []
         else [json_object
                ([(''role'', String (lit ''assistant'')), (''content'', json_option (if txt \<noteq> [] then Some txt else None))]
                 @ (if include_reasoning then [(''reasoning_content'', String reasoning)] else [])
                 @ (if tool_calls \<noteq> [] then [(''tool_calls'', Array tool_calls)] else []))])"

definition translate_block :: "(Value \<Rightarrow> ustr) \<Rightarrow> bool \<Rightarrow> InputContentBlock \<Rightarrow> Value option" where
  "translate_block to_string supports_is_error b =
     (case b of
        InText t \<Rightarrow> Some (json_object [(''role'', String (lit ''user'')), (''content'', String t)])
      | InToolResult tool_use_id content is_error \<Rightarrow>
          Some (json_object
            ([(''role'', String (lit ''tool'')), (''tool_call_id'', String tool_use_id),
              (''content'', String (flatten_tool_result_content to_string content))]
             @ (if supports_is_error then [(''is_error'', Bool is_error)] else [])))
      | InThinking t s \<Rightarrow> None
      | InToolUse i name input \<Rightarrow> None)"

definition translate_message :: "(Value \<Rightarrow> ustr) \<Rightarrow> InputMessage \<Rightarrow> ustr \<Rightarrow> Value list" where
  "translate_message to_string m model =
     (if in_role m = lit ''assistant'' then translate_assistant to_string (in_content m) model
      else List.map_filter (translate_block to_string (\<not> model_rejects_is_error_field model)) (in_content m))"

subsection \<open>Messages that lost their partner\<close>

definition str_field :: "string \<Rightarrow> Value \<Rightarrow> ustr option" where
  "str_field k v = Option.bind (value_get (lit k) v) value_as_str"

definition is_tool_message :: "Value \<Rightarrow> bool" where
  "is_tool_message m \<longleftrightarrow> str_field ''role'' m = Some (lit ''tool'')"

definition tool_calls_of :: "Value \<Rightarrow> Value list option" where
  "tool_calls_of m = Option.bind (value_get (lit ''tool_calls'') m) value_as_array"

text \<open>The nearest message before index \<open>i\<close> that is not a tool message.\<close>

definition preceding :: "Value list \<Rightarrow> nat \<Rightarrow> Value option" where
  "preceding messages i = find (\<lambda>m. \<not> is_tool_message m) (rev (take i messages))"

definition has_call :: "ustr \<Rightarrow> Value \<Rightarrow> bool" where
  "has_call i m \<longleftrightarrow>
     (case tool_calls_of m of Some tcs \<Rightarrow> list_ex (\<lambda>tc. str_field ''id'' tc = Some i) tcs | None \<Rightarrow> False)"

definition orphaned :: "Value list \<Rightarrow> nat \<Rightarrow> bool" where
  "orphaned messages i \<longleftrightarrow>
     is_tool_message (messages ! i)
     \<and> (case preceding messages i of
          None \<Rightarrow> False
        | Some m \<Rightarrow> str_field ''role'' m = Some (lit ''assistant'')
            \<and> \<not> has_call (unwrap_or [] (str_field ''tool_call_id'' (messages ! i))) m)"

definition answered_ids :: "Value list \<Rightarrow> ustr list" where
  "answered_ids messages = List.map_filter (str_field ''tool_call_id'') (filter is_tool_message messages)"

definition btree_remove :: "'k \<Rightarrow> ('k, 'v) btree \<Rightarrow> ('k, 'v) btree" where
  "btree_remove k m = filter (\<lambda>(k', v). k' \<noteq> k) m"

definition set_tool_calls :: "Value list \<Rightarrow> Value \<Rightarrow> Value" where
  "set_tool_calls kept m =
     (case m of
        Object obj \<Rightarrow> Object (if kept = [] then btree_remove (lit ''tool_calls'') obj
                               else btree_insert (lit ''tool_calls'') (Array kept) obj)
      | _ \<Rightarrow> m)"

definition strip_calls :: "Value \<Rightarrow> Value list \<Rightarrow> Value" where
  "strip_calls m later =
     (if str_field ''role'' m \<noteq> Some (lit ''assistant'') then m
      else case tool_calls_of m of
             None \<Rightarrow> m
           | Some tool_calls \<Rightarrow>
               let ids_after = answered_ids later;
                   kept = filter (\<lambda>tc. case str_field ''id'' tc of Some i \<Rightarrow> i \<in> set ids_after | None \<Rightarrow> False) tool_calls
               in if tool_calls = [] \<or> length kept = length tool_calls then m else set_tool_calls kept m)"

text \<open>The loop changes a message only after it has looked at those behind it.\<close>

fun strip_orphaned_tool_calls :: "Value list \<Rightarrow> Value list" where
  "strip_orphaned_tool_calls [] = []"
| "strip_orphaned_tool_calls (m # ms) = strip_calls m ms # strip_orphaned_tool_calls ms"

definition sanitize_tool_message_pairing :: "Value list \<Rightarrow> Value list" where
  "sanitize_tool_message_pairing messages =
     strip_orphaned_tool_calls
       (map (\<lambda>i. messages ! i) (filter (\<lambda>i. \<not> orphaned messages i) [0..<length messages]))"

subsection \<open>Tools\<close>

definition or_insert :: "ustr \<Rightarrow> Value \<Rightarrow> (ustr, Value) btree \<Rightarrow> (ustr, Value) btree" where
  "or_insert k v m = (case btree_get m k of Some _ \<Rightarrow> m | None \<Rightarrow> btree_insert k v m)"

definition schema_defaults :: "(ustr, Value) btree \<Rightarrow> (ustr, Value) btree" where
  "schema_defaults m =
     (if Option.bind (btree_get m (lit ''type'')) value_as_str = Some (lit ''object'')
      then or_insert (lit ''additionalProperties'') (Bool False) (or_insert (lit ''properties'') (Object []) m)
      else m)"

lemma set_or_insert: "set (or_insert k v m) \<subseteq> insert (k, v) (set m)"
proof -
  have "set (btree_insert k v m) \<subseteq> insert (k, v) (set m)" by (induction m) (auto split: if_splits)
  then show ?thesis by (auto simp: or_insert_def split: option.split)
qed

lemma set_schema_defaults:
  "set (schema_defaults m) \<subseteq> set m \<union> {(lit ''properties'', Object []), (lit ''additionalProperties'', Bool False)}"
  using set_or_insert [of "lit ''properties''" "Object []" m]
    set_or_insert [of "lit ''additionalProperties''" "Bool False" "or_insert (lit ''properties'') (Object []) m"]
  unfolding schema_defaults_def by (simp split: if_split) blast

lemma size_entry: "(k, v) \<in> set m \<Longrightarrow> size v < size (Object m)"
  by (induction m) (auto simp: less_Suc_eq)

function normalize_object_schema :: "Value \<Rightarrow> Value" where
  "normalize_object_schema (Object m) =
     Object (map (\<lambda>(k, v).
       (k, if k = lit ''properties''
           then (case v of Object props \<Rightarrow> Object (map (\<lambda>(k', v'). (k', normalize_object_schema v')) props) | _ \<Rightarrow> v)
           else if k = lit ''items'' then normalize_object_schema v
           else v)) (schema_defaults m))"
| "normalize_object_schema Null = Null"
| "normalize_object_schema (Bool b) = Bool b"
| "normalize_object_schema (Number n) = Number n"
| "normalize_object_schema (String s) = String s"
| "normalize_object_schema (Array vs) = Array vs"
  by pat_completeness auto
termination
proof (relation "measure size", simp, goal_cases)
  case (1 m kv k v p kv' k' v')
  then have "(k, Object p) \<in> set m \<or> p = []" using set_schema_defaults [of m] by auto
  moreover have "size v' < size (Object p)" using 1 size_entry [of k' v' p] by auto
  ultimately show ?case using 1 size_entry [of k "Object p" m] by auto
next
  case (2 m kv k v)
  then have "(k, v) \<in> set m" using set_schema_defaults [of m] by auto
  then show ?case using size_entry [of k v m] by simp
qed

definition openai_tool_definition :: "ToolDefinition \<Rightarrow> Value" where
  "openai_tool_definition tool =
     json_object [(''type'', String (lit ''function'')),
       (''function'', json_object [(''name'', String (tool_def_name tool)),
          (''description'', json_option (tool_def_description tool)),
          (''parameters'', normalize_object_schema (tool_def_input_schema tool))])]"

definition openai_tool_choice :: "ToolChoice \<Rightarrow> Value" where
  "openai_tool_choice tool_choice =
     (case tool_choice of
        ToolAuto \<Rightarrow> String (lit ''auto'')
      | ToolAny \<Rightarrow> String (lit ''required'')
      | ToolNamed name \<Rightarrow> json_object [(''type'', String (lit ''function'')),
                                      (''function'', json_object [(''name'', String name)])])"

subsection \<open>The payload\<close>

definition should_request_stream_usage :: "OpenAiCompatConfig \<Rightarrow> bool" where
  "should_request_stream_usage config \<longleftrightarrow> oc_provider_name config = lit ''OpenAI''"

definition request_messages :: "(Value \<Rightarrow> ustr) \<Rightarrow> MessageRequest \<Rightarrow> Value list" where
  "request_messages to_string r =
     (case req_system r of
        Some system \<Rightarrow> if system \<noteq> []
          then [json_object [(''role'', String (lit ''system'')), (''content'', String system)]] else []
      | None \<Rightarrow> [])
     @ concat (map (\<lambda>m. translate_message to_string m (strip_routing_prefix (req_model r))) (req_messages r))"

definition opt_field :: "string \<Rightarrow> ('a \<Rightarrow> Value) \<Rightarrow> 'a option \<Rightarrow> (string \<times> Value) list" where
  "opt_field k f x = (case x of Some y \<Rightarrow> [(k, f y)] | None \<Rightarrow> [])"

definition optional_fields :: "MessageRequest \<Rightarrow> OpenAiCompatConfig \<Rightarrow> (string \<times> Value) list" where
  "optional_fields r config =
     (if req_stream r \<and> should_request_stream_usage config
      then [(''stream_options'', json_object [(''include_usage'', Bool True)])] else [])
     @ opt_field ''tools'' (\<lambda>tools. Array (map openai_tool_definition tools)) (req_tools r)
     @ opt_field ''tool_choice'' openai_tool_choice (req_tool_choice r)
     @ (if is_reasoning_model (req_model r) then []
        else opt_field ''temperature'' Number (req_temperature r) @ opt_field ''top_p'' Number (req_top_p r)
             @ opt_field ''frequency_penalty'' Number (req_frequency_penalty r)
             @ opt_field ''presence_penalty'' Number (req_presence_penalty r))
     @ (case req_stop r of
          Some stop \<Rightarrow> if stop \<noteq> [] then [(''stop'', Array (map String stop))] else []
        | None \<Rightarrow> [])
     @ opt_field ''reasoning_effort'' String (req_reasoning_effort r)"

definition build_chat_completion_request :: "(Value \<Rightarrow> ustr) \<Rightarrow> MessageRequest \<Rightarrow> OpenAiCompatConfig \<Rightarrow> Value" where
  "build_chat_completion_request to_string r config =
     (let wire_model = strip_routing_prefix (req_model r);
          messages = sanitize_tool_message_pairing (request_messages to_string r);
          max_tokens_key = (if starts_with (lit ''gpt-5'') wire_model then ''max_completion_tokens'' else ''max_tokens'')
      in json_object
           ([(''model'', String wire_model), (max_tokens_key, json_u32 (req_max_tokens r)),
             (''messages'', Array messages), (''stream'', Bool (req_stream r))]
            @ optional_fields r config))"

definition estimate_request_body_size ::
  "(Value \<Rightarrow> ustr) \<Rightarrow> (Value \<Rightarrow> nat option) \<Rightarrow> MessageRequest \<Rightarrow> OpenAiCompatConfig \<Rightarrow> nat" where
  "estimate_request_body_size to_string vec_len r config =
     (case vec_len (build_chat_completion_request to_string r config) of Some n \<Rightarrow> n | None \<Rightarrow> 0)"

definition check_request_body_size ::
  "(Value \<Rightarrow> ustr) \<Rightarrow> (Value \<Rightarrow> nat option) \<Rightarrow> MessageRequest \<Rightarrow> OpenAiCompatConfig \<Rightarrow> ApiError + unit" where
  "check_request_body_size to_string vec_len r config =
     (let estimated_bytes = estimate_request_body_size to_string vec_len r config;
          max_bytes = oc_max_request_body_bytes config
      in if max_bytes < estimated_bytes
         then Inl (RequestBodySizeExceeded estimated_bytes max_bytes (oc_provider_name config))
         else Inr ())"

subsection \<open>Replies\<close>

record ResponseToolCall =
  rt_id :: ustr
  rt_name :: ustr
  rt_arguments :: ustr

record ChatMessage =
  cm_role :: ustr
  cm_content :: "ustr option"
  cm_reasoning_content :: "ustr option"
  cm_tool_calls :: "ResponseToolCall list"

record ChatChoice =
  ch_message :: ChatMessage
  ch_finish_reason :: "ustr option"

record ChatCompletionResponse =
  cr_id :: ustr
  cr_model :: ustr
  cr_choices :: "ChatChoice list"
  cr_usage :: "OpenAiUsage option"

definition parse_tool_arguments :: "from_str_fn \<Rightarrow> ustr \<Rightarrow> Value" where
  "parse_tool_arguments from_str arguments =
     (case from_str arguments of Inr v \<Rightarrow> v | Inl _ \<Rightarrow> json_object [(''raw'', String arguments)])"

definition if_empty_then :: "ustr \<Rightarrow> ustr \<Rightarrow> ustr" where
  "if_empty_then s fallback = (if s = [] then fallback else s)"

definition non_empty :: "ustr option \<Rightarrow> ustr option" where
  "non_empty s = (case s of Some t \<Rightarrow> if t \<noteq> [] then Some t else None | None \<Rightarrow> None)"

definition normalize_response :: "from_str_fn \<Rightarrow> ustr \<Rightarrow> ChatCompletionResponse \<Rightarrow> ApiError + MessageResponse" where
  "normalize_response from_str model response =
     (case cr_choices response of
        [] \<Rightarrow> Inl (InvalidSseFrame (lit ''chat completion response missing choices''))
      | choice # _ \<Rightarrow>
          let m = ch_message choice;
              content =
                opt_list (map_option (\<lambda>t. OutThinking t None) (non_empty (cm_reasoning_content m)))
                @ opt_list (map_option OutText (non_empty (cm_content m)))
                @ map (\<lambda>tc. OutToolUse (rt_id tc) (rt_name tc) (parse_tool_arguments from_str (rt_arguments tc))) (cm_tool_calls m)
          in Inr \<lparr>resp_id = cr_id response, resp_kind = lit ''message'', resp_role = cm_role m, resp_content = content,
                  resp_model = if_empty_then (cr_model response) model,
                  resp_stop_reason = map_option normalize_finish_reason (ch_finish_reason choice),
                  resp_stop_sequence = None,
                  resp_usage = \<lparr>us_input_tokens = (case cr_usage response of Some u \<Rightarrow> ou_prompt_tokens u | None \<Rightarrow> 0),
                    us_cache_creation_input_tokens = 0, us_cache_read_input_tokens = 0,
                    us_output_tokens = (case cr_usage response of Some u \<Rightarrow> ou_completion_tokens u | None \<Rightarrow> 0)\<rparr>,
                  resp_request_id = None\<rparr>)"


subsection \<open>The client\<close>

record OpenAiCompatClient =
  oa_api_key :: ustr
  oa_config :: OpenAiCompatConfig
  oa_base_url :: ustr
  oa_policy :: RetryPolicy

definition read_base_url :: "Env \<Rightarrow> OpenAiCompatConfig \<Rightarrow> ustr" where
  "read_base_url env config =
     (case env_var env (oc_base_url_env config) of VarSet url \<Rightarrow> url | _ \<Rightarrow> oc_default_base_url config)"

definition OpenAiCompatClient_new :: "Env \<Rightarrow> ustr \<Rightarrow> OpenAiCompatConfig \<Rightarrow> OpenAiCompatClient" where
  "OpenAiCompatClient_new env api_key config =
     \<lparr>oa_api_key = api_key, oa_config = config, oa_base_url = read_base_url env config, oa_policy = default_policy\<rparr>"

definition OpenAiCompatClient_from_env :: "Env \<Rightarrow> OpenAiCompatConfig \<Rightarrow> ApiError + OpenAiCompatClient" where
  "OpenAiCompatClient_from_env env config =
     rbind (read_env_non_empty env (oc_api_key_env config)) (\<lambda>api_key.
       case api_key of
         None \<Rightarrow> Inl (missing_credentials (oc_provider_name config) (credential_env_vars config))
       | Some key \<Rightarrow> Inr (OpenAiCompatClient_new env key config))"

definition with_base_url :: "ustr \<Rightarrow> OpenAiCompatClient \<Rightarrow> OpenAiCompatClient" where
  "with_base_url url c = c\<lparr>oa_base_url := url\<rparr>"

definition with_retry_policy :: "u32 \<Rightarrow> duration \<Rightarrow> duration \<Rightarrow> OpenAiCompatClient \<Rightarrow> OpenAiCompatClient" where
  "with_retry_policy max_retries initial_backoff max_backoff c =
     c\<lparr>oa_policy := \<lparr>rp_max_retries = max_retries, rp_initial_backoff = initial_backoff, rp_max_backoff = max_backoff\<rparr>\<rparr>"

definition chat_completions_endpoint :: "ustr \<Rightarrow> ustr" where
  "chat_completions_endpoint base_url =
     (let trimmed = trim_end_char 47 base_url
      in if ends_with (lit ''/chat/completions'') trimmed then trimmed else trimmed @ lit ''/chat/completions'')"

text \<open>An answer of the server: a header is its text, or \<^const>\<open>None\<close> if it is not readable as text; the body is read as a
  whole or piece by piece.\<close>

record Response =
  rs_status :: u16
  rs_headers :: "ustr \<rightharpoonup> ustr option"
  rs_text :: "HttpError + ustr"
  rs_chunks :: "(ApiError + u8 list) list"

definition request_id_from_headers :: "(ustr \<rightharpoonup> ustr option) \<Rightarrow> ustr option" where
  "request_id_from_headers headers =
     Option.bind (case headers (lit ''request-id'') of Some v \<Rightarrow> Some v | None \<Rightarrow> headers (lit ''x-request-id'')) id"

definition is_retryable_status :: "u16 \<Rightarrow> bool" where
  "is_retryable_status status \<longleftrightarrow> status \<in> {408, 409, 429, 500, 502, 503, 504}"

text \<open>\<^verbatim>\<open>StatusCode::is_success\<close>.\<close>

definition is_success :: "u16 \<Rightarrow> bool" where
  "is_success status \<longleftrightarrow> 200 \<le> status \<and> status < 300"

text \<open>The type and the message in the body of an error, as far as the body can be read.\<close>

type_synonym error_reader = "ustr \<Rightarrow> (ustr option \<times> ustr option) option"

definition expect_success :: "error_reader \<Rightarrow> Response \<Rightarrow> ApiError + Response" where
  "expect_success read_error response =
     (if is_success (rs_status response) then Inr response
      else let body = (case rs_text response of Inr t \<Rightarrow> t | Inl _ \<Rightarrow> []);
               parsed_error = read_error body
           in Inl (Api (rs_status response) (Option.bind parsed_error fst) (Option.bind parsed_error snd)
                (request_id_from_headers (rs_headers response)) body (is_retryable_status (rs_status response))
                (suggested_action_for_status (rs_status response))))"

text \<open>Everything outside the client: the server's answer to the \<open>n\<close>-th attempt, by address, key and payload, the clock, and
  the functions of \<^verbatim>\<open>serde_json\<close>.\<close>

record OpenAiWorld =
  ow_post :: "u32 \<Rightarrow> ustr \<Rightarrow> ustr \<Rightarrow> Value \<Rightarrow> HttpError + Response"
  ow_now :: "u32 \<Rightarrow> duration option"
  ow_to_string :: "Value \<Rightarrow> ustr"
  ow_vec_len :: "Value \<Rightarrow> nat option"
  ow_sizes :: Sizes
  ow_read_error :: error_reader
  ow_from_str :: from_str_fn
  ow_read_response :: "ustr \<Rightarrow> ustr + ChatCompletionResponse"

definition send_raw_request :: "OpenAiWorld \<Rightarrow> OpenAiCompatClient \<Rightarrow> MessageRequest \<Rightarrow> u32 \<Rightarrow> ApiError + Response" where
  "send_raw_request w c r n =
     rbind (check_request_body_size (ow_to_string w) (ow_vec_len w) r (oa_config c)) (\<lambda>_.
       case ow_post w n (chat_completions_endpoint (oa_base_url c)) (oa_api_key c)
              (build_chat_completion_request (ow_to_string w) r (oa_config c)) of
         Inl e \<Rightarrow> Inl (Http e)
       | Inr response \<Rightarrow> Inr response)"

definition send_with_retry ::
  "OpenAiWorld \<Rightarrow> OpenAiCompatClient \<Rightarrow> MessageRequest \<Rightarrow> u64 \<Rightarrow> ((ApiError + Response) \<times> duration list \<times> u64) option" where
  "send_with_retry w c r =
     retry_loop (oa_policy c) (\<lambda>n. rbind (send_raw_request w c r n) (expect_success (ow_read_error w))) (ow_now w) 1"

definition read_completion :: "OpenAiWorld \<Rightarrow> OpenAiCompatClient \<Rightarrow> ustr \<Rightarrow> Response \<Rightarrow> ApiError + MessageResponse" where
  "read_completion w c model response =
     (case rs_text response of
        Inl e \<Rightarrow> Inl (Http e)
      | Inr body \<Rightarrow>
          let request_id = request_id_from_headers (rs_headers response)
          in case (case ow_from_str w body of Inr raw \<Rightarrow> value_get (lit ''error'') raw | Inl _ \<Rightarrow> None) of
               Some err \<Rightarrow> Inl (embedded_error (lit ''provider returned an error'') request_id body err)
             | None \<Rightarrow>
                 (case ow_read_response w body of
                    Inl err \<Rightarrow> Inl (json_deserialize (oc_provider_name (oa_config c)) model body err)
                  | Inr payload \<Rightarrow>
                      rbind (normalize_response (ow_from_str w) model payload) (\<lambda>normalized.
                        Inr (if resp_request_id normalized = None then normalized\<lparr>resp_request_id := request_id\<rparr>
                             else normalized))))"

definition send_message ::
  "OpenAiWorld \<Rightarrow> OpenAiCompatClient \<Rightarrow> MessageRequest \<Rightarrow> u64 \<Rightarrow> ((ApiError + MessageResponse) \<times> u64) option" where
  "send_message w c request tick =
     (let r = request\<lparr>req_stream := False\<rparr>
      in case preflight_message_request (ow_sizes w) r of
           Inl e \<Rightarrow> Some (Inl e, tick)
         | Inr _ \<Rightarrow> map_option (\<lambda>(response, sleeps, t). (rbind response (read_completion w c (req_model r)), t))
                      (send_with_retry w c r tick))"

definition stream_message ::
  "OpenAiWorld \<Rightarrow> OpenAiCompatClient \<Rightarrow> MessageRequest \<Rightarrow> u64 \<Rightarrow> ((ApiError + ustr option \<times> MessageStream) \<times> u64) option" where
  "stream_message w c r tick =
     (case preflight_message_request (ow_sizes w) r of
        Inl e \<Rightarrow> Some (Inl e, tick)
      | Inr _ \<Rightarrow>
          map_option (\<lambda>(response, sleeps, t).
             (rbind response (\<lambda>rs. Inr (request_id_from_headers (rs_headers rs),
                \<lparr>ms_chunks = rs_chunks rs, ms_parser = OpenAiSseParser_with_context (oc_provider_name (oa_config c)) (req_model r),
                 ms_pending = [], ms_done = False, ms_state = StreamState_new (req_model r)\<rparr>)), t))
            (send_with_retry w c (with_streaming r) tick))"


section \<open>Lemmas\<close>

lemma btree_get_remove: "btree_get (btree_remove k m) k' = (if k' = k then None else btree_get m k')"
  by (induction m) (auto simp: btree_get_def btree_remove_def)

text \<open>The first pass as a recursion that carries the nearest message before that is not a tool message.\<close>

definition orphan :: "Value option \<Rightarrow> Value \<Rightarrow> bool" where
  "orphan prev m \<longleftrightarrow> is_tool_message m
     \<and> (case prev of
          None \<Rightarrow> False
        | Some p \<Rightarrow> str_field ''role'' p = Some (lit ''assistant'')
            \<and> \<not> has_call (unwrap_or [] (str_field ''tool_call_id'' m)) p)"

definition next_prev :: "Value option \<Rightarrow> Value \<Rightarrow> Value option" where
  "next_prev prev m = (if is_tool_message m then prev else Some m)"

fun drop_orphans :: "Value option \<Rightarrow> Value list \<Rightarrow> Value list" where
  "drop_orphans prev [] = []"
| "drop_orphans prev (m # ms) = (if orphan prev m then [] else [m]) @ drop_orphans (next_prev prev m) ms"

fun no_orphans :: "Value option \<Rightarrow> Value list \<Rightarrow> bool" where
  "no_orphans prev [] \<longleftrightarrow> True"
| "no_orphans prev (m # ms) \<longleftrightarrow> \<not> orphan prev m \<and> no_orphans (next_prev prev m) ms"

definition prev_of :: "Value list \<Rightarrow> Value option" where
  "prev_of ms = find (\<lambda>m. \<not> is_tool_message m) (rev ms)"

lemma prev_of_snoc: "prev_of (ms @ [m]) = next_prev (prev_of ms) m"
  by (simp add: prev_of_def next_prev_def)

lemma orphaned_middle: "orphaned (pre @ m # ms) (length pre) \<longleftrightarrow> orphan (prev_of pre) m"
  by (simp add: orphaned_def orphan_def preceding_def prev_of_def split: option.split)

lemma first_pass:
  "map (\<lambda>i. (pre @ ms) ! i) (filter (\<lambda>i. \<not> orphaned (pre @ ms) i) [length pre..<length pre + length ms])
     = drop_orphans (prev_of pre) ms"
proof (induction ms arbitrary: pre)
  case (Cons m ms)
  from Cons.IH [of "pre @ [m]"] show ?case
    by (simp add: upt_conv_Cons orphaned_middle prev_of_snoc del: upt.simps)
qed simp

lemma sanitize_eq: "sanitize_tool_message_pairing ms = strip_orphaned_tool_calls (drop_orphans None ms)"
  using first_pass [of "[]" ms] by (simp add: sanitize_tool_message_pairing_def prev_of_def)

lemma orphaned_iff:
  "(\<forall>i < length ms. \<not> orphaned (pre @ ms) (length pre + i)) \<longleftrightarrow> no_orphans (prev_of pre) ms"
proof (induction ms arbitrary: pre)
  case (Cons m ms)
  have "(\<forall>i < length (m # ms). \<not> orphaned (pre @ m # ms) (length pre + i)) \<longleftrightarrow>
      \<not> orphaned (pre @ m # ms) (length pre) \<and> (\<forall>i < length ms. \<not> orphaned (pre @ m # ms) (length pre + Suc i))"
    by (auto simp: less_Suc_eq_0_disj)
  also have "\<dots> \<longleftrightarrow> no_orphans (prev_of pre) (m # ms)"
    using Cons.IH [of "pre @ [m]"] by (simp add: orphaned_middle prev_of_snoc)
  finally show ?case .
qed simp

lemma no_orphans_drop: "no_orphans prev (drop_orphans prev ms)"
  by (induction ms arbitrary: prev) (auto simp: orphan_def next_prev_def)

lemma drop_orphans_id: "no_orphans prev ms \<Longrightarrow> drop_orphans prev ms = ms"
  by (induction ms arbitrary: prev) auto

text \<open>The second pass.\<close>

fun calls_answered :: "Value list \<Rightarrow> bool" where
  "calls_answered [] \<longleftrightarrow> True"
| "calls_answered (m # ms) \<longleftrightarrow>
     (str_field ''role'' m = Some (lit ''assistant'') \<longrightarrow>
        (\<forall>tc \<in> set (unwrap_or [] (tool_calls_of m)). \<exists>i \<in> set (answered_ids ms). str_field ''id'' tc = Some i))
     \<and> calls_answered ms"

lemma strip_keeps_field: "k \<noteq> ''tool_calls'' \<Longrightarrow> str_field k (strip_calls m later) = str_field k m"
  by (auto simp: strip_calls_def set_tool_calls_def str_field_def value_get_def btree_get_insert_any btree_get_remove
      Let_def split: option.split Value.split)

lemma strip_keeps_tool [simp]: "is_tool_message (strip_calls m later) = is_tool_message m"
  by (simp add: is_tool_message_def strip_keeps_field)

definition answered_call :: "ustr list \<Rightarrow> Value \<Rightarrow> bool" where
  "answered_call ids tc = (case str_field ''id'' tc of Some i \<Rightarrow> i \<in> set ids | None \<Rightarrow> False)"

lemma strip_calls_calls:
  assumes "str_field ''role'' m = Some (lit ''assistant'')"
  shows "unwrap_or [] (tool_calls_of (strip_calls m later))
    = filter (answered_call (answered_ids later)) (unwrap_or [] (tool_calls_of m))"
proof (cases "tool_calls_of m")
  case None
  then show ?thesis using assms by (simp add: strip_calls_def unwrap_or_def)
next
  case (Some tcs)
  let ?kept = "filter (answered_call (answered_ids later)) tcs"
  have s: "strip_calls m later = (if tcs = [] \<or> length ?kept = length tcs then m else set_tool_calls ?kept m)"
    using assms Some by (simp add: strip_calls_def Let_def answered_call_def [abs_def])
  obtain obj where m: "m = Object obj" using Some by (cases m) (auto simp: tool_calls_of_def value_get_def)
  have "unwrap_or [] (tool_calls_of (set_tool_calls ?kept m)) = ?kept"
    by (simp add: m set_tool_calls_def tool_calls_of_def value_get_def btree_get_insert_any btree_get_remove
        value_as_array_def unwrap_or_def)
  moreover have "?kept = tcs" if "tcs = [] \<or> length ?kept = length tcs"
    using that by (metis filter.simps(1) filter_id_conv length_filter_less nat_neq_iff)
  ultimately show ?thesis using s Some by (auto simp: unwrap_or_def)
qed

lemma answered_ids_strip [simp]: "answered_ids (strip_orphaned_tool_calls ms) = answered_ids ms"
  by (induction ms) (auto simp: answered_ids_def List.map_filter_def strip_keeps_field)

lemma calls_answered_strip: "calls_answered (strip_orphaned_tool_calls ms)"
proof (induction ms)
  case (Cons m ms)
  then show ?case
    by (auto simp: strip_keeps_field strip_calls_calls answered_call_def split: option.splits)
qed simp

lemma strip_id: "calls_answered ms \<Longrightarrow> strip_orphaned_tool_calls ms = ms"
proof (induction ms)
  case (Cons m ms)
  have "strip_calls m ms = m"
  proof (cases "str_field ''role'' m = Some (lit ''assistant'') \<and> tool_calls_of m \<noteq> None")
    case True
    then obtain tcs where t: "tool_calls_of m = Some tcs" by blast
    have "\<forall>tc \<in> set tcs. answered_call (answered_ids ms) tc" using Cons.prems True t
      by (auto simp: unwrap_or_def answered_call_def)
    then have "filter (answered_call (answered_ids ms)) tcs = tcs" by (simp add: filter_id_conv)
    then show ?thesis using t by (simp add: strip_calls_def Let_def answered_call_def [abs_def])
  qed (auto simp: strip_calls_def)
  then show ?case using Cons by simp
qed simp


definition identified :: "Value \<Rightarrow> bool" where
  "identified m \<longleftrightarrow> (is_tool_message m \<longrightarrow> str_field ''tool_call_id'' m \<noteq> None)"

text \<open>The message before has lost none of the calls that are answered later.\<close>

definition same_prev :: "Value list \<Rightarrow> Value option \<Rightarrow> Value option \<Rightarrow> bool" where
  "same_prev later prev prev' \<longleftrightarrow>
     rel_option (\<lambda>p p'. str_field ''role'' p' = str_field ''role'' p
       \<and> (\<forall>i \<in> set (answered_ids later). str_field ''role'' p = Some (lit ''assistant'') \<longrightarrow> has_call i p \<longrightarrow> has_call i p')) prev prev'"

lemma has_call_iff: "has_call i m \<longleftrightarrow> (\<exists>tc \<in> set (unwrap_or [] (tool_calls_of m)). str_field ''id'' tc = Some i)"
  by (auto simp: has_call_def unwrap_or_def list_ex_iff split: option.split)

lemma same_prev_strip: "same_prev ms (Some m) (Some (strip_calls m ms))"
  by (auto simp: same_prev_def strip_keeps_field has_call_iff strip_calls_calls answered_call_def)

lemma answered_ids_Cons:
  "answered_ids (m # ms) = (if is_tool_message m then opt_list (str_field ''tool_call_id'' m) else []) @ answered_ids ms"
  by (auto simp: answered_ids_def List.map_filter_def opt_list_def)

lemma same_prev_tool: "same_prev (m # ms) prev prev' \<Longrightarrow> same_prev ms prev prev'"
  unfolding same_prev_def by (auto simp: answered_ids_Cons elim: option.rel_mono_strong)

lemma no_orphans_strip:
  "no_orphans prev ms \<Longrightarrow> list_all identified ms \<Longrightarrow> same_prev ms prev prev' \<Longrightarrow> no_orphans prev' (strip_orphaned_tool_calls ms)"
proof (induction ms arbitrary: prev prev')
  case (Cons m ms)
  show ?case
  proof (cases "is_tool_message m")
    case True
    then have s: "strip_calls m ms = m" by (auto simp: is_tool_message_def strip_calls_def)
    from True Cons.prems(2) obtain i where i: "str_field ''tool_call_id'' m = Some i" "i \<in> set (answered_ids (m # ms))"
      by (auto simp: identified_def answered_ids_Cons opt_list_def)
    have "\<not> orphan prev' m" using Cons.prems(1,3) i True
      by (auto simp: orphan_def same_prev_def unwrap_or_def elim!: option.rel_cases split: option.splits)
    then show ?thesis using Cons.IH [of prev prev'] Cons.prems True s same_prev_tool by (auto simp: next_prev_def)
  next
    case False
    then show ?thesis using Cons.IH [OF _ _ same_prev_strip [of ms m]] Cons.prems
      by (simp add: next_prev_def orphan_def)
  qed
qed simp

lemma list_all_drop_orphans: "list_all P ms \<Longrightarrow> list_all P (drop_orphans prev ms)"
  by (induction ms arbitrary: prev) auto

lemma identified_translate: "list_all identified (translate_message to_string m model)"
proof -
  have "identified v" if "translate_block to_string b blk = Some v" for b blk v
    using that by (auto simp: translate_block_def identified_def is_tool_message_def str_field_def json_object_def value_get_def
        btree_get_of value_as_str_def split: InputContentBlock.splits if_splits)
  then have "list_all identified (List.map_filter (translate_block to_string b) bs)" for b bs
    by (auto simp: list_all_iff List.map_filter_def)
  moreover have "list_all identified (translate_assistant to_string bs model)" for bs
    by (auto simp: translate_assistant_def identified_def is_tool_message_def str_field_def json_object_def value_get_def
        btree_get_of value_as_str_def Let_def)
  ultimately show ?thesis by (simp add: translate_message_def)
qed

lemma identified_request: "list_all identified (request_messages to_string r)"
  using identified_translate
  by (auto simp: request_messages_def list_all_iff identified_def is_tool_message_def str_field_def json_object_def
      value_get_def btree_get_of value_as_str_def split: option.split)

lemma sanitized:
  assumes "list_all identified ms"
  shows "no_orphans None (sanitize_tool_message_pairing ms)" "calls_answered (sanitize_tool_message_pairing ms)"
proof -
  show "no_orphans None (sanitize_tool_message_pairing ms)"
    unfolding sanitize_eq
    by (intro no_orphans_strip [OF no_orphans_drop] list_all_drop_orphans assms) (simp add: same_prev_def)
  show "calls_answered (sanitize_tool_message_pairing ms)" by (simp add: sanitize_eq calls_answered_strip)
qed

lemma sanitize_id: "no_orphans None ms \<Longrightarrow> calls_answered ms \<Longrightarrow> sanitize_tool_message_pairing ms = ms"
  by (simp add: sanitize_eq drop_orphans_id strip_id)


text \<open>The parts of a schema that the normalisation visits.\<close>

inductive schema_node :: "Value \<Rightarrow> Value \<Rightarrow> bool" where
  here: "schema_node v v"
| in_properties: "(lit ''properties'', Object props) \<in> set m \<Longrightarrow> (k, v) \<in> set props \<Longrightarrow> schema_node v n
    \<Longrightarrow> schema_node (Object m) n"
| in_items: "(lit ''items'', v) \<in> set m \<Longrightarrow> schema_node v n \<Longrightarrow> schema_node (Object m) n"

definition is_object_schema :: "(ustr, Value) btree \<Rightarrow> bool" where
  "is_object_schema m \<longleftrightarrow> btree_get m (lit ''type'') = Some (String (lit ''object''))"

definition strict_node :: "Value \<Rightarrow> bool" where
  "strict_node v \<longleftrightarrow> (\<forall>m. v = Object m \<longrightarrow> is_object_schema m
     \<longrightarrow> btree_get m (lit ''properties'') \<noteq> None \<and> btree_get m (lit ''additionalProperties'') \<noteq> None)"

lemma get_or_insert: "btree_get (or_insert k v m) k' = (if k' = k \<and> btree_get m k = None then Some v else btree_get m k')"
  by (auto simp: or_insert_def btree_get_insert_any split: option.split)

lemma strict_defaults:
  "is_object_schema (schema_defaults m) \<Longrightarrow> btree_get (schema_defaults m) (lit ''properties'') \<noteq> None
     \<and> btree_get (schema_defaults m) (lit ''additionalProperties'') \<noteq> None"
  by (auto simp: is_object_schema_def schema_defaults_def get_or_insert value_as_str_def split: if_splits)

lemma btree_get_map_values: "btree_get (map (\<lambda>(k, v). (k, f k v)) m) k = map_option (f k) (btree_get m k)"
  by (induction m) (auto simp: btree_get_def)

lemma strict_normalize: "strict_node (normalize_object_schema v)"
proof (cases v)
  case (Object m)
  have "is_object_schema (schema_defaults m)" if "normalize_object_schema v = Object n" "is_object_schema n" for n
    using that by (auto simp: Object is_object_schema_def btree_get_map_values split: if_splits)
  then show ?thesis using strict_defaults [of m] by (auto simp: Object strict_node_def btree_get_map_values)
qed (simp_all add: strict_node_def)

lemma normalized_nodes: "schema_node u n \<Longrightarrow> u = normalize_object_schema v \<Longrightarrow> strict_node n"
proof (induction arbitrary: v rule: schema_node.induct)
  case (here u)
  then show ?case by (simp add: strict_normalize)
next
  case (in_properties props m k u n)
  from in_properties.prems obtain m' where m': "v = Object m'" by (cases v) auto
  from in_properties.prems in_properties.hyps(1) obtain p where "props = map (\<lambda>(k', v'). (k', normalize_object_schema v')) p"
    by (auto simp: m' split: Value.splits)
  with in_properties.hyps(2) in_properties.IH show ?case by auto
next
  case (in_items u m n)
  from in_items.prems obtain m' where m': "v = Object m'" by (cases v) auto
  from in_items.prems in_items.hyps(1) obtain v' where "u = normalize_object_schema v'" by (auto simp: m')
  with in_items.IH show ?case by blast
qed

section \<open>Properties\<close>

lemma json_object_get:
  "k \<notin> fst ` set post \<Longrightarrow> value_get (lit k) (json_object (pre @ (k, v) # post)) = Some v"
proof -
  assume "k \<notin> fst ` set post"
  then have "map_of (rev (map (\<lambda>(k, v). (lit k, v)) post)) (lit k) = None"
    by (force simp: map_of_eq_None_iff)
  then show ?thesis by (simp add: json_object_def value_get_def btree_get_of map_add_def)
qed

lemma opt_field_key [simp]: "k' \<noteq> k \<Longrightarrow> k' \<notin> fst ` set (opt_field k f x)"
  by (cases x) (simp_all add: opt_field_def)

lemma get_messages:
  "value_get (lit ''messages'') (build_chat_completion_request to_string r config)
     = Some (Array (sanitize_tool_message_pairing (request_messages to_string r)))"
proof -
  have "''messages'' \<notin> fst ` set (optional_fields r config)"
    by (cases "req_stop r") (auto simp: optional_fields_def image_Un)
  then have "value_get (lit ''messages'') (json_object ([a, b] @ (''messages'', v) # (''stream'', x) # optional_fields r config)) = Some v"
    for a b v x by (intro json_object_get) simp
  then show ?thesis by (simp add: build_chat_completion_request_def Let_def)
qed

text \<open>C19: in every request that is built, no tool message follows an assistant message that did not ask for it, and every
  call that an assistant message makes is answered by a later tool message, whatever the transcript was.\<close>

theorem request_messages_are_paired:
  "\<exists>ms. value_get (lit ''messages'') (build_chat_completion_request to_string r config) = Some (Array ms)
     \<and> (\<forall>i < length ms. \<not> orphaned ms i) \<and> calls_answered ms"
  using get_messages [of to_string r config] sanitized [OF identified_request, of to_string r] orphaned_iff [of _ "[]"]
  by (simp add: prev_of_def)

text \<open>An assistant message whose call nobody answers, followed by a result nobody asked for.\<close>

definition unpaired_request :: MessageRequest where
  "unpaired_request = sample_request\<lparr>req_messages :=
     [\<lparr>in_role = lit ''assistant'', in_content = [InText (lit ''a''), InToolUse (lit ''t1'') (lit ''ls'') Null]\<rparr>,
      \<lparr>in_role = lit ''user'', in_content = [InToolResult (lit ''t2'') [ResText (lit ''x'')] False]\<rparr>]\<rparr>"

theorem request_messages_are_paired_witness:
  "\<exists>ms. value_get (lit ''messages'') (build_chat_completion_request (\<lambda>_. lit ''{}'') unpaired_request OpenAiCompatConfig_openai)
       = Some (Array ms) \<and> ms \<noteq> [] \<and> \<not> orphaned ms 0 \<and> calls_answered ms"
proof -
  have "value_get (lit ''messages'') (build_chat_completion_request (\<lambda>_. lit ''{}'') unpaired_request OpenAiCompatConfig_openai)
      \<noteq> Some (Array [])" by code_simp
  with request_messages_are_paired [of "\<lambda>_. lit ''{}''" unpaired_request OpenAiCompatConfig_openai] show ?thesis by fastforce
qed

text \<open>Every object node that the normalisation of a tool's schema reaches, through properties and items at any depth,
  declares its properties and says whether others are allowed.\<close>

theorem normalized_schema_is_strict:
  assumes "schema_node (normalize_object_schema v) (Object m)" and "is_object_schema m"
  shows "btree_get m (lit ''properties'') \<noteq> None \<and> btree_get m (lit ''additionalProperties'') \<noteq> None"
  using normalized_nodes [OF assms(1) refl] assms(2) by (simp add: strict_node_def)

definition sample_schema :: Value where
  "sample_schema = json_object [(''type'', String (lit ''array'')), (''items'', json_object [(''type'', String (lit ''object''))])]"

theorem normalized_schema_is_strict_witness:
  "\<exists>m. schema_node (normalize_object_schema sample_schema) (Object m) \<and> btree_get m (lit ''properties'') \<noteq> None"
proof -
  let ?item = "[(lit ''additionalProperties'', Bool False), (lit ''properties'', Object []), (lit ''type'', String (lit ''object''))]"
  have n: "normalize_object_schema sample_schema = Object [(lit ''items'', Object ?item), (lit ''type'', String (lit ''array''))]"
    by code_simp
  have "schema_node (normalize_object_schema sample_schema) (Object ?item)"
    unfolding n by (rule in_items [OF _ here]) simp
  with normalized_schema_is_strict [OF this] show ?thesis by (auto simp: is_object_schema_def btree_get_def)
qed

end
