(* ===== verification/Prompt_Cache.thy ===== *)
theory Prompt_Cache
  imports Providers Sse
begin

text \<open>
  The prompt cache of the Anthropic client, \<^verbatim>\<open>api/src/prompt_cache.rs\<close>: completions kept in files by the hash of
  their request, the detection of breaks of the server's cache, and counters. The files of the completion directory are
  a map in the state; the file system may refuse changes, which the code ignores, as an argument says. The bytes that
  \<^verbatim>\<open>serde_json\<close> writes for the parts of a request and the clock are arguments. The copies of the counters on disk are not
  modelled; they are only read when a cache is created.
\<close>

section \<open>Definitions\<close>

subsection \<open>Hashes\<close>

definition stable_hash_bytes :: "u8 list \<Rightarrow> u64" where
  "stable_hash_bytes bytes = fold (\<lambda>b hash. (hash XOR ucast b) * 0x100000001b3) bytes 0xcbf29ce484222325"

definition hash_serializable :: "u8 list option \<Rightarrow> u64" where
  "hash_serializable json = stable_hash_bytes (case json of Some bytes \<Rightarrow> bytes | None \<Rightarrow> [])"

definition hash_string :: "ustr \<Rightarrow> u64" where
  "hash_string s = stable_hash_bytes (encode_utf8 s)"

definition is_ascii_alphanumeric :: "uchar \<Rightarrow> bool" where
  "is_ascii_alphanumeric c \<longleftrightarrow> is_ascii_digit c \<or> 65 \<le> c \<and> c \<le> 90 \<or> 97 \<le> c \<and> c \<le> 122"

definition MAX_SANITIZED_LENGTH :: nat where
  "MAX_SANITIZED_LENGTH = 80"

definition sanitize_path_segment :: "ustr \<Rightarrow> ustr" where
  "sanitize_path_segment s =
     (let sanitized = map (\<lambda>c. if is_ascii_alphanumeric c then c else 45) s
      in if str_len sanitized \<le> MAX_SANITIZED_LENGTH then sanitized
         else let suffix = lit ''-'' @ show_hex (unat (hash_string s))
              in prefix_bytes (MAX_SANITIZED_LENGTH - str_len suffix) sanitized @ suffix)"

text \<open>What \<^verbatim>\<open>serde_json::to_vec\<close> writes for a request and its parts.\<close>

record Serializer =
  se_request :: "MessageRequest \<Rightarrow> u8 list option"
  se_model :: "ustr \<Rightarrow> u8 list option"
  se_system :: "ustr option \<Rightarrow> u8 list option"
  se_tools :: "ToolDefinition list option \<Rightarrow> u8 list option"
  se_messages :: "InputMessage list \<Rightarrow> u8 list option"

definition request_hash_hex :: "Serializer \<Rightarrow> MessageRequest \<Rightarrow> ustr" where
  "request_hash_hex se r =
     (let digits = show_hex (unat (hash_serializable (se_request se r)))
      in lit ''v1-'' @ replicate (16 - length digits) 48 @ digits)"

record RequestFingerprints =
  fp_model :: u64
  fp_system :: u64
  fp_tools :: u64
  fp_messages :: u64

definition RequestFingerprints_from_request :: "Serializer \<Rightarrow> MessageRequest \<Rightarrow> RequestFingerprints" where
  "RequestFingerprints_from_request se r =
     \<lparr>fp_model = hash_serializable (se_model se (req_model r)), fp_system = hash_serializable (se_system se (req_system r)),
      fp_tools = hash_serializable (se_tools se (req_tools r)), fp_messages = hash_serializable (se_messages se (req_messages r))\<rparr>"

subsection \<open>The state\<close>

record PromptCacheConfig =
  pcc_session_id :: ustr
  pcc_completion_ttl :: u64
  pcc_prompt_ttl :: u64
  pcc_cache_break_min_drop :: u32

definition PromptCacheConfig_new :: "ustr \<Rightarrow> PromptCacheConfig" where
  "PromptCacheConfig_new session_id =
     \<lparr>pcc_session_id = session_id, pcc_completion_ttl = 30, pcc_prompt_ttl = 300, pcc_cache_break_min_drop = 2000\<rparr>"

record PromptCacheStats =
  tracked_requests :: u64
  completion_cache_hits :: u64
  completion_cache_misses :: u64
  completion_cache_writes :: u64
  expected_invalidations :: u64
  unexpected_cache_breaks :: u64
  total_cache_creation_input_tokens :: u64
  total_cache_read_input_tokens :: u64
  last_cache_creation_input_tokens :: "u32 option"
  last_cache_read_input_tokens :: "u32 option"
  last_request_hash :: "ustr option"
  last_completion_cache_key :: "ustr option"
  last_break_reason :: "ustr option"
  last_cache_source :: "ustr option"

definition PromptCacheStats_default :: PromptCacheStats where
  "PromptCacheStats_default =
     \<lparr>tracked_requests = 0, completion_cache_hits = 0, completion_cache_misses = 0, completion_cache_writes = 0,
      expected_invalidations = 0, unexpected_cache_breaks = 0, total_cache_creation_input_tokens = 0,
      total_cache_read_input_tokens = 0, last_cache_creation_input_tokens = None, last_cache_read_input_tokens = None,
      last_request_hash = None, last_completion_cache_key = None, last_break_reason = None, last_cache_source = None\<rparr>"

record CacheBreakEvent =
  cb_unexpected :: bool
  cb_reason :: ustr
  cb_previous_cache_read_input_tokens :: u32
  cb_current_cache_read_input_tokens :: u32
  cb_token_drop :: u32

record PromptCacheRecord =
  pr_cache_break :: "CacheBreakEvent option"
  pr_stats :: PromptCacheStats

record CompletionCacheEntry =
  ce_cached_at_unix_secs :: u64
  ce_fingerprint_version :: u32
  ce_response :: MessageResponse

record TrackedPromptState =
  tp_observed_at_unix_secs :: u64
  tp_fingerprint_version :: u32
  tp_hashes :: RequestFingerprints
  tp_cache_read_input_tokens :: u32

record PromptCache =
  pc_config :: PromptCacheConfig
  pc_stats :: PromptCacheStats
  pc_previous :: "TrackedPromptState option"
  pc_completions :: "ustr \<rightharpoonup> CompletionCacheEntry"

definition current_fingerprint_version :: u32 where
  "current_fingerprint_version = 1"

definition TrackedPromptState_from_usage :: "Serializer \<Rightarrow> u64 \<Rightarrow> MessageRequest \<Rightarrow> Usage \<Rightarrow> TrackedPromptState" where
  "TrackedPromptState_from_usage se now r usage =
     \<lparr>tp_observed_at_unix_secs = now, tp_fingerprint_version = current_fingerprint_version,
      tp_hashes = RequestFingerprints_from_request se r, tp_cache_read_input_tokens = us_cache_read_input_tokens usage\<rparr>"

subsection \<open>Breaks of the cache\<close>

definition change_reasons :: "RequestFingerprints \<Rightarrow> RequestFingerprints \<Rightarrow> ustr list" where
  "change_reasons previous current =
     (if fp_model previous \<noteq> fp_model current then [lit ''model changed''] else [])
     @ (if fp_system previous \<noteq> fp_system current then [lit ''system prompt changed''] else [])
     @ (if fp_tools previous \<noteq> fp_tools current then [lit ''tool definitions changed''] else [])
     @ (if fp_messages previous \<noteq> fp_messages current then [lit ''message payload changed''] else [])"

definition detect_cache_break ::
  "PromptCacheConfig \<Rightarrow> TrackedPromptState option \<Rightarrow> TrackedPromptState \<Rightarrow> CacheBreakEvent option" where
  "detect_cache_break config previous current =
     Option.bind previous (\<lambda>prev.
       let token_drop = saturating_sub (tp_cache_read_input_tokens prev) (tp_cache_read_input_tokens current);
           event = (\<lambda>unexpected reason.
             \<lparr>cb_unexpected = unexpected, cb_reason = reason,
              cb_previous_cache_read_input_tokens = tp_cache_read_input_tokens prev,
              cb_current_cache_read_input_tokens = tp_cache_read_input_tokens current, cb_token_drop = token_drop\<rparr>)
       in if tp_fingerprint_version prev \<noteq> tp_fingerprint_version current
          then Some (event False (lit ''fingerprint version changed (v'' @ show_nat (unat (tp_fingerprint_version prev))
                      @ lit '' -> v'' @ show_nat (unat (tp_fingerprint_version current)) @ lit '')''))
          else if token_drop < pcc_cache_break_min_drop config then None
          else let reasons = change_reasons (tp_hashes prev) (tp_hashes current);
                   elapsed = saturating_sub (tp_observed_at_unix_secs current) (tp_observed_at_unix_secs prev)
               in Some (if reasons \<noteq> [] then event False (join (lit '', '') reasons)
                        else if pcc_prompt_ttl config < elapsed
                        then event False (lit ''possible prompt cache TTL expiry after '' @ show_nat (unat elapsed) @ lit ''s'')
                        else event True (lit ''cache read tokens dropped while prompt fingerprint remained stable'')))"

definition apply_usage_to_stats :: "Usage \<Rightarrow> ustr \<Rightarrow> ustr \<Rightarrow> PromptCacheStats \<Rightarrow> PromptCacheStats" where
  "apply_usage_to_stats usage request_hash source s =
     s\<lparr>total_cache_creation_input_tokens := total_cache_creation_input_tokens s + ucast (us_cache_creation_input_tokens usage),
       total_cache_read_input_tokens := total_cache_read_input_tokens s + ucast (us_cache_read_input_tokens usage),
       last_cache_creation_input_tokens := Some (us_cache_creation_input_tokens usage),
       last_cache_read_input_tokens := Some (us_cache_read_input_tokens usage),
       last_request_hash := Some request_hash, last_cache_source := Some source\<rparr>"

subsection \<open>Lookup and recording\<close>

text \<open>The three ways in which a lookup misses.\<close>

definition miss :: "ustr \<Rightarrow> PromptCache \<Rightarrow> PromptCache" where
  "miss key pc = pc\<lparr>pc_stats := (pc_stats pc)\<lparr>completion_cache_misses := completion_cache_misses (pc_stats pc) + 1,
     last_completion_cache_key := Some key\<rparr>\<rparr>"

definition remove_file :: "bool \<Rightarrow> ustr \<Rightarrow> PromptCache \<Rightarrow> PromptCache" where
  "remove_file writable key pc = (if writable then pc\<lparr>pc_completions := (pc_completions pc)(key := None)\<rparr> else pc)"

definition lookup_completion ::
  "Serializer \<Rightarrow> bool \<Rightarrow> u64 \<Rightarrow> MessageRequest \<Rightarrow> PromptCache \<Rightarrow> MessageResponse option \<times> PromptCache" where
  "lookup_completion se writable now r pc =
     (let key = request_hash_hex se r
      in case pc_completions pc key of
           None \<Rightarrow> (None, miss key pc)
         | Some entry \<Rightarrow>
             if ce_fingerprint_version entry \<noteq> current_fingerprint_version
             then (None, remove_file writable key (miss key pc))
             else if pcc_completion_ttl (pc_config pc) \<le> saturating_sub now (ce_cached_at_unix_secs entry)
             then (None, remove_file writable key (miss key pc))
             else let stats = (pc_stats pc)\<lparr>last_completion_cache_key := Some key,
                                             completion_cache_hits := completion_cache_hits (pc_stats pc) + 1\<rparr>
                  in (Some (ce_response entry),
                      pc\<lparr>pc_stats := apply_usage_to_stats (resp_usage (ce_response entry)) key (lit ''completion-cache'') stats,
                         pc_previous := Some (TrackedPromptState_from_usage se now r (resp_usage (ce_response entry)))\<rparr>))"

definition count_break :: "CacheBreakEvent option \<Rightarrow> PromptCacheStats \<Rightarrow> PromptCacheStats" where
  "count_break cache_break s =
     (case cache_break of
        None \<Rightarrow> s
      | Some event \<Rightarrow>
          (if cb_unexpected event then s\<lparr>unexpected_cache_breaks := unexpected_cache_breaks s + 1\<rparr>
           else s\<lparr>expected_invalidations := expected_invalidations s + 1\<rparr>)\<lparr>last_break_reason := Some (cb_reason event)\<rparr>)"

definition write_completion_entry :: "bool \<Rightarrow> u64 \<Rightarrow> ustr \<Rightarrow> MessageResponse \<Rightarrow> PromptCache \<Rightarrow> PromptCache" where
  "write_completion_entry writable now key response pc =
     (if writable
      then pc\<lparr>pc_completions := (pc_completions pc)(key \<mapsto>
             \<lparr>ce_cached_at_unix_secs = now, ce_fingerprint_version = current_fingerprint_version, ce_response = response\<rparr>)\<rparr>
      else pc)"

definition record_usage_internal ::
  "Serializer \<Rightarrow> bool \<Rightarrow> u64 \<Rightarrow> MessageRequest \<Rightarrow> Usage \<Rightarrow> MessageResponse option \<Rightarrow> PromptCache
     \<Rightarrow> PromptCacheRecord \<times> PromptCache" where
  "record_usage_internal se writable now r usage response pc =
     (let key = request_hash_hex se r;
          current = TrackedPromptState_from_usage se now r usage;
          cache_break = detect_cache_break (pc_config pc) (pc_previous pc) current;
          stats = (pc_stats pc)\<lparr>tracked_requests := tracked_requests (pc_stats pc) + 1\<rparr>;
          stats = count_break cache_break (apply_usage_to_stats usage key (lit ''api-response'') stats);
          pc = pc\<lparr>pc_previous := Some current\<rparr>;
          (pc, stats) = (case response of
             Some resp \<Rightarrow> (write_completion_entry writable now key resp pc,
                           stats\<lparr>completion_cache_writes := completion_cache_writes stats + 1\<rparr>)
           | None \<Rightarrow> (pc, stats))
      in (\<lparr>pr_cache_break = cache_break, pr_stats = stats\<rparr>, pc\<lparr>pc_stats := stats\<rparr>))"

definition record_response ::
  "Serializer \<Rightarrow> bool \<Rightarrow> u64 \<Rightarrow> MessageRequest \<Rightarrow> MessageResponse \<Rightarrow> PromptCache \<Rightarrow> PromptCacheRecord \<times> PromptCache" where
  "record_response se writable now r response =
     record_usage_internal se writable now r (resp_usage response) (Some response)"

definition record_usage ::
  "Serializer \<Rightarrow> bool \<Rightarrow> u64 \<Rightarrow> MessageRequest \<Rightarrow> Usage \<Rightarrow> PromptCache \<Rightarrow> PromptCacheRecord \<times> PromptCache" where
  "record_usage se writable now r usage = record_usage_internal se writable now r usage None"

section \<open>Lemmas\<close>

lemma show_hex_length: "n < 16 ^ k \<Longrightarrow> 0 < k \<Longrightarrow> length (show_hex n) \<le> k"
proof (induction n arbitrary: k rule: show_hex.induct)
  case (1 n)
  show ?case
  proof (cases "n < 16")
    case True
    then show ?thesis using 1(3) by (simp add: show_hex.simps [of n] Suc_le_eq)
  next
    case False
    have k1: "1 < k" using False 1(2) by (cases k; cases "k - 1") auto
    have "n div 16 < 16 ^ (k - 1)" using 1(2) k1
      by (metis One_nat_def Suc_diff_Suc diff_zero less_mult_imp_div_less less_trans mult.commute power_Suc zero_less_one)
    then have "length (show_hex (n div 16)) \<le> k - 1" using 1(1) False k1 by simp
    then show ?thesis using False k1 by (simp add: show_hex.simps [of n])
  qed
qed

lemma ascii_str_len: "\<forall>c \<in> set s. c < 128 \<Longrightarrow> str_len s = length s"
  by (induction s) (auto simp: str_len_def len_utf8_def)

lemma ascii_prefix_bytes: "\<forall>c \<in> set s. c < 128 \<Longrightarrow> prefix_bytes n s = take n s"
  by (induction s arbitrary: n) (auto simp: len_utf8_def take_Cons split: nat.split)

definition segment_char :: "uchar \<Rightarrow> bool" where
  "segment_char c \<longleftrightarrow> is_ascii_alphanumeric c \<or> c = 45"

lemma show_hex_segment: "c \<in> set (show_hex n) \<Longrightarrow> segment_char c"
proof (induction n rule: show_hex.induct)
  case (1 n)
  have "segment_char (hex_lower d)" if "d < 16" for d
    using that by (auto simp: segment_char_def hex_lower_def is_ascii_alphanumeric_def is_ascii_digit_def)
  then show ?case using 1 by (auto simp: show_hex.simps [of n] split: if_splits)
qed

lemma segment_ascii: "segment_char c \<Longrightarrow> c < 128"
  by (auto simp: segment_char_def is_ascii_alphanumeric_def is_ascii_digit_def)

text \<open>The name of a session's directory.\<close>

lemma sanitized_segment: "str_len (sanitize_path_segment s) \<le> MAX_SANITIZED_LENGTH \<and> (\<forall>c \<in> set (sanitize_path_segment s). segment_char c)"
proof -
  let ?t = "map (\<lambda>c. if is_ascii_alphanumeric c then c else 45) s"
  let ?x = "lit ''-'' @ show_hex (unat (hash_string s))"
  have t: "\<forall>c \<in> set ?t. segment_char c" by (auto simp: segment_char_def)
  have x: "\<forall>c \<in> set ?x. segment_char c" using show_hex_segment by (auto simp: segment_char_def lit_def)
  have "unat (hash_string s) < 16 ^ 16" using unsigned_less [of "hash_string s", where 'a = nat] by simp
  then have l: "length ?x \<le> 17" using show_hex_length [of "unat (hash_string s)" 16] by (simp add: lit_def)
  have p: "prefix_bytes n ?t = take n ?t" for n using t segment_ascii by (intro ascii_prefix_bytes) auto
  have "length (take (MAX_SANITIZED_LENGTH - str_len ?x) ?t @ ?x) \<le> MAX_SANITIZED_LENGTH"
    using l ascii_str_len [of ?x] x segment_ascii by (auto simp: MAX_SANITIZED_LENGTH_def)
  moreover have "\<forall>c \<in> set (take n ?t @ ?x). segment_char c" for n using t x by (auto dest: in_set_takeD)
  ultimately show ?thesis using t ascii_str_len segment_ascii
    by (auto simp: sanitize_path_segment_def Let_def p)
qed

text \<open>Operations in any order.\<close>

datatype cache_op =
    OpLookup bool u64 MessageRequest
  | OpResponse bool u64 MessageRequest MessageResponse
  | OpUsage bool u64 MessageRequest Usage

fun cache_step :: "Serializer \<Rightarrow> cache_op \<Rightarrow> PromptCache \<Rightarrow> PromptCache" where
  "cache_step se (OpLookup w now r) pc = snd (lookup_completion se w now r pc)"
| "cache_step se (OpResponse w now r resp) pc = snd (record_response se w now r resp pc)"
| "cache_step se (OpUsage w now r usage) pc = snd (record_usage se w now r usage pc)"

fun concerns :: "Serializer \<Rightarrow> ustr \<Rightarrow> cache_op \<Rightarrow> bool" where
  "concerns se key (OpLookup w now r) \<longleftrightarrow> request_hash_hex se r = key"
| "concerns se key (OpResponse w now r resp) \<longleftrightarrow> request_hash_hex se r = key"
| "concerns se key (OpUsage w now r usage) \<longleftrightarrow> False"

lemma cache_step_keeps:
  "pc_config (cache_step se op pc) = pc_config pc"
  "\<not> concerns se key op \<Longrightarrow> pc_completions (cache_step se op pc) key = pc_completions pc key"
  by (cases op; auto simp: lookup_completion_def record_response_def record_usage_def record_usage_internal_def Let_def
      miss_def remove_file_def write_completion_entry_def split: option.split)+

lemma cache_steps_keep:
  "pc_config (fold (cache_step se) ops pc) = pc_config pc"
  "list_all (\<lambda>op. \<not> concerns se key op) ops \<Longrightarrow> pc_completions (fold (cache_step se) ops pc) key = pc_completions pc key"
  by (induction ops arbitrary: pc) (simp_all add: cache_step_keeps)

lemma recorded_entry:
  "pc_completions (snd (record_response se True now r resp pc)) (request_hash_hex se r)
     = Some \<lparr>ce_cached_at_unix_secs = now, ce_fingerprint_version = current_fingerprint_version, ce_response = resp\<rparr>"
  "pc_config (snd (record_response se w now r resp pc)) = pc_config pc"
  by (simp_all add: record_response_def record_usage_internal_def write_completion_entry_def Let_def)

section \<open>Properties\<close>

text \<open>C23: a response that was written to the cache is returned for its request, and for no longer than the time to live,
  whatever was recorded or looked up for other requests in between.\<close>

theorem recorded_completion_is_found:
  assumes "list_all (\<lambda>op. \<not> concerns se (request_hash_hex se r) op) ops"
  shows "fst (lookup_completion se w now' r (fold (cache_step se) ops (snd (record_response se True now r resp pc))))
    = (if saturating_sub now' now < pcc_completion_ttl (pc_config pc) then Some resp else None)"
  using cache_steps_keep(2) [OF assms] recorded_entry(1) [of se now r resp pc]
  by (auto simp: lookup_completion_def Let_def cache_steps_keep(1) recorded_entry(2))

definition plain_serializer :: Serializer where
  "plain_serializer =
     \<lparr>se_request = \<lambda>r. Some [of_nat (length (req_model r))], se_model = \<lambda>_. None, se_system = \<lambda>_. None, se_tools = \<lambda>_. None,
      se_messages = \<lambda>_. None\<rparr>"

definition sample_cache :: PromptCache where
  "sample_cache = \<lparr>pc_config = PromptCacheConfig_new (lit ''s''), pc_stats = PromptCacheStats_default, pc_previous = None,
     pc_completions = Map.empty\<rparr>"

definition sample_response :: MessageResponse where
  "sample_response = \<lparr>resp_id = lit ''id'', resp_kind = lit ''message'', resp_role = lit ''assistant'', resp_content = [],
     resp_model = lit ''m'', resp_stop_reason = None, resp_stop_sequence = None, resp_usage = no_usage, resp_request_id = None\<rparr>"

theorem recorded_completion_is_found_witness:
  "fst (lookup_completion plain_serializer True 20 sample_request
     (fold (cache_step plain_serializer) [OpLookup True 12 (sample_request\<lparr>req_model := lit ''other''\<rparr>)]
        (snd (record_response plain_serializer True 10 sample_request sample_response sample_cache)))) = Some sample_response"
proof -
  have "list_all (\<lambda>op. \<not> concerns plain_serializer (request_hash_hex plain_serializer sample_request) op)
      [OpLookup True 12 (sample_request\<lparr>req_model := lit ''other''\<rparr>)]" by code_simp
  note recorded_completion_is_found [OF this, of True 20 10 sample_response sample_cache]
  moreover have "saturating_sub 20 10 < pcc_completion_ttl (pc_config sample_cache)"
    by (simp add: saturating_sub_def sample_cache_def PromptCacheConfig_new_def)
  ultimately show ?thesis by simp
qed

end
