(* ===== verification/Anthropic_Client.thy ===== *)
theory Anthropic_Client
  imports Openai_Request Prompt_Cache
begin

text \<open>
  The client of the Messages API, \<^verbatim>\<open>api/src/providers/anthropic.rs\<close>, with the profile of its requests from the
  \<^verbatim>\<open>telemetry\<close> crate and the choice between the clients, \<^verbatim>\<open>api/src/client.rs\<close>. The state shared with the streams, the prompt cache
  and its last record, is passed along. The tracer only observes and is left out, and so is the exchange of OAuth codes,
  which is one HTTP call. The server's answers, the clock and the functions of \<^verbatim>\<open>serde_json\<close> are arguments as in the other client.
\<close>

section \<open>Definitions\<close>

subsection \<open>Credentials\<close>

datatype AuthSource = AuthNone | ApiKey ustr | BearerToken ustr | ApiKeyAndBearer ustr ustr

definition auth_api_key :: "AuthSource \<Rightarrow> ustr option" where
  "auth_api_key auth =
     (case auth of ApiKey k \<Rightarrow> Some k | ApiKeyAndBearer k b \<Rightarrow> Some k | AuthNone \<Rightarrow> None | BearerToken b \<Rightarrow> None)"

definition auth_bearer_token :: "AuthSource \<Rightarrow> ustr option" where
  "auth_bearer_token auth =
     (case auth of BearerToken b \<Rightarrow> Some b | ApiKeyAndBearer k b \<Rightarrow> Some b | AuthNone \<Rightarrow> None | ApiKey k \<Rightarrow> None)"

definition masked_authorization_header :: "AuthSource \<Rightarrow> ustr" where
  "masked_authorization_header auth =
     (if auth_bearer_token auth \<noteq> None then lit ''Bearer [REDACTED]'' else lit ''<absent>'')"

definition AuthSource_from_env :: "Env \<Rightarrow> ApiError + AuthSource" where
  "AuthSource_from_env env =
     rbind (read_env_non_empty env (lit ''ANTHROPIC_API_KEY'')) (\<lambda>api_key.
     rbind (read_env_non_empty env (lit ''ANTHROPIC_AUTH_TOKEN'')) (\<lambda>auth_token.
       case (api_key, auth_token) of
         (Some k, Some b) \<Rightarrow> Inr (ApiKeyAndBearer k b)
       | (Some k, None) \<Rightarrow> Inr (ApiKey k)
       | (None, Some b) \<Rightarrow> Inr (BearerToken b)
       | (None, None) \<Rightarrow> Inl (anthropic_missing_credentials env)))"

definition AuthSource_from_env_or_saved :: "Env \<Rightarrow> ApiError + AuthSource" where
  "AuthSource_from_env_or_saved env =
     rbind (read_env_non_empty env (lit ''ANTHROPIC_API_KEY'')) (\<lambda>api_key.
       case api_key of
         Some k \<Rightarrow> rbind (read_env_non_empty env (lit ''ANTHROPIC_AUTH_TOKEN'')) (\<lambda>token.
                     case token of Some b \<Rightarrow> Inr (ApiKeyAndBearer k b) | None \<Rightarrow> Inr (ApiKey k))
       | None \<Rightarrow> rbind (read_env_non_empty env (lit ''ANTHROPIC_AUTH_TOKEN'')) (\<lambda>token.
                     case token of Some b \<Rightarrow> Inr (BearerToken b) | None \<Rightarrow> Inl (anthropic_missing_credentials env)))"

text \<open>The function ignores its argument, the loader of the OAuth configuration.\<close>

definition resolve_startup_auth_source :: "(unit \<Rightarrow> 'c) \<Rightarrow> Env \<Rightarrow> ApiError + AuthSource" where
  "resolve_startup_auth_source load_oauth_config env =
     rbind (read_env_non_empty env (lit ''ANTHROPIC_API_KEY'')) (\<lambda>api_key.
       case api_key of
         Some k \<Rightarrow> rbind (read_env_non_empty env (lit ''ANTHROPIC_AUTH_TOKEN'')) (\<lambda>token.
                     case token of Some b \<Rightarrow> Inr (ApiKeyAndBearer k b) | None \<Rightarrow> Inr (ApiKey k))
       | None \<Rightarrow> rbind (read_env_non_empty env (lit ''ANTHROPIC_AUTH_TOKEN'')) (\<lambda>token.
                     case token of Some b \<Rightarrow> Inr (BearerToken b) | None \<Rightarrow> Inl (anthropic_missing_credentials env)))"

record OAuthTokenSet =
  ot_access_token :: ustr
  ot_refresh_token :: "ustr option"
  ot_expires_at :: "u64 option"
  ot_scopes :: "ustr list"

definition oauth_token_is_expired :: "u64 \<Rightarrow> OAuthTokenSet \<Rightarrow> bool" where
  "oauth_token_is_expired now t = (case ot_expires_at t of Some expires_at \<Rightarrow> expires_at \<le> now | None \<Rightarrow> False)"

text \<open>The refresh over the network and the write to the credentials file are arguments.\<close>

definition resolve_saved_oauth_token_set ::
  "u64 \<Rightarrow> (ustr \<Rightarrow> ustr list \<Rightarrow> ApiError + OAuthTokenSet) \<Rightarrow> (OAuthTokenSet \<Rightarrow> ApiError + unit) \<Rightarrow> OAuthTokenSet
     \<Rightarrow> ApiError + OAuthTokenSet" where
  "resolve_saved_oauth_token_set now refresh save token_set =
     (if \<not> oauth_token_is_expired now token_set then Inr token_set
      else case ot_refresh_token token_set of
             None \<Rightarrow> Inl ExpiredOAuthToken
           | Some refresh_token \<Rightarrow>
               rbind (refresh refresh_token (ot_scopes token_set)) (\<lambda>refreshed.
               let resolved = refreshed\<lparr>ot_refresh_token :=
                     (case ot_refresh_token refreshed of Some r \<Rightarrow> Some r | None \<Rightarrow> ot_refresh_token token_set)\<rparr>
               in rbind (save resolved) (\<lambda>_. Inr resolved)))"

subsection \<open>The profile of a request\<close>

record ClientIdentity =
  ci_app_name :: ustr
  ci_app_version :: ustr
  ci_runtime :: ustr

definition user_agent :: "ClientIdentity \<Rightarrow> ustr" where
  "user_agent i = ci_app_name i @ lit ''/'' @ ci_app_version i"

record AnthropicRequestProfile =
  rq_anthropic_version :: ustr
  rq_client_identity :: ClientIdentity
  rq_betas :: "ustr list"
  rq_extra_body :: "(ustr, Value) btree"

definition AnthropicRequestProfile_new :: "ClientIdentity \<Rightarrow> AnthropicRequestProfile" where
  "AnthropicRequestProfile_new i =
     \<lparr>rq_anthropic_version = lit ''2023-06-01'', rq_client_identity = i,
      rq_betas = [lit ''claude-code-20250219'', lit ''prompt-caching-scope-2026-01-05''], rq_extra_body = []\<rparr>"

definition with_beta :: "ustr \<Rightarrow> AnthropicRequestProfile \<Rightarrow> AnthropicRequestProfile" where
  "with_beta beta p = (if beta \<in> set (rq_betas p) then p else p\<lparr>rq_betas := rq_betas p @ [beta]\<rparr>)"

definition with_extra_body :: "ustr \<Rightarrow> Value \<Rightarrow> AnthropicRequestProfile \<Rightarrow> AnthropicRequestProfile" where
  "with_extra_body k v p = p\<lparr>rq_extra_body := btree_insert k v (rq_extra_body p)\<rparr>"

definition header_pairs :: "AnthropicRequestProfile \<Rightarrow> (ustr \<times> ustr) list" where
  "header_pairs p =
     [(lit ''anthropic-version'', rq_anthropic_version p), (lit ''user-agent'', user_agent (rq_client_identity p))]
     @ (if rq_betas p = [] then [] else [(lit ''anthropic-beta'', join (lit '','') (rq_betas p))])"

text \<open>\<open>to_value\<close> is \<^verbatim>\<open>serde_json::to_value\<close>.\<close>

definition render_json_body :: "(MessageRequest \<Rightarrow> ustr + Value) \<Rightarrow> AnthropicRequestProfile \<Rightarrow> MessageRequest \<Rightarrow> ustr + Value" where
  "render_json_body to_value p r =
     rbind (to_value r) (\<lambda>body.
       case body of
         Object obj \<Rightarrow>
           let obj = fold (\<lambda>(k, v). btree_insert k v) (rq_extra_body p) obj
           in Inr (Object (if rq_betas p = [] then obj
                           else btree_insert (lit ''betas'') (Array (map String (rq_betas p))) obj))
       | _ \<Rightarrow> Inl (lit ''request body must serialize to a JSON object''))"

definition strip_unsupported_beta_body_fields :: "Value \<Rightarrow> Value" where
  "strip_unsupported_beta_body_fields body =
     (case body of
        Object obj \<Rightarrow>
          let obj = btree_remove (lit ''presence_penalty'')
                      (btree_remove (lit ''frequency_penalty'') (btree_remove (lit ''betas'') obj));
              stop_val = btree_get obj (lit ''stop''); obj = btree_remove (lit ''stop'') obj
          in Object (case Option.bind stop_val value_as_array of
                       Some (v # vs) \<Rightarrow> btree_insert (lit ''stop_sequences'') (Array (v # vs)) obj
                     | _ \<Rightarrow> obj)
      | _ \<Rightarrow> body)"

subsection \<open>Errors\<close>

type_synonym anthropic_error_reader = "ustr \<Rightarrow> (ustr \<times> ustr) option"

definition anthropic_expect_success :: "anthropic_error_reader \<Rightarrow> Response \<Rightarrow> ApiError + Response" where
  "anthropic_expect_success read_error response =
     (if is_success (rs_status response) then Inr response
      else let body = (case rs_text response of Inr t \<Rightarrow> t | Inl _ \<Rightarrow> []);
               parsed_error = read_error body
           in Inl (Api (rs_status response) (map_option fst parsed_error) (map_option snd parsed_error)
                (request_id_from_headers (rs_headers response)) body (is_retryable_status (rs_status response)) None))"

definition SK_ANT_BEARER_HINT :: ustr where
  "SK_ANT_BEARER_HINT = lit ''sk-ant-* keys go in ANTHROPIC_API_KEY (x-api-key header), not ANTHROPIC_AUTH_TOKEN (Bearer header). Move your key to ANTHROPIC_API_KEY.''"

fun enrich_bearer_auth_error :: "AuthSource \<Rightarrow> ApiError \<Rightarrow> ApiError" where
  "enrich_bearer_auth_error auth (Api status error_type message request_id body retryable action) =
     (let keep = Api status error_type message request_id body retryable action
      in if status \<noteq> 401 then keep
         else case auth_bearer_token auth of
                None \<Rightarrow> keep
              | Some bearer_token \<Rightarrow>
                  if \<not> starts_with (lit ''sk-ant-'') bearer_token then keep
                  else if auth_api_key auth \<noteq> None then keep
                  else Api status error_type
                         (Some (case message of
                                  Some existing \<Rightarrow> existing @ lit '' '' @ [8212] @ lit '' hint: '' @ SK_ANT_BEARER_HINT
                                | None \<Rightarrow> lit ''hint: '' @ SK_ANT_BEARER_HINT))
                         request_id body retryable action)"
| "enrich_bearer_auth_error auth e = e"

subsection \<open>The client\<close>

record AnthropicClient =
  ac_auth :: AuthSource
  ac_base_url :: ustr
  ac_policy :: RetryPolicy
  ac_request_profile :: AnthropicRequestProfile

definition AnthropicClient_from_auth :: "ClientIdentity \<Rightarrow> AuthSource \<Rightarrow> AnthropicClient" where
  "AnthropicClient_from_auth i auth =
     \<lparr>ac_auth = auth, ac_base_url = lit ''https://api.anthropic.com'', ac_policy = default_policy,
      ac_request_profile = AnthropicRequestProfile_new i\<rparr>"

definition AnthropicClient_new :: "ClientIdentity \<Rightarrow> ustr \<Rightarrow> AnthropicClient" where
  "AnthropicClient_new i api_key = AnthropicClient_from_auth i (ApiKey api_key)"

definition anthropic_read_base_url :: "Env \<Rightarrow> ustr" where
  "anthropic_read_base_url env =
     (case env_var env (lit ''ANTHROPIC_BASE_URL'') of VarSet url \<Rightarrow> url | _ \<Rightarrow> lit ''https://api.anthropic.com'')"

definition AnthropicClient_from_env :: "ClientIdentity \<Rightarrow> Env \<Rightarrow> ApiError + AnthropicClient" where
  "AnthropicClient_from_env i env =
     rbind (AuthSource_from_env_or_saved env) (\<lambda>auth.
       Inr ((AnthropicClient_from_auth i auth)\<lparr>ac_base_url := anthropic_read_base_url env\<rparr>))"

definition with_auth_token :: "ustr option \<Rightarrow> AnthropicClient \<Rightarrow> AnthropicClient" where
  "with_auth_token auth_token c =
     (case (auth_api_key (ac_auth c), non_empty auth_token) of
        (Some k, Some b) \<Rightarrow> c\<lparr>ac_auth := ApiKeyAndBearer k b\<rparr>
      | (Some k, None) \<Rightarrow> c\<lparr>ac_auth := ApiKey k\<rparr>
      | (None, Some b) \<Rightarrow> c\<lparr>ac_auth := BearerToken b\<rparr>
      | (None, None) \<Rightarrow> c\<lparr>ac_auth := AuthNone\<rparr>)"

text \<open>What goes out: the address, the headers that the client sets, and the body.\<close>

record HttpRequest =
  hq_url :: ustr
  hq_headers :: "(ustr \<times> ustr) list"
  hq_body :: Value

definition build_request :: "AnthropicClient \<Rightarrow> ustr \<Rightarrow> Value \<Rightarrow> HttpRequest" where
  "build_request c url body =
     \<lparr>hq_url = url,
      hq_headers = [(lit ''content-type'', lit ''application/json'')]
        @ (case auth_api_key (ac_auth c) of Some k \<Rightarrow> [(lit ''x-api-key'', k)] | None \<Rightarrow> [])
        @ (case auth_bearer_token (ac_auth c) of Some b \<Rightarrow> [(lit ''authorization'', lit ''Bearer '' @ b)] | None \<Rightarrow> [])
        @ header_pairs (ac_request_profile c),
      hq_body = body\<rparr>"

record AnthropicWorld =
  aw_post :: "u32 \<Rightarrow> HttpRequest \<Rightarrow> HttpError + Response"
  aw_count :: "HttpRequest \<Rightarrow> HttpError + Response"
  aw_now :: "u32 \<Rightarrow> duration option"
  aw_to_value :: "MessageRequest \<Rightarrow> ustr + Value"
  aw_sizes :: Sizes
  aw_read_error :: anthropic_error_reader
  aw_read_count :: "ustr \<Rightarrow> ustr + u32"
  aw_read_response :: "ustr \<Rightarrow> ustr + MessageResponse"

definition request_body :: "AnthropicWorld \<Rightarrow> AnthropicClient \<Rightarrow> MessageRequest \<Rightarrow> ApiError + Value" where
  "request_body w c r =
     (case render_json_body (aw_to_value w) (ac_request_profile c) r of
        Inl e \<Rightarrow> Inl (ApiError_from_json e)
      | Inr body \<Rightarrow> Inr (strip_unsupported_beta_body_fields body))"

definition anthropic_send_raw_request :: "AnthropicWorld \<Rightarrow> AnthropicClient \<Rightarrow> MessageRequest \<Rightarrow> u32 \<Rightarrow> ApiError + Response" where
  "anthropic_send_raw_request w c r n =
     rbind (request_body w c r) (\<lambda>body.
       case aw_post w n (build_request c (trim_end_char 47 (ac_base_url c) @ lit ''/v1/messages'') body) of
         Inl e \<Rightarrow> Inl (Http e)
       | Inr response \<Rightarrow> Inr response)"

text \<open>Only errors that the server reports are enriched; the other errors, also the two that the loop makes itself, pass
  \<open>enrich_bearer_auth_error\<close> unchanged.\<close>

definition anthropic_send_with_retry ::
  "AnthropicWorld \<Rightarrow> AnthropicClient \<Rightarrow> MessageRequest \<Rightarrow> u64 \<Rightarrow> ((ApiError + Response) \<times> duration list \<times> u64) option" where
  "anthropic_send_with_retry w c r tick =
     map_option (\<lambda>(result, rest). (map_sum (enrich_bearer_auth_error (ac_auth c)) id result, rest))
       (retry_loop (ac_policy c)
          (\<lambda>n. rbind (anthropic_send_raw_request w c r n) (anthropic_expect_success (aw_read_error w))) (aw_now w) 1 tick)"

definition count_tokens :: "AnthropicWorld \<Rightarrow> AnthropicClient \<Rightarrow> MessageRequest \<Rightarrow> ApiError + u32" where
  "count_tokens w c r =
     rbind (request_body w c r) (\<lambda>body.
     rbind (case aw_count w (build_request c (trim_end_char 47 (ac_base_url c) @ lit ''/v1/messages/count_tokens'') body) of
              Inl e \<Rightarrow> Inl (Http e) | Inr response \<Rightarrow> Inr response) (\<lambda>response.
     rbind (anthropic_expect_success (aw_read_error w) response) (\<lambda>response.
       case rs_text response of
         Inl e \<Rightarrow> Inl (Http e)
       | Inr body \<Rightarrow>
           (case aw_read_count w body of
              Inl err \<Rightarrow> Inl (json_deserialize (lit ''Anthropic count_tokens'') (req_model r) body err)
            | Inr n \<Rightarrow> Inr n))))"

definition anthropic_preflight :: "AnthropicWorld \<Rightarrow> AnthropicClient \<Rightarrow> MessageRequest \<Rightarrow> ApiError + unit" where
  "anthropic_preflight w c r =
     rbind (preflight_message_request (aw_sizes w) r) (\<lambda>_.
       case model_token_limit (req_model r) of
         None \<Rightarrow> Inr ()
       | Some limit \<Rightarrow>
           (case count_tokens w c r of
              Inl _ \<Rightarrow> Inr ()
            | Inr counted_input_tokens \<Rightarrow> check_window r limit counted_input_tokens))"


subsection \<open>Messages\<close>

text \<open>The state that a client shares with its streams.\<close>

record CacheState =
  cs_prompt_cache :: "PromptCache option"
  cs_last_record :: "PromptCacheRecord option"

text \<open>What the cache needs from outside: the serializer, whether files can be written, and the clock.\<close>

record CacheEnv =
  cv_serializer :: Serializer
  cv_writable :: bool
  cv_now :: u64

definition take_last_prompt_cache_record :: "CacheState \<Rightarrow> PromptCacheRecord option \<times> CacheState" where
  "take_last_prompt_cache_record cs = (cs_last_record cs, cs\<lparr>cs_last_record := None\<rparr>)"

definition anthropic_send_message ::
  "AnthropicWorld \<Rightarrow> CacheEnv \<Rightarrow> AnthropicClient \<Rightarrow> MessageRequest \<Rightarrow> u64 \<Rightarrow> CacheState
     \<Rightarrow> ((ApiError + MessageResponse) \<times> u64 \<times> CacheState) option" where
  "anthropic_send_message w cv c request tick cs =
     (let r = request\<lparr>req_stream := False\<rparr>;
          (cached, cs) = (case cs_prompt_cache cs of
             None \<Rightarrow> (None, cs)
           | Some pc \<Rightarrow> (case lookup_completion (cv_serializer cv) (cv_writable cv) (cv_now cv) r pc of
                           (found, pc') \<Rightarrow> (found, cs\<lparr>cs_prompt_cache := Some pc'\<rparr>)))
      in case cached of
           Some response \<Rightarrow> Some (Inr response, tick, cs)
         | None \<Rightarrow>
             (case anthropic_preflight w c r of
                Inl e \<Rightarrow> Some (Inl e, tick, cs)
              | Inr _ \<Rightarrow>
                  map_option (\<lambda>(result, sleeps, t).
                    case rbind result (\<lambda>http_response.
                           case rs_text http_response of
                             Inl e \<Rightarrow> Inl (Http e)
                           | Inr body \<Rightarrow>
                               (case aw_read_response w body of
                                  Inl err \<Rightarrow> Inl (json_deserialize (lit ''Anthropic'') (req_model r) body err)
                                | Inr response \<Rightarrow>
                                    Inr (if resp_request_id response = None
                                         then response\<lparr>resp_request_id := request_id_from_headers (rs_headers http_response)\<rparr>
                                         else response))) of
                      Inl e \<Rightarrow> (Inl e, t, cs)
                    | Inr response \<Rightarrow>
                        (Inr response, t,
                         case cs_prompt_cache cs of
                           None \<Rightarrow> cs
                         | Some pc \<Rightarrow>
                             (case record_response (cv_serializer cv) (cv_writable cv) (cv_now cv) r response pc of
                                (rec, pc') \<Rightarrow> cs\<lparr>cs_prompt_cache := Some pc', cs_last_record := Some rec\<rparr>)))
                    (anthropic_send_with_retry w c r tick)))"

record AnthropicStream =
  am_chunks :: "(ApiError + u8 list) list"
  am_parser :: SseParser
  am_pending :: "StreamEvent list"
  am_done :: bool
  am_request :: MessageRequest
  am_latest_usage :: "Usage option"
  am_usage_recorded :: bool
  am_cache :: CacheState

definition observe_stream_event :: "CacheEnv \<Rightarrow> StreamEvent \<Rightarrow> AnthropicStream \<Rightarrow> AnthropicStream" where
  "observe_stream_event cv event s =
     (case event of
        MessageDeltaEv d usage \<Rightarrow> s\<lparr>am_latest_usage := Some usage\<rparr>
      | MessageStop \<Rightarrow>
          if am_usage_recorded s then s
          else (case (cs_prompt_cache (am_cache s), am_latest_usage s) of
                  (Some pc, Some usage) \<Rightarrow>
                    (case record_usage (cv_serializer cv) (cv_writable cv) (cv_now cv) (am_request s) usage pc of
                       (rec, pc') \<Rightarrow> s\<lparr>am_cache := (am_cache s)\<lparr>cs_prompt_cache := Some pc', cs_last_record := Some rec\<rparr>\<rparr>)
                | _ \<Rightarrow> s)\<lparr>am_usage_recorded := True\<rparr>
      | _ \<Rightarrow> s)"

function anthropic_next_event ::
  "(ustr \<Rightarrow> ustr + StreamEvent) \<Rightarrow> CacheEnv \<Rightarrow> AnthropicStream \<Rightarrow> (ApiError + StreamEvent option) \<times> AnthropicStream" where
  "anthropic_next_event from_str cv s =
     (case am_pending s of
        ev # evs \<Rightarrow> (Inr (Some ev), observe_stream_event cv ev (s\<lparr>am_pending := evs\<rparr>))
      | [] \<Rightarrow>
          if am_done s then
            (case SseParser_finish from_str (am_parser s) of
               (Inl e, p) \<Rightarrow> (Inl e, s\<lparr>am_parser := p\<rparr>)
             | (Inr [], p) \<Rightarrow> (Inr None, s\<lparr>am_parser := p\<rparr>)
             | (Inr (ev # evs), p) \<Rightarrow> (Inr (Some ev), s\<lparr>am_parser := p, am_pending := evs\<rparr>))
          else
            (case am_chunks s of
               [] \<Rightarrow> anthropic_next_event from_str cv (s\<lparr>am_done := True\<rparr>)
             | Inl e # cs \<Rightarrow> (Inl e, s\<lparr>am_chunks := cs\<rparr>)
             | Inr c # cs \<Rightarrow>
                 (case SseParser_push from_str c (am_parser s) of
                    (Inl e, p) \<Rightarrow> (Inl e, s\<lparr>am_chunks := cs, am_parser := p\<rparr>)
                  | (Inr evs, p) \<Rightarrow> anthropic_next_event from_str cv (s\<lparr>am_chunks := cs, am_parser := p, am_pending := evs\<rparr>))))"
  by pat_completeness auto
termination
  by (relation "measure (\<lambda>(from_str, cv, s). length (am_chunks s) + (if am_done s then 0 else 1))") auto

declare anthropic_next_event.simps [simp del]

definition AnthropicStream_open :: "(ApiError + u8 list) list \<Rightarrow> MessageRequest \<Rightarrow> CacheState \<Rightarrow> AnthropicStream" where
  "AnthropicStream_open chunks r cs =
     \<lparr>am_chunks = chunks, am_parser = SseParser_with_context (lit ''Anthropic'') (req_model r) SseParser_new,
      am_pending = [], am_done = False, am_request = r, am_latest_usage = None, am_usage_recorded = False, am_cache = cs\<rparr>"

definition anthropic_stream_message ::
  "AnthropicWorld \<Rightarrow> AnthropicClient \<Rightarrow> MessageRequest \<Rightarrow> u64 \<Rightarrow> CacheState
     \<Rightarrow> ((ApiError + ustr option \<times> AnthropicStream) \<times> u64) option" where
  "anthropic_stream_message w c r tick cs =
     (case anthropic_preflight w c r of
        Inl e \<Rightarrow> Some (Inl e, tick)
      | Inr _ \<Rightarrow>
          map_option (\<lambda>(response, sleeps, t).
             (rbind response (\<lambda>rs. Inr (request_id_from_headers (rs_headers rs), AnthropicStream_open (rs_chunks rs) r cs)), t))
            (anthropic_send_with_retry w c (with_streaming r) tick))"

subsection \<open>The choice of a client\<close>

datatype ProviderClient =
    AnthropicProvider AnthropicClient
  | XaiProvider OpenAiCompatClient
  | OpenAiProvider OpenAiCompatClient

definition from_model_with_anthropic_auth :: "ClientIdentity \<Rightarrow> Env \<Rightarrow> ustr \<Rightarrow> AuthSource option \<Rightarrow> ApiError + ProviderClient" where
  "from_model_with_anthropic_auth i env model anthropic_auth =
     (let resolved_model = resolve_model_alias model
      in case detect_provider_kind env resolved_model of
           Anthropic \<Rightarrow>
             (case anthropic_auth of
                Some auth \<Rightarrow> Inr (AnthropicProvider (AnthropicClient_from_auth i auth))
              | None \<Rightarrow> rbind (AnthropicClient_from_env i env) (\<lambda>c. Inr (AnthropicProvider c)))
         | Xai \<Rightarrow> rbind (OpenAiCompatClient_from_env env OpenAiCompatConfig_xai) (\<lambda>c. Inr (XaiProvider c))
         | OpenAi \<Rightarrow>
             let config = (case metadata_for_model resolved_model of
                             Some meta \<Rightarrow> if pm_auth_env meta = lit ''DASHSCOPE_API_KEY'' then OpenAiCompatConfig_dashscope
                                          else OpenAiCompatConfig_openai
                           | None \<Rightarrow> OpenAiCompatConfig_openai)
             in rbind (OpenAiCompatClient_from_env env config) (\<lambda>c. Inr (OpenAiProvider c)))"

definition from_model :: "ClientIdentity \<Rightarrow> Env \<Rightarrow> ustr \<Rightarrow> ApiError + ProviderClient" where
  "from_model i env model = from_model_with_anthropic_auth i env model None"

fun provider_kind :: "ProviderClient \<Rightarrow> ProviderKind" where
  "provider_kind (AnthropicProvider c) = Anthropic"
| "provider_kind (XaiProvider c) = Xai"
| "provider_kind (OpenAiProvider c) = OpenAi"


section \<open>Lemmas\<close>

lemma collect_results_snoc:
  "collect_results f (xs @ [x]) = rbind (collect_results f xs) (\<lambda>ys. rbind (f x) (\<lambda>y. Inr (ys @ [y])))"
proof (induction xs)
  case (Cons a xs)
  then show ?case by (cases "f a"; cases "collect_results f xs"; cases "f x") simp_all
qed (cases "f x"; simp)

lemma decode_Nil: "decode [] = []"
  by (simp add: decode_def from_utf8_lossy.simps)

text \<open>A stream that will still deliver the events \<open>es\<close> and then end.\<close>

definition am_delivers :: "(ustr \<Rightarrow> ustr + StreamEvent) \<Rightarrow> StreamEvent list \<Rightarrow> AnthropicStream \<Rightarrow> bool" where
  "am_delivers from_str es s \<longleftrightarrow>
     (if am_done s then \<exists>rest p. SseParser_finish from_str (am_parser s) = (Inr rest, p) \<and> es = am_pending s @ rest
      else \<exists>cs evs p rest p'. am_chunks s = map Inr cs \<and> feed (SseParser_push from_str) cs (am_parser s) = (Inr evs, p)
             \<and> SseParser_finish from_str p = (Inr rest, p') \<and> es = am_pending s @ evs @ rest)"

lemma observe_keeps [simp]:
  "am_chunks (observe_stream_event cv ev s) = am_chunks s" "am_parser (observe_stream_event cv ev s) = am_parser s"
  "am_pending (observe_stream_event cv ev s) = am_pending s" "am_done (observe_stream_event cv ev s) = am_done s"
  by (simp_all add: observe_stream_event_def split: StreamEvent.split option.split prod.split)

lemma finish_flushed: "SseParser_finish from_str p = (Inr rest, p') \<Longrightarrow> SseParser_finish from_str p' = (Inr [], p')"
  by (auto simp: SseParser_finish_def split: if_splits)

lemma anthropic_next_delivers:
  "am_delivers from_str es s \<Longrightarrow>
    fst (anthropic_next_event from_str cv s) = Inr (case es of e # _ \<Rightarrow> Some e | [] \<Rightarrow> None)
    \<and> am_delivers from_str (tl es) (snd (anthropic_next_event from_str cv s))"
proof (induction from_str cv s arbitrary: es rule: anthropic_next_event.induct)
  case (1 from_str cv s)
  note step = anthropic_next_event.simps [of from_str cv s]
  show ?case
  proof (cases "am_pending s")
    case (Cons e evs)
    with 1(3) show ?thesis by (auto simp: step am_delivers_def)
  next
    case Nil
    show ?thesis
    proof (cases "am_done s")
      case True
      then obtain rest p where f: "SseParser_finish from_str (am_parser s) = (Inr rest, p)" "es = rest"
        using 1(3) Nil by (auto simp: am_delivers_def)
      then show ?thesis using Nil True finish_flushed [OF f(1)]
        by (cases rest) (auto simp: step am_delivers_def)
    next
      case False
      with 1(3) obtain cs evs p rest p' where c: "am_chunks s = map Inr cs"
        "feed (SseParser_push from_str) cs (am_parser s) = (Inr evs, p)"
        "SseParser_finish from_str p = (Inr rest, p')" "es = evs @ rest"
        using Nil by (auto simp: am_delivers_def)
      show ?thesis
      proof (cases cs)
        case Nil1: Nil
        then have "am_delivers from_str es (s\<lparr>am_done := True\<rparr>)" using c Nil by (auto simp: am_delivers_def)
        from 1(1) [OF Nil False _ this] c(1) Nil1 Nil False show ?thesis by (simp add: step)
      next
        case C: (Cons b bs)
        with c(2) obtain es1 p1 es2 where f: "SseParser_push from_str b (am_parser s) = (Inr es1, p1)"
          "feed (SseParser_push from_str) bs p1 = (Inr es2, p)" "evs = es1 @ es2"
          by (auto split: prod.splits sum.splits)
        let ?s = "s\<lparr>am_chunks := map Inr bs, am_parser := p1, am_pending := es1\<rparr>"
        have "am_delivers from_str es ?s" using f(2) c(3,4) False by (auto simp: am_delivers_def f(3))
        with 1(2) [of "Inr b" "map Inr bs" b "Inr es1" p1 es1] c(1) C Nil False f(1) show ?thesis
          by (simp add: step)
      qed
    qed
  qed
qed

interpretation am: event_source "anthropic_next_event from_str cv" "am_delivers from_str" for from_str cv
  by unfold_locales (rule anthropic_next_delivers)

section \<open>Properties\<close>

text \<open>C22: the stream of the Messages API hands out the event of every frame, in order and one per call, and then reports the
  end, however the network cut the bytes; also the event of a last frame that no blank line ends.\<close>

theorem anthropic_stream_reaches_caller:
  assumes "list_all frame_text (fs @ [t])" and "concat pieces = end_frames fs @ encode_utf8 t"
    and "collect_results (\<lambda>f. parse_frame_with_provider from_str f (lit ''Anthropic'') (req_model r)) (fs @ [t]) = Inr evs"
  shows "call_next (anthropic_next_event from_str cv) (length (concat (map opt_list evs)) + 1)
      (AnthropicStream_open (map Inr pieces) r cs)
    = map (\<lambda>e. Inr (Some e)) (concat (map opt_list evs)) @ [Inr None]"
proof (rule am.call_next_will)
  let ?p = "SseParser_with_context (lit ''Anthropic'') (req_model r) SseParser_new"
  let ?f = "\<lambda>f. parse_frame_with_provider from_str f (lit ''Anthropic'') (req_model r)"
  have f: "parse_frame_with_context from_str (?p\<lparr>sse_buffer := b\<rparr>) = ?f" for b
    by (simp add: fun_eq_iff parse_frame_with_context_def SseParser_with_context_def unwrap_or_def)
  from assms(3) obtain evs' ev where e: "collect_results ?f fs = Inr evs'" "?f t = Inr ev" "evs = evs' @ [ev]"
    by (auto simp: collect_results_snoc rbind_eq_Inr)
  have "frame_text t" "list_all frame_text fs" using assms(1) by simp_all
  from frame_push_tail [OF this(2,1) e(1) assms(2)]
  have "feed (SseParser_push from_str) pieces ?p = (Inr (concat (map opt_list evs')), ?p\<lparr>sse_buffer := encode_utf8 t\<rparr>)"
    using f [of "[]"] by (simp add: feed_SseParser SseParser_with_context_def SseParser_new_def)
  moreover have "SseParser_finish from_str (?p\<lparr>sse_buffer := encode_utf8 t\<rparr>) = (Inr (opt_list ev), ?p\<lparr>sse_buffer := []\<rparr>)"
  proof (cases "t = []")
    case True
    then have "ev = None" using e(2) by (simp add: parse_frame_with_provider_def)
    then show ?thesis using True by (simp add: SseParser_finish_def encode_utf8_def opt_list_def)
  next
    case False
    have "list_all scalar_value t" using \<open>frame_text t\<close> by (auto simp: frame_text_def frame_char_def list_all_iff)
    then have "decode (encode_utf8 t) = t" by (rule decode_encode)
    moreover from this have "encode_utf8 t \<noteq> []" using False decode_Nil by metis
    ultimately show ?thesis using e(2) by (simp add: SseParser_finish_def f)
  qed
  ultimately show "am_delivers from_str (concat (map opt_list evs)) (AnthropicStream_open (map Inr pieces) r cs)"
    by (simp add: am_delivers_def AnthropicStream_open_def e(3))
qed

definition sample_cache_env :: CacheEnv where
  "sample_cache_env = \<lparr>cv_serializer = plain_serializer, cv_writable = True, cv_now = 0\<rparr>"

definition no_cache :: CacheState where
  "no_cache = \<lparr>cs_prompt_cache = None, cs_last_record = None\<rparr>"

theorem anthropic_stream_reaches_caller_witness:
  "call_next (anthropic_next_event echo_frame sample_cache_env) 3
     (AnthropicStream_open [Inr (encode_utf8 (lit ''data: a'')), Inr ([10, 10] @ encode_utf8 (lit ''data: b''))] sample_request no_cache)
   = [Inr (Some (ContentBlockDeltaEv 0 (TextDelta (lit ''a'')))), Inr (Some (ContentBlockDeltaEv 0 (TextDelta (lit ''b'')))), Inr None]"
proof -
  let ?pieces = "[encode_utf8 (lit ''data: a''), [10, 10] @ encode_utf8 (lit ''data: b'')]"
  have "collect_results (\<lambda>f. parse_frame_with_provider echo_frame f (lit ''Anthropic'') (req_model sample_request))
      ([lit ''data: a''] @ [lit ''data: b''])
    = Inr [Some (ContentBlockDeltaEv 0 (TextDelta (lit ''a''))), Some (ContentBlockDeltaEv 0 (TextDelta (lit ''b'')))]"
    by code_simp
  moreover have "list_all frame_text ([lit ''data: a''] @ [lit ''data: b''])"
    by (simp add: frame_text_def frame_char_def scalar_value_def lit_def)
  moreover have "concat ?pieces = end_frames [lit ''data: a''] @ encode_utf8 (lit ''data: b'')" by (simp add: end_frames_def)
  ultimately show ?thesis
    using anthropic_stream_reaches_caller [of "[lit ''data: a'']" "lit ''data: b''" ?pieces echo_frame sample_request _ sample_cache_env no_cache]
    by (simp add: opt_list_def numeral_3_eq_3)
qed

text \<open>An event that only the flush at the end produces is handed out without being observed: if it is the end of the message,
  the usage of the request is not recorded.\<close>

lemma flushed_stop_is_not_recorded:
  assumes "am_pending s = []" and "am_done s" and "SseParser_finish from_str (am_parser s) = (Inr [MessageStop], p)"
  shows "fst (anthropic_next_event from_str cv s) = Inr (Some MessageStop)"
    and "am_cache (snd (anthropic_next_event from_str cv s)) = am_cache s"
    and "am_usage_recorded (snd (anthropic_next_event from_str cv s)) = am_usage_recorded s"
  using assms by (simp_all add: anthropic_next_event.simps [of from_str cv s])

lemma buffered_stop_is_recorded:
  "am_pending s = [MessageStop] \<Longrightarrow> am_usage_recorded (snd (anthropic_next_event from_str cv s))"
  by (simp add: anthropic_next_event.simps [of from_str cv s] observe_stream_event_def split: option.split)

end
