(* ===== verification/Openai_Arguments.thy ===== *)
theory Openai_Arguments
  imports Openai_Stream
begin

text \<open>
  The arguments of tool calls in streamed replies. They arrive in pieces that are appended to the entry of the call;
  what was not yet sent goes out as a delta of the call's block. The invariant ties the bytes sent to the
  pieces received, for every call at once.
\<close>

section \<open>What was received and what was sent\<close>

fun event_json :: "u32 \<Rightarrow> StreamEvent \<Rightarrow> ustr" where
  "event_json i (ContentBlockDeltaEv j (InputJsonDelta s)) = (if j = i then s else [])"
| "event_json i _ = []"

definition json_at :: "u32 \<Rightarrow> StreamEvent list \<Rightarrow> ustr" where
  "json_at i es = concat (map (event_json i) es)"

text \<open>What the deltas of a tool call add up to, and whether one of them names the tool.\<close>

definition received :: "u32 \<Rightarrow> DeltaToolCall list \<Rightarrow> ustr" where
  "received k ds = concat (map (\<lambda>d. if dt_index d = k then unwrap_or [] (df_arguments (dt_function d)) else []) ds)"

definition named :: "u32 \<Rightarrow> DeltaToolCall list \<Rightarrow> bool" where
  "named k ds \<longleftrightarrow> (\<exists>d \<in> set ds. dt_index d = k \<and> df_name (dt_function d) \<noteq> None)"

text \<open>The part \<open>j\<close> of the arguments has been sent; all of them, once the block is open.\<close>

definition sent :: "ToolCallState \<Rightarrow> ustr \<Rightarrow> bool" where
  "sent t j \<longleftrightarrow> tc_emitted_len t = str_len j \<and> j = (if tc_started t then tc_arguments t else [])"

definition tool_ok :: "DeltaToolCall list \<Rightarrow> u32 \<Rightarrow> ustr \<Rightarrow> ToolCallState option \<Rightarrow> bool" where
  "tool_ok ds k j e \<longleftrightarrow> (case e of
       None \<Rightarrow> received k ds = [] \<and> \<not> named k ds \<and> j = []
     | Some t \<Rightarrow> tc_openai_index t = k \<and> tc_arguments t = received k ds \<and> (tc_name t \<noteq> None \<longleftrightarrow> named k ds)
         \<and> (tc_started t \<longrightarrow> tc_name t \<noteq> None) \<and> sent t j)"

definition tools_inv :: "DeltaToolCall list \<Rightarrow> StreamEvent list \<Rightarrow> StreamState \<Rightarrow> bool" where
  "tools_inv ds es st \<longleftrightarrow> btree_wf (st_tool_calls st)
     \<and> (\<forall>k. tool_ok ds k (json_at (k + tool_index_offset st) es) (btree_get (st_tool_calls st) k))"

lemma json_at_append [simp]: "json_at i (a @ b) = json_at i a @ json_at i b"
  by (simp add: json_at_def)

lemma json_at_Nil [simp]: "json_at i [] = []"
  by (simp add: json_at_def)

lemma drop_bytes_append: "drop_bytes (str_len p) (p @ q) = q"
proof -
  have "drop_bytes 0 q = q" by (cases q) simp_all
  then show ?thesis
  proof (induction p)
    case (Cons c p)
    have "str_len (c # p) \<noteq> 0" by simp
    then show ?case using Cons by (simp add: str_len_Cons)
  qed (simp add: str_len_def)
qed

text \<open>The byte position kept for a tool call is always the end of a prefix of its arguments.\<close>

lemma arguments_boundary: "sent t j \<Longrightarrow> \<exists>q. tc_arguments t = j @ q \<and> drop_bytes (tc_emitted_len t) (tc_arguments t) = q"
  using drop_bytes_append [of j "[]"] drop_bytes_append [of "[]" "tc_arguments t"]
  by (auto simp: sent_def str_len_def split: if_splits)

lemma tool_delta_sent:
  assumes "\<exists>q. tc_arguments t = j @ q \<and> str_len j = tc_emitted_len t"
  shows "j @ json_at (block_index off t) (fst (tool_delta off t)) = tc_arguments t"
    and "i \<noteq> block_index off t \<Longrightarrow> json_at i (fst (tool_delta off t)) = []"
    and "tc_emitted_len (snd (tool_delta off t)) = str_len (tc_arguments t)"
    and "\<exists>n. snd (tool_delta off t) = t\<lparr>tc_emitted_len := n\<rparr>"
proof -
  from assms obtain q where q: "tc_arguments t = j @ q" "str_len j = tc_emitted_len t" by blast
  then have "str_len (tc_arguments t) \<le> tc_emitted_len t \<longleftrightarrow> q = []" by (metis add_le_same_cancel1 le_zero_eq str_len_append str_len_eq_0)
  moreover have "drop_bytes (tc_emitted_len t) (tc_arguments t) = q" using q drop_bytes_append by metis
  ultimately show "j @ json_at (block_index off t) (fst (tool_delta off t)) = tc_arguments t"
    "i \<noteq> block_index off t \<Longrightarrow> json_at i (fst (tool_delta off t)) = []"
    "tc_emitted_len (snd (tool_delta off t)) = str_len (tc_arguments t)"
    using q by (auto simp: tool_delta_def delta_event_def opt_list_def json_at_def)
  show "\<exists>n. snd (tool_delta off t) = t\<lparr>tc_emitted_len := n\<rparr>"
    by (cases t) (auto simp: tool_delta_def delta_event_def)
qed

definition same_tool :: "ToolCallState \<Rightarrow> ToolCallState \<Rightarrow> bool" where
  "same_tool t t' \<longleftrightarrow> tc_openai_index t' = tc_openai_index t \<and> tc_arguments t' = tc_arguments t \<and> tc_name t' = tc_name t
     \<and> (tc_started t' \<longrightarrow> tc_started t \<or> tc_name t \<noteq> None)"

text \<open>A step on an entry either leaves it alone, or opens the block if need be, sends what is missing, and
  perhaps closes the block.\<close>

definition opened :: "u32 \<Rightarrow> ToolCallState \<Rightarrow> StreamEvent list \<times> ToolCallState \<Rightarrow> bool" where
  "opened off t r \<longleftrightarrow> (\<exists>pre post b. (\<forall>i. json_at i pre = [] \<and> json_at i post = [])
     \<and> (tc_started t \<or> tc_name t \<noteq> None)
     \<and> fst r = pre @ fst (tool_delta off (t\<lparr>tc_started := True\<rparr>)) @ post
     \<and> snd r = (snd (tool_delta off (t\<lparr>tc_started := True\<rparr>)))\<lparr>tc_stopped := b\<rparr>)"

lemma opened_sent:
  assumes "opened off t r" and "\<exists>q. tc_arguments t = j @ q \<and> str_len j = tc_emitted_len t"
  shows "sent (snd r) (j @ json_at (block_index off t) (fst r))"
    and "i \<noteq> block_index off t \<Longrightarrow> json_at i (fst r) = []"
    and "same_tool t (snd r)"
proof -
  let ?T = "t\<lparr>tc_started := True\<rparr>"
  have q: "\<exists>q. tc_arguments ?T = j @ q \<and> str_len j = tc_emitted_len ?T" using assms(2) by simp
  have b: "block_index off ?T = block_index off t" by (simp add: block_index_def)
  note d = tool_delta_sent [OF q, where off = off, unfolded b]
  from d(4) obtain n where n: "snd (tool_delta off ?T) = ?T\<lparr>tc_emitted_len := n\<rparr>" by blast
  with d(3) have "n = str_len (tc_arguments t)" by simp
  moreover have "str_len j + str_len (json_at (block_index off t) (fst (tool_delta off ?T))) = str_len (tc_arguments t)"
    using arg_cong [OF d(1), of str_len] by simp
  ultimately show "sent (snd r) (j @ json_at (block_index off t) (fst r))"
    "i \<noteq> block_index off t \<Longrightarrow> json_at i (fst r) = []" "same_tool t (snd r)"
    using n d(1,2) assms(1) by (auto simp: opened_def sent_def same_tool_def)
qed

lemma tool_entry_opened: "tool_entry_step fin off t = ([], t) \<and> \<not> tc_started t \<or> opened off t (tool_entry_step fin off t)"
proof -
  have e: "t\<lparr>tc_started := True\<rparr> = t" if "tc_started t" using that by (cases t) simp
  have s: "\<exists>b. snd (tool_stop fin off t') = t'\<lparr>tc_stopped := b\<rparr>" for t' by (cases t') (auto simp: tool_stop_def)
  have j: "json_at i (fst (tool_stop fin off t')) = []" for i t' by (simp add: tool_stop_def json_at_def)
  have n: "json_at i [ContentBlockStart x y] = []" for i x y by (simp add: json_at_def)
  show ?thesis
  proof (cases "tool_started off t")
    case None
    then show ?thesis by (auto simp: tool_entry_step_def tool_started_def split: if_splits)
  next
    case (Some r)
    then obtain pre where p: "r = (pre, t\<lparr>tc_started := True\<rparr>)" "\<forall>i. json_at i pre = []" "tc_started t \<or> tc_name t \<noteq> None"
      using e n by (auto simp: tool_started_def start_event_def split: if_splits option.splits)
    let ?t = "snd (tool_delta off (t\<lparr>tc_started := True\<rparr>))"
    have "fst (tool_entry_step fin off t) = pre @ fst (tool_delta off (t\<lparr>tc_started := True\<rparr>)) @ fst (tool_stop fin off ?t)"
      "snd (tool_entry_step fin off t) = snd (tool_stop fin off ?t)"
      using Some p(1) by (simp_all add: tool_entry_step_def emit_simps split_beta)
    with p(2,3) s [of ?t] j show ?thesis unfolding opened_def by metis
  qed
qed

lemma tool_entry_sent:
  assumes "\<exists>q. tc_arguments t = j @ q \<and> str_len j = tc_emitted_len t" and "tc_started t \<or> j = []"
  shows "sent (snd (tool_entry_step fin off t)) (j @ json_at (block_index off t) (fst (tool_entry_step fin off t)))"
    and "i \<noteq> block_index off t \<Longrightarrow> json_at i (fst (tool_entry_step fin off t)) = []"
    and "same_tool t (snd (tool_entry_step fin off t))"
  using tool_entry_opened [of fin off t] opened_sent [OF _ assms(1), of off "tool_entry_step fin off t"] assms
  by (auto simp: sent_def same_tool_def str_len_def)

lemma received_snoc:
  "received k (ds @ [d]) = received k ds @ (if dt_index d = k then unwrap_or [] (df_arguments (dt_function d)) else [])"
  by (simp add: received_def)

lemma named_snoc: "named k (ds @ [d]) \<longleftrightarrow> named k ds \<or> dt_index d = k \<and> df_name (dt_function d) \<noteq> None"
  by (auto simp: named_def)

lemma offset_tool_calls: "tool_index_offset (st\<lparr>st_tool_calls := m\<rparr>) = tool_index_offset st"
  by (simp add: tool_index_offset_def)

lemma tool_entry_tools:
  assumes "tools_inv ds es st"
  shows "tools_inv (ds @ [d]) (es @ fst (ingest_tool_entry fin d st)) (snd (ingest_tool_entry fin d st))"
proof -
  let ?m = "st_tool_calls st" and ?off = "tool_index_offset st" and ?k = "dt_index d"
  let ?old = "unwrap_or ToolCallState_default (btree_get ?m ?k)"
  let ?t = "ToolCallState_apply d ?old"
  let ?r = "tool_entry_step fin ?off ?t"
  let ?j = "json_at (?k + ?off) es"
  have w: "btree_wf ?m" using assms by (simp add: tools_inv_def)
  have r: "ingest_tool_entry fin d st = (fst ?r, st\<lparr>st_tool_calls := btree_insert ?k (snd ?r) ?m\<rparr>)"
    by (simp add: ingest_tool_entry_def Let_def split_beta)
  have b: "block_index ?off ?t = ?k + ?off" by (simp add: block_index_def ToolCallState_apply_def)
  have "tool_ok ds ?k ?j (btree_get ?m ?k)" using assms by (simp add: tools_inv_def)
  then have t0: "tc_arguments ?old = received ?k ds" "tc_name ?old \<noteq> None \<longleftrightarrow> named ?k ds" "sent ?old ?j"
    "tc_started ?old \<longrightarrow> tc_name ?old \<noteq> None"
    by (auto simp: tool_ok_def unwrap_or_def ToolCallState_default_def sent_def str_len_def split: option.splits)
  have t: "tc_openai_index ?t = ?k" "tc_arguments ?t = received ?k (ds @ [d])" "tc_name ?t \<noteq> None \<longleftrightarrow> named ?k (ds @ [d])"
    "tc_started ?t = tc_started ?old" "tc_emitted_len ?t = tc_emitted_len ?old"
    using t0 by (auto simp: ToolCallState_apply_def received_snoc named_snoc or_keep_def split: option.split)
  have "\<exists>q. tc_arguments ?t = ?j @ q \<and> str_len ?j = tc_emitted_len ?t" "tc_started ?t \<or> ?j = []"
    using t0(1,3) t by (auto simp: sent_def received_snoc split: if_splits)
  note s = tool_entry_sent [OF this, where fin = fin and off = ?off, unfolded b]
  have "tool_ok (ds @ [d]) ?k (?j @ json_at (?k + ?off) (fst ?r)) (Some (snd ?r))"
    using s(1,3) t t0(2,4) by (auto simp: tool_ok_def same_tool_def named_snoc)
  moreover have "tool_ok (ds @ [d]) k (json_at (k + ?off) es @ json_at (k + ?off) (fst ?r)) (btree_get ?m k)" if "k \<noteq> ?k" for k
  proof -
    have "tool_ok ds k (json_at (k + ?off) es) (btree_get ?m k)" using assms by (simp add: tools_inv_def)
    then show ?thesis using that s(2) [of "k + ?off"]
      by (auto simp: tool_ok_def received_snoc named_snoc split: option.splits)
  qed
  ultimately show ?thesis
    by (simp add: tools_inv_def r w btree_get_insert [OF w] offset_tool_calls)
qed

text \<open>Steps that have nothing to do with tool calls.\<close>

definition quiet :: "(StreamState \<Rightarrow> StreamEvent list \<times> StreamState) \<Rightarrow> StreamState \<Rightarrow> bool" where
  "quiet f st \<longleftrightarrow> (\<forall>i. json_at i (fst (f st)) = []) \<and> st_tool_calls (snd (f st)) = st_tool_calls st
     \<and> (st_thinking_started (snd (f st)) = st_thinking_started st \<or> st_tool_calls st = [])"

lemma quiet_tools: "quiet f st \<Longrightarrow> tools_inv ds es st \<Longrightarrow> tools_inv ds (es @ fst (f st)) (snd (f st))"
proof -
  assume q: "quiet f st" and t: "tools_inv ds es st"
  have "json_at i es = []" if "st_tool_calls st = []" for i
  proof -
    have "tool_ok ds (i - tool_index_offset st) (json_at i es) None" using t that unfolding tools_inv_def
      by (metis btree_get_Nil diff_add_cancel)
    then show ?thesis by (simp add: tool_ok_def)
  qed
  with q t show "tools_inv ds (es @ fst (f st)) (snd (f st))"
    by (auto simp: tools_inv_def quiet_def tool_index_offset_def)
qed

lemma quiet_steps:
  "quiet close_thinking st" "quiet (ingest_start ck) st" "quiet (ingest_usage ck) st" "quiet (ingest_text t) st"
  "quiet finish_text st" "quiet finish_message st"
  by (auto simp: quiet_def json_at_def close_thinking_def ingest_start_def ingest_usage_def ingest_text_def
      finish_text_def finish_message_def split: option.split)

lemma map_entries_json:
  assumes "\<And>k t i. (k, t) \<in> set m \<Longrightarrow> i \<noteq> k + off \<Longrightarrow> json_at i (fst (g t)) = []" and "distinct (map fst m)"
  shows "json_at (k + off) (fst (map_entries g m)) = (case btree_get m k of Some t \<Rightarrow> json_at (k + off) (fst (g t)) | None \<Rightarrow> [])"
  using assms
proof (induction m)
  case Nil
  then show ?case by simp
next
  case (Cons kt m)
  obtain k' t where kt: "kt = (k', t)" by (cases kt)
  have IH: "json_at (k + off) (fst (map_entries g m)) = (case btree_get m k of Some t \<Rightarrow> json_at (k + off) (fst (g t)) | None \<Rightarrow> [])"
    using Cons.prems by (intro Cons.IH) auto
  have "btree_get m k' = None" using Cons.prems(2) kt by (auto simp: btree_get_def map_of_eq_None_iff)
  then show ?case using IH Cons.prems(1) [of k' t "k + off"] kt
    by (auto simp: split_beta btree_get_def)
qed

lemma map_entries_tools:
  assumes "tools_inv ds es st"
    and "\<And>t i. i \<noteq> block_index (tool_index_offset st) t \<Longrightarrow> json_at i (fst (g t)) = []"
    and "\<And>t j. sent t j \<Longrightarrow> sent (snd (g t)) (j @ json_at (block_index (tool_index_offset st) t) (fst (g t)))"
    and "\<And>t. same_tool t (snd (g t))"
  shows "tools_inv ds (es @ fst (map_entries g (st_tool_calls st))) (st\<lparr>st_tool_calls := snd (map_entries g (st_tool_calls st))\<rparr>)"
proof -
  let ?m = "st_tool_calls st" and ?off = "tool_index_offset st"
  have d: "distinct (map fst ?m)" using assms(1) by (simp add: tools_inv_def btree_wf_def strict_sorted_iff)
  have g: "btree_get ?m k = Some t" if "(k, t) \<in> set ?m" for k t using that d by (simp add: btree_get_def)
  have ok: "tool_ok ds k (json_at (k + ?off) es) (btree_get ?m k)" for k using assms(1) by (simp add: tools_inv_def)
  have x: "tc_openai_index t = k" if "btree_get ?m k = Some t" for k t
    using ok [of k] that by (simp add: tool_ok_def)
  have "json_at i (fst (g t)) = []" if "(k, t) \<in> set ?m" "i \<noteq> k + ?off" for k t i
    using assms(2) [of i t] x [OF g [OF that(1)]] that(2) by (simp add: block_index_def)
  note j = map_entries_json [OF this d]
  have "tool_ok ds k (json_at (k + ?off) es @ json_at (k + ?off) (fst (map_entries g ?m))) (btree_get (snd (map_entries g ?m)) k)" for k
  proof (cases "btree_get ?m k")
    case None
    then show ?thesis using ok [of k] by (simp add: j map_entries_get)
  next
    case (Some t)
    then show ?thesis using ok [of k] assms(3) [of t "json_at (k + ?off) es"] assms(4) [of t] x [OF Some]
      by (auto simp: j map_entries_get tool_ok_def block_index_def same_tool_def)
  qed
  moreover have "btree_wf (snd (map_entries g ?m))" using assms(1) by (simp add: tools_inv_def btree_wf_def map_entries_keys)
  ultimately show ?thesis by (simp add: tools_inv_def offset_tool_calls)
qed


text \<open>The block of a call is opened under a name that a delta of the call carried.\<close>

definition offered :: "u32 \<Rightarrow> DeltaToolCall list \<Rightarrow> ustr \<Rightarrow> bool" where
  "offered k ds n \<longleftrightarrow> (\<exists>d \<in> set ds. dt_index d = k \<and> df_name (dt_function d) = Some n)"

definition starts_as :: "DeltaToolCall list \<Rightarrow> StreamEvent list \<Rightarrow> u32 \<Rightarrow> u32 \<Rightarrow> bool" where
  "starts_as ds es off k \<longleftrightarrow> (\<exists>i n. offered k ds n \<and> ContentBlockStart (k + off) (OutToolUse i n (Object [])) \<in> set es)"

definition entry_named :: "DeltaToolCall list \<Rightarrow> StreamEvent list \<Rightarrow> u32 \<Rightarrow> u32 \<Rightarrow> ToolCallState \<Rightarrow> bool" where
  "entry_named ds es off k t \<longleftrightarrow> (\<forall>n. tc_name t = Some n \<longrightarrow> offered k ds n) \<and> (tc_started t \<longrightarrow> starts_as ds es off k)"

definition starts_inv :: "DeltaToolCall list \<Rightarrow> StreamEvent list \<Rightarrow> StreamState \<Rightarrow> bool" where
  "starts_inv ds es st \<longleftrightarrow>
     (\<forall>k t. btree_get (st_tool_calls st) k = Some t \<longrightarrow> entry_named ds es (tool_index_offset st) k t)"

lemma entry_named_mono:
  "entry_named ds es off k t \<Longrightarrow> set ds \<subseteq> set ds' \<Longrightarrow> set es \<subseteq> set es' \<Longrightarrow> entry_named ds' es' off k t"
  unfolding entry_named_def starts_as_def offered_def by blast

lemma entry_named_append: "entry_named ds es off k t \<Longrightarrow> entry_named ds (es @ es') off k t"
  by (rule entry_named_mono) auto

lemma tool_entry_named:
  "tc_openai_index t = k \<Longrightarrow> entry_named ds es off k t
    \<Longrightarrow> entry_named ds (es @ fst (tool_entry_step fin off t)) off k (snd (tool_entry_step fin off t))"
  by (auto simp: entry_named_def starts_as_def tool_entry_step_def tool_started_def start_event_def emit_simps tool_delta_def
      delta_event_def tool_stop_def block_index_def split_beta split: option.splits if_splits)

lemma stop_event_named: "entry_named ds es off k t \<Longrightarrow> entry_named ds es off k (snd (stop_event off' t))"
  by (simp add: entry_named_def stop_event_def)

lemma finish_tool_named:
  "tc_openai_index t = k \<Longrightarrow> entry_named ds es off k t
    \<Longrightarrow> entry_named ds (es @ fst (finish_tool off t)) off k (snd (finish_tool off t))"
  by (auto simp: entry_named_def starts_as_def finish_tool_def start_event_def emit_simps tool_delta_def
      delta_event_def stop_event_def block_index_def split: option.splits if_splits)

lemma tool_entry_starts:
  assumes "starts_inv ds es st" and "btree_wf (st_tool_calls st)"
  shows "starts_inv (ds @ [d]) (es @ fst (ingest_tool_entry fin d st)) (snd (ingest_tool_entry fin d st))"
proof -
  let ?off = "tool_index_offset st" and ?k = "dt_index d"
  let ?old = "unwrap_or ToolCallState_default (btree_get (st_tool_calls st) ?k)"
  have "entry_named ds es ?off ?k ?old" using assms(1)
    by (auto simp: starts_inv_def unwrap_or_def entry_named_def ToolCallState_default_def split: option.split)
  then have "entry_named (ds @ [d]) es ?off ?k (ToolCallState_apply d ?old)"
    by (auto simp: entry_named_def starts_as_def offered_def ToolCallState_apply_def or_keep_def split: option.splits)
  from tool_entry_named [OF _ this, of fin]
  have new: "entry_named (ds @ [d]) (es @ fst (tool_entry_step fin ?off (ToolCallState_apply d ?old))) ?off ?k
      (snd (tool_entry_step fin ?off (ToolCallState_apply d ?old)))" by (simp add: ToolCallState_apply_def)
  have old: "entry_named (ds @ [d]) (es @ es') ?off k t" if "btree_get (st_tool_calls st) k = Some t" for k t es'
    using assms(1) that unfolding starts_inv_def by (metis Un_upper1 entry_named_mono set_append)
  show ?thesis using new old
    by (simp add: starts_inv_def ingest_tool_entry_def Let_def split_beta btree_get_insert [OF assms(2)] offset_tool_calls)
qed

lemma map_entries_emits: "btree_get m k = Some t \<Longrightarrow> set (fst (g t)) \<subseteq> set (fst (map_entries g m))"
  by (induction m) (auto simp: btree_get_def split_beta split: if_splits)

lemma map_entries_starts:
  assumes "starts_inv ds es st"
    and "\<And>k t. btree_get (st_tool_calls st) k = Some t \<Longrightarrow> entry_named ds es (tool_index_offset st) k t
      \<Longrightarrow> entry_named ds (es @ fst (g t)) (tool_index_offset st) k (snd (g t))"
  shows "starts_inv ds (es @ fst (map_entries g (st_tool_calls st))) (st\<lparr>st_tool_calls := snd (map_entries g (st_tool_calls st))\<rparr>)"
  using assms map_entries_emits [of "st_tool_calls st" _ _ g]
  by (fastforce simp: starts_inv_def offset_tool_calls map_entries_get intro: entry_named_mono)

text \<open>A step after which the invariant holds for the deltas received so far and those of the step;
  \<open>ans\<close> as in \<open>orderly\<close>: no tool call is known before the answer has begun.\<close>

definition delivers_tools :: "bool \<Rightarrow> DeltaToolCall list \<Rightarrow> StreamEvent list \<Rightarrow> StreamState \<Rightarrow> bool" where
  "delivers_tools ans ds es st \<longleftrightarrow> tools_inv ds es st \<and> starts_inv ds es st \<and> (ans \<or> st_tool_calls st = [])"

lemma quiet_starts: "quiet f st \<Longrightarrow> starts_inv ds es st \<Longrightarrow> starts_inv ds (es @ fst (f st)) (snd (f st))"
  by (auto simp: quiet_def starts_inv_def tool_index_offset_def intro: entry_named_append)

lemma quiet_delivers:
  "quiet f st \<Longrightarrow> delivers_tools ans ds es st \<Longrightarrow> delivers_tools ans ds (es @ fst (f st)) (snd (f st))"
  using quiet_tools quiet_starts by (auto simp: delivers_tools_def quiet_def)

lemma tool_calls_delivers:
  "delivers_tools ans ds es st
    \<Longrightarrow> delivers_tools (ans \<or> ts \<noteq> []) (ds @ ts) (es @ fst (emit_all (ingest_tool_call fin) ts st)) (snd (emit_all (ingest_tool_call fin) ts st))"
proof (induction ts arbitrary: ans ds es st)
  case Nil
  then show ?case by simp
next
  case (Cons d ts)
  from quiet_delivers [OF quiet_steps(1) Cons.prems]
  have t: "tools_inv ds (es @ fst (close_thinking st)) (snd (close_thinking st))"
    "starts_inv ds (es @ fst (close_thinking st)) (snd (close_thinking st))" by (simp_all add: delivers_tools_def)
  then have "btree_wf (st_tool_calls (snd (close_thinking st)))" by (simp add: tools_inv_def)
  from tool_entry_tools [OF t(1), of d fin] tool_entry_starts [OF t(2) this, of d fin]
  have "delivers_tools True (ds @ [d]) (es @ fst (ingest_tool_call fin d st)) (snd (ingest_tool_call fin d st))"
    by (simp add: delivers_tools_def ingest_tool_call_def emit_simps)
  from Cons.IH [OF this] show ?case by (simp add: emit_simps)
qed

lemma map_entries_Nil_iff: "snd (map_entries g m) = [] \<longleftrightarrow> m = []"
  by (cases m) (auto simp: split_beta)

lemma finish_reason_delivers:
  assumes "delivers_tools ans ds es st"
  shows "delivers_tools ans ds (es @ fst (ingest_finish_reason c st)) (snd (ingest_finish_reason c st))"
proof -
  have u: "delivers_tools ans ds es (st\<lparr>st_stop_reason := r\<rparr>)" for r
    using assms by (simp add: delivers_tools_def tools_inv_def starts_inv_def tool_index_offset_def)
  have s: "starts_inv ds (es @ fst (map_entries (stop_event (tool_index_offset st)) (st_tool_calls st)))
      (st\<lparr>st_stop_reason := r, st_tool_calls := snd (map_entries (stop_event (tool_index_offset st)) (st_tool_calls st))\<rparr>)" for r
    using map_entries_starts [of ds es "st\<lparr>st_stop_reason := r\<rparr>" "stop_event (tool_index_offset st)"] u [of r]
    by (auto simp: delivers_tools_def intro: stop_event_named entry_named_append)
  have "json_at i (fst (stop_event off t)) = []" "same_tool t (snd (stop_event off t))"
    "sent t j \<Longrightarrow> sent (snd (stop_event off t)) j" for off t i j
    by (simp_all add: stop_event_def json_at_def same_tool_def sent_def)
  from map_entries_tools [of ds es "st\<lparr>st_stop_reason := _\<rparr>" "stop_event (tool_index_offset st)"] this u assms s
  show ?thesis
    by (auto simp: ingest_finish_reason_def delivers_tools_def Let_def split_beta map_entries_Nil_iff tool_index_offset_def
        split: option.split)
qed

lemma choice_delivers:
  assumes "delivers_tools ans ds es st" and "choice_reasoning c = [] \<or> \<not> ans"
  shows "delivers_tools (ans \<or> choice_text c \<noteq> [] \<or> choice_tools c \<noteq> []) (ds @ choice_tools c)
    (es @ fst (ingest_choice c st)) (snd (ingest_choice c st))"
proof -
  have "quiet (ingest_reasoning c) st" using assms
    by (auto simp: quiet_def ingest_reasoning_def json_at_def choice_reasoning_def delivers_tools_def unwrap_or_def split: option.split)
  note 1 = quiet_delivers [OF this assms(1)]
  have "delivers_tools ans ds (es @ fst (ingest_content c st)) (snd (ingest_content c st))" if "delivers_tools ans ds es st" for es st
  proof (cases "cd_content (cc_delta c)")
    case None
    then show ?thesis using that by (simp add: ingest_content_def)
  next
    case (Some t)
    then show ?thesis using that quiet_delivers [OF quiet_steps(4) quiet_delivers [OF quiet_steps(1) that], of t]
      by (simp add: ingest_content_def emit_simps)
  qed
  note 2 = this [OF 1]
  then show ?thesis using finish_reason_delivers [OF tool_calls_delivers [OF 2, where ts = "choice_tools c"], where c = c]
    by (auto simp: ingest_choice_def emit_simps choice_tools_def delivers_tools_def)
qed

lemma choices_delivers:
  "delivers_tools ans ds es st \<Longrightarrow> orderly ans fin (cs @ cs')
    \<Longrightarrow> \<exists>ans' fin'. orderly ans' fin' cs' \<and> delivers_tools ans' (ds @ concat (map choice_tools cs))
      (es @ fst (emit_all ingest_choice cs st)) (snd (emit_all ingest_choice cs st))"
proof (induction cs arbitrary: ans fin ds es st)
  case Nil
  then show ?case by auto
next
  case (Cons c cs)
  from choice_delivers [OF Cons.prems(1), of c] Cons.prems(2)
  have "delivers_tools (ans \<or> choice_text c \<noteq> [] \<or> choice_tools c \<noteq> []) (ds @ choice_tools c)
    (es @ fst (ingest_choice c st)) (snd (ingest_choice c st))" by simp
  from Cons.IH [OF this, of "fin \<or> finishes_tools c"] Cons.prems(2) show ?case by (simp add: emit_simps)
qed

lemma chunks_delivers:
  "delivers_tools ans ds es st \<Longrightarrow> orderly ans fin (concat (map ck_choices cks))
    \<Longrightarrow> \<exists>ans'. delivers_tools ans' (ds @ concat (map choice_tools (concat (map ck_choices cks))))
      (es @ fst (emit_all ingest_chunk cks st)) (snd (emit_all ingest_chunk cks st))"
proof (induction cks arbitrary: ans fin ds es st)
  case Nil
  then show ?case by auto
next
  case (Cons ck cks)
  note 1 = quiet_delivers [OF quiet_steps(3) quiet_delivers [OF quiet_steps(2) Cons.prems(1)]]
  from choices_delivers [OF 1] Cons.prems(2) obtain ans' fin' where
    "orderly ans' fin' (concat (map ck_choices cks))"
    "delivers_tools ans' (ds @ concat (map choice_tools (ck_choices ck))) (es @ fst (ingest_chunk ck st)) (snd (ingest_chunk ck st))"
    by (fastforce simp: ingest_chunk_def emit_simps)
  from Cons.IH [OF this(2,1)] show ?case by (simp add: emit_simps)
qed


lemma finish_tool_opened:
  "finish_tool off t = stop_event off t \<and> (tc_started t \<or> tc_name t = None) \<or> opened off t (finish_tool off t) \<and> tc_name t \<noteq> None"
proof (cases "\<not> tc_started t \<and> tc_name t \<noteq> None")
  case True
  then obtain ev where ev: "start_event off t = Some ev" "\<forall>i. json_at i [ev] = []"
    by (auto simp: start_event_def json_at_def)
  let ?t = "snd (tool_delta off (t\<lparr>tc_started := True\<rparr>))"
  have "fst (finish_tool off t) = [ev] @ fst (tool_delta off (t\<lparr>tc_started := True\<rparr>)) @ fst (stop_event off ?t)"
    "snd (finish_tool off t) = snd (stop_event off ?t)"
    using True ev(1) by (simp_all add: finish_tool_def emit_simps)
  moreover have "json_at i (fst (stop_event off ?t)) = []" for i by (simp add: stop_event_def json_at_def)
  moreover have "\<exists>b. snd (stop_event off t') = t'\<lparr>tc_stopped := b\<rparr>" for t' by (cases t') (auto simp: stop_event_def)
  ultimately have "opened off t (finish_tool off t)" unfolding opened_def using ev(2) True by metis
  then show ?thesis using True by blast
next
  case False
  then show ?thesis by (auto simp: finish_tool_def emit_simps start_event_def prod_eq_iff)
qed

lemma finish_tool_sent:
  assumes "sent t j"
  shows "sent (snd (finish_tool off t)) (j @ json_at (block_index off t) (fst (finish_tool off t)))"
    and "i \<noteq> block_index off t \<Longrightarrow> json_at i (fst (finish_tool off t)) = []"
    and "same_tool t (snd (finish_tool off t))"
    and "tc_name t \<noteq> None \<Longrightarrow> tc_started (snd (finish_tool off t))"
proof -
  have q: "\<exists>q. tc_arguments t = j @ q \<and> str_len j = tc_emitted_len t" using assms by (auto simp: sent_def split: if_splits)
  have o: "tc_started (snd (finish_tool off t))" if "opened off t (finish_tool off t)"
    using that tool_delta_sent(4) [of "t\<lparr>tc_started := True\<rparr>" j off] q by (auto simp: opened_def)
  have s: "json_at i (fst (stop_event off t)) = []" "same_tool t (snd (stop_event off t))" "sent (snd (stop_event off t)) j"
    "tc_started (snd (stop_event off t)) = tc_started t" for i
    using assms by (simp_all add: stop_event_def json_at_def same_tool_def sent_def)
  show "sent (snd (finish_tool off t)) (j @ json_at (block_index off t) (fst (finish_tool off t)))"
    "i \<noteq> block_index off t \<Longrightarrow> json_at i (fst (finish_tool off t)) = []"
    "same_tool t (snd (finish_tool off t))"
    "tc_name t \<noteq> None \<Longrightarrow> tc_started (snd (finish_tool off t))"
    using finish_tool_opened [of off t] opened_sent [OF _ q, of off "finish_tool off t"] s o by auto
qed


lemma finish_delivers:
  assumes "delivers_tools ans ds es st" and "\<not> st_finished st" and "named k ds"
  shows "json_at (k + tool_index_offset st) (es @ fst (StreamState_finish st)) = received k ds"
    and "starts_as ds (es @ fst (StreamState_finish st)) (tool_index_offset st) k"
proof -
  let ?s0 = "st\<lparr>st_finished := True\<rparr>"
  let ?s1 = "snd (close_thinking ?s0)"
  let ?s2 = "snd (finish_text ?s1)" and ?es = "es @ fst (close_thinking ?s0) @ fst (finish_text ?s1)"
  let ?off = "tool_index_offset ?s2"
  let ?g = "finish_tool ?off" and ?m = "st_tool_calls ?s2"
  have off: "?off = tool_index_offset st"
    by (simp add: tool_index_offset_def finish_text_def close_thinking_def)
  have "delivers_tools ans ds es ?s0" using assms(1) by (simp add: delivers_tools_def tools_inv_def starts_inv_def tool_index_offset_def)
  from quiet_delivers [OF quiet_steps(5) quiet_delivers [OF quiet_steps(1) this]]
  have t: "tools_inv ds ?es ?s2" and s: "starts_inv ds ?es ?s2" by (simp_all add: delivers_tools_def)
  from t obtain e where e: "btree_get ?m k = Some e" "tc_name e \<noteq> None" "sent e (json_at (k + ?off) ?es)"
    "tc_openai_index e = k" "tc_arguments e = received k ds"
    using assms(3) unfolding tools_inv_def by (auto simp: tool_ok_def dest!: spec [of _ k] split: option.splits)
  have d: "distinct (map fst ?m)" using t by (simp add: tools_inv_def btree_wf_def strict_sorted_iff)
  have "json_at i (fst (?g a)) = []" if "(k', a) \<in> set ?m" "i \<noteq> k' + ?off" for k' a i
  proof -
    have "btree_get ?m k' = Some a" using that(1) d by (simp add: btree_get_def)
    then have "tc_openai_index a = k'" "sent a (json_at (k' + ?off) ?es)"
      using t by (auto simp: tools_inv_def tool_ok_def dest: spec [of _ k'])
    then show ?thesis using finish_tool_sent(2) [of a _ i ?off] that(2) by (simp add: block_index_def)
  qed
  from map_entries_json [of ?m ?off ?g, OF this d]
  have j: "json_at (k + ?off) (fst (finish_tools ?s2)) = json_at (k + ?off) (fst (?g e))"
    using e(1) by (simp add: finish_tools_def split_beta)
  have "json_at (k + ?off) (?es @ fst (finish_tools ?s2)) = received k ds"
    using finish_tool_sent [OF e(3), of ?off] e(2,4,5) j by (simp add: sent_def same_tool_def block_index_def)
  moreover have "json_at (k + ?off) (fst (finish_message s)) = []" for s by (auto simp: finish_message_def json_at_def)
  ultimately show "json_at (k + tool_index_offset st) (es @ fst (StreamState_finish st)) = received k ds"
    using assms(2) off by (simp add: StreamState_finish_def emit_simps)
  have "entry_named ds (?es @ fst (?g e)) ?off k (snd (?g e))"
    using s e(1,4) by (intro finish_tool_named) (auto simp: starts_inv_def)
  then have "starts_as ds (?es @ fst (?g e)) ?off k" using finish_tool_sent(4) [OF e(3,2)] by (simp add: entry_named_def)
  moreover have "set (fst (?g e)) \<subseteq> set (fst (finish_tools ?s2))"
    using map_entries_emits [OF e(1)] by (simp add: finish_tools_def split_beta)
  ultimately show "starts_as ds (es @ fst (StreamState_finish st)) (tool_index_offset st) k"
    using assms(2) off by (auto simp: starts_as_def StreamState_finish_def emit_simps)
qed

lemma stream_arguments:
  assumes "orderly False False (concat (map ck_choices cks))"
    and "named k (concat (map choice_tools (concat (map ck_choices cks))))"
  shows "json_at (k + tool_index_offset (snd (emit_all ingest_chunk cks (StreamState_new model)))) (stream_events model cks)
    = received k (concat (map choice_tools (concat (map ck_choices cks))))"
    and "starts_as (concat (map choice_tools (concat (map ck_choices cks)))) (stream_events model cks)
      (tool_index_offset (snd (emit_all ingest_chunk cks (StreamState_new model)))) k"
proof -
  have "delivers_tools False [] [] (StreamState_new model)"
    by (simp add: delivers_tools_def tools_inv_def starts_inv_def StreamState_new_def tool_ok_def received_def named_def)
  from chunks_delivers [OF this assms(1)] obtain ans where
    "delivers_tools ans (concat (map choice_tools (concat (map ck_choices cks))))
       (fst (emit_all ingest_chunk cks (StreamState_new model))) (snd (emit_all ingest_chunk cks (StreamState_new model)))"
    by auto
  note finish_delivers [OF this _ assms(2)]
  then show "json_at (k + tool_index_offset (snd (emit_all ingest_chunk cks (StreamState_new model)))) (stream_events model cks)
    = received k (concat (map choice_tools (concat (map ck_choices cks))))"
    "starts_as (concat (map choice_tools (concat (map ck_choices cks)))) (stream_events model cks)
      (tool_index_offset (snd (emit_all ingest_chunk cks (StreamState_new model)))) k"
    by (simp_all add: stream_events_def emit_simps unfinished_chunks StreamState_new_def)
qed

text \<open>If reasoning comes before the answer, the arguments of every tool call whose name the server has sent
  reach the block of that call complete and in order, however they were split over the chunks, and the block is
  opened under a name the server sent for it.\<close>

theorem tool_arguments_arrive:
  assumes "orderly False False (concat (map ck_choices cks))"
    and "named k (concat (map choice_tools (concat (map ck_choices cks))))"
  shows "json_at (k + tool_index_offset (snd (emit_all ingest_chunk cks (StreamState_new model)))) (stream_events model cks)
      = received k (concat (map choice_tools (concat (map ck_choices cks))))
    \<and> starts_as (concat (map choice_tools (concat (map ck_choices cks)))) (stream_events model cks)
      (tool_index_offset (snd (emit_all ingest_chunk cks (StreamState_new model)))) k"
  using stream_arguments [OF assms] by blast

theorem tool_arguments_arrive_witness:
  "json_at 2 (stream_events (lit ''m'') sample_stream) = lit ''{}''"
proof -
  let ?ds = "concat (map choice_tools (concat (map ck_choices sample_stream)))"
  have "?ds = [sample_call (Some (lit ''ls'')) (lit ''{''), sample_call None (lit ''}'')]"
    by (simp add: sample_stream_def sample_chunk_def sample_choice_def choice_tools_def)
  then have "named 0 ?ds" "received 0 ?ds = lit ''{}''" 
    by (simp_all add: named_def received_def sample_call_def unwrap_or_def lit_def)
  moreover have "tool_index_offset (snd (emit_all ingest_chunk sample_stream (StreamState_new (lit ''m'')))) = 2"
    by code_simp
  ultimately show ?thesis using tool_arguments_arrive [OF sample_stream_orderly, of 0 "lit ''m''"] by simp
qed

end
