(* ===== verification/Provider_Client.thy ===== *)
theory Provider_Client
  imports Conversation Anthropic_Client Openai_Arguments
begin

text \<open>
  Between the conversation and the provider clients, \<^verbatim>\<open>tools/src/lib.rs\<close>: \<^verbatim>\<open>convert_messages\<close> turns a transcript into the messages
  of a request, \<^verbatim>\<open>stream_with_provider\<close> turns the events of a reply into those the conversation reads, and
  \<^verbatim>\<open>ProviderRuntimeClient::stream\<close> goes through a chain of providers. The properties compose the client theories with the
  conversation: what a server streams is what the transcript records, and a complete transcript is sent unchanged.
\<close>

section \<open>Definitions\<close>

subsection \<open>Requests\<close>

definition convert_role :: "MessageRole \<Rightarrow> ustr" where
  "convert_role r = (case r of System \<Rightarrow> lit ''user'' | User \<Rightarrow> lit ''user'' | Tool \<Rightarrow> lit ''user'' | Assistant \<Rightarrow> lit ''assistant'')"

fun convert_block :: "from_str_fn \<Rightarrow> ContentBlock \<Rightarrow> InputContentBlock" where
  "convert_block fs (Text t) = InText t"
| "convert_block fs (Thinking t s) = InThinking t s"
| "convert_block fs (ToolUse i name input) = InToolUse i name (parse_tool_arguments fs input)"
| "convert_block fs (ToolResult i name out is_error) = InToolResult i [ResText out] is_error"

definition convert_message :: "from_str_fn \<Rightarrow> ConversationMessage \<Rightarrow> InputMessage option" where
  "convert_message fs m =
     (let content = filter (\<lambda>b. b \<noteq> InText []) (map (convert_block fs) (blocks m))
      in if content = [] then None else Some \<lparr>in_role = convert_role (role m), in_content = content\<rparr>)"

definition convert_messages :: "from_str_fn \<Rightarrow> ConversationMessage list \<Rightarrow> InputMessage list" where
  "convert_messages fs ms = List.map_filter (convert_message fs) ms"

subsection \<open>Replies\<close>

text \<open>The local variables of the loop over the events of a stream.\<close>

record reply_state =
  rp_events :: "AssistantEvent list"
  rp_pending_tools :: "(u32, ustr \<times> ustr \<times> ustr) btree"
  rp_pending_thinking :: "(u32, ustr \<times> ustr option) btree"
  rp_saw_stop :: bool

definition reply_init :: reply_state where
  "reply_init = \<lparr>rp_events = [], rp_pending_tools = [], rp_pending_thinking = [], rp_saw_stop = False\<rparr>"

definition emit :: "AssistantEvent list \<Rightarrow> reply_state \<Rightarrow> reply_state" where
  "emit es c = c\<lparr>rp_events := rp_events c @ es\<rparr>"

definition push_output_block :: "(Value \<Rightarrow> ustr) \<Rightarrow> bool \<Rightarrow> OutputContentBlock \<Rightarrow> u32 \<Rightarrow> reply_state \<Rightarrow> reply_state" where
  "push_output_block to_string streaming_tool_input block idx c =
     (case block of
        OutText t \<Rightarrow> if t \<noteq> [] then emit [EvTextDelta t] c else c
      | OutToolUse i name input \<Rightarrow>
          let initial_input = (if streaming_tool_input \<and> input = Object [] then [] else to_string input)
          in c\<lparr>rp_pending_tools := btree_insert idx (i, name, initial_input) (rp_pending_tools c)\<rparr>
      | OutThinking t s \<Rightarrow>
          if streaming_tool_input then c\<lparr>rp_pending_thinking := btree_insert idx (t, s) (rp_pending_thinking c)\<rparr>
          else emit [EvThinking t s] c
      | OutRedactedThinking v \<Rightarrow> c)"

definition append_input :: "u32 \<Rightarrow> ustr \<Rightarrow> reply_state \<Rightarrow> reply_state" where
  "append_input i s c =
     (case btree_get (rp_pending_tools c) i of
        Some (tool_id, name, input) \<Rightarrow> c\<lparr>rp_pending_tools := btree_insert i (tool_id, name, input @ s) (rp_pending_tools c)\<rparr>
      | None \<Rightarrow> c)"

definition append_thinking :: "u32 \<Rightarrow> ustr \<Rightarrow> reply_state \<Rightarrow> reply_state" where
  "append_thinking i s c =
     (case btree_get (rp_pending_thinking c) i of
        Some (t, sig) \<Rightarrow> c\<lparr>rp_pending_thinking := btree_insert i (t @ s, sig) (rp_pending_thinking c)\<rparr>
      | None \<Rightarrow> c)"

definition append_signature :: "u32 \<Rightarrow> ustr \<Rightarrow> reply_state \<Rightarrow> reply_state" where
  "append_signature i s c =
     (case btree_get (rp_pending_thinking c) i of
        Some (t, sig) \<Rightarrow> c\<lparr>rp_pending_thinking := btree_insert i (t, Some (unwrap_or [] sig @ s)) (rp_pending_thinking c)\<rparr>
      | None \<Rightarrow> c)"

definition close_block :: "u32 \<Rightarrow> reply_state \<Rightarrow> reply_state" where
  "close_block i c =
     (let c = (case btree_get (rp_pending_thinking c) i of
                 Some (t, sig) \<Rightarrow> emit [EvThinking t sig] (c\<lparr>rp_pending_thinking := btree_remove i (rp_pending_thinking c)\<rparr>)
               | None \<Rightarrow> c)
      in case btree_get (rp_pending_tools c) i of
           Some (tool_id, name, input) \<Rightarrow>
             emit [EvToolUse tool_id name input] (c\<lparr>rp_pending_tools := btree_remove i (rp_pending_tools c)\<rparr>)
         | None \<Rightarrow> c)"

fun reply_step :: "(Value \<Rightarrow> ustr) \<Rightarrow> StreamEvent \<Rightarrow> reply_state \<Rightarrow> reply_state" where
  "reply_step to_string (MessageStart m) c = fold (\<lambda>b. push_output_block to_string True b 0) (resp_content m) c"
| "reply_step to_string (ContentBlockStart i b) c = push_output_block to_string True b i c"
| "reply_step to_string (ContentBlockDeltaEv i d) c =
     (case d of
        TextDelta t \<Rightarrow> if t \<noteq> [] then emit [EvTextDelta t] c else c
      | InputJsonDelta s \<Rightarrow> append_input i s c
      | ThinkingDelta s \<Rightarrow> append_thinking i s c
      | SignatureDelta s \<Rightarrow> append_signature i s c)"
| "reply_step to_string (ContentBlockStop i) c = close_block i c"
| "reply_step to_string (MessageDeltaEv d u) c = emit [EvUsage (token_usage u)] c"
| "reply_step to_string MessageStop c = emit [EvMessageStop] (c\<lparr>rp_saw_stop := True\<rparr>)"

text \<open>The loop ends when the stream does, which no function of it decides: \<open>pull\<close> is \<^verbatim>\<open>next_event\<close> of either client.\<close>

partial_function (option) reply_loop ::
  "('s \<Rightarrow> (ApiError + StreamEvent option) \<times> 's) \<Rightarrow> (Value \<Rightarrow> ustr) \<Rightarrow> 's \<Rightarrow> reply_state \<Rightarrow> ((ApiError + reply_state) \<times> 's) option" where
  "reply_loop pull to_string s c =
     (case pull s of
        (Inl e, s') \<Rightarrow> Some (Inl e, s')
      | (Inr None, s') \<Rightarrow> Some (Inr c, s')
      | (Inr (Some ev), s') \<Rightarrow> reply_loop pull to_string s' (reply_step to_string ev c))"

definition prompt_cache_record_to_runtime_event :: "PromptCacheRecord \<Rightarrow> PromptCacheEvent option" where
  "prompt_cache_record_to_runtime_event r =
     map_option (\<lambda>b. \<lparr>pc_unexpected = cb_unexpected b, pc_reason = cb_reason b,
       pc_previous_cache_read_input_tokens = cb_previous_cache_read_input_tokens b,
       pc_current_cache_read_input_tokens = cb_current_cache_read_input_tokens b, pc_token_drop = cb_token_drop b\<rparr>)
       (pr_cache_break r)"


text \<open>\<^verbatim>\<open>enumerate\<close> with indexes that must fit 32 bits; \<^const>\<open>None\<close> is the panic of \<^verbatim>\<open>expect\<close>.\<close>

fun response_blocks :: "(Value \<Rightarrow> ustr) \<Rightarrow> nat \<Rightarrow> OutputContentBlock list \<Rightarrow> reply_state \<Rightarrow> reply_state option" where
  "response_blocks to_string n [] c = Some c"
| "response_blocks to_string n (b # bs) c =
     (if 2 ^ 32 \<le> n then None
      else let c = push_output_block to_string False b (of_nat n) c
           in response_blocks to_string (n + 1) bs
                (case btree_get (rp_pending_tools c) (of_nat n) of
                   Some (tool_id, name, input) \<Rightarrow>
                     emit [EvToolUse tool_id name input] (c\<lparr>rp_pending_tools := btree_remove (of_nat n) (rp_pending_tools c)\<rparr>)
                 | None \<Rightarrow> c))"

definition response_to_events :: "(Value \<Rightarrow> ustr) \<Rightarrow> MessageResponse \<Rightarrow> AssistantEvent list option" where
  "response_to_events to_string r =
     map_option (\<lambda>c. rp_events c @ [EvUsage (token_usage (resp_usage r)), EvMessageStop])
       (response_blocks to_string 0 (resp_content r) reply_init)"

subsection \<open>A call of a provider\<close>

text \<open>What the code uses of a provider client, over the state of the client and its open stream. \<^const>\<open>None\<close> is a panic.\<close>

record 'w client_ops =
  co_stream_message :: "MessageRequest \<Rightarrow> 'w \<Rightarrow> ((ApiError + unit) \<times> 'w) option"
  co_next_event :: "'w \<Rightarrow> (ApiError + StreamEvent option) \<times> 'w"
  co_send_message :: "MessageRequest \<Rightarrow> 'w \<Rightarrow> ((ApiError + MessageResponse) \<times> 'w) option"
  co_take_record :: "'w \<Rightarrow> PromptCacheRecord option \<times> 'w"

definition push_prompt_cache_record :: "'w client_ops \<Rightarrow> AssistantEvent list \<Rightarrow> 'w \<Rightarrow> AssistantEvent list \<times> 'w" where
  "push_prompt_cache_record ops events w =
     (case co_take_record ops w of
        (rec, w') \<Rightarrow> (events @ opt_list (map_option EvPromptCache (Option.bind rec prompt_cache_record_to_runtime_event)), w'))"

definition has_content :: "AssistantEvent \<Rightarrow> bool" where
  "has_content e = (case e of EvTextDelta t \<Rightarrow> t \<noteq> [] | EvToolUse i n s \<Rightarrow> True | _ \<Rightarrow> False)"

definition stream_with_provider ::
  "'w client_ops \<Rightarrow> (Value \<Rightarrow> ustr) \<Rightarrow> MessageRequest \<Rightarrow> 'w \<Rightarrow> ((ApiError + AssistantEvent list) \<times> 'w) option" where
  "stream_with_provider ops to_string r w =
     Option.bind (co_stream_message ops r w) (\<lambda>(opened, w).
       case opened of
         Inl e \<Rightarrow> Some (Inl e, w)
       | Inr _ \<Rightarrow>
           Option.bind (reply_loop (co_next_event ops) to_string w reply_init) (\<lambda>(result, w).
             case result of
               Inl e \<Rightarrow> Some (Inl e, w)
             | Inr c \<Rightarrow>
                 let (events, w) = push_prompt_cache_record ops (rp_events c) w;
                     events = (if \<not> rp_saw_stop c \<and> list_ex has_content events then events @ [EvMessageStop] else events)
                 in if EvMessageStop \<in> set events then Some (Inr events, w)
                    else Option.bind (co_send_message ops (r\<lparr>req_stream := False\<rparr>) w) (\<lambda>(response, w).
                      case response of
                        Inl e \<Rightarrow> Some (Inl e, w)
                      | Inr resp \<Rightarrow>
                          Option.bind (response_to_events to_string resp) (\<lambda>events.
                            let (events, w) = push_prompt_cache_record ops events w in Some (Inr events, w)))))"

subsection \<open>A chain of providers\<close>

record 'w ProviderEntry =
  pe_model :: ustr
  pe_client :: "'w client_ops"

record ToolSpec =
  ts_name :: ustr
  ts_description :: ustr
  ts_input_schema :: Value
  ts_required_permission :: PermissionMode

definition tool_specs_for_allowed_tools :: "ToolSpec list \<Rightarrow> ustr set option \<Rightarrow> ToolSpec list" where
  "tool_specs_for_allowed_tools specs allowed_tools =
     filter (\<lambda>spec. case allowed_tools of Some allowed \<Rightarrow> ts_name spec \<in> allowed | None \<Rightarrow> True) specs"

record 'w ProviderRuntimeClient =
  prc_chain :: "'w ProviderEntry list"
  prc_allowed_tools :: "ustr set"

definition provider_request :: "from_str_fn \<Rightarrow> ToolSpec list \<Rightarrow> ustr set \<Rightarrow> ApiRequest \<Rightarrow> ustr \<Rightarrow> MessageRequest" where
  "provider_request fs specs allowed_tools request mdl =
     (let tools = map (\<lambda>s. \<lparr>tool_def_name = ts_name s, tool_def_description = Some (ts_description s),
                         tool_def_input_schema = ts_input_schema s\<rparr>) (tool_specs_for_allowed_tools specs (Some allowed_tools))
      in \<lparr>req_model = mdl, req_max_tokens = max_tokens_for_model mdl, req_messages = convert_messages fs (ar_messages request),
          req_system = (if ar_system_prompt request \<noteq> [] then Some (join [10, 10] (ar_system_prompt request)) else None),
          req_tools = (if tools \<noteq> [] then Some tools else None),
          req_tool_choice = (if allowed_tools \<noteq> {} then Some ToolAuto else None),
          req_stream = True, req_temperature = None, req_top_p = None, req_frequency_penalty = None,
          req_presence_penalty = None, req_stop = None, req_reasoning_effort = None\<rparr>)"

text \<open>The loop over the chain. An error ends it unless it is retryable and another provider is left, so the error
  after the loop is only reached with an empty chain. \<open>display\<close> is \<^verbatim>\<open>ApiError::to_string\<close>.\<close>

fun chain_loop ::
  "(Value \<Rightarrow> ustr) \<Rightarrow> (ApiError \<Rightarrow> ustr) \<Rightarrow> (ustr \<Rightarrow> MessageRequest) \<Rightarrow> 'w ProviderEntry list \<Rightarrow> ApiError option \<Rightarrow> 'w
     \<Rightarrow> ((RuntimeError + AssistantEvent list) \<times> 'w) option" where
  "chain_loop to_string display mk [] last_error w =
     Some (Inl (Other (case last_error of None \<Rightarrow> lit ''provider chain exhausted with no attempts'' | Some e \<Rightarrow> display e)), w)"
| "chain_loop to_string display mk (entry # rest) last_error w =
     Option.bind (stream_with_provider (pe_client entry) to_string (mk (pe_model entry)) w) (\<lambda>(attempt, w).
       case attempt of
         Inr events \<Rightarrow> Some (Inr events, w)
       | Inl e \<Rightarrow> if is_retryable e \<and> rest \<noteq> [] then chain_loop to_string display mk rest (Some e) w
                  else Some (Inl (Other (display e)), w))"

definition ProviderRuntimeClient_stream ::
  "(Value \<Rightarrow> ustr) \<Rightarrow> from_str_fn \<Rightarrow> (ApiError \<Rightarrow> ustr) \<Rightarrow> ToolSpec list \<Rightarrow> 'w ProviderRuntimeClient \<Rightarrow> ApiRequest \<Rightarrow> 'w
     \<Rightarrow> ((RuntimeError + AssistantEvent list) \<times> 'w) option" where
  "ProviderRuntimeClient_stream to_string fs display specs client request w =
     chain_loop to_string display (provider_request fs specs (prc_allowed_tools client) request) (prc_chain client) None w"

text \<open>Building the chain. \<open>connect\<close> gives the operations of a client; a fall-back whose client cannot be built is skipped.\<close>

record ProviderFallbackConfig =
  fb_primary :: "ustr option"
  fb_fallbacks :: "ustr list"

definition build_provider_entry ::
  "ClientIdentity \<Rightarrow> Env \<Rightarrow> (ApiError \<Rightarrow> ustr) \<Rightarrow> (ProviderClient \<Rightarrow> 'w client_ops) \<Rightarrow> ustr \<Rightarrow> ustr + 'w ProviderEntry" where
  "build_provider_entry ident env display connect mdl =
     (let resolved = resolve_model_alias mdl
      in case from_model ident env resolved of
           Inl e \<Rightarrow> Inl (display e)
         | Inr client \<Rightarrow> Inr \<lparr>pe_model = resolved, pe_client = connect client\<rparr>)"

definition new_with_fallback_config ::
  "(ustr \<Rightarrow> ustr + 'w ProviderEntry) \<Rightarrow> ustr \<Rightarrow> ustr set \<Rightarrow> ProviderFallbackConfig \<Rightarrow> ustr + 'w ProviderRuntimeClient" where
  "new_with_fallback_config build mdl allowed_tools config =
     (case build (case fb_primary config of Some m \<Rightarrow> m | None \<Rightarrow> mdl) of
        Inl e \<Rightarrow> Inl e
      | Inr primary \<Rightarrow>
          Inr \<lparr>prc_chain = primary # List.map_filter (\<lambda>m. case build m of Inr entry \<Rightarrow> Some entry | Inl _ \<Rightarrow> None) (fb_fallbacks config),
               prc_allowed_tools = allowed_tools\<rparr>)"

text \<open>The executor of a sub-agent. \<open>run\<close> is the dispatcher of the tools with the enforcer applied.\<close>

definition SubagentToolExecutor_execute ::
  "from_str_fn \<Rightarrow> (ustr \<Rightarrow> Value \<Rightarrow> 'w \<Rightarrow> (ustr + ustr) \<times> 'w) \<Rightarrow> ustr set \<Rightarrow> ustr \<Rightarrow> ustr \<Rightarrow> 'w \<Rightarrow> (ustr + ustr) \<times> 'w" where
  "SubagentToolExecutor_execute fs run allowed_tools tool_name input w =
     (if tool_name \<notin> allowed_tools
      then (Inl (lit ''tool `'' @ tool_name @ lit ''` is not enabled for this sub-agent''), w)
      else case fs input of
             Inl e \<Rightarrow> (Inl (lit ''invalid tool input JSON: '' @ e), w)
           | Inr v \<Rightarrow> run tool_name v w)"

definition final_assistant_text :: "TurnSummary \<Rightarrow> ustr" where
  "final_assistant_text summary =
     (case rev (assistant_messages summary) of
        [] \<Rightarrow> []
      | m # _ \<Rightarrow> concat (List.map_filter (\<lambda>b. case b of Text t \<Rightarrow> Some t | _ \<Rightarrow> None) (blocks m)))"

subsection \<open>The two clients\<close>

text \<open>The state of an OpenAI-compatible client: its open stream and the jitter counter.\<close>

definition openai_ops :: "OpenAiWorld \<Rightarrow> chunk_reader \<Rightarrow> OpenAiCompatClient \<Rightarrow> (MessageStream option \<times> u64) client_ops" where
  "openai_ops net rd c =
     \<lparr>co_stream_message = (\<lambda>r (s, tick).
        map_option (\<lambda>(result, t). case result of Inl e \<Rightarrow> (Inl e, (s, t)) | Inr (rid, ms) \<Rightarrow> (Inr (), (Some ms, t)))
          (stream_message net c r tick)),
      co_next_event = (\<lambda>(s, tick). case s of
        None \<Rightarrow> (Inr None, (s, tick))
      | Some ms \<Rightarrow> (case next_event rd ms of (r, ms') \<Rightarrow> (r, (Some ms', tick)))),
      co_send_message = (\<lambda>r (s, tick). map_option (\<lambda>(result, t). (result, (s, t))) (send_message net c r tick)),
      co_take_record = (\<lambda>w. (None, w))\<rparr>"

text \<open>That of the Anthropic client: its open stream, which holds the shared cache, the jitter counter and the cache.\<close>

definition anthropic_ops ::
  "AnthropicWorld \<Rightarrow> CacheEnv \<Rightarrow> (ustr \<Rightarrow> ustr + StreamEvent) \<Rightarrow> AnthropicClient
     \<Rightarrow> (AnthropicStream option \<times> u64 \<times> CacheState) client_ops" where
  "anthropic_ops net cv fs c =
     \<lparr>co_stream_message = (\<lambda>r (s, tick, cs).
        map_option (\<lambda>(result, t). case result of Inl e \<Rightarrow> (Inl e, (s, t, cs)) | Inr (rid, ms) \<Rightarrow> (Inr (), (Some ms, t, cs)))
          (anthropic_stream_message net c r tick cs)),
      co_next_event = (\<lambda>(s, tick, cs). case s of
        None \<Rightarrow> (Inr None, (s, tick, cs))
      | Some ms \<Rightarrow> (case anthropic_next_event fs cv ms of (r, ms') \<Rightarrow> (r, (Some ms', tick, am_cache ms')))),
      co_send_message = (\<lambda>r (s, tick, cs).
        map_option (\<lambda>(result, t, cs'). (result, (s, t, cs'))) (anthropic_send_message net cv c r tick cs)),
      co_take_record = (\<lambda>(s, tick, cs). case take_last_prompt_cache_record cs of (rec, cs') \<Rightarrow> (rec, (s, tick, cs')))\<rparr>"


section \<open>From the stream to the transcript\<close>

context event_source
begin

lemma reply_loop_will:
  "will es s \<Longrightarrow> \<exists>s'. reply_loop pull to_string s c = Some (Inr (fold (reply_step to_string) es c), s')"
proof (induction es arbitrary: s c)
  case Nil
  from next_will [OF Nil] show ?case by (subst reply_loop.simps) (simp add: split_beta)
next
  case (Cons e es)
  from next_will [OF Cons.prems] have n: "fst (pull s) = Inr (Some e)" "will es (snd (pull s))" by simp_all
  from Cons.IH [OF n(2)] n(1) show ?case by (subst reply_loop.simps) (simp add: split_beta)
qed

end

definition openai_will :: "chunk_reader \<Rightarrow> StreamEvent list \<Rightarrow> MessageStream option \<times> u64 \<Rightarrow> bool" where
  "openai_will rd es w = (case fst w of Some ms \<Rightarrow> delivers rd es ms | None \<Rightarrow> es = [])"

interpretation oc: event_source "co_next_event (openai_ops net rd c)" "openai_will rd" for net rd c
proof
  fix es and w :: "MessageStream option \<times> u64"
  assume "openai_will rd es w"
  then show "fst (co_next_event (openai_ops net rd c) w) = Inr (case es of e # _ \<Rightarrow> Some e | [] \<Rightarrow> None)
      \<and> openai_will rd (tl es) (snd (co_next_event (openai_ops net rd c) w))"
    using os.next_will [of rd es "the (fst w)"]
    by (cases w) (auto simp: openai_ops_def openai_will_def split_beta split: option.splits)
qed

definition anthropic_will ::
  "(ustr \<Rightarrow> ustr + StreamEvent) \<Rightarrow> StreamEvent list \<Rightarrow> AnthropicStream option \<times> u64 \<times> CacheState \<Rightarrow> bool" where
  "anthropic_will fs es w = (case fst w of Some ms \<Rightarrow> am_delivers fs es ms | None \<Rightarrow> es = [])"

interpretation ac: event_source "co_next_event (anthropic_ops net cv fs c)" "anthropic_will fs" for net cv fs c
proof
  fix es and w :: "AnthropicStream option \<times> u64 \<times> CacheState"
  assume "anthropic_will fs es w"
  then show "fst (co_next_event (anthropic_ops net cv fs c) w) = Inr (case es of e # _ \<Rightarrow> Some e | [] \<Rightarrow> None)
      \<and> anthropic_will fs (tl es) (snd (co_next_event (anthropic_ops net cv fs c) w))"
    using am.next_will [of fs es "the (fst w)" cv]
    by (cases w) (auto simp: anthropic_ops_def anthropic_will_def split_beta split: option.splits)
qed

text \<open>Blocks start empty, as they do when their content is streamed.\<close>

fun plain_start :: "StreamEvent \<Rightarrow> bool" where
  "plain_start (MessageStart m) \<longleftrightarrow> resp_content m = []"
| "plain_start (ContentBlockStart i b) \<longleftrightarrow>
     (case b of OutText t \<Rightarrow> t = [] | OutToolUse d n v \<Rightarrow> v = Object [] | OutThinking t s \<Rightarrow> True | OutRedactedThinking v \<Rightarrow> True)"
| "plain_start _ \<longleftrightarrow> True"

abbreviation tool_start :: "u32 \<Rightarrow> ustr \<Rightarrow> ustr \<Rightarrow> StreamEvent" where
  "tool_start i d n \<equiv> ContentBlockStart i (OutToolUse d n (Object []))"

text \<open>What the loop has made of the tool calls, by the status of their blocks.\<close>

definition tool_view :: "StreamEvent list \<Rightarrow> reply_state \<Rightarrow> u32 \<Rightarrow> block_status \<Rightarrow> bool" where
  "tool_view es c i st \<longleftrightarrow>
     (case st of
        Fresh \<Rightarrow> json_at i es = [] \<and> (\<forall>d n. tool_start i d n \<notin> set es)
      | Opened \<Rightarrow> \<forall>d n. tool_start i d n \<in> set es \<longrightarrow> btree_get (rp_pending_tools c) i = Some (d, n, json_at i es)
      | Closed \<Rightarrow> \<forall>d n. tool_start i d n \<in> set es \<longrightarrow> EvToolUse d n (json_at i es) \<in> set (rp_events c))"

lemma emit_simps_reply [simp]:
  "rp_events (emit es c) = rp_events c @ es" "rp_pending_tools (emit es c) = rp_pending_tools c"
  "rp_pending_thinking (emit es c) = rp_pending_thinking c" "rp_saw_stop (emit es c) = rp_saw_stop c"
  by (simp_all add: emit_def)

lemma reply_step_events: "set (rp_events c) \<subseteq> set (rp_events (reply_step ts e (c :: reply_state)))"
proof -
  have p: "set (rp_events c) \<subseteq> set (rp_events (push_output_block ts b blk i c))" for b blk i c
    by (auto simp: push_output_block_def Let_def split: OutputContentBlock.split)
  have "set (rp_events c) \<subseteq> set (rp_events (fold (\<lambda>b. push_output_block ts True b 0) bs c))" for bs
  proof (induction bs arbitrary: c)
    case (Cons b bs)
    then show ?case using p [of c True b 0] by (simp add: subset_trans)
  qed simp
  then show ?thesis using p
    by (cases e) (auto simp: append_input_def append_thinking_def append_signature_def close_block_def Let_def
        split: ContentBlockDelta.split option.split)
qed

lemma reply_step_other_tools:
  assumes "plain_start e" and "\<forall>b. e \<noteq> ContentBlockStart i b" and "\<forall>d. e \<noteq> ContentBlockDeltaEv i d" and "e \<noteq> ContentBlockStop i"
  shows "btree_get (rp_pending_tools (reply_step ts e c)) i = btree_get (rp_pending_tools c) i"
  using assms
  by (cases e) (auto simp: push_output_block_def Let_def append_input_def append_thinking_def append_signature_def close_block_def
      btree_get_insert_any btree_get_remove split: ContentBlockDelta.split option.split OutputContentBlock.split)

lemma event_json_other: "\<forall>d. e \<noteq> ContentBlockDeltaEv i d \<Longrightarrow> event_json i e = []"
  by (induction i e rule: event_json.induct) auto

lemma tool_view_other:
  assumes "tool_view es c i st" and "plain_start e"
    and "\<forall>b. e \<noteq> ContentBlockStart i b" and "\<forall>d. e \<noteq> ContentBlockDeltaEv i d" and "e \<noteq> ContentBlockStop i"
  shows "tool_view (es @ [e]) (reply_step ts e c) i st"
  using assms(1,3,4) reply_step_other_tools [OF assms(2-5)] reply_step_events [of c ts e] event_json_other [of e i]
  by (auto simp: tool_view_def json_at_def split: block_status.splits)

lemma tool_view_step:
  assumes "\<forall>i. tool_view es c i (f i)" and "proto_step e (ph, f) = Some (ph', f')" and "plain_start e"
  shows "tool_view (es @ [e]) (reply_step ts e c) i (f' i)"
proof -
  have other: "tool_view (es @ [e]) (reply_step ts e c) i (f i)"
    if "\<forall>b. e \<noteq> ContentBlockStart i b" "\<forall>d. e \<noteq> ContentBlockDeltaEv i d" "e \<noteq> ContentBlockStop i"
    using tool_view_other [OF _ assms(3) that] assms(1) by blast
  have v: "tool_view es c i (f i)" using assms(1) by blast
  consider b where "e = ContentBlockStart i b" | d where "e = ContentBlockDeltaEv i d" | "e = ContentBlockStop i"
    | "\<forall>b. e \<noteq> ContentBlockStart i b" "\<forall>d. e \<noteq> ContentBlockDeltaEv i d" "e \<noteq> ContentBlockStop i" by blast
  then show ?thesis
  proof cases
    case (1 b)
    then have "f i = Fresh" "f' i = Opened" using assms(2) by (auto split: if_splits)
    then show ?thesis using v assms(3) 1
      by (auto simp: tool_view_def json_at_def push_output_block_def btree_get_insert_any)
  next
    case (2 d)
    then have f: "f i = Opened" "f' i = Opened" using assms(2) by (auto split: if_splits)
    then show ?thesis using v 2
      by (cases d) (auto simp: tool_view_def json_at_def append_input_def append_thinking_def append_signature_def
          btree_get_insert_any split: option.splits)
  next
    case 3
    then have "f i = Opened" "f' i = Closed" using assms(2) by (auto split: if_splits)
    then show ?thesis using v 3
      by (fastforce simp: tool_view_def json_at_def close_block_def Let_def split: option.splits)
  next
    case 4
    have "f' i = f i" using assms(2) 4 by (cases e) (auto split: if_splits)
    then show ?thesis using other [OF 4] by simp
  qed
qed

lemma tool_view_run:
  "proto_run es (Before, \<lambda>_. Fresh) = Some (ph, f) \<Longrightarrow> list_all plain_start es
    \<Longrightarrow> tool_view es (fold (reply_step ts) es reply_init) i (f i)"
proof (induction es arbitrary: ph f i rule: rev_induct)
  case Nil
  then show ?case by (auto simp: tool_view_def json_at_def)
next
  case (snoc e es)
  then obtain ph' f' where p: "proto_run es (Before, \<lambda>_. Fresh) = Some (ph', f')" "proto_step e (ph', f') = Some (ph, f)"
    by (auto simp: proto_run_append bind_eq_Some_conv)
  from tool_view_step [OF _ p(2)] snoc.IH [OF p(1)] snoc.prems(2) show ?case by simp
qed


subsection \<open>Text and the end of the message\<close>

definition events_text :: "AssistantEvent list \<Rightarrow> ustr" where
  "events_text es = concat (map (\<lambda>e. case e of EvTextDelta t \<Rightarrow> t | _ \<Rightarrow> []) es)"

lemma events_text_simps [simp]:
  "events_text [] = []" "events_text (xs @ ys) = events_text xs @ events_text ys"
  by (simp_all add: events_text_def)

lemma reply_step_text:
  "plain_start e \<Longrightarrow> events_text (rp_events (reply_step ts e c)) = events_text (rp_events c) @ event_text e"
  by (cases e) (auto simp: push_output_block_def Let_def append_input_def append_thinking_def append_signature_def close_block_def
      events_text_def split: ContentBlockDelta.split option.split OutputContentBlock.split)

lemma reply_text:
  "list_all plain_start es \<Longrightarrow> events_text (rp_events (fold (reply_step ts) es c)) = events_text (rp_events c) @ text_of es"
  by (induction es arbitrary: c) (simp_all add: reply_step_text text_of_def)

lemma reply_events_mono: "set (rp_events c) \<subseteq> set (rp_events (fold (reply_step ts) es c))"
proof (induction es arbitrary: c)
  case (Cons e es)
  then show ?case using reply_step_events [of c ts e] by (simp add: subset_trans)
qed simp

lemma reply_stop: "MessageStop \<in> set es \<Longrightarrow> EvMessageStop \<in> set (rp_events (fold (reply_step ts) es c))"
proof (induction es arbitrary: c)
  case (Cons e es)
  then show ?case using reply_events_mono [of "reply_step ts e c" ts es] by (cases "e = MessageStop") auto
qed simp

lemma proto_stop: "proto_run es (ph, f) = Some (After, f') \<Longrightarrow> ph \<noteq> After \<Longrightarrow> MessageStop \<in> set es"
proof (induction es arbitrary: ph f)
  case (Cons e es)
  then obtain ph1 f1 where p: "proto_step e (ph, f) = Some (ph1, f1)" "proto_run es (ph1, f1) = Some (After, f')"
    by (auto simp: bind_eq_Some_conv)
  show ?case
  proof (cases "e = MessageStop")
    case False
    have "ph1 \<noteq> After" using p(1) False Cons.prems(2) by (cases e) (auto split: if_splits)
    then show ?thesis using Cons.IH [OF p(2)] by simp
  qed simp
qed simp

subsection \<open>Blocks of the stream start empty\<close>

definition plain_step :: "('s \<Rightarrow> StreamEvent list \<times> 's) \<Rightarrow> bool" where
  "plain_step f \<longleftrightarrow> (\<forall>s. list_all plain_start (fst (f s)))"

lemma plain_then [intro]: "plain_step f \<Longrightarrow> plain_step g \<Longrightarrow> plain_step (emit_then f g)"
  by (simp add: plain_step_def emit_simps)

lemma plain_all [intro]: "(\<And>x. plain_step (f x)) \<Longrightarrow> plain_step (emit_all f xs)"
  unfolding plain_step_def
proof (rule allI)
  show "list_all plain_start (fst (emit_all f xs s))" if "\<And>x. \<forall>s. list_all plain_start (fst (f x s))" for s
    using that by (induction xs arbitrary: s) (simp_all add: emit_simps)
qed

lemma plain_map_entries: "plain_step g \<Longrightarrow> list_all plain_start (fst (map_entries g m))"
  by (induction m) (auto simp: split_beta plain_step_def)

lemma plain_tool_steps: "plain_step (tool_delta off)" "plain_step (tool_stop fin off)" "plain_step (stop_event off)"
  by (auto simp: plain_step_def tool_delta_def delta_event_def opt_list_def tool_stop_def stop_event_def)

lemma plain_tool_entry: "plain_step (tool_entry_step fin off)"
  using plain_tool_steps [unfolded plain_step_def]
  by (auto simp: plain_step_def tool_entry_step_def tool_started_def start_event_def emit_simps split_beta split: option.split)

lemma plain_finish_tool: "plain_step (finish_tool off)"
  using plain_tool_steps [unfolded plain_step_def]
  by (auto simp: plain_step_def finish_tool_def start_event_def emit_simps split: option.split)

lemma plain_simple_steps:
  "plain_step close_thinking" "plain_step (ingest_start ck)" "plain_step (ingest_usage ck)" "plain_step (ingest_reasoning ch)"
  "plain_step (ingest_text t)" "plain_step (ingest_tool_entry fin d)" "plain_step (ingest_finish_reason ch)" "plain_step finish_text"
  "plain_step finish_tools" "plain_step finish_message"
  using plain_tool_entry [unfolded plain_step_def] plain_map_entries [OF plain_tool_steps(3)] plain_map_entries [OF plain_finish_tool]
  by (auto simp: plain_step_def close_thinking_def ingest_start_def ingest_usage_def ingest_reasoning_def ingest_text_def
      ingest_tool_entry_def ingest_finish_reason_def finish_text_def finish_tools_def finish_message_def Let_def split_beta
      split: option.split)

lemma plain_content: "plain_step (ingest_content ch)"
  using plain_then [OF plain_simple_steps(1) plain_simple_steps(5)]
  by (auto simp: plain_step_def ingest_content_def split: option.split)

lemma plain_chunk: "plain_step (ingest_chunk ck)"
  unfolding ingest_chunk_def ingest_choice_def ingest_tool_call_def
  by (intro plain_then plain_all plain_simple_steps plain_content)

lemma plain_stream: "list_all plain_start (stream_events mdl cks)"
proof -
  have "plain_step StreamState_finish"
    using plain_then [OF plain_simple_steps(1) plain_then [OF plain_simple_steps(8) plain_then [OF plain_simple_steps(9,10)]]]
    by (simp add: plain_step_def StreamState_finish_def)
  from plain_then [OF plain_all [of ingest_chunk, OF plain_chunk] this] show ?thesis by (simp add: stream_events_def plain_step_def)
qed

subsection \<open>The message of the transcript\<close>

definition message_text :: "ContentBlock list \<Rightarrow> ustr" where
  "message_text bs = concat (map (\<lambda>b. case b of Text t \<Rightarrow> t | _ \<Rightarrow> []) bs)"

lemma message_text_Nil [simp]: "message_text [] = []"
  by (simp add: message_text_def)

lemma message_text_flush: "message_text (flush_text_block t bs) = message_text bs @ t"
  by (simp add: flush_text_block_def message_text_def)

lemma set_flush: "set bs \<subseteq> set (flush_text_block t bs)"
  by (auto simp: flush_text_block_def)

lemma assembly_step_facts:
  "message_text (as_blocks (assembly_step e a)) @ as_text (assembly_step e a)
     = (message_text (as_blocks a) @ as_text a) @ events_text [e]"
  "set (as_blocks a) \<subseteq> set (as_blocks (assembly_step e a))"
  "e = EvToolUse i n x \<Longrightarrow> ToolUse i n x \<in> set (as_blocks (assembly_step e a))"
  "as_finished (assembly_step e a) \<longleftrightarrow> as_finished a \<or> e = EvMessageStop"
  using set_flush [of "as_blocks a" "as_text a"] message_text_flush [of "as_text a" "as_blocks a"]
  by (cases e; auto simp: assembly_step_def events_text_def message_text_def)+

lemma assembly_text:
  "message_text (as_blocks (fold assembly_step es a)) @ as_text (fold assembly_step es a)
     = (message_text (as_blocks a) @ as_text a) @ events_text es"
proof (induction es arbitrary: a)
  case (Cons e es)
  then show ?case using assembly_step_facts(1) [of e a] by (simp add: events_text_def)
qed simp

lemma assembly_blocks: "set (as_blocks a) \<subseteq> set (as_blocks (fold assembly_step es a))"
proof (induction es arbitrary: a)
  case (Cons e es)
  then show ?case using assembly_step_facts(2) [of a e] by (simp add: subset_trans)
qed simp

lemma assembly_tool: "EvToolUse i n x \<in> set es \<Longrightarrow> ToolUse i n x \<in> set (as_blocks (fold assembly_step es a))"
proof (induction es arbitrary: a)
  case (Cons e es)
  then show ?case using assembly_step_facts(3) [of e i n x a] assembly_blocks [of "assembly_step e a" es]
    by (cases "e = EvToolUse i n x") auto
qed simp

lemma assembly_finished: "as_finished (fold assembly_step es a) \<longleftrightarrow> as_finished a \<or> EvMessageStop \<in> set es"
  by (induction es arbitrary: a) (auto simp: assembly_step_facts(4))

lemma assembled_message:
  assumes "EvMessageStop \<in> set es" and "events_text es \<noteq> [] \<or> (\<exists>i n x. EvToolUse i n x \<in> set es)"
  shows "\<exists>m u pcs. build_assistant_message es = Inr (m, u, pcs) \<and> message_text (blocks m) = events_text es
    \<and> (\<forall>i n x. EvToolUse i n x \<in> set es \<longrightarrow> ToolUse i n x \<in> set (blocks m))"
proof -
  let ?a = "fold assembly_step es assembly_init"
  let ?bs = "flush_text_block (as_text ?a) (as_blocks ?a)"
  have t: "message_text ?bs = events_text es" using assembly_text [of es assembly_init]
    by (simp add: message_text_flush assembly_init_def)
  have u: "ToolUse i n x \<in> set ?bs" if "EvToolUse i n x \<in> set es" for i n x
    using assembly_tool [OF that] set_flush by blast
  have "?bs \<noteq> []"
  proof
    assume "?bs = []"
    then have "events_text es = []" using t by (simp add: message_text_def)
    with assms(2) u \<open>?bs = []\<close> show False by auto
  qed
  moreover have "as_finished ?a" using assms(1) by (simp add: assembly_finished)
  ultimately show ?thesis using t u
    by (simp add: build_assistant_message_def Let_def ConversationMessage_assistant_with_usage_def)
qed

lemma reply_saw_stop: "MessageStop \<in> set es \<or> rp_saw_stop c \<Longrightarrow> rp_saw_stop (fold (reply_step ts) es c)"
proof (induction es arbitrary: c)
  case (Cons e es)
  have p: "rp_saw_stop (push_output_block ts b blk i c) = rp_saw_stop c" for b blk i c
    by (simp add: push_output_block_def Let_def split: OutputContentBlock.split)
  have f: "rp_saw_stop (fold (\<lambda>b. push_output_block ts True b 0) bs c) = rp_saw_stop c" for bs
    by (induction bs arbitrary: c) (simp_all add: p)
  have "e = MessageStop \<or> rp_saw_stop c \<Longrightarrow> rp_saw_stop (reply_step ts e c)"
    by (cases e) (auto simp: p f append_input_def append_thinking_def append_signature_def close_block_def Let_def
        split: ContentBlockDelta.split option.split)
  then show ?case using Cons by (cases "e = MessageStop") auto
qed simp

lemma openai_reply:
  assumes "co_stream_message (openai_ops net rd c) r w = Some (Inr (), (Some ms, t))"
    and "delivers rd es ms" and "MessageStop \<in> set es"
  shows "\<exists>w'. stream_with_provider (openai_ops net rd c) ts r w = Some (Inr (rp_events (fold (reply_step ts) es reply_init)), w')"
proof -
  have "openai_will rd es (Some ms, t)" using assms(2) by (simp add: openai_will_def)
  from oc.reply_loop_will [OF this, of net c ts reply_init]
  obtain w' where "reply_loop (co_next_event (openai_ops net rd c)) ts (Some ms, t) reply_init
      = Some (Inr (fold (reply_step ts) es reply_init), w')" by blast
  moreover have "co_take_record (openai_ops net rd c) w' = (None, w')" by (simp add: openai_ops_def)
  ultimately show ?thesis using assms(1) reply_saw_stop [of es reply_init ts] reply_stop [OF assms(3), of ts reply_init] assms(3)
    by (simp add: stream_with_provider_def push_prompt_cache_record_def opt_list_def)
qed

section \<open>Properties\<close>

text \<open>C3: what an OpenAI-compatible server streams is what the transcript records, for a reply that is not empty and that the
  server sends in order: every frame ends with a blank line and parses, the reasoning comes before the answer, no piece of a tool call
  comes after the tool calls were declared finished, and the chunk that declares it has no tool call twice. Then the call
  returns, and the assistant message built from it carries exactly the text of the
  chunks and, for every tool call the server named, a tool use with the complete arguments, however they were split.\<close>

theorem reply_reaches_transcript:
  assumes "co_stream_message (openai_ops net rd c) r w = Some (Inr (), (Some (MessageStream_new provider mdl pieces), t))"
    and "list_all frame_text fs" and "concat pieces = end_frames fs"
    and "collect_results (op_parse rd (OpenAiSseParser_with_context provider mdl)) fs = Inr parsed"
    and "choices = concat (map ck_choices (concat (map opt_list parsed)))" and "orderly False False choices"
    and "ds = concat (map choice_tools choices)" and "concat (map choice_text choices) \<noteq> [] \<or> (\<exists>k. named k ds)"
  shows "\<exists>events w' m u pcs. stream_with_provider (openai_ops net rd c) ts r w = Some (Inr events, w')
    \<and> build_assistant_message events = Inr (m, u, pcs)
    \<and> message_text (blocks m) = concat (map choice_text choices)
    \<and> (\<forall>k. named k ds \<longrightarrow> (\<exists>i n. offered k ds n \<and> ToolUse i n (received k ds) \<in> set (blocks m)))"
proof -
  let ?cks = "concat (map opt_list parsed)"
  let ?es = "stream_events mdl ?cks" and ?off = "tool_index_offset (snd (emit_all ingest_chunk ?cks (StreamState_new mdl)))"
  let ?C = "fold (reply_step ts) ?es reply_init"
  have "?cks \<noteq> []"
  proof
    assume "?cks = []"
    then have "choices = []" using assms(5) by (simp only: list.map concat.simps)
    with assms(7,8) show False by (simp add: named_def)
  qed
  from stream_brackets [OF this assms(6) [unfolded assms(5)], of mdl] obtain f where
    f: "proto_run ?es (Before, \<lambda>_. Fresh) = Some (After, f)" "\<forall>i. f i \<noteq> Opened" by blast
  have stop: "MessageStop \<in> set ?es" using proto_stop [OF f(1)] by simp
  obtain w' where w': "stream_with_provider (openai_ops net rd c) ts r w = Some (Inr (rp_events ?C), w')"
    using openai_reply [OF assms(1) stream_delivers [OF assms(2-4)] stop] by blast
  have tx: "events_text (rp_events ?C) = concat (map choice_text choices)"
    using reply_text [OF plain_stream [of mdl ?cks], of ts reply_init] stream_content [of mdl ?cks] by (simp add: reply_init_def assms(5))
  have tool: "\<exists>i n. offered k ds n \<and> EvToolUse i n (received k ds) \<in> set (rp_events ?C)" if "named k ds" for k
  proof -
    note args = stream_arguments [OF assms(6) [unfolded assms(5)] that [unfolded assms(7) assms(5)], of mdl]
    then obtain i n where s: "offered k ds n" "tool_start (k + ?off) i n \<in> set ?es" by (auto simp: starts_as_def assms(5,7))
    have v: "tool_view ?es ?C (k + ?off) (f (k + ?off))" by (rule tool_view_run [OF f(1) plain_stream])
    have "f (k + ?off) = Closed"
    proof (cases "f (k + ?off)")
      case Fresh
      with v s(2) show ?thesis by (simp add: tool_view_def)
    qed (use f(2) in auto)
    then have "EvToolUse i n (received k ds) \<in> set (rp_events ?C)" using v s(2) args(1) by (simp add: tool_view_def assms(5,7))
    with s(1) show ?thesis by blast
  qed
  have "events_text (rp_events ?C) \<noteq> [] \<or> (\<exists>i n x. EvToolUse i n x \<in> set (rp_events ?C))"
    using assms(8) tx tool by metis
  from assembled_message [OF reply_stop [OF stop] this] w' tx tool show ?thesis by metis
qed

definition sample_network :: "(ApiError + u8 list) list \<Rightarrow> OpenAiWorld" where
  "sample_network pieces =
     \<lparr>ow_post = (\<lambda>_ _ _ _. Inr \<lparr>rs_status = 200, rs_headers = (\<lambda>_. None), rs_text = Inr [], rs_chunks = pieces\<rparr>),
      ow_now = (\<lambda>_. None), ow_to_string = (\<lambda>_. []), ow_vec_len = (\<lambda>_. Some 2), ow_sizes = sample_sizes,
      ow_read_error = (\<lambda>_. None), ow_from_str = (\<lambda>_. Inl []), ow_read_response = (\<lambda>_. Inl [])\<rparr>"

definition sample_client :: OpenAiCompatClient where
  "sample_client = \<lparr>oa_api_key = lit ''k'', oa_config = OpenAiCompatConfig_openai, oa_base_url = lit ''https://api.openai.com/v1'',
     oa_policy = default_policy\<rparr>"

lemma sample_opened:
  "co_stream_message (openai_ops (sample_network (map Inr ps)) rd sample_client) sample_request (None, 0)
     = Some (Inr (), (Some (MessageStream_new (lit ''OpenAI'') (req_model sample_request) ps), 0))"
proof -
  have p: "preflight_message_request sample_sizes sample_request = Inr ()" by code_simp
  have b: "check_request_body_size (\<lambda>_. []) (\<lambda>_. Some 2) (with_streaming sample_request) OpenAiCompatConfig_openai = Inr ()"
    by code_simp
  have "send_with_retry (sample_network (map Inr ps)) sample_client (with_streaming sample_request) 0
      = Some (Inr \<lparr>rs_status = 200, rs_headers = (\<lambda>_. None), rs_text = Inr [], rs_chunks = map Inr ps\<rparr>, [], 0)"
    using b by (simp add: send_with_retry_def send_raw_request_def sample_network_def sample_client_def expect_success_def
        is_success_def retry_loop.simps)
  with p show ?thesis
    by (simp add: openai_ops_def stream_message_def MessageStream_new_def sample_client_def sample_network_def
        OpenAiCompatConfig_openai_def)
qed

theorem reply_reaches_transcript_witness:
  "\<exists>events w' m u pcs.
     stream_with_provider (openai_ops (sample_network (map (\<lambda>b. Inr [b]) (end_frames [lit ''data: hi'', lit ''data: [DONE]'']))) sample_reader
       sample_client) (\<lambda>_. []) sample_request (None, 0) = Some (Inr events, w')
     \<and> build_assistant_message events = Inr (m, u, pcs) \<and> message_text (blocks m) = lit ''hi''"
proof -
  let ?fs = "[lit ''data: hi'', lit ''data: [DONE]'']" and ?ck = "sample_chunk (sample_choice None (Some (lit ''hi'')) [] None)"
  have o: "co_stream_message (openai_ops (sample_network (map (\<lambda>b. Inr [b]) (end_frames ?fs))) sample_reader sample_client)
      sample_request (None, 0)
    = Some (Inr (), (Some (MessageStream_new (lit ''OpenAI'') (lit ''sonnet'') (map (\<lambda>b. [b]) (end_frames ?fs))), 0))"
    using sample_opened [of "map (\<lambda>b. [b]) (end_frames ?fs)" sample_reader] by (simp add: sample_request_def comp_def)
  have c: "collect_results (op_parse sample_reader (OpenAiSseParser_with_context (lit ''OpenAI'') (lit ''sonnet''))) ?fs
      = Inr [Some ?ck, None]"
    by code_simp
  have f: "list_all frame_text ?fs" by (simp add: frame_text_def frame_char_def scalar_value_def lit_def)
  have "orderly False False [sample_choice None (Some (lit ''hi'')) [] None]" by code_simp
  then have d: "orderly False False (concat (map ck_choices (concat (map opt_list [Some ?ck, None]))))"
    by (simp add: opt_list_def sample_chunk_def)
  have t: "concat (map choice_text (concat (map ck_choices (concat (map opt_list [Some ?ck, None]))))) = lit ''hi''"
    by code_simp
  then have n: "concat (map choice_text (concat (map ck_choices (concat (map opt_list [Some ?ck, None]))))) \<noteq> []"
    by (simp only: t) (simp add: lit_def)
  from reply_reaches_transcript [OF o f concat_singletons c refl d refl disjI1 [OF n], of "\<lambda>_. []"] show ?thesis
    unfolding t by blast
qed


section \<open>Transcripts in requests\<close>

text \<open>Results stand on the user's side, and every tool use has its result in a later message.\<close>

fun uses_answered :: "ConversationMessage list \<Rightarrow> bool" where
  "uses_answered [] \<longleftrightarrow> True"
| "uses_answered (m # ms) \<longleftrightarrow>
     (role m = Assistant \<longrightarrow> tool_result_ids m = []
        \<and> (\<forall>i \<in> set (tool_use_ids m). \<exists>m' \<in> set ms. role m' \<noteq> Assistant \<and> i \<in> set (tool_result_ids m')))
     \<and> uses_answered ms"

definition sent :: "(Value \<Rightarrow> ustr) \<Rightarrow> from_str_fn \<Rightarrow> ustr \<Rightarrow> ConversationMessage list \<Rightarrow> Value list" where
  "sent to_string fs mdl ms = concat (map (\<lambda>m. translate_message to_string m mdl) (convert_messages fs ms))"

definition sent_one :: "(Value \<Rightarrow> ustr) \<Rightarrow> from_str_fn \<Rightarrow> ustr \<Rightarrow> ConversationMessage \<Rightarrow> Value list" where
  "sent_one to_string fs mdl m =
     (let content = filter (\<lambda>b. b \<noteq> InText []) (map (convert_block fs) (blocks m))
      in if role m = Assistant then translate_assistant to_string content mdl
         else List.map_filter (translate_block to_string (\<not> model_rejects_is_error_field mdl)) content)"

lemma sent_simps: "sent to_string fs mdl [] = []" "sent to_string fs mdl (m # ms) = sent_one to_string fs mdl m @ sent to_string fs mdl ms"
proof -
  have "translate_assistant to_string [] mdl = []"
    by (simp add: translate_assistant_def Let_def assistant_text_def assistant_reasoning_def assistant_tool_calls_def List.map_filter_simps)
  then show "sent to_string fs mdl (m # ms) = sent_one to_string fs mdl m @ sent to_string fs mdl ms"
    by (cases "role m") (auto simp: sent_def sent_one_def convert_messages_def convert_message_def convert_role_def Let_def
        translate_message_def List.map_filter_simps)
qed (simp add: sent_def convert_messages_def List.map_filter_simps)

lemma no_orphans_append: "no_orphans prev (xs @ ys) \<longleftrightarrow> no_orphans prev xs \<and> no_orphans (fold (\<lambda>m p. next_prev p m) xs prev) ys"
  by (induction xs arbitrary: prev) simp_all

lemma answered_ids_append: "answered_ids (xs @ ys) = answered_ids xs @ answered_ids ys"
  by (simp add: answered_ids_def List.map_filter_def)

lemma json_fields:
  "str_field k (json_object kvs) = Option.bind (map_of (rev kvs) k) value_as_str"
  "tool_calls_of (json_object kvs) = Option.bind (map_of (rev kvs) ''tool_calls'') value_as_array"
proof -
  have "map_of (map (\<lambda>(k, v). (lit k, v)) xs) (lit k) = map_of xs k" for k and xs :: "(string \<times> Value) list"
    by (induction xs) auto
  then show "str_field k (json_object kvs) = Option.bind (map_of (rev kvs) k) value_as_str"
     "tool_calls_of (json_object kvs) = Option.bind (map_of (rev kvs) ''tool_calls'') value_as_array"
    by (simp_all add: str_field_def tool_calls_of_def value_get_def json_object_def btree_get_of rev_map)
qed

lemma call_id: "str_field ''id'' (tool_call_json to_string i name v) = Some i"
  by (simp add: tool_call_json_def json_fields value_as_str_def)

lemma sent_calls:
  "map (str_field ''id'') (assistant_tool_calls to_string (filter (\<lambda>b. b \<noteq> InText []) (map (convert_block fs) bs)))
     = map Some (List.map_filter (\<lambda>b. case b of ToolUse i _ _ \<Rightarrow> Some i | _ \<Rightarrow> None) bs)"
proof (induction bs)
  case (Cons b bs)
  then show ?case by (cases b) (simp_all add: assistant_tool_calls_def List.map_filter_simps call_id)
qed (simp add: assistant_tool_calls_def List.map_filter_simps)

lemma sent_assistant:
  assumes "role m = Assistant"
  obtains "sent_one to_string fs mdl m = []" "tool_use_ids m = []"
  | v where "sent_one to_string fs mdl m = [v]" "str_field ''role'' v = Some (lit ''assistant'')"
    "map (str_field ''id'') (unwrap_or [] (tool_calls_of v)) = map Some (tool_use_ids m)"
proof -
  let ?bs = "filter (\<lambda>b. b \<noteq> InText []) (map (convert_block fs) (blocks m))"
  let ?tcs = "assistant_tool_calls to_string ?bs"
  have c: "map (str_field ''id'') ?tcs = map Some (tool_use_ids m)" unfolding tool_use_ids_def by (rule sent_calls)
  show ?thesis
  proof (cases "translate_assistant to_string ?bs mdl")
    case Nil
    then have "?tcs = []" by (simp add: translate_assistant_def Let_def split: if_splits)
    with c Nil assms show ?thesis by (intro that(1)) (simp_all add: sent_one_def)
  next
    case (Cons v vs)
    then have "vs = []" "str_field ''role'' v = Some (lit ''assistant'')" "unwrap_or [] (tool_calls_of v) = ?tcs"
      by (auto simp: translate_assistant_def Let_def json_fields value_as_str_def value_as_array_def unwrap_or_def split: if_splits)
    with c Cons assms show ?thesis by (intro that(2) [of v]) (simp_all add: sent_one_def Let_def)
  qed
qed

lemma sent_user_block:
  "translate_block to_string e (convert_block fs b) = Some v \<Longrightarrow>
     str_field ''role'' v \<noteq> Some (lit ''assistant'')
     \<and> (if is_tool_message v then \<exists>i n out err. b = ToolResult i n out err \<and> str_field ''tool_call_id'' v = Some i
        else \<forall>i n out err. b \<noteq> ToolResult i n out err)"
  by (cases b; cases e) (auto simp: translate_block_def is_tool_message_def json_fields value_as_str_def)

lemma sent_user:
  assumes "role m \<noteq> Assistant"
  shows "\<forall>v \<in> set (sent_one to_string fs mdl m). str_field ''role'' v \<noteq> Some (lit ''assistant'')"
    and "answered_ids (sent_one to_string fs mdl m) = tool_result_ids m"
proof -
  let ?tr = "translate_block to_string (\<not> model_rejects_is_error_field mdl)"
  have s: "sent_one to_string fs mdl m = List.map_filter ?tr (filter (\<lambda>b. b \<noteq> InText []) (map (convert_block fs) (blocks m)))"
    using assms by (simp add: sent_one_def)
  then show "\<forall>v \<in> set (sent_one to_string fs mdl m). str_field ''role'' v \<noteq> Some (lit ''assistant'')"
    using sent_user_block by (fastforce simp: List.map_filter_def)
  have "answered_ids (List.map_filter ?tr (filter (\<lambda>b. b \<noteq> InText []) (map (convert_block fs) bs)))
      = List.map_filter (\<lambda>b. case b of ToolResult i _ _ _ \<Rightarrow> Some i | _ \<Rightarrow> None) bs" for bs
  proof (induction bs)
    case (Cons b bs)
    then show ?case
      by (cases b; cases "model_rejects_is_error_field mdl")
        (auto simp: List.map_filter_simps answered_ids_Cons opt_list_def is_tool_message_def json_fields value_as_str_def
          translate_block_def [of _ _ "InText t" for t] translate_block_def [of _ _ "InToolResult i c e" for i c e]
          translate_block_def [of _ _ "InToolUse i n v" for i n v] translate_block_def [of _ _ "InThinking t g" for t g])
  qed (simp add: answered_ids_def List.map_filter_simps)
  then show "answered_ids (sent_one to_string fs mdl m) = tool_result_ids m" by (simp add: s tool_result_ids_def)
qed

definition open_to :: "ustr list \<Rightarrow> Value option \<Rightarrow> bool" where
  "open_to ids prev \<longleftrightarrow> (\<forall>i \<in> set ids. \<forall>p. prev = Some p \<longrightarrow> str_field ''role'' p = Some (lit ''assistant'') \<longrightarrow> has_call i p)"

lemma no_orphans_user:
  assumes "\<forall>v \<in> set vs. str_field ''role'' v \<noteq> Some (lit ''assistant'')" and "list_all identified vs"
    and "open_to ids prev" and "set (answered_ids vs) \<subseteq> set ids"
  shows "no_orphans prev vs \<and> open_to ids (fold (\<lambda>m p. next_prev p m) vs prev)"
  using assms
proof (induction vs arbitrary: prev)
  case (Cons v vs)
  have "open_to ids (next_prev prev v)" using Cons.prems by (simp add: open_to_def next_prev_def)
  with Cons.IH [of "next_prev prev v"] Cons.prems
  have "no_orphans (next_prev prev v) vs \<and> open_to ids (fold (\<lambda>m p. next_prev p m) vs (next_prev prev v))"
    by (auto simp: answered_ids_Cons)
  moreover have "\<not> orphan prev v" using Cons.prems
    by (auto simp: orphan_def open_to_def identified_def answered_ids_Cons opt_list_def unwrap_or_def split: option.splits)
  ultimately show ?case by simp
qed simp

lemma identified_sent: "list_all identified (sent_one to_string fs mdl m)"
proof -
  have "\<exists>m'. sent_one to_string fs mdl m = translate_message to_string m' mdl"
    by (rule exI [of _ "\<lparr>in_role = convert_role (role m), in_content = filter (\<lambda>b. b \<noteq> InText []) (map (convert_block fs) (blocks m))\<rparr>"])
      (cases "role m"; simp add: sent_one_def translate_message_def convert_role_def Let_def)
  with identified_translate show ?thesis by metis
qed

lemma sent_no_orphans:
  "paired ids ms \<Longrightarrow> uses_answered ms \<Longrightarrow> open_to ids prev \<Longrightarrow> no_orphans prev (sent to_string fs mdl ms)"
proof (induction ms arbitrary: ids prev)
  case (Cons m ms)
  let ?ids = "if tool_result_ids m = [] then tool_use_ids m else ids"
  have p: "paired ?ids ms" using Cons.prems(1) by (auto split: if_splits)
  have "no_orphans prev (sent_one to_string fs mdl m)
      \<and> open_to ?ids (fold (\<lambda>m p. next_prev p m) (sent_one to_string fs mdl m) prev)"
  proof (cases "role m = Assistant")
    case True
    then show ?thesis
    proof (cases rule: sent_assistant [of m to_string fs mdl])
      case 1
      with Cons.prems show ?thesis by (simp add: open_to_def)
    next
      case (2 v)
      have "has_call i v" if "i \<in> set (tool_use_ids m)" for i
      proof -
        have "Some i \<in> str_field ''id'' ` set (unwrap_or [] (tool_calls_of v))"
          using that arg_cong [OF 2(3), of set] by simp
        then show ?thesis by (force simp: has_call_iff)
      qed
      moreover have "\<not> is_tool_message v" using 2(2) by (simp add: is_tool_message_def)
      ultimately show ?thesis using 2(1) Cons.prems True by (auto simp: open_to_def next_prev_def orphan_def split: if_splits)
    qed
  next
    case False
    have "tool_use_ids m = []" using Cons.prems(1) False by (auto split: if_splits)
    have "open_to ids prev \<and> set (answered_ids (sent_one to_string fs mdl m)) \<subseteq> set ids"
      using Cons.prems sent_user(2) [OF False] by (auto split: if_splits)
    with no_orphans_user [OF sent_user(1) [OF False] identified_sent] \<open>tool_use_ids m = []\<close> show ?thesis
      by (auto simp: open_to_def)
  qed
  with Cons.IH [OF p] Cons.prems(2) show ?case by (simp add: sent_simps no_orphans_append)
qed (simp add: sent_simps)

lemma sent_answered_ids:
  "role m \<noteq> Assistant \<Longrightarrow> m \<in> set ms \<Longrightarrow> set (tool_result_ids m) \<subseteq> set (answered_ids (sent to_string fs mdl ms))"
proof (induction ms)
  case (Cons m' ms)
  then show ?case using sent_user(2) [of m to_string fs mdl] by (auto simp: sent_simps answered_ids_append)
qed simp

lemma calls_answered_user:
  "\<forall>v \<in> set vs. str_field ''role'' v \<noteq> Some (lit ''assistant'') \<Longrightarrow> calls_answered (vs @ ws) \<longleftrightarrow> calls_answered ws"
  by (induction vs) simp_all

lemma sent_calls_answered: "uses_answered ms \<Longrightarrow> calls_answered (sent to_string fs mdl ms)"
proof (induction ms)
  case (Cons m ms)
  then have IH: "calls_answered (sent to_string fs mdl ms)" by simp
  show ?case
  proof (cases "role m = Assistant")
    case True
    then show ?thesis
    proof (cases rule: sent_assistant [of m to_string fs mdl])
      case 1
      with IH show ?thesis by (simp add: sent_simps)
    next
      case (2 v)
      have "\<exists>i \<in> set (answered_ids (sent to_string fs mdl ms)). str_field ''id'' tc = Some i"
        if "tc \<in> set (unwrap_or [] (tool_calls_of v))" for tc
      proof -
        have "str_field ''id'' tc \<in> Some ` set (tool_use_ids m)"
          using that arg_cong [OF 2(3), of set] by (metis image_eqI list.set_map)
        then obtain i where i: "str_field ''id'' tc = Some i" "i \<in> set (tool_use_ids m)" by blast
        then obtain m' where "m' \<in> set ms" "role m' \<noteq> Assistant" "i \<in> set (tool_result_ids m')"
          using Cons.prems True by auto
        then show ?thesis using sent_answered_ids i(1) by blast
      qed
      with 2(1) IH show ?thesis by (simp add: sent_simps)
    qed
  next
    case False
    with IH sent_user(1) [OF False] show ?thesis by (simp add: sent_simps calls_answered_user)
  qed
qed (simp add: sent_simps)

lemma sent_whole:
  assumes "paired [] (ar_messages q)" and "uses_answered (ar_messages q)"
  shows "sanitize_tool_message_pairing (request_messages to_string (provider_request fs specs tools q mdl))
    = request_messages to_string (provider_request fs specs tools q mdl)"
proof -
  let ?mdl = "strip_routing_prefix mdl"
  let ?r = "provider_request fs specs tools q mdl"
  define sys where "sys = (case req_system ?r of Some s \<Rightarrow>
      if s \<noteq> [] then [json_object [(''role'', String (lit ''system'')), (''content'', String s)]] else [] | None \<Rightarrow> [])"
  have sys: "request_messages to_string ?r = sys @ sent to_string fs ?mdl (ar_messages q)"
    "sys = [] \<or> (\<exists>s. sys = [json_object [(''role'', String (lit ''system'')), (''content'', String s)]])"
    by (simp_all add: sys_def request_messages_def provider_request_def sent_def Let_def) blast
  then have "\<forall>v \<in> set sys. str_field ''role'' v \<noteq> Some (lit ''assistant'') \<and> \<not> is_tool_message v"
    by (auto simp: is_tool_message_def json_fields value_as_str_def)
  moreover have "no_orphans (fold (\<lambda>m p. next_prev p m) sys None) (sent to_string fs ?mdl (ar_messages q))"
    by (rule sent_no_orphans [OF assms]) (simp add: open_to_def)
  moreover have "no_orphans None sys" using calculation(1) sys(2) by (auto simp: orphan_def)
  ultimately show ?thesis
    using sent_calls_answered [OF assms(2), of to_string fs ?mdl]
    by (intro sanitize_id) (simp_all add: sys(1) no_orphans_append calls_answered_user)
qed

lemma uses_answered_append: "uses_answered xs \<Longrightarrow> uses_answered ys \<Longrightarrow> uses_answered (xs @ ys)"
  by (induction xs) auto

lemma uses_answered_results: "list_all2 answers is rs \<Longrightarrow> uses_answered rs"
  by (induction rule: list_all2_induct) (auto simp: answers_def)

lemma uses_answered_rounds: "list_all complete_round rounds \<Longrightarrow> uses_answered (round_messages rounds)"
proof (induction rounds)
  case (Cons r rounds)
  obtain a rs where r: "r = (a, rs)" by (cases r)
  then have c: "tool_result_ids a = []" "list_all2 answers (tool_use_ids a) rs" using Cons.prems by (auto simp: complete_round_def)
  have "\<exists>m \<in> set rs. role m \<noteq> Assistant \<and> i \<in> set (tool_result_ids m)" if "i \<in> set (tool_use_ids a)" for i
  proof -
    from that c(2) obtain m where "m \<in> set rs" "answers i m" by (metis in_set_conv_nth list_all2_conv_all_nth)
    then show ?thesis using answers_ids [of i m] by (intro bexI [of _ m]) (auto simp: answers_def)
  qed
  then have "uses_answered (a # rs)" using c uses_answered_results by auto
  from uses_answered_append [OF this Cons.IH] Cons.prems show ?case by (simp add: r round_messages_def)
qed (simp add: round_messages_def)

lemma uses_answered_suffix: "uses_answered (xs @ ys) \<Longrightarrow> uses_answered ys"
  by (induction xs) auto

lemma compact_answered:
  assumes "uses_answered (messages s)" and "compact_session s config clk = Some (r, clk')"
  shows "uses_answered (messages (compacted_session r))"
proof (cases "should_compact s config")
  case True
  from compact_session_splits [OF True assms(2)] obtain p removed preserved where
    m: "messages s = p @ removed @ preserved" and c: "messages (compacted_session r) =
       summary_message (get_compact_continuation_message (cr_summary r) True (preserved \<noteq> [])) # preserved"
    by metis
  have "uses_answered preserved" using assms(1) uses_answered_suffix [of "p @ removed" preserved] m by simp
  then show ?thesis by (simp add: c)
next
  case False
  with assms show ?thesis by (auto simp: compact_session_def)
qed

lemma run_turn_answered:
  assumes "run_turn env user_input st = Some (Inr summ, st')" and "uses_answered (messages (rt_session st))"
  shows "uses_answered (messages (rt_session st'))"
  using assms(1)
proof (cases rule: run_turn_cases)
  case (finished st2 acc n st3 c st4)
  from turn_loop_spec [OF finished(2)] obtain rounds where
    "adds_rounds st2 acc_init rounds st3" "turn_rounds st2 acc_init rounds st3 acc" by blast
  then have "messages (rt_session st3) = messages (rt_session st) @ ConversationMessage_user_text user_input # round_messages rounds"
    and "list_all complete_round rounds"
    using turn_start_spec(1) [OF finished(1)] by (simp_all add: adds_rounds_def turn_rounds_def)
  moreover have "uses_answered (ConversationMessage_user_text user_input # round_messages rounds)"
    using uses_answered_rounds [OF calculation(2)] by (simp add: ConversationMessage_user_text_def)
  ultimately have "uses_answered (messages (rt_session st3))" using assms(2) by (simp only: uses_answered_append)
  then have "uses_answered (messages (rt_session st4))"
    using finished(3) compact_answered [of "rt_session st3"] by (fastforce simp: maybe_auto_compact_def split: if_splits)
  then show ?thesis using finished(6) by simp
qed simp_all

text \<open>One finished turn after another, with whatever inputs.\<close>

definition finished_turn :: "'e conversation_env \<Rightarrow> 'e runtime \<Rightarrow> 'e runtime \<Rightarrow> bool" where
  "finished_turn env st st' \<longleftrightarrow> (\<exists>user_input summ. run_turn env user_input st = Some (Inr summ, st'))"

lemma finished_turns_answered:
  assumes "(finished_turn env)\<^sup>*\<^sup>* st st'"
    and "paired [] (messages (rt_session st))" and "uses_answered (messages (rt_session st))"
  shows "paired [] (messages (rt_session st')) \<and> uses_answered (messages (rt_session st'))"
  using assms
proof (induction rule: rtranclp_induct)
  case (step t u)
  then show ?case using run_turn_answered run_turn_paired unfolding finished_turn_def by metis
qed simp

text \<open>C4: nothing of finished turns is dropped from the requests after them. Start from a transcript in which every tool result
  answers a tool use before it and every tool use has its result behind it, such as an empty one. After any number of finished
  turns, with or without automatic compaction, every tool use still has its result, and the request an OpenAI-compatible
  client builds from the transcript and a new message carries the translation of every message: the removal of unpaired calls and
  results removes nothing.\<close>

theorem finished_turns_are_sent_whole:
  assumes "(finished_turn env)\<^sup>*\<^sup>* st st'"
    and "paired [] (messages (rt_session st))" and "uses_answered (messages (rt_session st))"
    and "q = \<lparr>ar_system_prompt = sys, ar_messages = messages (rt_session st') @ [ConversationMessage_user_text new_input]\<rparr>"
  shows "uses_answered (messages (rt_session st'))
    \<and> value_get (lit ''messages'') (build_chat_completion_request to_string (provider_request fs specs tools q mdl) config)
      = Some (Array (request_messages to_string (provider_request fs specs tools q mdl)))"
proof -
  let ?u = "[ConversationMessage_user_text new_input]"
  have u: "uses_answered ?u" "paired ids ?u" for ids
    by (simp_all add: ConversationMessage_user_text_def tool_result_ids_def tool_use_ids_def List.map_filter_simps)
  note kept = finished_turns_answered [OF assms(1-3)]
  then have "paired [] (ar_messages q)" using u by (simp add: assms(4) paired_append)
  moreover have "uses_answered (ar_messages q)" using uses_answered_append [OF _ u(1)] kept by (simp add: assms(4))
  ultimately show ?thesis using kept sent_whole [of q] get_messages by simp
qed

theorem finished_turns_are_sent_whole_witness:
  "\<exists>summ st'. run_turn (logged sample_env) (lit ''go'') sample_runtime = Some (Inr summ, st')
     \<and> value_get (lit ''messages'') (build_chat_completion_request (\<lambda>_. lit ''{}'') (provider_request (\<lambda>_. Inl []) [] {}
           \<lparr>ar_system_prompt = [], ar_messages = messages (rt_session st') @ [ConversationMessage_user_text (lit ''more'')]\<rparr> (lit ''gpt-4o''))
           OpenAiCompatConfig_openai)
       = Some (Array (request_messages (\<lambda>_. lit ''{}'') (provider_request (\<lambda>_. Inl []) [] {}
           \<lparr>ar_system_prompt = [], ar_messages = messages (rt_session st') @ [ConversationMessage_user_text (lit ''more'')]\<rparr>
           (lit ''gpt-4o''))))"
proof (rule sample_run)
  fix summ st'
  assume r: "run_turn (logged sample_env) (lit ''go'') sample_runtime = Some (Inr summ, st')"
  then have "(finished_turn (logged sample_env))\<^sup>*\<^sup>* sample_runtime st'" unfolding finished_turn_def by (intro r_into_rtranclp) blast
  moreover have "uses_answered (messages (rt_session sample_runtime))"
    by (simp add: sample_runtime_def ConversationRuntime_new_def)
  ultimately show ?thesis using finished_turns_are_sent_whole [OF _ sample_paired_runtime(1) _ refl] r by blast
qed

end
