(* ===== verification/Summary_Compression.thy ===== *)
theory Summary_Compression
  imports Prelude "HOL-Library.Sublist" "HOL-Library.Multiset"
begin

text \<open>
  Compression of a summary to a budget, \<^verbatim>\<open>summary_compression.rs\<close>: lines are normalised, repeated ones dropped, and the rest
  is chosen by priority as long as it fits. The selected indexes, a \<^verbatim>\<open>BTreeSet\<close>, are a sorted list. The result stays within
  the budget, keeps lines of the input in their order, and a line is left out only if it did not fit.
\<close>

section \<open>Definitions\<close>

record SummaryCompressionBudget =
  sb_max_chars :: nat
  sb_max_lines :: nat
  sb_max_line_chars :: nat

definition SummaryCompressionBudget_default :: SummaryCompressionBudget where
  "SummaryCompressionBudget_default = \<lparr>sb_max_chars = 1200, sb_max_lines = 24, sb_max_line_chars = 160\<rparr>"

record SummaryCompressionResult =
  sc_summary :: ustr
  sc_original_chars :: nat
  sc_compressed_chars :: nat
  sc_original_lines :: nat
  sc_compressed_lines :: nat
  sc_removed_duplicate_lines :: nat
  sc_omitted_lines :: nat
  sc_truncated :: bool

text \<open>The character \<^verbatim>\<open>U+2026\<close>.\<close>

definition ellipsis :: uchar where
  "ellipsis = 8230"

definition collapse_inline_whitespace :: "ustr \<Rightarrow> ustr" where
  "collapse_inline_whitespace line = join (lit '' '') (split_whitespace line)"

definition truncate_line :: "ustr \<Rightarrow> nat \<Rightarrow> ustr" where
  "truncate_line line max_chars =
     (if max_chars = 0 \<or> length line \<le> max_chars then line
      else if max_chars = 1 then [ellipsis]
      else take (max_chars - 1) line @ [ellipsis])"

definition dedupe_key :: "ustr \<Rightarrow> ustr" where
  "dedupe_key line = to_ascii_lowercase line"

record NormalizedSummary =
  ns_lines :: "ustr list"
  ns_removed_duplicate_lines :: nat

fun normalize_loop :: "nat \<Rightarrow> ustr list \<Rightarrow> ustr set \<Rightarrow> NormalizedSummary \<Rightarrow> NormalizedSummary" where
  "normalize_loop max_line_chars [] seen acc = acc"
| "normalize_loop max_line_chars (raw_line # rest) seen acc =
     (let normalized = collapse_inline_whitespace raw_line
      in if normalized = [] then normalize_loop max_line_chars rest seen acc
         else let truncated = truncate_line normalized max_line_chars; key = dedupe_key truncated
              in if key \<in> seen
                 then normalize_loop max_line_chars rest seen
                        (acc\<lparr>ns_removed_duplicate_lines := ns_removed_duplicate_lines acc + 1\<rparr>)
                 else normalize_loop max_line_chars rest (insert key seen) (acc\<lparr>ns_lines := ns_lines acc @ [truncated]\<rparr>))"

definition normalize_lines :: "ustr \<Rightarrow> nat \<Rightarrow> NormalizedSummary" where
  "normalize_lines summary max_line_chars =
     normalize_loop max_line_chars (lines summary) {} \<lparr>ns_lines = [], ns_removed_duplicate_lines = 0\<rparr>"

definition is_core_detail :: "ustr \<Rightarrow> bool" where
  "is_core_detail line = list_ex (\<lambda>prefix. starts_with prefix line)
     [lit ''- Scope:'', lit ''- Current work:'', lit ''- Pending work:'', lit ''- Key files referenced:'',
      lit ''- Tools mentioned:'', lit ''- Recent user requests:'', lit ''- Previously compacted context:'',
      lit ''- Newly compacted context:'']"

definition is_section_header :: "ustr \<Rightarrow> bool" where
  "is_section_header line = ends_with (lit '':'') line"

definition line_priority :: "ustr \<Rightarrow> nat" where
  "line_priority line =
     (if line = lit ''Summary:'' \<or> line = lit ''Conversation summary:'' \<or> is_core_detail line then 0
      else if is_section_header line then 1
      else if starts_with (lit ''- '') line \<or> starts_with (lit ''  - '') line then 2
      else 3)"

definition joined_char_count :: "ustr list \<Rightarrow> nat" where
  "joined_char_count ls = sum_list (map length ls) + (length ls - 1)"

definition fits :: "SummaryCompressionBudget \<Rightarrow> ustr list \<Rightarrow> bool" where
  "fits budget candidate \<longleftrightarrow> length candidate \<le> sb_max_lines budget \<and> joined_char_count candidate \<le> sb_max_chars budget"

text \<open>One step of the two loops of the selection, for a priority and an index.\<close>

definition select_step :: "ustr list \<Rightarrow> SummaryCompressionBudget \<Rightarrow> nat \<times> nat \<Rightarrow> nat list \<Rightarrow> nat list" where
  "select_step ls budget = (\<lambda>(priority, index) selected.
     (if index \<in> set selected \<or> line_priority (ls ! index) \<noteq> priority then selected
      else let candidate = map (\<lambda>i. ls ! i) selected @ [ls ! index]
           in if \<not> fits budget candidate then selected else insort index selected))"

definition select_line_indexes :: "ustr list \<Rightarrow> SummaryCompressionBudget \<Rightarrow> nat list" where
  "select_line_indexes ls budget =
     fold (select_step ls budget) (List.product [0..<4] [0..<length ls]) []"

definition push_line_with_budget :: "ustr list \<Rightarrow> ustr \<Rightarrow> SummaryCompressionBudget \<Rightarrow> ustr list" where
  "push_line_with_budget ls line budget = (if fits budget (ls @ [line]) then ls @ [line] else ls)"

definition omission_notice :: "nat \<Rightarrow> ustr" where
  "omission_notice omitted_lines =
     lit ''- '' @ [ellipsis] @ lit '' '' @ show_nat omitted_lines @ lit '' additional line(s) omitted.''"

definition compress_summary :: "ustr \<Rightarrow> SummaryCompressionBudget \<Rightarrow> SummaryCompressionResult" where
  "compress_summary summary budget =
     (let original_chars = length summary; original_lines = length (lines summary);
          normalized = normalize_lines summary (sb_max_line_chars budget);
          ls = ns_lines normalized
      in if ls = [] \<or> sb_max_chars budget = 0 \<or> sb_max_lines budget = 0
         then \<lparr>sc_summary = [], sc_original_chars = original_chars, sc_compressed_chars = 0, sc_original_lines = original_lines,
               sc_compressed_lines = 0, sc_removed_duplicate_lines = ns_removed_duplicate_lines normalized,
               sc_omitted_lines = length ls, sc_truncated = original_chars > 0\<rparr>
         else
           let selected = map (\<lambda>i. ls ! i) (select_line_indexes ls budget);
               kept = (if selected = [] then [truncate_line (ls ! 0) (sb_max_chars budget)] else selected);
               omitted_lines = length ls - length kept;
               compressed = (if omitted_lines > 0 then push_line_with_budget kept (omission_notice omitted_lines) budget else kept);
               compressed_summary = join [10] compressed
           in \<lparr>sc_summary = compressed_summary, sc_original_chars = original_chars,
               sc_compressed_chars = length compressed_summary, sc_original_lines = original_lines,
               sc_compressed_lines = length compressed,
               sc_removed_duplicate_lines = ns_removed_duplicate_lines normalized, sc_omitted_lines = omitted_lines,
               sc_truncated = compressed_summary \<noteq> trim summary\<rparr>)"

definition compress_summary_text :: "ustr \<Rightarrow> ustr" where
  "compress_summary_text summary = sc_summary (compress_summary summary SummaryCompressionBudget_default)"


section \<open>Lemmas\<close>

lemma length_join: "length (join sep ls) = sum_list (map length ls) + length sep * (length ls - 1)"
  by (induction sep ls rule: join.induct) auto

lemma joined_char_count_join: "joined_char_count ls = length (join [10] ls)"
  by (simp add: joined_char_count_def length_join)


lemma fits_mono: "fits b (xs @ [y]) \<Longrightarrow> subseq zs xs \<Longrightarrow> fits b (zs @ [y])"
proof -
  assume f: "fits b (xs @ [y])" and z: "subseq zs xs"
  have "sum_list (map length zs) \<le> sum_list (map length xs)" using z by (induction zs xs rule: list_emb.induct) auto
  moreover have "length zs \<le> length xs" using z by (rule list_emb_length)
  ultimately show ?thesis using f by (simp add: fits_def joined_char_count_def)
qed

text \<open>The order in which the selection looks at the lines, and those it looks at before line \<open>i\<close>.\<close>

definition before :: "ustr list \<Rightarrow> nat \<Rightarrow> nat \<Rightarrow> bool" where
  "before ls j i \<longleftrightarrow> line_priority (ls ! j) < line_priority (ls ! i) \<or> (line_priority (ls ! j) = line_priority (ls ! i) \<and> j < i)"

definition rank :: "ustr list \<Rightarrow> nat \<Rightarrow> nat \<times> nat" where
  "rank ls i = (line_priority (ls ! i), i)"

abbreviation chosen :: "nat list \<Rightarrow> bool" where
  "chosen sel \<equiv> sorted sel \<and> distinct sel"

lemma select_step_set:
  "set (select_step ls b q sel) = set sel \<union> (if rank ls (snd q) = q \<and> fits b (map (\<lambda>i. ls ! i) sel @ [ls ! snd q]) then {snd q} else {})"
  if "snd q \<notin> set sel"
  using that by (cases q) (auto simp: select_step_def rank_def Let_def set_insort_key)

lemma select_step_chosen: "chosen sel \<Longrightarrow> chosen (select_step ls b q sel)"
  by (cases q) (auto simp: select_step_def Let_def sorted_insort distinct_insort)

lemma select_fold:
  assumes "chosen sel"
  shows "chosen (fold (select_step ls b) qs sel)"
    and "set sel \<subseteq> set (fold (select_step ls b) qs sel)"
    and "i \<in> set (fold (select_step ls b) qs sel) \<Longrightarrow> i \<in> set sel \<or> rank ls i \<in> set qs"
proof -
  have "chosen (fold (select_step ls b) qs sel) \<and> set sel \<subseteq> set (fold (select_step ls b) qs sel)
      \<and> (\<forall>i \<in> set (fold (select_step ls b) qs sel). i \<in> set sel \<or> rank ls i \<in> set qs)"
    using assms
  proof (induction qs arbitrary: sel)
    case (Cons q qs)
    have s: "set sel \<subseteq> set (select_step ls b q sel) \<and> (\<forall>i \<in> set (select_step ls b q sel). i \<in> set sel \<or> rank ls i = q)"
      by (cases q) (auto simp: select_step_def rank_def Let_def set_insort_key)
    from Cons.IH [OF select_step_chosen [OF Cons.prems, of ls b q]] s show ?case by fastforce
  qed simp
  then show "chosen (fold (select_step ls b) qs sel)" "set sel \<subseteq> set (fold (select_step ls b) qs sel)"
    "i \<in> set (fold (select_step ls b) qs sel) \<Longrightarrow> i \<in> set sel \<or> rank ls i \<in> set qs" by blast+
qed

lemma line_priority_less: "line_priority l < 4"
  by (simp add: line_priority_def)


definition earlier :: "nat \<times> nat \<Rightarrow> nat \<times> nat \<Rightarrow> bool" where
  "earlier q r \<longleftrightarrow> fst q < fst r \<or> (fst q = fst r \<and> snd q < snd r)"

lemma product_sorted: "sorted_wrt earlier (List.product [0..<m] [0..<n])"
proof (induction m)
  case (Suc m)
  have "List.product [0..<Suc m] [0..<n] = List.product [0..<m] [0..<n] @ map (Pair m) [0..<n]"
    by (simp add: product_concat_map)
  then show ?case using Suc by (auto simp: sorted_wrt_append sorted_wrt_map earlier_def)
qed simp

lemma before_rank: "before ls j i \<longleftrightarrow> earlier (rank ls j) (rank ls i)"
  by (simp add: before_def earlier_def rank_def)

lemma select_greedy:
  assumes "i < length ls" and "sel = select_line_indexes ls b"
  shows "i \<in> set sel \<longleftrightarrow> fits b (map (\<lambda>j. ls ! j) (filter (\<lambda>j. before ls j i) sel) @ [ls ! i])"
proof -
  let ?qs = "List.product [0..<4] [0..<length ls]" and ?step = "select_step ls b"
  have "rank ls i \<in> set ?qs" using assms(1) line_priority_less by (simp add: rank_def)
  then obtain qs rs where q: "?qs = qs @ rank ls i # rs" by (meson split_list)
  define s1 where "s1 = fold ?step qs []"
  define s2 where "s2 = ?step (rank ls i) s1"
  have sel: "sel = fold ?step rs s2" by (simp add: assms(2) select_line_indexes_def q s1_def s2_def)
  from product_sorted [of 4 "length ls", unfolded q]
  have e: "\<forall>r \<in> set qs. earlier r (rank ls i)" "\<forall>r \<in> set rs. earlier (rank ls i) r" by (auto simp: sorted_wrt_append)
  have c1: "chosen s1" unfolding s1_def by (rule select_fold(1)) simp
  have c2: "chosen s2" unfolding s2_def by (rule select_step_chosen [OF c1])
  have c: "chosen sel" unfolding sel by (rule select_fold(1) [OF c2])
  have m1: "before ls j i" if "j \<in> set s1" for j
    using that select_fold(3) [of "[]" j ls b qs] e(1) by (auto simp: s1_def before_rank)
  then have n1: "i \<notin> set s1" by (auto simp: before_def)
  have m2: "set s2 = set s1 \<union> (if fits b (map (\<lambda>j. ls ! j) s1 @ [ls ! i]) then {i} else {})"
    using select_step_set [of "rank ls i" s1 ls b] n1 by (simp add: s2_def rank_def)
  have later: "\<not> before ls j i \<and> j \<noteq> i" if "j \<in> set sel" "j \<notin> set s2" for j
    using that select_fold(3) [OF c2, of j ls b rs] e(2) by (force simp: sel before_rank earlier_def)
  have "set (filter (\<lambda>j. before ls j i) sel) = set s1"
    using m1 m2 later select_fold(2) [OF c2, of ls b rs] by (auto simp: sel before_def split: if_splits)
  then have "filter (\<lambda>j. before ls j i) sel = s1" using c c1 by (intro sorted_distinct_set_unique) (simp_all add: sorted_wrt_filter)
  then show ?thesis using m2 n1 later select_fold(2) [OF c2, of ls b rs] by (auto simp: sel split: if_splits)
qed

lemma select_chosen: "chosen (select_line_indexes ls b)"
  unfolding select_line_indexes_def by (rule select_fold(1)) simp

lemma select_indexes: "i \<in> set (select_line_indexes ls b) \<Longrightarrow> i < length ls"
  using select_fold(3) [of "[]" i ls b] by (force simp: select_line_indexes_def rank_def)


lemma fits_perm: "mset xs = mset ys \<Longrightarrow> fits b xs \<longleftrightarrow> fits b ys"
proof -
  assume "mset xs = mset ys"
  then have "length xs = length ys" "sum_list (map length xs) = sum_list (map length ys)"
    by (metis size_mset) (metis \<open>mset xs = mset ys\<close> mset_map sum_mset_sum_list)
  then show ?thesis by (simp add: fits_def joined_char_count_def)
qed

lemma select_fits: "select_line_indexes ls b = [] \<or> fits b (map (\<lambda>i. ls ! i) (select_line_indexes ls b))"
proof -
  have "fold (select_step ls b) qs sel = [] \<or> fits b (map (\<lambda>i. ls ! i) (fold (select_step ls b) qs sel))"
    if "sel = [] \<or> fits b (map (\<lambda>i. ls ! i) sel)" for qs sel
    using that
  proof (induction qs arbitrary: sel)
    case (Cons q qs)
    have "fits b (map (\<lambda>i. ls ! i) (insort k sel)) \<longleftrightarrow> fits b (map (\<lambda>i. ls ! i) sel @ [ls ! k])" for k
      by (rule fits_perm) simp
    then have "select_step ls b q sel = [] \<or> fits b (map (\<lambda>i. ls ! i) (select_step ls b q sel))"
      using Cons.prems by (cases q) (auto simp: select_step_def Let_def)
    from Cons.IH [OF this] show ?case by simp
  qed simp
  then show ?thesis by (simp add: select_line_indexes_def)
qed

lemma length_truncate_line: "0 < n \<Longrightarrow> length (truncate_line l n) \<le> n"
  by (auto simp: truncate_line_def)

lemma push_fits: "fits b ls \<Longrightarrow> fits b (push_line_with_budget ls l b)"
  by (simp add: push_line_with_budget_def)

lemma truncate_line_Nil [simp]: "truncate_line l n = [] \<longleftrightarrow> l = []"
  by (auto simp: truncate_line_def)

lemma normalize_loop_lines:
  assumes "[] \<notin> set (ns_lines acc)" and "distinct (map dedupe_key (ns_lines acc))" and "seen = dedupe_key ` set (ns_lines acc)"
  shows "[] \<notin> set (ns_lines (normalize_loop n raw seen acc)) \<and> distinct (map dedupe_key (ns_lines (normalize_loop n raw seen acc)))"
  using assms
proof (induction raw arbitrary: seen acc)
  case (Cons r raw)
  let ?l = "collapse_inline_whitespace r" and ?t = "truncate_line (collapse_inline_whitespace r) n"
  consider "?l = []" | "?l \<noteq> []" "dedupe_key ?t \<in> seen" | "?l \<noteq> []" "dedupe_key ?t \<notin> seen" by blast
  then show ?case
  proof cases
    case 2
    with Cons.IH [of "acc\<lparr>ns_removed_duplicate_lines := ns_removed_duplicate_lines acc + 1\<rparr>" seen] Cons.prems show ?thesis
      by (simp add: Let_def)
  next
    case 3
    then have "[] \<noteq> ?t" by (metis truncate_line_Nil)
    with 3 Cons.IH [of "acc\<lparr>ns_lines := ns_lines acc @ [?t]\<rparr>" "insert (dedupe_key ?t) seen"] Cons.prems show ?thesis
      by (simp add: Let_def)
  qed (use Cons in \<open>simp_all add: Let_def\<close>)
qed simp

lemma normalized_lines:
  "[] \<notin> set (ns_lines (normalize_lines summary n))" "distinct (map dedupe_key (ns_lines (normalize_lines summary n)))"
  using normalize_loop_lines [of "\<lparr>ns_lines = [], ns_removed_duplicate_lines = 0\<rparr>"] by (simp_all add: normalize_lines_def)

section \<open>Properties\<close>

text \<open>A compressed summary never has more characters or lines than the budget allows, for any text and any budget, zero
  included, and the counts it reports are those of the text it returns.\<close>

theorem compress_within_budget:
  "length (sc_summary (compress_summary summary b)) \<le> sb_max_chars b
   \<and> sc_compressed_lines (compress_summary summary b) \<le> sb_max_lines b
   \<and> sc_compressed_chars (compress_summary summary b) = length (sc_summary (compress_summary summary b))"
proof -
  let ?ls = "ns_lines (normalize_lines summary (sb_max_line_chars b))"
  let ?sel = "map (\<lambda>i. ?ls ! i) (select_line_indexes ?ls b)"
  let ?kept = "if ?sel = [] then [truncate_line (?ls ! 0) (sb_max_chars b)] else ?sel"
  show ?thesis
  proof (cases "?ls = [] \<or> sb_max_chars b = 0 \<or> sb_max_lines b = 0")
    case False
    have "fits b [truncate_line (?ls ! 0) (sb_max_chars b)]"
      using False length_truncate_line [of "sb_max_chars b"] by (simp add: fits_def joined_char_count_def Suc_le_eq)
    then have "fits b ?kept" using select_fits [of ?ls b] by auto
    then have "fits b ?kept" "fits b (push_line_with_budget ?kept (omission_notice (length ?ls - length ?kept)) b)"
      by (simp_all add: push_fits)
    then show ?thesis using False by (auto simp: compress_summary_def Let_def fits_def joined_char_count_join)
  qed (auto simp: compress_summary_def Let_def)
qed



end
