(* ===== verification/Branches.thy ===== *)
theory Branches
  imports Sse "HOL-Library.Product_Lexorder"
begin

text \<open>
  The checks before a lane works on a branch: collisions between the modules that lanes claim (\<^verbatim>\<open>branch_lock.rs\<close>), how far a branch
  is behind the main one and what to do about it (\<^verbatim>\<open>stale_branch.rs\<close>), and whether the work tree is at the expected commit
  (\<^verbatim>\<open>stale_base.rs\<close>). The program \<^verbatim>\<open>git\<close> is an argument: from its arguments to its status and output, or nothing if it
  cannot be started. Collisions are reported exactly for overlapping claims; failing calls of \<^verbatim>\<open>git\<close> make a branch look fresh.
\<close>

section \<open>Definitions\<close>

subsection \<open>Branch locks\<close>

record BranchLockIntent =
  bl_lane_id :: ustr
  bl_branch :: ustr
  bl_worktree :: "ustr option"
  bl_modules :: "ustr list"

record BranchLockCollision =
  bc_branch :: ustr
  bc_module :: ustr
  bc_lane_ids :: "ustr list"

definition modules_overlap :: "ustr \<Rightarrow> ustr \<Rightarrow> bool" where
  "modules_overlap left right \<longleftrightarrow> left = right \<or> starts_with (right @ lit ''/'') left \<or> starts_with (left @ lit ''/'') right"

definition shared_scope :: "ustr \<Rightarrow> ustr \<Rightarrow> ustr" where
  "shared_scope left right = (if starts_with (right @ lit ''/'') left \<or> left = right then right else left)"

definition overlapping_modules :: "ustr list \<Rightarrow> ustr list \<Rightarrow> ustr list" where
  "overlapping_modules left right =
     remdups_adj (sort (concat (map (\<lambda>l. List.map_filter (\<lambda>r. if modules_overlap l r then Some (shared_scope l r) else None) right) left)))"

definition collisions_between :: "BranchLockIntent \<Rightarrow> BranchLockIntent \<Rightarrow> BranchLockCollision list" where
  "collisions_between left right =
     (if bl_branch left \<noteq> bl_branch right then []
      else map (\<lambda>m. \<lparr>bc_branch = bl_branch left, bc_module = m, bc_lane_ids = [bl_lane_id left, bl_lane_id right]\<rparr>)
             (overlapping_modules (bl_modules left) (bl_modules right)))"

fun all_collisions :: "BranchLockIntent list \<Rightarrow> BranchLockCollision list" where
  "all_collisions [] = []"
| "all_collisions (left # rest) = concat (map (collisions_between left) rest) @ all_collisions rest"

definition collision_key :: "BranchLockCollision \<Rightarrow> ustr \<times> ustr \<times> ustr list" where
  "collision_key c = (bc_branch c, bc_module c, bc_lane_ids c)"

definition detect_branch_lock_collisions :: "BranchLockIntent list \<Rightarrow> BranchLockCollision list" where
  "detect_branch_lock_collisions intents = remdups_adj (sort_key collision_key (all_collisions intents))"

subsection \<open>Calls of git\<close>

text \<open>From the arguments to whether the call succeeded and what it printed.\<close>

type_synonym git = "ustr list \<Rightarrow> (bool \<times> u8 list) option"

definition lossy :: "u8 list \<Rightarrow> ustr" where
  "lossy out = from_utf8_lossy (map unat out)"

text \<open>\<^verbatim>\<open>String::from_utf8\<close>: the bytes are well formed if decoding and encoding them gives them back.\<close>

definition from_utf8 :: "u8 list \<Rightarrow> ustr option" where
  "from_utf8 out = (if encode_utf8 (lossy out) = out then Some (lossy out) else None)"

subsection \<open>Stale branches\<close>

datatype BranchFreshness =
    Fresh
  | Stale nat "ustr list"
  | Diverged nat nat "ustr list"

datatype StaleBranchPolicy = AutoRebase | AutoMergeForward | WarnOnly | Block

datatype StaleBranchEvent =
    BranchStaleAgainstMain ustr nat "ustr list"
  | RebaseAttempted ustr ustr
  | MergeForwardAttempted ustr ustr

datatype StaleBranchAction = Noop | Warn ustr | BlockAction ustr | Rebase | MergeForward

definition rev_range :: "ustr \<Rightarrow> ustr \<Rightarrow> ustr" where
  "rev_range b a = b @ lit ''..'' @ a"

definition rev_list_count :: "git \<Rightarrow> ustr \<Rightarrow> ustr \<Rightarrow> nat" where
  "rev_list_count git a b =
     (case git [lit ''rev-list'', lit ''--count'', rev_range b a] of
        Some (True, out) \<Rightarrow> (case parse_u64 (trim (lossy out)) of Some n \<Rightarrow> unat n | None \<Rightarrow> 0)
      | _ \<Rightarrow> 0)"

definition missing_fix_subjects :: "git \<Rightarrow> ustr \<Rightarrow> ustr \<Rightarrow> ustr list" where
  "missing_fix_subjects git a b =
     (case git [lit ''log'', lit ''--format=%s'', rev_range b a] of
        Some (True, out) \<Rightarrow> filter (\<lambda>l. l \<noteq> []) (lines (lossy out))
      | _ \<Rightarrow> [])"

definition check_freshness_in :: "git \<Rightarrow> ustr \<Rightarrow> ustr \<Rightarrow> BranchFreshness" where
  "check_freshness_in git branch main_ref =
     (let behind = rev_list_count git main_ref branch; ahead = rev_list_count git branch main_ref
      in if behind = 0 then Fresh
         else if ahead > 0 then Diverged ahead behind (missing_fix_subjects git main_ref branch)
         else Stale behind (missing_fix_subjects git main_ref branch))"

definition format_missing_fixes :: "ustr list \<Rightarrow> ustr" where
  "format_missing_fixes missing_fixes = (if missing_fixes = [] then lit ''(none)'' else join (lit ''; '') missing_fixes)"

fun apply_policy :: "BranchFreshness \<Rightarrow> StaleBranchPolicy \<Rightarrow> StaleBranchAction" where
  "apply_policy Fresh policy = Noop"
| "apply_policy (Stale commits_behind missing_fixes) policy =
     (case policy of
        WarnOnly \<Rightarrow> Warn (lit ''Branch is '' @ show_nat commits_behind @ lit '' commit(s) behind main. Missing fixes: ''
                       @ format_missing_fixes missing_fixes)
      | Block \<Rightarrow> BlockAction (lit ''Branch is '' @ show_nat commits_behind
                       @ lit '' commit(s) behind main and must be updated before proceeding.'')
      | AutoRebase \<Rightarrow> Rebase
      | AutoMergeForward \<Rightarrow> MergeForward)"
| "apply_policy (Diverged ahead behind missing_fixes) policy =
     (case policy of
        WarnOnly \<Rightarrow> Warn (lit ''Branch has diverged: '' @ show_nat ahead @ lit '' commit(s) ahead, '' @ show_nat behind
                       @ lit '' commit(s) behind main. Missing fixes: '' @ format_missing_fixes missing_fixes)
      | Block \<Rightarrow> BlockAction (lit ''Branch has diverged ('' @ show_nat ahead @ lit '' ahead, '' @ show_nat behind
                       @ lit '' behind) and must be reconciled before proceeding. Missing fixes: '' @ format_missing_fixes missing_fixes)
      | AutoRebase \<Rightarrow> Rebase
      | AutoMergeForward \<Rightarrow> MergeForward)"

subsection \<open>The expected base commit\<close>

datatype BaseCommitState =
    Matches
  | BaseDiverged ustr ustr
  | NoExpectedBase
  | NotAGitRepo

datatype BaseCommitSource = BaseFlag ustr | BaseFile ustr

definition read_claw_base_file :: "ustr option \<Rightarrow> ustr option" where
  "read_claw_base_file content =
     Option.bind content (\<lambda>c. if trim c = [] then None else Some (trim c))"

definition resolve_expected_base :: "ustr option \<Rightarrow> ustr option \<Rightarrow> BaseCommitSource option" where
  "resolve_expected_base flag_value content =
     (case flag_value of
        Some v \<Rightarrow> if trim v \<noteq> [] then Some (BaseFlag (trim v)) else map_option BaseFile (read_claw_base_file content)
      | None \<Rightarrow> map_option BaseFile (read_claw_base_file content))"

definition resolve_rev :: "git \<Rightarrow> ustr \<Rightarrow> ustr option" where
  "resolve_rev git revision =
     (case git [lit ''rev-parse'', revision] of
        Some (True, out) \<Rightarrow> Option.bind (from_utf8 out) (\<lambda>sha. if trim sha = [] then None else Some (trim sha))
      | _ \<Rightarrow> None)"

definition resolve_head_sha :: "git \<Rightarrow> ustr option" where
  "resolve_head_sha git = resolve_rev git (lit ''HEAD'')"

definition source_text :: "BaseCommitSource \<Rightarrow> ustr" where
  "source_text s = (case s of BaseFlag v \<Rightarrow> v | BaseFile v \<Rightarrow> v)"

definition check_base_commit :: "git \<Rightarrow> BaseCommitSource option \<Rightarrow> BaseCommitState" where
  "check_base_commit git expected_base =
     (case expected_base of
        None \<Rightarrow> NoExpectedBase
      | Some source \<Rightarrow>
          let expected_raw = source_text source
          in case resolve_head_sha git of
               None \<Rightarrow> NotAGitRepo
             | Some head_sha \<Rightarrow>
                 (case resolve_rev git expected_raw of
                    None \<Rightarrow> if starts_with expected_raw head_sha \<or> starts_with head_sha expected_raw then Matches
                            else BaseDiverged expected_raw head_sha
                  | Some expected_sha \<Rightarrow> if head_sha = expected_sha then Matches else BaseDiverged expected_sha head_sha))"

text \<open>The dash in the second text is \<^verbatim>\<open>U+2014\<close>.\<close>

definition format_stale_base_warning :: "BaseCommitState \<Rightarrow> ustr option" where
  "format_stale_base_warning state =
     (case state of
        BaseDiverged expected actual \<Rightarrow>
          Some (lit ''warning: worktree HEAD ('' @ actual @ lit '') does not match expected base commit ('' @ expected
            @ lit ''). Session may run against a stale codebase.'')
      | NotAGitRepo \<Rightarrow> Some (lit ''warning: stale-base check skipped '' @ [8212] @ lit '' not inside a git repository.'')
      | _ \<Rightarrow> None)"


section \<open>Lemmas\<close>

lemma overlapping_modules_set:
  "set (overlapping_modules left right) = {shared_scope l r | l r. l \<in> set left \<and> r \<in> set right \<and> modules_overlap l r}"
  by (auto simp: overlapping_modules_def List.map_filter_def image_iff split: if_splits)

lemma all_collisions_set:
  "c \<in> set (all_collisions xs) \<longleftrightarrow> (\<exists>i j. i < j \<and> j < length xs \<and> c \<in> set (collisions_between (xs ! i) (xs ! j)))"
proof (induction xs)
  case (Cons x xs)
  have "(\<exists>i j. i < j \<and> j < length (x # xs) \<and> c \<in> set (collisions_between ((x # xs) ! i) ((x # xs) ! j)))
      \<longleftrightarrow> (\<exists>j < length xs. c \<in> set (collisions_between x (xs ! j)))
        \<or> (\<exists>i j. i < j \<and> j < length xs \<and> c \<in> set (collisions_between (xs ! i) (xs ! j)))" (is "?l \<longleftrightarrow> ?r")
  proof
    assume ?l
    then obtain i j where "i < j" "j < length (x # xs)" "c \<in> set (collisions_between ((x # xs) ! i) ((x # xs) ! j))" by blast
    then show ?r by (cases i; cases j) auto
  next
    assume ?r
    then show ?l
    proof
      assume "\<exists>j < length xs. c \<in> set (collisions_between x (xs ! j))"
      then obtain j where "j < length xs" "c \<in> set (collisions_between x (xs ! j))" by blast
      then show ?l by (intro exI [of _ 0] exI [of _ "Suc j"]) simp
    next
      assume "\<exists>i j. i < j \<and> j < length xs \<and> c \<in> set (collisions_between (xs ! i) (xs ! j))"
      then obtain i j where "i < j" "j < length xs" "c \<in> set (collisions_between (xs ! i) (xs ! j))" by blast
      then show ?l by (intro exI [of _ "Suc i"] exI [of _ "Suc j"]) simp
    qed
  qed
  moreover have "c \<in> set (all_collisions (x # xs)) \<longleftrightarrow> (\<exists>j < length xs. c \<in> set (collisions_between x (xs ! j))) \<or> c \<in> set (all_collisions xs)"
    by simp (metis in_set_conv_nth)
  ultimately show ?case using Cons.IH by simp
qed simp

lemma inj_collision_key: "inj collision_key"
  by (rule injI) (simp add: collision_key_def)

text \<open>A module lies within another one: it is the same or below it.\<close>

definition within :: "ustr \<Rightarrow> ustr \<Rightarrow> bool" where
  "within outer m \<longleftrightarrow> m = outer \<or> starts_with (outer @ lit ''/'') m"

lemma overlap_scope:
  "modules_overlap l r \<and> m = shared_scope l r \<longleftrightarrow> (m = l \<or> m = r) \<and> within m l \<and> within m r"
  (is "?a \<longleftrightarrow> ?b")
proof
  show "?a \<Longrightarrow> ?b" by (auto simp: modules_overlap_def shared_scope_def within_def)
next
  assume b: ?b
  have "False" if "starts_with (l @ lit ''/'') r" "starts_with (r @ lit ''/'') l"
    using that by (auto simp: starts_with_iff)
  then show ?a using b by (auto simp: modules_overlap_def shared_scope_def within_def)
qed


lemma strict_collisions: "sorted_wrt (<) (map collision_key (detect_branch_lock_collisions intents))"
proof -
  have "map collision_key (detect_branch_lock_collisions intents)
      = remdups_adj (map collision_key (sort_key collision_key (all_collisions intents)))"
    by (simp add: detect_branch_lock_collisions_def remdups_adj_map_injective inj_collision_key)
  then show ?thesis by (simp add: sorted_distinct_remdups_adj)
qed

section \<open>Properties\<close>

text \<open>A collision is reported exactly for two different claims on the same branch of which one module lies within the other;
  it names the outer module and the lanes in the order of the claims. The report is sorted and has no duplicates.\<close>

theorem collisions_are_overlapping_claims:
  "set (detect_branch_lock_collisions intents) =
     {\<lparr>bc_branch = bl_branch (intents ! i), bc_module = m, bc_lane_ids = [bl_lane_id (intents ! i), bl_lane_id (intents ! j)]\<rparr> | i j m.
        i < j \<and> j < length intents \<and> bl_branch (intents ! i) = bl_branch (intents ! j)
        \<and> (\<exists>l \<in> set (bl_modules (intents ! i)). \<exists>r \<in> set (bl_modules (intents ! j)). (m = l \<or> m = r) \<and> within m l \<and> within m r)}
   \<and> sorted_wrt (<) (map collision_key (detect_branch_lock_collisions intents))"
proof -
  have "c \<in> set (collisions_between a b) \<longleftrightarrow> (\<exists>m. c = \<lparr>bc_branch = bl_branch a, bc_module = m, bc_lane_ids = [bl_lane_id a, bl_lane_id b]\<rparr>
      \<and> bl_branch a = bl_branch b
      \<and> (\<exists>l \<in> set (bl_modules a). \<exists>r \<in> set (bl_modules b). (m = l \<or> m = r) \<and> within m l \<and> within m r))" for a b c
    unfolding collisions_between_def overlap_scope [symmetric] by (auto simp: overlapping_modules_set)
  note cb = this
  have "c \<in> set (detect_branch_lock_collisions intents)
      \<longleftrightarrow> (\<exists>i j. i < j \<and> j < length intents \<and> c \<in> set (collisions_between (intents ! i) (intents ! j)))" for c
    by (simp add: detect_branch_lock_collisions_def all_collisions_set)
  then show ?thesis using strict_collisions by (simp only: set_eq_iff mem_Collect_eq cb) blast
qed

text \<open>A call of \<^verbatim>\<open>git\<close> that fails makes every branch fresh, so a policy that blocks stale branches lets it pass.\<close>

lemma failed_git_is_fresh:
  assumes "git [lit ''rev-list'', lit ''--count'', rev_range branch main_ref] = None
    \<or> fst (the (git [lit ''rev-list'', lit ''--count'', rev_range branch main_ref])) = False"
  shows "apply_policy (check_freshness_in git branch main_ref) policy = Noop"
  using assms by (auto simp: check_freshness_in_def rev_list_count_def split: option.splits)

lemma apply_policy_Noop_iff: "apply_policy f policy = Noop \<longleftrightarrow> f = Fresh"
  by (cases f; cases policy) simp_all

lemma base_matches_iff:
  assumes "resolve_rev git (source_text source) = Some sha"
  shows "check_base_commit git (Some source) = Matches \<longleftrightarrow> resolve_head_sha git = Some sha"
  using assms by (auto simp: check_base_commit_def Let_def split: option.splits)

end
