(* ===== verification/Lane_Events.thy ===== *)
theory Lane_Events
  imports Paths "HOL-Library.Multiset"
begin

text \<open>
  The events that lanes report, \<^verbatim>\<open>lane_events.rs\<close>, and the classification of a failure text (\<^verbatim>\<open>tools/src/lib.rs\<close>): events with their
  metadata and builders, fingerprints of terminal events, the reconciliation of a burst of events into one outcome, the removal
  of duplicates and of superseded commits, nudges and roadmap items. SHA-256 and \<^verbatim>\<open>serde_json::to_vec\<close> are arguments, and so is
  the clock.
\<close>

section \<open>Definitions\<close>

subsection \<open>Events\<close>

datatype LaneEventName =
    LaneStarted | LaneReady | LanePromptMisdelivery | LaneBlocked | LaneRed | LaneGreen | LaneCommitCreated | LanePrOpened
  | LaneMergeReady | LaneFinished | LaneFailed | LaneReconciled | LaneMerged | LaneSuperseded | LaneClosed
  | LaneBranchStaleAgainstMain | LaneBranchWorkspaceMismatch
  | LaneShipPrepared | LaneShipCommitsSelected | LaneShipMerged | LaneShipPushedMain

datatype LaneEventStatus =
    StRunning | StReady | StBlocked | StRed | StGreen | StCompleted | StFailed | StReconciled | StMerged | StSuperseded | StClosed

datatype LaneFailureClass =
    FcPromptDelivery | FcTrustGate | FcBranchDivergence | FcCompile | FcTest | FcPluginStartup | FcMcpStartup | FcMcpHandshake
  | FcGatewayRouting | FcToolRuntime | FcWorkspaceMismatch | FcInfra

text \<open>The names under which \<^verbatim>\<open>serde\<close> writes them.\<close>

fun event_name :: "LaneEventName \<Rightarrow> ustr" where
  "event_name LaneStarted = lit ''lane.started''"
| "event_name LaneReady = lit ''lane.ready''"
| "event_name LanePromptMisdelivery = lit ''lane.prompt_misdelivery''"
| "event_name LaneBlocked = lit ''lane.blocked''"
| "event_name LaneRed = lit ''lane.red''"
| "event_name LaneGreen = lit ''lane.green''"
| "event_name LaneCommitCreated = lit ''lane.commit.created''"
| "event_name LanePrOpened = lit ''lane.pr.opened''"
| "event_name LaneMergeReady = lit ''lane.merge.ready''"
| "event_name LaneFinished = lit ''lane.finished''"
| "event_name LaneFailed = lit ''lane.failed''"
| "event_name LaneReconciled = lit ''lane.reconciled''"
| "event_name LaneMerged = lit ''lane.merged''"
| "event_name LaneSuperseded = lit ''lane.superseded''"
| "event_name LaneClosed = lit ''lane.closed''"
| "event_name LaneBranchStaleAgainstMain = lit ''branch.stale_against_main''"
| "event_name LaneBranchWorkspaceMismatch = lit ''branch.workspace_mismatch''"
| "event_name LaneShipPrepared = lit ''ship.prepared''"
| "event_name LaneShipCommitsSelected = lit ''ship.commits_selected''"
| "event_name LaneShipMerged = lit ''ship.merged''"
| "event_name LaneShipPushedMain = lit ''ship.pushed_main''"

fun status_name :: "LaneEventStatus \<Rightarrow> ustr" where
  "status_name StRunning = lit ''running''"
| "status_name StReady = lit ''ready''"
| "status_name StBlocked = lit ''blocked''"
| "status_name StRed = lit ''red''"
| "status_name StGreen = lit ''green''"
| "status_name StCompleted = lit ''completed''"
| "status_name StFailed = lit ''failed''"
| "status_name StReconciled = lit ''reconciled''"
| "status_name StMerged = lit ''merged''"
| "status_name StSuperseded = lit ''superseded''"
| "status_name StClosed = lit ''closed''"

datatype EventProvenance = LiveLane | TestSource | Healthcheck | Replay | Transport

record SessionIdentity =
  si_title :: ustr
  si_workspace :: ustr
  si_purpose :: ustr
  si_placeholder_reason :: "ustr option"

definition SessionIdentity_new :: "ustr \<Rightarrow> ustr \<Rightarrow> ustr \<Rightarrow> SessionIdentity" where
  "SessionIdentity_new title workspace purpose =
     \<lparr>si_title = title, si_workspace = workspace, si_purpose = purpose, si_placeholder_reason = None\<rparr>"

definition with_placeholder :: "ustr \<Rightarrow> ustr \<Rightarrow> ustr \<Rightarrow> ustr \<Rightarrow> SessionIdentity" where
  "with_placeholder title workspace purpose reason =
     \<lparr>si_title = title, si_workspace = workspace, si_purpose = purpose, si_placeholder_reason = Some reason\<rparr>"

definition or_else :: "'a \<Rightarrow> 'a option \<Rightarrow> 'a" where
  "or_else d x = (case x of Some y \<Rightarrow> y | None \<Rightarrow> d)"

definition reconcile_enriched :: "ustr option \<Rightarrow> ustr option \<Rightarrow> ustr option \<Rightarrow> SessionIdentity \<Rightarrow> SessionIdentity" where
  "reconcile_enriched title workspace purpose i =
     (let has_new_data = title \<noteq> None \<or> workspace \<noteq> None \<or> purpose \<noteq> None
      in \<lparr>si_title = or_else (si_title i) title, si_workspace = or_else (si_workspace i) workspace,
          si_purpose = or_else (si_purpose i) purpose,
          si_placeholder_reason = (if has_new_data then None else si_placeholder_reason i)\<rparr>)"

datatype WatcherAction = Act | Observe | Ignore

record LaneOwnership =
  lo_owner :: ustr
  lo_workflow_scope :: ustr
  lo_watcher_action :: WatcherAction

datatype ConfidenceLevel = High | Medium | Low | UnknownConfidence

record LaneEventMetadata =
  md_seq :: u64
  md_provenance :: EventProvenance
  md_session_identity :: "SessionIdentity option"
  md_ownership :: "LaneOwnership option"
  md_nudge_id :: "ustr option"
  md_event_fingerprint :: "ustr option"
  md_timestamp_ms :: u64
  md_environment_label :: "ustr option"
  md_emitter_identity :: "ustr option"
  md_confidence_level :: "ConfidenceLevel option"

definition LaneEventMetadata_new :: "u64 \<Rightarrow> u64 \<Rightarrow> EventProvenance \<Rightarrow> LaneEventMetadata" where
  "LaneEventMetadata_new now seq provenance =
     \<lparr>md_seq = seq, md_provenance = provenance, md_session_identity = None, md_ownership = None, md_nudge_id = None,
      md_event_fingerprint = None, md_timestamp_ms = now, md_environment_label = None, md_emitter_identity = None,
      md_confidence_level = None\<rparr>"

record LaneEvent =
  le_event :: LaneEventName
  le_status :: LaneEventStatus
  le_emitted_at :: ustr
  le_failure_class :: "LaneFailureClass option"
  le_detail :: "ustr option"
  le_data :: "Value option"
  le_metadata :: LaneEventMetadata

subsection \<open>Fingerprints\<close>

text \<open>SHA-256 and \<^verbatim>\<open>serde_json::to_vec\<close>.\<close>

record hasher =
  h_digest :: "u8 list \<Rightarrow> u8 list"
  h_to_vec :: "Value \<Rightarrow> u8 list option"

definition is_terminal_event :: "LaneEventName \<Rightarrow> bool" where
  "is_terminal_event e \<longleftrightarrow> e \<in> {LaneFinished, LaneFailed, LaneSuperseded, LaneClosed, LaneMerged}"

definition hex_byte :: "u8 \<Rightarrow> ustr" where
  "hex_byte b = [hex_lower (unat b div 16), hex_lower (unat b mod 16)]"

definition compute_event_fingerprint :: "hasher \<Rightarrow> LaneEventName \<Rightarrow> LaneEventStatus \<Rightarrow> Value option \<Rightarrow> ustr" where
  "compute_event_fingerprint h e status data =
     (let payload = json_object [(''event'', String (event_name e)), (''status'', String (status_name status)),
                                 (''data'', or_else Null data)];
          canonical = or_else [] (h_to_vec h payload)
      in concat (map hex_byte (take 8 (h_digest h canonical))))"

definition with_terminal_fingerprint :: "hasher \<Rightarrow> LaneEvent \<Rightarrow> LaneEvent" where
  "with_terminal_fingerprint h ev =
     (if is_terminal_event (le_event ev)
      then ev\<lparr>le_metadata := (le_metadata ev)\<lparr>md_event_fingerprint :=
             Some (compute_event_fingerprint h (le_event ev) (le_status ev) (le_data ev))\<rparr>\<rparr>
      else ev)"

subsection \<open>Constructors\<close>

definition LaneEvent_new :: "u64 \<Rightarrow> LaneEventName \<Rightarrow> LaneEventStatus \<Rightarrow> ustr \<Rightarrow> LaneEvent" where
  "LaneEvent_new now e status emitted_at =
     \<lparr>le_event = e, le_status = status, le_emitted_at = emitted_at, le_failure_class = None, le_detail = None, le_data = None,
      le_metadata = LaneEventMetadata_new now 0 LiveLane\<rparr>"

definition with_data :: "hasher \<Rightarrow> Value \<Rightarrow> LaneEvent \<Rightarrow> LaneEvent" where
  "with_data h v ev =
     (let ev' = ev\<lparr>le_data := Some v\<rparr>
      in if is_terminal_event (le_event ev') then with_terminal_fingerprint h ev' else ev')"

record LaneCommitProvenance =
  cp_commit :: ustr
  cp_branch :: ustr
  cp_worktree :: "ustr option"
  cp_canonical_commit :: "ustr option"
  cp_superseded_by :: "ustr option"
  cp_lineage :: "ustr list"

definition optional_string :: "string \<Rightarrow> ustr option \<Rightarrow> (string \<times> Value) list" where
  "optional_string k x = (case x of Some s \<Rightarrow> [(k, String s)] | None \<Rightarrow> [])"

definition commit_provenance_to_value :: "LaneCommitProvenance \<Rightarrow> Value" where
  "commit_provenance_to_value p = json_object
     ([(''commit'', String (cp_commit p)), (''branch'', String (cp_branch p))]
      @ optional_string ''worktree'' (cp_worktree p) @ optional_string ''canonicalCommit'' (cp_canonical_commit p)
      @ optional_string ''supersededBy'' (cp_superseded_by p)
      @ (if cp_lineage p = [] then [] else [(''lineage'', Array (map String (cp_lineage p)))]))"

datatype BlockedSubphase =
    SubTrustPrompt ustr
  | SubPromptDelivery u32
  | SubPluginInit ustr
  | SubMcpHandshake ustr u32
  | SubBranchFreshness u32
  | SubTestHang u32 "ustr option"
  | SubReportPending u32

fun subphase_to_value :: "BlockedSubphase \<Rightarrow> Value" where
  "subphase_to_value (SubTrustPrompt r) = json_object [(''blocked.trust_prompt'', json_object [(''gate_repo'', String r)])]"
| "subphase_to_value (SubPromptDelivery n) = json_object [(''blocked.prompt_delivery'', json_object [(''attempt'', json_u32 n)])]"
| "subphase_to_value (SubPluginInit s) = json_object [(''blocked.plugin_init'', json_object [(''plugin_name'', String s)])]"
| "subphase_to_value (SubMcpHandshake s n) =
     json_object [(''blocked.mcp_handshake'', json_object [(''server_name'', String s), (''attempt'', json_u32 n)])]"
| "subphase_to_value (SubBranchFreshness n) =
     json_object [(''blocked.branch_freshness'', json_object [(''behind_main'', json_u32 n)])]"
| "subphase_to_value (SubTestHang n s) =
     json_object [(''blocked.test_hang'', json_object [(''elapsed_secs'', json_u32 n), (''test_name'', json_option s)])]"
| "subphase_to_value (SubReportPending n) = json_object [(''blocked.report_pending'', json_object [(''since_secs'', json_u32 n)])]"

record LaneEventBlocker =
  lb_failure_class :: LaneFailureClass
  lb_detail :: ustr
  lb_subphase :: "BlockedSubphase option"

datatype ShipMergeMethod = DirectPush | FastForward | MergeCommit | SquashMerge | RebaseMerge

fun merge_method_name :: "ShipMergeMethod \<Rightarrow> ustr" where
  "merge_method_name DirectPush = lit ''direct_push''"
| "merge_method_name FastForward = lit ''fast_forward''"
| "merge_method_name MergeCommit = lit ''merge_commit''"
| "merge_method_name SquashMerge = lit ''squash_merge''"
| "merge_method_name RebaseMerge = lit ''rebase_merge''"

record ShipProvenance =
  sp_source_branch :: ustr
  sp_base_commit :: ustr
  sp_commit_count :: u32
  sp_commit_range :: ustr
  sp_merge_method :: ShipMergeMethod
  sp_actor :: ustr
  sp_pr_number :: "u32 option"

definition ship_provenance_to_value :: "ShipProvenance \<Rightarrow> Value" where
  "ship_provenance_to_value p = json_object
     ([(''source_branch'', String (sp_source_branch p)), (''base_commit'', String (sp_base_commit p)),
       (''commit_count'', json_u32 (sp_commit_count p)), (''commit_range'', String (sp_commit_range p)),
       (''merge_method'', String (merge_method_name (sp_merge_method p))), (''actor'', String (sp_actor p))]
      @ (case sp_pr_number p of Some n \<Rightarrow> [(''pr_number'', json_u32 n)] | None \<Rightarrow> []))"

definition LaneEvent_started :: "u64 \<Rightarrow> ustr \<Rightarrow> LaneEvent" where
  "LaneEvent_started now emitted_at = LaneEvent_new now LaneStarted StRunning emitted_at"

definition LaneEvent_finished :: "hasher \<Rightarrow> u64 \<Rightarrow> ustr \<Rightarrow> ustr option \<Rightarrow> LaneEvent" where
  "LaneEvent_finished h now emitted_at detail =
     with_terminal_fingerprint h ((LaneEvent_new now LaneFinished StCompleted emitted_at)\<lparr>le_detail := detail\<rparr>)"

definition LaneEvent_commit_created :: "hasher \<Rightarrow> u64 \<Rightarrow> ustr \<Rightarrow> ustr option \<Rightarrow> LaneCommitProvenance \<Rightarrow> LaneEvent" where
  "LaneEvent_commit_created h now emitted_at detail provenance =
     with_data h (commit_provenance_to_value provenance)
       ((LaneEvent_new now LaneCommitCreated StCompleted emitted_at)\<lparr>le_detail := detail\<rparr>)"

definition LaneEvent_superseded :: "hasher \<Rightarrow> u64 \<Rightarrow> ustr \<Rightarrow> ustr option \<Rightarrow> LaneCommitProvenance \<Rightarrow> LaneEvent" where
  "LaneEvent_superseded h now emitted_at detail provenance =
     with_data h (commit_provenance_to_value provenance)
       ((LaneEvent_new now LaneSuperseded StSuperseded emitted_at)\<lparr>le_detail := detail\<rparr>)"

definition with_blocker :: "hasher \<Rightarrow> LaneEventBlocker \<Rightarrow> LaneEvent \<Rightarrow> LaneEvent" where
  "with_blocker h blocker ev =
     (let ev' = ev\<lparr>le_failure_class := Some (lb_failure_class blocker), le_detail := Some (lb_detail blocker)\<rparr>
      in case lb_subphase blocker of Some sub \<Rightarrow> with_data h (subphase_to_value sub) ev' | None \<Rightarrow> ev')"

definition LaneEvent_blocked :: "hasher \<Rightarrow> u64 \<Rightarrow> ustr \<Rightarrow> LaneEventBlocker \<Rightarrow> LaneEvent" where
  "LaneEvent_blocked h now emitted_at blocker = with_blocker h blocker (LaneEvent_new now LaneBlocked StBlocked emitted_at)"

definition LaneEvent_failed :: "hasher \<Rightarrow> u64 \<Rightarrow> ustr \<Rightarrow> LaneEventBlocker \<Rightarrow> LaneEvent" where
  "LaneEvent_failed h now emitted_at blocker =
     with_terminal_fingerprint h (with_blocker h blocker (LaneEvent_new now LaneFailed StFailed emitted_at))"

definition LaneEvent_ship_prepared :: "hasher \<Rightarrow> u64 \<Rightarrow> ustr \<Rightarrow> ShipProvenance \<Rightarrow> LaneEvent" where
  "LaneEvent_ship_prepared h now emitted_at p =
     with_data h (ship_provenance_to_value p) (LaneEvent_new now LaneShipPrepared StReady emitted_at)"

definition LaneEvent_ship_commits_selected :: "u64 \<Rightarrow> ustr \<Rightarrow> u32 \<Rightarrow> ustr \<Rightarrow> LaneEvent" where
  "LaneEvent_ship_commits_selected now emitted_at commit_count commit_range =
     (LaneEvent_new now LaneShipCommitsSelected StReady emitted_at)
       \<lparr>le_detail := Some (show_nat (unat commit_count) @ lit '' commits: '' @ commit_range)\<rparr>"

definition LaneEvent_ship_merged :: "hasher \<Rightarrow> u64 \<Rightarrow> ustr \<Rightarrow> ShipProvenance \<Rightarrow> LaneEvent" where
  "LaneEvent_ship_merged h now emitted_at p =
     with_data h (ship_provenance_to_value p) (LaneEvent_new now LaneShipMerged StCompleted emitted_at)"

definition LaneEvent_ship_pushed_main :: "hasher \<Rightarrow> u64 \<Rightarrow> ustr \<Rightarrow> ShipProvenance \<Rightarrow> LaneEvent" where
  "LaneEvent_ship_pushed_main h now emitted_at p =
     with_data h (ship_provenance_to_value p) (LaneEvent_new now LaneShipPushedMain StCompleted emitted_at)"


subsection \<open>The builder\<close>

record LaneEventBuilder =
  lbd_event :: LaneEventName
  lbd_status :: LaneEventStatus
  lbd_emitted_at :: ustr
  lbd_metadata :: LaneEventMetadata
  lbd_detail :: "ustr option"
  lbd_failure_class :: "LaneFailureClass option"
  lbd_data :: "Value option"

definition LaneEventBuilder_new ::
  "u64 \<Rightarrow> LaneEventName \<Rightarrow> LaneEventStatus \<Rightarrow> ustr \<Rightarrow> u64 \<Rightarrow> EventProvenance \<Rightarrow> LaneEventBuilder" where
  "LaneEventBuilder_new now e status emitted_at seq provenance =
     \<lparr>lbd_event = e, lbd_status = status, lbd_emitted_at = emitted_at, lbd_metadata = LaneEventMetadata_new now seq provenance,
      lbd_detail = None, lbd_failure_class = None, lbd_data = None\<rparr>"

definition build :: "LaneEventBuilder \<Rightarrow> LaneEvent" where
  "build b = \<lparr>le_event = lbd_event b, le_status = lbd_status b, le_emitted_at = lbd_emitted_at b,
     le_failure_class = lbd_failure_class b, le_detail = lbd_detail b, le_data = lbd_data b, le_metadata = lbd_metadata b\<rparr>"

definition build_terminal :: "hasher \<Rightarrow> LaneEventBuilder \<Rightarrow> LaneEvent" where
  "build_terminal h b =
     (let fingerprint = compute_event_fingerprint h (lbd_event b) (lbd_status b) (lbd_data b)
      in build (b\<lparr>lbd_metadata := (lbd_metadata b)\<lparr>md_event_fingerprint := Some fingerprint\<rparr>\<rparr>))"

subsection \<open>Reconciliation\<close>

datatype EventTerminality = Terminal | Advisory | Uncertainty

definition classify_event_terminality :: "LaneEventName \<Rightarrow> EventTerminality" where
  "classify_event_terminality e =
     (if e \<in> {LaneFinished, LaneFailed, LaneMerged, LaneSuperseded, LaneClosed} then Terminal
      else if e = LaneReconciled then Uncertainty
      else Advisory)"

definition events_materially_differ :: "LaneEvent \<Rightarrow> LaneEvent \<Rightarrow> bool" where
  "events_materially_differ a b \<longleftrightarrow>
     le_event a \<noteq> le_event b \<or> le_status a \<noteq> le_status b \<or> le_failure_class a \<noteq> le_failure_class b \<or> le_data a \<noteq> le_data b"

text \<open>The local variables of the loop.\<close>

record reconcile_state =
  rs_last_terminal :: "LaneEvent option"
  rs_uncertain :: bool
  rs_reconciled :: "LaneEvent list"

definition same_fingerprint :: "LaneEvent \<Rightarrow> LaneEvent \<Rightarrow> bool" where
  "same_fingerprint a b \<longleftrightarrow>
     (case (md_event_fingerprint (le_metadata a), md_event_fingerprint (le_metadata b)) of
        (Some x, Some y) \<Rightarrow> x = y | _ \<Rightarrow> False)"

definition reconcile_step :: "LaneEvent \<Rightarrow> reconcile_state \<Rightarrow> reconcile_state" where
  "reconcile_step ev st =
     (case classify_event_terminality (le_event ev) of
        Terminal \<Rightarrow>
          (case rs_last_terminal st of
             Some terminal \<Rightarrow>
               if same_fingerprint ev terminal then st
               else if events_materially_differ terminal ev then st\<lparr>rs_last_terminal := Some ev\<rparr> else st
           | None \<Rightarrow> st\<lparr>rs_last_terminal := Some ev\<rparr>)
      | Uncertainty \<Rightarrow>
          st\<lparr>rs_uncertain := rs_uncertain st \<or> rs_last_terminal st \<noteq> None, rs_reconciled := rs_reconciled st @ [ev]\<rparr>
      | Advisory \<Rightarrow> st\<lparr>rs_reconciled := rs_reconciled st @ [ev]\<rparr>)"

definition mark_uncertain :: "LaneEvent \<Rightarrow> LaneEvent" where
  "mark_uncertain t = t\<lparr>le_event := LaneReconciled, le_status := StReconciled,
     le_detail := Some (lit ''Session terminal state uncertain: transport died after terminal event'')\<rparr>"

definition reconcile_init :: reconcile_state where
  "reconcile_init = \<lparr>rs_last_terminal = None, rs_uncertain = False, rs_reconciled = []\<rparr>"

definition event_seq :: "LaneEvent \<Rightarrow> u64" where
  "event_seq e = md_seq (le_metadata e)"

definition reconcile_terminal_events :: "LaneEvent list \<Rightarrow> (LaneEvent \<times> LaneEvent list) option" where
  "reconcile_terminal_events events =
     (if events = [] then None
      else let st = fold reconcile_step (sort_key event_seq events) reconcile_init;
               final_terminal = (if rs_uncertain st then map_option mark_uncertain (rs_last_terminal st) else rs_last_terminal st)
           in map_option (\<lambda>t. (t, rs_reconciled st)) final_terminal)"

subsection \<open>Filters\<close>

definition filter_by_provenance :: "LaneEvent list \<Rightarrow> EventProvenance \<Rightarrow> LaneEvent list" where
  "filter_by_provenance events provenance = filter (\<lambda>e. md_provenance (le_metadata e) = provenance) events"

definition filter_by_environment :: "LaneEvent list \<Rightarrow> ustr \<Rightarrow> LaneEvent list" where
  "filter_by_environment events environment = filter (\<lambda>e. md_environment_label (le_metadata e) = Some environment) events"

fun confidence_order :: "ConfidenceLevel \<Rightarrow> nat" where
  "confidence_order High = 3"
| "confidence_order Medium = 2"
| "confidence_order Low = 1"
| "confidence_order UnknownConfidence = 0"

definition filter_by_confidence :: "LaneEvent list \<Rightarrow> ConfidenceLevel \<Rightarrow> LaneEvent list" where
  "filter_by_confidence events min_confidence =
     filter (\<lambda>e. case md_confidence_level (le_metadata e) of
                   Some c \<Rightarrow> confidence_order min_confidence \<le> confidence_order c | None \<Rightarrow> False) events"

definition is_test_event :: "LaneEvent \<Rightarrow> bool" where
  "is_test_event e \<longleftrightarrow> md_provenance (le_metadata e) \<in> {TestSource, Healthcheck, Replay}"

definition is_live_lane_event :: "LaneEvent \<Rightarrow> bool" where
  "is_live_lane_event e \<longleftrightarrow> md_provenance (le_metadata e) = LiveLane"

fun dedupe_terminal_loop :: "ustr set \<Rightarrow> LaneEvent list \<Rightarrow> LaneEvent list" where
  "dedupe_terminal_loop seen [] = []"
| "dedupe_terminal_loop seen (e # es) =
     (if is_terminal_event (le_event e)
      then (case md_event_fingerprint (le_metadata e) of
              Some fp \<Rightarrow> if fp \<in> seen then dedupe_terminal_loop seen es else e # dedupe_terminal_loop (insert fp seen) es
            | None \<Rightarrow> e # dedupe_terminal_loop seen es)
      else e # dedupe_terminal_loop seen es)"

definition dedupe_terminal_events :: "LaneEvent list \<Rightarrow> LaneEvent list" where
  "dedupe_terminal_events events = dedupe_terminal_loop {} events"

text \<open>The key of a commit and whether it was superseded, read from the data of its event.\<close>

definition commit_key :: "Value \<Rightarrow> ustr option" where
  "commit_key data =
     Option.bind (case value_get (lit ''canonicalCommit'') data of Some v \<Rightarrow> Some v | None \<Rightarrow> value_get (lit ''commit'') data)
       value_as_str"

definition commit_superseded :: "Value \<Rightarrow> bool" where
  "commit_superseded data \<longleftrightarrow> Option.bind (value_get (lit ''supersededBy'') data) value_as_str \<noteq> None"

text \<open>One step of the loop: the flags of the events to keep and the latest index of each key.\<close>

definition superseded_step :: "LaneEvent list \<Rightarrow> nat \<Rightarrow> bool list \<times> (ustr, nat) btree \<Rightarrow> bool list \<times> (ustr, nat) btree" where
  "superseded_step events i = (\<lambda>(keep, latest).
     (let e = events ! i
      in if le_event e \<noteq> LaneCommitCreated then (keep, latest)
         else case le_data e of
                None \<Rightarrow> (keep, latest)
              | Some data \<Rightarrow>
                  if commit_superseded data then (keep[i := False], latest)
                  else case commit_key data of
                         None \<Rightarrow> (keep, latest)
                       | Some key \<Rightarrow>
                           ((case btree_get latest key of Some previous \<Rightarrow> keep[previous := False] | None \<Rightarrow> keep),
                            btree_insert key i latest)))"

definition dedupe_superseded_commit_events :: "LaneEvent list \<Rightarrow> LaneEvent list" where
  "dedupe_superseded_commit_events events =
     (let (keep, latest) = fold (superseded_step events) [0..<length events] (replicate (length events) True, [])
      in List.map_filter (\<lambda>(e, retain). if retain then Some e else None) (zip events keep))"

subsection \<open>Nudges and roadmap items\<close>

record NudgeTracking =
  nt_nudge_id :: ustr
  nt_delivered_at :: ustr
  nt_acknowledged :: bool
  nt_acknowledged_at :: "ustr option"
  nt_is_retry :: bool
  nt_original_nudge_id :: "ustr option"

definition NudgeTracking_new :: "ustr \<Rightarrow> ustr \<Rightarrow> NudgeTracking" where
  "NudgeTracking_new nudge_id delivered_at =
     \<lparr>nt_nudge_id = nudge_id, nt_delivered_at = delivered_at, nt_acknowledged = False, nt_acknowledged_at = None,
      nt_is_retry = False, nt_original_nudge_id = None\<rparr>"

definition NudgeTracking_retry :: "ustr \<Rightarrow> ustr \<Rightarrow> ustr \<Rightarrow> NudgeTracking" where
  "NudgeTracking_retry nudge_id delivered_at original_nudge_id =
     \<lparr>nt_nudge_id = nudge_id, nt_delivered_at = delivered_at, nt_acknowledged = False, nt_acknowledged_at = None,
      nt_is_retry = True, nt_original_nudge_id = Some original_nudge_id\<rparr>"

definition acknowledge :: "ustr \<Rightarrow> NudgeTracking \<Rightarrow> NudgeTracking" where
  "acknowledge at t = t\<lparr>nt_acknowledged := True, nt_acknowledged_at := Some at\<rparr>"

datatype NudgeClassification = NudgeNew | NudgeRetry | StaleDuplicate

fun classify_tracked :: "ustr \<Rightarrow> NudgeTracking list \<Rightarrow> NudgeClassification" where
  "classify_tracked nudge_id [] = NudgeNew"
| "classify_tracked nudge_id (t # ts) =
     (if nt_nudge_id t = nudge_id then (if nt_acknowledged t then StaleDuplicate else NudgeRetry)
      else if nt_original_nudge_id t = Some nudge_id then StaleDuplicate
      else classify_tracked nudge_id ts)"

definition classify_nudge :: "ustr \<Rightarrow> NudgeTracking list \<Rightarrow> ustr list \<Rightarrow> NudgeClassification" where
  "classify_nudge nudge_id existing_tracking acknowledged_nudge_ids =
     (if nudge_id \<in> set acknowledged_nudge_ids then StaleDuplicate else classify_tracked nudge_id existing_tracking)"

record RoadmapId =
  rm_id :: ustr
  rm_filed_at :: ustr
  rm_is_new_filing :: bool
  rm_supersedes :: "ustr option"

definition RoadmapId_new_filing :: "ustr \<Rightarrow> ustr \<Rightarrow> RoadmapId" where
  "RoadmapId_new_filing i filed_at = \<lparr>rm_id = i, rm_filed_at = filed_at, rm_is_new_filing = True, rm_supersedes = None\<rparr>"

definition RoadmapId_update :: "ustr \<Rightarrow> ustr \<Rightarrow> RoadmapId" where
  "RoadmapId_update i filed_at = \<lparr>rm_id = i, rm_filed_at = filed_at, rm_is_new_filing = False, rm_supersedes = None\<rparr>"

definition RoadmapId_supersedes :: "ustr \<Rightarrow> ustr \<Rightarrow> ustr \<Rightarrow> RoadmapId" where
  "RoadmapId_supersedes i filed_at previous_id =
     \<lparr>rm_id = i, rm_filed_at = filed_at, rm_is_new_filing = True, rm_supersedes = Some previous_id\<rparr>"

datatype RoadmapLifecycleState = Filed | Acknowledged | InProgress | RoadmapBlocked | RoadmapDone | RoadmapSuperseded

record RoadmapLifecycle =
  rl_state :: RoadmapLifecycleState
  rl_state_changed_at :: ustr
  rl_filed_at :: ustr
  rl_lineage :: "ustr list"

definition RoadmapLifecycle_new_filed :: "ustr \<Rightarrow> RoadmapLifecycle" where
  "RoadmapLifecycle_new_filed filed_at =
     \<lparr>rl_state = Filed, rl_state_changed_at = filed_at, rl_filed_at = filed_at, rl_lineage = []\<rparr>"

definition RoadmapLifecycle_transition :: "RoadmapLifecycleState \<Rightarrow> ustr \<Rightarrow> RoadmapLifecycle \<Rightarrow> RoadmapLifecycle" where
  "RoadmapLifecycle_transition new_state at l = l\<lparr>rl_state := new_state, rl_state_changed_at := at\<rparr>"

definition RoadmapLifecycle_superseded_by :: "ustr \<Rightarrow> ustr \<Rightarrow> RoadmapLifecycle \<Rightarrow> RoadmapLifecycle" where
  "RoadmapLifecycle_superseded_by new_item_id at l =
     l\<lparr>rl_lineage := rl_lineage l @ [new_item_id], rl_state := RoadmapSuperseded, rl_state_changed_at := at\<rparr>"

definition RoadmapLifecycle_is_terminal :: "RoadmapLifecycle \<Rightarrow> bool" where
  "RoadmapLifecycle_is_terminal l \<longleftrightarrow> rl_state l \<in> {RoadmapDone, RoadmapSuperseded}"

subsection \<open>Failure texts\<close>

definition classify_lane_failure :: "ustr \<Rightarrow> LaneFailureClass" where
  "classify_lane_failure err =
     (let has = (\<lambda>w. contains (lit w) (to_ascii_lowercase err))
      in if has ''prompt'' \<and> has ''deliver'' then FcPromptDelivery
         else if has ''trust'' then FcTrustGate
         else if has ''branch'' \<and> (has ''stale'' \<or> has ''diverg'') then FcBranchDivergence
         else if has ''gateway'' \<or> has ''routing'' then FcGatewayRouting
         else if has ''compile'' \<or> has ''build failed'' \<or> has ''cargo check'' then FcCompile
         else if has ''test'' then FcTest
         else if has ''tool failed'' \<or> has ''runtime tool'' \<or> has ''tool runtime'' then FcToolRuntime
         else if has ''workspace'' \<and> has ''mismatch'' then FcWorkspaceMismatch
         else if has ''plugin'' then FcPluginStartup
         else if has ''mcp'' \<and> has ''handshake'' then FcMcpHandshake
         else if has ''mcp'' then FcMcpStartup
         else FcInfra)"

definition classify_lane_blocker :: "ustr \<Rightarrow> LaneEventBlocker" where
  "classify_lane_blocker err = \<lparr>lb_failure_class = classify_lane_failure err, lb_detail = trim err, lb_subphase = None\<rparr>"


section \<open>Reconciled outcomes\<close>

definition terminal :: "LaneEvent \<Rightarrow> bool" where
  "terminal e \<longleftrightarrow> is_terminal_event (le_event e)"

lemma classify_terminal: "classify_event_terminality (le_event e) = Terminal \<longleftrightarrow> terminal e"
  by (auto simp: classify_event_terminality_def terminal_def is_terminal_event_def)

lemma classify_uncertainty: "classify_event_terminality (le_event e) = Uncertainty \<longleftrightarrow> le_event e = LaneReconciled"
  by (auto simp: classify_event_terminality_def)

definition outcome :: "LaneEvent \<Rightarrow> LaneEventName \<times> LaneEventStatus \<times> Value option" where
  "outcome e = (le_event e, le_status e, le_data e)"

text \<open>Fingerprints of terminal events tell outcomes apart, as those without a collision of hashes do.\<close>

definition faithful :: "LaneEvent list \<Rightarrow> bool" where
  "faithful es \<longleftrightarrow> (\<forall>a \<in> set es. \<forall>b \<in> set es. terminal a \<and> terminal b \<longrightarrow> same_fingerprint a b = (outcome a = outcome b))"

definition unsettled :: "LaneEvent list \<Rightarrow> bool" where
  "unsettled es = list_ex (\<lambda>e. le_event e = LaneReconciled) (dropWhile (\<lambda>e. \<not> terminal e) es)"

lemma unsettled_snoc:
  "unsettled (es @ [e]) \<longleftrightarrow> unsettled es \<or> (le_event e = LaneReconciled \<and> filter terminal es \<noteq> [])"
proof (cases "\<exists>x \<in> set es. terminal x")
  case True
  then show ?thesis by (auto simp: unsettled_def dropWhile_append1 filter_empty_conv)
next
  case False
  then have dw: "dropWhile (\<lambda>e. \<not> terminal e) es = []" and f: "filter terminal es = []"
    by (auto simp: dropWhile_eq_Nil_conv filter_empty_conv)
  have t: "terminal e \<Longrightarrow> le_event e \<noteq> LaneReconciled" by (auto simp: terminal_def is_terminal_event_def)
  have "dropWhile (\<lambda>e. \<not> terminal e) (es @ [e]) = (if terminal e then [e] else [])"
    using False by (simp add: dropWhile_append2)
  then show ?thesis unfolding unsettled_def dw f using t by simp
qed

definition tracks :: "LaneEvent list \<Rightarrow> reconcile_state \<Rightarrow> bool" where
  "tracks es st \<longleftrightarrow>
     rs_reconciled st = filter (\<lambda>e. \<not> terminal e) es \<and> rs_uncertain st = unsettled es
     \<and> (case rs_last_terminal st of
          None \<Rightarrow> filter terminal es = []
        | Some t \<Rightarrow> t \<in> set (filter terminal es) \<and> outcome t = outcome (last (filter terminal es)))"

lemma tracks_step:
  assumes "tracks es st" and "faithful (es @ [e])"
  shows "tracks (es @ [e]) (reconcile_step e st)"
proof (cases "terminal e")
  case True
  then have c: "classify_event_terminality (le_event e) = Terminal" "le_event e \<noteq> LaneReconciled"
    by (simp_all add: classify_terminal terminal_def is_terminal_event_def) auto
  show ?thesis
  proof (cases "rs_last_terminal st")
    case None
    with assms(1) True c show ?thesis by (auto simp: tracks_def reconcile_step_def unsettled_snoc)
  next
    case (Some t)
    then have t: "t \<in> set es" "terminal t" using assms(1) by (auto simp: tracks_def)
    have "same_fingerprint e t \<longleftrightarrow> outcome e = outcome t" using assms(2) t True by (simp add: faithful_def)
    moreover have "outcome e \<noteq> outcome t \<Longrightarrow> events_materially_differ t e" by (auto simp: outcome_def events_materially_differ_def)
    ultimately show ?thesis using assms(1) Some True c t by (auto simp: tracks_def reconcile_step_def unsettled_snoc)
  qed
next
  case False
  then have "classify_event_terminality (le_event e) \<noteq> Terminal" by (simp add: classify_terminal)
  then consider "classify_event_terminality (le_event e) = Uncertainty" "le_event e = LaneReconciled"
    | "classify_event_terminality (le_event e) = Advisory" "le_event e \<noteq> LaneReconciled"
    using classify_uncertainty [of e] by (cases "classify_event_terminality (le_event e)") auto
  then show ?thesis
    by cases (use assms(1) False in \<open>auto simp: tracks_def reconcile_step_def unsettled_snoc filter_empty_conv split: option.splits\<close>)
qed

lemma tracks_fold: "faithful es \<Longrightarrow> tracks es (fold reconcile_step es reconcile_init)"
proof (induction es rule: rev_induct)
  case Nil
  then show ?case by (simp add: tracks_def reconcile_init_def unsettled_def)
next
  case (snoc e es)
  moreover from snoc.prems have "faithful es" by (simp add: faithful_def)
  ultimately show ?case using tracks_step by simp
qed

lemma faithful_set: "set es = set es' \<Longrightarrow> faithful es = faithful es'"
  by (simp add: faithful_def)

lemma faithful_stamped:
  assumes "\<forall>e \<in> set es. terminal e \<longrightarrow> md_event_fingerprint (le_metadata e)
      = Some (compute_event_fingerprint h (le_event e) (le_status e) (le_data e))"
    and "inj_on (\<lambda>(n, s, d). compute_event_fingerprint h n s d) (outcome ` set es)"
  shows "faithful es"
proof -
  have "same_fingerprint a b \<longleftrightarrow> outcome a = outcome b" if "a \<in> set es" "b \<in> set es" "terminal a" "terminal b" for a b
    using assms that inj_onD [OF assms(2), of "outcome a" "outcome b"] by (auto simp: same_fingerprint_def outcome_def)
  then show ?thesis by (auto simp: faithful_def)
qed

section \<open>Superseded commits\<close>

definition dropped :: "LaneEvent \<Rightarrow> bool" where
  "dropped e \<longleftrightarrow> le_event e = LaneCommitCreated \<and> (case le_data e of Some d \<Rightarrow> commit_superseded d | None \<Rightarrow> False)"

definition live_commit :: "LaneEvent \<Rightarrow> ustr option" where
  "live_commit e = (if le_event e = LaneCommitCreated \<and> \<not> dropped e then Option.bind (le_data e) commit_key else None)"

definition replaced :: "LaneEvent list \<Rightarrow> nat \<Rightarrow> nat \<Rightarrow> bool" where
  "replaced es m i \<longleftrightarrow> live_commit (es ! i) \<noteq> None \<and> (\<exists>j. i < j \<and> j < m \<and> live_commit (es ! j) = live_commit (es ! i))"

definition superseded_inv :: "LaneEvent list \<Rightarrow> nat \<Rightarrow> bool list \<times> (ustr, nat) btree \<Rightarrow> bool" where
  "superseded_inv es m = (\<lambda>(keep, latest).
     length keep = length es
     \<and> (\<forall>i < length es. keep ! i \<longleftrightarrow> \<not> (i < m \<and> (dropped (es ! i) \<or> replaced es m i)))
     \<and> (\<forall>k j. btree_get latest k = Some j \<longleftrightarrow>
          j < m \<and> live_commit (es ! j) = Some k \<and> (\<forall>i. j < i \<and> i < m \<longrightarrow> live_commit (es ! i) \<noteq> Some k)))"


lemma replaced_Suc:
  "replaced es (Suc m) i \<longleftrightarrow> replaced es m i \<or> (i < m \<and> live_commit (es ! i) \<noteq> None \<and> live_commit (es ! m) = live_commit (es ! i))"
  by (auto simp: replaced_def less_Suc_eq)

lemma superseded_step_keeps:
  assumes "superseded_inv es m (keep, latest)" and "m < length es"
    and "live_commit (es ! m) = None"
    and "keep' = (if dropped (es ! m) then keep[m := False] else keep)"
  shows "superseded_inv es (Suc m) (keep', latest)"
proof -
  have "replaced es (Suc m) i \<longleftrightarrow> replaced es m i" for i using assms(3) by (auto simp: replaced_Suc)
  moreover have "\<not> replaced es m m" by (simp add: replaced_def)
  ultimately show ?thesis using assms by (auto simp: superseded_inv_def nth_list_update less_Suc_eq)
qed

lemma superseded_step_live:
  assumes "superseded_inv es m (keep, latest)" and "m < length es" and "live_commit (es ! m) = Some k"
  shows "superseded_inv es (Suc m)
    ((case btree_get latest k of Some previous \<Rightarrow> keep[previous := False] | None \<Rightarrow> keep), btree_insert k m latest)"
proof -
  let ?keep = "case btree_get latest k of Some previous \<Rightarrow> keep[previous := False] | None \<Rightarrow> keep"
  have nd: "\<not> dropped (es ! m)" using assms(3) by (auto simp: live_commit_def split: if_splits)
  have l: "btree_get latest k = Some j \<longleftrightarrow> j < m \<and> live_commit (es ! j) = Some k \<and> (\<forall>i. j < i \<and> i < m \<longrightarrow> live_commit (es ! i) \<noteq> Some k)" for j
    using assms(1) by (simp add: superseded_inv_def)
  have k: "keep ! i \<longleftrightarrow> \<not> (i < m \<and> (dropped (es ! i) \<or> replaced es m i))" if "i < length es" for i
    using assms(1) that by (simp add: superseded_inv_def)
  have len: "length keep = length es" using assms(1) by (simp add: superseded_inv_def)
  have "?keep ! i \<longleftrightarrow> keep ! i \<and> btree_get latest k \<noteq> Some i" if "i < length es" for i
  proof (cases "btree_get latest k")
    case (Some p)
    with l [of p] assms(2) len show ?thesis by (simp add: nth_list_update)
  qed simp
  moreover have "replaced es m i \<or> btree_get latest k = Some i \<longleftrightarrow> replaced es (Suc m) i" if "i < m" for i
    using that assms(3) by (auto simp: l replaced_Suc) (auto simp: replaced_def)
  moreover have "\<not> replaced es (Suc m) m" by (auto simp: replaced_def)
  ultimately have "?keep ! i \<longleftrightarrow> \<not> (i < Suc m \<and> (dropped (es ! i) \<or> replaced es (Suc m) i))" if "i < length es" for i
    using that k [OF that] nd l [of i] by (cases "i < m") (auto simp: less_Suc_eq)
  moreover have "length ?keep = length es" using assms(1) by (auto simp: superseded_inv_def split: option.split)
  moreover have "btree_get (btree_insert k m latest) k' = Some j \<longleftrightarrow>
      j < Suc m \<and> live_commit (es ! j) = Some k' \<and> (\<forall>i. j < i \<and> i < Suc m \<longrightarrow> live_commit (es ! i) \<noteq> Some k')" for k' j
  proof (cases "k' = k")
    case True
    with assms(3) show ?thesis by (auto simp: btree_get_insert_any less_Suc_eq)
  next
    case False
    with assms(1,3) show ?thesis by (auto simp: btree_get_insert_any superseded_inv_def less_Suc_eq)
  qed
  ultimately show ?thesis by (simp add: superseded_inv_def)
qed


lemma superseded_step_inv:
  assumes "superseded_inv es m st" and "m < length es"
  shows "superseded_inv es (Suc m) (superseded_step es m st)"
proof -
  obtain keep latest where st: "st = (keep, latest)" by (cases st)
  let ?e = "es ! m"
  show ?thesis
  proof (cases "live_commit ?e")
    case (Some k)
    then have "superseded_step es m st
        = ((case btree_get latest k of Some previous \<Rightarrow> keep[previous := False] | None \<Rightarrow> keep), btree_insert k m latest)"
      by (auto simp: st superseded_step_def Let_def live_commit_def dropped_def split: if_splits option.splits)
    with superseded_step_live [OF assms(1) [unfolded st] assms(2) Some] show ?thesis by simp
  next
    case None
    then have "superseded_step es m st = (if dropped ?e then keep[m := False] else keep, latest)"
      by (auto simp: st superseded_step_def Let_def live_commit_def dropped_def split: if_splits option.splits)
    with superseded_step_keeps [OF assms(1) [unfolded st] assms(2) None refl] show ?thesis by simp
  qed
qed

lemma superseded_fold:
  "m \<le> length es \<Longrightarrow> superseded_inv es m (fold (superseded_step es) [0..<m] (replicate (length es) True, []))"
proof (induction m)
  case 0
  then show ?case by (simp add: superseded_inv_def)
next
  case (Suc m)
  then show ?case by (simp add: superseded_step_inv)
qed

lemma nths_cong_length: "(\<And>i. i < length xs \<Longrightarrow> i \<in> A \<longleftrightarrow> i \<in> B) \<Longrightarrow> nths xs A = nths xs B"
  unfolding nths_def by (rule arg_cong [where f = "map fst"], rule filter_cong) (auto simp: set_zip)

lemma retained_nths:
  "length xs = length bs \<Longrightarrow> List.map_filter (\<lambda>(e, retain). if retain then Some e else None) (zip xs bs) = nths xs {i. bs ! i}"
  by (induction xs bs rule: list_induct2) (simp_all add: nths_Cons List.map_filter_simps)

section \<open>Properties\<close>


definition sample_lane_event :: "LaneEventName \<Rightarrow> LaneEventStatus \<Rightarrow> u64 \<Rightarrow> string \<Rightarrow> LaneEvent" where
  "sample_lane_event e status seq fp =
     (LaneEvent_new 0 e status [])\<lparr>le_metadata := (LaneEventMetadata_new 0 seq LiveLane)\<lparr>md_event_fingerprint := Some (lit fp)\<rparr>\<rparr>"


text \<open>Of the events on created commits exactly those are removed that are marked as superseded, and those after which a commit
  with the same canonical name was created; all other events stay, in their order.\<close>

theorem superseded_commits_are_dropped:
  "dedupe_superseded_commit_events es = nths es {i. \<not> dropped (es ! i) \<and> \<not> replaced es (length es) i}"
proof -
  obtain keep latest where k: "fold (superseded_step es) [0..<length es] (replicate (length es) True, []) = (keep, latest)" by fastforce
  have i: "superseded_inv es (length es) (keep, latest)" using superseded_fold [of "length es" es] by (simp add: k)
  have "dedupe_superseded_commit_events es = nths es {i. keep ! i}"
    using i by (simp add: dedupe_superseded_commit_events_def k retained_nths superseded_inv_def)
  also have "\<dots> = nths es {i. \<not> dropped (es ! i) \<and> \<not> replaced es (length es) i}"
    by (rule nths_cong_length) (use i in \<open>simp add: superseded_inv_def\<close>)
  finally show ?thesis .
qed

subsection \<open>Lost information\<close>

text \<open>The fingerprint of a failure leaves out its class: of two plain failures of different classes only the first is kept.\<close>

lemma failure_class_is_lost:
  assumes "lb_subphase b1 = None" and "lb_subphase b2 = None"
  shows "dedupe_terminal_events [LaneEvent_failed h now at b1, LaneEvent_failed h now' at' b2] = [LaneEvent_failed h now at b1]"
    and "reconcile_terminal_events [LaneEvent_failed h now at b1, LaneEvent_failed h now' at' b2] = Some (LaneEvent_failed h now at b1, [])"
  using assms
  by (simp_all add: dedupe_terminal_events_def LaneEvent_failed_def with_blocker_def with_terminal_fingerprint_def LaneEvent_new_def
      LaneEventMetadata_new_def is_terminal_event_def reconcile_terminal_events_def event_seq_def reconcile_step_def reconcile_init_def
      classify_event_terminality_def same_fingerprint_def Let_def)

text \<open>Once uncertain, the outcome stays uncertain, even if a later event settles it.\<close>

lemma uncertainty_is_never_lifted: "unsettled es \<Longrightarrow> unsettled (es @ [t])"
  by (simp add: unsettled_snoc)

end
