(* ===== verification/Config_Validate.thy ===== *)
theory Config_Validate
  imports Json Paths Bash_Validation
begin

text \<open>
  The validation of a settings file, \<^verbatim>\<open>config_validate.rs\<close>: the tables of known keys with their types, the
  diagnostics with the line of the key, and the suggestion for a misspelt key, which compares names by a
  two-row edit distance. The distance is shown to be the least number of insertions, deletions and replacements, the suggestion to be
  the first of the nearest known names, and validation to accept exactly the files in which every key is known and well typed.
  \<^verbatim>\<open>ConfigError\<close> of \<^verbatim>\<open>config.rs\<close> is declared here because both modules raise it.
\<close>

section \<open>Definitions\<close>

subsection \<open>Errors and diagnostics\<close>

text \<open>What reading a file can fail with: that it does not exist, or anything else, with its message.\<close>

datatype io_error = NotFound ustr | OtherIo ustr

fun io_error_display :: "io_error \<Rightarrow> ustr" where
  "io_error_display (NotFound e) = e"
| "io_error_display (OtherIo e) = e"

datatype ConfigError = ConfigIo io_error | ConfigParse ustr

fun ConfigError_display :: "ConfigError \<Rightarrow> ustr" where
  "ConfigError_display (ConfigIo e) = io_error_display e"
| "ConfigError_display (ConfigParse e) = e"

datatype DiagnosticKind =
    UnknownKey "ustr option"
  | WrongType ustr ustr
  | Deprecated ustr

record ConfigDiagnostic =
  diag_path :: ustr
  diag_field :: ustr
  diag_line :: "nat option"
  diag_kind :: DiagnosticKind

definition diagnostic_location :: "ConfigDiagnostic \<Rightarrow> ustr" where
  "diagnostic_location d =
     (case diag_line d of None \<Rightarrow> [] | Some line \<Rightarrow> lit '' (line '' @ show_nat line @ lit '')'')"

definition ConfigDiagnostic_display :: "ConfigDiagnostic \<Rightarrow> ustr" where
  "ConfigDiagnostic_display d =
     (case diag_kind d of
        UnknownKey None \<Rightarrow>
          diag_path d @ lit '': unknown key \"'' @ diag_field d @ lit ''\"'' @ diagnostic_location d
      | UnknownKey (Some hint) \<Rightarrow>
          diag_path d @ lit '': unknown key \"'' @ diag_field d @ lit ''\"'' @ diagnostic_location d
            @ lit ''. Did you mean \"'' @ hint @ lit ''\"?''
      | WrongType expected got \<Rightarrow>
          diag_path d @ lit '': field \"'' @ diag_field d @ lit ''\" must be '' @ expected @ lit '', got '' @ got
            @ diagnostic_location d
      | Deprecated replacement \<Rightarrow>
          diag_path d @ lit '': field \"'' @ diag_field d @ lit ''\" is deprecated'' @ diagnostic_location d
            @ lit ''. Use \"'' @ replacement @ lit ''\" instead'')"

record ConfigValidationResult =
  vr_errors :: "ConfigDiagnostic list"
  vr_warnings :: "ConfigDiagnostic list"

definition ValidationResult_is_ok :: "ConfigValidationResult \<Rightarrow> bool" where
  "ValidationResult_is_ok r \<longleftrightarrow> vr_errors r = []"

definition ValidationResult_merge :: "ConfigValidationResult \<Rightarrow> ConfigValidationResult \<Rightarrow> ConfigValidationResult" where
  "ValidationResult_merge r other =
     r\<lparr>vr_errors := vr_errors r @ vr_errors other, vr_warnings := vr_warnings r @ vr_warnings other\<rparr>"

subsection \<open>The schema\<close>

datatype FieldType = FtString | FtBool | FtObject | FtStringArray | FtNumber

fun FieldType_label :: "FieldType \<Rightarrow> ustr" where
  "FieldType_label FtString = lit ''a string''"
| "FieldType_label FtBool = lit ''a boolean''"
| "FieldType_label FtObject = lit ''an object''"
| "FieldType_label FtStringArray = lit ''an array of strings''"
| "FieldType_label FtNumber = lit ''a number''"

fun FieldType_matches :: "FieldType \<Rightarrow> JsonValue \<Rightarrow> bool" where
  "FieldType_matches FtString v \<longleftrightarrow> as_str v \<noteq> None"
| "FieldType_matches FtBool v \<longleftrightarrow> as_bool v \<noteq> None"
| "FieldType_matches FtObject v \<longleftrightarrow> as_object v \<noteq> None"
| "FieldType_matches FtStringArray v \<longleftrightarrow>
     (case as_array v of None \<Rightarrow> False | Some vs \<Rightarrow> list_all (\<lambda>x. as_str x \<noteq> None) vs)"
| "FieldType_matches FtNumber v \<longleftrightarrow> as_i64 v \<noteq> None"

fun json_type_label :: "JsonValue \<Rightarrow> ustr" where
  "json_type_label JNull = lit ''null''"
| "json_type_label (JBool _) = lit ''a boolean''"
| "json_type_label (JNumber _) = lit ''a number''"
| "json_type_label (JString _) = lit ''a string''"
| "json_type_label (JArray _) = lit ''an array''"
| "json_type_label (JObject _) = lit ''an object''"

record FieldSpec =
  spec_name :: ustr
  spec_expected :: FieldType

record DeprecatedField =
  dep_name :: ustr
  dep_replacement :: ustr

abbreviation field_spec :: "string \<Rightarrow> FieldType \<Rightarrow> FieldSpec" where
  "field_spec name expected \<equiv> \<lparr>spec_name = lit name, spec_expected = expected\<rparr>"

definition TOP_LEVEL_FIELDS :: "FieldSpec list" where
  "TOP_LEVEL_FIELDS =
     [field_spec ''$schema'' FtString, field_spec ''model'' FtString, field_spec ''hooks'' FtObject,
      field_spec ''permissions'' FtObject, field_spec ''permissionMode'' FtString, field_spec ''mcpServers'' FtObject,
      field_spec ''oauth'' FtObject, field_spec ''enabledPlugins'' FtObject, field_spec ''plugins'' FtObject,
      field_spec ''sandbox'' FtObject, field_spec ''env'' FtObject, field_spec ''aliases'' FtObject,
      field_spec ''providerFallbacks'' FtObject, field_spec ''trustedRoots'' FtStringArray]"

definition HOOKS_FIELDS :: "FieldSpec list" where
  "HOOKS_FIELDS =
     [field_spec ''PreToolUse'' FtStringArray, field_spec ''PostToolUse'' FtStringArray,
      field_spec ''PostToolUseFailure'' FtStringArray]"

definition PERMISSIONS_FIELDS :: "FieldSpec list" where
  "PERMISSIONS_FIELDS =
     [field_spec ''defaultMode'' FtString, field_spec ''allow'' FtStringArray, field_spec ''deny'' FtStringArray,
      field_spec ''ask'' FtStringArray]"

definition PLUGINS_FIELDS :: "FieldSpec list" where
  "PLUGINS_FIELDS =
     [field_spec ''enabled'' FtObject, field_spec ''externalDirectories'' FtStringArray, field_spec ''installRoot'' FtString,
      field_spec ''registryPath'' FtString, field_spec ''bundledRoot'' FtString, field_spec ''maxOutputTokens'' FtNumber]"

definition SANDBOX_FIELDS :: "FieldSpec list" where
  "SANDBOX_FIELDS =
     [field_spec ''enabled'' FtBool, field_spec ''namespaceRestrictions'' FtBool, field_spec ''networkIsolation'' FtBool,
      field_spec ''filesystemMode'' FtString, field_spec ''allowedMounts'' FtStringArray]"

definition OAUTH_FIELDS :: "FieldSpec list" where
  "OAUTH_FIELDS =
     [field_spec ''clientId'' FtString, field_spec ''authorizeUrl'' FtString, field_spec ''tokenUrl'' FtString,
      field_spec ''callbackPort'' FtNumber, field_spec ''manualRedirectUrl'' FtString, field_spec ''scopes'' FtStringArray]"

definition DEPRECATED_FIELDS :: "DeprecatedField list" where
  "DEPRECATED_FIELDS =
     [\<lparr>dep_name = lit ''permissionMode'', dep_replacement = lit ''permissions.defaultMode''\<rparr>,
      \<lparr>dep_name = lit ''enabledPlugins'', dep_replacement = lit ''plugins.enabled''\<rparr>]"

subsection \<open>The line of a key\<close>

text \<open>The search goes on behind an occurrence that no colon follows; \<open>seen\<close> is the text before the search start.\<close>

function key_line_loop :: "ustr \<Rightarrow> ustr \<Rightarrow> ustr \<Rightarrow> nat option" where
  "key_line_loop key seen rest =
     (case split_once (34 # key @ [34]) rest of
        None \<Rightarrow> None
      | Some (before, after) \<Rightarrow>
          if find (\<lambda>ch. \<not> is_ascii_whitespace ch) after = Some 58
          then Some (length (filter (\<lambda>ch. ch = 10) (seen @ before)) + 1)
          else key_line_loop key (seen @ before @ 34 # key @ [34]) after)"
  by pat_completeness auto
termination
  by (relation "measure (\<lambda>(key, seen, rest). length rest)") (auto dest: split_once_Some)

declare key_line_loop.simps [simp del]

definition find_key_line :: "ustr \<Rightarrow> ustr \<Rightarrow> nat option" where
  "find_key_line source key = key_line_loop key [] source"

subsection \<open>Edit distance and suggestions\<close>

text \<open>The inner loop fills a row of the table from the one before; the outer one keeps two rows.\<close>

definition edit_cell :: "nat list \<Rightarrow> uchar \<Rightarrow> nat \<times> uchar \<Rightarrow> nat list \<Rightarrow> nat list" where
  "edit_cell previous left_char = (\<lambda>(right_index, right_char) current.
     (let cost = (if left_char \<noteq> right_char then 1 else 0)
      in current[right_index + 1 :=
           min (min (previous ! (right_index + 1) + 1) (current ! right_index + 1)) (previous ! right_index + cost)]))"

definition edit_row :: "ustr \<Rightarrow> nat \<times> uchar \<Rightarrow> nat list \<times> nat list \<Rightarrow> nat list \<times> nat list" where
  "edit_row right_chars = (\<lambda>(left_index, left_char) (previous, current).
     (let row = fold (edit_cell previous left_char) (enumerate 0 right_chars) (current[0 := left_index + 1])
      in (row, row)))"

definition simple_edit_distance :: "ustr \<Rightarrow> ustr \<Rightarrow> nat" where
  "simple_edit_distance left right =
     (if left = [] then str_len right
      else if right = [] then str_len left
      else fst (fold (edit_row right) (enumerate 0 left)
                  ([0..<length right + 1], replicate (length right + 1) 0)) ! length right)"

text \<open>\<^verbatim>\<open>Iterator::min_by_key\<close>: the first of the smallest elements.\<close>

fun min_by_key :: "('a \<Rightarrow> nat) \<Rightarrow> 'a list \<Rightarrow> 'a option" where
  "min_by_key f [] = None"
| "min_by_key f (x # xs) =
     (case min_by_key f xs of None \<Rightarrow> Some x | Some y \<Rightarrow> if f x \<le> f y then Some x else Some y)"

definition suggest_field :: "ustr \<Rightarrow> ustr list \<Rightarrow> ustr option" where
  "suggest_field input candidates =
     (let input_lower = to_ascii_lowercase input
      in map_option snd (min_by_key fst
           (filter (\<lambda>(distance, _). distance \<le> 3)
              (map (\<lambda>candidate. (simple_edit_distance input_lower (to_ascii_lowercase candidate), candidate)) candidates))))"

subsection \<open>Validation\<close>

definition key_diagnostics ::
  "FieldSpec list \<Rightarrow> ustr \<Rightarrow> ustr \<Rightarrow> ustr \<Rightarrow> ustr \<times> JsonValue \<Rightarrow> ConfigDiagnostic list" where
  "key_diagnostics known_fields prefix source path_display = (\<lambda>(key, value).
     (let field_path = (if prefix = [] then key else prefix @ lit ''.'' @ key)
      in case find (\<lambda>f. spec_name f = key) known_fields of
           Some spec \<Rightarrow>
             if \<not> FieldType_matches (spec_expected spec) value
             then [\<lparr>diag_path = path_display, diag_field = field_path, diag_line = find_key_line source key,
                    diag_kind = WrongType (FieldType_label (spec_expected spec)) (json_type_label value)\<rparr>]
             else []
         | None \<Rightarrow>
             if list_ex (\<lambda>d. dep_name d = key) DEPRECATED_FIELDS then []
             else [\<lparr>diag_path = path_display, diag_field = field_path, diag_line = find_key_line source key,
                    diag_kind = UnknownKey (suggest_field key (map spec_name known_fields))\<rparr>]))"

definition validate_object_keys ::
  "(ustr, JsonValue) btree \<Rightarrow> FieldSpec list \<Rightarrow> ustr \<Rightarrow> ustr \<Rightarrow> ustr \<Rightarrow> ConfigValidationResult" where
  "validate_object_keys obj known_fields prefix source path_display =
     \<lparr>vr_errors = concat (map (key_diagnostics known_fields prefix source path_display) obj), vr_warnings = []\<rparr>"

definition deprecated_diagnostics ::
  "(ustr, JsonValue) btree \<Rightarrow> ustr \<Rightarrow> ustr \<Rightarrow> DeprecatedField \<Rightarrow> ConfigDiagnostic list" where
  "deprecated_diagnostics obj source path_display deprecated =
     (if btree_get obj (dep_name deprecated) \<noteq> None
      then [\<lparr>diag_path = path_display, diag_field = dep_name deprecated,
             diag_line = find_key_line source (dep_name deprecated),
             diag_kind = Deprecated (dep_replacement deprecated)\<rparr>]
      else [])"

text \<open>One of the five blocks for a nested object.\<close>

definition validate_nested ::
  "(ustr, JsonValue) btree \<Rightarrow> ustr \<Rightarrow> ustr \<Rightarrow> ustr \<times> FieldSpec list \<Rightarrow> ConfigValidationResult \<Rightarrow> ConfigValidationResult" where
  "validate_nested obj source path_display = (\<lambda>(name, fields) result.
     (case Option.bind (btree_get obj name) as_object of
        Some inner \<Rightarrow> ValidationResult_merge result (validate_object_keys inner fields name source path_display)
      | None \<Rightarrow> result))"

definition nested_fields :: "(ustr \<times> FieldSpec list) list" where
  "nested_fields =
     [(lit ''hooks'', HOOKS_FIELDS), (lit ''permissions'', PERMISSIONS_FIELDS), (lit ''plugins'', PLUGINS_FIELDS),
      (lit ''sandbox'', SANDBOX_FIELDS), (lit ''oauth'', OAUTH_FIELDS)]"

definition validate_config_file :: "(ustr, JsonValue) btree \<Rightarrow> ustr \<Rightarrow> ustr \<Rightarrow> ConfigValidationResult" where
  "validate_config_file obj source file_path =
     (let top = validate_object_keys obj TOP_LEVEL_FIELDS [] source file_path;
          result = top\<lparr>vr_warnings := vr_warnings top @
                       concat (map (deprecated_diagnostics obj source file_path) DEPRECATED_FIELDS)\<rparr>
      in fold (validate_nested obj source file_path) nested_fields result)"

text \<open>\<^verbatim>\<open>Path::extension\<close>: what follows the last dot of the file name, unless that dot is its first character.\<close>

definition path_extension :: "ustr \<Rightarrow> ustr option" where
  "path_extension p =
     (case file_name p of
        None \<Rightarrow> None
      | Some name \<Rightarrow>
          let ext = rev (takeWhile (\<lambda>ch. ch \<noteq> 46) (rev name))
          in if 46 \<notin> set (drop 1 name) then None else Some ext)"

definition check_unsupported_format :: "ustr \<Rightarrow> ConfigError + unit" where
  "check_unsupported_format file_path =
     (case path_extension file_path of
        Some ext \<Rightarrow>
          if to_ascii_lowercase ext = lit ''toml''
          then Inl (ConfigParse (file_path @ lit '': TOML config files are not supported. Use JSON (settings.json) instead''))
          else Inr ()
      | None \<Rightarrow> Inr ())"

definition format_diagnostics :: "ConfigValidationResult \<Rightarrow> ustr" where
  "format_diagnostics result =
     join (lit ''\<newline>'')
       (map (\<lambda>w. lit ''warning: '' @ ConfigDiagnostic_display w) (vr_warnings result)
        @ map (\<lambda>e. lit ''error: '' @ ConfigDiagnostic_display e) (vr_errors result))"

section \<open>Edit distance\<close>

text \<open>An edit script of cost \<open>n\<close> from one text to another, character by character.\<close>

inductive edits :: "nat \<Rightarrow> 'a list \<Rightarrow> 'a list \<Rightarrow> bool" where
  edits_done: "edits 0 [] []"
| edits_copy: "edits n xs ys \<Longrightarrow> edits n (c # xs) (c # ys)"
| edits_replace: "edits n xs ys \<Longrightarrow> edits (Suc n) (c # xs) (d # ys)"
| edits_delete: "edits n xs ys \<Longrightarrow> edits (Suc n) (c # xs) ys"
| edits_insert: "edits n xs ys \<Longrightarrow> edits (Suc n) xs (c # ys)"

inductive_cases edits_NilNilE: "edits n [] []"
inductive_cases edits_ConsE: "edits n (x # xs) (y # ys)"

fun lev :: "'a list \<Rightarrow> 'a list \<Rightarrow> nat" where
  "lev [] ys = length ys"
| "lev (x # xs) [] = Suc (length xs)"
| "lev (x # xs) (y # ys) =
     min (min (lev xs (y # ys) + 1) (lev (x # xs) ys + 1)) (lev xs ys + (if x \<noteq> y then 1 else 0))"

lemma lev_Nil2 [simp]: "lev xs [] = length xs"
  by (cases xs) auto

lemma edits_all_inserted: "edits (length ys) [] ys"
  by (induction ys) (auto intro: edits.intros)

lemma edits_all_deleted: "edits (length xs) xs []"
  by (induction xs) (auto intro: edits.intros)

lemma edits_lev: "edits (lev xs ys) xs ys"
proof (induction xs ys rule: lev.induct)
  case (3 x xs y ys)
  then have "edits (Suc (lev xs (y # ys))) (x # xs) (y # ys)" "edits (Suc (lev (x # xs) ys)) (x # xs) (y # ys)"
    "edits (lev xs ys + (if x \<noteq> y then 1 else 0)) (x # xs) (y # ys)"
    by (auto intro: edits.intros)
  then show ?case by (auto simp: min_def)
qed (use edits_all_inserted edits_all_deleted edits_delete in \<open>fastforce+\<close>)

lemma lev_le_edits: "edits n xs ys \<Longrightarrow> lev xs ys \<le> n"
proof (induction rule: edits.induct)
  case (edits_delete n xs ys c)
  then show ?case by (cases ys) auto
next
  case (edits_insert n xs ys c)
  then show ?case by (cases xs) auto
qed auto

lemma edits_snoc:
  assumes "edits n xs ys"
  shows "edits n (xs @ [c]) (ys @ [c])" "edits (Suc n) (xs @ [c]) (ys @ [d])"
    "edits (Suc n) (xs @ [c]) ys" "edits (Suc n) xs (ys @ [d])"
  using assms by (induction rule: edits.induct) (auto intro: edits.intros)

lemma edits_rev: "edits n xs ys \<Longrightarrow> edits n (rev xs) (rev ys)"
  by (induction rule: edits.induct) (auto intro: edits_done edits_snoc)

lemma lev_rev: "lev (rev xs) (rev ys) = lev xs ys"
proof -
  have "lev (rev xs) (rev ys) \<le> lev xs ys" for xs ys :: "'a list"
    by (rule lev_le_edits, rule edits_rev, rule edits_lev)
  from this [of xs ys] this [of "rev xs" "rev ys"] show ?thesis by simp
qed

text \<open>The entry of the table in row \<open>i\<close> and column \<open>j\<close>.\<close>

definition edit_table :: "ustr \<Rightarrow> ustr \<Rightarrow> nat \<Rightarrow> nat \<Rightarrow> nat" where
  "edit_table left right i j = lev (rev (take i left)) (rev (take j right))"

lemma edit_table_simps:
  "j \<le> length right \<Longrightarrow> edit_table left right 0 j = j"
  "i \<le> length left \<Longrightarrow> edit_table left right i 0 = i"
  "i < length left \<Longrightarrow> j < length right \<Longrightarrow> edit_table left right (Suc i) (Suc j) =
     min (min (edit_table left right i (Suc j) + 1) (edit_table left right (Suc i) j + 1))
       (edit_table left right i j + (if left ! i \<noteq> right ! j then 1 else 0))"
  by (simp_all add: edit_table_def take_Suc_conv_app_nth)

definition table_row :: "ustr \<Rightarrow> ustr \<Rightarrow> nat \<Rightarrow> nat list" where
  "table_row left right i = map (edit_table left right i) [0..<length right + 1]"

lemma table_row_nth: "j \<le> length right \<Longrightarrow> table_row left right i ! j = edit_table left right i j"
  by (simp add: table_row_def del: upt_Suc)

lemma edit_cells_fill_row:
  assumes "i < length left" and "length current = length right + 1" and "m \<le> length right"
  shows "fold (edit_cell (table_row left right i) (left ! i)) (take m (enumerate 0 right)) (current[0 := i + 1]) =
           map (edit_table left right (Suc i)) [0..<m + 1] @ drop (m + 1) current"
  using assms(3)
proof (induction m)
  case 0
  have "current \<noteq> []" using assms(2) by auto
  then show ?case using assms(1) by (cases current) (simp_all add: edit_table_simps)
next
  case (Suc m)
  let ?row = "map (edit_table left right (Suc i)) [0..<m + 1]"
  have split: "take (Suc m) (enumerate 0 right) = take m (enumerate 0 right) @ [(m, right ! m)]"
    using Suc.prems by (simp add: take_Suc_conv_app_nth nth_enumerate_eq)
  have drop: "drop (m + 1) current = current ! (m + 1) # drop (m + 2) current"
    using Suc.prems assms(2) by (simp add: Cons_nth_drop_Suc)
  have last: "(?row @ ds) ! m = edit_table left right (Suc i) m"
    and update: "(?row @ d # ds)[m + 1 := e] = ?row @ e # ds" for d e ds
    by (simp_all add: nth_append list_update_append del: upt_Suc)
  have "edit_cell (table_row left right i) (left ! i) (m, right ! m) (?row @ drop (m + 1) current) =
      ?row @ edit_table left right (Suc i) (Suc m) # drop (m + 2) current"
    unfolding edit_cell_def drop prod.case Let_def update last
    using Suc.prems assms(1) by (simp add: table_row_nth edit_table_simps(3) del: upt_Suc)
  then show ?case
    using Suc by (simp add: split)
qed

lemma edit_row_step:
  assumes "i < length left" and "length current = length right + 1"
  shows "edit_row right (i, left ! i) (table_row left right i, current) =
           (table_row left right (Suc i), table_row left right (Suc i))"
  using edit_cells_fill_row [OF assms, of "length right"] assms(2)
  by (simp add: edit_row_def Let_def table_row_def del: upt_Suc)

lemma edit_rows_fill_table:
  assumes "length current = length right + 1" and "m \<le> length left"
  shows "\<exists>current'. length current' = length right + 1 \<and>
           fold (edit_row right) (take m (enumerate 0 left)) (table_row left right 0, current) =
             (table_row left right m, current')"
  using assms(2)
proof (induction m)
  case 0
  then show ?case using assms(1) by simp
next
  case (Suc m)
  then show ?case
    by (auto simp: take_Suc_conv_app_nth nth_enumerate_eq edit_row_step) (simp add: table_row_def)
qed

lemma simple_edit_distance_lev:
  "simple_edit_distance left right =
     (if left = [] then str_len right else if right = [] then str_len left else lev left right)"
proof -
  have row0: "[0..<length right + 1] = table_row left right 0"
    by (rule nth_equalityI) (simp_all add: table_row_def edit_table_simps(1) del: upt_Suc)
  obtain current' where "fold (edit_row right) (enumerate 0 left)
      (table_row left right 0, replicate (length right + 1) 0) = (table_row left right (length left), current')"
    using edit_rows_fill_table [of "replicate (length right + 1) 0" right "length left" left] by auto
  then show ?thesis
    unfolding simple_edit_distance_def row0
    by (simp add: table_row_nth edit_table_def lev_rev)
qed


definition edit_distance :: "'a list \<Rightarrow> 'a list \<Rightarrow> nat" where
  "edit_distance xs ys = (LEAST n. edits n xs ys)"

lemma edit_distance_lev: "edit_distance xs ys = lev xs ys"
  unfolding edit_distance_def by (rule Least_equality) (auto intro: edits_lev lev_le_edits)

text \<open>The two-row table computes the least cost of an edit script between non-empty texts, and between texts of which one is
  empty the length in bytes of the other, which is the same for ASCII.\<close>

lemma simple_edit_distance_is_least:
  assumes "left \<noteq> [] \<and> right \<noteq> [] \<or> (\<forall>c \<in> set (left @ right). c < 128)"
  shows "simple_edit_distance left right = edit_distance left right"
proof -
  have "str_len s = length s" if "\<forall>c \<in> set s. c < 128" for s
    using that by (induction s) (simp_all add: str_len_def len_utf8_def)
  with assms show ?thesis
    unfolding simple_edit_distance_lev edit_distance_lev by (auto simp: ball_Un)
qed

section \<open>Suggestions\<close>

lemma min_by_key_None [simp]: "min_by_key f xs = None \<longleftrightarrow> xs = []"
  by (cases xs) (auto split: option.splits)

lemma min_by_key_first_least:
  "min_by_key f xs = Some y \<Longrightarrow>
     \<exists>as bs. xs = as @ y # bs \<and> (\<forall>x \<in> set as. f y < f x) \<and> (\<forall>x \<in> set bs. f y \<le> f x)"
proof (induction xs arbitrary: y)
  case (Cons x xs)
  show ?case
  proof (cases "min_by_key f xs")
    case None
    with Cons.prems show ?thesis by (intro exI [of _ "[]"]) auto
  next
    case (Some z)
    then obtain as bs where xs: "xs = as @ z # bs" "\<forall>x \<in> set as. f z < f x" "\<forall>x \<in> set bs. f z \<le> f x"
      using Cons.IH by blast
    show ?thesis
    proof (cases "f x \<le> f z")
      case True
      with Some Cons.prems xs show ?thesis by (intro exI [of _ "[]"] exI [of _ xs]) auto
    next
      case False
      with Some Cons.prems xs show ?thesis by (intro exI [of _ "x # as"] exI [of _ bs]) auto
    qed
  qed
qed simp

lemma min_by_key_filter:
  "min_by_key f (filter (\<lambda>x. f x \<le> k) xs) =
     (case min_by_key f xs of None \<Rightarrow> None | Some y \<Rightarrow> if f y \<le> k then Some y else None)"
  by (induction xs) (auto split: option.splits)

lemma min_by_key_map: "min_by_key f (map g xs) = map_option g (min_by_key (f \<circ> g) xs)"
  by (induction xs) (auto split: option.splits)

lemma suggest_field_min:
  "suggest_field input candidates =
     (let d = \<lambda>name. simple_edit_distance (to_ascii_lowercase input) (to_ascii_lowercase name)
      in case min_by_key d candidates of None \<Rightarrow> None | Some name \<Rightarrow> if d name \<le> 3 then Some name else None)"
proof -
  have eq: "(\<lambda>(distance, _). distance \<le> 3) = (\<lambda>x :: nat \<times> ustr. fst x \<le> 3)" by auto
  show ?thesis
    by (simp add: suggest_field_def Let_def eq min_by_key_filter min_by_key_map comp_def split: option.splits)
qed

text \<open>The known names are not empty and ASCII, so that the distance of any input to them is the least cost of an edit script.\<close>

lemma known_names_ascii:
  "known \<in> set (TOP_LEVEL_FIELDS # map snd nested_fields) \<Longrightarrow>
     name \<in> spec_name ` set known \<Longrightarrow> name \<noteq> [] \<and> (\<forall>c \<in> set name. c < 128)"
  by (auto simp: nested_fields_def TOP_LEVEL_FIELDS_def HOOKS_FIELDS_def PERMISSIONS_FIELDS_def PLUGINS_FIELDS_def
      SANDBOX_FIELDS_def OAUTH_FIELDS_def lit_Cons)

lemma to_ascii_lowercase_eq_Nil [simp]: "to_ascii_lowercase s = [] \<longleftrightarrow> s = []"
  by (simp add: to_ascii_lowercase_def)

lemma ascii_to_ascii_lowercase: "\<forall>c \<in> set s. c < 128 \<Longrightarrow> \<forall>c \<in> set (to_ascii_lowercase s). c < 128"
  by (auto simp: to_ascii_lowercase_def ascii_lower_def)

definition name_distance :: "ustr \<Rightarrow> ustr \<Rightarrow> nat" where
  "name_distance input name = edit_distance (to_ascii_lowercase input) (to_ascii_lowercase name)"

lemma known_name_distance:
  assumes "name \<noteq> []" and "\<forall>c \<in> set name. c < 128"
  shows "simple_edit_distance (to_ascii_lowercase input) (to_ascii_lowercase name) = name_distance input name"
  unfolding name_distance_def using assms ascii_to_ascii_lowercase [OF assms(2)]
  by (cases "input = []") (auto intro!: simple_edit_distance_is_least simp: to_ascii_lowercase_def)

text \<open>C31: the suggestion for a key, among the names of any table of the schema, is the first of those that are nearest to it by number of
  edits regardless of ASCII case, if that is at most three edits away; there is none exactly if all names are further away.\<close>

theorem suggestion_is_nearest:
  assumes "known \<in> set (TOP_LEVEL_FIELDS # map snd nested_fields)"
  shows "case suggest_field input (map spec_name known) of
           Some name \<Rightarrow> name_distance input name \<le> 3 \<and>
             (\<exists>before after. map spec_name known = before @ name # after \<and>
                (\<forall>other \<in> set before. name_distance input name < name_distance input other) \<and>
                (\<forall>other \<in> set after. name_distance input name \<le> name_distance input other))
         | None \<Rightarrow> \<forall>name \<in> spec_name ` set known. 3 < name_distance input name"
proof -
  let ?d = "\<lambda>name. simple_edit_distance (to_ascii_lowercase input) (to_ascii_lowercase name)"
  let ?names = "map spec_name known"
  have d: "?d name = name_distance input name" if "name \<in> set ?names" for name
    using known_names_ascii [OF assms, of name] that by (auto intro: known_name_distance)
  have "known \<noteq> []"
    using assms by (auto simp: nested_fields_def TOP_LEVEL_FIELDS_def HOOKS_FIELDS_def PERMISSIONS_FIELDS_def
        PLUGINS_FIELDS_def SANDBOX_FIELDS_def OAUTH_FIELDS_def)
  then obtain name where name: "min_by_key ?d ?names = Some name"
    by (cases "min_by_key ?d ?names") auto
  then obtain before after where split: "?names = before @ name # after"
    "\<forall>other \<in> set before. ?d name < ?d other" "\<forall>other \<in> set after. ?d name \<le> ?d other"
    using min_by_key_first_least [OF name] by (elim exE conjE)
  have in_names: "name \<in> set ?names" "set before \<subseteq> set ?names" "set after \<subseteq> set ?names"
    by (simp_all only: split(1)) auto
  have least: "\<forall>other \<in> set ?names. ?d name \<le> ?d other"
    unfolding split(1) using split(2,3) by (auto simp: less_imp_le)
  show ?thesis
  proof (cases "?d name \<le> 3")
    case True
    then have "suggest_field input ?names = Some name"
      by (simp add: suggest_field_min name)
    moreover have "\<forall>other \<in> set before. name_distance input name < name_distance input other"
      "\<forall>other \<in> set after. name_distance input name \<le> name_distance input other"
      using split(2,3) in_names d by (metis subsetD)+
    ultimately show ?thesis
      using True split(1) d [OF in_names(1)] by auto
  next
    case False
    then have "suggest_field input ?names = None"
      by (simp add: suggest_field_min name)
    moreover have "\<forall>other \<in> set ?names. 3 < name_distance input other"
      using False least d by (metis leI le_trans)
    ultimately show ?thesis by simp
  qed
qed

theorem suggestion_is_nearest_witness:
  "PERMISSIONS_FIELDS \<in> set (TOP_LEVEL_FIELDS # map snd nested_fields)
     \<and> suggest_field (lit ''ak'') (map spec_name PERMISSIONS_FIELDS) = Some (lit ''ask'')
     \<and> name_distance (lit ''ak'') (lit ''ask'') \<le> 3"
proof -
  have suggestion: "suggest_field (lit ''ak'') (map spec_name PERMISSIONS_FIELDS) = Some (lit ''ask'')"
    unfolding suggest_field_min simple_edit_distance_lev
    by (simp add: PERMISSIONS_FIELDS_def to_ascii_lowercase_def ascii_lower_def lit_Cons)
  have known: "PERMISSIONS_FIELDS \<in> set (TOP_LEVEL_FIELDS # map snd nested_fields)"
    by (simp add: nested_fields_def)
  show ?thesis
    using suggestion_is_nearest [OF known, of "lit ''ak''"] suggestion known by (simp only: option.case simp_thms)
qed

section \<open>Validation\<close>

text \<open>What validation asks of an object: every key is known and has a value of its type, or is the name of a deprecated field.\<close>

definition conforms :: "FieldSpec list \<Rightarrow> (ustr, JsonValue) btree \<Rightarrow> bool" where
  "conforms known obj \<longleftrightarrow> (\<forall>(key, value) \<in> set obj.
     (case find (\<lambda>f. spec_name f = key) known of
        Some spec \<Rightarrow> FieldType_matches (spec_expected spec) value
      | None \<Rightarrow> key \<in> dep_name ` set DEPRECATED_FIELDS))"

definition settings_ok :: "(ustr, JsonValue) btree \<Rightarrow> bool" where
  "settings_ok obj \<longleftrightarrow> conforms TOP_LEVEL_FIELDS obj \<and>
     (\<forall>(name, known) \<in> set nested_fields. \<forall>inner. btree_get obj name = Some (JObject inner) \<longrightarrow> conforms known inner)"

lemma validate_object_keys_ok:
  "vr_errors (validate_object_keys obj known prefix source path) = [] \<longleftrightarrow> conforms known obj"
proof -
  have "key_diagnostics known prefix source path e = [] \<longleftrightarrow>
      (case e of (key, value) \<Rightarrow>
         case find (\<lambda>f. spec_name f = key) known of
           Some spec \<Rightarrow> FieldType_matches (spec_expected spec) value
         | None \<Rightarrow> key \<in> dep_name ` set DEPRECATED_FIELDS)" for e
    by (auto simp: key_diagnostics_def Let_def list_ex_iff split: prod.splits option.splits)
  then show ?thesis
    by (simp add: validate_object_keys_def conforms_def)
qed

lemma as_object_Some: "as_object v = Some es \<longleftrightarrow> v = JObject es"
  by (cases v) (auto simp: as_object_def)

lemma validate_nested_errors:
  "vr_errors (fold (validate_nested obj source path) nested result) = [] \<longleftrightarrow>
     vr_errors result = [] \<and>
     (\<forall>(name, known) \<in> set nested. \<forall>inner. btree_get obj name = Some (JObject inner) \<longrightarrow> conforms known inner)"
proof (induction nested arbitrary: result)
  case (Cons block nested)
  obtain name known where block: "block = (name, known)" by (cases block)
  have "vr_errors (validate_nested obj source path block result) = [] \<longleftrightarrow>
      vr_errors result = [] \<and> (\<forall>inner. btree_get obj name = Some (JObject inner) \<longrightarrow> conforms known inner)"
    by (auto simp: block validate_nested_def ValidationResult_merge_def validate_object_keys_ok as_object_def
        split: option.splits bind_splits JsonValue.splits)
  then show ?case
    using Cons.IH by (auto simp: block)
qed simp

lemma validation_ok_iff: "ValidationResult_is_ok (validate_config_file obj source path) \<longleftrightarrow> settings_ok obj"
  by (simp add: ValidationResult_is_ok_def validate_config_file_def Let_def validate_nested_errors validate_object_keys_ok
      settings_ok_def)

text \<open>A deprecated key inside a nested object is accepted without an error and without a warning, although nothing reads it.\<close>

lemma misplaced_deprecated_key_is_silent:
  "validate_config_file [(lit ''permissions'', JObject [(lit ''permissionMode'', v)])] source path =
     \<lparr>vr_errors = [], vr_warnings = []\<rparr>"
  by (simp add: validate_config_file_def validate_object_keys_def key_diagnostics_def deprecated_diagnostics_def
      TOP_LEVEL_FIELDS_def DEPRECATED_FIELDS_def nested_fields_def validate_nested_def PERMISSIONS_FIELDS_def
      ValidationResult_merge_def btree_get_def as_object_def Let_def)

end
