(* ===== verification/Sandbox.thy ===== *)
theory Sandbox
  imports Paths
begin

text \<open>
  The sandbox of shell commands, \<^verbatim>\<open>sandbox.rs\<close>: settings and overrides give a request, the request and what the host supports give a
  status, and the status gives the command line of \<^verbatim>\<open>unshare\<close>. The host is an argument: its environment variables, the files
  that exist, whether it is Linux and whether a probe of \<^verbatim>\<open>unshare\<close> succeeds (the process asks once and keeps the answer).
  Requested namespaces and a requested cut of the network are never dropped silently: the command has them, or the status names the
  reason. The mode of the file system is only announced to the command, in its environment, and if neither of the two is requested
  no command is built that could announce it.
\<close>

section \<open>Definitions\<close>

datatype FilesystemIsolationMode = FsOff | FsWorkspaceOnly | FsAllowList

fun FilesystemIsolationMode_as_str :: "FilesystemIsolationMode \<Rightarrow> ustr" where
  "FilesystemIsolationMode_as_str FsOff = lit ''off''"
| "FilesystemIsolationMode_as_str FsWorkspaceOnly = lit ''workspace-only''"
| "FilesystemIsolationMode_as_str FsAllowList = lit ''allow-list''"

record SandboxConfig =
  sb_enabled :: "bool option"
  sb_namespace_restrictions :: "bool option"
  sb_network_isolation :: "bool option"
  sb_filesystem_mode :: "FilesystemIsolationMode option"
  sb_allowed_mounts :: "ustr list"

record SandboxRequest =
  sr_enabled :: bool
  sr_namespace_restrictions :: bool
  sr_network_isolation :: bool
  sr_filesystem_mode :: FilesystemIsolationMode
  sr_allowed_mounts :: "ustr list"

record ContainerEnvironment =
  in_container :: bool
  markers :: "ustr list"

record SandboxStatus =
  ss_enabled :: bool
  ss_requested :: SandboxRequest
  ss_supported :: bool
  ss_active :: bool
  ss_namespace_supported :: bool
  ss_namespace_active :: bool
  ss_network_supported :: bool
  ss_network_active :: bool
  ss_filesystem_mode :: FilesystemIsolationMode
  ss_filesystem_active :: bool
  ss_allowed_mounts :: "ustr list"
  ss_in_container :: bool
  ss_container_markers :: "ustr list"
  ss_fallback_reason :: "ustr option"

record SandboxDetectionInputs =
  di_env_pairs :: "(ustr \<times> ustr) list"
  di_dockerenv_exists :: bool
  di_containerenv_exists :: bool
  di_proc_1_cgroup :: "ustr option"

record LinuxSandboxCommand =
  sc_program :: ustr
  sc_args :: "ustr list"
  sc_env :: "(ustr \<times> ustr) list"

definition resolve_request ::
  "SandboxConfig \<Rightarrow> bool option \<Rightarrow> bool option \<Rightarrow> bool option \<Rightarrow> FilesystemIsolationMode option \<Rightarrow> ustr list option \<Rightarrow> SandboxRequest" where
  "resolve_request config enabled_override namespace_override network_override filesystem_mode_override allowed_mounts_override =
     (let unwrap_or = \<lambda>r d. case r of None \<Rightarrow> d | Some x \<Rightarrow> x
      in \<lparr>sr_enabled = unwrap_or enabled_override (unwrap_or (sb_enabled config) True),
          sr_namespace_restrictions = unwrap_or namespace_override (unwrap_or (sb_namespace_restrictions config) True),
          sr_network_isolation = unwrap_or network_override (unwrap_or (sb_network_isolation config) False),
          sr_filesystem_mode =
            (case filesystem_mode_override of
               Some mode \<Rightarrow> mode
             | None \<Rightarrow> (case sb_filesystem_mode config of Some mode \<Rightarrow> mode | None \<Rightarrow> FsWorkspaceOnly)),
          sr_allowed_mounts =
            (case allowed_mounts_override of Some mounts \<Rightarrow> mounts | None \<Rightarrow> sb_allowed_mounts config)\<rparr>)"

subsection \<open>Containers\<close>

definition container_keys :: "ustr list" where
  "container_keys = [lit ''container'', lit ''docker'', lit ''podman'', lit ''kubernetes_service_host'']"

definition cgroup_needles :: "ustr list" where
  "cgroup_needles = [lit ''docker'', lit ''containerd'', lit ''kubepods'', lit ''podman'', lit ''libpod'']"

definition detect_container_environment_from :: "SandboxDetectionInputs \<Rightarrow> ContainerEnvironment" where
  "detect_container_environment_from inputs =
     (let found =
            (if di_dockerenv_exists inputs then [lit ''/.dockerenv''] else [])
            @ (if di_containerenv_exists inputs then [lit ''/run/.containerenv''] else [])
            @ map (\<lambda>(key, val). lit ''env:'' @ key @ lit ''='' @ val)
                (filter (\<lambda>(key, val). to_ascii_lowercase key \<in> set container_keys \<and> val \<noteq> []) (di_env_pairs inputs))
            @ (case di_proc_1_cgroup inputs of
                 None \<Rightarrow> []
               | Some cgroup \<Rightarrow> map (\<lambda>needle. lit ''/proc/1/cgroup:'' @ needle) (filter (\<lambda>needle. contains needle cgroup) cgroup_needles));
          sorted_markers = remdups_adj (sort found)
      in \<lparr>in_container = (sorted_markers \<noteq> []), markers = sorted_markers\<rparr>)"

text \<open>The host: \<open>host_probe\<close> is the exit status of \<^verbatim>\<open>unshare --user --map-root-user true\<close>, or nothing if it cannot be started.\<close>

record sandbox_host =
  host_vars :: "(ustr \<times> ustr) list"
  host_exists :: "ustr \<Rightarrow> bool"
  host_cgroup :: "ustr option"
  host_linux :: bool
  host_probe :: "bool option"

definition detect_container_environment :: "sandbox_host \<Rightarrow> ContainerEnvironment" where
  "detect_container_environment host =
     detect_container_environment_from
       \<lparr>di_env_pairs = host_vars host,
        di_dockerenv_exists = host_exists host (lit ''/.dockerenv''),
        di_containerenv_exists = host_exists host (lit ''/run/.containerenv''),
        di_proc_1_cgroup = host_cgroup host\<rparr>"

text \<open>\<^verbatim>\<open>str::split\<close> at a character, \<^verbatim>\<open>Path::join\<close> and \<^verbatim>\<open>env::var\<close>.\<close>

fun split_char :: "uchar \<Rightarrow> ustr \<Rightarrow> ustr list" where
  "split_char c [] = [[]]"
| "split_char c (ch # s) =
     (if ch = c then [] # split_char c s
      else case split_char c s of [] \<Rightarrow> [[ch]] | w # ws \<Rightarrow> (ch # w) # ws)"

definition path_join :: "ustr \<Rightarrow> ustr \<Rightarrow> ustr" where
  "path_join base p =
     (if starts_with (lit ''/'') p then p
      else if base = [] \<or> ends_with (lit ''/'') base then base @ p
      else base @ lit ''/'' @ p)"

definition host_var :: "sandbox_host \<Rightarrow> ustr \<Rightarrow> ustr option" where
  "host_var host name = map_of (host_vars host) name"

definition command_exists :: "sandbox_host \<Rightarrow> ustr \<Rightarrow> bool" where
  "command_exists host command =
     (case host_var host (lit ''PATH'') of
        None \<Rightarrow> False
      | Some paths \<Rightarrow> list_ex (\<lambda>path. host_exists host (path_join path command)) (split_char 58 paths))"

definition unshare_user_namespace_works :: "sandbox_host \<Rightarrow> bool" where
  "unshare_user_namespace_works host =
     (if \<not> command_exists host (lit ''unshare'') then False else host_probe host = Some True)"

subsection \<open>Status and command\<close>

definition normalize_mounts :: "ustr list \<Rightarrow> ustr \<Rightarrow> ustr list" where
  "normalize_mounts mounts cwd =
     map (\<lambda>mount. if starts_with (lit ''/'') mount then mount else path_join cwd mount) mounts"

definition resolve_sandbox_status_for_request :: "sandbox_host \<Rightarrow> SandboxRequest \<Rightarrow> ustr \<Rightarrow> SandboxStatus" where
  "resolve_sandbox_status_for_request host request cwd =
     (let container = detect_container_environment host;
          namespace_supported = (host_linux host \<and> unshare_user_namespace_works host);
          network_supported = namespace_supported;
          filesystem_active = (sr_enabled request \<and> sr_filesystem_mode request \<noteq> FsOff);
          fallback_reasons =
            (if sr_enabled request \<and> sr_namespace_restrictions request \<and> \<not> namespace_supported
             then [lit ''namespace isolation unavailable (requires Linux with `unshare`)''] else [])
            @ (if sr_enabled request \<and> sr_network_isolation request \<and> \<not> network_supported
               then [lit ''network isolation unavailable (requires Linux with `unshare`)''] else [])
            @ (if sr_enabled request \<and> sr_filesystem_mode request = FsAllowList \<and> sr_allowed_mounts request = []
               then [lit ''filesystem allow-list requested without configured mounts''] else []);
          active = (sr_enabled request
                    \<and> (\<not> sr_namespace_restrictions request \<or> namespace_supported)
                    \<and> (\<not> sr_network_isolation request \<or> network_supported))
      in \<lparr>ss_enabled = sr_enabled request, ss_requested = request, ss_supported = namespace_supported, ss_active = active,
          ss_namespace_supported = namespace_supported,
          ss_namespace_active = (sr_enabled request \<and> sr_namespace_restrictions request \<and> namespace_supported),
          ss_network_supported = network_supported,
          ss_network_active = (sr_enabled request \<and> sr_network_isolation request \<and> network_supported),
          ss_filesystem_mode = sr_filesystem_mode request, ss_filesystem_active = filesystem_active,
          ss_allowed_mounts = normalize_mounts (sr_allowed_mounts request) cwd,
          ss_in_container = in_container container, ss_container_markers = markers container,
          ss_fallback_reason = (if fallback_reasons \<noteq> [] then Some (join (lit ''; '') fallback_reasons) else None)\<rparr>)"

definition resolve_sandbox_status :: "sandbox_host \<Rightarrow> SandboxConfig \<Rightarrow> ustr \<Rightarrow> SandboxStatus" where
  "resolve_sandbox_status host config cwd =
     resolve_sandbox_status_for_request host (resolve_request config None None None None None) cwd"

definition build_linux_sandbox_command :: "sandbox_host \<Rightarrow> ustr \<Rightarrow> ustr \<Rightarrow> SandboxStatus \<Rightarrow> LinuxSandboxCommand option" where
  "build_linux_sandbox_command host command cwd status =
     (if \<not> host_linux host \<or> \<not> ss_enabled status \<or> (\<not> ss_namespace_active status \<and> \<not> ss_network_active status) then None
      else Some
        \<lparr>sc_program = lit ''unshare'',
         sc_args =
           map lit [''--user'', ''--map-root-user'', ''--mount'', ''--ipc'', ''--pid'', ''--uts'', ''--fork'']
           @ (if ss_network_active status then [lit ''--net''] else [])
           @ [lit ''sh'', lit ''-lc'', command],
         sc_env =
           [(lit ''HOME'', path_join cwd (lit ''.sandbox-home'')),
            (lit ''TMPDIR'', path_join cwd (lit ''.sandbox-tmp'')),
            (lit ''CLAWD_SANDBOX_FILESYSTEM_MODE'', FilesystemIsolationMode_as_str (ss_filesystem_mode status)),
            (lit ''CLAWD_SANDBOX_ALLOWED_MOUNTS'', join (lit '':'') (ss_allowed_mounts status))]
           @ (case host_var host (lit ''PATH'') of Some path \<Rightarrow> [(lit ''PATH'', path)] | None \<Rightarrow> [])\<rparr>)"

section \<open>Requested isolation is applied or reported\<close>

text \<open>A status without a reason to fall back is active as soon as the sandbox is enabled.\<close>

lemma enabled_without_fallback_is_active:
  assumes "status = resolve_sandbox_status_for_request host request cwd" and "ss_fallback_reason status = None"
  shows "ss_active status = sr_enabled request"
  using assms by (auto simp: resolve_sandbox_status_for_request_def Let_def split: if_splits)

text \<open>C32: whatever namespaces and cut of the network an enabled request asks for, the command that is built for it runs the text of
  the shell command under \<^verbatim>\<open>unshare\<close> with new namespaces, without a network exactly if that was asked for and with the
  requested mode of the file system announced in its environment, or the status is not active and carries a reason why
  not; and a disabled request never builds a command.\<close>

theorem isolation_is_applied_or_reported:
  assumes status: "status = resolve_sandbox_status_for_request host request cwd"
  shows "case build_linux_sandbox_command host command cwd status of
           Some c \<Rightarrow>
             sr_enabled request \<and> (sr_namespace_restrictions request \<or> sr_network_isolation request) \<and>
             sc_program c = lit ''unshare'' \<and> ss_active status \<and>
             (\<exists>options. sc_args c = options @ [lit ''sh'', lit ''-lc'', command] \<and>
                {lit ''--user'', lit ''--mount'', lit ''--pid''} \<subseteq> set options \<and>
                (lit ''--net'' \<in> set options \<longleftrightarrow> sr_network_isolation request)) \<and>
             map_of (sc_env c) (lit ''CLAWD_SANDBOX_FILESYSTEM_MODE'') = Some (FilesystemIsolationMode_as_str (sr_filesystem_mode request))
         | None \<Rightarrow>
             sr_enabled request \<longrightarrow> \<not> sr_namespace_restrictions request \<and> \<not> sr_network_isolation request
               \<or> \<not> ss_active status \<and> ss_fallback_reason status \<noteq> None"
proof (cases "build_linux_sandbox_command host command cwd status")
  case None
  then show ?thesis
    by (auto simp: status build_linux_sandbox_command_def resolve_sandbox_status_for_request_def Let_def split: if_splits)
next
  case (Some c)
  let ?options = "map lit [''--user'', ''--map-root-user'', ''--mount'', ''--ipc'', ''--pid'', ''--uts'', ''--fork'']
      @ (if ss_network_active status then [lit ''--net''] else [])"
  have c: "sc_program c = lit ''unshare''" "sc_args c = ?options @ [lit ''sh'', lit ''-lc'', command]"
    and on: "host_linux host" "ss_enabled status" "ss_namespace_active status \<or> ss_network_active status"
    using Some by (auto simp: build_linux_sandbox_command_def split: if_splits)
  have fields: "ss_enabled status = sr_enabled request"
    "ss_namespace_active status = (sr_enabled request \<and> sr_namespace_restrictions request \<and> ss_supported status)"
    "ss_network_active status = (sr_enabled request \<and> sr_network_isolation request \<and> ss_supported status)"
    "ss_active status = (sr_enabled request \<and> (\<not> sr_namespace_restrictions request \<or> ss_supported status) \<and>
      (\<not> sr_network_isolation request \<or> ss_supported status))"
    by (simp_all add: status resolve_sandbox_status_for_request_def Let_def)
  have "\<exists>options. sc_args c = options @ [lit ''sh'', lit ''-lc'', command] \<and>
      {lit ''--user'', lit ''--mount'', lit ''--pid''} \<subseteq> set options \<and>
      (lit ''--net'' \<in> set options \<longleftrightarrow> sr_network_isolation request)"
    using on fields by (intro exI [of _ ?options]) (auto simp: c)
  moreover have "map_of (sc_env c) (lit ''CLAWD_SANDBOX_FILESYSTEM_MODE'') = Some (FilesystemIsolationMode_as_str (ss_filesystem_mode status))"
    using Some by (auto simp: build_linux_sandbox_command_def lit_def split: if_splits)
  moreover have "ss_filesystem_mode status = sr_filesystem_mode request"
    by (simp add: status resolve_sandbox_status_for_request_def Let_def)
  ultimately show ?thesis using Some c on fields by auto
qed

text \<open>With neither namespaces nor a cut of the network requested, the default confinement of the file system to the workspace
  counts as active and nothing is reported, but no sandbox command is built.\<close>

lemma filesystem_isolation_is_only_announced:
  assumes "sr_enabled request" "\<not> sr_namespace_restrictions request" "\<not> sr_network_isolation request"
    and "sr_filesystem_mode request = FsWorkspaceOnly" and "status = resolve_sandbox_status_for_request host request cwd"
  shows "ss_filesystem_active status \<and> ss_active status \<and> ss_fallback_reason status = None
    \<and> build_linux_sandbox_command host command cwd status = None"
  using assms by (simp add: resolve_sandbox_status_for_request_def build_linux_sandbox_command_def Let_def)

definition sample_sandbox_host :: sandbox_host where
  "sample_sandbox_host =
     \<lparr>host_vars = [(lit ''PATH'', lit ''/bin:/usr/bin'')], host_exists = (\<lambda>p. p = lit ''/usr/bin/unshare''), host_cgroup = None,
      host_linux = True, host_probe = Some True\<rparr>"

definition sample_sandbox_request :: SandboxRequest where
  "sample_sandbox_request =
     \<lparr>sr_enabled = True, sr_namespace_restrictions = True, sr_network_isolation = True, sr_filesystem_mode = FsOff,
      sr_allowed_mounts = []\<rparr>"

theorem isolation_is_applied_or_reported_witness:
  "\<exists>c options.
     build_linux_sandbox_command sample_sandbox_host (lit ''ls'') (lit ''/w'')
       (resolve_sandbox_status_for_request sample_sandbox_host sample_sandbox_request (lit ''/w'')) = Some c
     \<and> sc_args c = options @ [lit ''sh'', lit ''-lc'', lit ''ls''] \<and> lit ''--net'' \<in> set options"
proof -
  let ?status = "resolve_sandbox_status_for_request sample_sandbox_host sample_sandbox_request (lit ''/w'')"
  have "build_linux_sandbox_command sample_sandbox_host (lit ''ls'') (lit ''/w'') ?status \<noteq> None"
    by code_simp
  then obtain c where c: "build_linux_sandbox_command sample_sandbox_host (lit ''ls'') (lit ''/w'') ?status = Some c"
    by blast
  have "sr_network_isolation sample_sandbox_request" by (simp add: sample_sandbox_request_def)
  then show ?thesis
    using isolation_is_applied_or_reported [of ?status sample_sandbox_host sample_sandbox_request "lit ''/w''" "lit ''ls''"] c
    by auto
qed

end
