(* ===== verification/Config.thy ===== *)
theory Config
  imports Config_Validate Sandbox Provider_Client
begin

text \<open>
  The settings of the runtime, \<^verbatim>\<open>config.rs\<close>: five files are looked for, each is read, validated and merged into the ones before,
  and the merged object is decoded section by section. The reader of files is an argument: from a path to its text or an error. The decoded
  sections are those other components are built from: hooks (\<^verbatim>\<open>Hooks\<close>), permission rules (\<^verbatim>\<open>Permissions\<close>), fall-back
  models (\<^verbatim>\<open>Provider_Client\<close>), trusted roots (\<^verbatim>\<open>Trust_Resolver\<close>). Every setting is that of the last file that decides it,
  the merged settings satisfy the schema that every file satisfies, and MCP servers come whole from the last file that defines them.
\<close>

section \<open>Definitions\<close>

subsection \<open>Data\<close>

datatype ConfigSource = SrcUser | SrcProject | SrcLocal

datatype ResolvedPermissionMode = ResReadOnly | ResWorkspaceWrite | ResDangerFullAccess

record ConfigEntry =
  ce_source :: ConfigSource
  ce_path :: ustr

record RuntimePluginConfig =
  enabled_plugins :: "(ustr, bool) btree"
  external_directories :: "ustr list"
  install_root :: "ustr option"
  registry_path :: "ustr option"
  bundled_root :: "ustr option"
  plugin_max_output_tokens :: "u32 option"

datatype McpTransport = TrStdio | TrSse | TrHttp | TrWs | TrSdk | TrManagedProxy

record McpOAuthConfig =
  mo_client_id :: "ustr option"
  mo_callback_port :: "u16 option"
  mo_auth_server_metadata_url :: "ustr option"
  mo_xaa :: "bool option"

record McpStdioServerConfig =
  stdio_command :: ustr
  stdio_args :: "ustr list"
  stdio_env :: "(ustr, ustr) btree"
  stdio_tool_call_timeout_ms :: "u64 option"

record McpRemoteServerConfig =
  remote_url :: ustr
  remote_headers :: "(ustr, ustr) btree"
  remote_headers_helper :: "ustr option"
  remote_oauth :: "McpOAuthConfig option"

record McpWebSocketServerConfig =
  ws_url :: ustr
  ws_headers :: "(ustr, ustr) btree"
  ws_headers_helper :: "ustr option"

record McpSdkServerConfig =
  sdk_name :: ustr

record McpManagedProxyServerConfig =
  proxy_url :: ustr
  proxy_id :: ustr

datatype McpServerConfig =
    McpStdio McpStdioServerConfig
  | McpSse McpRemoteServerConfig
  | McpHttp McpRemoteServerConfig
  | McpWs McpWebSocketServerConfig
  | McpSdk McpSdkServerConfig
  | McpManagedProxy McpManagedProxyServerConfig

fun McpServerConfig_transport :: "McpServerConfig \<Rightarrow> McpTransport" where
  "McpServerConfig_transport (McpStdio _) = TrStdio"
| "McpServerConfig_transport (McpSse _) = TrSse"
| "McpServerConfig_transport (McpHttp _) = TrHttp"
| "McpServerConfig_transport (McpWs _) = TrWs"
| "McpServerConfig_transport (McpSdk _) = TrSdk"
| "McpServerConfig_transport (McpManagedProxy _) = TrManagedProxy"

record ScopedMcpServerConfig =
  sm_scope :: ConfigSource
  sm_config :: McpServerConfig

definition ScopedMcpServerConfig_transport :: "ScopedMcpServerConfig \<Rightarrow> McpTransport" where
  "ScopedMcpServerConfig_transport s = McpServerConfig_transport (sm_config s)"

record McpConfigCollection =
  mcp_config_servers :: "(ustr, ScopedMcpServerConfig) btree"

definition McpConfigCollection_get :: "McpConfigCollection \<Rightarrow> ustr \<Rightarrow> ScopedMcpServerConfig option" where
  "McpConfigCollection_get c name = btree_get (mcp_config_servers c) name"

record OAuthConfig =
  oa_client_id :: ustr
  oa_authorize_url :: ustr
  oa_token_url :: ustr
  oa_callback_port :: "u16 option"
  oa_manual_redirect_url :: "ustr option"
  oa_scopes :: "ustr list"

record RuntimeFeatureConfig =
  fc_hooks :: RuntimeHookConfig
  fc_plugins :: RuntimePluginConfig
  fc_mcp :: McpConfigCollection
  fc_oauth :: "OAuthConfig option"
  fc_model :: "ustr option"
  fc_aliases :: "(ustr, ustr) btree"
  fc_permission_mode :: "ResolvedPermissionMode option"
  fc_permission_rules :: RuntimePermissionRuleConfig
  fc_sandbox :: SandboxConfig
  fc_provider_fallbacks :: ProviderFallbackConfig
  fc_trusted_roots :: "ustr list"

record RuntimeConfig =
  rc_merged :: "(ustr, JsonValue) btree"
  rc_loaded_entries :: "ConfigEntry list"
  rc_feature_config :: RuntimeFeatureConfig

record ConfigLoader =
  cl_cwd :: ustr
  cl_config_home :: ustr

record ParsedConfigFile =
  pf_object :: "(ustr, JsonValue) btree"
  pf_source :: ustr

text \<open>The values of \<^verbatim>\<open>Default\<close>.\<close>

definition hook_config_default :: RuntimeHookConfig where
  "hook_config_default = \<lparr>pre_tool_use = [], post_tool_use = [], post_tool_use_failure = []\<rparr>"

definition permission_rules_default :: RuntimePermissionRuleConfig where
  "permission_rules_default = \<lparr>cfg_allow = [], cfg_deny = [], cfg_ask = []\<rparr>"

definition plugin_config_default :: RuntimePluginConfig where
  "plugin_config_default =
     \<lparr>enabled_plugins = [], external_directories = [], install_root = None, registry_path = None, bundled_root = None,
      plugin_max_output_tokens = None\<rparr>"

definition sandbox_config_default :: SandboxConfig where
  "sandbox_config_default =
     \<lparr>sb_enabled = None, sb_namespace_restrictions = None, sb_network_isolation = None, sb_filesystem_mode = None,
      sb_allowed_mounts = []\<rparr>"

definition provider_fallbacks_default :: ProviderFallbackConfig where
  "provider_fallbacks_default = \<lparr>fb_primary = None, fb_fallbacks = []\<rparr>"

definition RuntimeConfig_empty :: RuntimeConfig where
  "RuntimeConfig_empty =
     \<lparr>rc_merged = [], rc_loaded_entries = [],
      rc_feature_config =
        \<lparr>fc_hooks = hook_config_default, fc_plugins = plugin_config_default, fc_mcp = \<lparr>mcp_config_servers = []\<rparr>,
         fc_oauth = None, fc_model = None, fc_aliases = [], fc_permission_mode = None,
         fc_permission_rules = permission_rules_default, fc_sandbox = sandbox_config_default,
         fc_provider_fallbacks = provider_fallbacks_default, fc_trusted_roots = []\<rparr>\<rparr>"

subsection \<open>Small operations\<close>

definition push_unique :: "ustr list \<Rightarrow> ustr \<Rightarrow> ustr list" where
  "push_unique target value = (if \<not> list_ex (\<lambda>existing. existing = value) target then target @ [value] else target)"

definition extend_unique :: "ustr list \<Rightarrow> ustr list \<Rightarrow> ustr list" where
  "extend_unique target values = fold (\<lambda>value target. push_unique target value) values target"

definition merge_trusted_roots :: "ustr list \<Rightarrow> ustr list \<Rightarrow> ustr list" where
  "merge_trusted_roots config_roots per_call_roots =
     fold (\<lambda>root merged. if root \<notin> set merged then merged @ [root] else merged) (config_roots @ per_call_roots) []"

definition trusted_roots_with_overrides :: "RuntimeConfig \<Rightarrow> ustr list \<Rightarrow> ustr list" where
  "trusted_roots_with_overrides config per_call_roots =
     merge_trusted_roots (fc_trusted_roots (rc_feature_config config)) per_call_roots"

definition RuntimeConfig_get :: "RuntimeConfig \<Rightarrow> ustr \<Rightarrow> JsonValue option" where
  "RuntimeConfig_get config key = btree_get (rc_merged config) key"

definition RuntimeConfig_as_json :: "RuntimeConfig \<Rightarrow> JsonValue" where
  "RuntimeConfig_as_json config = JObject (rc_merged config)"

definition with_hooks :: "RuntimeHookConfig \<Rightarrow> RuntimeFeatureConfig \<Rightarrow> RuntimeFeatureConfig" where
  "with_hooks hks config = config\<lparr>fc_hooks := hks\<rparr>"

definition with_plugins :: "RuntimePluginConfig \<Rightarrow> RuntimeFeatureConfig \<Rightarrow> RuntimeFeatureConfig" where
  "with_plugins plugins config = config\<lparr>fc_plugins := plugins\<rparr>"

definition RuntimeHookConfig_extend :: "RuntimeHookConfig \<Rightarrow> RuntimeHookConfig \<Rightarrow> RuntimeHookConfig" where
  "RuntimeHookConfig_extend config other =
     config\<lparr>pre_tool_use := extend_unique (pre_tool_use config) (pre_tool_use other),
            post_tool_use := extend_unique (post_tool_use config) (post_tool_use other),
            post_tool_use_failure := extend_unique (post_tool_use_failure config) (post_tool_use_failure other)\<rparr>"

definition RuntimeHookConfig_merged :: "RuntimeHookConfig \<Rightarrow> RuntimeHookConfig \<Rightarrow> RuntimeHookConfig" where
  "RuntimeHookConfig_merged config other = RuntimeHookConfig_extend config other"

definition set_max_output_tokens :: "u32 option \<Rightarrow> RuntimePluginConfig \<Rightarrow> RuntimePluginConfig" where
  "set_max_output_tokens n config = config\<lparr>plugin_max_output_tokens := n\<rparr>"

definition set_plugin_state :: "ustr \<Rightarrow> bool \<Rightarrow> RuntimePluginConfig \<Rightarrow> RuntimePluginConfig" where
  "set_plugin_state plugin_id enabled config =
     config\<lparr>enabled_plugins := btree_insert plugin_id enabled (enabled_plugins config)\<rparr>"

definition state_for :: "RuntimePluginConfig \<Rightarrow> ustr \<Rightarrow> bool \<Rightarrow> bool" where
  "state_for config plugin_id default_enabled =
     (case btree_get (enabled_plugins config) plugin_id of None \<Rightarrow> default_enabled | Some enabled \<Rightarrow> enabled)"

subsection \<open>Fields of an object\<close>

definition config_error :: "ustr \<Rightarrow> ConfigError + 'a" where
  "config_error message = Inl (ConfigParse message)"

definition expect_object :: "JsonValue \<Rightarrow> ustr \<Rightarrow> ConfigError + (ustr, JsonValue) btree" where
  "expect_object value ctx = ok_or (ConfigParse (ctx @ lit '': expected JSON object'')) (as_object value)"

definition expect_string :: "(ustr, JsonValue) btree \<Rightarrow> ustr \<Rightarrow> ustr \<Rightarrow> ConfigError + ustr" where
  "expect_string obj key ctx =
     ok_or (ConfigParse (ctx @ lit '': missing string field '' @ key)) (Option.bind (btree_get obj key) as_str)"

definition optional_string :: "(ustr, JsonValue) btree \<Rightarrow> ustr \<Rightarrow> ustr \<Rightarrow> ConfigError + ustr option" where
  "optional_string obj key ctx =
     (case btree_get obj key of
        Some value \<Rightarrow> ok_or (ConfigParse (ctx @ lit '': field '' @ key @ lit '' must be a string'')) (map_option Some (as_str value))
      | None \<Rightarrow> Inr None)"

definition optional_bool :: "(ustr, JsonValue) btree \<Rightarrow> ustr \<Rightarrow> ustr \<Rightarrow> ConfigError + bool option" where
  "optional_bool obj key ctx =
     (case btree_get obj key of
        Some value \<Rightarrow> ok_or (ConfigParse (ctx @ lit '': field '' @ key @ lit '' must be a boolean'')) (map_option Some (as_bool value))
      | None \<Rightarrow> Inr None)"

text \<open>\<^verbatim>\<open>uN::try_from(i64)\<close>.\<close>

definition try_from_i64 :: "i64 \<Rightarrow> ('n :: len) word option" where
  "try_from_i64 n = (if 0 \<le> sint n \<and> sint n < 2 ^ LENGTH('n) then Some (of_int (sint n)) else None)"

definition optional_u16 :: "(ustr, JsonValue) btree \<Rightarrow> ustr \<Rightarrow> ustr \<Rightarrow> ConfigError + u16 option" where
  "optional_u16 obj key ctx =
     (case btree_get obj key of
        Some value \<Rightarrow>
          (case as_i64 value of
             None \<Rightarrow> config_error (ctx @ lit '': field '' @ key @ lit '' must be an integer'')
           | Some number \<Rightarrow>
               rbind (ok_or (ConfigParse (ctx @ lit '': field '' @ key @ lit '' is out of range'')) (try_from_i64 number))
                 (\<lambda>n. Inr (Some n)))
      | None \<Rightarrow> Inr None)"

definition optional_u32 :: "(ustr, JsonValue) btree \<Rightarrow> ustr \<Rightarrow> ustr \<Rightarrow> ConfigError + u32 option" where
  "optional_u32 obj key ctx =
     (case btree_get obj key of
        Some value \<Rightarrow>
          (case as_i64 value of
             None \<Rightarrow> config_error (ctx @ lit '': field '' @ key @ lit '' must be a non-negative integer'')
           | Some number \<Rightarrow>
               rbind (ok_or (ConfigParse (ctx @ lit '': field '' @ key @ lit '' is out of range'')) (try_from_i64 number))
                 (\<lambda>n. Inr (Some n)))
      | None \<Rightarrow> Inr None)"

definition optional_u64 :: "(ustr, JsonValue) btree \<Rightarrow> ustr \<Rightarrow> ustr \<Rightarrow> ConfigError + u64 option" where
  "optional_u64 obj key ctx =
     (case btree_get obj key of
        Some value \<Rightarrow>
          (case as_i64 value of
             None \<Rightarrow> config_error (ctx @ lit '': field '' @ key @ lit '' must be a non-negative integer'')
           | Some number \<Rightarrow>
               rbind (ok_or (ConfigParse (ctx @ lit '': field '' @ key @ lit '' is out of range'')) (try_from_i64 number))
                 (\<lambda>n. Inr (Some n)))
      | None \<Rightarrow> Inr None)"

definition parse_bool_map :: "JsonValue \<Rightarrow> ustr \<Rightarrow> ConfigError + (ustr, bool) btree" where
  "parse_bool_map value ctx =
     (case as_object value of
        None \<Rightarrow> config_error (ctx @ lit '': expected JSON object'')
      | Some es \<Rightarrow>
          rbind (collect_results (\<lambda>(key, v).
                   ok_or (ConfigParse (ctx @ lit '': field '' @ key @ lit '' must be a boolean''))
                     (map_option (\<lambda>enabled. (key, enabled)) (as_bool v))) es)
            (\<lambda>kvs. Inr (btree_of kvs)))"

definition optional_string_array :: "(ustr, JsonValue) btree \<Rightarrow> ustr \<Rightarrow> ustr \<Rightarrow> ConfigError + ustr list option" where
  "optional_string_array obj key ctx =
     (case btree_get obj key of
        Some value \<Rightarrow>
          (case as_array value of
             None \<Rightarrow> config_error (ctx @ lit '': field '' @ key @ lit '' must be an array'')
           | Some items \<Rightarrow>
               rbind (collect_results (\<lambda>item.
                        ok_or (ConfigParse (ctx @ lit '': field '' @ key @ lit '' must contain only strings'')) (as_str item)) items)
                 (\<lambda>strings. Inr (Some strings)))
      | None \<Rightarrow> Inr None)"

definition optional_string_map :: "(ustr, JsonValue) btree \<Rightarrow> ustr \<Rightarrow> ustr \<Rightarrow> ConfigError + (ustr, ustr) btree option" where
  "optional_string_map obj key ctx =
     (case btree_get obj key of
        Some value \<Rightarrow>
          (case as_object value of
             None \<Rightarrow> config_error (ctx @ lit '': field '' @ key @ lit '' must be an object'')
           | Some es \<Rightarrow>
               rbind (collect_results (\<lambda>(entry_key, entry_value).
                        ok_or (ConfigParse (ctx @ lit '': field '' @ key @ lit '' must contain only string values''))
                          (map_option (\<lambda>text. (entry_key, text)) (as_str entry_value))) es)
                 (\<lambda>kvs. Inr (Some (btree_of kvs))))
      | None \<Rightarrow> Inr None)"

definition unwrap_or_default :: "'e + 'a list option \<Rightarrow> 'e + 'a list" where
  "unwrap_or_default r = rbind r (\<lambda>x. Inr (case x of None \<Rightarrow> [] | Some xs \<Rightarrow> xs))"

subsection \<open>Sections of the merged settings\<close>

definition parse_optional_model :: "JsonValue \<Rightarrow> ustr option" where
  "parse_optional_model root =
     Option.bind (Option.bind (as_object root) (\<lambda>obj. btree_get obj (lit ''model''))) as_str"

definition parse_optional_aliases :: "JsonValue \<Rightarrow> ConfigError + (ustr, ustr) btree" where
  "parse_optional_aliases root =
     (case as_object root of
        None \<Rightarrow> Inr []
      | Some obj \<Rightarrow> unwrap_or_default (optional_string_map obj (lit ''aliases'') (lit ''merged settings'')))"

definition parse_optional_hooks_config_object :: "(ustr, JsonValue) btree \<Rightarrow> ustr \<Rightarrow> ConfigError + RuntimeHookConfig" where
  "parse_optional_hooks_config_object obj ctx =
     (case btree_get obj (lit ''hooks'') of
        None \<Rightarrow> Inr hook_config_default
      | Some hooks_value \<Rightarrow>
          rbind (expect_object hooks_value ctx) (\<lambda>hks.
          rbind (unwrap_or_default (optional_string_array hks (lit ''PreToolUse'') ctx)) (\<lambda>pre.
          rbind (unwrap_or_default (optional_string_array hks (lit ''PostToolUse'') ctx)) (\<lambda>post.
          rbind (unwrap_or_default (optional_string_array hks (lit ''PostToolUseFailure'') ctx)) (\<lambda>failure.
          Inr \<lparr>pre_tool_use = pre, post_tool_use = post, post_tool_use_failure = failure\<rparr>)))))"

definition parse_optional_hooks_config :: "JsonValue \<Rightarrow> ConfigError + RuntimeHookConfig" where
  "parse_optional_hooks_config root =
     (case as_object root of
        None \<Rightarrow> Inr hook_config_default
      | Some obj \<Rightarrow> parse_optional_hooks_config_object obj (lit ''merged settings.hooks''))"

definition validate_optional_hooks_config :: "(ustr, JsonValue) btree \<Rightarrow> ustr \<Rightarrow> ConfigError + unit" where
  "validate_optional_hooks_config root path =
     rbind (parse_optional_hooks_config_object root (path @ lit '': hooks'')) (\<lambda>_. Inr ())"

definition parse_optional_permission_rules :: "JsonValue \<Rightarrow> ConfigError + RuntimePermissionRuleConfig" where
  "parse_optional_permission_rules root =
     (case as_object root of
        None \<Rightarrow> Inr permission_rules_default
      | Some obj \<Rightarrow>
          (case Option.bind (btree_get obj (lit ''permissions'')) as_object of
             None \<Rightarrow> Inr permission_rules_default
           | Some permissions \<Rightarrow>
               let ctx = lit ''merged settings.permissions''
               in rbind (unwrap_or_default (optional_string_array permissions (lit ''allow'') ctx)) (\<lambda>allow.
                  rbind (unwrap_or_default (optional_string_array permissions (lit ''deny'') ctx)) (\<lambda>deny.
                  rbind (unwrap_or_default (optional_string_array permissions (lit ''ask'') ctx)) (\<lambda>ask.
                  Inr \<lparr>cfg_allow = allow, cfg_deny = deny, cfg_ask = ask\<rparr>)))))"

definition parse_optional_plugin_config :: "JsonValue \<Rightarrow> ConfigError + RuntimePluginConfig" where
  "parse_optional_plugin_config root =
     (case as_object root of
        None \<Rightarrow> Inr plugin_config_default
      | Some obj \<Rightarrow>
          rbind (case btree_get obj (lit ''enabledPlugins'') of
                   Some v \<Rightarrow> parse_bool_map v (lit ''merged settings.enabledPlugins'')
                 | None \<Rightarrow> Inr []) (\<lambda>top_enabled.
          (case btree_get obj (lit ''plugins'') of
             None \<Rightarrow> Inr (plugin_config_default\<lparr>enabled_plugins := top_enabled\<rparr>)
           | Some plugins_value \<Rightarrow>
               let ctx = lit ''merged settings.plugins''
               in rbind (expect_object plugins_value ctx) (\<lambda>plugins.
                  rbind (case btree_get plugins (lit ''enabled'') of
                           Some v \<Rightarrow> parse_bool_map v (lit ''merged settings.plugins.enabled'')
                         | None \<Rightarrow> Inr top_enabled) (\<lambda>enabled.
                  rbind (unwrap_or_default (optional_string_array plugins (lit ''externalDirectories'') ctx)) (\<lambda>dirs.
                  rbind (optional_string plugins (lit ''installRoot'') ctx) (\<lambda>root_dir.
                  rbind (optional_string plugins (lit ''registryPath'') ctx) (\<lambda>registry.
                  rbind (optional_string plugins (lit ''bundledRoot'') ctx) (\<lambda>bundled.
                  rbind (optional_u32 plugins (lit ''maxOutputTokens'') ctx) (\<lambda>tokens.
                  Inr \<lparr>enabled_plugins = enabled, external_directories = dirs, install_root = root_dir,
                       registry_path = registry, bundled_root = bundled, plugin_max_output_tokens = tokens\<rparr>))))))))))"

definition parse_permission_mode_label :: "ustr \<Rightarrow> ustr \<Rightarrow> ConfigError + ResolvedPermissionMode" where
  "parse_permission_mode_label mode ctx =
     (if mode \<in> {lit ''default'', lit ''plan'', lit ''read-only''} then Inr ResReadOnly
      else if mode \<in> {lit ''acceptEdits'', lit ''auto'', lit ''workspace-write''} then Inr ResWorkspaceWrite
      else if mode \<in> {lit ''dontAsk'', lit ''danger-full-access''} then Inr ResDangerFullAccess
      else config_error (ctx @ lit '': unsupported permission mode '' @ mode))"

definition parse_optional_permission_mode :: "JsonValue \<Rightarrow> ConfigError + ResolvedPermissionMode option" where
  "parse_optional_permission_mode root =
     (case as_object root of
        None \<Rightarrow> Inr None
      | Some obj \<Rightarrow>
          (case Option.bind (btree_get obj (lit ''permissionMode'')) as_str of
             Some mode \<Rightarrow> rbind (parse_permission_mode_label mode (lit ''merged settings.permissionMode'')) (\<lambda>m. Inr (Some m))
           | None \<Rightarrow>
               (case Option.bind (Option.bind (Option.bind (btree_get obj (lit ''permissions'')) as_object)
                       (\<lambda>permissions. btree_get permissions (lit ''defaultMode''))) as_str of
                  None \<Rightarrow> Inr None
                | Some mode \<Rightarrow>
                    rbind (parse_permission_mode_label mode (lit ''merged settings.permissions.defaultMode'')) (\<lambda>m. Inr (Some m)))))"

definition parse_filesystem_mode_label :: "ustr \<Rightarrow> ConfigError + FilesystemIsolationMode" where
  "parse_filesystem_mode_label value =
     (if value = lit ''off'' then Inr FsOff
      else if value = lit ''workspace-only'' then Inr FsWorkspaceOnly
      else if value = lit ''allow-list'' then Inr FsAllowList
      else config_error (lit ''merged settings.sandbox.filesystemMode: unsupported filesystem mode '' @ value))"

definition parse_optional_sandbox_config :: "JsonValue \<Rightarrow> ConfigError + SandboxConfig" where
  "parse_optional_sandbox_config root =
     (case as_object root of
        None \<Rightarrow> Inr sandbox_config_default
      | Some obj \<Rightarrow>
          (case btree_get obj (lit ''sandbox'') of
             None \<Rightarrow> Inr sandbox_config_default
           | Some sandbox_value \<Rightarrow>
               let ctx = lit ''merged settings.sandbox''
               in rbind (expect_object sandbox_value ctx) (\<lambda>sandbox.
                  rbind (optional_string sandbox (lit ''filesystemMode'') ctx) (\<lambda>mode_label.
                  rbind (transpose_map parse_filesystem_mode_label mode_label) (\<lambda>filesystem_mode.
                  rbind (optional_bool sandbox (lit ''enabled'') ctx) (\<lambda>enabled.
                  rbind (optional_bool sandbox (lit ''namespaceRestrictions'') ctx) (\<lambda>restrictions.
                  rbind (optional_bool sandbox (lit ''networkIsolation'') ctx) (\<lambda>isolation.
                  rbind (unwrap_or_default (optional_string_array sandbox (lit ''allowedMounts'') ctx)) (\<lambda>mounts.
                  Inr \<lparr>sb_enabled = enabled, sb_namespace_restrictions = restrictions, sb_network_isolation = isolation,
                       sb_filesystem_mode = filesystem_mode, sb_allowed_mounts = mounts\<rparr>)))))))))"

definition parse_optional_provider_fallbacks :: "JsonValue \<Rightarrow> ConfigError + ProviderFallbackConfig" where
  "parse_optional_provider_fallbacks root =
     (case as_object root of
        None \<Rightarrow> Inr provider_fallbacks_default
      | Some obj \<Rightarrow>
          (case btree_get obj (lit ''providerFallbacks'') of
             None \<Rightarrow> Inr provider_fallbacks_default
           | Some value \<Rightarrow>
               let ctx = lit ''merged settings.providerFallbacks''
               in rbind (expect_object value ctx) (\<lambda>entry.
                  rbind (optional_string entry (lit ''primary'') ctx) (\<lambda>primary.
                  rbind (unwrap_or_default (optional_string_array entry (lit ''fallbacks'') ctx)) (\<lambda>fallbacks.
                  Inr \<lparr>fb_primary = primary, fb_fallbacks = fallbacks\<rparr>)))))"

definition parse_optional_trusted_roots :: "JsonValue \<Rightarrow> ConfigError + ustr list" where
  "parse_optional_trusted_roots root =
     (case as_object root of
        None \<Rightarrow> Inr []
      | Some obj \<Rightarrow> unwrap_or_default (optional_string_array obj (lit ''trustedRoots'') (lit ''merged settings.trustedRoots'')))"

definition parse_optional_oauth_config :: "JsonValue \<Rightarrow> ustr \<Rightarrow> ConfigError + OAuthConfig option" where
  "parse_optional_oauth_config root ctx =
     (case Option.bind (as_object root) (\<lambda>obj. btree_get obj (lit ''oauth'')) of
        None \<Rightarrow> Inr None
      | Some oauth_value \<Rightarrow>
          rbind (expect_object oauth_value ctx) (\<lambda>obj.
          rbind (expect_string obj (lit ''clientId'') ctx) (\<lambda>client_id.
          rbind (expect_string obj (lit ''authorizeUrl'') ctx) (\<lambda>authorize_url.
          rbind (expect_string obj (lit ''tokenUrl'') ctx) (\<lambda>token_url.
          rbind (optional_u16 obj (lit ''callbackPort'') ctx) (\<lambda>callback_port.
          rbind (optional_string obj (lit ''manualRedirectUrl'') ctx) (\<lambda>manual_redirect_url.
          rbind (unwrap_or_default (optional_string_array obj (lit ''scopes'') ctx)) (\<lambda>scopes.
          Inr (Some \<lparr>oa_client_id = client_id, oa_authorize_url = authorize_url, oa_token_url = token_url,
                     oa_callback_port = callback_port, oa_manual_redirect_url = manual_redirect_url, oa_scopes = scopes\<rparr>)))))))))"

subsection \<open>MCP servers\<close>

definition infer_mcp_server_type :: "(ustr, JsonValue) btree \<Rightarrow> ustr" where
  "infer_mcp_server_type obj = (if btree_get obj (lit ''url'') \<noteq> None then lit ''http'' else lit ''stdio'')"

definition parse_optional_mcp_oauth_config :: "(ustr, JsonValue) btree \<Rightarrow> ustr \<Rightarrow> ConfigError + McpOAuthConfig option" where
  "parse_optional_mcp_oauth_config obj ctx =
     (case btree_get obj (lit ''oauth'') of
        None \<Rightarrow> Inr None
      | Some value \<Rightarrow>
          rbind (expect_object value (ctx @ lit ''.oauth'')) (\<lambda>oauth.
          rbind (optional_string oauth (lit ''clientId'') ctx) (\<lambda>client_id.
          rbind (optional_u16 oauth (lit ''callbackPort'') ctx) (\<lambda>callback_port.
          rbind (optional_string oauth (lit ''authServerMetadataUrl'') ctx) (\<lambda>metadata_url.
          rbind (optional_bool oauth (lit ''xaa'') ctx) (\<lambda>xaa.
          Inr (Some \<lparr>mo_client_id = client_id, mo_callback_port = callback_port,
                     mo_auth_server_metadata_url = metadata_url, mo_xaa = xaa\<rparr>)))))))"

definition parse_mcp_remote_server_config :: "(ustr, JsonValue) btree \<Rightarrow> ustr \<Rightarrow> ConfigError + McpRemoteServerConfig" where
  "parse_mcp_remote_server_config obj ctx =
     rbind (expect_string obj (lit ''url'') ctx) (\<lambda>url.
     rbind (unwrap_or_default (optional_string_map obj (lit ''headers'') ctx)) (\<lambda>headers.
     rbind (optional_string obj (lit ''headersHelper'') ctx) (\<lambda>helper.
     rbind (parse_optional_mcp_oauth_config obj ctx) (\<lambda>oauth.
     Inr \<lparr>remote_url = url, remote_headers = headers, remote_headers_helper = helper, remote_oauth = oauth\<rparr>))))"

definition parse_mcp_server_config :: "ustr \<Rightarrow> JsonValue \<Rightarrow> ustr \<Rightarrow> ConfigError + McpServerConfig" where
  "parse_mcp_server_config server_name value ctx =
     rbind (expect_object value ctx) (\<lambda>obj.
     rbind (optional_string obj (lit ''type'') ctx) (\<lambda>declared.
     let server_type = (case declared of Some t \<Rightarrow> t | None \<Rightarrow> infer_mcp_server_type obj)
     in if server_type = lit ''stdio'' then
          rbind (expect_string obj (lit ''command'') ctx) (\<lambda>command.
          rbind (unwrap_or_default (optional_string_array obj (lit ''args'') ctx)) (\<lambda>arguments.
          rbind (unwrap_or_default (optional_string_map obj (lit ''env'') ctx)) (\<lambda>environment.
          rbind (optional_u64 obj (lit ''toolCallTimeoutMs'') ctx) (\<lambda>timeout.
          Inr (McpStdio \<lparr>stdio_command = command, stdio_args = arguments, stdio_env = environment,
                         stdio_tool_call_timeout_ms = timeout\<rparr>)))))
        else if server_type = lit ''sse'' then
          rbind (parse_mcp_remote_server_config obj ctx) (\<lambda>config. Inr (McpSse config))
        else if server_type = lit ''http'' then
          rbind (parse_mcp_remote_server_config obj ctx) (\<lambda>config. Inr (McpHttp config))
        else if server_type = lit ''ws'' then
          rbind (expect_string obj (lit ''url'') ctx) (\<lambda>url.
          rbind (unwrap_or_default (optional_string_map obj (lit ''headers'') ctx)) (\<lambda>headers.
          rbind (optional_string obj (lit ''headersHelper'') ctx) (\<lambda>helper.
          Inr (McpWs \<lparr>ws_url = url, ws_headers = headers, ws_headers_helper = helper\<rparr>))))
        else if server_type = lit ''sdk'' then
          rbind (expect_string obj (lit ''name'') ctx) (\<lambda>name. Inr (McpSdk \<lparr>sdk_name = name\<rparr>))
        else if server_type = lit ''claudeai-proxy'' then
          rbind (expect_string obj (lit ''url'') ctx) (\<lambda>url.
          rbind (expect_string obj (lit ''id'') ctx) (\<lambda>ident.
          Inr (McpManagedProxy \<lparr>proxy_url = url, proxy_id = ident\<rparr>)))
        else config_error (ctx @ lit '': unsupported MCP server type for '' @ server_name @ lit '': '' @ server_type)))"

fun merge_mcp_loop ::
  "ConfigSource \<Rightarrow> ustr \<Rightarrow> (ustr, JsonValue) btree \<Rightarrow> (ustr, ScopedMcpServerConfig) btree
   \<Rightarrow> ConfigError + (ustr, ScopedMcpServerConfig) btree" where
  "merge_mcp_loop source path [] target = Inr target"
| "merge_mcp_loop source path ((name, value) # servers) target =
     rbind (parse_mcp_server_config name value (path @ lit '': mcpServers.'' @ name)) (\<lambda>parsed.
     merge_mcp_loop source path servers (btree_insert name \<lparr>sm_scope = source, sm_config = parsed\<rparr> target))"

definition merge_mcp_servers ::
  "(ustr, ScopedMcpServerConfig) btree \<Rightarrow> ConfigSource \<Rightarrow> (ustr, JsonValue) btree \<Rightarrow> ustr
   \<Rightarrow> ConfigError + (ustr, ScopedMcpServerConfig) btree" where
  "merge_mcp_servers target source root path =
     (case btree_get root (lit ''mcpServers'') of
        None \<Rightarrow> Inr target
      | Some mcp_servers \<Rightarrow>
          rbind (expect_object mcp_servers (path @ lit '': mcpServers'')) (\<lambda>servers.
          merge_mcp_loop source path servers target))"

subsection \<open>Merging and loading\<close>

function deep_merge_objects :: "(ustr, JsonValue) btree \<Rightarrow> (ustr, JsonValue) btree \<Rightarrow> (ustr, JsonValue) btree" where
  "deep_merge_objects target [] = target"
| "deep_merge_objects target ((key, value) # source) =
     deep_merge_objects
       (case (btree_get target key, value) of
          (Some (JObject existing), JObject incoming) \<Rightarrow>
            btree_insert key (JObject (deep_merge_objects existing incoming)) target
        | _ \<Rightarrow> btree_insert key value target)
       source"
  by pat_completeness auto
termination
  by (relation "measure (\<lambda>(target, source). size_list (size_prod (\<lambda>_. 0) size) source)") auto

text \<open>\<^verbatim>\<open>Path::parent\<close>; the pieces between slashes that are empty or a dot are not components, except a leading dot.\<close>

definition path_parent :: "ustr \<Rightarrow> ustr option" where
  "path_parent p =
     (let pieces = split_slash p;
          absolute = starts_with (lit ''/'') p;
          named = filter (\<lambda>i. pieces ! i \<noteq> [] \<and> (pieces ! i \<noteq> lit ''.'' \<or> i = 0)) [0..<length pieces]
      in case rev named of
           [] \<Rightarrow> None
         | [_] \<Rightarrow> Some (if absolute then lit ''/'' else [])
         | _ # i # _ \<Rightarrow> Some (join (lit ''/'') (take (Suc i) pieces)))"

definition default_config_home :: "(ustr \<Rightarrow> ustr option) \<Rightarrow> ustr" where
  "default_config_home env =
     (case env (lit ''CLAW_CONFIG_HOME'') of
        Some home \<Rightarrow> home
      | None \<Rightarrow>
          (case env (lit ''HOME'') of
             Some home \<Rightarrow> path_join home (lit ''.claw'')
           | None \<Rightarrow> lit ''.claw''))"

definition ConfigLoader_default_for :: "(ustr \<Rightarrow> ustr option) \<Rightarrow> ustr \<Rightarrow> ConfigLoader" where
  "ConfigLoader_default_for env cwd = \<lparr>cl_cwd = cwd, cl_config_home = default_config_home env\<rparr>"

definition discover :: "ConfigLoader \<Rightarrow> ConfigEntry list" where
  "discover loader =
     (let user_legacy_path =
            (case path_parent (cl_config_home loader) of
               None \<Rightarrow> lit ''.claw.json''
             | Some parent \<Rightarrow> path_join parent (lit ''.claw.json''))
      in [\<lparr>ce_source = SrcUser, ce_path = user_legacy_path\<rparr>,
          \<lparr>ce_source = SrcUser, ce_path = path_join (cl_config_home loader) (lit ''settings.json'')\<rparr>,
          \<lparr>ce_source = SrcProject, ce_path = path_join (cl_cwd loader) (lit ''.claw.json'')\<rparr>,
          \<lparr>ce_source = SrcProject, ce_path = path_join (path_join (cl_cwd loader) (lit ''.claw'')) (lit ''settings.json'')\<rparr>,
          \<lparr>ce_source = SrcLocal, ce_path = path_join (path_join (cl_cwd loader) (lit ''.claw'')) (lit ''settings.local.json'')\<rparr>])"

type_synonym read_fn = "ustr \<Rightarrow> io_error + ustr"

definition read_optional_json_object :: "read_fn \<Rightarrow> ustr \<Rightarrow> ConfigError + ParsedConfigFile option" where
  "read_optional_json_object read path =
     (let is_legacy_config = (file_name path = Some (lit ''.claw.json''))
      in case read path of
           Inl (NotFound _) \<Rightarrow> Inr None
         | Inl e \<Rightarrow> Inl (ConfigIo e)
         | Inr contents \<Rightarrow>
             if trim contents = [] then Inr (Some \<lparr>pf_object = [], pf_source = contents\<rparr>)
             else
               (case parse contents of
                  Inl e \<Rightarrow>
                    if is_legacy_config then Inr None
                    else config_error (path @ lit '': '' @ JsonError_display e)
                | Inr parsed \<Rightarrow>
                    (case as_object parsed of
                       None \<Rightarrow>
                         if is_legacy_config then Inr None
                         else config_error (path @ lit '': top-level settings value must be a JSON object'')
                     | Some obj \<Rightarrow> Inr (Some \<lparr>pf_object = obj, pf_source = contents\<rparr>))))"

record load_state =
  ls_merged :: "(ustr, JsonValue) btree"
  ls_entries :: "ConfigEntry list"
  ls_mcp_servers :: "(ustr, ScopedMcpServerConfig) btree"
  ls_warnings :: "ConfigDiagnostic list"

definition load_entry :: "read_fn \<Rightarrow> ConfigEntry \<Rightarrow> load_state \<Rightarrow> ConfigError + load_state" where
  "load_entry read entry st =
     rbind (check_unsupported_format (ce_path entry)) (\<lambda>_.
     rbind (read_optional_json_object read (ce_path entry)) (\<lambda>found.
     (case found of
        None \<Rightarrow> Inr st
      | Some parsed \<Rightarrow>
          let validation = validate_config_file (pf_object parsed) (pf_source parsed) (ce_path entry)
          in if \<not> ValidationResult_is_ok validation
             then config_error (ConfigDiagnostic_display (vr_errors validation ! 0))
             else rbind (validate_optional_hooks_config (pf_object parsed) (ce_path entry)) (\<lambda>_.
                  rbind (merge_mcp_servers (ls_mcp_servers st) (ce_source entry) (pf_object parsed) (ce_path entry)) (\<lambda>servers.
                  Inr \<lparr>ls_merged = deep_merge_objects (ls_merged st) (pf_object parsed),
                       ls_entries = ls_entries st @ [entry],
                       ls_mcp_servers = servers,
                       ls_warnings = ls_warnings st @ vr_warnings validation\<rparr>)))))"

fun load_entries :: "read_fn \<Rightarrow> ConfigEntry list \<Rightarrow> load_state \<Rightarrow> ConfigError + load_state" where
  "load_entries read [] st = Inr st"
| "load_entries read (entry # entries) st = rbind (load_entry read entry st) (load_entries read entries)"

definition parse_features :: "(ustr, JsonValue) btree \<Rightarrow> (ustr, ScopedMcpServerConfig) btree \<Rightarrow> ConfigError + RuntimeFeatureConfig" where
  "parse_features merged mcp_servers =
     (let merged_value = JObject merged
      in rbind (parse_optional_hooks_config merged_value) (\<lambda>hks.
         rbind (parse_optional_plugin_config merged_value) (\<lambda>plugins.
         rbind (parse_optional_oauth_config merged_value (lit ''merged settings.oauth'')) (\<lambda>oauth.
         rbind (parse_optional_aliases merged_value) (\<lambda>aliases.
         rbind (parse_optional_permission_mode merged_value) (\<lambda>mode.
         rbind (parse_optional_permission_rules merged_value) (\<lambda>rules.
         rbind (parse_optional_sandbox_config merged_value) (\<lambda>sandbox.
         rbind (parse_optional_provider_fallbacks merged_value) (\<lambda>fallbacks.
         rbind (parse_optional_trusted_roots merged_value) (\<lambda>roots.
         Inr \<lparr>fc_hooks = hks, fc_plugins = plugins, fc_mcp = \<lparr>mcp_config_servers = mcp_servers\<rparr>, fc_oauth = oauth,
              fc_model = parse_optional_model merged_value, fc_aliases = aliases, fc_permission_mode = mode,
              fc_permission_rules = rules, fc_sandbox = sandbox, fc_provider_fallbacks = fallbacks,
              fc_trusted_roots = roots\<rparr>))))))))))"

text \<open>Loading gives the lines it prints to the standard error stream and its result.\<close>

definition load :: "read_fn \<Rightarrow> ConfigLoader \<Rightarrow> ustr list \<times> (ConfigError + RuntimeConfig)" where
  "load read loader =
     (case load_entries read (discover loader) \<lparr>ls_merged = [], ls_entries = [], ls_mcp_servers = [], ls_warnings = []\<rparr> of
        Inl e \<Rightarrow> ([], Inl e)
      | Inr st \<Rightarrow>
          (map (\<lambda>w. lit ''warning: '' @ ConfigDiagnostic_display w) (ls_warnings st),
           rbind (parse_features (ls_merged st) (ls_mcp_servers st)) (\<lambda>features.
           Inr \<lparr>rc_merged = ls_merged st, rc_loaded_entries = ls_entries st, rc_feature_config = features\<rparr>)))"

section \<open>Precedence\<close>

subsection \<open>Merging two objects\<close>

definition merge_value :: "JsonValue option \<Rightarrow> JsonValue \<Rightarrow> JsonValue" where
  "merge_value old new =
     (case (old, new) of
        (Some (JObject existing), JObject incoming) \<Rightarrow> JObject (deep_merge_objects existing incoming)
      | _ \<Rightarrow> new)"

lemma deep_merge_objects_Cons:
  "deep_merge_objects target ((key, value) # source) =
     deep_merge_objects (btree_insert key (merge_value (btree_get target key) value) target) source"
  by (simp add: merge_value_def split: option.splits JsonValue.splits)

declare deep_merge_objects.simps(2) [simp del]

lemma merge_value_simps [simp]:
  "merge_value None v = v"
  "merge_value (Some (JObject es)) (JObject fs) = JObject (deep_merge_objects es fs)"
  "as_object v = None \<Longrightarrow> merge_value old v = v"
  "as_object u = None \<Longrightarrow> merge_value (Some u) v = v"
  by (simp_all add: merge_value_def as_object_def split: option.splits JsonValue.splits)

lemma btree_get_deep_merge:
  assumes "btree_wf source"
  shows "btree_get (deep_merge_objects target source) k =
           (case btree_get source k of None \<Rightarrow> btree_get target k | Some v \<Rightarrow> Some (merge_value (btree_get target k) v))"
  using assms
proof (induction source arbitrary: target)
  case (Cons e source)
  obtain key v where e: "e = (key, v)" by (cases e)
  have "btree_wf source" "btree_get source key = None"
    using Cons.prems by (auto simp: e btree_wf_Cons btree_get_def map_of_eq_None_iff)
  then show ?case
    using Cons.IH [of "btree_insert key (merge_value (btree_get target key) v) target"]
    by (auto simp: e deep_merge_objects_Cons btree_get_insert_any btree_get_def [of "_ # _"] btree_get_def [of source]
        split: option.splits)
qed simp

text \<open>What a value says about the setting at a path: \<open>Some (Some v)\<close> if it gives it the value \<open>v\<close>, \<open>Some None\<close> if it makes the path an
  object or puts something else than an object on the way to it, \<open>None\<close> if it is silent.\<close>

fun decides :: "ustr list \<Rightarrow> JsonValue \<Rightarrow> JsonValue option option" where
  "decides [] v = (if as_object v = None then Some (Some v) else Some None)"
| "decides (k # p) v =
     (case as_object v of
        None \<Rightarrow> Some None
      | Some es \<Rightarrow> (case btree_get es k of None \<Rightarrow> None | Some w \<Rightarrow> decides p w))"

definition setting :: "ustr list \<Rightarrow> JsonValue \<Rightarrow> JsonValue option" where
  "setting p v = (case decides p v of None \<Rightarrow> None | Some d \<Rightarrow> d)"

lemma setting_simps [simp]:
  "setting [] v = (if as_object v = None then Some v else None)"
  "setting (k # p) v = (case as_object v of None \<Rightarrow> None | Some es \<Rightarrow> Option.bind (btree_get es k) (setting p))"
  by (auto simp: setting_def split: option.splits)

lemma json_wf_get: "json_wf (JObject es) \<Longrightarrow> btree_get es k = Some v \<Longrightarrow> json_wf v"
  by (auto simp: btree_get_def list_all_iff dest!: map_of_SomeD)

lemma setting_merge_value:
  "json_wf new \<Longrightarrow> setting p (merge_value (Some old) new) =
     (case decides p new of Some d \<Rightarrow> d | None \<Rightarrow> setting p old)"
proof (induction p arbitrary: old new)
  case Nil
  then show ?case
    by (cases "as_object new") (auto simp: as_object_Some merge_value_def as_object_def split: JsonValue.splits)
next
  case (Cons k p)
  show ?case
  proof (cases "as_object new")
    case None
    then show ?thesis by simp
  next
    case (Some es)
    then have new: "new = JObject es" and wf: "btree_wf es"
      using Cons.prems by (auto simp: as_object_Some)
    show ?thesis
    proof (cases "as_object old")
      case None
      then show ?thesis
        using Some by (auto simp: setting_def split: option.splits)
    next
      case (Some fs)
      then have old: "old = JObject fs" by (simp add: as_object_Some)
      have [simp]: "as_object (JObject es) = Some es" for es by (simp add: as_object_def)
      show ?thesis
      proof (cases "btree_get es k")
        case None
        then show ?thesis by (simp add: new old btree_get_deep_merge [OF wf])
      next
        case (Some w)
        have "setting p (merge_value (btree_get fs k) w) =
            (case decides p w of Some d \<Rightarrow> d | None \<Rightarrow> Option.bind (btree_get fs k) (setting p))"
          using Cons.IH json_wf_get [OF Cons.prems [unfolded new] Some]
          by (cases "btree_get fs k") (auto simp: setting_def split: option.splits)
        with Some show ?thesis by (simp add: new old btree_get_deep_merge [OF wf] split: option.split)
      qed
    qed
  qed
qed

text \<open>Objects merged one after the other: the last one that decides a path gives its setting.\<close>

definition merge_all :: "(ustr, JsonValue) btree list \<Rightarrow> (ustr, JsonValue) btree" where
  "merge_all objs = fold (\<lambda>obj merged. deep_merge_objects merged obj) objs []"

lemma merge_all_simps [simp]:
  "merge_all [] = []"
  "merge_all (objs @ [obj]) = deep_merge_objects (merge_all objs) obj"
  by (simp_all add: merge_all_def)

lemma setting_merge_all:
  "\<forall>obj \<in> set objs. json_wf (JObject obj) \<Longrightarrow>
     setting p (JObject (merge_all objs)) =
       (case find_map (\<lambda>obj. decides p (JObject obj)) (rev objs) of Some d \<Rightarrow> d | None \<Rightarrow> None)"
proof (induction objs rule: rev_induct)
  case Nil
  then show ?case by (cases p) (auto simp: as_object_def)
next
  case (snoc obj objs)
  then show ?case
    using setting_merge_value [of "JObject obj" p "JObject (merge_all objs)"] by (auto split: option.splits)
qed

subsection \<open>Loading\<close>

lemma find_map_map: "find_map f (map g xs) = find_map (f \<circ> g) xs"
  by (induction xs) (auto split: option.splits)

text \<open>The files that contribute, in the order of discovery.\<close>

definition found_file :: "read_fn \<Rightarrow> ConfigEntry \<Rightarrow> (ConfigEntry \<times> (ustr, JsonValue) btree) option" where
  "found_file read entry =
     (case read_optional_json_object read (ce_path entry) of
        Inr (Some parsed) \<Rightarrow> Some (entry, pf_object parsed)
      | _ \<Rightarrow> None)"

definition settings_files :: "read_fn \<Rightarrow> ConfigEntry list \<Rightarrow> (ConfigEntry \<times> (ustr, JsonValue) btree) list" where
  "settings_files read entries = List.map_filter (found_file read) entries"

lemma settings_files_simps [simp]:
  "settings_files read [] = []"
  "settings_files read (entry # entries) =
     (case found_file read entry of None \<Rightarrow> [] | Some f \<Rightarrow> [f]) @ settings_files read entries"
  by (auto simp: settings_files_def List.map_filter_simps split: option.splits)

lemma parse_wf: "parse s = Inr v \<Longrightarrow> json_wf v"
  using parse_values_wf(1) by (auto simp: parse_def json_error_def rbind_eq_Inr split: if_splits)

lemma found_file_wf: "found_file read entry = Some (e, obj) \<Longrightarrow> e = entry \<and> json_wf (JObject obj)"
  by (auto simp: found_file_def read_optional_json_object_def Let_def config_error_def as_object_Some
      dest!: parse_wf split: sum.splits option.splits io_error.splits if_splits)

lemma settings_files_wf: "(e, obj) \<in> set (settings_files read entries) \<Longrightarrow> e \<in> set entries \<and> json_wf (JObject obj)"
  by (induction entries) (auto split: option.splits dest: found_file_wf found_file_wf [OF sym])

text \<open>What a step adds for a file that is found.\<close>

lemma load_entry_cases:
  assumes "load_entry read entry st = Inr st'"
  shows "case found_file read entry of
           None \<Rightarrow> st' = st
         | Some (_, obj) \<Rightarrow>
             settings_ok obj \<and>
             ls_merged st' = deep_merge_objects (ls_merged st) obj \<and>
             ls_entries st' = ls_entries st @ [entry] \<and>
             merge_mcp_servers (ls_mcp_servers st) (ce_source entry) obj (ce_path entry) = Inr (ls_mcp_servers st')"
proof -
  from assms obtain found where found: "read_optional_json_object read (ce_path entry) = Inr found"
    by (auto simp: load_entry_def rbind_eq_Inr)
  show ?thesis
  proof (cases found)
    case None
    with assms found show ?thesis by (auto simp: load_entry_def found_file_def rbind_eq_Inr)
  next
    case (Some parsed)
    with assms found show ?thesis
      by (auto simp: load_entry_def found_file_def rbind_eq_Inr Let_def config_error_def validation_ok_iff split: if_splits)
  qed
qed

text \<open>One induction over the entries serves every component of the state: a function of it that each found file advances
  by a step is the fold of the steps over the files.\<close>

lemma load_entries_fold:
  assumes step: "\<And>entry obj st st'. load_entry read entry st = Inr st' \<Longrightarrow>
      found_file read entry = Some (entry, obj) \<Longrightarrow> f st' = g (entry, obj) (f st)"
    and run: "load_entries read entries st = Inr st'"
  shows "f st' = fold g (settings_files read entries) (f st)"
  using run
proof (induction entries arbitrary: st)
  case (Cons entry entries)
  then obtain mid where mid: "load_entry read entry st = Inr mid" "load_entries read entries mid = Inr st'"
    by (auto simp: rbind_eq_Inr)
  show ?case
  proof (cases "found_file read entry")
    case None
    then show ?thesis
      using load_entry_cases [OF mid(1)] Cons.IH [OF mid(2)] by simp
  next
    case (Some found)
    then obtain obj where "found = (entry, obj)"
      using found_file_wf by (cases found) auto
    with Some show ?thesis
      using step [OF mid(1)] Cons.IH [OF mid(2)] by simp
  qed
qed simp

lemma load_entries_merged:
  assumes "load_entries read entries st = Inr st'" and "ls_merged st = []"
  shows "ls_merged st' = merge_all (map snd (settings_files read entries))"
proof -
  have "ls_merged st' = fold (\<lambda>f merged. deep_merge_objects merged (snd f)) (settings_files read entries) (ls_merged st)"
    by (rule load_entries_fold [OF _ assms(1)]) (drule load_entry_cases, simp)
  with assms(2) show ?thesis
    by (simp add: merge_all_def fold_map comp_def)
qed

lemma load_entries_loaded:
  assumes "load_entries read entries st = Inr st'" and "ls_entries st = []"
  shows "ls_entries st' = map fst (settings_files read entries)"
proof -
  have "ls_entries st' = fold (\<lambda>f es. es @ [fst f]) (settings_files read entries) (ls_entries st)"
    by (rule load_entries_fold [OF _ assms(1)]) (drule load_entry_cases, simp)
  moreover have "fold (\<lambda>f es. es @ [fst f]) fs es = es @ map fst fs" for fs :: "(ConfigEntry \<times> (ustr, JsonValue) btree) list" and es
    by (induction fs arbitrary: es) auto
  ultimately show ?thesis
    using assms(2) by simp
qed

abbreviation load_init :: load_state where
  "load_init \<equiv> \<lparr>ls_merged = [], ls_entries = [], ls_mcp_servers = [], ls_warnings = []\<rparr>"

lemma load_Inr:
  assumes "load read loader = (out, Inr config)"
  obtains st where "load_entries read (discover loader) load_init = Inr st"
    "parse_features (ls_merged st) (ls_mcp_servers st) = Inr (rc_feature_config config)"
    "rc_merged config = ls_merged st" "rc_loaded_entries config = ls_entries st"
  using assms by (auto simp: load_def rbind_eq_Inr split: sum.splits)

text \<open>C29: every setting of a loaded configuration, at any depth, is that of the last file that says anything about it, in the order user, project,
  local and within a scope first the legacy file; a file that puts an object or a plain value in place of the other hides what the
  files before it said. Settings no file mentions do not exist.\<close>

theorem last_setting_wins:
  assumes "load read loader = (out, Inr config)"
  shows "setting p (RuntimeConfig_as_json config) =
           (case find_map (\<lambda>(_, obj). decides p (JObject obj)) (rev (settings_files read (discover loader))) of
              Some d \<Rightarrow> d
            | None \<Rightarrow> None)
       \<and> rc_loaded_entries config = map fst (settings_files read (discover loader))"
proof -
  let ?files = "settings_files read (discover loader)"
  from assms obtain st where st: "load_entries read (discover loader) load_init = Inr st"
    "rc_merged config = ls_merged st" "rc_loaded_entries config = ls_entries st"
    by (rule load_Inr)
  have "\<forall>obj \<in> set (map snd ?files). json_wf (JObject obj)"
    using settings_files_wf by fastforce
  then show ?thesis
    using setting_merge_all [of "map snd ?files" p] load_entries_merged [OF st(1)] load_entries_loaded [OF st(1)]
    by (simp add: RuntimeConfig_as_json_def st(2,3) rev_map find_map_map comp_def case_prod_unfold)
qed

section \<open>Validity\<close>

lemma deep_merge_wf:
  "json_wf (JObject target) \<Longrightarrow> json_wf (JObject source) \<Longrightarrow> json_wf (JObject (deep_merge_objects target source))"
proof (induction target source rule: deep_merge_objects.induct)
  case (2 target key new source)
  have new: "json_wf new" and source: "json_wf (JObject source)"
    using "2.prems"(2) by (auto simp: btree_wf_Cons)
  have "json_wf (merge_value (btree_get target key) new)"
  proof (cases "\<exists>existing incoming. btree_get target key = Some (JObject existing) \<and> new = JObject incoming")
    case True
    then obtain existing incoming where get: "btree_get target key = Some (JObject existing)" and new_eq: "new = JObject incoming"
      by blast
    then show ?thesis
      using "2.IH"(1) json_wf_get [OF "2.prems"(1) get] new by (simp add: get)
  next
    case False
    then have "merge_value (btree_get target key) new = new"
      by (auto simp: merge_value_def split: option.splits JsonValue.splits)
    with new show ?thesis by simp
  qed
  then have "json_wf (JObject (btree_insert key (merge_value (btree_get target key) new) target))"
    using "2.prems"(1) by (simp add: list_all_btree_insert)
  then show ?case
    using "2.IH"(2) source
    unfolding deep_merge_objects_Cons merge_value_def
    by (simp split: option.splits JsonValue.splits)
qed simp

lemma btree_get_set: "btree_wf m \<Longrightarrow> btree_get m k = Some v \<longleftrightarrow> (k, v) \<in> set m"
  by (simp add: btree_get_def btree_wf_def strict_sorted_iff)

definition key_ok :: "FieldSpec list \<Rightarrow> ustr \<Rightarrow> JsonValue \<Rightarrow> bool" where
  "key_ok known key value =
     (case find (\<lambda>f. spec_name f = key) known of
        Some spec \<Rightarrow> FieldType_matches (spec_expected spec) value
      | None \<Rightarrow> key \<in> dep_name ` set DEPRECATED_FIELDS)"

lemma conforms_get: "btree_wf obj \<Longrightarrow> conforms known obj \<longleftrightarrow> (\<forall>k v. btree_get obj k = Some v \<longrightarrow> key_ok known k v)"
  by (auto simp: conforms_def key_ok_def btree_get_set)

text \<open>Merging changes what an object contains but not that it is one, and a well-typed field of another type is replaced as a whole.\<close>

lemma FieldType_matches_object: "FieldType_matches t (JObject es) \<longleftrightarrow> t = FtObject"
  by (cases t) (simp_all add: as_str_def as_bool_def as_object_def as_array_def as_i64_def)

lemma key_ok_merge: "key_ok known key value \<Longrightarrow> key_ok known key (merge_value old value)"
  by (auto simp: merge_value_def key_ok_def FieldType_matches_object split: option.splits JsonValue.splits)

lemma conforms_merge:
  assumes "btree_wf target" "json_wf (JObject source)" "json_wf (JObject target)" "conforms known target" "conforms known source"
  shows "conforms known (deep_merge_objects target source)"
proof -
  have "btree_wf source" "btree_wf (deep_merge_objects target source)"
    using assms deep_merge_wf [OF assms(3,2)] by simp_all
  then show ?thesis
    using assms by (auto simp: conforms_get btree_get_deep_merge key_ok_merge split: option.splits)
qed

lemma settings_ok_merge:
  assumes "json_wf (JObject target)" "json_wf (JObject source)" "settings_ok target" "settings_ok source"
  shows "settings_ok (deep_merge_objects target source)"
proof -
  have wf: "btree_wf target" "btree_wf source" using assms by simp_all
  have "conforms known inner"
    if block: "(name, known) \<in> set nested_fields"
      and inner: "btree_get (deep_merge_objects target source) name = Some (JObject inner)" for name known inner
  proof (cases "btree_get source name")
    case None
    then show ?thesis
      using inner block assms(3) by (auto simp: btree_get_deep_merge [OF wf(2)] settings_ok_def)
  next
    case (Some v)
    then have merged: "merge_value (btree_get target name) v = JObject inner"
      using inner by (simp add: btree_get_deep_merge [OF wf(2)])
    then obtain new where v: "v = JObject new"
      by (cases v) (auto simp: merge_value_def split: option.splits JsonValue.splits)
    have new: "json_wf (JObject new)" "conforms known new"
      using json_wf_get [OF assms(2) Some] Some assms(4) block by (auto simp: v settings_ok_def)
    show ?thesis
    proof (cases "\<exists>old. btree_get target name = Some (JObject old)")
      case True
      then obtain old where old: "btree_get target name = Some (JObject old)" by blast
      then have "json_wf (JObject old)" "conforms known old"
        using json_wf_get [OF assms(1)] assms(3) block by (auto simp: settings_ok_def simp del: json_wf.simps)
      with new merged show ?thesis
        by (auto simp: old v intro!: conforms_merge)
    next
      case False
      then show ?thesis
        using merged new by (auto simp: v merge_value_def split: option.splits JsonValue.splits)
    qed
  qed
  then show ?thesis
    using assms wf conforms_merge unfolding settings_ok_def by blast
qed

lemma settings_ok_merge_all:
  "\<forall>obj \<in> set objs. json_wf (JObject obj) \<and> settings_ok obj \<Longrightarrow>
     json_wf (JObject (merge_all objs)) \<and> settings_ok (merge_all objs)"
proof (induction objs rule: rev_induct)
  case Nil
  show ?case by (simp add: settings_ok_def conforms_def)
next
  case (snoc obj objs)
  then show ?case
    using deep_merge_wf settings_ok_merge by (simp del: json_wf.simps)
qed

lemma load_entries_valid:
  "load_entries read entries st = Inr st' \<Longrightarrow> (e, obj) \<in> set (settings_files read entries) \<Longrightarrow> settings_ok obj"
proof (induction entries arbitrary: st)
  case (Cons entry entries)
  then show ?case
    using load_entry_cases [of read entry st] by (auto simp: rbind_eq_Inr split: option.splits)
qed simp

text \<open>Sections whose fields validation checks completely cannot fail to decode.\<close>

lemma collect_strings:
  "list_all (\<lambda>x. as_str x \<noteq> None) items \<Longrightarrow> \<exists>strings. collect_results (\<lambda>item. ok_or e (as_str item)) items = Inr strings"
  by (induction items) auto

lemma optional_string_array_decodes:
  assumes "conforms known obj" and "map_option spec_expected (find (\<lambda>f. spec_name f = key) known) = Some FtStringArray"
  shows "\<exists>strings. unwrap_or_default (optional_string_array obj key ctx) = Inr strings"
proof (cases "btree_get obj key")
  case (Some v)
  then have "(key, v) \<in> set obj" by (auto simp: btree_get_def dest: map_of_SomeD)
  with assms have "FieldType_matches FtStringArray v" by (auto simp: conforms_def)
  then show ?thesis
    using collect_strings by (auto simp: optional_string_array_def Some unwrap_or_default_def rbind_eq_Inr split: option.splits)
qed (simp add: optional_string_array_def unwrap_or_default_def)

lemmas schema_tables = nested_fields_def TOP_LEVEL_FIELDS_def HOOKS_FIELDS_def PERMISSIONS_FIELDS_def PLUGINS_FIELDS_def
  SANDBOX_FIELDS_def OAUTH_FIELDS_def

lemma nested_conforms:
  "settings_ok obj \<Longrightarrow> (name, known) \<in> set nested_fields \<Longrightarrow> btree_get obj name = Some (JObject inner) \<Longrightarrow> conforms known inner"
  by (auto simp: settings_ok_def)

lemma section_is_object:
  assumes "settings_ok obj" and "btree_get obj name = Some v"
    and "map_option spec_expected (find (\<lambda>f. spec_name f = name) TOP_LEVEL_FIELDS) = Some FtObject"
  obtains es where "v = JObject es"
proof -
  have "(name, v) \<in> set obj" using assms(2) by (auto simp: btree_get_def dest: map_of_SomeD)
  then have "FieldType_matches FtObject v"
    using assms by (auto simp: settings_ok_def conforms_def)
  then show ?thesis using that by (auto simp: as_object_Some)
qed

lemma hooks_decode:
  assumes "settings_ok obj"
  shows "\<exists>config. parse_optional_hooks_config_object obj ctx = Inr config"
proof (cases "btree_get obj (lit ''hooks'')")
  case (Some v)
  then obtain hks where v: "v = JObject hks"
    by (rule section_is_object [OF assms]) (simp_all add: TOP_LEVEL_FIELDS_def)
  have hks: "conforms HOOKS_FIELDS hks"
    by (rule nested_conforms [OF assms _ Some [unfolded v]]) (simp add: nested_fields_def)
  have arrays: "\<exists>strings. unwrap_or_default (optional_string_array hks key ctx) = Inr strings"
    if "key \<in> {lit ''PreToolUse'', lit ''PostToolUse'', lit ''PostToolUseFailure''}" for key
    using that by (auto intro!: optional_string_array_decodes [OF hks] simp: HOOKS_FIELDS_def)
  obtain pre post failure where
    "unwrap_or_default (optional_string_array hks (lit ''PreToolUse'') ctx) = Inr pre"
    "unwrap_or_default (optional_string_array hks (lit ''PostToolUse'') ctx) = Inr post"
    "unwrap_or_default (optional_string_array hks (lit ''PostToolUseFailure'') ctx) = Inr failure"
    using arrays [of "lit ''PreToolUse''"] arrays [of "lit ''PostToolUse''"] arrays [of "lit ''PostToolUseFailure''"] by auto
  then show ?thesis
    by (simp add: parse_optional_hooks_config_object_def Some v expect_object_def as_object_def)
qed (simp add: parse_optional_hooks_config_object_def)

lemma permission_rules_decode:
  assumes "settings_ok obj"
  shows "\<exists>rules. parse_optional_permission_rules (JObject obj) = Inr rules"
proof (cases "btree_get obj (lit ''permissions'')")
  case (Some v)
  then obtain permissions where v: "v = JObject permissions"
    by (rule section_is_object [OF assms]) (simp_all add: TOP_LEVEL_FIELDS_def)
  have ps: "conforms PERMISSIONS_FIELDS permissions"
    by (rule nested_conforms [OF assms _ Some [unfolded v]]) (simp add: nested_fields_def)
  let ?ctx = "lit ''merged settings.permissions''"
  have arrays: "\<exists>strings. unwrap_or_default (optional_string_array permissions key ?ctx) = Inr strings"
    if "key \<in> {lit ''allow'', lit ''deny'', lit ''ask''}" for key
    using that by (auto intro!: optional_string_array_decodes [OF ps] simp: PERMISSIONS_FIELDS_def)
  obtain allow deny ask where
    "unwrap_or_default (optional_string_array permissions (lit ''allow'') ?ctx) = Inr allow"
    "unwrap_or_default (optional_string_array permissions (lit ''deny'') ?ctx) = Inr deny"
    "unwrap_or_default (optional_string_array permissions (lit ''ask'') ?ctx) = Inr ask"
    using arrays [of "lit ''allow''"] arrays [of "lit ''deny''"] arrays [of "lit ''ask''"] by auto
  then show ?thesis
    by (simp add: parse_optional_permission_rules_def Some v as_object_def Let_def)
qed (simp add: parse_optional_permission_rules_def as_object_def)

lemma trusted_roots_decode: "settings_ok obj \<Longrightarrow> \<exists>roots. parse_optional_trusted_roots (JObject obj) = Inr roots"
  unfolding parse_optional_trusted_roots_def as_object_def JsonValue.case option.case
  by (rule optional_string_array_decodes [of TOP_LEVEL_FIELDS]) (simp_all add: settings_ok_def TOP_LEVEL_FIELDS_def)

text \<open>C30: once every file has been read and validated, the merged settings satisfy the schema as well, and the hooks, the permission rules and the
  trusted roots are always decoded; a load that still fails does so on a value the schema does not describe: the state of a
  plugin, a missing or out-of-range field, an alias, a mode, or a fall-back model.\<close>

theorem merged_settings_are_valid:
  assumes "load_entries read (discover loader) load_init = Inr st"
  shows "ValidationResult_is_ok (validate_config_file (ls_merged st) source path)
       \<and> (\<exists>hks rules roots.
            parse_optional_hooks_config (JObject (ls_merged st)) = Inr hks \<and>
            parse_optional_permission_rules (JObject (ls_merged st)) = Inr rules \<and>
            parse_optional_trusted_roots (JObject (ls_merged st)) = Inr roots)"
proof -
  have "\<forall>obj \<in> set (map snd (settings_files read (discover loader))). json_wf (JObject obj) \<and> settings_ok obj"
    using settings_files_wf load_entries_valid [OF assms] by fastforce
  then have ok: "settings_ok (ls_merged st)"
    using settings_ok_merge_all load_entries_merged [OF assms] by simp
  then show ?thesis
    using hooks_decode [OF ok] permission_rules_decode [OF ok] trusted_roots_decode [OF ok]
    by (auto simp: validation_ok_iff parse_optional_hooks_config_def as_object_def)
qed

section \<open>MCP servers\<close>

text \<open>The server a file defines under a name.\<close>

definition server_of :: "ustr \<Rightarrow> ConfigEntry \<times> (ustr, JsonValue) btree \<Rightarrow> ScopedMcpServerConfig option" where
  "server_of name = (\<lambda>(entry, obj).
     Option.bind (Option.bind (btree_get obj (lit ''mcpServers'')) as_object) (\<lambda>servers.
     Option.bind (btree_get servers name) (\<lambda>v.
     case parse_mcp_server_config name v (ce_path entry @ lit '': mcpServers.'' @ name) of
       Inr config \<Rightarrow> Some \<lparr>sm_scope = ce_source entry, sm_config = config\<rparr>
     | Inl _ \<Rightarrow> None)))"

lemma merge_mcp_loop_get:
  assumes "merge_mcp_loop source path servers target = Inr target'" and "btree_wf servers"
  shows "btree_get target' name =
           (case btree_get servers name of
              None \<Rightarrow> btree_get target name
            | Some v \<Rightarrow>
                (case parse_mcp_server_config name v (path @ lit '': mcpServers.'' @ name) of
                   Inr config \<Rightarrow> Some \<lparr>sm_scope = source, sm_config = config\<rparr>
                 | Inl _ \<Rightarrow> None))"
  using assms
proof (induction servers arbitrary: target)
  case (Cons e servers)
  obtain key v where e: "e = (key, v)" by (cases e)
  have wf: "btree_wf servers" "btree_get servers key = None"
    using Cons.prems(2) by (auto simp: e btree_wf_Cons btree_get_def map_of_eq_None_iff)
  obtain parsed where parsed: "parse_mcp_server_config key v (path @ lit '': mcpServers.'' @ key) = Inr parsed"
    "merge_mcp_loop source path servers (btree_insert key \<lparr>sm_scope = source, sm_config = parsed\<rparr> target) = Inr target'"
    using Cons.prems(1) by (auto simp: e rbind_eq_Inr)
  show ?case
    using Cons.IH [OF parsed(2) wf(1)] wf(2) parsed(1)
    by (cases "name = key")
      (simp_all add: e btree_get_insert_any btree_get_def [of "_ # _"] btree_get_def [of servers] split: option.split)
qed simp

lemma merge_mcp_servers_get:
  assumes "merge_mcp_servers target (ce_source entry) obj (ce_path entry) = Inr target'" and "json_wf (JObject obj)"
  shows "btree_get target' name =
           (case server_of name (entry, obj) of Some server \<Rightarrow> Some server | None \<Rightarrow> btree_get target name)"
proof (cases "btree_get obj (lit ''mcpServers'')")
  case None
  with assms show ?thesis by (simp add: merge_mcp_servers_def server_of_def)
next
  case (Some v)
  with assms obtain servers where servers: "v = JObject servers"
    "merge_mcp_loop (ce_source entry) (ce_path entry) servers target = Inr target'"
    by (auto simp: merge_mcp_servers_def rbind_eq_Inr expect_object_def ok_or_def as_object_Some split: option.splits)
  have wf: "btree_wf servers"
    using json_wf_get [OF assms(2) Some] by (simp add: servers(1))
  have "parse_mcp_server_config name w (ce_path entry @ lit '': mcpServers.'' @ name) \<noteq> Inl e"
    if "btree_get servers name = Some w" for w e
    using servers(2) that
  proof (induction servers arbitrary: target)
    case (Cons kv servers)
    then show ?case by (cases kv) (auto simp: rbind_eq_Inr btree_get_def split: if_splits)
  qed simp
  then show ?thesis
    using merge_mcp_loop_get [OF servers(2) wf, of name]
    by (auto simp: server_of_def Some servers(1) as_object_def split: option.splits sum.splits)
qed

lemma parse_features_mcp: "parse_features merged servers = Inr features \<Longrightarrow> fc_mcp features = \<lparr>mcp_config_servers = servers\<rparr>"
  by (auto simp: parse_features_def rbind_eq_Inr Let_def)

text \<open>Unlike other settings, MCP servers are not merged field by field: a server of the loaded configuration is, whole and with its scope, the
  one of the last file that defines its name, and a name no file defines has no server.\<close>

theorem mcp_server_of_last_file:
  assumes "load read loader = (out, Inr config)"
  shows "McpConfigCollection_get (fc_mcp (rc_feature_config config)) name =
           find_map (server_of name) (rev (settings_files read (discover loader)))"
proof -
  let ?step = "\<lambda>f old. case server_of name f of Some server \<Rightarrow> Some server | None \<Rightarrow> old"
  from assms obtain st where st: "load_entries read (discover loader) load_init = Inr st"
    "parse_features (ls_merged st) (ls_mcp_servers st) = Inr (rc_feature_config config)"
    by (rule load_Inr)
  have "btree_get (ls_mcp_servers st) name =
      fold ?step (settings_files read (discover loader)) (btree_get (ls_mcp_servers load_init) name)"
    by (rule load_entries_fold [OF _ st(1)])
      (drule load_entry_cases, use found_file_wf merge_mcp_servers_get in auto)
  moreover have "fold ?step fs old = (case find_map (server_of name) (rev fs) of Some server \<Rightarrow> Some server | None \<Rightarrow> old)" for fs old
    by (induction fs rule: rev_induct) (auto split: option.splits)
  moreover have "mcp_config_servers (fc_mcp (rc_feature_config config)) = ls_mcp_servers st"
    using st(2) by (simp add: parse_features_mcp)
  ultimately show ?thesis
    by (simp add: McpConfigCollection_get_def split: option.splits)
qed

section \<open>Lists, modes and numbers\<close>

text \<open>Configured roots come first, the roots of a call extend them, and only the first occurrence of a root is kept.\<close>

lemma fold_push_new:
  "fold (\<lambda>x xs. if x \<notin> set xs then xs @ [x] else xs) ys (rev (remdups zs)) = rev (remdups (rev ys @ zs))"
proof (induction ys arbitrary: zs)
  case (Cons y ys)
  have swap: "rev (remdups (rev ys @ y # zs)) = rev (remdups (rev ys @ zs))" if "y \<in> set zs"
    using that Cons [of "y # zs"] Cons [of zs] by simp
  show ?case
    using Cons [of "y # zs"] Cons [of zs] swap by (cases "y \<in> set zs") simp_all
qed simp

lemma merge_trusted_roots_keeps_first:
  "merge_trusted_roots config_roots per_call_roots = rev (remdups (rev (config_roots @ per_call_roots)))"
  using fold_push_new [of "config_roots @ per_call_roots" "[]"] by (simp add: merge_trusted_roots_def)

lemma extend_unique_fold: "extend_unique target ys = fold (\<lambda>x xs. if x \<notin> set xs then xs @ [x] else xs) ys target"
  by (simp add: extend_unique_def push_unique_def list_ex_iff Bex_def cong: if_cong)

lemma extend_unique_distinct:
  "distinct target \<Longrightarrow> distinct (extend_unique target ys) \<and> set (extend_unique target ys) = set target \<union> set ys"
  unfolding extend_unique_fold by (induction ys arbitrary: target) auto

text \<open>A number that is accepted for a field is the number in the file, whatever the width of the field.\<close>

lemma try_from_i64_exact: "try_from_i64 n = Some (w :: ('n :: len) word) \<longleftrightarrow> sint n = uint w"
proof -
  have exact: "uint (of_int i :: 'n word) = i" if "0 \<le> i" "i < 2 ^ LENGTH('n)" for i
    using that by (simp add: unsigned_of_int take_bit_int_eq_self)
  have "uint w < 2 ^ LENGTH('n)" by (rule uint_lt2p)
  then show ?thesis
    using exact [of "sint n"] by (auto simp: try_from_i64_def simp del: of_int_sint)
qed

text \<open>The deprecated key for the permission mode is looked at first, so that it overrides the current key even of a later file.\<close>

lemma deprecated_mode_comes_first:
  "setting [lit ''permissionMode''] (JObject obj) = Some (JString mode) \<Longrightarrow>
     parse_optional_permission_mode (JObject obj) =
       rbind (parse_permission_mode_label mode (lit ''merged settings.permissionMode'')) (\<lambda>m. Inr (Some m))"
  by (auto simp: parse_optional_permission_mode_def as_object_def as_str_def bind_eq_Some_conv split: if_splits)

section \<open>Samples\<close>

definition sample_settings_loader :: ConfigLoader where
  "sample_settings_loader = \<lparr>cl_cwd = lit ''/w'', cl_config_home = lit ''/h/.claw''\<rparr>"

definition sample_settings_read :: read_fn where
  "sample_settings_read path =
     (if path = lit ''/h/.claw/settings.json''
      then Inr (lit ''{\"model\":\"a\",\"permissionMode\":\"dontAsk\",\"mcpServers\":{\"s\":{\"command\":\"x\",\"args\":[\"1\"]}}}'')
      else if path = lit ''/w/.claw/settings.local.json''
      then Inr (lit ''{\"model\":\"b\",\"permissions\":{\"defaultMode\":\"plan\"},\"mcpServers\":{\"s\":{\"url\":\"u\"}}}'')
      else Inl (NotFound (lit ''No such file'')))"

lemma sample_settings_load:
  obtains out config where "load sample_settings_read sample_settings_loader = (out, Inr config)"
proof -
  have "is_ok (snd (load sample_settings_read sample_settings_loader))" by code_simp
  then show ?thesis
    using that by (cases "load sample_settings_read sample_settings_loader") (auto simp: is_ok_def split: sum.splits)
qed

theorem last_setting_wins_witness:
  "\<exists>out config. load sample_settings_read sample_settings_loader = (out, Inr config)
     \<and> setting [lit ''model''] (RuntimeConfig_as_json config) = Some (JString (lit ''b''))"
proof -
  obtain out config where load: "load sample_settings_read sample_settings_loader = (out, Inr config)"
    by (rule sample_settings_load)
  have "find_map (\<lambda>(_, obj). decides [lit ''model''] (JObject obj))
      (rev (settings_files sample_settings_read (discover sample_settings_loader))) = Some (Some (JString (lit ''b'')))"
    by code_simp
  then have "setting [lit ''model''] (RuntimeConfig_as_json config) = Some (JString (lit ''b''))"
    using last_setting_wins [OF load, of "[lit ''model'']"] by (simp only: option.case)
  with load show ?thesis by blast
qed

theorem merged_settings_are_valid_witness:
  "\<exists>st. load_entries sample_settings_read (discover sample_settings_loader) load_init = Inr st
     \<and> ValidationResult_is_ok (validate_config_file (ls_merged st) [] [])"
proof -
  obtain out config where "load sample_settings_read sample_settings_loader = (out, Inr config)"
    by (rule sample_settings_load)
  then obtain st where "load_entries sample_settings_read (discover sample_settings_loader) load_init = Inr st"
    by (rule load_Inr)
  then show ?thesis
    using merged_settings_are_valid [of sample_settings_read sample_settings_loader st "[]" "[]"] by blast
qed

text \<open>Two files, of which the later one asks for the read-only mode under the current key, give full access because the earlier one
  uses the deprecated key; the server \<^verbatim>\<open>s\<close> is that of the later file although the merged object has the fields of both.\<close>

lemma deprecated_mode_overrides_later_file:
  "case snd (load sample_settings_read sample_settings_loader) of
     Inr config \<Rightarrow> fc_permission_mode (rc_feature_config config) = Some ResDangerFullAccess
   | Inl _ \<Rightarrow> False"
  by code_simp

lemma later_file_replaces_server:
  "case snd (load sample_settings_read sample_settings_loader) of
     Inr config \<Rightarrow> map_option sm_scope (McpConfigCollection_get (fc_mcp (rc_feature_config config)) (lit ''s'')) = Some SrcLocal
   | Inl _ \<Rightarrow> False"
  by code_simp

end
