(* ===== verification/Mcp_Client.thy ===== *)
theory Mcp_Client
  imports Config
begin

text \<open>
  Names, signatures and transports of MCP servers, \<^verbatim>\<open>mcp.rs\<close> and \<^verbatim>\<open>mcp_client.rs\<close>: the names under which the model sees
  the tools of a server, the signature and the hash that tell configurations apart, the URL behind a proxy, and the data a client
  is started from. Signatures of command lines are injective, decoding a percent-encoded text gives it back, and qualified
  tool names are made of the characters a model accepts but are not unique.
\<close>

section \<open>Definitions\<close>

subsection \<open>Names\<close>

definition CLAUDEAI_SERVER_PREFIX :: ustr where
  "CLAUDEAI_SERVER_PREFIX = lit ''claude.ai ''"

definition CCR_PROXY_PATH_MARKERS :: "ustr list" where
  "CCR_PROXY_PATH_MARKERS = [lit ''/v2/session_ingress/shttp/mcp/'', lit ''/v2/ccr-sessions/'']"

fun collapse_loop :: "bool \<Rightarrow> ustr \<Rightarrow> ustr" where
  "collapse_loop last_was_underscore [] = []"
| "collapse_loop last_was_underscore (ch # s) =
     (if ch = 95 then (if \<not> last_was_underscore then [ch] else []) @ collapse_loop True s
      else ch # collapse_loop False s)"

definition collapse_underscores :: "ustr \<Rightarrow> ustr" where
  "collapse_underscores s = collapse_loop False s"

definition mcp_name_char :: "uchar \<Rightarrow> bool" where
  "mcp_name_char ch \<longleftrightarrow> 97 \<le> ch \<and> ch \<le> 122 \<or> 65 \<le> ch \<and> ch \<le> 90 \<or> 48 \<le> ch \<and> ch \<le> 57 \<or> ch = 95 \<or> ch = 45"

definition normalize_name_for_mcp :: "ustr \<Rightarrow> ustr" where
  "normalize_name_for_mcp name =
     (let normalized = map (\<lambda>ch. if mcp_name_char ch then ch else 95) name
      in if starts_with CLAUDEAI_SERVER_PREFIX name
         then trim_matches (\<lambda>ch. ch = 95) (collapse_underscores normalized)
         else normalized)"

definition mcp_tool_prefix :: "ustr \<Rightarrow> ustr" where
  "mcp_tool_prefix server_name = lit ''mcp__'' @ normalize_name_for_mcp server_name @ lit ''__''"

definition mcp_tool_name :: "ustr \<Rightarrow> ustr \<Rightarrow> ustr" where
  "mcp_tool_name server_name tool_name = mcp_tool_prefix server_name @ normalize_name_for_mcp tool_name"

subsection \<open>URLs\<close>

text \<open>\<^verbatim>\<open>u8::from_str_radix(hex, 16)\<close> on two bytes, which accepts a leading plus sign.\<close>

definition hex_byte :: "nat \<Rightarrow> nat \<Rightarrow> nat option" where
  "hex_byte h l =
     (if h = 43 then to_digit16 l
      else case (to_digit16 h, to_digit16 l) of (Some x, Some y) \<Rightarrow> Some (16 * x + y) | _ \<Rightarrow> None)"

text \<open>Decoding goes through the bytes of the text. The slice of two bytes behind a percent sign panics (\<open>None\<close>) if it ends inside a
  character, that is, if the byte behind it continues one.\<close>

fun percent_bytes :: "nat list \<Rightarrow> nat list option" where
  "percent_bytes [] = Some []"
| "percent_bytes (b # bs) =
     (if b = 37 then
        (case bs of
           h # l # rest \<Rightarrow>
             if rest \<noteq> [] \<and> continuation (hd rest) then None
             else (case hex_byte h l of
                     Some byte \<Rightarrow> map_option ((#) byte) (percent_bytes rest)
                   | None \<Rightarrow> map_option ((#) b) (percent_bytes bs))
         | _ \<Rightarrow> map_option ((#) b) (percent_bytes bs))
      else map_option ((#) (if b = 43 then 32 else b)) (percent_bytes bs))"

definition percent_decode :: "ustr \<Rightarrow> ustr option" where
  "percent_decode s = map_option from_utf8_lossy (percent_bytes (concat (map encode_char s)))"

definition unwrap_ccr_proxy_url :: "ustr \<Rightarrow> ustr option" where
  "unwrap_ccr_proxy_url url =
     (if \<not> list_ex (\<lambda>marker. contains marker url) CCR_PROXY_PATH_MARKERS then Some url
      else case split_once [63] url of
        None \<Rightarrow> Some url
      | Some (_, query) \<Rightarrow>
          (case find_map (\<lambda>pair. case split_once [61] pair of
                             Some (key, val) \<Rightarrow> if key = lit ''mcp_url'' then Some val else None
                           | None \<Rightarrow> None) (split_char 38 query) of
             Some val \<Rightarrow> percent_decode val
           | None \<Rightarrow> Some url))"

subsection \<open>Signatures\<close>

definition render_command_signature :: "ustr list \<Rightarrow> ustr" where
  "render_command_signature command =
     lit ''['' @ join [124] (map (\<lambda>part. replace_all [124] [92, 124] (replace_all [92] [92, 92] part)) command) @ lit '']''"

definition render_env_signature :: "(ustr, ustr) btree \<Rightarrow> ustr" where
  "render_env_signature m = join (lit '';'') (map (\<lambda>(key, val). key @ lit ''='' @ val) m)"

definition render_oauth_signature :: "McpOAuthConfig option \<Rightarrow> ustr" where
  "render_oauth_signature oauth =
     (case oauth of
        None \<Rightarrow> []
      | Some oa \<Rightarrow>
          (case mo_client_id oa of Some s \<Rightarrow> s | None \<Rightarrow> []) @ lit ''|''
          @ (case mo_callback_port oa of Some port \<Rightarrow> show_nat (unat port) | None \<Rightarrow> []) @ lit ''|''
          @ (case mo_auth_server_metadata_url oa of Some s \<Rightarrow> s | None \<Rightarrow> []) @ lit ''|''
          @ (case mo_xaa oa of Some flag \<Rightarrow> show_bool flag | None \<Rightarrow> []))"

definition stable_hex_hash :: "ustr \<Rightarrow> ustr" where
  "stable_hex_hash s =
     (let hash = fold (\<lambda>b hash. (hash XOR ucast b) * 0x100000001b3) (encode_utf8 s) (0xcbf29ce484222325 :: u64);
          hex = show_hex (unat hash)
      in replicate (16 - length hex) 48 @ hex)"

definition mcp_server_signature :: "McpServerConfig \<Rightarrow> ustr option option" where
  "mcp_server_signature config =
     (case config of
        McpStdio c \<Rightarrow> Some (Some (lit ''stdio:'' @ render_command_signature (stdio_command c # stdio_args c)))
      | McpSse c \<Rightarrow> map_option (\<lambda>url. Some (lit ''url:'' @ url)) (unwrap_ccr_proxy_url (remote_url c))
      | McpHttp c \<Rightarrow> map_option (\<lambda>url. Some (lit ''url:'' @ url)) (unwrap_ccr_proxy_url (remote_url c))
      | McpWs c \<Rightarrow> map_option (\<lambda>url. Some (lit ''url:'' @ url)) (unwrap_ccr_proxy_url (ws_url c))
      | McpManagedProxy c \<Rightarrow> map_option (\<lambda>url. Some (lit ''url:'' @ url)) (unwrap_ccr_proxy_url (proxy_url c))
      | McpSdk _ \<Rightarrow> Some None)"

definition render_config :: "McpServerConfig \<Rightarrow> ustr" where
  "render_config config =
     (case config of
        McpStdio c \<Rightarrow>
          lit ''stdio|'' @ stdio_command c @ lit ''|'' @ render_command_signature (stdio_args c) @ lit ''|''
          @ render_env_signature (stdio_env c) @ lit ''|''
          @ (case stdio_tool_call_timeout_ms c of Some ms \<Rightarrow> show_nat (unat ms) | None \<Rightarrow> [])
      | McpSse c \<Rightarrow>
          lit ''sse|'' @ remote_url c @ lit ''|'' @ render_env_signature (remote_headers c) @ lit ''|''
          @ (case remote_headers_helper c of Some s \<Rightarrow> s | None \<Rightarrow> []) @ lit ''|'' @ render_oauth_signature (remote_oauth c)
      | McpHttp c \<Rightarrow>
          lit ''http|'' @ remote_url c @ lit ''|'' @ render_env_signature (remote_headers c) @ lit ''|''
          @ (case remote_headers_helper c of Some s \<Rightarrow> s | None \<Rightarrow> []) @ lit ''|'' @ render_oauth_signature (remote_oauth c)
      | McpWs c \<Rightarrow>
          lit ''ws|'' @ ws_url c @ lit ''|'' @ render_env_signature (ws_headers c) @ lit ''|''
          @ (case ws_headers_helper c of Some s \<Rightarrow> s | None \<Rightarrow> [])
      | McpSdk c \<Rightarrow> lit ''sdk|'' @ sdk_name c
      | McpManagedProxy c \<Rightarrow> lit ''claudeai-proxy|'' @ proxy_url c @ lit ''|'' @ proxy_id c)"

definition scoped_mcp_config_hash :: "ScopedMcpServerConfig \<Rightarrow> ustr" where
  "scoped_mcp_config_hash config = stable_hex_hash (render_config (sm_config config))"

subsection \<open>Transports\<close>

definition DEFAULT_MCP_TOOL_CALL_TIMEOUT_MS :: u64 where
  "DEFAULT_MCP_TOOL_CALL_TIMEOUT_MS = 60000"

datatype McpClientAuth = AuthNone | AuthOAuth McpOAuthConfig

definition McpClientAuth_from_oauth :: "McpOAuthConfig option \<Rightarrow> McpClientAuth" where
  "McpClientAuth_from_oauth oauth = (case oauth of None \<Rightarrow> AuthNone | Some config \<Rightarrow> AuthOAuth config)"

fun requires_user_auth :: "McpClientAuth \<Rightarrow> bool" where
  "requires_user_auth (AuthOAuth _) = True"
| "requires_user_auth AuthNone = False"

record McpStdioTransport =
  st_command :: ustr
  st_args :: "ustr list"
  st_env :: "(ustr, ustr) btree"
  st_tool_call_timeout_ms :: "u64 option"

record McpRemoteTransport =
  rt_url :: ustr
  rt_headers :: "(ustr, ustr) btree"
  rt_headers_helper :: "ustr option"
  rt_auth :: McpClientAuth

record McpSdkTransport =
  sdkt_name :: ustr

record McpManagedProxyTransport =
  mpt_url :: ustr
  mpt_id :: ustr

datatype McpClientTransport =
    CtStdio McpStdioTransport
  | CtSse McpRemoteTransport
  | CtHttp McpRemoteTransport
  | CtWebSocket McpRemoteTransport
  | CtSdk McpSdkTransport
  | CtManagedProxy McpManagedProxyTransport

definition McpClientTransport_from_config :: "McpServerConfig \<Rightarrow> McpClientTransport" where
  "McpClientTransport_from_config config =
     (case config of
        McpStdio c \<Rightarrow> CtStdio \<lparr>st_command = stdio_command c, st_args = stdio_args c, st_env = stdio_env c,
                              st_tool_call_timeout_ms = stdio_tool_call_timeout_ms c\<rparr>
      | McpSse c \<Rightarrow> CtSse \<lparr>rt_url = remote_url c, rt_headers = remote_headers c, rt_headers_helper = remote_headers_helper c,
                          rt_auth = McpClientAuth_from_oauth (remote_oauth c)\<rparr>
      | McpHttp c \<Rightarrow> CtHttp \<lparr>rt_url = remote_url c, rt_headers = remote_headers c, rt_headers_helper = remote_headers_helper c,
                            rt_auth = McpClientAuth_from_oauth (remote_oauth c)\<rparr>
      | McpWs c \<Rightarrow> CtWebSocket \<lparr>rt_url = ws_url c, rt_headers = ws_headers c, rt_headers_helper = ws_headers_helper c,
                               rt_auth = AuthNone\<rparr>
      | McpSdk c \<Rightarrow> CtSdk \<lparr>sdkt_name = sdk_name c\<rparr>
      | McpManagedProxy c \<Rightarrow> CtManagedProxy \<lparr>mpt_url = proxy_url c, mpt_id = proxy_id c\<rparr>)"

definition resolved_tool_call_timeout_ms :: "McpStdioTransport \<Rightarrow> u64" where
  "resolved_tool_call_timeout_ms t =
     (case st_tool_call_timeout_ms t of Some ms \<Rightarrow> ms | None \<Rightarrow> DEFAULT_MCP_TOOL_CALL_TIMEOUT_MS)"

record McpClientBootstrap =
  bs_server_name :: ustr
  bs_normalized_name :: ustr
  bs_tool_prefix :: ustr
  bs_signature :: "ustr option"
  bs_transport :: McpClientTransport

definition from_scoped_config :: "ustr \<Rightarrow> ScopedMcpServerConfig \<Rightarrow> McpClientBootstrap option" where
  "from_scoped_config server_name config =
     map_option (\<lambda>signature.
       \<lparr>bs_server_name = server_name, bs_normalized_name = normalize_name_for_mcp server_name,
        bs_tool_prefix = mcp_tool_prefix server_name, bs_signature = signature,
        bs_transport = McpClientTransport_from_config (sm_config config)\<rparr>)
     (mcp_server_signature (sm_config config))"

section \<open>Names\<close>

lemma set_collapse_loop: "set (collapse_loop b s) \<subseteq> set s"
  by (induction b s rule: collapse_loop.induct) auto

lemma set_trim_matches: "set (trim_matches P s) \<subseteq> set s"
  by (auto simp: trim_matches_def dest!: set_dropWhileD)

lemma normalize_name_chars: "ch \<in> set (normalize_name_for_mcp name) \<Longrightarrow> mcp_name_char ch"
proof -
  let ?map = "map (\<lambda>ch. if mcp_name_char ch then ch else 95) name"
  assume "ch \<in> set (normalize_name_for_mcp name)"
  then have "ch \<in> set ?map"
    using set_trim_matches [of _ "collapse_underscores ?map"] set_collapse_loop [of False ?map]
    by (auto simp: normalize_name_for_mcp_def Let_def collapse_underscores_def split: if_splits)
  then show ?thesis by (auto simp: mcp_name_char_def)
qed

text \<open>A normalised name stays as it is: it has only allowed characters, and no space to match the special prefix.\<close>

lemma normalize_name_idempotent: "normalize_name_for_mcp (normalize_name_for_mcp name) = normalize_name_for_mcp name"
proof -
  let ?n = "normalize_name_for_mcp name"
  have "\<not> starts_with CLAUDEAI_SERVER_PREFIX ?n"
    using normalize_name_chars [of 46 name]
    by (auto simp: starts_with_iff CLAUDEAI_SERVER_PREFIX_def lit_Cons mcp_name_char_def)
  moreover have "map (\<lambda>ch. if mcp_name_char ch then ch else 95) ?n = ?n"
    using normalize_name_chars by (intro map_idI) auto
  ultimately show ?thesis
    by (simp add: normalize_name_for_mcp_def [of ?n])
qed

lemma tool_names_are_accepted: "ch \<in> set (mcp_tool_name server tool) \<Longrightarrow> mcp_name_char ch"
  using normalize_name_chars [of ch] by (auto simp: mcp_tool_name_def mcp_tool_prefix_def lit_Cons mcp_name_char_def)

text \<open>The separator of a qualified name may occur in the names of servers and tools, and normalisation identifies names: different tools of
  different servers can have the same qualified name.\<close>

lemma qualified_names_collide:
  "mcp_tool_name (lit ''a'') (lit ''b__c'') = mcp_tool_name (lit ''a__b'') (lit ''c'')"
  "mcp_tool_name (lit ''a b'') t = mcp_tool_name (lit ''a.b'') t"
  by (simp_all add: mcp_tool_name_def mcp_tool_prefix_def normalize_name_for_mcp_def CLAUDEAI_SERVER_PREFIX_def
      mcp_name_char_def starts_with_def lit_Cons)

section \<open>Signatures\<close>

definition escape_part :: "ustr \<Rightarrow> ustr" where
  "escape_part part = concat (map (\<lambda>ch. if ch = 92 \<or> ch = 124 then [92, ch] else [ch]) part)"

lemma replace_all_char: "replace_all [c] t s = concat (map (\<lambda>ch. if ch = c then t else [ch]) s)"
  by (induction "[c]" t s rule: replace_all.induct) (auto simp: starts_with_def)

lemma escape_part_replace: "replace_all [124] [92, 124] (replace_all [92] [92, 92] part) = escape_part part"
  unfolding replace_all_char escape_part_def by (induction part) auto

text \<open>Reading a signature: a backslash protects the character behind it, an unprotected bar ends a part.\<close>

fun split_signature :: "ustr \<Rightarrow> ustr list" where
  "split_signature [] = [[]]"
| "split_signature (c # s) =
     (if c = 124 then [] # split_signature s
      else if c = 92 \<and> s \<noteq> [] then (hd s # hd (split_signature (tl s))) # tl (split_signature (tl s))
      else (c # hd (split_signature s)) # tl (split_signature s))"

lemma split_signature_escape:
  "split_signature (escape_part part @ s) = (part @ hd (split_signature s)) # tl (split_signature s)"
proof (induction part)
  case Nil
  have "split_signature s \<noteq> []" by (cases s) auto
  then show ?case by (simp add: escape_part_def)
next
  case (Cons ch part)
  then show ?case by (auto simp: escape_part_def)
qed

lemma split_signature_join: "command \<noteq> [] \<Longrightarrow> split_signature (join [124] (map escape_part command)) = command"
proof (induction command rule: induct_list012)
  case (2 part)
  then show ?case using split_signature_escape [of part "[]"] by simp
next
  case (3 part next_part rest)
  then show ?case by (simp add: split_signature_escape)
qed simp

text \<open>Two commands have the same signature exactly if they are the same, argument by argument, whatever characters they contain.\<close>

lemma command_signature_inject:
  assumes "xs \<noteq> []" "ys \<noteq> []"
  shows "render_command_signature xs = render_command_signature ys \<longleftrightarrow> xs = ys"
proof
  assume "render_command_signature xs = render_command_signature ys"
  then have "join [124] (map escape_part xs) = join [124] (map escape_part ys)"
    by (simp add: render_command_signature_def escape_part_replace)
  then show "xs = ys"
    using split_signature_join [OF assms(1)] split_signature_join [OF assms(2)] by metis
qed simp

text \<open>The separators of an environment are not escaped: configurations with different environments have the same hash.\<close>

lemma env_signatures_collide:
  "render_env_signature [(lit ''A'', lit ''1;B=2'')] = render_env_signature [(lit ''A'', lit ''1''), (lit ''B'', lit ''2'')]"
  by (simp add: render_env_signature_def lit_Cons)

section \<open>Percent encoding\<close>

text \<open>The usual encoding: letters, digits and four marks stand for themselves, every other byte is written as two digits.\<close>

definition unreserved :: "nat \<Rightarrow> bool" where
  "unreserved b \<longleftrightarrow> 97 \<le> b \<and> b \<le> 122 \<or> 65 \<le> b \<and> b \<le> 90 \<or> 48 \<le> b \<and> b \<le> 57 \<or> b \<in> {45, 46, 95, 126}"

definition percent_encode_byte :: "nat \<Rightarrow> ustr" where
  "percent_encode_byte b = (if unreserved b then [b] else [37, hex_digit (b div 16), hex_digit (b mod 16)])"

definition percent_encode :: "ustr \<Rightarrow> ustr" where
  "percent_encode s = concat (map percent_encode_byte (concat (map encode_char s)))"

lemma hex_digit_ascii: "n < 16 \<Longrightarrow> hex_digit n < 128 \<and> hex_digit n \<noteq> 43"
  by (auto simp: hex_digit_def)

lemma percent_encode_byte_ascii: "b < 256 \<Longrightarrow> c \<in> set (percent_encode_byte b) \<Longrightarrow> c < 128"
  using hex_digit_ascii [of "b div 16"] hex_digit_ascii [of "b mod 16"]
  by (auto simp: percent_encode_byte_def unreserved_def split: if_splits)

declare percent_bytes.simps(2) [simp del]

lemma percent_bytes_plain: "b \<noteq> 37 \<Longrightarrow> b \<noteq> 43 \<Longrightarrow> percent_bytes (b # bs) = map_option ((#) b) (percent_bytes bs)"
  by (simp add: percent_bytes.simps(2))

lemma percent_bytes_escape:
  "hex_byte h l = Some byte \<Longrightarrow> \<not> (rest \<noteq> [] \<and> continuation (hd rest)) \<Longrightarrow>
     percent_bytes (37 # h # l # rest) = map_option ((#) byte) (percent_bytes rest)"
  by (subst percent_bytes.simps(2)) (simp add: if_not_P)

lemma percent_bytes_encode:
  "list_all (\<lambda>b. b < 256) bs \<Longrightarrow> percent_bytes (concat (map percent_encode_byte bs)) = Some bs"
proof (induction bs)
  case (Cons b bs)
  let ?rest = "concat (map percent_encode_byte bs)"
  have ascii: "\<forall>c \<in> set ?rest. c < 128"
    using Cons.prems percent_encode_byte_ascii by (auto simp: list_all_iff)
  then have "\<not> (?rest \<noteq> [] \<and> continuation (hd ?rest))"
    by (cases ?rest) (auto simp: continuation_def)
  moreover have high: "b div 16 < 16"
    using Cons.prems by (auto intro: less_mult_imp_div_less)
  then have "hex_byte (hex_digit (b div 16)) (hex_digit (b mod 16)) = Some b"
    using hex_digit_ascii [OF high] by (simp add: hex_byte_def to_digit16_hex)
  ultimately have "percent_bytes (37 # hex_digit (b div 16) # hex_digit (b mod 16) # ?rest) = map_option ((#) b) (percent_bytes ?rest)"
    by (intro percent_bytes_escape)
  moreover have "unreserved b \<Longrightarrow> percent_bytes (b # ?rest) = map_option ((#) b) (percent_bytes ?rest)"
    by (rule percent_bytes_plain) (auto simp: unreserved_def)
  ultimately show ?case
    using Cons by (simp add: percent_encode_byte_def [of b])
qed simp

lemma encode_char_ascii: "\<forall>c \<in> set s. c < 128 \<Longrightarrow> concat (map encode_char s) = s"
  by (induction s) (auto simp: encode_char_def)

text \<open>Decoding gives back what was encoded, for every text.\<close>

lemma percent_decode_encode:
  assumes "list_all scalar_value s"
  shows "percent_decode (percent_encode s) = Some s"
proof -
  let ?bytes = "concat (map encode_char s)"
  have bytes: "list_all (\<lambda>b. b < 256) ?bytes"
    using assms by (auto simp: list_all_iff dest: encode_char_byte)
  then have "concat (map encode_char (percent_encode s)) = percent_encode s"
    unfolding percent_encode_def by (intro encode_char_ascii) (auto simp: list_all_iff dest: percent_encode_byte_ascii)
  then show ?thesis
    using percent_bytes_encode [OF bytes] from_utf8_lossy_encode [OF assms]
    by (simp add: percent_decode_def percent_encode_def)
qed

text \<open>A percent sign before a character outside ASCII can cut that character in half: the decoder panics on \<^verbatim>\<open>%a\<close> followed by
  a character of two bytes, while a plus sign counts as part of a hexadecimal number.\<close>

lemma percent_decode_panics: "percent_decode [37, 97, 233] = None"
  by code_simp

lemma percent_decode_accepts_sign: "percent_decode (lit ''%+f'') = Some [15]"
  by code_simp

text \<open>A proxied URL is unwrapped to the URL that was encoded into it.\<close>

lemma split_char_none: "c \<notin> set s \<Longrightarrow> split_char c s = [s]"
  by (induction s) auto

lemma percent_encode_plain: "list_all scalar_value s \<Longrightarrow> c \<in> set (percent_encode s) \<Longrightarrow> c \<notin> {38, 61, 63}"
proof -
  assume s: "list_all scalar_value s" and c: "c \<in> set (percent_encode s)"
  then obtain b where b: "b \<in> set (concat (map encode_char s))" "c \<in> set (percent_encode_byte b)"
    by (auto simp: percent_encode_def)
  then have "b < 256" using s by (auto simp: list_all_iff dest: encode_char_byte)
  then have "hex_digit (b div 16) \<notin> {38, 61, 63}" "hex_digit (b mod 16) \<notin> {38, 61, 63}"
    by (auto simp: hex_digit_def)
  then show ?thesis using b(2) by (auto simp: percent_encode_byte_def unreserved_def split: if_splits)
qed

lemma unwrap_wrapped_url:
  assumes "list_all scalar_value url" and "63 \<notin> set base" and "list_ex (\<lambda>marker. contains marker base) CCR_PROXY_PATH_MARKERS"
  shows "unwrap_ccr_proxy_url (base @ lit ''?mcp_url='' @ percent_encode url) = Some url"
proof -
  let ?query = "lit ''mcp_url='' @ percent_encode url"
  have lit: "lit ''?mcp_url='' = 63 # lit ''mcp_url''  @ [61]" "lit ''mcp_url='' = lit ''mcp_url'' @ [61]"
    by (simp_all add: lit_Cons)
  have plain: "38 \<notin> set (percent_encode url)" "61 \<notin> set (percent_encode url)"
    using percent_encode_plain [OF assms(1)] by auto
  have marker: "list_ex (\<lambda>marker. contains marker (base @ lit ''?mcp_url='' @ percent_encode url)) CCR_PROXY_PATH_MARKERS"
    using assms(3) by (auto simp: list_ex_iff contains_iff) (metis append.assoc)+
  have "split_once [63] (base @ lit ''?mcp_url='' @ percent_encode url) = Some (base, ?query)"
    using split_once_char_first [OF assms(2), of ?query] by (simp add: lit)
  moreover have "split_char 38 ?query = [?query]"
    using plain by (intro split_char_none) (auto simp: lit_Cons)
  moreover have "split_once [61] ?query = Some (lit ''mcp_url'', percent_encode url)"
    using split_once_char_first [of 61 "lit ''mcp_url''" "percent_encode url"] by (simp add: lit lit_Cons)
  ultimately show ?thesis
    using marker by (simp add: unwrap_ccr_proxy_url_def percent_decode_encode [OF assms(1)])
qed

end
