(* ===== verification/Mcp_Stdio.thy ===== *)
theory Mcp_Stdio
  imports Mcp_Client Branches
begin

text \<open>
  The connection to an MCP server on its standard streams, the lower half of \<^verbatim>\<open>mcp_stdio.rs\<close>: messages of JSON-RPC, frames with a
  \<^verbatim>\<open>Content-Length\<close> header, and one request with its reply. The operating system is an argument, a record of functions on
  a state of the world: starting a process, writing to it, what is still to be read from it, asking whether it has ended,
  killing it and waiting for it, and which requests run out of time. \<^verbatim>\<open>serde\<close> is an argument as well. Waiting is not
  modelled: what a process will still write is there to be read. Frames are read back exactly, whatever the payload.
\<close>

section \<open>Definitions\<close>

subsection \<open>Messages\<close>

datatype JsonRpcId = IdNumber u64 | IdString ustr | IdNull

record 'a JsonRpcRequest =
  rq_jsonrpc :: ustr
  rq_id :: JsonRpcId
  rq_method :: ustr
  rq_params :: "'a option"

definition JsonRpcRequest_new :: "JsonRpcId \<Rightarrow> ustr \<Rightarrow> 'a option \<Rightarrow> 'a JsonRpcRequest" where
  "JsonRpcRequest_new ident method params =
     \<lparr>rq_jsonrpc = lit ''2.0'', rq_id = ident, rq_method = method, rq_params = params\<rparr>"

record JsonRpcError =
  je_code :: i64
  je_message :: ustr
  je_data :: "Value option"

record 'a JsonRpcResponse =
  rsp_jsonrpc :: ustr
  rsp_id :: JsonRpcId
  rsp_result :: "'a option"
  rsp_error :: "JsonRpcError option"

record McpInitializeClientInfo =
  ci_name :: ustr
  ci_version :: ustr

record McpInitializeParams =
  ip_protocol_version :: ustr
  ip_capabilities :: Value
  ip_client_info :: McpInitializeClientInfo

record McpInitializeServerInfo =
  si_name :: ustr
  si_version :: ustr

record McpInitializeResult =
  ir_protocol_version :: ustr
  ir_capabilities :: Value
  ir_server_info :: McpInitializeServerInfo

record McpListToolsParams =
  lt_cursor :: "ustr option"

record McpTool =
  mt_name :: ustr
  mt_description :: "ustr option"
  mt_input_schema :: "Value option"
  mt_annotations :: "Value option"
  mt_meta :: "Value option"

record McpListToolsResult =
  lt_tools :: "McpTool list"
  lt_next_cursor :: "ustr option"

record McpToolCallParams =
  cp_name :: ustr
  cp_arguments :: "Value option"
  cp_meta :: "Value option"

record McpToolCallContent =
  tc_kind :: ustr
  tc_data :: "(ustr, Value) btree"

record McpToolCallResult =
  cr_content :: "McpToolCallContent list"
  cr_structured_content :: "Value option"
  cr_is_error :: "bool option"
  cr_meta :: "Value option"

record McpListResourcesParams =
  lr_cursor :: "ustr option"

record McpResource =
  mr_uri :: ustr
  mr_name :: "ustr option"
  mr_description :: "ustr option"
  mr_mime_type :: "ustr option"
  mr_annotations :: "Value option"
  mr_meta :: "Value option"

record McpListResourcesResult =
  lr_resources :: "McpResource list"
  lr_next_cursor :: "ustr option"

record McpReadResourceParams =
  rr_uri :: ustr

record McpResourceContents =
  rc_uri :: ustr
  rc_mime_type :: "ustr option"
  rc_text :: "ustr option"
  rc_blob :: "ustr option"
  rc_meta :: "Value option"

record McpReadResourceResult =
  rr_contents :: "McpResourceContents list"

text \<open>The parameters of the requests a client sends; \<open>pkg_version\<close> is the version of the package.\<close>

datatype McpParams =
    ParamsInitialize McpInitializeParams
  | ParamsListTools McpListToolsParams
  | ParamsCallTool McpToolCallParams
  | ParamsListResources McpListResourcesParams
  | ParamsReadResource McpReadResourceParams

definition default_initialize_params :: "ustr \<Rightarrow> McpInitializeParams" where
  "default_initialize_params pkg_version =
     \<lparr>ip_protocol_version = lit ''2025-03-26'', ip_capabilities = Object [],
      ip_client_info = \<lparr>ci_name = lit ''runtime'', ci_version = pkg_version\<rparr>\<rparr>"

subsection \<open>Errors of input and output\<close>

datatype io_kind = KindInvalidData | KindUnexpectedEof | KindInvalidInput | KindOther ustr

fun io_kind_text :: "io_kind \<Rightarrow> ustr" where
  "io_kind_text KindInvalidData = lit ''invalid data''"
| "io_kind_text KindUnexpectedEof = lit ''unexpected end of file''"
| "io_kind_text KindInvalidInput = lit ''invalid input parameter''"
| "io_kind_text (KindOther text) = text"

record io_failure =
  iof_kind :: io_kind
  iof_message :: ustr

abbreviation io_fail :: "io_kind \<Rightarrow> ustr \<Rightarrow> io_failure" where
  "io_fail kind message \<equiv> \<lparr>iof_kind = kind, iof_message = message\<rparr>"

subsection \<open>Frames\<close>

definition encode_frame :: "u8 list \<Rightarrow> u8 list" where
  "encode_frame payload = encode_utf8 (lit ''Content-Length: '' @ show_nat (length payload) @ [13, 10, 13, 10]) @ payload"

text \<open>\<^verbatim>\<open>AsyncBufReadExt::read_line\<close>: the bytes up to and with the next line feed, or the end of the stream.\<close>

definition read_line_bytes :: "u8 list \<Rightarrow> u8 list \<times> u8 list" where
  "read_line_bytes bytes =
     (let n = length (takeWhile (\<lambda>b. b \<noteq> 10) bytes) + 1 in (take n bytes, drop n bytes))"

definition parse_usize :: "ustr \<Rightarrow> ustr + nat" where
  "parse_usize s =
     (if s = [] then Inl (lit ''cannot parse integer from empty string'')
      else let ds = (if hd s = 43 \<and> tl s \<noteq> [] then tl s else s)
           in if \<not> list_all is_ascii_digit ds then Inl (lit ''invalid digit found in string'')
              else if read_digits 0 ds < 2 ^ 64 then Inr (read_digits 0 ds)
              else Inl (lit ''number too large to fit in target type''))"

lemma read_line_bytes_shorter: "bytes \<noteq> [] \<Longrightarrow> length (snd (read_line_bytes bytes)) < length bytes"
  by (cases bytes) (simp_all add: read_line_bytes_def Let_def)

function read_headers :: "nat option \<Rightarrow> u8 list \<Rightarrow> (io_failure + nat option) \<times> u8 list" where
  "read_headers content_length bytes =
     (if bytes = [] then (Inl (io_fail KindUnexpectedEof (lit ''MCP stdio stream closed while reading headers'')), bytes)
      else
        let rest = snd (read_line_bytes bytes)
        in case from_utf8 (fst (read_line_bytes bytes)) of
             None \<Rightarrow> (Inl (io_fail KindInvalidData (lit ''stream did not contain valid UTF-8'')), rest)
           | Some line \<Rightarrow>
               if line = [13, 10] then (Inr content_length, rest)
               else
                 (case split_once [58] (rev (dropWhile (\<lambda>ch. ch = 13 \<or> ch = 10) (rev line))) of
                    Some (name, val) \<Rightarrow>
                      if to_ascii_lowercase (trim name) = lit ''content-length'' then
                        (case parse_usize (trim val) of
                           Inl e \<Rightarrow> (Inl (io_fail KindInvalidData e), rest)
                         | Inr n \<Rightarrow> read_headers (Some n) rest)
                      else read_headers content_length rest
                  | None \<Rightarrow> read_headers content_length rest))"
  by pat_completeness auto
termination
  by (relation "measure (\<lambda>(content_length, bytes). length bytes)") (simp_all add: read_line_bytes_shorter)

declare read_headers.simps [simp del]

text \<open>\<open>None\<close> stands for the panic of allocating a buffer of more than \<^verbatim>\<open>isize::MAX\<close> bytes.\<close>

definition read_frame :: "u8 list \<Rightarrow> ((io_failure + u8 list) \<times> u8 list) option" where
  "read_frame bytes =
     (case read_headers None bytes of
        (Inl e, rest) \<Rightarrow> Some (Inl e, rest)
      | (Inr None, rest) \<Rightarrow> Some (Inl (io_fail KindInvalidData (lit ''missing Content-Length header'')), rest)
      | (Inr (Some n), rest) \<Rightarrow>
          if 2 ^ 63 \<le> n then None
          else if length rest < n then Some (Inl (io_fail KindUnexpectedEof (lit ''early eof'')), [])
          else Some (Inr (take n rest), drop n rest))"

subsection \<open>Processes\<close>

text \<open>The operating system, for processes \<open>'p\<close> and a state of the world \<open>'w\<close>. \<open>mh_unread\<close> is what is still to be read from a process,
  \<open>mh_consume\<close> leaves only the given rest of it; \<open>mh_expire\<close> says that writing these bytes and reading the reply does not end
  within the time, and what the world is then. The last two fields are the derived debug formats.\<close>

record ('p, 'w) mcp_host =
  mh_spawn :: "McpStdioTransport \<Rightarrow> 'w \<Rightarrow> (io_failure + 'p) \<times> 'w"
  mh_write :: "'p \<Rightarrow> u8 list \<Rightarrow> 'w \<Rightarrow> (io_failure + unit) \<times> 'w"
  mh_unread :: "'p \<Rightarrow> 'w \<Rightarrow> u8 list"
  mh_consume :: "'p \<Rightarrow> u8 list \<Rightarrow> 'w \<Rightarrow> 'w"
  mh_expire :: "'p \<Rightarrow> u64 \<Rightarrow> u8 list \<Rightarrow> 'w \<Rightarrow> 'w option"
  mh_try_wait :: "'p \<Rightarrow> 'w \<Rightarrow> (io_failure + bool) \<times> 'w"
  mh_kill :: "'p \<Rightarrow> 'w \<Rightarrow> (io_failure + unit) \<times> 'w"
  mh_wait :: "'p \<Rightarrow> 'w \<Rightarrow> (io_failure + unit) \<times> 'w"
  mh_debug_id :: "JsonRpcId \<Rightarrow> ustr"
  mh_debug_transport :: "McpClientTransport \<Rightarrow> ustr"

text \<open>\<^verbatim>\<open>serde_json::to_vec\<close> on requests and \<^verbatim>\<open>from_slice\<close> on the replies.\<close>

record mcp_serde =
  sd_request :: "McpParams JsonRpcRequest \<Rightarrow> ustr + u8 list"
  sd_initialize :: "u8 list \<Rightarrow> ustr + McpInitializeResult JsonRpcResponse"
  sd_list_tools :: "u8 list \<Rightarrow> ustr + McpListToolsResult JsonRpcResponse"
  sd_call_tool :: "u8 list \<Rightarrow> ustr + McpToolCallResult JsonRpcResponse"
  sd_list_resources :: "u8 list \<Rightarrow> ustr + McpListResourcesResult JsonRpcResponse"
  sd_read_resource :: "u8 list \<Rightarrow> ustr + McpReadResourceResult JsonRpcResponse"
  sd_pkg_version :: ustr

definition read_response ::
  "('p, 'w) mcp_host \<Rightarrow> (u8 list \<Rightarrow> ustr + 'r JsonRpcResponse) \<Rightarrow> 'p \<Rightarrow> 'w \<Rightarrow> ((io_failure + 'r JsonRpcResponse) \<times> 'w) option" where
  "read_response host from_slice p w =
     map_option (\<lambda>(r, rest).
       (rbind r (\<lambda>payload.
          case from_slice payload of Inl e \<Rightarrow> Inl (io_fail KindInvalidData e) | Inr response \<Rightarrow> Inr response),
        mh_consume host p rest w))
     (read_frame (mh_unread host p w))"

definition check_response ::
  "('p, 'w) mcp_host \<Rightarrow> ustr \<Rightarrow> JsonRpcId \<Rightarrow> 'r JsonRpcResponse \<Rightarrow> io_failure + 'r JsonRpcResponse" where
  "check_response host method ident response =
     (if rsp_jsonrpc response \<noteq> lit ''2.0'' then
        Inl (io_fail KindInvalidData
          (lit ''MCP response for '' @ method @ lit '' used unsupported jsonrpc version `'' @ rsp_jsonrpc response @ lit ''`''))
      else if rsp_id response \<noteq> ident then
        Inl (io_fail KindInvalidData
          (lit ''MCP response for '' @ method @ lit '' used mismatched id: expected '' @ mh_debug_id host ident
             @ lit '', got '' @ mh_debug_id host (rsp_id response)))
      else Inr response)"

definition process_request ::
  "('p, 'w) mcp_host \<Rightarrow> mcp_serde \<Rightarrow> (u8 list \<Rightarrow> ustr + 'r JsonRpcResponse) \<Rightarrow> 'p \<Rightarrow> JsonRpcId \<Rightarrow> ustr \<Rightarrow> McpParams \<Rightarrow> 'w
   \<Rightarrow> ((io_failure + 'r JsonRpcResponse) \<times> 'w) option" where
  "process_request host sd from_slice p ident method params w =
     (case sd_request sd (JsonRpcRequest_new ident method (Some params)) of
        Inl e \<Rightarrow> Some (Inl (io_fail KindInvalidData e), w)
      | Inr body \<Rightarrow>
          (case mh_write host p (encode_frame body) w of
             (Inl e, w1) \<Rightarrow> Some (Inl e, w1)
           | (Inr _, w1) \<Rightarrow>
               map_option (\<lambda>(r, w2). (rbind r (check_response host method ident), w2)) (read_response host from_slice p w1)))"

definition process_shutdown :: "('p, 'w) mcp_host \<Rightarrow> 'p \<Rightarrow> 'w \<Rightarrow> (io_failure + unit) \<times> 'w" where
  "process_shutdown host p w =
     (case mh_try_wait host p w of
        (Inl e, w1) \<Rightarrow> (Inl e, w1)
      | (Inr True, w1) \<Rightarrow> mh_wait host p w1
      | (Inr False, w1) \<Rightarrow>
          (case mh_kill host p w1 of
             (Inl e, w2) \<Rightarrow> if iof_kind e = KindInvalidInput then mh_wait host p w2 else (Inl e, w2)
           | (Inr _, w2) \<Rightarrow> mh_wait host p w2))"

definition spawn_mcp_stdio_process :: "('p, 'w) mcp_host \<Rightarrow> McpClientBootstrap \<Rightarrow> 'w \<Rightarrow> (io_failure + 'p) \<times> 'w" where
  "spawn_mcp_stdio_process host bootstrap w =
     (case bs_transport bootstrap of
        CtStdio transport \<Rightarrow> mh_spawn host transport w
      | other \<Rightarrow>
          (Inl (io_fail KindInvalidInput
             (lit ''MCP bootstrap transport for '' @ bs_server_name bootstrap @ lit '' is not stdio: '' @ mh_debug_transport host other)),
           w))"

section \<open>Frames\<close>

lemma encode_utf8_ascii: "\<forall>c \<in> set s. c < 128 \<Longrightarrow> encode_utf8 s = map of_nat s"
  by (simp add: encode_utf8_def encode_char_ascii)

lemma lossy_ascii: "\<forall>c \<in> set s. c < 128 \<Longrightarrow> lossy (map of_nat s) = s"
proof -
  assume ascii: "\<forall>c \<in> set s. c < 128"
  then have "list_all scalar_value s" by (auto simp: list_all_iff scalar_value_def)
  then have "decode (encode_utf8 s) = s" by (rule decode_encode)
  then show ?thesis using ascii by (simp add: decode_def lossy_def encode_utf8_ascii)
qed

lemma from_utf8_ascii: "\<forall>c \<in> set s. c < 128 \<Longrightarrow> from_utf8 (map of_nat s) = Some s"
  by (simp add: from_utf8_def lossy_ascii encode_utf8_ascii)

lemma read_line_bytes_line:
  assumes "\<forall>c \<in> set line. c < 128 \<and> c \<noteq> 10"
  shows "read_line_bytes (map of_nat (line @ [10]) @ rest) = (map of_nat (line @ [10]), rest)"
proof -
  have "(of_nat c :: u8) \<noteq> 10" if "c \<in> set line" for c
    using assms that of_nat_byte(1) [of c] by force
  then have "takeWhile (\<lambda>b. b \<noteq> 10) (map of_nat line @ 10 # rest) = map (of_nat :: nat \<Rightarrow> u8) line"
    by (subst takeWhile_append2) auto
  then show ?thesis by (simp add: read_line_bytes_def Let_def)
qed

lemma parse_usize_show: "n < 2 ^ 64 \<Longrightarrow> parse_usize (show_nat n) = Inr n"
proof -
  assume n: "n < 2 ^ 64"
  have "hd (show_nat n) \<noteq> 43"
    using hd_show_nat [of n] by (auto simp: is_ascii_digit_def)
  then show ?thesis
    using n by (simp add: parse_usize_def Let_def read_digits_show list_all_iff show_nat_digits)
qed

lemma show_nat_ascii: "c \<in> set (show_nat n) \<Longrightarrow> 48 \<le> c \<and> c \<le> 57"
  using show_nat_digits [of c n] by (simp add: is_ascii_digit_def)

lemma trim_show_nat: "trim (32 # show_nat n) = show_nat n"
proof -
  have "trim (show_nat n) = show_nat n"
    using hd_show_nat [of n] show_nat_ascii [OF last_in_set [OF show_nat_not_Nil], of n]
    by (intro trim_id) (auto simp: is_ascii_digit_def is_whitespace_def)
  then show ?thesis by (simp add: trim_def trim_start_def)
qed

lemma read_headers_frame:
  assumes "n < 2 ^ 64"
  shows "read_headers None (encode_utf8 (lit ''Content-Length: '' @ show_nat n @ [13, 10, 13, 10]) @ rest) = (Inr (Some n), rest)"
proof -
  let ?line = "lit ''Content-Length: '' @ show_nat n @ [13]"
  have ascii: "\<forall>c \<in> set (?line @ [10]). c < 128" and no_lf: "\<forall>c \<in> set ?line. c < 128 \<and> c \<noteq> 10"
    using show_nat_ascii [of _ n] by (fastforce simp: lit_Cons)+
  have bytes: "encode_utf8 (lit ''Content-Length: '' @ show_nat n @ [13, 10, 13, 10]) @ rest =
      map of_nat (?line @ [10]) @ map of_nat ([13] @ [10]) @ rest"
    using ascii by (subst encode_utf8_ascii) auto
  have first: "read_line_bytes (map of_nat (?line @ [10]) @ map of_nat ([13] @ [10]) @ rest) =
      (map of_nat (?line @ [10]), map of_nat ([13] @ [10]) @ rest)"
    using no_lf by (rule read_line_bytes_line)
  have second: "read_line_bytes (map of_nat ([13] @ [10]) @ rest) = (map of_nat ([13] @ [10]), rest)"
    by (rule read_line_bytes_line) simp
  let ?header = "lit ''Content-Length: '' @ show_nat n"
  have "last ?header \<noteq> 13 \<and> last ?header \<noteq> 10"
    using show_nat_ascii [OF last_in_set [OF show_nat_not_Nil], of n] by auto
  then have header: "rev (dropWhile (\<lambda>ch. ch = 13 \<or> ch = 10) (rev (?line @ [10]))) = ?header"
    using dropWhile_id [of "rev ?header" "\<lambda>ch. ch = 13 \<or> ch = 10"] by (simp add: hd_rev)
  have field: "split_once [58] ?header = Some (lit ''Content-Length'', 32 # show_nat n)"
    using split_once_char_first [of 58 "lit ''Content-Length''" "32 # show_nat n"] by (simp add: lit_Cons)
  have name: "to_ascii_lowercase (trim (lit ''Content-Length'')) = lit ''content-length''"
    by code_simp
  have line: "?line @ [10] \<noteq> [13, 10]" by (simp add: lit_Cons)
  have nonempty: "map of_nat (?line @ [10]) @ map of_nat ([13] @ [10]) @ rest \<noteq> ([] :: u8 list)" by simp
  have last: "read_headers (Some n) (map of_nat ([13] @ [10]) @ rest) = (Inr (Some n), rest)"
    using second from_utf8_ascii [of "[13, 10]"] by (subst read_headers.simps) simp
  show ?thesis
    unfolding bytes
    by (subst read_headers.simps)
      (simp only: nonempty if_False first fst_conv snd_conv Let_def from_utf8_ascii [OF ascii] option.case line header field
        prod.case name simp_thms if_True parse_usize_show [OF assms] trim_show_nat sum.case last)
qed

lemma read_frame_encode:
  "length payload < 2 ^ 63 \<Longrightarrow> read_frame (encode_frame payload @ rest) = Some (Inr payload, rest)"
  using read_headers_frame [of "length payload" "payload @ rest"] by (simp add: read_frame_def encode_frame_def)

text \<open>Reading frames one after the other.\<close>

fun read_frames :: "nat \<Rightarrow> u8 list \<Rightarrow> (io_failure + u8 list) list \<times> u8 list" where
  "read_frames 0 bytes = ([], bytes)"
| "read_frames (Suc n) bytes =
     (case read_frame bytes of
        None \<Rightarrow> ([], bytes)
      | Some (r, rest) \<Rightarrow> (case read_frames n rest of (rs, rest') \<Rightarrow> (r # rs, rest')))"

text \<open>C28: messages that were written as frames are read back one by one, in order and exactly, whatever bytes they contain and whatever
  follows them.\<close>

theorem frames_roundtrip:
  assumes "\<forall>payload \<in> set payloads. length payload < 2 ^ 63"
  shows "read_frames (length payloads) (concat (map encode_frame payloads) @ rest) = (map Inr payloads, rest)"
  using assms by (induction payloads) (simp_all add: read_frame_encode)

theorem frames_roundtrip_witness:
  "read_frames 2 (encode_frame [13, 10, 13, 10] @ encode_frame [] @ [1]) = ([Inr [13, 10, 13, 10], Inr []], [1])"
proof -
  have "\<forall>payload \<in> set [[13, 10, 13, 10], [] :: u8 list]. length payload < 2 ^ 63" by simp
  from frames_roundtrip [OF this, of "[1]"] show ?thesis
    by (simp only: list.map concat.simps append_assoc append_Nil append_Nil2 list.size) (simp add: numeral_2_eq_2)
qed

text \<open>A header that announces more bytes than a buffer can hold makes the reader panic.\<close>

lemma oversized_frame_panics:
  assumes "2 ^ 63 \<le> n" "n < 2 ^ 64"
  shows "read_frame (encode_utf8 (lit ''Content-Length: '' @ show_nat n @ [13, 10, 13, 10]) @ rest) = None"
  using assms read_headers_frame [of n rest] by (simp add: read_frame_def)

section \<open>Requests\<close>

text \<open>A reply is accepted only if it carries the identifier of the request.\<close>

lemma process_request_Inr:
  assumes "process_request host sd from_slice p ident method params w = Some (Inr response, w')"
  shows "rsp_id response = ident \<and> rsp_jsonrpc response = lit ''2.0''"
  using assms
  by (auto simp: process_request_def check_response_def rbind_eq_Inr split: sum.splits prod.splits if_splits)

end
