(* ===== verification/Mcp_Manager.thy ===== *)
theory Mcp_Manager
  imports Mcp_Stdio Mcp_Lifecycle
begin

text \<open>
  The manager of MCP servers, the upper half of \<^verbatim>\<open>mcp_stdio.rs\<close>: it starts and initialises servers when they are needed,
  discovers their tools page by page, routes a call by its qualified name, and resets a server whose connection failed. An operation is a
  function on the manager and the world; \<open>None\<close> stands for a panic or for a server that never stops sending further pages. Every
  route leads to a configured server that advertised the tool, an initialised server has a process, and the call of a tool is
  written at most once, whatever fails.
\<close>

section \<open>Definitions\<close>

subsection \<open>Data\<close>

definition MCP_INITIALIZE_TIMEOUT_MS :: u64 where
  "MCP_INITIALIZE_TIMEOUT_MS = 10000"

definition MCP_LIST_TOOLS_TIMEOUT_MS :: u64 where
  "MCP_LIST_TOOLS_TIMEOUT_MS = 30000"

record ManagedMcpTool =
  mmt_server_name :: ustr
  mmt_qualified_name :: ustr
  mmt_raw_name :: ustr
  mmt_tool :: McpTool

record UnsupportedMcpServer =
  us_server_name :: ustr
  us_transport :: McpTransport
  us_reason :: ustr

record McpDiscoveryFailure =
  df_server_name :: ustr
  df_phase :: McpLifecyclePhase
  df_error :: ustr
  df_recoverable :: bool
  df_context :: "(ustr, ustr) btree"

record McpToolDiscoveryReport =
  dr_tools :: "ManagedMcpTool list"
  dr_failed_servers :: "McpDiscoveryFailure list"
  dr_unsupported_servers :: "UnsupportedMcpServer list"
  dr_degraded_startup :: "McpDegradedReport option"

datatype McpServerManagerError =
    MgrIo io_failure
  | MgrTransport ustr ustr io_failure
  | MgrJsonRpc ustr ustr JsonRpcError
  | MgrInvalidResponse ustr ustr ustr
  | MgrTimeout ustr ustr u64
  | MgrUnknownTool ustr
  | MgrUnknownServer ustr

fun McpServerManagerError_display :: "McpServerManagerError \<Rightarrow> ustr" where
  "McpServerManagerError_display (MgrIo e) = iof_message e"
| "McpServerManagerError_display (MgrTransport server method source) =
     lit ''MCP server `'' @ server @ lit ''` transport failed during '' @ method @ lit '': '' @ iof_message source"
| "McpServerManagerError_display (MgrJsonRpc server method e) =
     lit ''MCP server `'' @ server @ lit ''` returned JSON-RPC error for '' @ method @ lit '': '' @ je_message e
       @ lit '' ('' @ show_int (sint (je_code e)) @ lit '')''"
| "McpServerManagerError_display (MgrInvalidResponse server method details) =
     lit ''MCP server `'' @ server @ lit ''` returned invalid response for '' @ method @ lit '': '' @ details"
| "McpServerManagerError_display (MgrTimeout server method timeout_ms) =
     lit ''MCP server `'' @ server @ lit ''` timed out after '' @ show_nat (unat timeout_ms) @ lit '' ms while handling '' @ method"
| "McpServerManagerError_display (MgrUnknownTool name) = lit ''unknown MCP tool `'' @ name @ lit ''`''"
| "McpServerManagerError_display (MgrUnknownServer server) = lit ''unknown MCP server `'' @ server @ lit ''`''"

definition lifecycle_phase_for_method :: "ustr \<Rightarrow> McpLifecyclePhase" where
  "lifecycle_phase_for_method method =
     (if method = lit ''initialize'' then InitializeHandshake
      else if method = lit ''tools/list'' then ToolDiscovery
      else if method = lit ''resources/list'' then ResourceDiscovery
      else if method = lit ''resources/read'' \<or> method = lit ''tools/call'' then Invocation
      else ErrorSurfacing)"

fun lifecycle_phase :: "McpServerManagerError \<Rightarrow> McpLifecyclePhase" where
  "lifecycle_phase (MgrIo _) = SpawnConnect"
| "lifecycle_phase (MgrTransport _ method _) = lifecycle_phase_for_method method"
| "lifecycle_phase (MgrJsonRpc _ method _) = lifecycle_phase_for_method method"
| "lifecycle_phase (MgrInvalidResponse _ method _) = lifecycle_phase_for_method method"
| "lifecycle_phase (MgrTimeout _ method _) = lifecycle_phase_for_method method"
| "lifecycle_phase (MgrUnknownTool _) = ToolDiscovery"
| "lifecycle_phase (MgrUnknownServer _) = ServerRegistration"

fun is_retryable_error :: "McpServerManagerError \<Rightarrow> bool" where
  "is_retryable_error (MgrTransport _ _ _) = True"
| "is_retryable_error (MgrTimeout _ _ _) = True"
| "is_retryable_error _ = False"

fun should_reset_server :: "McpServerManagerError \<Rightarrow> bool" where
  "should_reset_server (MgrTransport _ _ _) = True"
| "should_reset_server (MgrTimeout _ _ _) = True"
| "should_reset_server (MgrInvalidResponse _ _ _) = True"
| "should_reset_server _ = False"

definition error_recoverable :: "McpServerManagerError \<Rightarrow> bool" where
  "error_recoverable e \<longleftrightarrow> lifecycle_phase e \<noteq> InitializeHandshake \<and>
     (case e of MgrTransport _ _ _ \<Rightarrow> True | MgrTimeout _ _ _ \<Rightarrow> True | _ \<Rightarrow> False)"

fun error_context :: "McpServerManagerError \<Rightarrow> (ustr, ustr) btree" where
  "error_context (MgrIo e) = btree_of [(lit ''kind'', io_kind_text (iof_kind e))]"
| "error_context (MgrTransport server method source) =
     btree_of [(lit ''server'', server), (lit ''method'', method), (lit ''io_kind'', io_kind_text (iof_kind source))]"
| "error_context (MgrJsonRpc server method e) =
     btree_of [(lit ''server'', server), (lit ''method'', method), (lit ''jsonrpc_code'', show_int (sint (je_code e)))]"
| "error_context (MgrInvalidResponse server method details) =
     btree_of [(lit ''server'', server), (lit ''method'', method), (lit ''details'', details)]"
| "error_context (MgrTimeout server method timeout_ms) =
     btree_of [(lit ''server'', server), (lit ''method'', method), (lit ''timeout_ms'', show_nat (unat timeout_ms))]"
| "error_context (MgrUnknownTool name) = btree_of [(lit ''qualified_tool'', name)]"
| "error_context (MgrUnknownServer server) = btree_of [(lit ''server'', server)]"

definition discovery_failure :: "ustr \<Rightarrow> McpServerManagerError \<Rightarrow> McpDiscoveryFailure" where
  "discovery_failure sname e =
     \<lparr>df_server_name = sname, df_phase = lifecycle_phase e, df_error = McpServerManagerError_display e,
      df_recoverable = error_recoverable e, df_context = error_context e\<rparr>"

fun McpTransport_debug :: "McpTransport \<Rightarrow> ustr" where
  "McpTransport_debug TrStdio = lit ''Stdio''"
| "McpTransport_debug TrSse = lit ''Sse''"
| "McpTransport_debug TrHttp = lit ''Http''"
| "McpTransport_debug TrWs = lit ''Ws''"
| "McpTransport_debug TrSdk = lit ''Sdk''"
| "McpTransport_debug TrManagedProxy = lit ''ManagedProxy''"

definition unsupported_server_failed_server :: "u64 \<Rightarrow> UnsupportedMcpServer \<Rightarrow> McpFailedServer" where
  "unsupported_server_failed_server now server =
     \<lparr>failed_server_name = us_server_name server, failed_phase = ServerRegistration,
      failed_error = McpErrorSurface_new now ServerRegistration (Some (us_server_name server)) (us_reason server)
        (btree_of [(lit ''transport'', McpTransport_debug (us_transport server))]) False\<rparr>"

record ToolRoute =
  tr_server_name :: ustr
  tr_raw_name :: ustr

record 'p ManagedMcpServer =
  ms_bootstrap :: McpClientBootstrap
  ms_process :: "'p option"
  ms_initialized :: bool

definition ManagedMcpServer_new :: "McpClientBootstrap \<Rightarrow> 'p ManagedMcpServer" where
  "ManagedMcpServer_new bootstrap = \<lparr>ms_bootstrap = bootstrap, ms_process = None, ms_initialized = False\<rparr>"

record 'p McpServerManager =
  mm_servers :: "(ustr, 'p ManagedMcpServer) btree"
  mm_unsupported_servers :: "UnsupportedMcpServer list"
  mm_tool_index :: "(ustr, ToolRoute) btree"
  mm_next_request_id :: u64

text \<open>Building a manager; only the data of a server with standard streams is computed, which cannot panic.\<close>

definition add_server :: "ustr \<times> ScopedMcpServerConfig \<Rightarrow> 'p McpServerManager \<Rightarrow> 'p McpServerManager" where
  "add_server = (\<lambda>(sname, server_config) m.
     (if ScopedMcpServerConfig_transport server_config = TrStdio then
        (case from_scoped_config sname server_config of
           Some bootstrap \<Rightarrow> m\<lparr>mm_servers := btree_insert sname (ManagedMcpServer_new bootstrap) (mm_servers m)\<rparr>
         | None \<Rightarrow> m)
      else m\<lparr>mm_unsupported_servers := mm_unsupported_servers m @
             [\<lparr>us_server_name = sname, us_transport = ScopedMcpServerConfig_transport server_config,
               us_reason = lit ''transport '' @ McpTransport_debug (ScopedMcpServerConfig_transport server_config)
                 @ lit '' is not supported by McpServerManager''\<rparr>]\<rparr>))"

definition McpServerManager_from_servers :: "(ustr, ScopedMcpServerConfig) btree \<Rightarrow> 'p McpServerManager" where
  "McpServerManager_from_servers configs =
     fold add_server configs
       \<lparr>mm_servers = [], mm_unsupported_servers = [], mm_tool_index = [], mm_next_request_id = 1\<rparr>"

definition from_runtime_config :: "RuntimeConfig \<Rightarrow> 'p McpServerManager" where
  "from_runtime_config config = McpServerManager_from_servers (mcp_config_servers (fc_mcp (rc_feature_config config)))"

definition server_names :: "'p McpServerManager \<Rightarrow> ustr list" where
  "server_names m = map fst (mm_servers m)"

subsection \<open>Operations\<close>

type_synonym ('p, 'w) mcp_state = "'p McpServerManager \<times> 'w"
type_synonym ('p, 'w, 'a) mcp = "('p, 'w) mcp_state \<Rightarrow> ((McpServerManagerError + 'a) \<times> ('p, 'w) mcp_state) option"

definition mreturn :: "'a \<Rightarrow> ('p, 'w, 'a) mcp" where
  "mreturn x s = Some (Inr x, s)"

definition mthrow :: "McpServerManagerError \<Rightarrow> ('p, 'w, 'a) mcp" where
  "mthrow e s = Some (Inl e, s)"

definition mbind :: "('p, 'w, 'a) mcp \<Rightarrow> ('a \<Rightarrow> ('p, 'w, 'b) mcp) \<Rightarrow> ('p, 'w, 'b) mcp" where
  "mbind m f s =
     (case m s of None \<Rightarrow> None | Some (Inl e, s') \<Rightarrow> Some (Inl e, s') | Some (Inr x, s') \<Rightarrow> f x s')"

text \<open>\<^verbatim>\<open>match\<close> on the result of an operation.\<close>

definition mhandle ::
  "('p, 'w, 'a) mcp \<Rightarrow> (McpServerManagerError \<Rightarrow> ('p, 'w, 'b) mcp) \<Rightarrow> ('a \<Rightarrow> ('p, 'w, 'b) mcp) \<Rightarrow> ('p, 'w, 'b) mcp" where
  "mhandle m g f s = (case m s of None \<Rightarrow> None | Some (Inl e, s') \<Rightarrow> g e s' | Some (Inr x, s') \<Rightarrow> f x s')"

definition clear_routes_for_server :: "ustr \<Rightarrow> ('p, 'w, unit) mcp" where
  "clear_routes_for_server sname = (\<lambda>(m, w).
     mreturn () (m\<lparr>mm_tool_index := filter (\<lambda>(_, route). tr_server_name route \<noteq> sname) (mm_tool_index m)\<rparr>, w))"

definition get_server :: "ustr \<Rightarrow> ('p, 'w, 'p ManagedMcpServer) mcp" where
  "get_server sname = (\<lambda>(m, w).
     (case btree_get (mm_servers m) sname of
        Some server \<Rightarrow> mreturn server (m, w)
      | None \<Rightarrow> mthrow (MgrUnknownServer sname) (m, w)))"

text \<open>Assigning fields through \<^verbatim>\<open>server_mut\<close>.\<close>

definition server_mut :: "ustr \<Rightarrow> ('p ManagedMcpServer \<Rightarrow> 'p ManagedMcpServer) \<Rightarrow> ('p, 'w, unit) mcp" where
  "server_mut sname f = (\<lambda>(m, w).
     (case btree_get (mm_servers m) sname of
        Some server \<Rightarrow> mreturn () (m\<lparr>mm_servers := btree_insert sname (f server) (mm_servers m)\<rparr>, w)
      | None \<Rightarrow> mthrow (MgrUnknownServer sname) (m, w)))"

text \<open>An operation on the world.\<close>

definition mio :: "('w \<Rightarrow> (McpServerManagerError + 'a) \<times> 'w) \<Rightarrow> ('p, 'w, 'a) mcp" where
  "mio f = (\<lambda>(m, w). case f w of (r, w') \<Rightarrow> Some (r, (m, w')))"

definition io_error_into :: "(io_failure + 'a) \<times> 'w \<Rightarrow> (McpServerManagerError + 'a) \<times> 'w" where
  "io_error_into = (\<lambda>(r, w). (case r of Inl e \<Rightarrow> Inl (MgrIo e) | Inr x \<Rightarrow> Inr x, w))"

definition take_request_id :: "('p, 'w, JsonRpcId) mcp" where
  "take_request_id = (\<lambda>(m, w).
     mreturn (IdNumber (mm_next_request_id m))
       (m\<lparr>mm_next_request_id := (if mm_next_request_id m = - 1 then - 1 else mm_next_request_id m + 1)\<rparr>, w))"

definition tool_call_timeout_ms :: "('p, 'w) mcp_host \<Rightarrow> ustr \<Rightarrow> ('p, 'w, u64) mcp" where
  "tool_call_timeout_ms host sname =
     mbind (get_server sname) (\<lambda>server.
       (case bs_transport (ms_bootstrap server) of
          CtStdio transport \<Rightarrow> mreturn (resolved_tool_call_timeout_ms transport)
        | other \<Rightarrow> mthrow (MgrInvalidResponse sname (lit ''tools/call'')
            (lit ''unsupported MCP transport for stdio manager: '' @ mh_debug_transport host other))))"

definition server_process_exited :: "('p, 'w) mcp_host \<Rightarrow> ustr \<Rightarrow> ('p, 'w, bool) mcp" where
  "server_process_exited host sname =
     mbind (get_server sname) (\<lambda>server.
       (case ms_process server of
          Some p \<Rightarrow> mio (\<lambda>w. io_error_into (mh_try_wait host p w))
        | None \<Rightarrow> mreturn False))"

definition reset_server :: "('p, 'w) mcp_host \<Rightarrow> ustr \<Rightarrow> ('p, 'w, unit) mcp" where
  "reset_server host sname =
     mbind (get_server sname) (\<lambda>server.
     mbind (server_mut sname (\<lambda>sv. sv\<lparr>ms_initialized := False, ms_process := None\<rparr>)) (\<lambda>_.
       (case ms_process server of
          Some p \<Rightarrow> mio (\<lambda>w. (Inr (), snd (process_shutdown host p w)))
        | None \<Rightarrow> mreturn ())))"

text \<open>A request with a limit of time. The bytes that are written decide, with the process and the limit, whether it expires.\<close>

definition run_process_request ::
  "('p, 'w) mcp_host \<Rightarrow> mcp_serde \<Rightarrow> (u8 list \<Rightarrow> ustr + 'r JsonRpcResponse) \<Rightarrow> ustr \<Rightarrow> ustr \<Rightarrow> u64 \<Rightarrow> 'p \<Rightarrow> JsonRpcId \<Rightarrow> McpParams
   \<Rightarrow> ('p, 'w, 'r JsonRpcResponse) mcp" where
  "run_process_request host sd from_slice sname method timeout_ms p ident params = (\<lambda>(m, w).
     (case (case sd_request sd (JsonRpcRequest_new ident method (Some params)) of
              Inl _ \<Rightarrow> None
            | Inr body \<Rightarrow> mh_expire host p timeout_ms (encode_frame body) w) of
        Some w' \<Rightarrow> Some (Inl (MgrTimeout sname method timeout_ms), (m, w'))
      | None \<Rightarrow>
          map_option (\<lambda>(r, w').
            (case r of
               Inr response \<Rightarrow> Inr response
             | Inl e \<Rightarrow>
                 if iof_kind e = KindInvalidData then Inl (MgrInvalidResponse sname method (iof_message e))
                 else Inl (MgrTransport sname method e),
             (m, w')))
          (process_request host sd from_slice p ident method params w)))"

text \<open>Taking an identifier, borrowing the process and sending the request.\<close>

definition borrow_process :: "ustr \<Rightarrow> ustr \<Rightarrow> ustr \<Rightarrow> ('p, 'w, JsonRpcId \<times> 'p) mcp" where
  "borrow_process sname method missing =
     mbind take_request_id (\<lambda>ident.
     mbind (get_server sname) (\<lambda>server.
       (case ms_process server of
          None \<Rightarrow> mthrow (MgrInvalidResponse sname method missing)
        | Some p \<Rightarrow> mreturn (ident, p))))"

definition request_on_server ::
  "('p, 'w) mcp_host \<Rightarrow> mcp_serde \<Rightarrow> (u8 list \<Rightarrow> ustr + 'r JsonRpcResponse) \<Rightarrow> ustr \<Rightarrow> ustr \<Rightarrow> ustr \<Rightarrow> u64 \<Rightarrow> McpParams
   \<Rightarrow> ('p, 'w, 'r JsonRpcResponse) mcp" where
  "request_on_server host sd from_slice sname method missing timeout_ms params =
     mbind (borrow_process sname method missing) (\<lambda>(ident, p).
       run_process_request host sd from_slice sname method timeout_ms p ident params)"

definition missing_process :: ustr where
  "missing_process = lit ''server process missing after initialization''"

text \<open>The loop that starts and initialises a server; \<open>retries\<close> is one less the attempts made.\<close>

definition spawn_if_needed :: "('p, 'w) mcp_host \<Rightarrow> ustr \<Rightarrow> ('p, 'w, unit) mcp" where
  "spawn_if_needed host sname =
     mbind (get_server sname) (\<lambda>server.
       if ms_process server = None then
         mbind (mio (\<lambda>w. io_error_into (spawn_mcp_stdio_process host (ms_bootstrap server) w))) (\<lambda>p.
         server_mut sname (\<lambda>sv. sv\<lparr>ms_process := Some p, ms_initialized := False\<rparr>))
       else mreturn ())"

fun ready_loop :: "('p, 'w) mcp_host \<Rightarrow> mcp_serde \<Rightarrow> ustr \<Rightarrow> nat \<Rightarrow> ('p, 'w, unit) mcp" where
  "ready_loop host sd sname retries =
     mbind (spawn_if_needed host sname) (\<lambda>_.
     mbind (get_server sname) (\<lambda>server.
       if ms_initialized server then mreturn ()
       else
         mbind (borrow_process sname (lit ''initialize'') (lit ''server process missing before initialize'')) (\<lambda>(ident, p).
         mhandle
           (run_process_request host sd (sd_initialize sd) sname (lit ''initialize'') MCP_INITIALIZE_TIMEOUT_MS p ident
              (ParamsInitialize (default_initialize_params (sd_pkg_version sd))))
           (\<lambda>e. case retries of
                  Suc r \<Rightarrow>
                    if is_retryable_error e
                    then mbind (reset_server host sname) (\<lambda>_. ready_loop host sd sname r)
                    else if should_reset_server e
                    then mbind (reset_server host sname) (\<lambda>_. mthrow e)
                    else mthrow e
                | 0 \<Rightarrow>
                    if should_reset_server e
                    then mbind (reset_server host sname) (\<lambda>_. mthrow e)
                    else mthrow e)
           (\<lambda>response.
              (case rsp_error response of
                 Some e \<Rightarrow> mthrow (MgrJsonRpc sname (lit ''initialize'') e)
               | None \<Rightarrow>
                   if rsp_result response = None
                   then mbind (reset_server host sname) (\<lambda>_.
                          mthrow (MgrInvalidResponse sname (lit ''initialize'') (lit ''missing result payload'')))
                   else server_mut sname (\<lambda>sv. sv\<lparr>ms_initialized := True\<rparr>))))))"

declare ready_loop.simps [simp del]

definition ensure_server_ready :: "('p, 'w) mcp_host \<Rightarrow> mcp_serde \<Rightarrow> ustr \<Rightarrow> ('p, 'w, unit) mcp" where
  "ensure_server_ready host sd sname =
     mbind (server_process_exited host sname) (\<lambda>exited.
     mbind (if exited then reset_server host sname else mreturn ()) (\<lambda>_.
     ready_loop host sd sname 1))"

text \<open>What a reply to a request contains, or the error it stands for.\<close>

definition response_result :: "ustr \<Rightarrow> ustr \<Rightarrow> 'r JsonRpcResponse \<Rightarrow> ('p, 'w, 'r) mcp" where
  "response_result sname method response =
     (case rsp_error response of
        Some e \<Rightarrow> mthrow (MgrJsonRpc sname method e)
      | None \<Rightarrow>
          (case rsp_result response of
             Some result \<Rightarrow> mreturn result
           | None \<Rightarrow> mthrow (MgrInvalidResponse sname method (lit ''missing result payload''))))"

definition list_tools_page ::
  "('p, 'w) mcp_host \<Rightarrow> mcp_serde \<Rightarrow> ustr \<Rightarrow> ustr option \<Rightarrow> ('p, 'w, McpListToolsResult) mcp" where
  "list_tools_page host sd sname cursor =
     mbind (request_on_server host sd (sd_list_tools sd) sname (lit ''tools/list'') missing_process MCP_LIST_TOOLS_TIMEOUT_MS
              (ParamsListTools \<lparr>lt_cursor = cursor\<rparr>))
       (response_result sname (lit ''tools/list''))"

definition managed_tool :: "ustr \<Rightarrow> McpTool \<Rightarrow> ManagedMcpTool" where
  "managed_tool sname tool =
     \<lparr>mmt_server_name = sname, mmt_qualified_name = mcp_tool_name sname (mt_name tool),
      mmt_raw_name = mt_name tool, mmt_tool = tool\<rparr>"

partial_function (option) tools_loop ::
  "('p, 'w) mcp_host \<Rightarrow> mcp_serde \<Rightarrow> ustr \<Rightarrow> ustr option \<Rightarrow> ManagedMcpTool list \<Rightarrow> ('p, 'w, ManagedMcpTool list) mcp" where
  "tools_loop host sd sname cursor found s =
     (case list_tools_page host sd sname cursor s of
        None \<Rightarrow> None
      | Some (Inl e, s') \<Rightarrow> Some (Inl e, s')
      | Some (Inr page, s') \<Rightarrow>
          (case lt_next_cursor page of
             Some next_cursor \<Rightarrow>
               tools_loop host sd sname (Some next_cursor) (found @ map (managed_tool sname) (lt_tools page)) s'
           | None \<Rightarrow> Some (Inr (found @ map (managed_tool sname) (lt_tools page)), s')))"

declare tools_loop.simps [code]

definition discover_tools_for_server_once ::
  "('p, 'w) mcp_host \<Rightarrow> mcp_serde \<Rightarrow> ustr \<Rightarrow> ('p, 'w, ManagedMcpTool list) mcp" where
  "discover_tools_for_server_once host sd sname =
     mbind (ensure_server_ready host sd sname) (\<lambda>_. tools_loop host sd sname None [])"

text \<open>The loop of two attempts that three operations share.\<close>

definition final_attempt :: "('p, 'w) mcp_host \<Rightarrow> ustr \<Rightarrow> McpServerManagerError \<Rightarrow> ('p, 'w, 'a) mcp" where
  "final_attempt host sname e =
     (if should_reset_server e then mbind (reset_server host sname) (\<lambda>_. mthrow e) else mthrow e)"

definition with_one_retry :: "('p, 'w) mcp_host \<Rightarrow> ustr \<Rightarrow> ('p, 'w, 'a) mcp \<Rightarrow> ('p, 'w, 'a) mcp" where
  "with_one_retry host sname once =
     mhandle once
       (\<lambda>e. if is_retryable_error e
             then mbind (reset_server host sname) (\<lambda>_. mhandle once (final_attempt host sname) mreturn)
             else final_attempt host sname e)
       mreturn"

definition discover_tools_for_server :: "('p, 'w) mcp_host \<Rightarrow> mcp_serde \<Rightarrow> ustr \<Rightarrow> ('p, 'w, ManagedMcpTool list) mcp" where
  "discover_tools_for_server host sd sname =
     with_one_retry host sname (discover_tools_for_server_once host sd sname)"

definition add_routes :: "ManagedMcpTool list \<Rightarrow> ('p, 'w, unit) mcp" where
  "add_routes tools = (\<lambda>(m, w).
     mreturn () (m\<lparr>mm_tool_index :=
       fold (\<lambda>tool. btree_insert (mmt_qualified_name tool)
                       \<lparr>tr_server_name = mmt_server_name tool, tr_raw_name = mmt_raw_name tool\<rparr>) tools (mm_tool_index m)\<rparr>, w))"

fun discover_loop ::
  "('p, 'w) mcp_host \<Rightarrow> mcp_serde \<Rightarrow> ustr list \<Rightarrow> ManagedMcpTool list \<Rightarrow> ('p, 'w, ManagedMcpTool list) mcp" where
  "discover_loop host sd [] found = mreturn found"
| "discover_loop host sd (sname # names) found =
     mbind (discover_tools_for_server host sd sname) (\<lambda>tools.
     mbind (clear_routes_for_server sname) (\<lambda>_.
     mbind (add_routes tools) (\<lambda>_. discover_loop host sd names (found @ tools))))"

definition discover_tools :: "('p, 'w) mcp_host \<Rightarrow> mcp_serde \<Rightarrow> ('p, 'w, ManagedMcpTool list) mcp" where
  "discover_tools host sd = (\<lambda>(m, w). discover_loop host sd (server_names m) [] (m, w))"

fun best_effort_loop ::
  "('p, 'w) mcp_host \<Rightarrow> mcp_serde \<Rightarrow> ustr list \<Rightarrow> ManagedMcpTool list \<times> ustr list \<times> McpDiscoveryFailure list
   \<Rightarrow> ('p, 'w, ManagedMcpTool list \<times> ustr list \<times> McpDiscoveryFailure list) mcp" where
  "best_effort_loop host sd [] acc = mreturn acc"
| "best_effort_loop host sd (sname # names) (found, working, failed) =
     mhandle (discover_tools_for_server host sd sname)
       (\<lambda>e. mbind (clear_routes_for_server sname) (\<lambda>_.
             best_effort_loop host sd names (found, working, failed @ [discovery_failure sname e])))
       (\<lambda>tools. mbind (clear_routes_for_server sname) (\<lambda>_.
                 mbind (add_routes tools) (\<lambda>_.
                 best_effort_loop host sd names (found @ tools, working @ [sname], failed))))"

text \<open>\<open>clock i\<close> is the time at which the \<open>i\<close>-th failed server of the report is described.\<close>

definition degraded_failures :: "(nat \<Rightarrow> u64) \<Rightarrow> McpDiscoveryFailure list \<Rightarrow> UnsupportedMcpServer list \<Rightarrow> McpFailedServer list" where
  "degraded_failures clock failed unsupported =
     map (\<lambda>(i, failure). \<lparr>failed_server_name = df_server_name failure, failed_phase = df_phase failure,
            failed_error = McpErrorSurface_new (clock i) (df_phase failure) (Some (df_server_name failure)) (df_error failure)
              (df_context failure) (df_recoverable failure)\<rparr>) (enumerate 0 failed)
     @ map (\<lambda>(i, server). unsupported_server_failed_server (clock i) server) (enumerate (length failed) unsupported)"

definition discover_tools_best_effort ::
  "('p, 'w) mcp_host \<Rightarrow> mcp_serde \<Rightarrow> (nat \<Rightarrow> u64) \<Rightarrow> ('p, 'w, McpToolDiscoveryReport) mcp" where
  "discover_tools_best_effort host sd clock = (\<lambda>(m, w).
     mbind (best_effort_loop host sd (server_names m) ([], [], [])) (\<lambda>(found, working, failed) (m', w').
       let degraded = degraded_failures clock failed (mm_unsupported_servers m')
       in mreturn
            \<lparr>dr_tools = found, dr_failed_servers = failed, dr_unsupported_servers = mm_unsupported_servers m',
             dr_degraded_startup =
               (if working \<noteq> [] \<and> degraded \<noteq> []
                then Some (McpDegradedReport_new working degraded (map mmt_qualified_name found) [])
                else None)\<rparr> (m', w')) (m, w))"

definition call_routed_tool ::
  "('p, 'w) mcp_host \<Rightarrow> mcp_serde \<Rightarrow> ToolRoute \<Rightarrow> Value option \<Rightarrow> ('p, 'w, McpToolCallResult JsonRpcResponse) mcp" where
  "call_routed_tool host sd route arguments =
     mbind (tool_call_timeout_ms host (tr_server_name route)) (\<lambda>timeout_ms.
     mbind (ensure_server_ready host sd (tr_server_name route)) (\<lambda>_.
     mbind (borrow_process (tr_server_name route) (lit ''tools/call'') missing_process) (\<lambda>(ident, p).
       mhandle
         (run_process_request host sd (sd_call_tool sd) (tr_server_name route) (lit ''tools/call'') timeout_ms p ident
            (ParamsCallTool \<lparr>cp_name = tr_raw_name route, cp_arguments = arguments, cp_meta = None\<rparr>))
         (final_attempt host (tr_server_name route))
         mreturn)))"

definition call_tool ::
  "('p, 'w) mcp_host \<Rightarrow> mcp_serde \<Rightarrow> ustr \<Rightarrow> Value option \<Rightarrow> ('p, 'w, McpToolCallResult JsonRpcResponse) mcp" where
  "call_tool host sd qualified_tool_name arguments = (\<lambda>(m, w).
     (case btree_get (mm_tool_index m) qualified_tool_name of
        None \<Rightarrow> mthrow (MgrUnknownTool qualified_tool_name) (m, w)
      | Some route \<Rightarrow> call_routed_tool host sd route arguments (m, w)))"

definition list_resources_page ::
  "('p, 'w) mcp_host \<Rightarrow> mcp_serde \<Rightarrow> ustr \<Rightarrow> ustr option \<Rightarrow> ('p, 'w, McpListResourcesResult) mcp" where
  "list_resources_page host sd sname cursor =
     mbind (request_on_server host sd (sd_list_resources sd) sname (lit ''resources/list'') missing_process
              MCP_LIST_TOOLS_TIMEOUT_MS (ParamsListResources \<lparr>lr_cursor = cursor\<rparr>))
       (response_result sname (lit ''resources/list''))"

partial_function (option) resources_loop ::
  "('p, 'w) mcp_host \<Rightarrow> mcp_serde \<Rightarrow> ustr \<Rightarrow> ustr option \<Rightarrow> McpResource list \<Rightarrow> ('p, 'w, McpListResourcesResult) mcp" where
  "resources_loop host sd sname cursor found s =
     (case list_resources_page host sd sname cursor s of
        None \<Rightarrow> None
      | Some (Inl e, s') \<Rightarrow> Some (Inl e, s')
      | Some (Inr page, s') \<Rightarrow>
          (case lr_next_cursor page of
             Some next_cursor \<Rightarrow> resources_loop host sd sname (Some next_cursor) (found @ lr_resources page) s'
           | None \<Rightarrow> Some (Inr \<lparr>lr_resources = found @ lr_resources page, lr_next_cursor = None\<rparr>, s')))"

declare resources_loop.simps [code]

definition list_resources_once :: "('p, 'w) mcp_host \<Rightarrow> mcp_serde \<Rightarrow> ustr \<Rightarrow> ('p, 'w, McpListResourcesResult) mcp" where
  "list_resources_once host sd sname =
     mbind (ensure_server_ready host sd sname) (\<lambda>_. resources_loop host sd sname None [])"

definition list_resources :: "('p, 'w) mcp_host \<Rightarrow> mcp_serde \<Rightarrow> ustr \<Rightarrow> ('p, 'w, McpListResourcesResult) mcp" where
  "list_resources host sd sname = with_one_retry host sname (list_resources_once host sd sname)"

definition read_resource_once :: "('p, 'w) mcp_host \<Rightarrow> mcp_serde \<Rightarrow> ustr \<Rightarrow> ustr \<Rightarrow> ('p, 'w, McpReadResourceResult) mcp" where
  "read_resource_once host sd sname uri =
     mbind (ensure_server_ready host sd sname) (\<lambda>_.
     mbind (request_on_server host sd (sd_read_resource sd) sname (lit ''resources/read'') missing_process
              MCP_LIST_TOOLS_TIMEOUT_MS (ParamsReadResource \<lparr>rr_uri = uri\<rparr>))
       (response_result sname (lit ''resources/read'')))"

definition read_resource :: "('p, 'w) mcp_host \<Rightarrow> mcp_serde \<Rightarrow> ustr \<Rightarrow> ustr \<Rightarrow> ('p, 'w, McpReadResourceResult) mcp" where
  "read_resource host sd sname uri = with_one_retry host sname (read_resource_once host sd sname uri)"

fun shutdown_loop :: "('p, 'w) mcp_host \<Rightarrow> ustr list \<Rightarrow> ('p, 'w, unit) mcp" where
  "shutdown_loop host [] = mreturn ()"
| "shutdown_loop host (sname # names) =
     mbind (get_server sname) (\<lambda>server.
     mbind (case ms_process server of
              Some p \<Rightarrow> mio (\<lambda>w. io_error_into (process_shutdown host p w))
            | None \<Rightarrow> mreturn ()) (\<lambda>_.
     mbind (server_mut sname (\<lambda>sv. sv\<lparr>ms_process := None, ms_initialized := False\<rparr>)) (\<lambda>_.
     shutdown_loop host names)))"

definition manager_shutdown :: "('p, 'w) mcp_host \<Rightarrow> ('p, 'w, unit) mcp" where
  "manager_shutdown host = (\<lambda>(m, w). shutdown_loop host (server_names m) (m, w))"

section \<open>Steps\<close>

text \<open>What an operation does is seen through a relation between the states before and after it, reflexive and transitive, that holds for
  each elementary step. The first locale proves once that it holds for starting and resetting a server, the second, for relations that
  also hold for requests to initialise, that it holds for getting a server ready. Three relations are used below: one that keeps an
  invariant, one that says nothing is written and one that says what is written.\<close>

definition steps :: "(('p, 'w) mcp_state \<Rightarrow> ('p, 'w) mcp_state \<Rightarrow> bool) \<Rightarrow> ('p, 'w, 'a) mcp \<Rightarrow> bool" where
  "steps R c \<longleftrightarrow> (\<forall>s r s'. c s = Some (r, s') \<longrightarrow> R s s')"

lemma stepsI: "(\<And>s r s'. c s = Some (r, s') \<Longrightarrow> R s s') \<Longrightarrow> steps R c"
  unfolding steps_def by blast

lemma stepsD: "steps R c \<Longrightarrow> c s = Some (r, s') \<Longrightarrow> R s s'"
  unfolding steps_def by blast

lemma mbind_eq_Some:
  "mbind c f s = Some (r, s') \<longleftrightarrow>
     (\<exists>e. c s = Some (Inl e, s') \<and> r = Inl e) \<or> (\<exists>x mid. c s = Some (Inr x, mid) \<and> f x mid = Some (r, s'))"
  by (auto simp: mbind_def split: option.splits sum.splits)

lemma mhandle_eq_Some:
  "mhandle c g f s = Some (r, s') \<longleftrightarrow>
     (\<exists>e mid. c s = Some (Inl e, mid) \<and> g e mid = Some (r, s')) \<or> (\<exists>x mid. c s = Some (Inr x, mid) \<and> f x mid = Some (r, s'))"
  by (auto simp: mhandle_def split: option.splits sum.splits)

lemma get_server_eq: "get_server n s = Some (r, s') \<longleftrightarrow>
    s' = s \<and> r = (case btree_get (mm_servers (fst s)) n of Some server \<Rightarrow> Inr server | None \<Rightarrow> Inl (MgrUnknownServer n))"
  by (cases s) (auto simp: get_server_def mreturn_def mthrow_def split: option.splits)

lemma run_process_request_manager:
  "run_process_request host sd fs n meth ms p ident params s = Some (r, s') \<Longrightarrow> fst s' = fst s"
  by (cases s) (auto simp: run_process_request_def split: option.splits)

lemma borrow_process_Inr:
  assumes "borrow_process n meth missing s = Some (Inr (ident, p), s')"
  obtains sv where "btree_get (mm_servers (fst s')) n = Some sv" "ms_process sv = Some p"
proof -
  from assms obtain i mid sv t where sv: "get_server n mid = Some (Inr sv, t)"
    and given: "(case ms_process sv of None \<Rightarrow> mthrow (MgrInvalidResponse n meth missing) | Some p' \<Rightarrow> mreturn (i, p')) t = Some (Inr (ident, p), s')"
    unfolding borrow_process_def mbind_eq_Some by blast
  from given have "ms_process sv = Some p" "s' = t"
    by (auto simp: mthrow_def mreturn_def split: option.splits)
  with sv that show thesis by (auto simp: get_server_eq split: option.splits)
qed

locale mcp_base =
  fixes R :: "('p, 'w) mcp_state \<Rightarrow> ('p, 'w) mcp_state \<Rightarrow> bool"
    and host :: "('p, 'w) mcp_host"
  assumes R_refl: "R s s"
    and R_trans: "R s t \<Longrightarrow> R t u \<Longrightarrow> R s u"
    and R_request_id: "R (m, w) (m\<lparr>mm_next_request_id := i\<rparr>, w)"
    and R_detach: "btree_get (mm_servers m) n = Some sv \<Longrightarrow>
      R (m, w) (m\<lparr>mm_servers := btree_insert n (sv\<lparr>ms_initialized := False, ms_process := None\<rparr>) (mm_servers m)\<rparr>, w)"
    and R_attach: "btree_get (mm_servers m) n = Some sv \<Longrightarrow>
      R (m, w) (m\<lparr>mm_servers := btree_insert n (sv\<lparr>ms_process := Some p, ms_initialized := False\<rparr>) (mm_servers m)\<rparr>, w)"
    and R_initialized: "btree_get (mm_servers m) n = Some sv \<Longrightarrow> ms_process sv \<noteq> None \<Longrightarrow>
      R (m, w) (m\<lparr>mm_servers := btree_insert n (sv\<lparr>ms_initialized := True\<rparr>) (mm_servers m)\<rparr>, w)"
    and R_try_wait: "R (m, w) (m, snd (mh_try_wait host p w))"
    and R_kill: "R (m, w) (m, snd (mh_kill host p w))"
    and R_wait: "R (m, w) (m, snd (mh_wait host p w))"
    and R_spawn: "R (m, w) (m, snd (mh_spawn host transport w))"
begin

lemma steps_return: "steps R (mreturn x)"
  by (rule stepsI) (auto simp: mreturn_def R_refl)

lemma steps_throw: "steps R (mthrow e)"
  by (rule stepsI) (auto simp: mthrow_def R_refl)

lemma steps_bind: "steps R c \<Longrightarrow> (\<And>x. steps R (f x)) \<Longrightarrow> steps R (mbind c f)"
  unfolding steps_def mbind_eq_Some using R_trans by blast

lemma steps_handle: "steps R c \<Longrightarrow> (\<And>e. steps R (g e)) \<Longrightarrow> (\<And>x. steps R (f x)) \<Longrightarrow> steps R (mhandle c g f)"
  unfolding steps_def mhandle_eq_Some using R_trans by blast

lemma steps_bind_on:
  "steps R c \<Longrightarrow> (\<And>s x mid r s'. c s = Some (Inr x, mid) \<Longrightarrow> f x mid = Some (r, s') \<Longrightarrow> R mid s') \<Longrightarrow> steps R (mbind c f)"
  unfolding steps_def mbind_eq_Some using R_trans by blast

lemma steps_get_server: "steps R (get_server n)"
  by (rule stepsI) (auto simp: get_server_eq R_refl)

lemma steps_request_id: "steps R take_request_id"
  by (rule stepsI) (auto simp: take_request_id_def mreturn_def R_request_id)

lemma steps_borrow: "steps R (borrow_process n meth missing)"
  unfolding borrow_process_def
  by (intro steps_bind steps_request_id steps_get_server) (auto split: option.split intro: steps_throw steps_return)

lemma steps_io: "(\<And>m w. R (m, w) (m, snd (f w))) \<Longrightarrow> steps R (mio f)"
  unfolding steps_def mio_def by (auto split: prod.splits) (metis snd_conv)

lemma R_shutdown: "R (m, w) (m, snd (process_shutdown host p w))"
proof -
  obtain r w1 where w1: "mh_try_wait host p w = (r, w1)" by fastforce
  obtain k w2 where w2: "mh_kill host p w1 = (k, w2)" by fastforce
  have 1: "R (m, w) (m, w1)" using R_try_wait [of m w p] w1 by simp
  have 2: "R (m, w1) (m, w2)" using R_kill [of m w1 p] w2 by simp
  have "R (m, w) (m, snd (mh_wait host p w1))" "R (m, w) (m, w2)" "R (m, w) (m, snd (mh_wait host p w2))"
    using 1 2 R_wait R_trans by blast+
  with 1 show ?thesis by (auto simp: process_shutdown_def w1 w2 split: sum.split bool.split)
qed

lemma steps_exited: "steps R (server_process_exited host n)"
  unfolding server_process_exited_def
  by (intro steps_bind steps_get_server)
    (auto split: option.split intro!: steps_return steps_io R_try_wait simp: io_error_into_def case_prod_beta)

lemma steps_reset: "steps R (reset_server host n)"
proof (rule stepsI)
  fix s r s'
  assume run: "reset_server host n s = Some (r, s')"
  obtain m w where s: "s = (m, w)" by (cases s)
  show "R s s'"
  proof (cases "btree_get (mm_servers m) n")
    case None
    then show ?thesis using run by (auto simp: reset_server_def mbind_eq_Some get_server_eq s R_refl)
  next
    case (Some sv)
    then have "R s (m\<lparr>mm_servers := btree_insert n (sv\<lparr>ms_initialized := False, ms_process := None\<rparr>) (mm_servers m)\<rparr>, w)"
      by (simp add: s R_detach)
    then show ?thesis
      using run Some R_shutdown
      by (auto simp: reset_server_def mbind_eq_Some get_server_eq s server_mut_def mreturn_def mio_def
          split: option.splits intro: R_trans)
  qed
qed

lemma steps_spawn: "steps R (spawn_if_needed host n)"
proof (rule stepsI)
  fix s r s'
  assume run: "spawn_if_needed host n s = Some (r, s')"
  obtain m w where s: "s = (m, w)" by (cases s)
  show "R s s'"
  proof (cases "btree_get (mm_servers m) n")
    case None
    then show ?thesis using run by (auto simp: spawn_if_needed_def mbind_eq_Some get_server_eq s R_refl)
  next
    case (Some sv)
    obtain x w1 where w1: "spawn_mcp_stdio_process host (ms_bootstrap sv) w = (x, w1)" by fastforce
    then have 1: "R (m, w) (m, w1)"
      using R_spawn R_refl by (auto simp: spawn_mcp_stdio_process_def split: McpClientTransport.splits) (metis snd_conv)
    then show ?thesis
      using run Some R_attach [OF Some] w1
      by (auto simp: spawn_if_needed_def mbind_eq_Some get_server_eq s server_mut_def mreturn_def mio_def io_error_into_def
          R_refl split: option.splits sum.splits if_splits intro: R_trans)
  qed
qed

lemma steps_fail_attempt:
  "steps R (if should_reset_server e then mbind (reset_server host n) (\<lambda>_. mthrow e) else mthrow e)"
  by (simp add: steps_bind steps_reset steps_throw)

lemma steps_final_attempt: "steps R (final_attempt host n e)"
  unfolding final_attempt_def by (rule steps_fail_attempt)

end

locale mcp_steps = mcp_base +
  fixes sd :: mcp_serde
  assumes R_initialize: "steps R (run_process_request host sd (sd_initialize sd) n (lit ''initialize'') ms p ident
      (ParamsInitialize (default_initialize_params (sd_pkg_version sd))))"
begin

text \<open>A reply to the request to initialise leaves the server with its process.\<close>

lemma steps_initialize:
  assumes "\<And>e. steps R (g e)"
    and "\<And>x mid r s' sv. btree_get (mm_servers (fst mid)) n = Some sv \<Longrightarrow> ms_process sv \<noteq> None \<Longrightarrow> f x mid = Some (r, s') \<Longrightarrow> R mid s'"
  shows "steps R (mbind (borrow_process n meth missing) (\<lambda>(ident, p).
    mhandle (run_process_request host sd (sd_initialize sd) n (lit ''initialize'') ms p ident
      (ParamsInitialize (default_initialize_params (sd_pkg_version sd)))) g f))"
proof (rule steps_bind_on [OF steps_borrow], goal_cases)
  case (1 s b mid r s')
  obtain ident p where b: "b = (ident, p)" by (cases b)
  obtain sv where sv: "btree_get (mm_servers (fst mid)) n = Some sv" "ms_process sv = Some p"
    using 1(1) unfolding b by (rule borrow_process_Inr)
  obtain x mid' where request: "run_process_request host sd (sd_initialize sd) n (lit ''initialize'') ms p ident
      (ParamsInitialize (default_initialize_params (sd_pkg_version sd))) mid = Some (x, mid')"
    and rest: "(case x of Inl e \<Rightarrow> g e mid' | Inr y \<Rightarrow> f y mid') = Some (r, s')"
    using 1(2) by (fastforce simp: b mhandle_eq_Some)
  have "R mid' s'"
    using rest sv stepsD [OF assms(1)] assms(2) run_process_request_manager [OF request] by (auto split: sum.splits)
  with stepsD [OF R_initialize request] show ?case by (rule R_trans)
qed

lemma steps_ready_loop: "steps R (ready_loop host sd n retries)"
proof (induction retries rule: less_induct)
  case (less retries)
  have finished: "R mid s'"
    if sv: "btree_get (mm_servers (fst mid)) n = Some sv" "ms_process sv \<noteq> None"
      and finish: "(case rsp_error response of
                 Some e \<Rightarrow> mthrow (MgrJsonRpc n (lit ''initialize'') e)
               | None \<Rightarrow>
                   if rsp_result response = None
                   then mbind (reset_server host n) (\<lambda>_.
                          mthrow (MgrInvalidResponse n (lit ''initialize'') (lit ''missing result payload'')))
                   else server_mut n (\<lambda>sv. sv\<lparr>ms_initialized := True\<rparr>)) mid = Some (r, s')" for response mid r s' sv
  proof -
    have "R mid s'" if "server_mut n (\<lambda>sv. sv\<lparr>ms_initialized := True\<rparr>) mid = Some (r, s')"
      using that sv R_initialized [OF sv] by (cases mid) (auto simp: server_mut_def mreturn_def)
    then show ?thesis
      using finish stepsD [OF steps_throw, of _ mid r s']
        stepsD [OF steps_bind [OF steps_reset steps_throw], of n "\<lambda>_. _" mid r s']
      by (auto split: option.splits if_splits)
  qed
  have retry: "steps R (case retries of
        Suc r \<Rightarrow>
          if is_retryable_error e then mbind (reset_server host n) (\<lambda>_. ready_loop host sd n r)
          else if should_reset_server e then mbind (reset_server host n) (\<lambda>_. mthrow e) else mthrow e
      | 0 \<Rightarrow> if should_reset_server e then mbind (reset_server host n) (\<lambda>_. mthrow e) else mthrow e)" for e
    using less by (auto split: nat.split intro!: steps_bind steps_reset steps_throw)
  show ?case
    by (subst ready_loop.simps)
      (intro steps_bind steps_spawn steps_get_server, simp only: split: if_split,
        intro conjI impI steps_return steps_initialize; (rule retry | erule (2) finished))
qed

lemma steps_ready: "steps R (ensure_server_ready host sd n)"
  unfolding ensure_server_ready_def
  by (intro steps_bind steps_exited steps_ready_loop) (simp add: steps_reset steps_return)

end

section \<open>Consistency of the manager\<close>

definition stdio_config :: "(ustr, ScopedMcpServerConfig) btree \<Rightarrow> ustr \<Rightarrow> bool" where
  "stdio_config configs n \<longleftrightarrow>
     (case btree_get configs n of None \<Rightarrow> False | Some c \<Rightarrow> ScopedMcpServerConfig_transport c = TrStdio)"

definition server_ok :: "'p ManagedMcpServer \<Rightarrow> bool" where
  "server_ok sv \<longleftrightarrow> (ms_initialized sv \<longrightarrow> ms_process sv \<noteq> None) \<and> (\<exists>t. bs_transport (ms_bootstrap sv) = CtStdio t)"

definition route_ok :: "(ustr, ScopedMcpServerConfig) btree \<Rightarrow> ustr \<Rightarrow> ToolRoute \<Rightarrow> bool" where
  "route_ok configs q route \<longleftrightarrow>
     stdio_config configs (tr_server_name route) \<and> q = mcp_tool_name (tr_server_name route) (tr_raw_name route)"

definition manager_ok :: "(ustr, ScopedMcpServerConfig) btree \<Rightarrow> 'p McpServerManager \<Rightarrow> bool" where
  "manager_ok configs m \<longleftrightarrow>
     (\<forall>n. btree_get (mm_servers m) n \<noteq> None \<longleftrightarrow> stdio_config configs n) \<and>
     (\<forall>n sv. btree_get (mm_servers m) n = Some sv \<longrightarrow> server_ok sv) \<and>
     btree_wf (mm_tool_index m) \<and>
     (\<forall>q route. btree_get (mm_tool_index m) q = Some route \<longrightarrow> route_ok configs q route)"

definition keeps :: "(ustr, ScopedMcpServerConfig) btree \<Rightarrow> ('p, 'w) mcp_state \<Rightarrow> ('p, 'w) mcp_state \<Rightarrow> bool" where
  "keeps configs s s' \<longleftrightarrow> (manager_ok configs (fst s) \<longrightarrow> manager_ok configs (fst s'))"

lemma keeps_server:
  assumes "btree_get (mm_servers m) n = Some sv" and "server_ok sv \<Longrightarrow> server_ok sv'"
  shows "keeps configs (m, w) (m\<lparr>mm_servers := btree_insert n sv' (mm_servers m)\<rparr>, w')"
proof (unfold keeps_def, intro impI)
  assume "manager_ok configs (fst (m, w))"
  then show "manager_ok configs (fst (m\<lparr>mm_servers := btree_insert n sv' (mm_servers m)\<rparr>, w'))"
    using assms unfolding manager_ok_def by (auto simp: btree_get_insert_any)
qed

lemma keeps_same: "fst s' = fst s \<Longrightarrow> keeps configs s s'"
  by (simp add: keeps_def)

lemma keeps_request: "steps (keeps configs) (run_process_request host sd fs n meth ms p ident params)"
  by (rule stepsI, rule keeps_same, rule run_process_request_manager)

interpretation keep: mcp_steps "keeps configs" host sd for configs host sd
proof unfold_locales
  show "keeps configs s s" for s
    by (simp add: keeps_same)
  show "keeps configs s t \<Longrightarrow> keeps configs t u \<Longrightarrow> keeps configs s u" for s t u
    by (simp add: keeps_def)
  show "keeps configs (m, w) (m\<lparr>mm_next_request_id := i\<rparr>, w)" for m w i
    by (simp add: keeps_def manager_ok_def)
qed (auto simp: server_ok_def keeps_same intro!: keeps_server keeps_request)

lemma keeps_request_on_server: "steps (keeps configs) (request_on_server host sd fs n meth missing ms params)"
  unfolding request_on_server_def
  by (intro keep.steps_bind keep.steps_borrow) (auto intro: keeps_request)

lemma keeps_result: "steps (keeps configs) (response_result n meth response)"
  unfolding response_result_def by (auto split: option.split intro: keep.steps_throw keep.steps_return)

lemma keeps_tools_page: "steps (keeps configs) (list_tools_page host sd n cursor)"
  unfolding list_tools_page_def by (intro keep.steps_bind keeps_request_on_server keeps_result)

lemma keeps_resources_page: "steps (keeps configs) (list_resources_page host sd n cursor)"
  unfolding list_resources_page_def by (intro keep.steps_bind keeps_request_on_server keeps_result)

lemma keeps_tools_loop:
  assumes "tools_loop host sd n cursor found s = Some y"
  shows "keeps configs s (snd y) \<and> (\<forall>tools. fst y = Inr tools \<longrightarrow> set tools \<subseteq> set found \<union> range (managed_tool n))"
proof (rule tools_loop.raw_induct [where P = "\<lambda>host sd n cursor found s y.
    keeps configs s (snd y) \<and> (\<forall>tools. fst y = Inr tools \<longrightarrow> set tools \<subseteq> set found \<union> range (managed_tool n))", OF _ assms],
    goal_cases step)
  case (step rec host sd n cursor found s y)
  show ?case
  proof (cases "list_tools_page host sd n cursor s")
    case None
    with step(2) show ?thesis by simp
  next
    case (Some a)
    obtain r s' where page: "list_tools_page host sd n cursor s = Some (r, s')" using Some by (cases a) auto
    then have first: "keeps configs s s'" by (rule stepsD [OF keeps_tools_page])
    show ?thesis
    proof (cases r)
      case (Inl e)
      with step(2) page first show ?thesis by auto
    next
      case (Inr result)
      show ?thesis
      proof (cases "lt_next_cursor result")
        case None
        with step(2) page first Inr show ?thesis by auto
      next
        case (Some next_cursor)
        then have "rec host sd n (Some next_cursor) (found @ map (managed_tool n) (lt_tools result)) s' = Some y"
          using step(2) page Inr by simp
        from step(1) [OF this] first show ?thesis
          by (auto intro: keep.R_trans)
      qed
    qed
  qed
qed

lemma keeps_resources_loop:
  assumes "resources_loop host sd n cursor found s = Some y"
  shows "keeps configs s (snd y)"
proof (rule resources_loop.raw_induct [where P = "\<lambda>host sd n cursor found s y. keeps configs s (snd y)", OF _ assms],
    goal_cases step)
  case (step rec host sd n cursor found s y)
  show ?case
  proof (cases "list_resources_page host sd n cursor s")
    case None
    with step(2) show ?thesis by simp
  next
    case (Some a)
    obtain r s' where page: "list_resources_page host sd n cursor s = Some (r, s')" using Some by (cases a) auto
    then have "keeps configs s s'" by (rule stepsD [OF keeps_resources_page])
    then show ?thesis
      using step(2) page by (auto split: sum.splits option.splits dest!: step(1) intro: keep.R_trans)
  qed
qed

lemma keeps_once: "steps (keeps configs) (discover_tools_for_server_once host sd n)"
  unfolding discover_tools_for_server_once_def
  by (intro keep.steps_bind keep.steps_ready stepsI) (use keeps_tools_loop in force)

lemma keeps_with_one_retry: "steps (keeps configs) once \<Longrightarrow> steps (keeps configs) (with_one_retry host n once)"
  unfolding with_one_retry_def
  by (intro keep.steps_handle keep.steps_return)
    (auto intro!: keep.steps_bind keep.steps_reset keep.steps_handle keep.steps_final_attempt keep.steps_return)

lemma with_one_retry_Inr:
  assumes "with_one_retry host n once s = Some (Inr x, s')"
  obtains mid where "once mid = Some (Inr x, s')"
  using assms
  by (auto simp: with_one_retry_def mhandle_eq_Some mbind_eq_Some final_attempt_def mreturn_def mthrow_def split: if_splits)

lemma discovered_tools:
  "discover_tools_for_server host sd n s = Some (Inr tools, s') \<Longrightarrow> set tools \<subseteq> range (managed_tool n)"
  unfolding discover_tools_for_server_def
  by (erule with_one_retry_Inr)
    (auto simp: discover_tools_for_server_once_def mbind_eq_Some dest!: keeps_tools_loop [where configs = "[]"])

subsection \<open>Routes\<close>

lemma keeps_clear: "steps (keeps configs) (clear_routes_for_server n)"
proof (rule stepsI)
  fix s r s'
  assume run: "clear_routes_for_server n s = Some (r, s')"
  obtain m w where s: "s = (m, w)" by (cases s)
  let ?kept = "filter (\<lambda>(_, route). tr_server_name route \<noteq> n) (mm_tool_index m)"
  have s': "s' = (m\<lparr>mm_tool_index := ?kept\<rparr>, w)"
    using run by (simp add: clear_routes_for_server_def mreturn_def s)
  have wf: "btree_wf ?kept" if "btree_wf (mm_tool_index m)"
    using that by (simp add: btree_wf_def sorted_wrt_map sorted_wrt_filter)
  have "btree_get ?kept q = Some route \<Longrightarrow> btree_get (mm_tool_index m) q = Some route" if "btree_wf (mm_tool_index m)" for q route
    using that wf [OF that] by (auto simp: btree_get_set)
  with wf show "keeps configs s s'"
    by (auto simp: keeps_def s s' manager_ok_def)
qed

lemma keeps_add_routes:
  assumes "add_routes tools s = Some (r, s')" and "set tools \<subseteq> range (managed_tool n)" and "stdio_config configs n"
  shows "keeps configs s s'"
proof -
  let ?insert = "\<lambda>tool. btree_insert (mmt_qualified_name tool) \<lparr>tr_server_name = mmt_server_name tool, tr_raw_name = mmt_raw_name tool\<rparr>"
  let ?ok = "\<lambda>index. btree_wf index \<and> (\<forall>q route. btree_get index q = Some route \<longrightarrow> route_ok configs q route)"
  have "?ok index \<Longrightarrow> ?ok (fold ?insert tools index)" for index
    using assms(2,3)
  proof (induction tools arbitrary: index)
    case (Cons tool tools)
    have "?ok (?insert tool index)"
      using Cons.prems by (auto simp: btree_get_insert_any route_ok_def managed_tool_def)
    from Cons.IH [OF this] Cons.prems(2,3) show ?case by simp
  qed simp
  then show ?thesis
    using assms(1) by (cases s) (auto simp: add_routes_def mreturn_def keeps_def manager_ok_def)
qed

lemma keeps_discover_for_server: "steps (keeps configs) (discover_tools_for_server host sd n)"
  unfolding discover_tools_for_server_def by (intro keeps_with_one_retry keeps_once)

text \<open>What follows a discovery that succeeded.\<close>

lemma keeps_new_routes:
  assumes "discover_tools_for_server host sd n s = Some (Inr tools, mid)" and "stdio_config configs n"
    and "mbind (clear_routes_for_server n) (\<lambda>_. mbind (add_routes tools) (\<lambda>_. rest)) mid = Some (r, s')"
    and "steps (keeps configs) rest"
  shows "keeps configs s s'"
proof -
  have "steps (keeps configs) (add_routes tools)"
    by (rule stepsI) (rule keeps_add_routes [OF _ discovered_tools [OF assms(1)] assms(2)])
  then have "steps (keeps configs) (mbind (clear_routes_for_server n) (\<lambda>_. mbind (add_routes tools) (\<lambda>_. rest)))"
    using assms(4) by (intro keep.steps_bind keeps_clear)
  from stepsD [OF this assms(3)] have "keeps configs mid s'" .
  with stepsD [OF keeps_discover_for_server assms(1)] show ?thesis by (rule keep.R_trans)
qed

lemma keeps_discover_loop:
  "\<forall>n \<in> set names. stdio_config configs n \<Longrightarrow> steps (keeps configs) (discover_loop host sd names found)"
proof (induction names arbitrary: found)
  case Nil
  show ?case by (simp add: keep.steps_return)
next
  case (Cons n names)
  show ?case
  proof (rule stepsI)
    fix s r s'
    assume "discover_loop host sd (n # names) found s = Some (r, s')"
    then consider (failed) e where "discover_tools_for_server host sd n s = Some (Inl e, s')"
    | (found) tools mid where "discover_tools_for_server host sd n s = Some (Inr tools, mid)"
        "mbind (clear_routes_for_server n) (\<lambda>_. mbind (add_routes tools) (\<lambda>_.
           discover_loop host sd names (found @ tools))) mid = Some (r, s')"
      by (auto simp: mbind_eq_Some [of "discover_tools_for_server host sd n"])
    then show "keeps configs s s'"
    proof cases
      case failed
      then show ?thesis by (rule stepsD [OF keeps_discover_for_server])
    next
      case found
      with Cons show ?thesis by (intro keeps_new_routes [OF found(1) _ found(2)]) simp_all
    qed
  qed
qed

lemma keeps_best_effort_loop:
  "\<forall>n \<in> set names. stdio_config configs n \<Longrightarrow> steps (keeps configs) (best_effort_loop host sd names acc)"
proof (induction names arbitrary: acc)
  case Nil
  show ?case by (simp add: keep.steps_return)
next
  case (Cons n names)
  obtain found working failed where acc: "acc = (found, working, failed)" by (cases acc)
  show ?case
  proof (rule stepsI)
    fix s r s'
    assume "best_effort_loop host sd (n # names) acc s = Some (r, s')"
    then consider
      (failed) e mid where "discover_tools_for_server host sd n s = Some (Inl e, mid)"
        "mbind (clear_routes_for_server n) (\<lambda>_.
           best_effort_loop host sd names (found, working, failed @ [discovery_failure n e])) mid = Some (r, s')"
    | (found) tools mid where "discover_tools_for_server host sd n s = Some (Inr tools, mid)"
        "mbind (clear_routes_for_server n) (\<lambda>_. mbind (add_routes tools) (\<lambda>_.
           best_effort_loop host sd names (found @ tools, working @ [n], failed))) mid = Some (r, s')"
      by (auto simp: acc mhandle_eq_Some)
    then show "keeps configs s s'"
    proof cases
      case failed
      have "steps (keeps configs) (mbind (clear_routes_for_server n) (\<lambda>_.
          best_effort_loop host sd names (found, working, failed @ [discovery_failure n e])))"
        using Cons by (intro keep.steps_bind keeps_clear) simp
      from stepsD [OF this failed(2)] have "keeps configs mid s'" .
      with stepsD [OF keeps_discover_for_server failed(1)] show ?thesis by (rule keep.R_trans)
    next
      case found
      with Cons show ?thesis by (intro keeps_new_routes [OF found(1) _ found(2)]) simp_all
    qed
  qed
qed

lemma server_names_configured: "manager_ok configs m \<Longrightarrow> n \<in> set (server_names m) \<Longrightarrow> stdio_config configs n"
  unfolding manager_ok_def server_names_def btree_get_def by (metis image_set map_of_eq_None_iff)

lemma keeps_discover: "steps (keeps configs) (discover_tools host sd)"
proof (rule stepsI)
  fix s r s'
  assume run: "discover_tools host sd s = Some (r, s')"
  then have loop: "discover_loop host sd (server_names (fst s)) [] s = Some (r, s')"
    by (cases s) (simp add: discover_tools_def)
  show "keeps configs s s'"
  proof (cases "manager_ok configs (fst s)")
    case True
    then have "\<forall>n \<in> set (server_names (fst s)). stdio_config configs n" by (simp add: server_names_configured)
    from stepsD [OF keeps_discover_loop [OF this] loop] show ?thesis .
  qed (simp add: keeps_def)
qed

lemma keeps_best_effort: "steps (keeps configs) (discover_tools_best_effort host sd clock)"
proof (rule stepsI)
  fix s r s'
  assume run: "discover_tools_best_effort host sd clock s = Some (r, s')"
  then obtain x where loop: "best_effort_loop host sd (server_names (fst s)) ([], [], []) s = Some (x, s')"
    by (cases s) (auto simp: discover_tools_best_effort_def mbind_eq_Some mreturn_def Let_def)
  show "keeps configs s s'"
  proof (cases "manager_ok configs (fst s)")
    case True
    then have "\<forall>n \<in> set (server_names (fst s)). stdio_config configs n" by (simp add: server_names_configured)
    from stepsD [OF keeps_best_effort_loop [OF this] loop] show ?thesis .
  qed (simp add: keeps_def)
qed

lemma keeps_timeout: "steps (keeps configs) (tool_call_timeout_ms host n)"
  unfolding tool_call_timeout_ms_def
  by (intro keep.steps_bind keep.steps_get_server) (auto split: McpClientTransport.split intro: keep.steps_return keep.steps_throw)

lemma keeps_call_routed_tool: "steps (keeps configs) (call_routed_tool host sd route args)"
  unfolding call_routed_tool_def
  by (intro keep.steps_bind keeps_timeout keep.steps_ready keep.steps_borrow)
    (auto intro: keep.steps_handle keeps_request keep.steps_final_attempt keep.steps_return)

lemma keeps_call_tool: "steps (keeps configs) (call_tool host sd q args)"
  unfolding steps_def call_tool_def
  using stepsD [OF keeps_call_routed_tool] keep.R_refl by (auto simp: mthrow_def split: option.splits)

lemma keeps_list_resources: "steps (keeps configs) (list_resources host sd n)"
  unfolding list_resources_def list_resources_once_def
  by (intro keeps_with_one_retry keep.steps_bind keep.steps_ready stepsI) (use keeps_resources_loop in force)

lemma keeps_read_resource: "steps (keeps configs) (read_resource host sd n uri)"
  unfolding read_resource_def read_resource_once_def
  by (intro keeps_with_one_retry keep.steps_bind keep.steps_ready keeps_request_on_server keeps_result)

lemma keeps_server_mut: "(\<And>sv. server_ok sv \<Longrightarrow> server_ok (f sv)) \<Longrightarrow> steps (keeps configs) (server_mut n f)"
  by (rule stepsI) (auto simp: server_mut_def mreturn_def mthrow_def keep.R_refl intro!: keeps_server split: option.splits)

lemma keeps_shutdown_loop: "steps (keeps configs) (shutdown_loop host names)"
proof (induction names)
  case Nil
  show ?case by (simp add: keep.steps_return)
next
  case (Cons n names)
  show ?case
    unfolding shutdown_loop.simps
    by (intro keep.steps_bind keep.steps_get_server keeps_server_mut Cons.IH)
      (auto split: option.split intro!: keep.steps_return keep.steps_io keeps_same simp: server_ok_def)
qed

subsection \<open>Runs\<close>

text \<open>The managers that are reached by any sequence of operations, whatever each of them returns.\<close>

inductive mcp_run :: "('p, 'w) mcp_host \<Rightarrow> mcp_serde \<Rightarrow> ('p, 'w) mcp_state \<Rightarrow> ('p, 'w) mcp_state \<Rightarrow> bool"
  for host :: "('p, 'w) mcp_host" and sd :: mcp_serde where
  run_start: "mcp_run host sd s s"
| run_discover: "mcp_run host sd s t \<Longrightarrow> discover_tools host sd t = Some (r, u) \<Longrightarrow> mcp_run host sd s u"
| run_best_effort: "mcp_run host sd s t \<Longrightarrow> discover_tools_best_effort host sd clock t = Some (r', u) \<Longrightarrow> mcp_run host sd s u"
| run_call: "mcp_run host sd s t \<Longrightarrow> call_tool host sd q args t = Some (r'', u) \<Longrightarrow> mcp_run host sd s u"
| run_list: "mcp_run host sd s t \<Longrightarrow> list_resources host sd n t = Some (r3, u) \<Longrightarrow> mcp_run host sd s u"
| run_read: "mcp_run host sd s t \<Longrightarrow> read_resource host sd n uri t = Some (r4, u) \<Longrightarrow> mcp_run host sd s u"
| run_shutdown: "mcp_run host sd s t \<Longrightarrow> manager_shutdown host t = Some (r5, u) \<Longrightarrow> mcp_run host sd s u"

lemma keeps_run: "mcp_run host sd s t \<Longrightarrow> keeps configs s t"
proof (induction rule: mcp_run.induct)
  case (run_shutdown s t r u)
  then have "shutdown_loop host (server_names (fst t)) t = Some (r, u)"
    by (cases t) (simp add: manager_shutdown_def)
  with run_shutdown.IH show ?case
    by (blast intro: keep.R_trans stepsD [OF keeps_shutdown_loop])
qed (blast intro: keep.R_refl keep.R_trans stepsD [OF keeps_discover] stepsD [OF keeps_best_effort] stepsD [OF keeps_call_tool]
    stepsD [OF keeps_list_resources] stepsD [OF keeps_read_resource])+

lemma add_server_ok:
  assumes "manager_ok pre m" and "btree_get pre n = None"
  shows "manager_ok (pre @ [(n, c)]) (add_server (n, c) m)"
proof -
  have get: "btree_get (pre @ [(n, c)]) k = (if k = n then Some c else btree_get pre k)" for k
    using assms(2) by (auto simp: btree_get_def map_of_append map_add_def split: option.split)
  have stdio: "stdio_config (pre @ [(n, c)]) k = (if k = n then ScopedMcpServerConfig_transport c = TrStdio else stdio_config pre k)"
    for k
    by (simp add: stdio_config_def get)
  have not_pre: "\<not> stdio_config pre n" using assms(2) by (simp add: stdio_config_def)
  have routes: "route_ok pre q route \<Longrightarrow> route_ok (pre @ [(n, c)]) q route" for q route
    using not_pre by (auto simp: route_ok_def stdio)
  show ?thesis
  proof (cases "ScopedMcpServerConfig_transport c = TrStdio")
    case True
    then obtain sc where sc: "sm_config c = McpStdio sc"
      by (cases "sm_config c") (auto simp: ScopedMcpServerConfig_transport_def)
    then show ?thesis
      using True assms(1) routes
      by (auto simp: add_server_def manager_ok_def stdio from_scoped_config_def mcp_server_signature_def btree_get_insert_any
          ManagedMcpServer_new_def server_ok_def McpClientTransport_from_config_def)
  next
    case False
    then show ?thesis
      using assms(1) routes not_pre by (auto simp: add_server_def manager_ok_def stdio)
  qed
qed

lemma from_servers_ok: "distinct (map fst configs) \<Longrightarrow> manager_ok configs (McpServerManager_from_servers configs)"
proof (induction configs rule: rev_induct)
  case Nil
  show ?case by (simp add: McpServerManager_from_servers_def manager_ok_def stdio_config_def)
next
  case (snoc e configs)
  then show ?case
    using add_server_ok [of configs "McpServerManager_from_servers configs" "fst e" "snd e"]
    by (cases e) (auto simp: McpServerManager_from_servers_def btree_get_def map_of_eq_None_iff)
qed

text \<open>C26: however a manager is used and whatever its servers do: every route leads to a server that is configured with standard streams, under the name
  of a tool whose qualified name it is; a server counts as initialised only while it has a process; and the configured servers
  with standard streams are exactly those that can be asked.\<close>

theorem manager_stays_consistent:
  assumes "btree_wf configs" and "mcp_run host sd (McpServerManager_from_servers configs, w) (m, w')"
  shows "(\<forall>q route. btree_get (mm_tool_index m) q = Some route \<longrightarrow>
            stdio_config configs (tr_server_name route) \<and> q = mcp_tool_name (tr_server_name route) (tr_raw_name route))
       \<and> (\<forall>n server. btree_get (mm_servers m) n = Some server \<longrightarrow> ms_initialized server \<longrightarrow> ms_process server \<noteq> None)
       \<and> (\<forall>n. n \<in> set (server_names m) \<longleftrightarrow> stdio_config configs n)"
proof -
  have "distinct (map fst configs)" using assms(1) by (simp add: btree_wf_def strict_sorted_iff)
  then have ok: "manager_ok configs m"
    using keeps_run [OF assms(2), of configs] by (auto simp: keeps_def intro: from_servers_ok)
  have "n \<in> set (server_names m) \<longleftrightarrow> btree_get (mm_servers m) n \<noteq> None" for n
    by (simp add: server_names_def btree_get_def map_of_eq_None_iff)
  with ok show ?thesis
    by (simp add: manager_ok_def route_ok_def server_ok_def)
qed

section \<open>Calls are not repeated\<close>

text \<open>The same host with a record of what was written to which process. A request that runs out of time counts as written.\<close>

definition recording :: "('p, 'w) mcp_host \<Rightarrow> ('p, 'w \<times> ('p \<times> u8 list) list) mcp_host" where
  "recording host =
     (let keep_log = \<lambda>f (w, l). (case f w of (r, w') \<Rightarrow> (r, (w', l)))
      in \<lparr>mh_spawn = \<lambda>t. (\<lambda>(w, l). case mh_spawn host t w of (r, w') \<Rightarrow> (r, (w', l))),
          mh_write = \<lambda>p bytes (w, l). (case mh_write host p bytes w of (r, w') \<Rightarrow> (r, (w', l @ [(p, bytes)]))),
          mh_unread = \<lambda>p (w, l). mh_unread host p w,
          mh_consume = \<lambda>p rest (w, l). (mh_consume host p rest w, l),
          mh_expire = \<lambda>p ms bytes (w, l). map_option (\<lambda>w'. (w', l @ [(p, bytes)])) (mh_expire host p ms bytes w),
          mh_try_wait = \<lambda>p (w, l). (case mh_try_wait host p w of (r, w') \<Rightarrow> (r, (w', l))),
          mh_kill = \<lambda>p. keep_log (mh_kill host p),
          mh_wait = \<lambda>p. keep_log (mh_wait host p),
          mh_debug_id = mh_debug_id host, mh_debug_transport = mh_debug_transport host\<rparr>)"

definition frame_of :: "mcp_serde \<Rightarrow> ustr \<Rightarrow> McpParams \<Rightarrow> u8 list \<Rightarrow> bool" where
  "frame_of sd meth params bytes \<longleftrightarrow>
     (\<exists>ident body. sd_request sd (JsonRpcRequest_new ident meth (Some params)) = Inr body \<and> bytes = encode_frame body)"

text \<open>A request writes at most one frame.\<close>

lemma recording_request:
  assumes "run_process_request (recording host) sd fs n meth ms p ident params (m, (w, l)) = Some (r, (m', (w', l')))"
  shows "\<exists>new. l' = l @ new \<and> length new \<le> 1 \<and> (\<forall>x \<in> set new. fst x = p \<and> frame_of sd meth params (snd x))"
proof (cases "sd_request sd (JsonRpcRequest_new ident meth (Some params))")
  case (Inl e)
  with assms show ?thesis by (auto simp: run_process_request_def process_request_def)
next
  case (Inr body)
  then have frame: "frame_of sd meth params (encode_frame body)" by (auto simp: frame_of_def)
  have "l' = l @ [(p, encode_frame body)]"
    using assms Inr
    by (auto simp: run_process_request_def process_request_def read_response_def recording_def Let_def
        split: option.splits prod.splits sum.splits)
  with frame show ?thesis by auto
qed

text \<open>Resetting a server writes nothing, getting it ready nothing but requests to initialise it.\<close>

definition same_log :: "('p, 'w \<times> ('p \<times> u8 list) list) mcp_state \<Rightarrow> ('p, 'w \<times> ('p \<times> u8 list) list) mcp_state \<Rightarrow> bool" where
  "same_log s s' \<longleftrightarrow> snd (snd s') = snd (snd s)"

definition initialize_frame :: "mcp_serde \<Rightarrow> 'p \<times> u8 list \<Rightarrow> bool" where
  "initialize_frame sd x \<longleftrightarrow>
     frame_of sd (lit ''initialize'') (ParamsInitialize (default_initialize_params (sd_pkg_version sd))) (snd x)"

definition only_initializes ::
  "mcp_serde \<Rightarrow> ('p, 'w \<times> ('p \<times> u8 list) list) mcp_state \<Rightarrow> ('p, 'w \<times> ('p \<times> u8 list) list) mcp_state \<Rightarrow> bool" where
  "only_initializes sd s s' \<longleftrightarrow> (\<exists>new. snd (snd s') = snd (snd s) @ new \<and> list_all (initialize_frame sd) new)"

lemma only_initializes_trans: "only_initializes sd s t \<Longrightarrow> only_initializes sd t u \<Longrightarrow> only_initializes sd s u"
proof -
  assume "only_initializes sd s t" "only_initializes sd t u"
  then obtain new new' where "snd (snd t) = snd (snd s) @ new" "list_all (initialize_frame sd) new"
    "snd (snd u) = snd (snd t) @ new'" "list_all (initialize_frame sd) new'"
    unfolding only_initializes_def by blast
  then show ?thesis
    unfolding only_initializes_def by (intro exI [of _ "new @ new'"]) simp
qed

interpretation quiet: mcp_base same_log "recording host" for host
  by unfold_locales (auto simp: same_log_def recording_def Let_def split: prod.split)

interpretation log: mcp_steps "only_initializes sd" "recording host" sd for host sd
proof unfold_locales
  show "only_initializes sd s t \<Longrightarrow> only_initializes sd t u \<Longrightarrow> only_initializes sd s u" for s t u
    by (rule only_initializes_trans)
  show "steps (only_initializes sd) (run_process_request (recording host) sd (sd_initialize sd) n (lit ''initialize'') ms p ident
      (ParamsInitialize (default_initialize_params (sd_pkg_version sd))))" for n ms p ident
    by (rule stepsI) (auto simp: only_initializes_def initialize_frame_def list_all_iff dest!: recording_request)
qed (auto simp: only_initializes_def recording_def Let_def split: prod.split)

lemma log_timeout: "steps (only_initializes sd) (tool_call_timeout_ms (recording host) n)"
  unfolding tool_call_timeout_ms_def
  by (intro log.steps_bind log.steps_get_server)
    (auto split: McpClientTransport.split intro: log.steps_return log.steps_throw)

text \<open>The part of a call behind getting the server ready writes at most the call.\<close>

definition sends_one ::
  "mcp_serde \<Rightarrow> ustr \<Rightarrow> McpParams \<Rightarrow> ('p, 'w \<times> ('p \<times> u8 list) list) mcp_state \<Rightarrow> ('p, 'w \<times> ('p \<times> u8 list) list) mcp_state \<Rightarrow> bool" where
  "sends_one sd meth params s s' \<longleftrightarrow>
     (\<exists>new. snd (snd s') = snd (snd s) @ new \<and> length new \<le> 1 \<and> list_all (\<lambda>x. frame_of sd meth params (snd x)) new)"

lemma routed_request_log:
  assumes run: "mhandle (run_process_request (recording host) sd fs n meth ms p ident params) (final_attempt (recording host) n) mreturn s
    = Some (r, s')"
  shows "sends_one sd meth params s s'"
proof -
  obtain x mid where first: "run_process_request (recording host) sd fs n meth ms p ident params s = Some (x, mid)" and "same_log mid s'"
  proof -
    from run consider
      (failed) e mid where "run_process_request (recording host) sd fs n meth ms p ident params s = Some (Inl e, mid)"
        "final_attempt (recording host) n e mid = Some (r, s')"
    | (answered) x mid where "run_process_request (recording host) sd fs n meth ms p ident params s = Some (Inr x, mid)"
        "mreturn x mid = Some (r, s')"
      by (auto simp: mhandle_eq_Some)
    then show thesis
    proof cases
      case failed
      then show ?thesis using that stepsD [OF quiet.steps_final_attempt failed(2)] by blast
    next
      case answered
      then show ?thesis using that stepsD [OF quiet.steps_return answered(2)] by blast
    qed
  qed
  moreover have "\<exists>new. snd (snd mid) = snd (snd s) @ new \<and> length new \<le> 1 \<and>
      (\<forall>x \<in> set new. fst x = p \<and> frame_of sd meth params (snd x))"
    using recording_request [of host sd fs n meth ms p ident params "fst s" "fst (snd s)" "snd (snd s)" x "fst mid" "fst (snd mid)" "snd (snd mid)"]
      first by simp
  ultimately show ?thesis
    by (auto simp: sends_one_def same_log_def list_all_iff)
qed

lemma steps_prefix:
  assumes "steps (only_initializes sd) c" and "\<And>x. steps (only_initializes sd OO sends_one sd meth params) (f x)"
  shows "steps (only_initializes sd OO sends_one sd meth params) (mbind c f)"
proof (rule stepsI)
  fix s r s'
  assume "mbind c f s = Some (r, s')"
  then consider "only_initializes sd s s'" | x mid where "only_initializes sd s mid" "f x mid = Some (r, s')"
    using stepsD [OF assms(1)] unfolding mbind_eq_Some by blast
  then show "(only_initializes sd OO sends_one sd meth params) s s'"
  proof cases
    case 1
    moreover have "sends_one sd meth params s' s'" by (simp add: sends_one_def)
    ultimately show ?thesis by blast
  next
    case 2
    then show ?thesis using stepsD [OF assms(2) 2(2)] log.R_trans by blast
  qed
qed

lemma call_routed_tool_log:
  "steps (only_initializes sd OO
     sends_one sd (lit ''tools/call'') (ParamsCallTool \<lparr>cp_name = tr_raw_name route, cp_arguments = args, cp_meta = None\<rparr>))
   (call_routed_tool (recording host) sd route args)"
  unfolding call_routed_tool_def
proof (intro steps_prefix log_timeout log.steps_ready log.steps_borrow, goal_cases)
  case (1 timeout_ms _ b)
  show ?case
    by (cases b) (auto intro!: stepsI relcomppI log.R_refl dest: routed_request_log)
qed

text \<open>C27: the call of a tool is written at most once, under the name by which the routed server advertised the tool; apart from it only
  requests to initialise a server are written, and all of those before it. In particular a call that failed or ran out of time is not repeated.\<close>

theorem tool_call_is_sent_once:
  assumes "call_tool (recording host) sd q args (m, (w, log)) = Some (r, (m', (w', log')))"
  shows "\<exists>inits calls. log' = log @ inits @ calls \<and> list_all (initialize_frame sd) inits \<and> length calls \<le> 1
       \<and> list_all (\<lambda>call. \<exists>route. btree_get (mm_tool_index m) q = Some route
            \<and> frame_of sd (lit ''tools/call'')
                 (ParamsCallTool \<lparr>cp_name = tr_raw_name route, cp_arguments = args, cp_meta = None\<rparr>) (snd call)) calls"
proof (cases "btree_get (mm_tool_index m) q")
  case None
  with assms show ?thesis by (simp add: call_tool_def mthrow_def)
next
  case (Some route)
  then have "call_routed_tool (recording host) sd route args (m, (w, log)) = Some (r, (m', (w', log')))"
    using assms by (simp add: call_tool_def)
  from stepsD [OF call_routed_tool_log this] obtain inits calls where
    "log' = log @ inits @ calls" "list_all (initialize_frame sd) inits" "length calls \<le> 1"
    "list_all (\<lambda>x. frame_of sd (lit ''tools/call'')
       (ParamsCallTool \<lparr>cp_name = tr_raw_name route, cp_arguments = args, cp_meta = None\<rparr>) (snd x)) calls"
    by (auto simp: only_initializes_def sends_one_def)
  with Some show ?thesis by (intro exI [of _ inits] exI [of _ calls]) simp
qed

section \<open>Samples\<close>

text \<open>A server that sends every frame back, and messages whose encoding is only their identifier: the reply to a request is then one
  with the same identifier. Every server advertises one tool.\<close>

definition echo_host :: "(unit, u8 list) mcp_host" where
  "echo_host =
     \<lparr>mh_spawn = \<lambda>_ w. (Inr (), w), mh_write = \<lambda>_ bytes w. (Inr (), bytes), mh_unread = \<lambda>_ w. w, mh_consume = \<lambda>_ rest w. rest,
      mh_expire = \<lambda>_ _ _ w. None, mh_try_wait = \<lambda>_ w. (Inr False, w), mh_kill = \<lambda>_ w. (Inr (), w), mh_wait = \<lambda>_ w. (Inr (), w),
      mh_debug_id = \<lambda>_. [], mh_debug_transport = \<lambda>_. []\<rparr>"

definition echo_reply :: "'r \<Rightarrow> u8 list \<Rightarrow> ustr + 'r JsonRpcResponse" where
  "echo_reply result bytes =
     Inr \<lparr>rsp_jsonrpc = lit ''2.0'', rsp_id = IdNumber (ucast (hd bytes)), rsp_result = Some result, rsp_error = None\<rparr>"

definition echo_serde :: mcp_serde where
  "echo_serde =
     \<lparr>sd_request = \<lambda>rq. Inr (case rq_id rq of IdNumber n \<Rightarrow> [ucast n] | _ \<Rightarrow> []),
      sd_initialize = echo_reply \<lparr>ir_protocol_version = [], ir_capabilities = Null, ir_server_info = \<lparr>si_name = [], si_version = []\<rparr>\<rparr>,
      sd_list_tools = echo_reply
        \<lparr>lt_tools = [\<lparr>mt_name = lit ''t'', mt_description = None, mt_input_schema = None, mt_annotations = None, mt_meta = None\<rparr>],
         lt_next_cursor = None\<rparr>,
      sd_call_tool = echo_reply \<lparr>cr_content = [], cr_structured_content = None, cr_is_error = None, cr_meta = None\<rparr>,
      sd_list_resources = echo_reply \<lparr>lr_resources = [], lr_next_cursor = None\<rparr>,
      sd_read_resource = echo_reply \<lparr>rr_contents = []\<rparr>,
      sd_pkg_version = []\<rparr>"

definition sample_servers :: "(ustr, ScopedMcpServerConfig) btree" where
  "sample_servers =
     [(lit ''s'', \<lparr>sm_scope = SrcUser, sm_config = McpStdio
         \<lparr>stdio_command = lit ''x'', stdio_args = [], stdio_env = [], stdio_tool_call_timeout_ms = None\<rparr>\<rparr>)]"

definition sample_discovered :: "(unit, u8 list) mcp_state" where
  "sample_discovered = snd (the (discover_tools echo_host echo_serde (McpServerManager_from_servers sample_servers, [])))"

lemma sample_discovery:
  "discover_tools echo_host echo_serde (McpServerManager_from_servers sample_servers, []) =
     Some (Inr [managed_tool (lit ''s'')
       \<lparr>mt_name = lit ''t'', mt_description = None, mt_input_schema = None, mt_annotations = None, mt_meta = None\<rparr>], sample_discovered)"
  by code_simp

lemma sample_route:
  "btree_get (mm_tool_index (fst sample_discovered)) (lit ''mcp__s__t'') = Some \<lparr>tr_server_name = lit ''s'', tr_raw_name = lit ''t''\<rparr>"
  by code_simp

theorem manager_stays_consistent_witness:
  "btree_get (mm_tool_index (fst sample_discovered)) (lit ''mcp__s__t'') \<noteq> None \<and> stdio_config sample_servers (lit ''s'')
     \<and> set (server_names (fst sample_discovered)) = {lit ''s''}"
proof -
  have wf: "btree_wf sample_servers" by (simp add: sample_servers_def btree_wf_def)
  have "mcp_run echo_host echo_serde (McpServerManager_from_servers sample_servers, []) (fst sample_discovered, snd sample_discovered)"
    using run_discover [OF run_start sample_discovery] by simp
  note consistent = manager_stays_consistent [OF wf this]
  have "n \<in> set (server_names (fst sample_discovered)) \<longleftrightarrow> n = lit ''s''" for n
    using consistent by (auto simp: stdio_config_def sample_servers_def btree_get_def ScopedMcpServerConfig_transport_def)
  with consistent sample_route show ?thesis by fastforce
qed

text \<open>The call of the discovered tool writes one frame.\<close>

definition sample_call ::
  "((McpServerManagerError + McpToolCallResult JsonRpcResponse) \<times> (unit, u8 list \<times> (unit \<times> u8 list) list) mcp_state) option" where
  "sample_call = call_tool (recording echo_host) echo_serde (lit ''mcp__s__t'') None (fst sample_discovered, (snd sample_discovered, []))"

lemma sample_call_written:
  "map_option (\<lambda>(r, (m, (w, l))). (isl r, l)) sample_call = Some (False, [((), encode_frame [3])])"
  by code_simp

theorem tool_call_is_sent_once_witness:
  "\<exists>r m' w'. call_tool (recording echo_host) echo_serde (lit ''mcp__s__t'') None (fst sample_discovered, (snd sample_discovered, [])) =
       Some (r, (m', (w', [((), encode_frame [3])])))
     \<and> (\<exists>inits calls. [((), encode_frame [3])] = inits @ calls \<and> list_all (initialize_frame echo_serde) inits \<and> length calls \<le> 1)"
proof -
  obtain r m' w' where run: "call_tool (recording echo_host) echo_serde (lit ''mcp__s__t'') None
      (fst sample_discovered, (snd sample_discovered, [])) = Some (r, (m', (w', [((), encode_frame [3])])))"
    using sample_call_written by (auto simp: sample_call_def)
  from tool_call_is_sent_once [OF run] show ?thesis
    unfolding run by auto
qed

section \<open>Shutting down\<close>

text \<open>The first server that cannot be stopped ends the loop: the servers after it keep their processes, and it keeps its own.\<close>

lemma shutdown_stops_at_first_failure:
  assumes "btree_get (mm_servers m) n = Some server" "ms_process server = Some p" "process_shutdown host p w = (Inl e, w')"
  shows "shutdown_loop host (n # names) (m, w) = Some (Inl (MgrIo e), (m, w'))"
  using assms
  by (simp add: mbind_def get_server_def mreturn_def mio_def io_error_into_def)

end
