(* ===== verification/Spec2Isabelle.thy ===== *)
theory Spec2Isabelle
  imports Conversation Approval_Tokens Green_Contract Policy_Engine Recovery Permission_Enforcer
    Task_Registry Team_Cron_Registry Worker_Boot Trust_Resolver Mcp_Lifecycle Provider_Client
    Summary_Compression Branches Lane_Events Config Mcp_Manager
begin

text \<open>
  A verification of the agent runtime of db-clinic (\<^verbatim>\<open>rust/crates/runtime\<close>), of its model clients
  (\<^verbatim>\<open>rust/crates/api\<close>) and of the code that joins the two (\<^verbatim>\<open>rust/crates/tools\<close>).

  \<^bold>\<open>The program.\<close> A \<^verbatim>\<open>ConversationRuntime\<close> owns a \<^verbatim>\<open>Session\<close> (the transcript), asks a model client for
  replies, runs the tools a reply asks for, and appends everything to the session, which is
  persisted as JSON lines. Before a tool runs, its pre-use hooks run and may rewrite the input,
  refuse, or override the permission decision; then the permission policy decides, asking the user
  if need be; afterwards the post-use hooks run. When the recorded token usage passes a threshold,
  older messages are replaced by a summary. A model client translates the transcript into a request,
  checks its size, sends it with retries and reads the reply, server-sent events, which it turns
  into the events of one protocol; an adapter folds these into the events a turn reads. Shell commands and file writes are checked once more by an
  enforcer. Beside this loop the crate has the bookkeeping of the lanes in which agents work:
  registries of tasks, teams, schedules and workers, the start-up of workers and the trust in their
  directories, the life cycle of MCP servers, approval tokens for policy exceptions, the contract on
  test evidence, the rule engine for lanes and the recovery recipes for known failures.

  \<^bold>\<open>The theories.\<close> Sources are under \<^verbatim>\<open>rust/crates/runtime/src\<close> unless another path is given.
  \<^item> \<^verbatim>\<open>Prelude\<close>, \<^verbatim>\<open>Paths\<close>: strings, numerals, results, \<^verbatim>\<open>BTreeMap\<close>, \<^verbatim>\<open>serde_json::Value\<close> and \<^verbatim>\<open>std::path\<close> as far as
    the code uses them; the contracts \<open>finite_map\<close>, \<open>codec\<close> and \<open>invariant_ops\<close> as locales.
  \<^item> \<^verbatim>\<open>Json\<close> (\<^verbatim>\<open>json.rs\<close>): the renderer and the recursive-descent parser of the session format. Parsing a
    rendered value gives it back, and whatever parses is normalised by rendering.
  \<^item> \<^verbatim>\<open>Usage\<close> (\<^verbatim>\<open>usage.rs\<close>): the token counters, 32-bit words that wrap around.
  \<^item> \<^verbatim>\<open>Session\<close> (\<^verbatim>\<open>session.rs\<close>): the transcript and its two persistent forms, time stamps and
    identifiers, and the operations on a session. A saved session is loaded back; identifiers do not
    repeat; time stamps increase.
  \<^item> \<^verbatim>\<open>Compact\<close> (\<^verbatim>\<open>compact.rs\<close>): the summary of removed messages, the boundary between removed and kept
    ones, recognising an earlier summary. Compaction keeps recent messages, never parts a tool
    result from its tool use, and its summary is found again.
  \<^item> \<^verbatim>\<open>Permissions\<close> (\<^verbatim>\<open>permissions.rs\<close>): modes, rules as text, the decision. It is equal to a
    specification (\<open>grants\<close>, \<open>asks\<close>) on every branch.
  \<^item> \<^verbatim>\<open>Bash_Validation\<close>, \<^verbatim>\<open>Permission_Enforcer\<close> (\<^verbatim>\<open>bash_validation.rs\<close>, \<^verbatim>\<open>permission_enforcer.rs\<close>): the heuristics on
    shell commands, with the inputs on which they panic or do not return, and the second check
    before tools, file writes and shell commands.
  \<^item> \<^verbatim>\<open>Hooks\<close> (\<^verbatim>\<open>hooks.rs\<close>): the loop over hook commands against the \<open>verdict\<close> over their outcomes.
  \<^item> \<^verbatim>\<open>Conversation\<close> (\<^verbatim>\<open>conversation.rs\<close>, \<^verbatim>\<open>error.rs\<close>): \<^verbatim>\<open>run_turn\<close> with every callback. A turn returns; it
    adds complete rounds to the transcript; the pairing of tool uses and results is invariant; only
    calls the policy lets through are executed, proved once in the locale \<open>guarded_turn\<close> for any
    predicate on the world and interpreted for a runtime whose executor keeps a log; its part \<open>tool_turn\<close>, without the model,
    is also interpreted for a runtime that counts the calls of the model, which \<open>max_iterations\<close> bounds exactly.
  \<^item> \<^verbatim>\<open>Api_Types\<close> (\<^verbatim>\<open>api/src/types.rs\<close>, \<^verbatim>\<open>api/src/error.rs\<close>): requests, responses, stream events and errors.
  \<^item> \<^verbatim>\<open>Sse\<close> (\<^verbatim>\<open>sse.rs\<close>, \<^verbatim>\<open>api/src/sse.rs\<close>): the two readers of server-sent events. The locale \<open>chunked_parser\<close>
    states when cuts in the data do not matter; it is interpreted for both readers, and what a
    server writes is read back.
  \<^item> \<^verbatim>\<open>Event_Source\<close>: the locale of a stream that is polled for its next event. It is interpreted for both
    clients and for the two forms in which the adapter sees them.
  \<^item> \<^verbatim>\<open>Openai_Stream\<close>, \<^verbatim>\<open>Openai_Arguments\<close> (\<^verbatim>\<open>api/src/providers/openai_compat.rs\<close>): the state machine from
    completion chunks to stream events, against an automaton of the protocol; the text and the
    arguments of tool calls arrive complete, however they are cut.
  \<^item> \<^verbatim>\<open>Retry\<close>, \<^verbatim>\<open>Providers\<close> (\<^verbatim>\<open>api/src/providers/mod.rs\<close> and the loop both clients share): retries with back-off and
    jitter against the first decisive attempt, model names, \<^verbatim>\<open>.env\<close> files, and the check of a request
    against the context window.
  \<^item> \<^verbatim>\<open>Openai_Request\<close> (\<^verbatim>\<open>api/src/providers/openai_compat.rs\<close>): translation of requests, the two passes that remove
    unpaired tool messages, strict schemas, normalised replies and the client.
  \<^item> \<^verbatim>\<open>Prompt_Cache\<close>, \<^verbatim>\<open>Anthropic_Client\<close> (\<^verbatim>\<open>api/src/prompt_cache.rs\<close>, \<^verbatim>\<open>api/src/providers/anthropic.rs\<close>,
    \<^verbatim>\<open>api/src/client.rs\<close>, the request profile of \<^verbatim>\<open>telemetry/src/lib.rs\<close>): completions on disk and breaks of the prompt
    cache; credentials, requests and the stream of the Messages API.
  \<^item> \<^verbatim>\<open>Provider_Client\<close> (\<^verbatim>\<open>tools/src/lib.rs\<close>): the adapter between turn and clients with its chain of fall-backs. What
    a server streams is what the transcript records, and a finished turn is sent whole.
  \<^item> \<^verbatim>\<open>Registry_Spec\<close>, \<^verbatim>\<open>Task_Registry\<close>, \<^verbatim>\<open>Team_Cron_Registry\<close> (\<^verbatim>\<open>task_packet.rs\<close>, \<^verbatim>\<open>task_registry.rs\<close>,
    \<^verbatim>\<open>team_cron_registry.rs\<close>): the locale \<open>keyed_registry\<close> says that entries evolve independently and that
    identifiers are fresh; it is interpreted for the three registries.
  \<^item> \<^verbatim>\<open>Worker_Boot\<close>, \<^verbatim>\<open>Trust_Resolver\<close> (\<^verbatim>\<open>worker_boot.rs\<close>, \<^verbatim>\<open>trust_resolver.rs\<close>): what the screens of a worker mean,
    its state machine with an invariant over reachable workers, and the allowlist of directories.
  \<^item> \<^verbatim>\<open>Mcp_Lifecycle\<close> (\<^verbatim>\<open>mcp_lifecycle_hardened.rs\<close>, \<^verbatim>\<open>plugin_lifecycle.rs\<close>): the phases of a server, failures,
    timeouts and recovery, and health reports.
  \<^item> \<^verbatim>\<open>Approval_Tokens\<close>, \<^verbatim>\<open>Green_Contract\<close>, \<^verbatim>\<open>Policy_Engine\<close>, \<^verbatim>\<open>Recovery\<close> (\<^verbatim>\<open>approval_tokens.rs\<close>,
    \<^verbatim>\<open>green_contract.rs\<close>, \<^verbatim>\<open>policy_engine.rs\<close>, \<^verbatim>\<open>recovery_recipes.rs\<close>): state machines over explicit
    operations. Tokens are spent at most as often as granted; evaluation follows priorities; a
    recovery is tried once and then escalated.
  \<^item> \<^verbatim>\<open>Summary_Compression\<close>, \<^verbatim>\<open>Branches\<close>, \<^verbatim>\<open>Lane_Events\<close> (\<^verbatim>\<open>summary_compression.rs\<close>; \<^verbatim>\<open>branch_lock.rs\<close>, \<^verbatim>\<open>stale_branch.rs\<close>,
    \<^verbatim>\<open>stale_base.rs\<close>; \<^verbatim>\<open>lane_events.rs\<close>): a summary is cut to its budget by a greedy choice; claims on branches
    collide exactly if they overlap; a burst of events is reduced to the last outcome, and only
    superseded commits are removed.
  \<^item> \<^verbatim>\<open>Config_Validate\<close>, \<^verbatim>\<open>Config\<close>, \<^verbatim>\<open>Sandbox\<close> (\<^verbatim>\<open>config_validate.rs\<close>, \<^verbatim>\<open>config.rs\<close>, \<^verbatim>\<open>sandbox.rs\<close>): the settings
    files, their validation and merging, and the sandbox of shell commands. The last file that decides a
    setting wins at every depth, the merged settings satisfy the schema of the files, suggestions are
    the nearest names by edit distance, and requested namespaces and cuts of the network are applied or
    reported; the mode of the file system is only announced to the command.
  \<^item> \<^verbatim>\<open>Mcp_Client\<close>, \<^verbatim>\<open>Mcp_Stdio\<close>, \<^verbatim>\<open>Mcp_Manager\<close> (\<^verbatim>\<open>mcp.rs\<close>, \<^verbatim>\<open>mcp_client.rs\<close>, \<^verbatim>\<open>mcp_stdio.rs\<close>): the names and signatures of
    MCP servers, frames and requests on the standard streams of a server, and the manager that starts, asks, resets
    and stops servers. Frames are read back exactly; the manager stays consistent whatever its servers do, by the locale
    \<open>mcp_steps\<close> of relations that every elementary step keeps; the call of a tool is written at most once.

  This theory adds what spans them: a turn followed by a restart.

  \<^bold>\<open>How the code is represented.\<close> A struct is a record, an enum a datatype with the same variants
  (prefixed where two enums share one), \<^verbatim>\<open>Result\<close> a sum with the error left, a panic \<open>None\<close>. Strings are
  lists of code points and \<^verbatim>\<open>str::len\<close> counts UTF-8 bytes; \<^verbatim>\<open>usize\<close> is \<open>nat\<close>, other integers are words of
  their width. What lies outside the crates is an argument: \<^verbatim>\<open>serde_json\<close>, child processes, their streams and the limits of time, the model
  client, the tool executor, the user, the file system, the wall clock and the telemetry sink.
  A mutex is not modelled: the operations it guards are sequential.
  No bound or fuel is used: the JSON parser terminates on the length of its input, the turn loop
  on the iterations left, the readers on their buffers, the retries on the attempts left; the recursions
  that may not end, the validation of \<^verbatim>\<open>sudo\<close> commands, the loop over the events of a stream and the pages
  an MCP server sends, are partial functions, and that they return is proved where it is claimed.

  \<^bold>\<open>Not modelled.\<close> Prices and cost reports (floating point); rotating and atomically replacing log
  files, and the contention of threads on the process-wide counters; the log lines of \<^verbatim>\<open>tracing\<close> and
  the telemetry of requests; starting and killing hook processes; the HTTP library itself; the waiting of
  asynchronous code, which is an order of steps here. The other
  modules of the runtime (among them prompts and files) and
  the other crates (command line, gRPC server, tools apart from the adapter, plugins) are left for
  later work.
\<close>

section \<open>A turn and a restart\<close>

text \<open>A turn without a compaction changes of a session only the messages and the time of the last change.\<close>

definition same_header :: "Session \<Rightarrow> Session \<Rightarrow> bool" where
  "same_header s s' \<longleftrightarrow> (\<exists>ms t. s' = s\<lparr>messages := ms, updated_at_ms := t\<rparr>)"

lemma same_header_refl: "same_header s s"
  unfolding same_header_def by (intro exI [of _ "messages s"] exI [of _ "updated_at_ms s"]) simp

lemma same_header_trans: "same_header s t \<Longrightarrow> same_header t u \<Longrightarrow> same_header s u"
  unfolding same_header_def by fastforce

lemma push_header:
  assumes "push env m st = (r, st')"
  shows "same_header (rt_session st) (rt_session st')"
proof -
  obtain now clk where now: "current_time_millis (rt_clock st) = (now, clk)" by fastforce
  let ?s = "(rt_session st)\<lparr>updated_at_ms := now\<rparr>"
  let ?s' = "?s\<lparr>messages := messages ?s @ [m]\<rparr>"
  obtain q w where q: "append_persisted_message env ?s' m (world st) = (q, w)" by fastforce
  have "rt_session st' = ?s'\<lparr>messages := butlast (messages ?s')\<rparr> \<or> rt_session st' = ?s'"
    using assms unfolding push_def push_message_def touch_def now Let_def prod.case q by (cases q) auto
  moreover have "u\<lparr>messages := a, messages := b\<rparr> = u\<lparr>messages := b\<rparr>" for u :: Session and a b by simp
  ultimately have "\<exists>ms. rt_session st' = ?s\<lparr>messages := ms\<rparr>" by metis
  moreover have "s\<lparr>updated_at_ms := now, messages := ms\<rparr> = s\<lparr>messages := ms, updated_at_ms := now\<rparr>" for s :: Session and ms
    by (cases s) simp
  ultimately show ?thesis unfolding same_header_def by metis
qed

lemma run_tools_header: "run_tools env n calls rs st = (r, st') \<Longrightarrow> same_header (rt_session st) (rt_session st')"
proof (induction calls arbitrary: rs st)
  case Nil
  then show ?case by (simp add: same_header_refl)
next
  case (Cons call calls)
  obtain m st1 where t: "run_tool env n call st = (m, st1)" by fastforce
  then have st1: "rt_session st1 = rt_session st" using run_tool_spec(2) by (metis prod_cases3 snd_conv)
  obtain p st2 where p: "push env m st1 = (p, st2)" by fastforce
  have first: "same_header (rt_session st) (rt_session st2)" using push_header [OF p] st1 by simp
  show ?case
  proof (cases p)
    case (Inl e)
    with Cons.prems t p first show ?thesis by simp
  next
    case (Inr u)
    with Cons.prems t p have "run_tools env n calls (rs @ [m]) (record_tool_finished env n m st2) = (r, st')" by simp
    from Cons.IH [OF this] first show ?thesis by (auto intro: same_header_trans)
  qed
qed

lemma turn_iteration_header:
  assumes "turn_iteration env n acc st = (r, st')"
  shows "same_header (rt_session st) (rt_session st')"
  using assms
proof (cases rule: turn_iteration_cases)
  case (replied req w1 m u cache st4)
  obtain p st5 where p: "push env m st4 = (p, st5)" by fastforce
  have "same_header (rt_session st) (rt_session st5)" using push_header [OF p] replied(2) by simp
  then show ?thesis using replied(4) p
    by (auto simp: finish_round_def Let_def split: sum.splits prod.splits if_splits
        dest: run_tools_header intro: same_header_trans)
qed (simp_all add: record_turn_failed_def same_header_refl)

lemma turn_loop_header: "turn_loop env n acc st = (r, st') \<Longrightarrow> same_header (rt_session st) (rt_session st')"
proof (induction env n acc st rule: turn_loop.induct)
  case (1 env n acc st)
  obtain q st1 where q: "turn_iteration env n acc st = (q, st1)" by fastforce
  note first = turn_iteration_header [OF q]
  show ?case
  proof (cases "max_iterations env < n")
    case True
    with "1.prems" show ?thesis by (auto simp: turn_loop.simps [of env n] record_turn_failed_def same_header_refl)
  next
    case False
    show ?thesis
    proof (cases q)
      case (Inl e)
      with "1.prems" False q first show ?thesis by (auto simp: turn_loop.simps [of env n])
    next
      case (Inr b)
      obtain acc1 fin where b: "b = (acc1, fin)" by (cases b)
      show ?thesis
      proof (cases fin)
        case True
        with "1.prems" False q Inr b first show ?thesis by (auto simp: turn_loop.simps [of env n])
      next
        case more: False
        with "1.prems" False q Inr b have "turn_loop env (n + 1) acc1 st1 = (r, st')"
          by (simp add: turn_loop.simps [of env n])
        from "1.IH" [OF False q [symmetric] Inr b [symmetric] more this] first show ?thesis
          by (rule same_header_trans [rotated])
      qed
    qed
  qed
qed

lemma run_turn_header:
  assumes "run_turn env user_input st = Some (Inr summ, st')" and "auto_compaction summ = None"
  shows "same_header (rt_session st) (rt_session st')"
  using assms(1)
proof (cases rule: run_turn_cases)
  case (finished st2 acc n st3 c st4)
  have "c = None" using finished(4) assms(2) by (simp add: turn_end_def)
  then have "rt_session st' = rt_session st3" using maybe_auto_compact_None [of env st3 st4] finished(3,6) by simp
  moreover have "same_header (rt_session st) (rt_session st2)"
    using finished(1) push_header probe_frame
    by (fastforce simp: turn_start_def record_turn_started_def split: prod.splits sum.splits if_splits)
  ultimately show ?thesis using turn_loop_header [OF finished(2)] by (metis same_header_trans)
qed simp_all

text \<open>So a session that could be written before can be written after, as long as its time fits in a JSON number.\<close>

lemma same_header_writable:
  assumes "same_header s s'" and "render_jsonl_snapshot s = Inr old" and "unat (updated_at_ms s') < 2 ^ 63"
  obtains contents where "render_jsonl_snapshot s' = Inr contents"
proof -
  obtain ms t where s': "s' = s\<lparr>messages := ms, updated_at_ms := t\<rparr>" using assms(1) by (auto simp: same_header_def)
  then have t: "i64_from_u64 t k = Inr t" for k using assms(3) by (simp add: i64_from_u64_def)
  from assms(2) have "\<exists>contents. render_jsonl_snapshot s' = Inr contents"
    unfolding s' by (auto simp: render_jsonl_snapshot_def meta_record_def rbind_eq_Inr t)
  with that show thesis by blast
qed

lemma sample_snapshot:
  "is_ok (render_jsonl_snapshot s)" if "compaction s = None" "workspace_root s = Some (Utf8Path p)"
    "unat (created_at_ms s) < 2 ^ 63" "unat (updated_at_ms s) < 2 ^ 63"
  using that by (simp add: render_jsonl_snapshot_def meta_record_def i64_from_u64_def sint_nonneg_iff
      workspace_root_to_string_def is_ok_def)

lemma sample_run_snapshot:
  obtains summ st' old where "run_turn (logged sample_env) (lit ''go'') sample_runtime = Some (Inr summ, st')"
    "auto_compaction summ = None" "unat (updated_at_ms (rt_session st')) < 2 ^ 63"
    "render_jsonl_snapshot (rt_session sample_runtime) = Inr old"
proof -
  have "case run_turn (logged sample_env) (lit ''go'') sample_runtime of
      Some (Inr summ, st') \<Rightarrow> auto_compaction summ = None \<and> unat (updated_at_ms (rt_session st')) < 2 ^ 63
    | _ \<Rightarrow> False"
    by (simp add: sample_run_defs) (simp add: sample_session_def current_time_millis_def sample_clock_def Let_def saturating_inc_def)
  moreover have "is_ok (render_jsonl_snapshot (rt_session sample_runtime))"
    by (rule sample_snapshot [of _ "lit ''/w''"])
      (simp_all add: sample_runtime_def ConversationRuntime_new_def sample_session_def)
  ultimately show thesis using that by (auto simp: is_ok_def split: option.splits prod.splits sum.splits)
qed

text \<open>C16: take a session that could be written before a turn, whose tool results answer tool uses and whose usage counters are
  those of its transcript. After a successful turn without automatic compaction the session can be written, the process
  stopped, and the session loaded into a new runtime: it has the same transcript, the same usage counters,
  and every tool result in it answers a tool use.\<close>

theorem restart_resumes_turn:
  assumes "run_turn env user_input st = Some (Inr summ, st')" and "auto_compaction summ = None"
    and "usage_tracker st = UsageTracker_from_session (rt_session st)"
    and "paired [] (messages (rt_session st))"
    and "render_jsonl_snapshot (rt_session st) = Inr old" and "unat (updated_at_ms (rt_session st')) < 2 ^ 63"
    and "\<forall>e \<in> set (prompt_history (rt_session st)). unat (timestamp_ms e) < 2 ^ 63"
  shows "\<exists>contents s. render_jsonl_snapshot (rt_session st') = Inr contents
     \<and> fst (Session_load_from_path path (Inr contents) clk) = Inr s
     \<and> messages s = messages (rt_session st')
     \<and> usage_tracker (ConversationRuntime_new s clk' w) = usage_tracker st'
     \<and> paired [] (messages s)"
proof -
  let ?s = "(rt_session st')\<lparr>last_health_check_ms := None, persistence := Some path\<rparr>"
  note header = run_turn_header [OF assms(1,2)]
  obtain contents where contents: "render_jsonl_snapshot (rt_session st') = Inr contents"
    using same_header_writable [OF header assms(5,6)] .
  have "prompt_history (rt_session st') = prompt_history (rt_session st)" using header by (auto simp: same_header_def)
  then have history: "\<forall>e \<in> set (prompt_history (rt_session st')). unat (timestamp_ms e) < 2 ^ 63" using assms(7) by simp
  have "usage_tracker st' = UsageTracker_from_session (rt_session st')"
    by (rule run_turn_tracker [OF assms(1-3)])
  then have "usage_tracker (ConversationRuntime_new ?s clk' w) = usage_tracker st'"
    by (simp add: ConversationRuntime_new_def from_session_fold)
  moreover have "paired [] (messages (rt_session st'))"
    by (rule run_turn_paired [OF assms(4,1)])
  ultimately show ?thesis using contents load_snapshot [OF contents history, of path clk] by auto
qed

theorem restart_resumes_turn_witness:
  "\<exists>summ st' contents s. run_turn (logged sample_env) (lit ''go'') sample_runtime = Some (Inr summ, st')
     \<and> render_jsonl_snapshot (rt_session st') = Inr contents
     \<and> fst (Session_load_from_path (Utf8Path (lit ''f'')) (Inr contents) sample_clock) = Inr s
     \<and> messages s = messages (rt_session st')
     \<and> usage_tracker (ConversationRuntime_new s sample_clock ((), [] :: (ustr \<times> ustr) list)) = usage_tracker st'"
proof (rule sample_run_snapshot)
  fix summ st' old
  assume r: "run_turn (logged sample_env) (lit ''go'') sample_runtime = Some (Inr summ, st')"
    and a: "auto_compaction summ = None" and u: "unat (updated_at_ms (rt_session st')) < 2 ^ 63"
    and b: "render_jsonl_snapshot (rt_session sample_runtime) = Inr old"
  have "\<forall>e \<in> set (prompt_history (rt_session sample_runtime)). unat (timestamp_ms e) < 2 ^ 63"
    by (simp add: sample_runtime_def ConversationRuntime_new_def sample_session_def)
  from restart_resumes_turn [OF r a sample_paired_runtime(3,1) b u this] r show ?thesis by metis
qed

end
